(* ===== verification/Prelude.thy ===== *)
theory Prelude
  imports Main "HOL-Library.Word" "HOL-Library.Monad_Syntax" "HOL-Library.Multiset"
begin

text \<open>
  What every component of the development shares: the machine integers of the target (an ARM
  Cortex-M3, so \<open>char\<close>, \<open>short\<close> and \<open>int\<close> are 8, 16 and 32 bits), the pointers of the kernel's
  intrusive lists, chains of pointers in a field of the heap, and the stable insertion by
  decreasing priority that every waiting list of the kernel is kept in.

  The heap is modelled field by field: a member \<open>m\<close> of a control block is a function from the
  address of the block to the member's value, so that \<open>p->m = v\<close> is a function update and two
  different members never interfere.  The model is faithful to the casts of the C code, which
  reads \<open>p_lnk\<close>, \<open>p_rlnk\<close>, \<open>p_dlnk\<close>, \<open>p_blnk\<close>, \<open>delta_time\<close> and \<open>cb_type\<close> of a list head through
  a task pointer and of a task through a head pointer: those members are at the same offset in
  every structure that has them.
\<close>

unbundle bit_operations_syntax

named_theorems chain_simps \<open>rewriting of chains of pointers under heap updates\<close>
named_theorems op_defs \<open>the definitions of the kernel operations\<close>

type_synonym U8 = "8 word"
type_synonym U16 = "16 word"
type_synonym U32 = "32 word"
type_synonym U64 = "64 word"

text \<open>Memory that is addressed by words: the word at a byte address.\<close>

type_synonym memory = "U32 \<Rightarrow> U32"

section \<open>Reading machine integers\<close>

lemma unat_u8 [simp]: "unat (x :: U8) < 256"
  using unsigned_less [of x, where ?'a = nat] by simp

lemma unat_u16 [simp]: "unat (x :: U16) < 65536"
  using unsigned_less [of x, where ?'a = nat] by simp

lemma unat_u32 [simp]: "unat (x :: U32) < 4294967296"
  using unsigned_less [of x, where ?'a = nat] by simp

lemma u16_le: "unat (x :: U16) \<le> 65535"
  using unat_u16 [of x] by linarith

lemma u32_le: "unat (x :: U32) \<le> 4294967295"
  using unat_u32 [of x] by linarith

lemma unat_ucast_8_32 [simp]: "unat (ucast (x :: U8) :: U32) = unat x"
  using unat_u8 [of x] by (simp add: unsigned_ucast_eq take_bit_nat_eq_self_iff del: unat_u8)

lemma unat_ucast_16_32 [simp]: "unat (ucast (x :: U16) :: U32) = unat x"
  using unat_u16 [of x] by (simp add: unsigned_ucast_eq take_bit_nat_eq_self_iff del: unat_u16)

lemma unat_ucast_32_16: "unat (ucast (x :: U32) :: U16) = unat x mod 65536"
  by (simp add: unsigned_ucast_eq take_bit_eq_mod)

lemma unat_ucast_32_8: "unat (ucast (x :: U32) :: U8) = unat x mod 256"
  by (simp add: unsigned_ucast_eq take_bit_eq_mod)

lemma unat_add_u32: "unat x + unat y < 4294967296 \<Longrightarrow> unat (x + y :: U32) = unat x + unat y"
  by (simp add: unat_word_ariths)

lemma unat_add_u16: "unat x + unat y < 65536 \<Longrightarrow> unat (x + y :: U16) = unat x + unat y"
  by (simp add: unat_word_ariths)

lemma unat_sub_word: "unat y \<le> unat x \<Longrightarrow> unat (x - y :: 'a::len word) = unat x - unat y"
  by (simp add: unat_sub word_le_nat_alt)

section \<open>Pointers and chains\<close>

text \<open>
  A pointer is \<open>NULL\<close>, the address of one of the three global objects of the kernel that are
  linked into lists (\<open>os_rdy\<close>, \<open>os_dly\<close>, \<open>os_idle_TCB\<close>), or the address of any other block.
\<close>

datatype ptr = NULL | OS_RDY | OS_DLY | OS_IDLE | CB U32

text \<open>\<open>chain f p xs q\<close>: following \<open>f\<close> from \<open>p\<close> visits exactly the non-null blocks \<open>xs\<close> and
  arrives at \<open>q\<close>.\<close>

primrec chain :: "(ptr \<Rightarrow> ptr) \<Rightarrow> ptr \<Rightarrow> ptr list \<Rightarrow> ptr \<Rightarrow> bool" where
  "chain f p [] q \<longleftrightarrow> p = q"
| "chain f p (x # xs) q \<longleftrightarrow> p = x \<and> x \<noteq> NULL \<and> chain f (f x) xs q"

lemma chain_append [chain_simps]:
  "chain f p (xs @ ys) q \<longleftrightarrow> (\<exists>r. chain f p xs r \<and> chain f r ys q)"
  by (induction xs arbitrary: p) auto

lemma chain_upd_other [simp]: "x \<notin> set xs \<Longrightarrow> chain (f(x := y)) p xs q = chain f p xs q"
  by (induction xs arbitrary: p) auto

lemma chain_NULL [simp]: "chain f NULL xs NULL \<longleftrightarrow> xs = []"
  by (cases xs) auto

lemma chain_hd: "chain f p xs NULL \<Longrightarrow> p = (case xs of [] \<Rightarrow> NULL | x # _ \<Rightarrow> x)"
  by (cases xs) auto

lemma chain_NULL_notin: "chain f p xs q \<Longrightarrow> NULL \<notin> set xs"
  by (induction xs arbitrary: p) auto

lemma chain_unique: "chain f p xs NULL \<Longrightarrow> chain f p ys NULL \<Longrightarrow> xs = ys"
  by (induction xs arbitrary: p ys) (auto, case_tac ys, auto)

lemma chain_cong: "(\<And>x. x \<in> set xs \<Longrightarrow> f x = g x) \<Longrightarrow> chain f p xs q = chain g p xs q"
  by (induction xs arbitrary: p) auto

text \<open>Linking an element in behind another one, and out.\<close>

lemma link_insert:
  assumes "chain f p (C @ c # B) NULL" "distinct (C @ c # B)" "x \<notin> set (C @ c # B)" "x \<noteq> NULL"
  shows "chain (f(c := x, x := case B of [] \<Rightarrow> NULL | y # _ \<Rightarrow> y)) p (C @ c # x # B) NULL"
proof -
  have "chain f p C c" "c \<noteq> NULL" "chain f (f c) B NULL" using assms(1) by (auto simp: chain_append)
  moreover have "f c = (case B of [] \<Rightarrow> NULL | y # _ \<Rightarrow> y)" using calculation(3) by (rule chain_hd)
  ultimately show ?thesis using assms(2-4) by (auto simp: chain_append)
qed

lemma link_remove:
  assumes "chain f p (C @ c # x # B) NULL" "distinct (C @ c # x # B)"
  shows "chain (f(c := f x)) p (C @ c # B) NULL"
  using assms by (auto simp: chain_append)

lemma chain_splice:
  assumes "chain f p (C @ c # B) NULL" "distinct (C @ [c])" "chain f q B' NULL" "c \<notin> set B'"
  shows "chain (f(c := q)) p (C @ c # B') NULL"
  using assms by (auto simp: chain_append)

text \<open>The backward links: \<open>rchain r h xs\<close> says that \<open>r\<close> of every element of \<open>xs\<close> is the element
  before it, and of the first one the head \<open>h\<close>.\<close>

primrec rchain :: "(ptr \<Rightarrow> ptr) \<Rightarrow> ptr \<Rightarrow> ptr list \<Rightarrow> bool" where
  "rchain r h [] \<longleftrightarrow> True"
| "rchain r h (x # xs) \<longleftrightarrow> r x = h \<and> rchain r x xs"

lemma rchain_append [chain_simps]:
  "rchain r h (xs @ ys) \<longleftrightarrow> rchain r h xs \<and> rchain r (last (h # xs)) ys"
  by (induction xs arbitrary: h) auto

lemma rchain_upd_other [simp]: "x \<notin> set xs \<Longrightarrow> rchain (r(x := y)) h xs = rchain r h xs"
  by (induction xs arbitrary: h) auto

lemma rchain_cong: "(\<And>x. x \<in> set xs \<Longrightarrow> r x = r' x) \<Longrightarrow> rchain r h xs = rchain r' h xs"
  by (induction xs arbitrary: h) auto

section \<open>Lists kept by decreasing priority, first come first served among equals\<close>

definition ins_prio :: "('a \<Rightarrow> 'p::linorder) \<Rightarrow> 'a \<Rightarrow> 'a list \<Rightarrow> 'a list" where
  "ins_prio pr t xs = takeWhile (\<lambda>x. pr t \<le> pr x) xs @ t # dropWhile (\<lambda>x. pr t \<le> pr x) xs"

definition by_prio :: "('a \<Rightarrow> 'p::linorder) \<Rightarrow> 'a list \<Rightarrow> bool" where
  "by_prio pr xs = sorted_wrt (\<lambda>x y. pr y \<le> pr x) xs"

lemma mset_ins_prio [simp]: "mset (ins_prio pr t xs) = add_mset t (mset xs)"
proof -
  have "mset (takeWhile (\<lambda>x. pr t \<le> pr x) xs) + mset (dropWhile (\<lambda>x. pr t \<le> pr x) xs)
      = mset xs"
    by (metis mset_append takeWhile_dropWhile_id)
  then show ?thesis unfolding ins_prio_def by simp
qed

lemma set_ins_prio [simp]: "set (ins_prio pr t xs) = insert t (set xs)"
  by (metis mset_ins_prio set_mset_add_mset_insert set_mset_mset)

lemma distinct_ins_prio [simp]: "distinct (ins_prio pr t xs) \<longleftrightarrow> t \<notin> set xs \<and> distinct xs"
  using mset_eq_imp_distinct_iff [of "ins_prio pr t xs" "t # xs"] by simp

lemma length_ins_prio [simp]: "length (ins_prio pr t xs) = Suc (length xs)"
  using mset_eq_length [of "ins_prio pr t xs" "t # xs"] by simp

lemma ins_prio_not_Nil [simp]: "ins_prio pr t xs \<noteq> []"
  by (simp add: ins_prio_def)

lemma ins_prio_cong: "(\<And>x. x \<in> set xs \<Longrightarrow> pr x = pr' x) \<Longrightarrow> pr t = pr' t \<Longrightarrow>
    ins_prio pr t xs = ins_prio pr' t xs"
  unfolding ins_prio_def by (metis (mono_tags, lifting) dropWhile_cong takeWhile_cong)

lemma by_prio_Nil [simp]: "by_prio pr []"
  by (simp add: by_prio_def)

lemma by_prio_Cons: "by_prio pr (x # xs) \<longleftrightarrow> (\<forall>y\<in>set xs. pr y \<le> pr x) \<and> by_prio pr xs"
  by (simp add: by_prio_def)

lemma by_prio_cong: "(\<And>x. x \<in> set xs \<Longrightarrow> pr x = pr' x) \<Longrightarrow> by_prio pr xs = by_prio pr' xs"
  by (induction xs) (auto simp: by_prio_Cons)

lemma by_prio_dropWhile: "by_prio pr xs \<Longrightarrow> y \<in> set (dropWhile (\<lambda>x. v \<le> pr x) xs) \<Longrightarrow> pr y < v"
  by (induction xs) (force simp: by_prio_Cons split: if_splits)+

lemma by_prio_ins_prio: "by_prio pr xs \<Longrightarrow> by_prio pr (ins_prio pr t xs)"
  by (induction xs) (auto simp: by_prio_Cons ins_prio_def dest: set_takeWhileD set_dropWhileD)

end
