(* ===== verification/Rtx_Types.thy ===== *)
theory Rtx_Types
  imports Prelude
begin

text \<open>
  The data of the RTX kernel (\<open>rtos/rtx/TARGET_CORTEX_M/rt_TypeDef.h\<close> and the global variables
  of the \<open>rt_*.c\<close> files) as one record: a field of the record is a member of the control blocks,
  as a function of the block's address, or a global variable.

  Results: an operation that always returns is a function \<open>kernel \<Rightarrow> kernel\<close>; one that follows
  pointers returns an \<open>option\<close>, with \<open>None\<close> when the C code would dereference \<open>NULL\<close> or never
  leave its loop.  \<open>os_error\<close> (\<open>RTX_Conf_CM.c\<close>) prints a message and ends the program: it does not
  return.  The operations pass its code on in \<open>os_err\<close>, which only \<open>os_error\<close> writes, so a state in
  which \<open>os_err\<close> is set is not one that the program goes on from: it stands for the stopped kernel,
  and a step of the kernel (\<open>kstep\<close>) whose handler ends in such a state is \<open>None\<close>.
\<close>

section \<open>Constants\<close>

definition TCB :: U8 where "TCB = 0"
definition MCB :: U8 where "MCB = 1"
definition SCB :: U8 where "SCB = 2"
definition MUCB :: U8 where "MUCB = 3"
definition HCB :: U8 where "HCB = 4"

lemmas cb_types = TCB_def MCB_def SCB_def MUCB_def HCB_def

text \<open>Values of a task's \<open>state\<close> (\<open>rt_Task.h\<close>); the C code never does arithmetic on them.\<close>

datatype tstate = INACTIVE | READY | RUNNING | WAIT_DLY | WAIT_ITV | WAIT_OR | WAIT_AND
  | WAIT_SEM | WAIT_MBX | WAIT_MUT

definition OS_R_OK :: U32 where "OS_R_OK = 0"
definition OS_R_TMO :: U32 where "OS_R_TMO = 1"
definition OS_R_EVT :: U32 where "OS_R_EVT = 2"
definition OS_R_SEM :: U32 where "OS_R_SEM = 3"
definition OS_R_MBX :: U32 where "OS_R_MBX = 4"
definition OS_R_MUT :: U32 where "OS_R_MUT = 5"
definition OS_R_NOK :: U32 where "OS_R_NOK = 0xFF"

lemmas os_results = OS_R_OK_def OS_R_TMO_def OS_R_EVT_def OS_R_SEM_def OS_R_MBX_def
  OS_R_MUT_def OS_R_NOK_def

definition MAGIC_WORD :: U32 where "MAGIC_WORD = 0xE25A2EA5"

definition OS_ERR_STK_OVF :: U32 where "OS_ERR_STK_OVF = 1"
definition OS_ERR_FIFO_OVF :: U32 where "OS_ERR_FIFO_OVF = 2"
definition OS_ERR_MBX_OVF :: U32 where "OS_ERR_MBX_OVF = 3"
definition OS_ERR_TIMER_OVF :: U32 where "OS_ERR_TIMER_OVF = 4"

section \<open>The state of the kernel\<close>

record kernel =
  \<comment> \<open>members of \<open>OS_TCB\<close>; the first five also of \<open>OS_XCB\<close>, \<open>OS_MCB\<close>, \<open>OS_SCB\<close>, \<open>OS_MUCB\<close>\<close>
  cb_type :: "ptr \<Rightarrow> U8"
  p_lnk :: "ptr \<Rightarrow> ptr"
  p_rlnk :: "ptr \<Rightarrow> ptr"
  p_dlnk :: "ptr \<Rightarrow> ptr"
  p_blnk :: "ptr \<Rightarrow> ptr"
  delta_time :: "ptr \<Rightarrow> U16"
  state :: "ptr \<Rightarrow> tstate"
  prio :: "ptr \<Rightarrow> U8"
  prio_base :: "ptr \<Rightarrow> U8"
  task_id :: "ptr \<Rightarrow> U8"
  interval_time :: "ptr \<Rightarrow> U16"
  events :: "ptr \<Rightarrow> U16"
  waits :: "ptr \<Rightarrow> U16"
  msg :: "ptr \<Rightarrow> U32"
  p_mlnk :: "ptr \<Rightarrow> ptr"            \<comment> \<open>also of \<open>OS_MUCB\<close>\<close>
  priv_stack :: "ptr \<Rightarrow> U32"
  stack :: "ptr \<Rightarrow> U32"
  tsk_stack :: "ptr \<Rightarrow> U32"
  ptask :: "ptr \<Rightarrow> U32"
  argv :: "ptr \<Rightarrow> U32"
  ret0 :: "ptr \<Rightarrow> U32"              \<comment> \<open>R0 and R1 of the register frame on the task's stack\<close>
  ret1 :: "ptr \<Rightarrow> U32"
  \<comment> \<open>members of \<open>OS_MCB\<close>\<close>
  mcb_state :: "ptr \<Rightarrow> U8"
  isr_st :: "ptr \<Rightarrow> U8"
  mcb_first :: "ptr \<Rightarrow> U16"
  mcb_last :: "ptr \<Rightarrow> U16"
  mcb_count :: "ptr \<Rightarrow> U16"
  mcb_size :: "ptr \<Rightarrow> U16"
  mcb_msg :: "ptr \<Rightarrow> U16 \<Rightarrow> U32"
  \<comment> \<open>members of \<open>OS_SCB\<close> and \<open>OS_MUCB\<close>\<close>
  tokens :: "ptr \<Rightarrow> U16"
  level :: "ptr \<Rightarrow> U16"
  owner :: "ptr \<Rightarrow> ptr"
  \<comment> \<open>global variables: \<open>os_tsk\<close>, \<open>os_time\<close>, \<open>os_active_TCB\<close>, \<open>os_psq\<close>, \<open>os_robin\<close>\<close>
  run :: ptr
  new_tsk :: ptr
  os_time :: U32
  os_active_TCB :: "ptr list"
  psq_first :: U8
  psq_last :: U8
  psq_count :: U8
  psq_size :: U8
  psq_id :: "U32 \<Rightarrow> ptr"
  psq_arg :: "U32 \<Rightarrow> U32"
  robin_task :: ptr
  robin_time :: U16
  robin_tout :: U16
  \<comment> \<open>\<open>rt_System.c\<close>: the scheduler lock, the pending post-service flag, the requested PendSV\<close>
  os_lock :: bool
  os_psh_flag :: bool
  pendsv :: bool
  \<comment> \<open>memory pools by address: the free blocks, first to be allocated first, and all blocks;
    the addresses of the pools \<open>mp_tcb\<close> and \<open>mp_stk\<close>\<close>
  box_free :: "U32 \<Rightarrow> U32 list"
  box_mem :: "U32 \<Rightarrow> U32 list"
  mp_tcb :: U32
  mp_stk :: U32
  \<comment> \<open>the process stack pointer register and the lowest word of each stack\<close>
  psp :: U32
  os_stackinfo :: U32            \<comment> \<open>configuration: stack checking and size of a pool stack\<close>
  stack_word :: "U32 \<Rightarrow> U32"
  \<comment> \<open>\<open>rt_CMSIS.c\<close>: the members of \<open>os_timer_cb\<close>, the list of running timers and the queue of the
    timer thread\<close>
  tmr_next :: "ptr \<Rightarrow> ptr"
  tmr_state :: "ptr \<Rightarrow> U8"
  tmr_type :: "ptr \<Rightarrow> U8"
  tmr_tcnt :: "ptr \<Rightarrow> U32"
  tmr_icnt :: "ptr \<Rightarrow> U32"
  tmr_arg :: "ptr \<Rightarrow> U32"
  tmr_def :: "ptr \<Rightarrow> U32"
  os_timer_head :: ptr
  timer_thread :: ptr
  timer_queue :: ptr
  \<comment> \<open>the code given to \<open>os_error\<close>, which does not return\<close>
  os_err :: "U32 option"

text \<open>Assignments \<open>p->m = v\<close>.\<close>

abbreviation "set_cb_type p v \<equiv> cb_type_update (\<lambda>f. f(p := v))"
abbreviation "set_p_lnk p v \<equiv> p_lnk_update (\<lambda>f. f(p := v))"
abbreviation "set_p_rlnk p v \<equiv> p_rlnk_update (\<lambda>f. f(p := v))"
abbreviation "set_p_dlnk p v \<equiv> p_dlnk_update (\<lambda>f. f(p := v))"
abbreviation "set_p_blnk p v \<equiv> p_blnk_update (\<lambda>f. f(p := v))"
abbreviation "set_delta_time p v \<equiv> delta_time_update (\<lambda>f. f(p := v))"
abbreviation "set_state p v \<equiv> state_update (\<lambda>f. f(p := v))"
abbreviation "set_prio p v \<equiv> prio_update (\<lambda>f. f(p := v))"
abbreviation "set_prio_base p v \<equiv> prio_base_update (\<lambda>f. f(p := v))"
abbreviation "set_events p v \<equiv> events_update (\<lambda>f. f(p := v))"
abbreviation "set_waits p v \<equiv> waits_update (\<lambda>f. f(p := v))"
abbreviation "set_msg p v \<equiv> msg_update (\<lambda>f. f(p := v))"
abbreviation "set_p_mlnk p v \<equiv> p_mlnk_update (\<lambda>f. f(p := v))"
abbreviation "set_interval_time p v \<equiv> interval_time_update (\<lambda>f. f(p := v))"
abbreviation "set_mcb_state p v \<equiv> mcb_state_update (\<lambda>f. f(p := v))"
abbreviation "set_mcb_first p v \<equiv> mcb_first_update (\<lambda>f. f(p := v))"
abbreviation "set_mcb_last p v \<equiv> mcb_last_update (\<lambda>f. f(p := v))"
abbreviation "set_mcb_count p v \<equiv> mcb_count_update (\<lambda>f. f(p := v))"
abbreviation "set_mcb_msg p i v \<equiv> mcb_msg_update (\<lambda>f. f(p := (f p)(i := v)))"
abbreviation "set_tokens p v \<equiv> tokens_update (\<lambda>f. f(p := v))"
abbreviation "set_level p v \<equiv> level_update (\<lambda>f. f(p := v))"
abbreviation "set_owner p v \<equiv> owner_update (\<lambda>f. f(p := v))"

abbreviation "set_task_id p v \<equiv> task_id_update (\<lambda>f. f(p := v))"
abbreviation "set_priv_stack p v \<equiv> priv_stack_update (\<lambda>f. f(p := v))"
abbreviation "set_stack p v \<equiv> stack_update (\<lambda>f. f(p := v))"
abbreviation "set_tsk_stack p v \<equiv> tsk_stack_update (\<lambda>f. f(p := v))"
abbreviation "set_ptask p v \<equiv> ptask_update (\<lambda>f. f(p := v))"
abbreviation "set_argv p v \<equiv> argv_update (\<lambda>f. f(p := v))"
abbreviation "set_mcb_size p v \<equiv> mcb_size_update (\<lambda>f. f(p := v))"
abbreviation "set_isr_st p v \<equiv> isr_st_update (\<lambda>f. f(p := v))"

abbreviation "set_tmr_next p v \<equiv> tmr_next_update (\<lambda>f. f(p := v))"
abbreviation "set_tmr_state p v \<equiv> tmr_state_update (\<lambda>f. f(p := v))"
abbreviation "set_tmr_type p v \<equiv> tmr_type_update (\<lambda>f. f(p := v))"
abbreviation "set_tmr_tcnt p v \<equiv> tmr_tcnt_update (\<lambda>f. f(p := v))"
abbreviation "set_tmr_icnt p v \<equiv> tmr_icnt_update (\<lambda>f. f(p := v))"
abbreviation "set_tmr_arg p v \<equiv> tmr_arg_update (\<lambda>f. f(p := v))"
abbreviation "set_tmr_def p v \<equiv> tmr_def_update (\<lambda>f. f(p := v))"

text \<open>Addresses as machine words.\<close>

definition addr_of :: "ptr \<Rightarrow> U32" where
  "addr_of p = (case p of CB w \<Rightarrow> w | _ \<Rightarrow> 0)"

definition ptr_of :: "U32 \<Rightarrow> ptr" where
  "ptr_of w = (if w = 0 then NULL else CB w)"

text \<open>The pool operations the kernel uses, on the list of the free blocks; \<open>rt_MemBox.c\<close> itself is
  modelled, and shown to implement them, in the theory \<open>Rtx_MemBox\<close>.\<close>

definition alloc_box :: "U32 \<Rightarrow> kernel \<Rightarrow> U32 \<times> kernel" where
  "alloc_box pool s = (case box_free s pool of [] \<Rightarrow> (0, s)
     | b # bs \<Rightarrow> (b, s\<lparr>box_free := (box_free s)(pool := bs)\<rparr>))"

definition free_box :: "U32 \<Rightarrow> U32 \<Rightarrow> kernel \<Rightarrow> kernel" where
  "free_box pool b s = (if b \<in> set (box_mem s pool)
     then s\<lparr>box_free := (box_free s)(pool := b # box_free s pool)\<rparr> else s)"

text \<open>\<open>rt_ret_val\<close> and \<open>rt_ret_val2\<close> (\<open>HAL_CM.c\<close>) overwrite the return registers in the frame of a
  blocked task.\<close>

definition rt_ret_val :: "ptr \<Rightarrow> U32 \<Rightarrow> kernel \<Rightarrow> kernel" where
  "rt_ret_val p v0 = ret0_update (\<lambda>f. f(p := v0))"

definition rt_ret_val2 :: "ptr \<Rightarrow> U32 \<Rightarrow> U32 \<Rightarrow> kernel \<Rightarrow> kernel" where
  "rt_ret_val2 p v0 v1 = ret1_update (\<lambda>f. f(p := v1)) \<circ> ret0_update (\<lambda>f. f(p := v0))"

text \<open>The end of the kernel with an error code.\<close>

definition os_error :: "U32 \<Rightarrow> kernel \<Rightarrow> kernel" where
  "os_error c s = s\<lparr>os_err := Some c\<rparr>"

text \<open>The test that the list operations make on a list head: semaphores, mailboxes and mutexes
  keep their waiting tasks linked in both directions, the ready list only forwards.\<close>

definition is_sem_mbx :: "kernel \<Rightarrow> ptr \<Rightarrow> bool" where
  "is_sem_mbx s p \<longleftrightarrow> cb_type s p = SCB \<or> cb_type s p = MCB \<or> cb_type s p = MUCB"

text \<open>What the kernel relies on at a cold start: zeroed memory, as the C start-up code leaves it.\<close>

definition zero_kernel :: kernel where
  "zero_kernel = \<lparr>
     cb_type = (\<lambda>_. 0), p_lnk = (\<lambda>_. NULL), p_rlnk = (\<lambda>_. NULL), p_dlnk = (\<lambda>_. NULL),
     p_blnk = (\<lambda>_. NULL), delta_time = (\<lambda>_. 0), state = (\<lambda>_. INACTIVE), prio = (\<lambda>_. 0),
     prio_base = (\<lambda>_. 0), task_id = (\<lambda>_. 0), interval_time = (\<lambda>_. 0), events = (\<lambda>_. 0),
     waits = (\<lambda>_. 0), msg = (\<lambda>_. 0), p_mlnk = (\<lambda>_. NULL), priv_stack = (\<lambda>_. 0),
     stack = (\<lambda>_. 0), tsk_stack = (\<lambda>_. 0), ptask = (\<lambda>_. 0), argv = (\<lambda>_. 0), ret0 = (\<lambda>_. 0), ret1 = (\<lambda>_. 0),
     mcb_state = (\<lambda>_. 0), isr_st = (\<lambda>_. 0), mcb_first = (\<lambda>_. 0), mcb_last = (\<lambda>_. 0),
     mcb_count = (\<lambda>_. 0), mcb_size = (\<lambda>_. 0), mcb_msg = (\<lambda>_ _. 0), tokens = (\<lambda>_. 0),
     level = (\<lambda>_. 0), owner = (\<lambda>_. NULL), run = NULL, new_tsk = NULL, os_time = 0,
     os_active_TCB = [], psq_first = 0, psq_last = 0, psq_count = 0, psq_size = 0,
     psq_id = (\<lambda>_. NULL), psq_arg = (\<lambda>_. 0), robin_task = NULL, robin_time = 0,
     robin_tout = 0, os_lock = False, os_psh_flag = False, pendsv = False,
     box_free = (\<lambda>_. []), box_mem = (\<lambda>_. []), mp_tcb = 0, mp_stk = 0, psp = 0, os_stackinfo = 0,
     stack_word = (\<lambda>_. 0), tmr_next = (\<lambda>_. NULL), tmr_state = (\<lambda>_. 0), tmr_type = (\<lambda>_. 0),
     tmr_tcnt = (\<lambda>_. 0), tmr_icnt = (\<lambda>_. 0), tmr_arg = (\<lambda>_. 0), tmr_def = (\<lambda>_. 0),
     os_timer_head = NULL, timer_thread = NULL, timer_queue = NULL, os_err = None\<rparr>"

end
