(* ===== verification/Rtx_List.thy ===== *)
theory Rtx_List
  imports Rtx_Types
begin

text \<open>
  The intrusive lists of the kernel (\<open>rt_List.c\<close>): the ready list and the waiting lists of
  semaphores, mailboxes and mutexes, linked through \<open>p_lnk\<close> (and backwards through \<open>p_rlnk\<close> in
  the waiting lists), and the delay list, linked through \<open>p_dlnk\<close> and \<open>p_blnk\<close>, whose elements
  hold the time from themselves to the next element.
\<close>

section \<open>Lists by priority\<close>

text \<open>The search loop of \<open>rt_put_prio\<close>.\<close>

partial_function (option) put_prio_search ::
    "kernel \<Rightarrow> U8 \<Rightarrow> ptr \<Rightarrow> ptr \<Rightarrow> (ptr \<times> ptr) option" where
  "put_prio_search s pr p_CB p_CB2 =
     (if p_CB2 \<noteq> NULL \<and> pr \<le> prio s p_CB2
      then put_prio_search s pr p_CB2 (p_lnk s p_CB2)
      else Some (p_CB, p_CB2))"

definition rt_put_prio :: "ptr \<Rightarrow> ptr \<Rightarrow> kernel \<Rightarrow> kernel option" where
  "rt_put_prio p_CB p_task s = do {
     let sem_mbx = is_sem_mbx s p_CB;
     (p_CB, p_CB2) \<leftarrow> put_prio_search s (prio s p_task) p_CB (p_lnk s p_CB);
     let s = set_p_lnk p_CB p_task (set_p_lnk p_task p_CB2 s);
     Some (if sem_mbx
           then let s = (if p_CB2 \<noteq> NULL then set_p_rlnk p_CB2 p_task s else s)
                in set_p_rlnk p_task p_CB s
           else set_p_rlnk p_task NULL s)
   }"

text \<open>\<open>rt_get_first\<close> dereferences the first element without a test: \<open>None\<close> on an empty list.\<close>

definition rt_get_first :: "ptr \<Rightarrow> kernel \<Rightarrow> (ptr \<times> kernel) option" where
  "rt_get_first p_CB s =
     (let p_first = p_lnk s p_CB in
      if p_first = NULL then None
      else let s = set_p_lnk p_CB (p_lnk s p_first) s in
        Some (p_first,
          if is_sem_mbx s p_CB
          then let s = (if p_lnk s p_first \<noteq> NULL
                        then set_p_lnk p_first NULL (set_p_rlnk (p_lnk s p_first) p_CB s)
                        else s)
               in set_p_rlnk p_first NULL s
          else set_p_lnk p_first NULL s))"

definition rt_put_rdy_first :: "ptr \<Rightarrow> kernel \<Rightarrow> kernel" where
  "rt_put_rdy_first p_task s =
     set_p_lnk OS_RDY p_task (set_p_rlnk p_task NULL (set_p_lnk p_task (p_lnk s OS_RDY) s))"

definition rt_get_same_rdy_prio :: "kernel \<Rightarrow> (ptr \<times> kernel) option" where
  "rt_get_same_rdy_prio s =
     (let p_first = p_lnk s OS_RDY in
      if p_first = NULL then None
      else if prio s p_first = prio s (run s)
      then Some (p_first, set_p_lnk OS_RDY (p_lnk s (p_lnk s OS_RDY)) s)
      else Some (NULL, s))"

text \<open>The macro \<open>rt_rdy_prio\<close> of \<open>rt_List.h\<close>.\<close>

definition rt_rdy_prio :: "kernel \<Rightarrow> U8 option" where
  "rt_rdy_prio s = (if p_lnk s OS_RDY = NULL then None else Some (prio s (p_lnk s OS_RDY)))"

text \<open>The search of \<open>rt_rmv_list\<close> through the ready list: the element that links to \<open>p_task\<close>, or
  \<open>NULL\<close> at the end of the list.\<close>

partial_function (option) rdy_search :: "kernel \<Rightarrow> ptr \<Rightarrow> ptr \<Rightarrow> ptr option" where
  "rdy_search s p_task p_b =
     (if p_b = NULL then Some NULL
      else if p_lnk s p_b = p_task then Some p_b
      else rdy_search s p_task (p_lnk s p_b))"

definition rt_rmv_list :: "ptr \<Rightarrow> kernel \<Rightarrow> kernel option" where
  "rt_rmv_list p_task s =
     (if p_rlnk s p_task \<noteq> NULL
      then let s = set_p_lnk (p_rlnk s p_task) (p_lnk s p_task) s in
        Some (if p_lnk s p_task \<noteq> NULL
              then set_p_rlnk (p_lnk s p_task) (p_rlnk s p_task) s else s)
      else do {
        p_b \<leftarrow> rdy_search s p_task OS_RDY;
        Some (if p_b \<noteq> NULL then set_p_lnk p_b (p_lnk s p_task) s else s)
      })"

text \<open>The loop of \<open>rt_resort_prio\<close> that walks back to the header of a waiting list.\<close>

partial_function (option) find_header :: "kernel \<Rightarrow> ptr \<Rightarrow> ptr option" where
  "find_header s p_CB =
     (if p_CB = NULL then None
      else if cb_type s p_CB = TCB then find_header s (p_rlnk s p_CB) else Some p_CB)"

definition rt_resort_prio :: "ptr \<Rightarrow> kernel \<Rightarrow> kernel option" where
  "rt_resort_prio p_task s =
     (if p_rlnk s p_task = NULL
      then if state s p_task = READY
        then do { s \<leftarrow> rt_rmv_list p_task s; rt_put_prio OS_RDY p_task s }
        else Some s
      else do {
        p_CB \<leftarrow> find_header s (p_rlnk s p_task);
        s \<leftarrow> rt_rmv_list p_task s;
        rt_put_prio p_CB p_task s
      })"

section \<open>The delay list\<close>

text \<open>The search loop of \<open>rt_put_dly\<close>: \<open>True\<close> when it stopped at the end of the list.\<close>

partial_function (option) put_dly_search ::
    "kernel \<Rightarrow> U32 \<Rightarrow> ptr \<Rightarrow> U32 \<Rightarrow> (bool \<times> ptr \<times> U32) option" where
  "put_dly_search s idelay p delta =
     (if delta < idelay
      then if p_dlnk s p = NULL then Some (True, p, delta)
        else put_dly_search s idelay (p_dlnk s p) (delta + ucast (delta_time s (p_dlnk s p)))
      else Some (False, p, delta))"

text \<open>The label \<open>last\<close> of \<open>rt_put_dly\<close>.\<close>

definition put_dly_last :: "ptr \<Rightarrow> U32 \<Rightarrow> ptr \<Rightarrow> U32 \<Rightarrow> kernel \<Rightarrow> kernel" where
  "put_dly_last p_task idelay p delta s =
     set_delta_time p_task 0 (set_delta_time p (ucast (idelay - delta))
       (set_p_blnk p_task p (set_p_dlnk p p_task (set_p_dlnk p_task NULL s))))"

definition rt_put_dly :: "ptr \<Rightarrow> U16 \<Rightarrow> kernel \<Rightarrow> kernel option" where
  "rt_put_dly p_task delay s =
     (let idelay = ucast delay in
      if p_dlnk s OS_DLY = NULL then Some (put_dly_last p_task idelay OS_DLY 0 s)
      else do {
        (at_end, p, delta) \<leftarrow> put_dly_search s idelay OS_DLY (ucast (delta_time s OS_DLY));
        Some (if at_end then put_dly_last p_task idelay p delta s
          else
            let s = set_p_blnk p_task p (set_p_dlnk p p_task (set_p_dlnk p_task (p_dlnk s p) s));
                s = (if p_dlnk s p_task \<noteq> NULL then set_p_blnk (p_dlnk s p_task) p_task s else s);
                s = set_delta_time p_task (ucast (delta - idelay)) s
            in set_delta_time p (delta_time s p - delta_time s p_task) s)
      })"

text \<open>One turn of the loop of \<open>rt_dec_dly\<close>: the first delayed task becomes ready.\<close>

definition dec_dly_expire :: "kernel \<Rightarrow> kernel option" where
  "dec_dly_expire s = do {
     let p_rdy = p_dlnk s OS_DLY;
     let s = (if p_rlnk s p_rdy \<noteq> NULL
              then let s = set_p_lnk (p_rlnk s p_rdy) (p_lnk s p_rdy) s;
                       s = (if p_lnk s p_rdy \<noteq> NULL
                            then set_p_lnk p_rdy NULL
                                   (set_p_rlnk (p_lnk s p_rdy) (p_rlnk s p_rdy) s)
                            else s)
                   in set_p_rlnk p_rdy NULL s
              else s);
     s \<leftarrow> rt_put_prio OS_RDY p_rdy s;
     let s = set_delta_time OS_DLY (delta_time s p_rdy) s;
     let s = (if state s p_rdy = WAIT_ITV
              then set_delta_time p_rdy (interval_time s p_rdy + ucast (os_time s)) s else s);
     let s = set_state p_rdy READY s;
     let s = set_p_dlnk OS_DLY (p_dlnk s p_rdy) s;
     let s = (if p_dlnk s p_rdy \<noteq> NULL
              then set_p_dlnk p_rdy NULL (set_p_blnk (p_dlnk s p_rdy) OS_DLY s) else s);
     Some (set_p_blnk p_rdy NULL s)
   }"

partial_function (option) dec_dly_loop :: "kernel \<Rightarrow> kernel option" where
  "dec_dly_loop s =
     (if delta_time s OS_DLY = 0 \<and> p_dlnk s OS_DLY \<noteq> NULL
      then Option.bind (dec_dly_expire s) dec_dly_loop
      else Some s)"

definition rt_dec_dly :: "kernel \<Rightarrow> kernel option" where
  "rt_dec_dly s =
     (if p_dlnk s OS_DLY = NULL then Some s
      else dec_dly_loop (set_delta_time OS_DLY (delta_time s OS_DLY - 1) s))"

definition rt_rmv_dly :: "ptr \<Rightarrow> kernel \<Rightarrow> kernel" where
  "rt_rmv_dly p_task s =
     (let p_b = p_blnk s p_task in
      if p_b \<noteq> NULL
      then let s = set_p_dlnk p_b (p_dlnk s p_task) s;
               s = (if p_dlnk s p_task \<noteq> NULL
                    then let s = set_delta_time p_b (delta_time s p_b + delta_time s p_task) s;
                             s = set_p_blnk (p_dlnk s p_task) p_b s
                         in set_p_dlnk p_task NULL s
                    else set_delta_time p_b 0 s)
           in set_p_blnk p_task NULL s
      else s)"

section \<open>The post-service queue\<close>

text \<open>\<open>rt_inc_qi\<close> (\<open>rt_HAL_CM.h\<close>, the variant without exclusive access): reserve a slot; the result
  is the slot's index, or a value not below \<open>size\<close> when the queue is full.\<close>

definition rt_inc_qi :: "kernel \<Rightarrow> U32 \<times> kernel" where
  "rt_inc_qi s =
     (let cnt = ucast (psq_count s) :: U32 in
      if cnt < ucast (psq_size s)
      then let s = s\<lparr>psq_count := ucast (cnt + 1)\<rparr>;
               cnt = ucast (psq_first s) :: U32;
               c2 = cnt + 1;
               c2 = (if c2 = ucast (psq_size s) then 0 else c2)
           in (cnt, s\<lparr>psq_first := ucast c2\<rparr>)
      else (cnt, s))"

definition rt_psq_enq :: "ptr \<Rightarrow> U32 \<Rightarrow> kernel \<Rightarrow> kernel" where
  "rt_psq_enq entry arg s =
     (let (idx, s) = rt_inc_qi s in
      if idx < ucast (psq_size s)
      then s\<lparr>psq_id := (psq_id s)(idx := entry), psq_arg := (psq_arg s)(idx := arg)\<rparr>
      else os_error OS_ERR_FIFO_OVF s)"

end
