(* ===== verification/Rtx_Queues.thy ===== *)
theory Rtx_Queues
  imports Rtx_List
begin

text \<open>
  The abstract view of the lists by priority: a state of the kernel holds a family of queues
  \<open>q\<close>, one list of tasks for the head of the ready list and for every semaphore, mailbox and
  mutex, when \<open>p_lnk\<close> from the head visits exactly the list, \<open>p_rlnk\<close> leads back in the lists of
  the synchronisation objects and is \<open>NULL\<close> for every other task, and no task is in two lists.
  Each operation of \<open>rt_List.c\<close> on these lists is shown to succeed, to change nothing but the two
  links, and to implement a function on lists: stable insertion by decreasing priority, taking the
  head, adding in front, removal, and removal followed by insertion.

  The parameter \<open>x\<close> of \<open>queues s q x\<close> is a task whose \<open>p_rlnk\<close> is unconstrained: \<open>rt_rmv_list\<close>
  leaves it stale, which is sound because its callers insert the task again.
\<close>

definition is_task :: "kernel \<Rightarrow> ptr \<Rightarrow> bool" where
  "is_task s t \<longleftrightarrow> cb_type s t = TCB \<and> t \<notin> {NULL, OS_RDY, OS_DLY} \<and>
     (t = OS_IDLE \<or> t \<in> set (os_active_TCB s))"

text \<open>The idle task and every entry of the table of active tasks is a task.\<close>

definition tasks_ok :: "kernel \<Rightarrow> bool" where
  "tasks_ok s \<longleftrightarrow> is_task s OS_IDLE \<and> (\<forall>t\<in>set (os_active_TCB s). t = NULL \<or> is_task s t)"

lemma tasks_ok_cong: "is_task s' = is_task s \<Longrightarrow> os_active_TCB s' = os_active_TCB s \<Longrightarrow>
    tasks_ok s' = tasks_ok s"
  by (simp add: tasks_ok_def)

lemma is_task_upd [simp]:
  "is_task (state_update g s) = is_task s" "tasks_ok (state_update g s) = tasks_ok s"
  "is_task (set_tokens t w s) = is_task s" "tasks_ok (set_tokens t w s) = tasks_ok s"
  "is_task (rt_ret_val t a s) = is_task s" "tasks_ok (rt_ret_val t a s) = tasks_ok s"
  "is_task (rt_ret_val2 t a b s) = is_task s" "tasks_ok (rt_ret_val2 t a b s) = tasks_ok s"
  by (auto simp: is_task_def tasks_ok_def rt_ret_val_def rt_ret_val2_def fun_eq_iff)

definition is_head :: "kernel \<Rightarrow> ptr \<Rightarrow> bool" where
  "is_head s h \<longleftrightarrow> h = OS_RDY \<or> is_sem_mbx s h"

definition queues :: "kernel \<Rightarrow> (ptr \<Rightarrow> ptr list) \<Rightarrow> ptr \<Rightarrow> bool" where
  "queues s q x \<longleftrightarrow>
     cb_type s OS_RDY = HCB \<and> cb_type s OS_DLY = HCB \<and> cb_type s NULL = TCB \<and>
     (\<forall>h. is_head s h \<longrightarrow> chain (p_lnk s) (p_lnk s h) (q h) NULL) \<and>
     (\<forall>h. \<not> is_head s h \<longrightarrow> q h = []) \<and>
     (\<forall>h. is_sem_mbx s h \<longrightarrow> rchain (p_rlnk s) h (q h)) \<and>
     (\<forall>t. is_task s t \<longrightarrow> t \<noteq> x \<longrightarrow> (\<forall>h. is_sem_mbx s h \<longrightarrow> t \<notin> set (q h)) \<longrightarrow> p_rlnk s t = NULL) \<and>
     (\<forall>h. distinct (q h)) \<and>
     (\<forall>h h'. h \<noteq> h' \<longrightarrow> set (q h) \<inter> set (q h') = {}) \<and>
     (\<forall>h. \<forall>t\<in>set (q h). is_task s t)"

lemma is_task_not_head: "is_task s t \<Longrightarrow> \<not> is_head s t"
  by (auto simp: is_task_def is_head_def is_sem_mbx_def cb_types)

lemma is_head_RDY [simp]: "is_head s OS_RDY"
  by (simp add: is_head_def)

lemma queues_upd:
  assumes Q: "queues s q t0" and h: "is_head s h"
    and cb: "cb_type s' = cb_type s" and act: "os_active_TCB s' = os_active_TCB s"
    and lnk: "\<And>x. x \<noteq> h \<Longrightarrow> x \<notin> X \<Longrightarrow> p_lnk s' x = p_lnk s x"
    and rlnk: "\<And>x. x \<notin> X \<Longrightarrow> p_rlnk s' x = p_rlnk s x"
    and X: "\<And>x. x \<in> X \<Longrightarrow> is_task s x" "\<And>x h'. x \<in> X \<Longrightarrow> h' \<noteq> h \<Longrightarrow> x \<notin> set (q h')"
    and ch: "chain (p_lnk s') (p_lnk s' h) xs NULL"
    and rch: "is_sem_mbx s h \<Longrightarrow> rchain (p_rlnk s') h xs"
    and xs: "distinct xs" "set xs \<subseteq> X" "set (q h) \<subseteq> X"
    and ex: "\<And>x. x \<in> X \<Longrightarrow> x \<notin> set xs \<or> \<not> is_sem_mbx s h \<Longrightarrow> x \<noteq> t1 \<Longrightarrow> p_rlnk s' x = NULL"
    and t0: "t0 \<in> X \<or> t0 = t1 \<or> t0 = NULL"
  shows "queues s' (q(h := xs)) t1"
proof -
  have sem: "is_sem_mbx s' = is_sem_mbx s" and tsk: "is_task s' = is_task s"
    and hd: "is_head s' = is_head s"
    using cb act by (auto simp: is_sem_mbx_def is_task_def is_head_def fun_eq_iff)
  have qt: "\<And>h t. t \<in> set (q h) \<Longrightarrow> is_task s t" using Q by (auto simp: queues_def)
  have headX: "\<And>h'. is_head s h' \<Longrightarrow> h' \<notin> X" using X(1) is_task_not_head by blast
  have other: "chain (p_lnk s') (p_lnk s' h') (q h') NULL" if "is_head s h'" "h' \<noteq> h" for h'
  proof -
    have "chain (p_lnk s) (p_lnk s h') (q h') NULL" using Q that by (auto simp: queues_def)
    moreover have "p_lnk s' h' = p_lnk s h'" using lnk headX that by auto
    moreover have "chain (p_lnk s') (p_lnk s h') (q h') NULL = chain (p_lnk s) (p_lnk s h') (q h') NULL"
    proof (rule chain_cong)
      fix x assume x: "x \<in> set (q h')"
      then have "x \<notin> X" using X(2) that by blast
      moreover have "x \<noteq> h" using x qt h is_task_not_head by blast
      ultimately show "p_lnk s' x = p_lnk s x" using lnk by blast
    qed
    ultimately show ?thesis by simp
  qed
  have other_r: "rchain (p_rlnk s') h' (q h')" if "is_sem_mbx s h'" "h' \<noteq> h" for h'
  proof -
    have "rchain (p_rlnk s) h' (q h')" using Q that by (auto simp: queues_def)
    moreover have "rchain (p_rlnk s') h' (q h') = rchain (p_rlnk s) h' (q h')"
      by (rule rchain_cong) (use X(2) that rlnk in blast)
    ultimately show ?thesis by simp
  qed
  have nul: "p_rlnk s' t = NULL" if t: "is_task s t" "t \<noteq> t1"
    "\<forall>h'. is_sem_mbx s h' \<longrightarrow> t \<notin> set ((q(h := xs)) h')" for t
  proof (cases "t \<in> X")
    case True
    then show ?thesis using ex t by fastforce
  next
    case False
    then have "t \<noteq> t0" using t0 t by (auto simp: is_task_def)
    moreover have "\<forall>h'. is_sem_mbx s h' \<longrightarrow> t \<notin> set (q h')"
      using t(3) False xs(3) by (metis fun_upd_apply subsetD)
    ultimately have "p_rlnk s t = NULL" using Q t(1) by (auto simp: queues_def)
    then show ?thesis using rlnk False by simp
  qed
  have disj: "set ((q(h := xs)) h1) \<inter> set ((q(h := xs)) h2) = {}" if "h1 \<noteq> h2" for h1 h2
  proof -
    have "set (q h1) \<inter> set (q h2) = {}" using Q that by (simp add: queues_def)
    moreover have "set xs \<inter> set (q h') = {}" if "h' \<noteq> h" for h'
      using xs(2) X(2) that by blast
    ultimately show ?thesis using that by auto
  qed
  show ?thesis unfolding queues_def sem tsk hd cb
    using Q h ch rch xs X(1) other other_r nul disj by (auto simp: queues_def)
qed

lemma put_prio_search:
  "chain (p_lnk s) p xs NULL \<Longrightarrow>
   put_prio_search s pr c p = Some (last (c # takeWhile (\<lambda>x. pr \<le> prio s x) xs),
     case dropWhile (\<lambda>x. pr \<le> prio s x) xs of [] \<Rightarrow> NULL | y # _ \<Rightarrow> y)"
  by (induction xs arbitrary: c p) (auto simp: put_prio_search.simps)


abbreviation hd0 :: "ptr list \<Rightarrow> ptr" where
  "hd0 xs \<equiv> (case xs of [] \<Rightarrow> NULL | x # _ \<Rightarrow> x)"

lemma chain_insert:
  assumes "chain f (f h) (A @ B) NULL" "distinct (A @ B)" "t \<notin> set (A @ B)" "h \<notin> set (A @ B)"
    "t \<noteq> h" "t \<noteq> NULL"
  shows "chain (f(t := hd0 B, last (h # A) := t)) ((f(t := hd0 B, last (h # A) := t)) h)
    (A @ t # B) NULL"
proof (cases A rule: rev_cases)
  case Nil
  then show ?thesis using assms chain_hd [of f "f h" B] by auto
next
  case (snoc A' c)
  then show ?thesis using assms chain_hd [of f "f c" B] by (auto simp: chain_append)
qed

lemma rchain_insert:
  assumes "rchain r h (A @ B)" "distinct (A @ B)" "t \<notin> set (A @ B)"
  shows "rchain ((if B \<noteq> [] then r(hd0 B := t) else r)(t := last (h # A))) h (A @ t # B)"
proof (cases B)
  case Nil
  then show ?thesis using assms by (auto simp: rchain_append)
next
  case (Cons b B')
  then have "b \<notin> set A" "b \<notin> set B'" "t \<notin> set A" "t \<notin> set B'" "t \<noteq> b" using assms by auto
  with Cons show ?thesis using assms(1) by (simp add: rchain_append)
qed

definition links_only :: "kernel \<Rightarrow> kernel \<Rightarrow> bool" where
  "links_only s s' \<longleftrightarrow> (\<exists>f r. s' = s\<lparr>p_lnk := f, p_rlnk := r\<rparr>)"

lemma links_only_eq: "links_only s (s\<lparr>p_lnk := f, p_rlnk := r\<rparr>)"
  unfolding links_only_def by (rule exI, rule exI, rule refl)

lemma links_onlyI: "s' = s\<lparr>p_lnk := p_lnk s', p_rlnk := p_rlnk s'\<rparr> \<Longrightarrow> links_only s s'"
  using links_only_eq by metis

lemma queues_weaken: "queues s q NULL \<Longrightarrow> queues s q t"
  by (auto simp: queues_def is_task_def)

lemma queues_chain: "queues s q x \<Longrightarrow> is_head s h \<Longrightarrow> chain (p_lnk s) (p_lnk s h) (q h) NULL"
  by (simp add: queues_def)

lemma queues_rchain: "queues s q x \<Longrightarrow> is_sem_mbx s h \<Longrightarrow> rchain (p_rlnk s) h (q h)"
  by (simp add: queues_def)

lemma queues_task: "queues s q x \<Longrightarrow> t \<in> set (q h) \<Longrightarrow> is_task s t"
  by (auto simp: queues_def)

lemma queues_disjoint: "queues s q x \<Longrightarrow> t \<in> set (q h) \<Longrightarrow> t \<in> set (q h') \<Longrightarrow> h = h'"
  unfolding queues_def by blast

lemma queues_distinct: "queues s q x \<Longrightarrow> distinct (q h)"
  by (auto simp: queues_def)

lemma queues_head_notin: "queues s q x \<Longrightarrow> is_head s h \<Longrightarrow> h \<notin> set (q h')"
  using queues_task is_task_not_head by blast

lemma queues_rlnk_NULL: "queues s q x \<Longrightarrow> is_task s t \<Longrightarrow> t \<noteq> x \<Longrightarrow>
    (\<And>h. is_sem_mbx s h \<Longrightarrow> t \<notin> set (q h)) \<Longrightarrow> p_rlnk s t = NULL"
  by (simp add: queues_def)

lemma RDY_not_sem: "queues s q x \<Longrightarrow> \<not> is_sem_mbx s OS_RDY"
  by (auto simp: queues_def is_sem_mbx_def cb_types)

lemma rt_put_prio_queues:
  assumes Q: "queues s q t" and h: "is_head s h" and t: "is_task s t" "\<And>h'. t \<notin> set (q h')"
  obtains s' where "rt_put_prio h t s = Some s'" "links_only s s'"
    "queues s' (q(h := ins_prio (prio s) t (q h))) NULL"
proof -
  define A where "A = takeWhile (\<lambda>x. prio s t \<le> prio s x) (q h)"
  define B where "B = dropWhile (\<lambda>x. prio s t \<le> prio s x) (q h)"
  define c where "c = last (h # A)"
  have AB: "q h = A @ B" by (simp add: A_def B_def)
  have ins: "ins_prio (prio s) t (q h) = A @ t # B" by (simp add: ins_prio_def A_def B_def)
  have ch: "chain (p_lnk s) (p_lnk s h) (A @ B) NULL" using queues_chain [OF Q h] by (simp add: AB)
  have dist: "distinct (A @ B)" using queues_distinct [OF Q, of h] by (simp add: AB)
  have th: "t \<noteq> h" "t \<noteq> NULL" using t(1) h is_task_not_head by (auto simp: is_task_def)
  have tAB: "t \<notin> set (A @ B)" and hAB: "h \<notin> set (A @ B)"
    using t(2) [of h] queues_head_notin [OF Q h, of h] by (simp_all add: AB)
  have search: "put_prio_search s (prio s t) h (p_lnk s h) = Some (c, hd0 B)"
    using put_prio_search [OF ch, of "prio s t" h] by (simp add: c_def A_def B_def flip: AB)
  have chB: "B \<noteq> [] \<Longrightarrow> hd0 B \<noteq> NULL"
    using chain_NULL_notin [OF ch] by (cases B) auto
  let ?f = "(p_lnk s)(t := hd0 B, c := t)"
  let ?r = "if is_sem_mbx s h then (if B \<noteq> [] then (p_rlnk s)(hd0 B := t) else p_rlnk s)(t := c)
    else (p_rlnk s)(t := NULL)"
  let ?s = "s\<lparr>p_lnk := ?f, p_rlnk := ?r\<rparr>"
  have eq: "rt_put_prio h t s = Some ?s"
    using chB by (cases "B = []") (auto simp: rt_put_prio_def search Let_def)
  have "queues ?s (q(h := A @ t # B)) NULL"
  proof (rule queues_upd [OF Q h, where X = "insert t (set (q h))"])
    have "c \<in> insert h (set A)" by (simp add: c_def)
    then show "\<And>x. x \<noteq> h \<Longrightarrow> x \<notin> insert t (set (q h)) \<Longrightarrow> p_lnk ?s x = p_lnk s x"
      by (auto simp: AB)
    have "B \<noteq> [] \<Longrightarrow> hd0 B \<in> set B" by (cases B) auto
    then show "\<And>x. x \<notin> insert t (set (q h)) \<Longrightarrow> p_rlnk ?s x = p_rlnk s x"
      by (auto simp: AB)
    show "\<And>x. x \<in> insert t (set (q h)) \<Longrightarrow> is_task s x" using t(1) queues_task [OF Q] by auto
    show "\<And>x h'. x \<in> insert t (set (q h)) \<Longrightarrow> h' \<noteq> h \<Longrightarrow> x \<notin> set (q h')"
      using t(2) queues_disjoint [OF Q] by blast
    show "chain (p_lnk ?s) (p_lnk ?s h) (A @ t # B) NULL"
      using chain_insert [OF ch dist tAB hAB th] by (simp add: c_def)
    show "rchain (p_rlnk ?s) h (A @ t # B)" if "is_sem_mbx s h"
    proof -
      have "rchain (p_rlnk s) h (A @ B)" using queues_rchain [OF Q that] by (simp add: AB)
      from rchain_insert [OF this dist tAB] show ?thesis using that by (simp add: c_def)
    qed
    show "distinct (A @ t # B)" using dist tAB by auto
    show "set (A @ t # B) \<subseteq> insert t (set (q h))" by (auto simp: AB)
    show "set (q h) \<subseteq> insert t (set (q h))" by auto
    show "p_rlnk ?s x = NULL" if x: "x \<in> insert t (set (q h))"
      "x \<notin> set (A @ t # B) \<or> \<not> is_sem_mbx s h" "x \<noteq> NULL" for x
    proof -
      have "\<not> is_sem_mbx s h" using x(1,2) AB by auto
      moreover have "p_rlnk s x = NULL" if "x \<in> set (q h)" "x \<noteq> t"
        using queues_rlnk_NULL [OF Q queues_task [OF Q that(1)] that(2)]
          queues_disjoint [OF Q that(1)] calculation by blast
      ultimately show ?thesis using x(1) by auto
    qed
  qed simp_all
  then show thesis using that [OF eq] links_only_eq by (simp add: ins)
qed


lemma chain_remove:
  assumes "chain f (f h) (A @ t # B) NULL" "distinct (A @ t # B)" "h \<notin> set (A @ t # B)"
  shows "chain (f(last (h # A) := hd0 B)) ((f(last (h # A) := hd0 B)) h) (A @ B) NULL"
    and "f t = hd0 B" and "f (last (h # A)) = t"
proof -
  show t: "f t = hd0 B" and "f (last (h # A)) = t"
    using assms(1) chain_hd [of f "f t" B] by (cases A rule: rev_cases; auto simp: chain_append)+
  show "chain (f(last (h # A) := hd0 B)) ((f(last (h # A) := hd0 B)) h) (A @ B) NULL"
    using assms t by (cases A rule: rev_cases) (auto simp: chain_append)
qed

lemma rchain_remove:
  assumes "rchain r h (A @ t # B)" "distinct (A @ t # B)"
  shows "rchain (if B \<noteq> [] then r(hd0 B := last (h # A)) else r) h (A @ B)"
    and "r t = last (h # A)"
  using assms by (cases B; auto simp: rchain_append)+

lemma rdy_search_found:
  "chain (p_lnk s) (p_lnk s c) (A @ t # B) NULL \<Longrightarrow> c \<noteq> NULL \<Longrightarrow> t \<notin> set A \<Longrightarrow>
   rdy_search s t c = Some (last (c # A))"
  by (induction A arbitrary: c) (auto simp: rdy_search.simps)

lemma rdy_search_absent:
  "chain (p_lnk s) (p_lnk s c) A NULL \<Longrightarrow> c \<noteq> NULL \<Longrightarrow> t \<notin> set A \<Longrightarrow> t \<noteq> NULL \<Longrightarrow>
   rdy_search s t c = Some NULL"
  by (induction A arbitrary: c) (auto simp: rdy_search.simps)

lemma find_header_head:
  "rchain (p_rlnk s) h A \<Longrightarrow> (\<And>x. x \<in> set A \<Longrightarrow> is_task s x) \<Longrightarrow> h \<noteq> NULL \<Longrightarrow> cb_type s h \<noteq> TCB \<Longrightarrow>
   find_header s (last (h # A)) = Some h"
proof (induction A rule: rev_induct)
  case Nil
  then show ?case by (simp add: find_header.simps)
next
  case (snoc x A)
  then have "find_header s (last (h # A)) = Some h" "p_rlnk s x = last (h # A)" "is_task s x"
    by (auto simp: rchain_append)
  then show ?case by (simp add: find_header.simps [of s x] is_task_def)
qed

lemma sem_head_facts:
  assumes "queues s q x" "is_sem_mbx s h"
  shows "h \<noteq> NULL" "cb_type s h \<noteq> TCB" "h \<noteq> OS_RDY"
  using assms by (auto simp: queues_def is_sem_mbx_def cb_types)

lemma rt_get_first_queues:
  assumes Q: "queues s q NULL" and h: "is_head s h" and hd: "q h = t # B"
  obtains s' where "rt_get_first h s = Some (t, s')" "links_only s s'"
    "queues s' (q(h := B)) NULL"
proof -
  have ch: "chain (p_lnk s) (p_lnk s h) ([] @ t # B) NULL" using queues_chain [OF Q h] by (simp add: hd)
  have dist: "distinct ([] @ t # B)" using queues_distinct [OF Q, of h] by (simp add: hd)
  have hAB: "h \<notin> set ([] @ t # B)" using queues_head_notin [OF Q h, of h] by (simp add: hd)
  note cr = chain_remove [OF ch dist hAB]
  have tn: "t \<noteq> NULL" and hB: "B \<noteq> [] \<Longrightarrow> hd0 B \<noteq> NULL" and hBt: "B \<noteq> [] \<Longrightarrow> hd0 B \<in> set B"
    using chain_NULL_notin [OF ch] by (auto split: list.splits)
  let ?f = "(p_lnk s)(h := hd0 B, t := NULL)"
  let ?r = "if is_sem_mbx s h then (if B \<noteq> [] then (p_rlnk s)(hd0 B := h) else p_rlnk s)(t := NULL)
    else p_rlnk s"
  let ?s = "s\<lparr>p_lnk := ?f, p_rlnk := ?r\<rparr>"
  have "rt_get_first h s = Some (t, ?s)"
    using cr(2,3) tn hB hAB
    by (cases "B = []") (auto simp: rt_get_first_def Let_def is_sem_mbx_def fun_upd_idem)
  moreover have "queues ?s (q(h := B)) NULL"
  proof (rule queues_upd [OF Q h, where X = "set (q h)"])
    show "\<And>x. x \<noteq> h \<Longrightarrow> x \<notin> set (q h) \<Longrightarrow> p_lnk ?s x = p_lnk s x" by (auto simp: hd)
    show "\<And>x. x \<notin> set (q h) \<Longrightarrow> p_rlnk ?s x = p_rlnk s x" using hBt by (auto simp: hd)
    show "\<And>x. x \<in> set (q h) \<Longrightarrow> is_task s x" using queues_task [OF Q] by auto
    show "\<And>x h'. x \<in> set (q h) \<Longrightarrow> h' \<noteq> h \<Longrightarrow> x \<notin> set (q h')" using queues_disjoint [OF Q] by blast
    show "chain (p_lnk ?s) (p_lnk ?s h) B NULL" using cr(1) dist hAB by auto
    show "rchain (p_rlnk ?s) h B" if "is_sem_mbx s h"
    proof -
      have "rchain (p_rlnk s) h ([] @ t # B)" using queues_rchain [OF Q that] by (simp add: hd)
      from rchain_remove(1) [OF this dist] show ?thesis using that dist by auto
    qed
    show "p_rlnk ?s x = NULL" if x: "x \<in> set (q h)" "x \<notin> set B \<or> \<not> is_sem_mbx s h" for x
    proof (cases "is_sem_mbx s h")
      case False
      then show ?thesis using queues_rlnk_NULL [OF Q queues_task [OF Q x(1)]]
          queues_disjoint [OF Q x(1)] queues_task [OF Q x(1)] by (auto simp: is_task_def)
    qed (use x in \<open>auto simp: hd\<close>)
  qed (use dist in \<open>auto simp: hd\<close>)
  ultimately show thesis using that links_only_eq by metis
qed

lemma rdy_rlnk_NULL: "queues s q y \<Longrightarrow> x \<in> set (q OS_RDY) \<Longrightarrow> x \<noteq> y \<Longrightarrow> p_rlnk s x = NULL"
  using RDY_not_sem [of s q y] queues_disjoint [of s q y x OS_RDY]
  by (metis queues_rlnk_NULL queues_task)

lemma rt_get_first_NULL: "queues s q x \<Longrightarrow> is_head s h \<Longrightarrow> q h = [] \<Longrightarrow> rt_get_first h s = None"
  using queues_chain [of s q x h] by (simp add: rt_get_first_def)

lemma rt_put_rdy_first_queues:
  assumes Q: "queues s q t" and t: "is_task s t" "\<And>h'. t \<notin> set (q h')"
  shows "links_only s (rt_put_rdy_first t s)"
    "queues (rt_put_rdy_first t s) (q(OS_RDY := t # q OS_RDY)) NULL"
proof -
  have ch: "chain (p_lnk s) (p_lnk s OS_RDY) (q OS_RDY) NULL" using queues_chain [OF Q] by simp
  have tn: "t \<noteq> NULL" "t \<noteq> OS_RDY" using t(1) by (auto simp: is_task_def)
  have rn: "OS_RDY \<notin> set (q OS_RDY)" using queues_head_notin [OF Q] by simp
  show "links_only s (rt_put_rdy_first t s)"
    by (rule links_onlyI) (simp add: rt_put_rdy_first_def)
  show "queues (rt_put_rdy_first t s) (q(OS_RDY := t # q OS_RDY)) NULL" (is "queues ?s _ _")
  proof (rule queues_upd [OF Q is_head_RDY, where X = "insert t (set (q OS_RDY))"])
    show "chain (p_lnk ?s) (p_lnk ?s OS_RDY) (t # q OS_RDY) NULL"
      using ch tn rn t(2) [of OS_RDY] by (simp add: rt_put_rdy_first_def)
    show "p_rlnk ?s x = NULL" if x: "x \<in> insert t (set (q OS_RDY))" for x
    proof (cases "x = t")
      case False
      then have "x \<in> set (q OS_RDY)" using x by simp
      then show ?thesis using False rdy_rlnk_NULL [OF Q] by (simp add: rt_put_rdy_first_def)
    qed (simp add: rt_put_rdy_first_def)
    show "\<And>x h'. x \<in> insert t (set (q OS_RDY)) \<Longrightarrow> h' \<noteq> OS_RDY \<Longrightarrow> x \<notin> set (q h')"
      using t(2) queues_disjoint [OF Q] by blast
    show "is_sem_mbx s OS_RDY \<Longrightarrow> rchain (p_rlnk ?s) OS_RDY (t # q OS_RDY)"
      using RDY_not_sem [OF Q] by simp
  qed (use t queues_task [OF Q] queues_distinct [OF Q] in \<open>auto simp: rt_put_rdy_first_def\<close>)
qed


lemma rt_rmv_list_queues:
  assumes Q: "queues s q NULL" and t: "t \<in> set (q h)"
  obtains s' where "rt_rmv_list t s = Some s'" "links_only s s'"
    "queues s' (q(h := remove1 t (q h))) t"
proof -
  obtain A B where AB: "q h = A @ t # B" by (meson split_list t)
  have h: "is_head s h" using Q t by (auto simp: queues_def)
  have ch: "chain (p_lnk s) (p_lnk s h) (A @ t # B) NULL" using queues_chain [OF Q h] by (simp add: AB)
  have dist: "distinct (A @ t # B)" using queues_distinct [OF Q, of h] by (simp add: AB)
  have hAB: "h \<notin> set (A @ t # B)" using queues_head_notin [OF Q h, of h] by (simp add: AB)
  have rm: "remove1 t (q h) = A @ B" using dist by (simp add: AB remove1_append)
  note cr = chain_remove [OF ch dist hAB]
  define c where "c = last (h # A)"
  have cA: "c \<in> insert h (set A)" by (simp add: c_def)
  have hB: "B \<noteq> [] \<Longrightarrow> hd0 B \<noteq> NULL" and hBt: "B \<noteq> [] \<Longrightarrow> hd0 B \<in> set B"
    using chain_NULL_notin [OF ch] by (auto split: list.splits)
  have hN: "h \<noteq> NULL" using sem_head_facts [OF Q] h by (auto simp: is_head_def)
  have cN: "c \<noteq> NULL" using cA hN chain_NULL_notin [OF ch] by auto
  have ct: "c \<noteq> t" using cA hAB dist by auto
  let ?f = "(p_lnk s)(c := hd0 B)"
  let ?r = "if is_sem_mbx s h \<and> B \<noteq> [] then (p_rlnk s)(hd0 B := c) else p_rlnk s"
  let ?s = "s\<lparr>p_lnk := ?f, p_rlnk := ?r\<rparr>"
  have "rt_rmv_list t s = Some ?s"
  proof (cases "is_sem_mbx s h")
    case True
    then have "p_rlnk s t = c"
      using rchain_remove(2) [OF _ dist] queues_rchain [OF Q True] by (simp add: AB c_def)
    then show ?thesis using cN ct cr(2) hB True
      by (cases "B = []") (auto simp: rt_rmv_list_def Let_def)
  next
    case False
    then have hr: "h = OS_RDY" using h by (simp add: is_head_def)
    have "p_rlnk s t = NULL" using rdy_rlnk_NULL [OF Q] t hr queues_task [OF Q t]
      by (auto simp: is_task_def)
    moreover have "rdy_search s t OS_RDY = Some c"
      using rdy_search_found [of s OS_RDY A t B] ch dist by (simp add: hr c_def)
    ultimately show ?thesis using cN cr(2) False by (simp add: rt_rmv_list_def)
  qed
  moreover have "queues ?s (q(h := A @ B)) t"
  proof (rule queues_upd [OF Q h, where X = "set (q h)"])
    show "\<And>x. x \<noteq> h \<Longrightarrow> x \<notin> set (q h) \<Longrightarrow> p_lnk ?s x = p_lnk s x" using cA by (auto simp: AB)
    show "\<And>x. x \<notin> set (q h) \<Longrightarrow> p_rlnk ?s x = p_rlnk s x" using hBt by (auto simp: AB)
    show "\<And>x. x \<in> set (q h) \<Longrightarrow> is_task s x" using queues_task [OF Q] by auto
    show "\<And>x h'. x \<in> set (q h) \<Longrightarrow> h' \<noteq> h \<Longrightarrow> x \<notin> set (q h')" using queues_disjoint [OF Q] by blast
    show "chain (p_lnk ?s) (p_lnk ?s h) (A @ B) NULL" using cr(1) by (simp add: c_def)
    show "rchain (p_rlnk ?s) h (A @ B)" if "is_sem_mbx s h"
    proof -
      have "rchain (p_rlnk s) h (A @ t # B)" using queues_rchain [OF Q that] by (simp add: AB)
      from rchain_remove(1) [OF this dist] show ?thesis using that by (cases "B = []") (simp_all add: c_def)
    qed
    show "p_rlnk ?s x = NULL" if x: "x \<in> set (q h)" "x \<notin> set (A @ B) \<or> \<not> is_sem_mbx s h" "x \<noteq> t" for x
    proof -
      have sem: "\<not> is_sem_mbx s h" using x by (auto simp: AB)
      then have "h = OS_RDY" using h by (simp add: is_head_def)
      then show ?thesis using sem rdy_rlnk_NULL [OF Q] x(1) queues_task [OF Q x(1)]
        by (auto simp: is_task_def)
    qed
  qed (use dist in \<open>auto simp: AB\<close>)
  ultimately show thesis using that rm links_only_eq by metis
qed

lemma rt_rmv_list_absent:
  assumes Q: "queues s q NULL" and t: "is_task s t" "\<And>h. t \<notin> set (q h)"
  shows "rt_rmv_list t s = Some s"
proof -
  have "p_rlnk s t = NULL" using queues_rlnk_NULL [OF Q t(1)] t by (auto simp: is_task_def)
  moreover have "rdy_search s t OS_RDY = Some NULL"
    using rdy_search_absent [of s OS_RDY "q OS_RDY" t] queues_chain [OF Q] t by (simp add: is_task_def)
  ultimately show ?thesis by (simp add: rt_rmv_list_def)
qed

lemma links_only_trans: "links_only s s' \<Longrightarrow> links_only s' s'' \<Longrightarrow> links_only s s''"
  by (clarsimp simp: links_only_def) (rule exI, rule exI, rule refl)

lemma links_only_fields:
  assumes "links_only s s'"
  shows "cb_type s' = cb_type s" "p_dlnk s' = p_dlnk s" "p_blnk s' = p_blnk s"
    "delta_time s' = delta_time s" "state s' = state s" "prio s' = prio s"
    "run s' = run s" "is_task s' = is_task s" "is_sem_mbx s' = is_sem_mbx s" "is_head s' = is_head s"
    "os_active_TCB s' = os_active_TCB s" "tasks_ok s' = tasks_ok s"
  using assms by (auto simp: links_only_def tasks_ok_def is_task_def is_sem_mbx_def is_head_def fun_eq_iff)

lemma rt_resort_prio_queues:
  assumes Q: "queues s q NULL" and t: "t \<in> set (q h)"
    and rdy: "h = OS_RDY \<Longrightarrow> state s t = READY"
  obtains s' where "rt_resort_prio t s = Some s'" "links_only s s'"
    "queues s' (q(h := ins_prio (prio s) t (remove1 t (q h)))) NULL"
proof -
  have h: "is_head s h" using Q t by (auto simp: queues_def)
  obtain s1 where rm: "rt_rmv_list t s = Some s1" and l1: "links_only s s1"
    and Q1: "queues s1 (q(h := remove1 t (q h))) t" using rt_rmv_list_queues [OF Q t] .
  note f1 = links_only_fields [OF l1]
  have fresh: "\<And>h'. t \<notin> set ((q(h := remove1 t (q h))) h')"
    using queues_distinct [OF Q, of h] queues_disjoint [OF Q t] by auto
  have h1: "is_head s1 h" and t1: "is_task s1 t" using h queues_task [OF Q t] f1 by simp_all
  obtain s2 where put: "rt_put_prio h t s1 = Some s2" and l2: "links_only s1 s2"
    and Q2: "queues s2 ((q(h := remove1 t (q h)))(h := ins_prio (prio s1) t ((q(h := remove1 t (q h))) h))) NULL"
    by (rule rt_put_prio_queues [OF Q1 h1 t1 fresh])
  have "rt_resort_prio t s = Some s2"
  proof (cases "is_sem_mbx s h")
    case True
    obtain A B where AB: "q h = A @ t # B" by (meson split_list t)
    have "rchain (p_rlnk s) h (A @ t # B)" using queues_rchain [OF Q True] by (simp add: AB)
    then have rl: "p_rlnk s t = last (h # A)" "rchain (p_rlnk s) h A" by (auto simp: rchain_append)
    have "find_header s (p_rlnk s t) = Some h"
      using find_header_head [of s h A] rl queues_task [OF Q, of _ h] sem_head_facts [OF Q True]
      by (auto simp: AB)
    moreover have "p_rlnk s t \<noteq> NULL"
      using rl(1) sem_head_facts(1) [OF Q True] queues_task [OF Q, of _ h] AB
      by (cases A rule: rev_cases) (auto simp: is_task_def)
    ultimately show ?thesis by (simp add: rt_resort_prio_def rm put)
  next
    case False
    then have "h = OS_RDY" using h by (simp add: is_head_def)
    moreover have "p_rlnk s t = NULL" using rdy_rlnk_NULL [OF Q] t calculation queues_task [OF Q t]
      by (auto simp: is_task_def)
    ultimately show ?thesis using rdy put by (simp add: rt_resort_prio_def rm)
  qed
  then show thesis using that links_only_trans [OF l1 l2] Q2 f1 by simp
qed

lemma rt_resort_prio_absent:
  assumes Q: "queues s q NULL" and t: "is_task s t" "\<And>h. t \<notin> set (q h)" "state s t \<noteq> READY"
  shows "rt_resort_prio t s = Some s"
proof -
  have "p_rlnk s t = NULL" using queues_rlnk_NULL [OF Q t(1)] t by (auto simp: is_task_def)
  then show ?thesis using t by (simp add: rt_resort_prio_def)
qed

end
