(* ===== verification/Rtx_Delay.thy ===== *)
theory Rtx_Delay
  imports Rtx_Queues
begin

text \<open>
  The abstract view of the delay list: a state of the kernel holds the list \<open>ds\<close> of the delayed
  tasks with the number of ticks each has left, when the list linked through \<open>p_dlnk\<close> and
  \<open>p_blnk\<close> visits these tasks and the differences kept in \<open>delta_time\<close> add up to the times.
  Inserting, removing and decrementing are shown to implement the obvious functions on such lists.
\<close>

lemma ucast_16_32_16 [simp]: "ucast (ucast (x :: U16) :: U32) = x"
  by (simp add: word_unat_eq_iff unat_ucast_32_16)

primrec deltas :: "(ptr \<Rightarrow> U16) \<Rightarrow> ptr \<Rightarrow> nat \<Rightarrow> (ptr \<times> nat) list \<Rightarrow> bool" where
  "deltas d p acc [] \<longleftrightarrow> True"
| "deltas d p acc (x # xs) \<longleftrightarrow> snd x = acc + unat (d p) \<and> deltas d (fst x) (snd x) xs"

definition ins_dly :: "'a \<Rightarrow> nat \<Rightarrow> ('a \<times> nat) list \<Rightarrow> ('a \<times> nat) list" where
  "ins_dly t k ds = takeWhile (\<lambda>x. snd x < k) ds @ (t, k) # dropWhile (\<lambda>x. snd x < k) ds"

definition delays :: "kernel \<Rightarrow> (ptr \<times> nat) list \<Rightarrow> bool" where
  "delays s ds \<longleftrightarrow>
     cb_type s OS_DLY = HCB \<and>
     chain (p_dlnk s) (p_dlnk s OS_DLY) (map fst ds) NULL \<and>
     rchain (p_blnk s) OS_DLY (map fst ds) \<and>
     distinct (map fst ds) \<and>
     (\<forall>t\<in>fst ` set ds. is_task s t) \<and>
     (\<forall>t. is_task s t \<longrightarrow> t \<notin> fst ` set ds \<longrightarrow> p_blnk s t = NULL) \<and>
     deltas (delta_time s) OS_DLY 0 ds \<and>
     (ds \<noteq> [] \<longrightarrow> delta_time s (fst (last ds)) = 0) \<and>
     (\<forall>k\<in>snd ` set ds. k < 2 ^ 16)"

lemma deltas_append [chain_simps]:
  "deltas d p acc (xs @ ys) \<longleftrightarrow>
   deltas d p acc xs \<and> deltas d (last (p # map fst xs)) (last (acc # map snd xs)) ys"
  by (induction xs arbitrary: p acc) auto

lemma deltas_cong: "d p = d' p \<Longrightarrow> (\<And>x. x \<in> fst ` set xs \<Longrightarrow> d x = d' x) \<Longrightarrow>
    deltas d p acc xs = deltas d' p acc xs"
  by (induction xs arbitrary: p acc) auto

lemma deltas_upd_other [simp]:
  "x \<noteq> p \<Longrightarrow> x \<notin> set (map fst xs) \<Longrightarrow> deltas (d(x := v)) p acc xs = deltas d p acc xs"
  by (induction xs arbitrary: p acc) auto

lemma deltas_mono: "deltas d p acc xs \<Longrightarrow> x \<in> set xs \<Longrightarrow> acc \<le> snd x"
  by (induction xs arbitrary: p acc) (auto, fastforce)

lemma deltas_sorted: "deltas d p acc xs \<Longrightarrow> sorted (map snd xs)"
  by (induction xs arbitrary: p acc) (auto dest: deltas_mono)

text \<open>The invariant of the search loop.\<close>

lemma put_dly_search:
  assumes "chain (p_dlnk s) (p_dlnk s p) (map fst ys) NULL"
    and "deltas (delta_time s) p acc ys"
    and "\<forall>k\<in>snd ` set ys. k < 2 ^ 16"
    and "unat delta = (case ys of [] \<Rightarrow> acc | y # _ \<Rightarrow> snd y)"
    and "ys = [] \<Longrightarrow> acc < unat k"
    and "ys \<noteq> [] \<Longrightarrow> delta_time s (fst (last ys)) = 0"
  shows "\<exists>delta'. put_dly_search s k p delta =
      Some (dropWhile (\<lambda>x. snd x < unat k) ys = [],
        last (p # map fst (takeWhile (\<lambda>x. snd x < unat k) ys)), delta') \<and>
    unat delta' = (case dropWhile (\<lambda>x. snd x < unat k) ys of
      [] \<Rightarrow> last (acc # map snd (takeWhile (\<lambda>x. snd x < unat k) ys)) | y # _ \<Rightarrow> snd y)"
  using assms
proof (induction ys arbitrary: p acc delta)
  case Nil
  then show ?case by (simp add: put_dly_search.simps word_less_nat_alt)
next
  case (Cons y ys)
  show ?case
  proof (cases "snd y < unat k")
    case False
    then show ?thesis using Cons.prems(4) by (simp add: put_dly_search.simps [of s k p] word_less_nat_alt)
  next
    case True
    let ?d = "delta + ucast (delta_time s (fst y))"
    have p: "p_dlnk s p = fst y" "fst y \<noteq> NULL" using Cons.prems(1) by auto
    have ud: "unat ?d = snd y + unat (delta_time s (fst y))"
    proof -
      have "snd y < 65536" "unat delta = snd y" using Cons.prems(3,4) by simp_all
      then show ?thesis using unat_u16 [of "delta_time s (fst y)"]
        by (subst unat_add_u32) (simp_all del: unat_u16)
    qed
    have "unat ?d = (case ys of [] \<Rightarrow> snd y | z # _ \<Rightarrow> snd z)"
      using Cons.prems(2,6) ud by (cases ys) auto
    moreover have "ys = [] \<Longrightarrow> snd y < unat k" using True by simp
    ultimately obtain delta' where
      "put_dly_search s k (fst y) ?d = Some (dropWhile (\<lambda>x. snd x < unat k) ys = [],
         last (fst y # map fst (takeWhile (\<lambda>x. snd x < unat k) ys)), delta')"
      "unat delta' = (case dropWhile (\<lambda>x. snd x < unat k) ys of
        [] \<Rightarrow> last (snd y # map snd (takeWhile (\<lambda>x. snd x < unat k) ys)) | y # _ \<Rightarrow> snd y)"
      using Cons.IH [of "fst y" "snd y" ?d] Cons.prems by (auto split: if_splits)
    then show ?thesis
      using True p Cons.prems(4)
      by (intro exI [of _ delta']) (simp add: put_dly_search.simps [of s k p] word_less_nat_alt split: list.split
          del: dropWhile_eq_Nil_conv)
  qed
qed

definition dly_only :: "kernel \<Rightarrow> kernel \<Rightarrow> bool" where
  "dly_only s s' \<longleftrightarrow> (\<exists>d b t. s' = s\<lparr>p_dlnk := d, p_blnk := b, delta_time := t\<rparr>)"

lemma dly_onlyI: "s' = s\<lparr>p_dlnk := p_dlnk s', p_blnk := p_blnk s', delta_time := delta_time s'\<rparr> \<Longrightarrow> dly_only s s'"
  unfolding dly_only_def by metis

lemma dly_only_fields:
  assumes "dly_only s s'"
  shows "cb_type s' = cb_type s" "p_lnk s' = p_lnk s" "p_rlnk s' = p_rlnk s" "state s' = state s"
    "prio s' = prio s" "run s' = run s" "is_task s' = is_task s" "is_sem_mbx s' = is_sem_mbx s"
    "is_head s' = is_head s" "os_active_TCB s' = os_active_TCB s"
    "tasks_ok s' = tasks_ok s"
  using assms by (auto simp: dly_only_def tasks_ok_def is_task_def is_sem_mbx_def is_head_def fun_eq_iff)

lemma put_dly_last_eq: "put_dly_last t k c delta s = s\<lparr>p_dlnk := (p_dlnk s)(t := NULL, c := t),
    p_blnk := (p_blnk s)(t := c), delta_time := (delta_time s)(c := ucast (k - delta), t := 0)\<rparr>"
  by (rule kernel.equality) (simp_all add: put_dly_last_def)

lemma deltas_insert:
  assumes "deltas d p acc (A @ B)" "distinct (p # map fst (A @ B))" "t \<notin> set (p # map fst (A @ B))"
    and "\<forall>x\<in>set A. snd x \<le> k" "\<forall>x\<in>set B. k \<le> snd x"
    and "c = last (p # map fst A)" "acc \<le> k"
    and "unat x = k - last (acc # map snd A)"
    and "B \<noteq> [] \<Longrightarrow> unat y = snd (hd B) - k"
  shows "deltas (d(c := x, t := y)) p acc (A @ (t, k) # B)"
proof -
  have c: "c \<in> set (p # map fst A)" using assms(6) by (metis last_in_set list.distinct(1))
  then have ct: "c \<noteq> t" and cB: "c \<notin> set (map fst B)" using assms(2,3) by auto
  have le: "last (acc # map snd A) \<le> k" using assms(4,7) by (cases A rule: rev_cases) auto
  have A: "deltas d p acc A" and B: "deltas d c (last (acc # map snd A)) B"
    using assms(1,6) by (auto simp: deltas_append)
  have "deltas (d(c := x, t := y)) p acc A"
  proof (cases A rule: rev_cases)
    case (snoc A' a)
    then have "c = fst a" "c \<noteq> p" "c \<notin> fst ` set A'" "t \<noteq> p" "t \<notin> fst ` set A'" using assms(2,3,6) by auto
    moreover have "t \<noteq> last (p # map fst A')" "c \<noteq> last (p # map fst A')"
      using calculation by (cases A' rule: rev_cases; force)+
    ultimately show ?thesis using A snoc by (auto simp: deltas_append)
  qed simp
  moreover have "deltas (d(c := x, t := y)) t k B"
    using B assms(3,5,9) cB ct by (cases B) auto
  ultimately show ?thesis using assms(6,8) ct le by (auto simp: deltas_append)
qed

lemma rt_put_dly_delays:
  assumes D: "delays s ds" and t: "is_task s t" "t \<notin> fst ` set ds" "0 < delay"
  obtains s' where "rt_put_dly t delay s = Some s'" "dly_only s s'"
    "delays s' (ins_dly t (unat delay) ds)"
proof -
  define k where "k = unat delay"
  define A where "A = takeWhile (\<lambda>x. snd x < k) ds"
  define B where "B = dropWhile (\<lambda>x. snd x < k) ds"
  define c where "c = last (OS_DLY # map fst A)"
  have AB: "ds = A @ B" by (simp add: A_def B_def)
  have ins: "ins_dly t (unat delay) ds = A @ (t, k) # B" by (simp add: ins_dly_def A_def B_def k_def)
  have ch: "chain (p_dlnk s) (p_dlnk s OS_DLY) (map fst A @ map fst B) NULL"
    and rch: "rchain (p_blnk s) OS_DLY (map fst A @ map fst B)"
    and dist: "distinct (map fst A @ map fst B)"
    and del: "deltas (delta_time s) OS_DLY 0 (A @ B)"
    and lst: "ds \<noteq> [] \<Longrightarrow> delta_time s (fst (last ds)) = 0"
    and small: "\<forall>k\<in>snd ` set ds. k < 2 ^ 16"
    using D by (simp_all add: delays_def AB)
  have task: "\<And>x. x \<in> fst ` set ds \<Longrightarrow> is_task s x" using D by (auto simp: delays_def)
  have tn: "t \<noteq> OS_DLY" "t \<noteq> NULL" using t(1) by (auto simp: is_task_def)
  have tAB: "t \<notin> set (map fst A @ map fst B)" using t(2) by (simp add: AB image_Un)
  have hAB: "OS_DLY \<notin> set (map fst A @ map fst B)"
    using task [of OS_DLY] by (auto simp: AB is_task_def image_Un)
  have Ak: "\<forall>x\<in>set A. snd x \<le> k" unfolding A_def by (auto dest: set_takeWhileD)
  have Bk: "\<forall>x\<in>set B. k \<le> snd x"
  proof -
    have "sorted (map snd (A @ B))" using deltas_sorted [OF del] .
    moreover have "B \<noteq> [] \<Longrightarrow> k \<le> snd (hd B)" unfolding B_def by (metis hd_dropWhile not_less)
    ultimately show ?thesis by (cases B) (auto simp: sorted_append)
  qed
  have lastA: "last (0 # map snd A) \<le> k" using Ak by (cases A rule: rev_cases) auto
  have kb: "k < 65536" by (simp add: k_def)
  \<comment> \<open>any pair of words with the right values completes the list\<close>
  have finish: "delays (s\<lparr>p_dlnk := (p_dlnk s)(t := hd0 (map fst B), c := t),
      p_blnk := (if map fst B \<noteq> [] then (p_blnk s)(hd0 (map fst B) := t) else p_blnk s)(t := c),
      delta_time := (delta_time s)(c := x, t := y)\<rparr>) (A @ (t, k) # B)" (is "delays ?s _")
    if x: "unat x = k - last (0 # map snd A)" and y: "B \<noteq> [] \<Longrightarrow> unat y = snd (hd B) - k"
      "B = [] \<Longrightarrow> y = 0" for x y
  proof -
    have 1: "chain (p_dlnk ?s) (p_dlnk ?s OS_DLY) (map fst (A @ (t, k) # B)) NULL"
      using chain_insert [OF ch dist tAB hAB tn] by (simp add: c_def)
    have 2: "rchain (p_blnk ?s) OS_DLY (map fst (A @ (t, k) # B))"
      using rchain_insert [OF rch dist tAB] by (simp add: c_def)
    have cA: "c \<in> insert OS_DLY (fst ` set A)" unfolding c_def
      by (metis image_set last_in_set list.distinct(1) list.simps(15))
    have 3: "deltas (delta_time ?s) OS_DLY 0 (A @ (t, k) # B)"
      using deltas_insert [OF del _ _ Ak Bk c_def _ x y(1)] dist tAB hAB tn by simp
    have 4: "delta_time ?s (fst (last (A @ (t, k) # B))) = 0"
    proof (cases B rule: rev_cases)
      case (snoc B' b)
      then have "delta_time s (fst b) = 0" using lst by (auto simp: AB)
      moreover have "fst b \<noteq> c" "fst b \<noteq> t" using snoc dist hAB tAB cA by auto
      ultimately show ?thesis using snoc by simp
    qed (simp add: y)
    have 5: "is_task ?s z \<and> z \<notin> fst ` set (A @ (t, k) # B) \<Longrightarrow> p_blnk ?s z = NULL" for z
    proof -
      assume z: "is_task ?s z \<and> z \<notin> fst ` set (A @ (t, k) # B)"
      then have "is_task s z" "z \<notin> fst ` set ds" by (auto simp: is_task_def AB)
      then have "p_blnk s z = NULL" using D by (simp add: delays_def)
      moreover have "z \<noteq> t" "map fst B \<noteq> [] \<longrightarrow> z \<noteq> hd0 (map fst B)" using z by (cases B; auto)+
      ultimately show "p_blnk ?s z = NULL" by auto
    qed
    show ?thesis unfolding delays_def
      using 1 2 3 4 5 dist tAB small kb D t task
      by (auto simp: delays_def is_task_def AB image_Un)
  qed
  show thesis
  proof (cases "ds = []")
    case True
    let ?s = "put_dly_last t (ucast delay) OS_DLY 0 s"
    have e: "A = []" "B = []" "c = OS_DLY" using True by (auto simp: AB c_def)
    have "p_dlnk s OS_DLY = NULL" using ch e by simp
    then have "rt_put_dly t delay s = Some ?s" by (simp add: rt_put_dly_def)
    moreover have "dly_only s ?s" by (rule dly_onlyI) (simp add: put_dly_last_def)
    moreover have "delays ?s (ins_dly t (unat delay) ds)"
      using finish [of delay 0] e ins by (simp add: put_dly_last_eq k_def)
    ultimately show thesis by (rule that)
  next
    case False
    then have ne: "p_dlnk s OS_DLY \<noteq> NULL" using ch chain_NULL_notin [OF ch] by (cases ds) (auto simp: AB)
    have pre: "chain (p_dlnk s) (p_dlnk s OS_DLY) (map fst ds) NULL" "deltas (delta_time s) OS_DLY 0 ds"
      using ch del by (simp_all add: AB)
    have hd: "unat (ucast (delta_time s OS_DLY) :: U32) = (case ds of [] \<Rightarrow> 0 | y # _ \<Rightarrow> snd y)"
      using pre(2) False by (cases ds) simp_all
    have eA: "takeWhile (\<lambda>x. snd x < unat (ucast delay :: U32)) ds = A"
      and eB: "dropWhile (\<lambda>x. snd x < unat (ucast delay :: U32)) ds = B"
      by (simp_all add: A_def B_def k_def)
    obtain delta where se: "put_dly_search s (ucast delay) OS_DLY (ucast (delta_time s OS_DLY)) =
        Some (B = [], c, delta)"
      and de: "unat delta = (case B of [] \<Rightarrow> last (0 # map snd A) | y # _ \<Rightarrow> snd y)"
      using put_dly_search [OF pre small hd _ lst, of "ucast delay", unfolded eA eB] False
      unfolding c_def by blast
    have kle: "unat delta \<le> k" if "B = []" using de that lastA by simp
    show thesis
    proof (cases "B = []")
      case True
      let ?x = "ucast (ucast delay - delta) :: U16"
      let ?s = "put_dly_last t (ucast delay) c delta s"
      have "rt_put_dly t delay s = Some ?s" using ne se True by (simp add: rt_put_dly_def)
      moreover have "dly_only s ?s" by (rule dly_onlyI) (simp add: put_dly_last_def)
      moreover have "unat ?x = k - last (0 # map snd A)"
      proof -
        have "unat (ucast delay - delta :: U32) = k - unat delta"
          using kle [OF True] by (simp add: unat_sub_word k_def)
        then show ?thesis using de True mod_less [OF less_imp_diff_less [OF kb]]
          by (simp add: unat_ucast_32_16)
      qed
      then have "delays ?s (ins_dly t (unat delay) ds)"
        using finish [of ?x 0] True ins by (simp add: put_dly_last_eq)
      ultimately show thesis by (rule that)
    next
      case False
      then obtain b B' where B: "B = b # B'" by (cases B) auto
      let ?y = "ucast (delta - ucast delay) :: U16"
      let ?x = "delta_time s c - ?y"
      let ?s = "s\<lparr>p_dlnk := (p_dlnk s)(t := hd0 (map fst B), c := t),
        p_blnk := (if map fst B \<noteq> [] then (p_blnk s)(hd0 (map fst B) := t) else p_blnk s)(t := c),
        delta_time := (delta_time s)(c := ?x, t := ?y)\<rparr>"
      have db: "unat delta = snd b" "k \<le> snd b" using de Bk by (simp_all add: B)
      have bs: "snd b < 65536" using small by (simp add: AB B)
      have y: "unat ?y = snd b - k"
      proof -
        have "unat (delta - ucast delay :: U32) = snd b - k" using db by (simp add: unat_sub_word k_def)
        then show ?thesis using mod_less [OF less_imp_diff_less [OF bs]] by (simp add: unat_ucast_32_16)
      qed
      have "snd b = last (0 # map snd A) + unat (delta_time s c)"
        using del by (simp add: deltas_append B c_def)
      then have x: "unat ?x = k - last (0 # map snd A)"
        using y db(2) lastA by (simp add: unat_sub_word)
      have cd: "p_dlnk s c = fst b"
        using ch chain_hd [of "p_dlnk s" "p_dlnk s c" "map fst B"] B
        by (cases A rule: rev_cases) (auto simp: c_def chain_append)
      have tc: "t \<noteq> c" "fst b \<noteq> t" "fst b \<noteq> NULL"
      proof -
        have "c \<in> set (OS_DLY # map fst A)" unfolding c_def by (rule last_in_set) simp
        then show "t \<noteq> c" using tAB tn by auto
        show "fst b \<noteq> t" using tAB B by auto
        show "fst b \<noteq> NULL" using chain_NULL_notin [OF ch] B by auto
      qed
      have "rt_put_dly t delay s = Some ?s"
        using ne se False cd tc B
        by (auto simp: rt_put_dly_def Let_def comp_def fun_upd_twist fun_eq_iff intro!: kernel.equality)
      moreover have "dly_only s ?s" by (rule dly_onlyI) simp
      moreover have "delays ?s (ins_dly t (unat delay) ds)"
        using finish [OF x, of ?y] y False by (simp add: B ins)
      ultimately show thesis by (rule that)
    qed
  qed
qed


definition rmv_dly :: "'a \<Rightarrow> ('a \<times> nat) list \<Rightarrow> ('a \<times> nat) list" where
  "rmv_dly t ds = filter (\<lambda>x. fst x \<noteq> t) ds"

lemma rt_rmv_dly_absent: "delays s ds \<Longrightarrow> is_task s t \<Longrightarrow> t \<notin> fst ` set ds \<Longrightarrow> rt_rmv_dly t s = s"
  by (simp add: rt_rmv_dly_def delays_def)

lemma rt_rmv_dly_eq:
  assumes "p_blnk s t = c" "c \<noteq> NULL" "c \<noteq> t"
  shows "rt_rmv_dly t s = s\<lparr>
      p_dlnk := (p_dlnk s)(c := p_dlnk s t, t := (if p_dlnk s t \<noteq> NULL then NULL else p_dlnk s t)),
      p_blnk := (if p_dlnk s t \<noteq> NULL then (p_blnk s)(p_dlnk s t := c) else p_blnk s)(t := NULL),
      delta_time := (delta_time s)(c := (if p_dlnk s t \<noteq> NULL then delta_time s c + delta_time s t else 0))\<rparr>"
  using assms by (intro kernel.equality) (auto simp: rt_rmv_dly_def Let_def fun_eq_iff)

lemma rt_rmv_dly_delays:
  assumes D: "delays s ds" and t: "is_task s t"
  shows "dly_only s (rt_rmv_dly t s)" "delays (rt_rmv_dly t s) (rmv_dly t ds)"
proof -
  have "dly_only s (rt_rmv_dly t s) \<and> delays (rt_rmv_dly t s) (rmv_dly t ds)"
  proof (cases "t \<in> fst ` set ds")
    case False
    then have "rmv_dly t ds = ds" by (auto simp: rmv_dly_def filter_id_conv image_iff)
    moreover have "dly_only s s" by (rule dly_onlyI) simp
    ultimately show ?thesis using rt_rmv_dly_absent [OF D t False] D by simp
  next
    case True
    then obtain k A B where AB: "ds = A @ (t, k) # B" by (metis imageE prod.collapse split_list)
    define c where "c = last (OS_DLY # map fst A)"
    have ch: "chain (p_dlnk s) (p_dlnk s OS_DLY) (map fst A @ t # map fst B) NULL"
      and rch: "rchain (p_blnk s) OS_DLY (map fst A @ t # map fst B)"
      and dist: "distinct (map fst A @ t # map fst B)"
      and del: "deltas (delta_time s) OS_DLY 0 (A @ (t, k) # B)"
      and lst: "delta_time s (fst (last ds)) = 0"
      and small: "\<forall>k\<in>snd ` set ds. k < 2 ^ 16"
      using D by (simp_all add: delays_def AB)
    have task: "\<And>x. x \<in> fst ` set ds \<Longrightarrow> is_task s x" using D by (auto simp: delays_def)
    have hAB: "OS_DLY \<notin> set (map fst A @ t # map fst B)"
      using task [of OS_DLY] by (auto simp: AB is_task_def)
    have cA: "c \<in> insert OS_DLY (fst ` set A)" unfolding c_def
      by (metis image_set last_in_set list.distinct(1) list.simps(15))
    note cr = chain_remove [OF ch dist hAB]
    note rr = rchain_remove [OF rch dist]
    have ct: "c \<noteq> t" "c \<notin> fst ` set B" "c \<noteq> NULL" "t \<noteq> OS_DLY"
    proof -
      have N: "NULL \<notin> insert OS_DLY (fst ` set A)" using chain_NULL_notin [OF ch] by auto
      have "t \<notin> insert OS_DLY (fst ` set A)" "insert OS_DLY (fst ` set A) \<inter> fst ` set B = {}"
        using dist hAB by auto
      then show "c \<noteq> t" "c \<notin> fst ` set B" "c \<noteq> NULL" "t \<noteq> OS_DLY" using cA N by blast+
    qed
    have rm: "rmv_dly t ds = A @ B"
    proof -
      have "filter (\<lambda>x. fst x \<noteq> t) A = A" "filter (\<lambda>x. fst x \<noteq> t) B = B"
        using dist by (auto simp: filter_id_conv)
      then show ?thesis by (simp add: rmv_dly_def AB)
    qed
    have dt: "p_dlnk s t = hd0 (map fst B)" using cr(2) .
    have hB: "B \<noteq> [] \<longleftrightarrow> p_dlnk s t \<noteq> NULL" using dt chain_NULL_notin [OF ch] by (cases B) auto
    let ?s = "s\<lparr>
      p_dlnk := (p_dlnk s)(c := p_dlnk s t, t := (if p_dlnk s t \<noteq> NULL then NULL else p_dlnk s t)),
      p_blnk := (if p_dlnk s t \<noteq> NULL then (p_blnk s)(p_dlnk s t := c) else p_blnk s)(t := NULL),
      delta_time := (delta_time s)(c := (if p_dlnk s t \<noteq> NULL then delta_time s c + delta_time s t else 0))\<rparr>"
    have eq: "rt_rmv_dly t s = ?s" using rt_rmv_dly_eq [of s t c] rr(2) ct by (simp add: c_def)
    have 1: "chain (p_dlnk ?s) (p_dlnk ?s OS_DLY) (map fst (A @ B)) NULL"
      using cr(1) dist hAB ct(4) by (simp add: dt c_def)
    have 2: "rchain (p_blnk ?s) OS_DLY (map fst (A @ B))"
      using rr(1) dist hB by (cases "B = []") (simp_all add: dt c_def)
    have 3: "deltas (delta_time ?s) OS_DLY 0 (A @ B)"
    proof -
      have "deltas ((delta_time s)(c := v)) OS_DLY 0 A" for v
      proof (cases A rule: rev_cases)
        case (snoc A' a)
        then have "c = fst a" "c \<noteq> OS_DLY" "c \<notin> fst ` set A'" using dist hAB by (auto simp: c_def)
        moreover have "c \<noteq> last (OS_DLY # map fst A')"
          using calculation by (cases A' rule: rev_cases) force+
        ultimately show ?thesis using del snoc by (auto simp: deltas_append)
      qed simp
      moreover have "deltas (delta_time ?s) c (last (0 # map snd A)) B"
      proof (cases B)
        case (Cons b B')
        have "snd b = last (0 # map snd A) + unat (delta_time s c) + unat (delta_time s t)"
          "deltas (delta_time s) (fst b) (snd b) B'"
          using del unfolding Cons deltas_append c_def deltas.simps by (auto simp del: last.simps)
        moreover have "snd b < 65536" using small by (simp add: AB Cons)
        ultimately show ?thesis using hB ct(2) by (simp add: Cons unat_add_u16)
      qed simp
      ultimately show ?thesis by (simp add: deltas_append c_def)
    qed
    have 4: "A @ B \<noteq> [] \<Longrightarrow> delta_time ?s (fst (last (A @ B))) = 0"
    proof (cases B rule: rev_cases)
      case Nil
      assume "A @ B \<noteq> []"
      then have "fst (last A) = c" using Nil by (simp add: c_def last_map)
      then show ?thesis using Nil hB by simp
    next
      case (snoc B' b)
      then have "fst b \<noteq> c" using ct(2) by auto
      then show ?thesis using lst snoc by (simp add: AB)
    qed
    have 5: "p_blnk ?s z = NULL" if z: "is_task ?s z" "z \<notin> fst ` set (A @ B)" for z
    proof (cases "z = t")
      case False
      then have "p_blnk s z = NULL" using z D by (auto simp: delays_def AB is_task_def)
      moreover have "B \<noteq> [] \<Longrightarrow> z \<noteq> hd0 (map fst B)" using z(2) by (cases B) auto
      ultimately show ?thesis using False hB by (auto simp: dt)
    qed simp
    have "delays ?s (A @ B)" unfolding delays_def
      using 1 2 3 4 5 dist small D task by (auto simp: delays_def is_task_def AB)
    moreover have "dly_only s ?s" by (rule dly_onlyI) simp
    ultimately show ?thesis by (simp add: eq rm)
  qed
  then show "dly_only s (rt_rmv_dly t s)" "delays (rt_rmv_dly t s) (rmv_dly t ds)" by simp_all
qed


section \<open>The tick of the delay list\<close>

definition rmv_q :: "ptr \<Rightarrow> (ptr \<Rightarrow> ptr list) \<Rightarrow> ptr \<Rightarrow> ptr list" where
  "rmv_q t q = (\<lambda>h. removeAll t (q h))"

definition make_ready :: "(ptr \<Rightarrow> U8) \<Rightarrow> ptr \<Rightarrow> (ptr \<Rightarrow> ptr list) \<Rightarrow> ptr \<Rightarrow> ptr list" where
  "make_ready pr t q = (rmv_q t q)(OS_RDY := ins_prio pr t (rmv_q t q OS_RDY))"

lemma rmv_q_in [simp]: "t' \<in> set (rmv_q t q h) \<longleftrightarrow> t' \<noteq> t \<and> t' \<in> set (q h)"
  by (auto simp: rmv_q_def)

lemma rmv_q_absent: "(\<And>h. t \<notin> set (q h)) \<Longrightarrow> rmv_q t q = q"
  by (simp add: rmv_q_def fun_eq_iff)

lemma rmv_q_eq: "queues s q x \<Longrightarrow> t \<in> set (q h) \<Longrightarrow> q(h := remove1 t (q h)) = rmv_q t q"
proof (rule ext)
  fix h' assume "queues s q x" "t \<in> set (q h)"
  then have "distinct (q h)" "h' \<noteq> h \<Longrightarrow> t \<notin> set (q h')"
    using queues_distinct queues_disjoint by blast+
  then show "(q(h := remove1 t (q h))) h' = rmv_q t q h'"
    by (simp add: rmv_q_def distinct_remove1_removeAll)
qed

lemma make_ready_in: "t' \<noteq> t \<Longrightarrow> t' \<in> set (make_ready pr t q h) \<longleftrightarrow> t' \<in> set (q h)"
  by (simp add: make_ready_def)

lemma queues_in_head: "queues s q x \<Longrightarrow> t \<in> set (q h) \<Longrightarrow> is_head s h"
  by (auto simp: queues_def)

text \<open>A task in no list may have any links.\<close>

lemma queues_free_task:
  assumes Q: "queues s q t" and t: "is_task s t" "\<And>h. t \<notin> set (q h)"
  shows "queues (set_p_lnk t a s) q t" "queues (set_p_rlnk t NULL s) q NULL"
proof -
  have "queues (set_p_lnk t a s) (q(OS_RDY := q OS_RDY)) t"
  proof (rule queues_upd [OF Q is_head_RDY, where X = "insert t (set (q OS_RDY))"])
    show "\<And>x. x \<in> insert t (set (q OS_RDY)) \<Longrightarrow> x \<noteq> t \<Longrightarrow> p_rlnk (set_p_lnk t a s) x = NULL"
      using rdy_rlnk_NULL [OF Q] by auto
    show "\<And>x h'. x \<in> insert t (set (q OS_RDY)) \<Longrightarrow> h' \<noteq> OS_RDY \<Longrightarrow> x \<notin> set (q h')"
      using t(2) queues_disjoint [OF Q] by blast
  qed (use t queues_chain [OF Q] queues_task [OF Q] queues_distinct [OF Q] RDY_not_sem [OF Q] in
      \<open>auto simp: is_task_def\<close>)
  moreover have "queues (set_p_rlnk t NULL s) (q(OS_RDY := q OS_RDY)) NULL"
  proof (rule queues_upd [OF Q is_head_RDY, where X = "insert t (set (q OS_RDY))"])
    show "\<And>x. x \<in> insert t (set (q OS_RDY)) \<Longrightarrow> p_rlnk (set_p_rlnk t NULL s) x = NULL"
      using rdy_rlnk_NULL [OF Q] by auto
    show "\<And>x h'. x \<in> insert t (set (q OS_RDY)) \<Longrightarrow> h' \<noteq> OS_RDY \<Longrightarrow> x \<notin> set (q h')"
      using t(2) queues_disjoint [OF Q] by blast
  qed (use t queues_chain [OF Q] queues_task [OF Q] queues_distinct [OF Q] RDY_not_sem [OF Q] in
      \<open>auto simp: is_task_def\<close>)
  ultimately show "queues (set_p_lnk t a s) q t" "queues (set_p_rlnk t NULL s) q NULL" by simp_all
qed

text \<open>The first part of \<open>dec_dly_expire\<close> takes the task out of the waiting list it may be in.\<close>

definition unlink_wait :: "ptr \<Rightarrow> kernel \<Rightarrow> kernel" where
  "unlink_wait t s =
     (if p_rlnk s t \<noteq> NULL
      then let s = set_p_lnk (p_rlnk s t) (p_lnk s t) s;
               s = (if p_lnk s t \<noteq> NULL
                    then set_p_lnk t NULL (set_p_rlnk (p_lnk s t) (p_rlnk s t) s)
                    else s)
           in set_p_rlnk t NULL s
      else s)"

lemma unlink_wait_queues:
  assumes Q: "queues s q NULL" and t: "is_task s t" "t \<notin> set (q OS_RDY)"
  shows "links_only s (unlink_wait t s)" "queues (unlink_wait t s) (rmv_q t q) NULL"
proof -
  have "links_only s (unlink_wait t s) \<and> queues (unlink_wait t s) (rmv_q t q) NULL"
  proof (cases "\<exists>h. t \<in> set (q h)")
    case False
    then have "p_rlnk s t = NULL" using queues_rlnk_NULL [OF Q t(1)] t by (auto simp: is_task_def)
    moreover have "links_only s s" by (rule links_onlyI) simp
    ultimately show ?thesis using False Q by (simp add: unlink_wait_def rmv_q_absent)
  next
    case True
    then obtain h where h: "t \<in> set (q h)" by blast
    have sem: "is_sem_mbx s h" using queues_in_head [OF Q h] h t(2) by (auto simp: is_head_def)
    obtain A B where AB: "q h = A @ t # B" by (meson split_list h)
    have "rchain (p_rlnk s) h (A @ t # B)" using queues_rchain [OF Q sem] by (simp add: AB)
    then have "p_rlnk s t = last (h # A)" by (simp add: rchain_append)
    then have ne: "p_rlnk s t \<noteq> NULL" "p_rlnk s t \<noteq> t"
      using sem_head_facts(1) [OF Q sem] queues_task [OF Q, of _ h] queues_distinct [OF Q, of h]
        queues_head_notin [OF Q, of h h] sem AB
      by (cases A rule: rev_cases; auto simp: is_task_def is_head_def)+
    obtain s1 where rm: "rt_rmv_list t s = Some s1" and l1: "links_only s s1"
      and Q1: "queues s1 (q(h := remove1 t (q h))) t" using rt_rmv_list_queues [OF Q h] .
    have Q1: "queues s1 (rmv_q t q) t" using Q1 rmv_q_eq [OF Q h] by simp
    have t1: "is_task s1 t" using links_only_fields [OF l1] t by simp
    have s1: "s1 = (if p_lnk s t \<noteq> NULL
        then set_p_rlnk (p_lnk s t) (p_rlnk s t) (set_p_lnk (p_rlnk s t) (p_lnk s t) s)
        else set_p_lnk (p_rlnk s t) (p_lnk s t) s)"
      using rm ne by (simp add: rt_rmv_list_def Let_def split: if_splits)
    have eq: "unlink_wait t s = set_p_rlnk t NULL (if p_lnk s t \<noteq> NULL then set_p_lnk t NULL s1 else s1)"
      using ne by (simp add: unlink_wait_def s1 Let_def)
    have "queues (unlink_wait t s) (rmv_q t q) NULL"
      unfolding eq by (rule queues_free_task) (use t1 Q1 in \<open>auto simp: is_task_def intro: queues_free_task\<close>)
    moreover have "links_only s1 (unlink_wait t s)" by (rule links_onlyI) (simp add: eq)
    ultimately show ?thesis using links_only_trans [OF l1] by blast
  qed
  then show "links_only s (unlink_wait t s)" "queues (unlink_wait t s) (rmv_q t q) NULL" by simp_all
qed

lemma queues_cong: "cb_type s' = cb_type s \<Longrightarrow> os_active_TCB s' = os_active_TCB s \<Longrightarrow> p_lnk s' = p_lnk s \<Longrightarrow> p_rlnk s' = p_rlnk s \<Longrightarrow>
    queues s' q x = queues s q x"
  by (simp add: queues_def is_sem_mbx_def is_task_def is_head_def)

lemma delays_cong: "cb_type s' = cb_type s \<Longrightarrow> os_active_TCB s' = os_active_TCB s \<Longrightarrow> p_dlnk s' = p_dlnk s \<Longrightarrow> p_blnk s' = p_blnk s \<Longrightarrow>
    delta_time s' = delta_time s \<Longrightarrow> delays s' ds = delays s ds"
  by (simp add: delays_def is_task_def)

lemma queues_dly_only: "dly_only s s' \<Longrightarrow> queues s' q x = queues s q x"
  using dly_only_fields [of s s'] by (intro queues_cong) auto

lemma delays_links_only: "links_only s s' \<Longrightarrow> delays s' ds = delays s ds"
  using links_only_fields [of s s'] by (intro delays_cong) auto

text \<open>What the list operations leave alone: everything but the links, \<open>delta_time\<close> and \<open>state\<close>.\<close>

definition sched_only :: "kernel \<Rightarrow> kernel \<Rightarrow> bool" where
  "sched_only s s' \<longleftrightarrow> (\<exists>a b c d e f. s' = s\<lparr>p_lnk := a, p_rlnk := b, p_dlnk := c, p_blnk := d,
     delta_time := e, state := f\<rparr>)"

lemma sched_onlyI: "s' = s\<lparr>p_lnk := p_lnk s', p_rlnk := p_rlnk s', p_dlnk := p_dlnk s',
    p_blnk := p_blnk s', delta_time := delta_time s', state := state s'\<rparr> \<Longrightarrow> sched_only s s'"
  unfolding sched_only_def by (intro exI)

lemma sched_only_refl [simp]: "sched_only s s"
  by (rule sched_onlyI) simp

lemma sched_only_trans: "sched_only s s' \<Longrightarrow> sched_only s' s'' \<Longrightarrow> sched_only s s''"
  by (clarsimp simp: sched_only_def) (intro exI, rule refl)

lemma links_only_sched: "links_only s s' \<Longrightarrow> sched_only s s'"
  by (clarsimp simp: links_only_def intro!: sched_onlyI)

lemma dly_only_sched: "dly_only s s' \<Longrightarrow> sched_only s s'"
  by (clarsimp simp: dly_only_def intro!: sched_onlyI)

lemma sched_only_fields:
  assumes "sched_only s s'"
  shows "cb_type s' = cb_type s" "prio s' = prio s" "run s' = run s" "new_tsk s' = new_tsk s"
    "is_task s' = is_task s" "is_sem_mbx s' = is_sem_mbx s" "is_head s' = is_head s"
    "events s' = events s" "waits s' = waits s" "interval_time s' = interval_time s"
    "os_time s' = os_time s" "tokens s' = tokens s" "owner s' = owner s" "level s' = level s"
    "ret0 s' = ret0 s" "ret1 s' = ret1 s" "msg s' = msg s" "prio_base s' = prio_base s"
    "p_mlnk s' = p_mlnk s" "os_active_TCB s' = os_active_TCB s" "task_id s' = task_id s"
    "mcb_state s' = mcb_state s" "mcb_count s' = mcb_count s" "mcb_first s' = mcb_first s"
    "mcb_last s' = mcb_last s" "mcb_size s' = mcb_size s" "mcb_msg s' = mcb_msg s"
  using assms by (auto simp: sched_only_def is_task_def is_sem_mbx_def is_head_def fun_eq_iff)

text \<open>The last part of \<open>dec_dly_expire\<close> takes the task off the delay list.\<close>

definition pop_dly :: "ptr \<Rightarrow> kernel \<Rightarrow> kernel" where
  "pop_dly t s =
     (let s = set_delta_time OS_DLY (delta_time s t) s;
          s = (if state s t = WAIT_ITV
               then set_delta_time t (interval_time s t + ucast (os_time s)) s else s);
          s = set_state t READY s;
          s = set_p_dlnk OS_DLY (p_dlnk s t) s;
          s = (if p_dlnk s t \<noteq> NULL
               then set_p_dlnk t NULL (set_p_blnk (p_dlnk s t) OS_DLY s) else s)
      in set_p_blnk t NULL s)"

lemma dec_dly_expire_eq:
  "dec_dly_expire s = map_option (pop_dly (p_dlnk s OS_DLY))
     (rt_put_prio OS_RDY (p_dlnk s OS_DLY) (unlink_wait (p_dlnk s OS_DLY) s))"
  unfolding dec_dly_expire_def unlink_wait_def Let_def
  by (simp add: pop_dly_def Let_def map_option_case bind_eq_None_conv split: option.split)

lemma pop_dly_delays:
  assumes D: "delays s ((t, 0) # ds)"
  shows "sched_only s (pop_dly t s)" "delays (pop_dly t s) ds"
    "p_lnk (pop_dly t s) = p_lnk s" "p_rlnk (pop_dly t s) = p_rlnk s"
    "state (pop_dly t s) = (state s)(t := READY)"
proof -
  have ch: "chain (p_dlnk s) (p_dlnk s t) (map fst ds) NULL" "t \<noteq> NULL"
    and rch: "p_blnk s t = OS_DLY" "rchain (p_blnk s) t (map fst ds)"
    and dist: "t \<notin> set (map fst ds)" "distinct (map fst ds)"
    and del: "delta_time s OS_DLY = 0" "deltas (delta_time s) t 0 ds"
    and cb: "cb_type s OS_DLY = HCB" and tt: "is_task s t"
    and task: "\<And>x. x \<in> fst ` set ds \<Longrightarrow> is_task s x"
    and lst: "ds \<noteq> [] \<Longrightarrow> delta_time s (fst (last ds)) = 0"
    using D by (auto simp: delays_def unat_eq_0)
  have td: "t \<noteq> OS_DLY" using tt by (simp add: is_task_def)
  have hd: "OS_DLY \<notin> set (map fst ds)" using task [of OS_DLY] by (auto simp: is_task_def)
  have hdds: "p_dlnk s t = hd0 (map fst ds)" using chain_hd [OF ch(1)] .
  have nn: "ds \<noteq> [] \<longleftrightarrow> p_dlnk s t \<noteq> NULL"
    using hdds chain_NULL_notin [OF ch(1)] by (cases ds) auto
  let ?s = "pop_dly t s"
  show "sched_only s ?s" by (rule sched_onlyI) (simp add: pop_dly_def Let_def)
  show "p_lnk ?s = p_lnk s" "p_rlnk ?s = p_rlnk s" "state ?s = (state s)(t := READY)"
    by (simp_all add: pop_dly_def Let_def)
  have pd: "p_dlnk ?s = (p_dlnk s)(OS_DLY := p_dlnk s t, t := if ds \<noteq> [] then NULL else p_dlnk s t)"
    and pb: "p_blnk ?s = (if ds \<noteq> [] then (p_blnk s)(hd0 (map fst ds) := OS_DLY) else p_blnk s)(t := NULL)"
    and cb': "cb_type ?s = cb_type s" and ac': "os_active_TCB ?s = os_active_TCB s"
    and dx: "\<And>x. x \<noteq> t \<Longrightarrow> x \<noteq> OS_DLY \<Longrightarrow> delta_time ?s x = delta_time s x"
    and d0: "delta_time ?s OS_DLY = delta_time s t"
    using td nn hdds by (auto simp: pop_dly_def Let_def fun_eq_iff)
  have 1: "chain (p_dlnk ?s) (p_dlnk ?s OS_DLY) (map fst ds) NULL"
    unfolding pd using ch(1) dist hd td by simp
  have 2: "rchain (p_blnk ?s) OS_DLY (map fst ds)"
    unfolding pb using rch(2) dist by (cases ds) auto
  have 3: "deltas (delta_time ?s) OS_DLY 0 ds"
  proof (cases ds)
    case (Cons y ys)
    then have "deltas (delta_time ?s) (fst y) (snd y) ys = deltas (delta_time s) (fst y) (snd y) ys"
      using dist hd by (intro deltas_cong dx) (simp, metis list.set_map)+
    then show ?thesis using del d0 Cons by auto
  qed simp
  have 4: "delta_time ?s (fst (last ds)) = 0" if "ds \<noteq> []"
  proof -
    have "fst (last ds) \<in> set (map fst ds)" using that by simp
    then have "fst (last ds) \<noteq> t" "fst (last ds) \<noteq> OS_DLY" using dist hd by metis+
    then show ?thesis using dx lst [OF that] by simp
  qed
  have 5: "p_blnk ?s z = NULL" if z: "is_task s z" "z \<notin> fst ` set ds" for z
  proof (cases "z = t")
    case False
    then have "p_blnk s z = NULL" using D z by (auto simp: delays_def)
    moreover have "ds \<noteq> [] \<Longrightarrow> z \<noteq> hd0 (map fst ds)" using z(2) by (cases ds) auto
    ultimately show ?thesis using False by (simp add: pb)
  qed (simp add: pb)
  show "delays ?s ds" unfolding delays_def
    using 1 2 3 4 5 cb cb' ac' dist task D by (auto simp: delays_def is_task_def)
qed

lemma dec_dly_expire_ok:
  assumes Q: "queues s q NULL" and D: "delays s ((t, 0) # ds)" and t: "t \<notin> set (q OS_RDY)"
  obtains s' where "dec_dly_expire s = Some s'" "sched_only s s'"
    "queues s' (make_ready (prio s) t q) NULL" "delays s' ds"
    "state s' = (state s)(t := READY)"
proof -
  have tt: "is_task s t" and hd: "p_dlnk s OS_DLY = t" using D by (auto simp: delays_def)
  note u = unlink_wait_queues [OF Q tt t]
  note uf = links_only_fields [OF u(1)]
  have tu: "is_task (unlink_wait t s) t" "\<And>h. t \<notin> set (rmv_q t q h)" using tt uf by simp_all
  obtain s1 where p: "rt_put_prio OS_RDY t (unlink_wait t s) = Some s1"
    and l1: "links_only (unlink_wait t s) s1"
    and Q1: "queues s1 ((rmv_q t q)(OS_RDY := ins_prio (prio (unlink_wait t s)) t (rmv_q t q OS_RDY))) NULL"
    by (rule rt_put_prio_queues [OF queues_weaken [OF u(2)] is_head_RDY tu])
  have l: "links_only s s1" by (rule links_only_trans [OF u(1) l1])
  have D1: "delays s1 ((t, 0) # ds)" using D delays_links_only [OF l] by simp
  note pd = pop_dly_delays [OF D1]
  have "dec_dly_expire s = Some (pop_dly t s1)" by (simp add: dec_dly_expire_eq hd p)
  moreover have "sched_only s (pop_dly t s1)"
    by (rule sched_only_trans [OF links_only_sched [OF l] pd(1)])
  moreover have "queues (pop_dly t s1) (make_ready (prio s) t q) NULL"
    using Q1 uf(6) pd(3,4) sched_only_fields [OF pd(1)]
    by (simp add: make_ready_def queues_cong [of "pop_dly t s1" s1])
  moreover have "state (pop_dly t s1) = (state s)(t := READY)"
    using pd(5) links_only_fields(5) [OF l] by simp
  ultimately show thesis using that pd(2) by blast
qed

lemma dec_dly_loop_ok:
  assumes "queues s q NULL" "delays s ds" "\<forall>t\<in>fst ` set ds. t \<notin> set (q OS_RDY)"
  shows "\<exists>s'. dec_dly_loop s = Some s' \<and> sched_only s s' \<and>
    queues s' (fold (make_ready (prio s)) (map fst (takeWhile (\<lambda>x. snd x = 0) ds)) q) NULL \<and>
    delays s' (dropWhile (\<lambda>x. snd x = 0) ds) \<and>
    state s' = (\<lambda>t. if t \<in> fst ` set (takeWhile (\<lambda>x. snd x = 0) ds) then READY else state s t)"
  using assms
proof (induction ds arbitrary: s q)
  case Nil
  then have "p_dlnk s OS_DLY = NULL" by (simp add: delays_def)
  then show ?case using Nil by (simp add: dec_dly_loop.simps)
next
  case (Cons x ds)
  obtain t k where x: "x = (t, k)" by (cases x)
  have hd: "p_dlnk s OS_DLY = t" "t \<noteq> NULL" "unat (delta_time s OS_DLY) = k"
    using Cons.prems(2) by (auto simp: delays_def x)
  show ?case
  proof (cases "k = 0")
    case False
    then have "delta_time s OS_DLY \<noteq> 0" using hd(3) by (metis unat_0)
    then show ?thesis using Cons.prems False x by (simp add: dec_dly_loop.simps)
  next
    case True
    then have z: "delta_time s OS_DLY = 0" using hd(3) by (simp add: unat_eq_0)
    obtain s1 where e: "dec_dly_expire s = Some s1" "sched_only s s1"
      "queues s1 (make_ready (prio s) t q) NULL" "delays s1 ds" "state s1 = (state s)(t := READY)"
      using dec_dly_expire_ok [OF Cons.prems(1), of t ds] Cons.prems(2,3) x True by auto
    have "t \<notin> fst ` set ds" using Cons.prems(2) by (auto simp: delays_def x)
    then have "\<forall>t'\<in>fst ` set ds. t' \<notin> set (make_ready (prio s) t q OS_RDY)"
      using Cons.prems(3) by (metis imageI image_insert insertCI list.simps(15) make_ready_in)
    from Cons.IH [OF e(3,4) this] obtain s2 where s2: "dec_dly_loop s1 = Some s2" "sched_only s1 s2"
      "queues s2 (fold (make_ready (prio s1)) (map fst (takeWhile (\<lambda>x. snd x = 0) ds)) (make_ready (prio s) t q)) NULL"
      "delays s2 (dropWhile (\<lambda>x. snd x = 0) ds)"
      "state s2 = (\<lambda>t. if t \<in> fst ` set (takeWhile (\<lambda>x. snd x = 0) ds) then READY else state s1 t)"
      by blast
    have "dec_dly_loop s = Some s2" using z hd e(1) s2(1) by (simp add: dec_dly_loop.simps [of s])
    moreover have "sched_only s s2" by (rule sched_only_trans [OF e(2) s2(2)])
    moreover have "prio s1 = prio s" using sched_only_fields [OF e(2)] by simp
    ultimately show ?thesis using s2(3-5) e(5) True x by auto
  qed
qed

text \<open>The effect of a tick on the times: one less for everybody; who reaches zero leaves.\<close>

definition tick_ds :: "('a \<times> nat) list \<Rightarrow> ('a \<times> nat) list" where
  "tick_ds ds = map (\<lambda>x. (fst x, snd x - 1)) ds"

definition expired :: "('a \<times> nat) list \<Rightarrow> 'a list" where
  "expired ds = map fst (takeWhile (\<lambda>x. snd x = 1) ds)"

definition kept :: "('a \<times> nat) list \<Rightarrow> ('a \<times> nat) list" where
  "kept ds = tick_ds (dropWhile (\<lambda>x. snd x = 1) ds)"

lemma tick_ds_split:
  assumes "\<forall>x\<in>set ds. 0 < snd x"
  shows "map fst (takeWhile (\<lambda>x. snd x = 0) (tick_ds ds)) = expired ds"
    "dropWhile (\<lambda>x. snd x = 0) (tick_ds ds) = kept ds"
  using assms by (induction ds) (auto simp: tick_ds_def expired_def kept_def)

lemma tick_deltas: "deltas d p (Suc acc) ds \<Longrightarrow> deltas d p acc (tick_ds ds)"
  by (induction ds arbitrary: p acc) (force simp: tick_ds_def)+

lemma rt_dec_dly_ok:
  assumes Q: "queues s q NULL" and D: "delays s ds" and pos: "\<forall>x\<in>set ds. 0 < snd x"
    and nr: "\<forall>t\<in>fst ` set ds. t \<notin> set (q OS_RDY)"
  obtains s' where "rt_dec_dly s = Some s'" "sched_only s s'"
    "queues s' (fold (make_ready (prio s)) (expired ds) q) NULL" "delays s' (kept ds)"
    "state s' = (\<lambda>t. if t \<in> set (expired ds) then READY else state s t)"
proof (cases "ds = []")
  case True
  then have "p_dlnk s OS_DLY = NULL" using D by (simp add: delays_def)
  then show thesis using that [of s] Q D True by (simp add: rt_dec_dly_def expired_def kept_def tick_ds_def)
next
  case False
  then obtain t k ds' where ds: "ds = (t, k) # ds'" by (cases ds) auto
  let ?s = "set_delta_time OS_DLY (delta_time s OS_DLY - 1) s"
  have hd: "p_dlnk s OS_DLY \<noteq> NULL" and k: "unat (delta_time s OS_DLY) = k"
    using D by (auto simp: delays_def ds)
  have nh: "OS_DLY \<notin> fst ` set ds" using D by (auto simp: delays_def is_task_def)
  have u: "unat (delta_time s OS_DLY - 1) = k - 1"
    using pos by (subst unat_sub_word) (simp_all add: ds k)
  have fst_tick: "map fst (tick_ds xs) = map fst xs" for xs :: "(ptr \<times> nat) list"
    by (simp add: tick_ds_def)
  have "delays ?s (tick_ds ds)"
  proof -
    have "deltas (delta_time s) t k ds'" using D by (auto simp: delays_def ds)
    then have "deltas (delta_time s) t (k - 1) (tick_ds ds')"
      using tick_deltas [of "delta_time s" t "k - 1" ds'] pos by (simp add: ds)
    then have "deltas (delta_time ?s) OS_DLY 0 (tick_ds ds)"
      using nh fst_tick [of ds'] u by (simp add: ds tick_ds_def image_iff)
    moreover have "fst (last (tick_ds ds)) = fst (last ds)"
      using False by (simp add: tick_ds_def last_map)
    moreover have "fst ` set (tick_ds ds) = fst ` set ds" by (force simp: tick_ds_def)
    moreover have "\<forall>k\<in>snd ` set (tick_ds ds). k < 2 ^ 16"
      using D by (fastforce simp: delays_def tick_ds_def)
    moreover have "fst (last ds) \<noteq> OS_DLY" using nh False by (metis imageI last_in_set)
    ultimately show ?thesis using D False
      unfolding delays_def fst_tick by (auto simp: is_task_def tick_ds_def)
  qed
  moreover have "queues ?s q NULL" using Q by (simp add: queues_cong [of ?s s])
  moreover have "fst ` set (tick_ds ds) = fst ` set ds" by (force simp: tick_ds_def)
  ultimately obtain s' where s': "dec_dly_loop ?s = Some s'" "sched_only ?s s'"
    "queues s' (fold (make_ready (prio ?s)) (expired ds) q) NULL" "delays s' (kept ds)"
    "state s' = (\<lambda>t. if t \<in> fst ` set (takeWhile (\<lambda>x. snd x = 0) (tick_ds ds)) then READY else state ?s t)"
    using dec_dly_loop_ok [of ?s q "tick_ds ds"] nr tick_ds_split [OF pos] by auto
  have "sched_only s ?s" by (rule sched_onlyI) simp
  moreover have "fst ` set (takeWhile (\<lambda>x. snd x = 0) (tick_ds ds)) = set (expired ds)"
    using tick_ds_split(1) [OF pos] by (metis image_set)
  ultimately show thesis using that [of s'] s' hd sched_only_trans
    by (fastforce simp: rt_dec_dly_def)
qed

end
