(* ===== verification/Rtx_Task.thy ===== *)
theory Rtx_Task
  imports Rtx_Delay
begin

text \<open>
  The tasks and the dispatcher of the kernel (\<open>rt_Task.c\<close>, \<open>rt_init_stack\<close> of \<open>HAL_CM.c\<close>,
  \<open>rt_stk_check\<close> of \<open>rt_System.c\<close>).  A service runs inside a supervisor call of the running task
  \<open>run\<close> and leaves in \<open>new_tsk\<close> the task that the exit of the call switches to
  (\<open>switch_context\<close>).
\<close>

section \<open>Dispatching\<close>

definition rt_switch_req :: "ptr \<Rightarrow> kernel \<Rightarrow> kernel" where
  "rt_switch_req p_new s = set_state p_new RUNNING (s\<lparr>new_tsk := p_new\<rparr>)"

definition rt_dispatch :: "ptr \<Rightarrow> kernel \<Rightarrow> kernel option" where
  "rt_dispatch next_TCB s =
     (if next_TCB = NULL
      then do { (next_TCB, s) \<leftarrow> rt_get_first OS_RDY s; Some (rt_switch_req next_TCB s) }
      else if prio s (run s) < prio s next_TCB
      then let s = rt_put_rdy_first (run s) s;
               s = set_state (run s) READY s
           in Some (rt_switch_req next_TCB s)
      else rt_put_prio OS_RDY next_TCB (set_state next_TCB READY s))"

definition rt_block :: "U16 \<Rightarrow> tstate \<Rightarrow> kernel \<Rightarrow> kernel option" where
  "rt_block timeout block_state s =
     (if timeout \<noteq> 0
      then do {
        s \<leftarrow> (if timeout < 0xFFFF then rt_put_dly (run s) timeout s else Some s);
        let s = set_state (run s) block_state s;
        (next_TCB, s) \<leftarrow> rt_get_first OS_RDY s;
        Some (rt_switch_req next_TCB s)
      }
      else Some s)"

text \<open>The exit of a supervisor call (\<open>SVC_Handler\<close> and \<open>PendSV_Handler\<close> of \<open>HAL_CM3.S\<close>): the
  requested task becomes the running one.\<close>

definition switch_context :: "kernel \<Rightarrow> kernel" where
  "switch_context s = s\<lparr>run := new_tsk s\<rparr>"

definition rt_tsk_pass :: "kernel \<Rightarrow> kernel option" where
  "rt_tsk_pass s = do {
     (p_new, s) \<leftarrow> rt_get_same_rdy_prio s;
     if p_new \<noteq> NULL
     then do {
       s \<leftarrow> rt_put_prio OS_RDY (run s) s;
       Some (rt_switch_req p_new (set_state (run s) READY s))
     }
     else Some s
   }"

definition rt_tsk_self :: "kernel \<Rightarrow> U32" where
  "rt_tsk_self s = (if run s = NULL then 0 else ucast (task_id s (run s)))"

text \<open>The look-up in \<open>os_active_TCB\<close> of \<open>rt_tsk_prio\<close> and \<open>rt_tsk_delete\<close>, and the code after the
  label \<open>run\<close> of \<open>rt_tsk_prio\<close>.\<close>

definition tsk_active :: "U32 \<Rightarrow> kernel \<Rightarrow> ptr" where
  "tsk_active tid s =
     (if unat tid > length (os_active_TCB s) then NULL else os_active_TCB s ! (unat tid - 1))"

definition tsk_prio_run :: "U8 \<Rightarrow> kernel \<Rightarrow> kernel option" where
  "tsk_prio_run new_prio s = do {
     rp \<leftarrow> rt_rdy_prio s;
     if new_prio < rp
     then do {
       s \<leftarrow> rt_put_prio OS_RDY (run s) s;
       rt_dispatch NULL (set_state (run s) READY s)
     }
     else Some s
   }"

definition rt_tsk_prio :: "U32 \<Rightarrow> U8 \<Rightarrow> kernel \<Rightarrow> (U32 \<times> kernel) option" where
  "rt_tsk_prio tid new_prio s =
     (if tid = 0
      then do {
        let s = set_prio_base (run s) new_prio (set_prio (run s) new_prio s);
        s \<leftarrow> tsk_prio_run new_prio s;
        Some (OS_R_OK, s)
      }
      else if tsk_active tid s = NULL then Some (OS_R_NOK, s)
      else do {
        let p_task = tsk_active tid s;
        let s = set_prio_base p_task new_prio (set_prio p_task new_prio s);
        if p_task = run s
        then do { s \<leftarrow> tsk_prio_run new_prio s; Some (OS_R_OK, s) }
        else do {
          s \<leftarrow> rt_resort_prio p_task s;
          if state s p_task = READY
          then do {
            (p_task, s) \<leftarrow> rt_get_first OS_RDY s;
            s \<leftarrow> rt_dispatch p_task s;
            Some (OS_R_OK, s)
          }
          else Some (OS_R_OK, s)
        }
      })"

section \<open>Creating and deleting tasks\<close>

primrec first_free :: "nat \<Rightarrow> ptr list \<Rightarrow> nat" where
  "first_free tid [] = 0"
| "first_free tid (x # xs) = (if x = NULL then tid else first_free (Suc tid) xs)"

definition rt_get_TID :: "kernel \<Rightarrow> nat" where
  "rt_get_TID s = first_free 1 (os_active_TCB s)"

definition rt_init_stack :: "ptr \<Rightarrow> U32 \<Rightarrow> kernel \<Rightarrow> kernel" where
  "rt_init_stack p task_body s =
     (let size = drop_bit 2 (priv_stack s p);
          size = (if size = 0 then drop_bit 2 (ucast (ucast (os_stackinfo s) :: U16)) else size);
          stk = stack s p + 4 * size;
          stk = (if stk AND 4 \<noteq> 0 then stk - 4 else stk);
          stk = stk - 64;
          s = s\<lparr>ret0 := (ret0 s)(p := msg s p), ret1 := (ret1 s)(p := 0)\<rparr>;
          s = set_ptask p task_body (set_tsk_stack p stk s)
      in s\<lparr>stack_word := (stack_word s)(stack s p := MAGIC_WORD)\<rparr>)"

definition rt_init_context :: "ptr \<Rightarrow> U8 \<Rightarrow> U32 \<Rightarrow> kernel \<Rightarrow> kernel" where
  "rt_init_context p priority task_body s =
     (let s = set_cb_type p TCB s;
          s = set_state p READY s;
          s = set_prio_base p priority (set_prio p priority s);
          s = set_p_rlnk p NULL (set_p_lnk p NULL s);
          s = set_p_blnk p NULL (set_p_dlnk p NULL s);
          s = set_p_mlnk p NULL s;
          s = set_interval_time p 0 (set_delta_time p 0 s);
          s = set_waits p 0 (set_events p 0 s);
          s = (if priv_stack s p = 0
               then let (b, s) = alloc_box (mp_stk s) s in set_stack p b s else s)
      in rt_init_stack p task_body s)"

definition rt_tsk_create :: "U32 \<Rightarrow> U32 \<Rightarrow> U32 \<Rightarrow> U32 \<Rightarrow> kernel \<Rightarrow> (U32 \<times> kernel) option" where
  "rt_tsk_create task prio_stksz stk arg s =
     (let prio_stksz = (if prio_stksz AND 0xFF = 0 then prio_stksz + 1 else prio_stksz);
          (b, s) = alloc_box (mp_tcb s) s;
          p = ptr_of b
      in if p = NULL then Some (0, s)
      else
        let s = set_priv_stack p (drop_bit 8 prio_stksz) (set_stack p stk s);
            i = rt_get_TID s
        in if i = 0 then Some (0, s)
        else do {
          let s = set_task_id p (word_of_nat i) s;
          let s = set_argv p arg (set_msg p arg s);
          let s = rt_init_context p (ucast (prio_stksz AND 0xFF)) task s;
          let s = s\<lparr>os_active_TCB := (os_active_TCB s)[i - 1 := p]\<rparr>;
          s \<leftarrow> rt_dispatch p s;
          Some (word_of_nat i, s)
        })"

text \<open>The loop of \<open>rt_tsk_delete\<close> that gives up the mutexes of the deleted task: one turn, which
  returns the next mutex, and the loop.\<close>

definition release_mutex :: "ptr \<Rightarrow> kernel \<Rightarrow> (ptr \<times> kernel) option" where
  "release_mutex p_MCB s =
     (if p_lnk s p_MCB \<noteq> NULL
      then do {
        (p_TCB, s) \<leftarrow> rt_get_first p_MCB s;
        let s = rt_ret_val p_TCB 0 s;
        let s = rt_rmv_dly p_TCB s;
        let s = set_state p_TCB READY s;
        s \<leftarrow> rt_put_prio OS_RDY p_TCB s;
        let p_MCB0 = p_mlnk s p_MCB;
        let s = set_owner p_MCB p_TCB (set_level p_MCB 1 s);
        let s = set_p_mlnk p_MCB (p_mlnk s p_TCB) s;
        Some (p_MCB0, set_p_mlnk p_TCB p_MCB s)
      }
      else Some (p_mlnk s p_MCB,
        set_p_mlnk p_MCB NULL (set_owner p_MCB NULL (set_level p_MCB 0 s))))"

partial_function (option) release_mutexes :: "ptr \<Rightarrow> kernel \<Rightarrow> kernel option" where
  "release_mutexes p_MCB s =
     (if p_MCB = NULL then Some s
      else Option.bind (release_mutex p_MCB s) (\<lambda>(p_MCB0, s). release_mutexes p_MCB0 s))"

definition rt_stk_check :: "kernel \<Rightarrow> kernel" where
  "rt_stk_check s =
     (if tsk_stack s (run s) < stack s (run s) \<or> stack_word s (stack s (run s)) \<noteq> MAGIC_WORD
      then os_error OS_ERR_STK_OVF s else s)"

text \<open>What both branches of \<open>rt_tsk_delete\<close> do last to the control block \<open>p\<close> with identifier
  \<open>tid\<close>.\<close>

definition drop_task :: "ptr \<Rightarrow> U32 \<Rightarrow> kernel \<Rightarrow> kernel" where
  "drop_task p tid s =
     (let s = s\<lparr>os_active_TCB := (os_active_TCB s)[unat tid - 1 := NULL]\<rparr>;
          s = free_box (mp_stk s) (stack s p) s;
          s = set_stack p 0 s
      in case p of CB b \<Rightarrow> free_box (mp_tcb s) b s | _ \<Rightarrow> s)"

definition rt_tsk_delete :: "U32 \<Rightarrow> kernel \<Rightarrow> (U32 \<times> kernel) option" where
  "rt_tsk_delete tid s =
     (if tid = 0 \<or> tid = ucast (task_id s (run s))
      then do {
        let s = set_state (run s) INACTIVE s;
        let s = set_tsk_stack (run s) (psp s) s;
        let s = rt_stk_check s;
        s \<leftarrow> release_mutexes (p_mlnk s (run s)) s;
        let s = drop_task (run s) (ucast (task_id s (run s))) s;
        let s = s\<lparr>run := NULL\<rparr>;
        s \<leftarrow> rt_dispatch NULL s;
        Some (OS_R_OK, s)
      }
      else if tsk_active tid s = NULL then Some (OS_R_NOK, s)
      else do {
        let p = tsk_active tid s;
        s \<leftarrow> rt_rmv_list p s;
        let s = rt_rmv_dly p s;
        s \<leftarrow> release_mutexes (p_mlnk s p) s;
        let s = drop_task p tid s;
        rp \<leftarrow> rt_rdy_prio s;
        if prio s (run s) < rp
        then do {
          let s = set_state (run s) READY s;
          s \<leftarrow> rt_put_prio OS_RDY (run s) s;
          s \<leftarrow> rt_dispatch NULL s;
          Some (OS_R_OK, s)
        }
        else Some (OS_R_OK, s)
      })"

section \<open>Starting the kernel\<close>

definition rt_init_robin :: "U16 \<Rightarrow> kernel \<Rightarrow> kernel" where
  "rt_init_robin os_rrobin s = s\<lparr>robin_task := NULL, robin_tout := os_rrobin\<rparr>"

definition init_box :: "U32 \<Rightarrow> kernel \<Rightarrow> kernel" where
  "init_box pool s = s\<lparr>box_free := (box_free s)(pool := box_mem s pool)\<rparr>"

definition rt_sys_init :: "U8 \<Rightarrow> U16 \<Rightarrow> U32 \<Rightarrow> kernel \<Rightarrow> kernel" where
  "rt_sys_init os_fifo_size os_rrobin os_idle_demon s =
     (let s = s\<lparr>os_active_TCB := map (\<lambda>_. NULL) (os_active_TCB s)\<rparr>;
          s = init_box (mp_tcb s) s;
          s = init_box (mp_stk s) s;
          s = set_priv_stack OS_IDLE 0 (set_task_id OS_IDLE 255 s);
          s = rt_init_context OS_IDLE 0 os_idle_demon s;
          s = set_p_lnk OS_RDY NULL (set_cb_type OS_RDY HCB s);
          s = set_p_blnk OS_DLY NULL (set_p_dlnk OS_DLY NULL (set_cb_type OS_DLY HCB s));
          s = set_delta_time OS_DLY 0 s;
          s = set_state OS_IDLE RUNNING (s\<lparr>run := OS_IDLE\<rparr>);
          s = rt_switch_req OS_IDLE s;
          s = s\<lparr>psq_first := 0, psq_last := 0, psq_size := os_fifo_size\<rparr>
      in rt_init_robin os_rrobin s)"

text \<open>\<open>rt_psh_req\<close> (\<open>rt_System.c\<close>): request the post-service handling, now or when the scheduler is
  unlocked.\<close>

definition rt_psh_req :: "kernel \<Rightarrow> kernel" where
  "rt_psh_req s = (if \<not> os_lock s then s\<lparr>pendsv := True\<rparr> else s\<lparr>os_psh_flag := True\<rparr>)"

end
