(* ===== verification/Rtx_Sched.thy ===== *)
theory Rtx_Sched
  imports Rtx_Task
begin

text \<open>
  The invariant of the scheduler and the effect of the dispatcher on the abstract lists.
  \<open>sched s q ds X\<close>: the lists of \<open>s\<close> are \<open>q\<close> and \<open>ds\<close>, kept by priority, and the \<open>state\<close> of every
  task outside \<open>X\<close> agrees with the list it is in; the tasks in \<open>X\<close> are on their way between two
  lists.  \<open>kinv s q ds\<close>: in addition exactly one task runs, it is in no list, and no ready task has
  a higher priority.
\<close>

definition waiting :: "tstate \<Rightarrow> bool" where
  "waiting st \<longleftrightarrow> st = WAIT_SEM \<or> st = WAIT_MBX \<or> st = WAIT_MUT"

definition blocked :: "tstate \<Rightarrow> bool" where
  "blocked st \<longleftrightarrow> st \<notin> {INACTIVE, READY, RUNNING}"

definition sched :: "kernel \<Rightarrow> (ptr \<Rightarrow> ptr list) \<Rightarrow> (ptr \<times> nat) list \<Rightarrow> ptr set \<Rightarrow> bool" where
  "sched s q ds X \<longleftrightarrow>
     queues s q NULL \<and> delays s ds \<and> (\<forall>x\<in>set ds. 0 < snd x) \<and> (\<forall>h. by_prio (prio s) (q h)) \<and>
     (\<forall>t\<in>X. \<forall>h. t \<notin> set (q h)) \<and>
     (\<forall>t. is_task s t \<longrightarrow> t \<notin> X \<longrightarrow>
        (t \<in> set (q OS_RDY) \<longleftrightarrow> state s t = READY) \<and>
        ((\<exists>h. h \<noteq> OS_RDY \<and> t \<in> set (q h)) \<longleftrightarrow> waiting (state s t)) \<and>
        (t \<in> fst ` set ds \<longrightarrow> blocked (state s t)) \<and>
        state s t \<noteq> RUNNING)"

lemma schedI:
  assumes "queues s q NULL" "delays s ds" "\<And>t k. (t, k) \<in> set ds \<Longrightarrow> 0 < k"
    "\<And>h. by_prio (prio s) (q h)" "\<And>t h. t \<in> X \<Longrightarrow> t \<notin> set (q h)"
    "\<And>t. is_task s t \<Longrightarrow> t \<notin> X \<Longrightarrow> (t \<in> set (q OS_RDY) \<longleftrightarrow> state s t = READY)"
    "\<And>t. is_task s t \<Longrightarrow> t \<notin> X \<Longrightarrow> (\<exists>h. h \<noteq> OS_RDY \<and> t \<in> set (q h)) \<longleftrightarrow> waiting (state s t)"
    "\<And>t. is_task s t \<Longrightarrow> t \<notin> X \<Longrightarrow> t \<in> fst ` set ds \<Longrightarrow> blocked (state s t)"
    "\<And>t. is_task s t \<Longrightarrow> t \<notin> X \<Longrightarrow> state s t \<noteq> RUNNING"
  shows "sched s q ds X"
  using assms unfolding sched_def by (intro conjI allI ballI impI) auto

lemma schedD:
  assumes "sched s q ds X"
  shows "queues s q NULL" "delays s ds" "\<And>t k. (t, k) \<in> set ds \<Longrightarrow> 0 < k"
    "\<And>h. by_prio (prio s) (q h)" "\<And>t h. t \<in> X \<Longrightarrow> t \<notin> set (q h)"
    "\<And>t. is_task s t \<Longrightarrow> t \<notin> X \<Longrightarrow> (t \<in> set (q OS_RDY) \<longleftrightarrow> state s t = READY)"
    "\<And>t. is_task s t \<Longrightarrow> t \<notin> X \<Longrightarrow> (\<exists>h. h \<noteq> OS_RDY \<and> t \<in> set (q h)) \<longleftrightarrow> waiting (state s t)"
    "\<And>t. is_task s t \<Longrightarrow> t \<notin> X \<Longrightarrow> t \<in> fst ` set ds \<Longrightarrow> blocked (state s t)"
    "\<And>t. is_task s t \<Longrightarrow> t \<notin> X \<Longrightarrow> state s t \<noteq> RUNNING"
proof -
  show "queues s q NULL" "delays s ds" using assms by (simp_all add: sched_def)
  show "\<And>t k. (t, k) \<in> set ds \<Longrightarrow> 0 < k" using assms unfolding sched_def by (metis snd_conv)
  show "\<And>h. by_prio (prio s) (q h)" "\<And>t h. t \<in> X \<Longrightarrow> t \<notin> set (q h)"
    using assms by (simp_all add: sched_def)
  fix t assume t: "is_task s t" "t \<notin> X"
  have "(t \<in> set (q OS_RDY) \<longleftrightarrow> state s t = READY) \<and>
        ((\<exists>h. h \<noteq> OS_RDY \<and> t \<in> set (q h)) \<longleftrightarrow> waiting (state s t)) \<and>
        (t \<in> fst ` set ds \<longrightarrow> blocked (state s t)) \<and> state s t \<noteq> RUNNING"
    using assms t unfolding sched_def by (elim conjE) (drule spec, drule mp, assumption, drule mp)
  then show "(t \<in> set (q OS_RDY) \<longleftrightarrow> state s t = READY)"
    "(\<exists>h. h \<noteq> OS_RDY \<and> t \<in> set (q h)) \<longleftrightarrow> waiting (state s t)"
    "t \<in> fst ` set ds \<Longrightarrow> blocked (state s t)" "state s t \<noteq> RUNNING" by blast+
qed

text \<open>The scheduler's facts depend on few members only; the state of a task in \<open>X\<close> is free.\<close>

lemma sched_cong:
  assumes "cb_type s' = cb_type s" "os_active_TCB s' = os_active_TCB s"
    "p_lnk s' = p_lnk s" "p_rlnk s' = p_rlnk s" "p_dlnk s' = p_dlnk s" "p_blnk s' = p_blnk s"
    "delta_time s' = delta_time s" "prio s' = prio s"
    "\<And>t. t \<notin> X \<Longrightarrow> state s' t = state s t"
  shows "sched s' q ds X = sched s q ds X"
proof -
  have "is_task s' = is_task s" using assms by (auto simp: is_task_def fun_eq_iff)
  then show ?thesis unfolding sched_def
    using queues_cong [OF assms(1-4)] delays_cong [OF assms(1,2,5-7)] assms(8,9) by simp
qed

lemma sched_state [simp]: "t \<in> X \<Longrightarrow> sched (set_state t v s) q ds X = sched s q ds X"
  by (rule sched_cong) auto

lemma sched_ready_queue: "sched s q ds X \<Longrightarrow> t \<in> set (q OS_RDY) \<Longrightarrow>
    t \<notin> X \<and> is_task s t \<and> state s t = READY \<and> t \<notin> fst ` set ds"
  using queues_task [OF schedD(1)] schedD(5) schedD(6) schedD(8) 
  by (metis (no_types, lifting) blocked_def insert_iff)

lemma wait_upd_rdy [simp]:
  "(\<exists>h. h \<noteq> OS_RDY \<and> t \<in> set ((q(OS_RDY := xs)) h)) \<longleftrightarrow> (\<exists>h. h \<noteq> OS_RDY \<and> t \<in> set (q h))"
  by (metis fun_upd_other)

lemma sched_put_prio_rdy:
  assumes S: "sched s q ds X" and t: "t \<in> X" "is_task s t" "t \<notin> fst ` set ds" "state s t = READY"
  obtains s' where "rt_put_prio OS_RDY t s = Some s'" "links_only s s'"
    "sched s' (q(OS_RDY := ins_prio (prio s) t (q OS_RDY))) ds (X - {t})"
proof -
  note D = schedD [OF S]
  obtain s' where p: "rt_put_prio OS_RDY t s = Some s'" "links_only s s'"
    "queues s' (q(OS_RDY := ins_prio (prio s) t (q OS_RDY))) NULL"
    using rt_put_prio_queues [OF queues_weaken [OF D(1)] is_head_RDY t(2)] D(5) t(1) by metis
  note f = links_only_fields [OF p(2)]
  have "sched s' (q(OS_RDY := ins_prio (prio s) t (q OS_RDY))) ds (X - {t})"
  proof (rule schedI)
    show "delays s' ds" using D(2) delays_links_only [OF p(2)] by simp
    show "\<And>h. by_prio (prio s') ((q(OS_RDY := ins_prio (prio s) t (q OS_RDY))) h)"
      using D(4) by (simp add: f by_prio_ins_prio)
    show "\<And>t'. is_task s' t' \<Longrightarrow> t' \<notin> X - {t} \<Longrightarrow>
      (\<exists>h. h \<noteq> OS_RDY \<and> t' \<in> set ((q(OS_RDY := ins_prio (prio s) t (q OS_RDY))) h)) \<longleftrightarrow> waiting (state s' t')"
      unfolding wait_upd_rdy using D(5) [OF t(1)] D(7) t by (simp add: f) (metis tstate.distinct waiting_def)
    show "\<And>t' k. (t', k) \<in> set ds \<Longrightarrow> 0 < k" by (rule D(3))
    show "\<And>t'. is_task s' t' \<Longrightarrow> t' \<notin> X - {t} \<Longrightarrow> t' \<in> fst ` set ds \<Longrightarrow> blocked (state s' t')"
      using D(8) t(3) unfolding f by blast
  qed (use p D(5,6,9) t f in auto)
  then show thesis using that p by blast
qed

text \<open>The same when the state, and those of other tasks, are set after the insertion.\<close>

lemma sched_put_rdy_later:
  assumes S: "sched (state_update g s) q ds X" and t: "t \<in> X" "is_task s t" "t \<notin> fst ` set ds"
  obtains s' where "rt_put_prio OS_RDY t s = Some s'" "links_only s s'"
    "sched (set_state t READY (state_update g s')) (q(OS_RDY := ins_prio (prio s) t (q OS_RDY))) ds (X - {t})"
proof -
  note D = schedD [OF S]
  have Q: "queues s q NULL" using D(1) queues_cong [of "state_update g s" s] by simp
  have tk: "is_task (state_update g' u) = is_task u" for g' u by (simp add: is_task_def fun_eq_iff)
  obtain s' where p: "rt_put_prio OS_RDY t s = Some s'" "links_only s s'"
    "queues s' (q(OS_RDY := ins_prio (prio s) t (q OS_RDY))) NULL"
    using rt_put_prio_queues [OF queues_weaken [OF Q] is_head_RDY t(2)] D(5) t(1) by metis
  note f = links_only_fields [OF p(2)]
  let ?s = "set_state t READY (state_update g s')"
  have "sched ?s (q(OS_RDY := ins_prio (prio s) t (q OS_RDY))) ds (X - {t})"
  proof (rule schedI)
    show "queues ?s (q(OS_RDY := ins_prio (prio s) t (q OS_RDY))) NULL"
      using p(3) queues_cong [of ?s s'] by simp
    show "delays ?s ds" 
      using D(2) delays_links_only [OF p(2)] delays_cong [of ?s s'] delays_cong [of "state_update g s" s] by simp
    show "\<And>h. by_prio (prio ?s) ((q(OS_RDY := ins_prio (prio s) t (q OS_RDY))) h)"
      using D(4) by (simp add: f by_prio_ins_prio)
    show "\<And>t' h. t' \<in> X - {t} \<Longrightarrow> t' \<notin> set ((q(OS_RDY := ins_prio (prio s) t (q OS_RDY))) h)"
      using D(5) by auto
    show "\<And>t' k. (t', k) \<in> set ds \<Longrightarrow> 0 < k" by (rule D(3))
    fix t' assume t': "is_task ?s t'" "t' \<notin> X - {t}"
    have st: "state ?s t' = (if t' = t then READY else state (state_update g s) t')" by (simp add: f)
    have t'X: "t' \<noteq> t \<Longrightarrow> is_task (state_update g s) t' \<and> t' \<notin> X" using t' f by (simp add: tk)
    have wt: "\<not> (\<exists>h. h \<noteq> OS_RDY \<and> t \<in> set (q h))" using D(5) [OF t(1)] by blast
    show "t' \<in> set ((q(OS_RDY := ins_prio (prio s) t (q OS_RDY))) OS_RDY) \<longleftrightarrow> state ?s t' = READY"
      unfolding st using D(6) [of t'] t'X by auto
    show "(\<exists>h. h \<noteq> OS_RDY \<and> t' \<in> set ((q(OS_RDY := ins_prio (prio s) t (q OS_RDY))) h)) \<longleftrightarrow> waiting (state ?s t')"
      unfolding wait_upd_rdy st using D(7) [of t'] t'X wt by (cases "t' = t") (simp_all add: waiting_def)
    show "t' \<in> fst ` set ds \<Longrightarrow> blocked (state ?s t')"
      unfolding st using D(8) [of t'] t'X t(3) by auto
    show "state ?s t' \<noteq> RUNNING" unfolding st using D(9) [of t'] t'X by auto
  qed
  then show thesis using that p by blast
qed

lemma sched_put_rdy:
  assumes S: "sched s q ds X" and t: "t \<in> X" "is_task s t" "t \<notin> fst ` set ds"
  obtains s' where "rt_put_prio OS_RDY t s = Some s'" "links_only s s'"
    "sched (set_state t READY s') (q(OS_RDY := ins_prio (prio s) t (q OS_RDY))) ds (X - {t})"
proof -
  have "state_update (\<lambda>f. f) u = u" for u :: kernel by simp
  then show thesis using sched_put_rdy_later [of "\<lambda>f. f" s q ds X t] assms that by metis
qed

lemma sched_put_rdy_first:
  assumes S: "sched s q ds X" and t: "t \<in> X" "is_task s t" "t \<notin> fst ` set ds" "state s t = READY"
    and pr: "\<forall>x\<in>set (q OS_RDY). prio s x \<le> prio s t"
  shows "links_only s (rt_put_rdy_first t s)"
    "sched (rt_put_rdy_first t s) (q(OS_RDY := t # q OS_RDY)) ds (X - {t})"
proof -
  note D = schedD [OF S]
  have p: "links_only s (rt_put_rdy_first t s)"
    "queues (rt_put_rdy_first t s) (q(OS_RDY := t # q OS_RDY)) NULL"
    using rt_put_rdy_first_queues [OF queues_weaken [OF D(1)] t(2)] D(5) t(1) by metis+
  show "links_only s (rt_put_rdy_first t s)" by (rule p)
  note f = links_only_fields [OF p(1)]
  show "sched (rt_put_rdy_first t s) (q(OS_RDY := t # q OS_RDY)) ds (X - {t})" (is "sched ?s _ _ _")
  proof (rule schedI)
    show "delays ?s ds" using D(2) delays_links_only [OF p(1)] by simp
    show "\<And>h. by_prio (prio ?s) ((q(OS_RDY := t # q OS_RDY)) h)"
      using D(4) pr by (simp add: f by_prio_Cons)
    show "\<And>t'. is_task ?s t' \<Longrightarrow> t' \<notin> X - {t} \<Longrightarrow>
      (\<exists>h. h \<noteq> OS_RDY \<and> t' \<in> set ((q(OS_RDY := t # q OS_RDY)) h)) \<longleftrightarrow> waiting (state ?s t')"
      unfolding wait_upd_rdy using D(5) [OF t(1)] D(7) t by (simp add: f) (metis tstate.distinct waiting_def)
    show "\<And>t' k. (t', k) \<in> set ds \<Longrightarrow> 0 < k" by (rule D(3))
    show "\<And>t'. is_task ?s t' \<Longrightarrow> t' \<notin> X - {t} \<Longrightarrow> t' \<in> fst ` set ds \<Longrightarrow> blocked (state ?s t')"
      using D(8) t(3) unfolding f by blast
  qed (use p D(5,6,9) t f in auto)
qed

lemma sched_get_first:
  assumes S: "sched s q ds X" and h: "is_head s h" "q h = t # B"
  obtains s' where "rt_get_first h s = Some (t, s')" "links_only s s'"
    "sched s' (q(h := B)) ds (insert t X)"
proof -
  note D = schedD [OF S]
  obtain s' where p: "rt_get_first h s = Some (t, s')" "links_only s s'" "queues s' (q(h := B)) NULL"
    using rt_get_first_queues [OF D(1) h] .
  note f = links_only_fields [OF p(2)]
  have th: "t \<in> set (q h)" using h by simp
  have dist: "t \<notin> set B" "\<And>h'. h' \<noteq> h \<Longrightarrow> t \<notin> set (q h')"
    using queues_distinct [OF D(1), of h] h queues_disjoint [OF D(1) th] by auto
  have other: "t' \<in> set ((q(h := B)) h') \<longleftrightarrow> t' \<in> set (q h')" if "t' \<noteq> t" for t' h'
    using h that by auto
  have "sched s' (q(h := B)) ds (insert t X)"
  proof (rule schedI)
    show "delays s' ds" using D(2) delays_links_only [OF p(2)] by simp
    show "\<And>h'. by_prio (prio s') ((q(h := B)) h')"
      using D(4) [of h] D(4) h by (simp add: f by_prio_Cons)
    show "\<And>t' h'. t' \<in> insert t X \<Longrightarrow> t' \<notin> set ((q(h := B)) h')"
      using dist D(5) h by (metis fun_upd_apply insert_iff list.set_intros(2))
    show "\<And>t' k. (t', k) \<in> set ds \<Longrightarrow> 0 < k" by (rule D(3))
  qed (use p D(5-9) f in \<open>simp_all add: other del: fun_upd_apply\<close>)
  then show thesis using that p by blast
qed

lemma fst_rmv_dly [simp]: "fst ` set (rmv_dly t ds) = fst ` set ds - {t}"
  by (auto simp: rmv_dly_def)

lemma set_ins_dly [simp]: "set (ins_dly t k ds) = insert (t, k) (set ds)"
proof -
  have "set (takeWhile (\<lambda>x. snd x < k) ds) \<union> set (dropWhile (\<lambda>x. snd x < k) ds) = set ds"
    by (metis set_append takeWhile_dropWhile_id)
  then show ?thesis unfolding ins_dly_def by auto
qed

lemma sched_rmv_dly:
  assumes S: "sched s q ds X" and t: "t \<in> X" "is_task s t"
  shows "dly_only s (rt_rmv_dly t s)" "sched (rt_rmv_dly t s) q (rmv_dly t ds) X"
proof -
  note D = schedD [OF S]
  note p = rt_rmv_dly_delays [OF D(2) t(2)]
  note f = dly_only_fields [OF p(1)]
  show "dly_only s (rt_rmv_dly t s)" by (rule p)
  show "sched (rt_rmv_dly t s) q (rmv_dly t ds) X"
  proof (rule schedI)
    show "queues (rt_rmv_dly t s) q NULL" using D(1) queues_dly_only [OF p(1)] by simp
    show "\<And>t' k. (t', k) \<in> set (rmv_dly t ds) \<Longrightarrow> 0 < k" using D(3) by (auto simp: rmv_dly_def)
    show "\<And>t'. is_task (rt_rmv_dly t s) t' \<Longrightarrow> t' \<notin> X \<Longrightarrow> t' \<in> fst ` set (rmv_dly t ds) \<Longrightarrow>
      blocked (state (rt_rmv_dly t s) t')" using D(8) by (simp add: f del: imageE)
  qed (use p D(1-7,9) f in auto)
qed

lemma sched_put_dly:
  assumes S: "sched s q ds X" and t: "t \<in> X" "is_task s t" "t \<notin> fst ` set ds" "0 < delay"
  obtains s' where "rt_put_dly t delay s = Some s'" "dly_only s s'"
    "sched s' q (ins_dly t (unat delay) ds) X"
proof -
  note D = schedD [OF S]
  obtain s' where p: "rt_put_dly t delay s = Some s'" "dly_only s s'"
    "delays s' (ins_dly t (unat delay) ds)" using rt_put_dly_delays [OF D(2) t(2-4)] .
  note f = dly_only_fields [OF p(2)]
  have u: "0 < unat delay" using t(4) by (simp add: word_less_nat_alt)
  have "sched s' q (ins_dly t (unat delay) ds) X"
  proof (rule schedI)
    show "queues s' q NULL" using D(1) queues_dly_only [OF p(2)] by simp
    show "\<And>t' k. (t', k) \<in> set (ins_dly t (unat delay) ds) \<Longrightarrow> 0 < k" using D(3) u by auto
    show "\<And>t'. is_task s' t' \<Longrightarrow> t' \<notin> X \<Longrightarrow> t' \<in> fst ` set (ins_dly t (unat delay) ds) \<Longrightarrow>
      blocked (state s' t')" using D(8) t(1) by (simp add: f del: imageE) blast
  qed (use p D(1-7,9) f t in auto)
  then show thesis using that p by blast
qed

text \<open>A task that waits at a synchronisation object.\<close>

lemma sched_put_wait:
  assumes S: "sched s q ds X" and t: "t \<in> X" "is_task s t" and h: "is_sem_mbx s h"
  obtains s' where "rt_put_prio h t s = Some s'" "links_only s s'"
    "\<And>st. waiting st \<Longrightarrow> sched (set_state t st s') (q(h := ins_prio (prio s) t (q h))) ds (X - {t})"
    "queues s' (q(h := ins_prio (prio s) t (q h))) NULL"
proof -
  note D = schedD [OF S]
  have hr: "h \<noteq> OS_RDY" using sem_head_facts(3) [OF D(1) h] .
  have hh: "is_head s h" using h by (simp add: is_head_def)
  obtain s' where p: "rt_put_prio h t s = Some s'" "links_only s s'"
    "queues s' (q(h := ins_prio (prio s) t (q h))) NULL"
    using rt_put_prio_queues [OF queues_weaken [OF D(1)] hh t(2)] D(5) t(1) by metis
  note f = links_only_fields [OF p(2)]
  have "sched (set_state t st s') (q(h := ins_prio (prio s) t (q h))) ds (X - {t})" (is "sched ?s _ _ _")
    if w: "waiting st" for st
  proof (rule schedI)
    have tk: "is_task ?s = is_task s" using f by (simp add: is_task_def fun_eq_iff)
    show "queues ?s (q(h := ins_prio (prio s) t (q h))) NULL"
      using p(3) queues_cong [of ?s s'] by simp
    show "delays ?s ds" using D(2) delays_cong [of ?s s'] delays_links_only [OF p(2)] by simp
    show "\<And>h'. by_prio (prio ?s) ((q(h := ins_prio (prio s) t (q h))) h')"
      using D(4) by (simp add: f by_prio_ins_prio)
    show "\<And>t' h'. t' \<in> X - {t} \<Longrightarrow> t' \<notin> set ((q(h := ins_prio (prio s) t (q h))) h')"
      using D(5) by auto
    show "\<And>t' k. (t', k) \<in> set ds \<Longrightarrow> 0 < k" by (rule D(3))
    fix t' assume t': "is_task ?s t'" "t' \<notin> X - {t}"
    have st: "state ?s t' = (if t' = t then st else state s t')" by (simp add: f)
    have t'X: "t' \<noteq> t \<Longrightarrow> is_task s t' \<and> t' \<notin> X" using t' tk by auto
    show "t' \<in> set ((q(h := ins_prio (prio s) t (q h))) OS_RDY) \<longleftrightarrow> state ?s t' = READY"
      using D(5) [OF t(1), of OS_RDY] D(6) [of t'] t'X hr w unfolding st by (auto simp: waiting_def)
    have "h' \<noteq> OS_RDY \<and> t' \<in> set ((q(h := ins_prio (prio s) t (q h))) h') \<longleftrightarrow>
        h' \<noteq> OS_RDY \<and> (t' = t \<and> h' = h \<or> t' \<in> set (q h'))" for h' by auto
    then show "(\<exists>h'. h' \<noteq> OS_RDY \<and> t' \<in> set ((q(h := ins_prio (prio s) t (q h))) h')) \<longleftrightarrow> waiting (state ?s t')"
      using D(7) [of t'] t'X hr w unfolding st by auto
    show "t' \<in> fst ` set ds \<Longrightarrow> blocked (state ?s t')"
      using D(8) [of t'] t'X w unfolding st by (auto simp: waiting_def blocked_def)
    show "state ?s t' \<noteq> RUNNING"
      using D(9) [of t'] t'X w unfolding st by (auto simp: waiting_def)
  qed
  then show thesis using that p by blast
qed


section \<open>The dispatcher\<close>

text \<open>What a service of the scheduler may change besides its own object: the links, the delays, the
  states, the requested task and the return registers.\<close>

definition core_only :: "kernel \<Rightarrow> kernel \<Rightarrow> bool" where
  "core_only s s' \<longleftrightarrow> (\<exists>a b c d e f g h i. s' = s\<lparr>p_lnk := a, p_rlnk := b, p_dlnk := c, p_blnk := d,
     delta_time := e, state := f, new_tsk := g, ret0 := h, ret1 := i\<rparr>)"

lemma core_onlyI: "s' = s\<lparr>p_lnk := p_lnk s', p_rlnk := p_rlnk s', p_dlnk := p_dlnk s',
    p_blnk := p_blnk s', delta_time := delta_time s', state := state s', new_tsk := new_tsk s',
    ret0 := ret0 s', ret1 := ret1 s'\<rparr> \<Longrightarrow> core_only s s'"
  unfolding core_only_def by (intro exI)

lemma core_only_refl [simp]: "core_only s s"
  by (rule core_onlyI) simp

lemma core_only_trans [trans]: "core_only s s' \<Longrightarrow> core_only s' s'' \<Longrightarrow> core_only s s''"
  by (clarsimp simp: core_only_def) (intro exI, rule refl)

lemma sched_only_core: "sched_only s s' \<Longrightarrow> core_only s s'"
  by (clarsimp simp: sched_only_def intro!: core_onlyI)

lemma links_only_core: "links_only s s' \<Longrightarrow> core_only s s'"
  by (simp add: links_only_sched sched_only_core)

lemma dly_only_core: "dly_only s s' \<Longrightarrow> core_only s s'"
  by (simp add: dly_only_sched sched_only_core)

lemma core_only_steps [simp]:
  "core_only s (set_state t v s)" "core_only s (rt_ret_val t w s)" "core_only s (rt_ret_val2 t w w' s)"
  "core_only s (rt_switch_req t s)"
  by (rule core_onlyI; simp add: rt_ret_val_def rt_ret_val2_def rt_switch_req_def)+

lemma core_only_fields:
  assumes "core_only s s'"
  shows "cb_type s' = cb_type s" "prio s' = prio s" "run s' = run s"
    "is_task s' = is_task s" "is_sem_mbx s' = is_sem_mbx s" "is_head s' = is_head s"
    "events s' = events s" "waits s' = waits s" "interval_time s' = interval_time s"
    "os_time s' = os_time s" "tokens s' = tokens s" "owner s' = owner s" "level s' = level s"
    "msg s' = msg s" "prio_base s' = prio_base s"
    "p_mlnk s' = p_mlnk s" "os_active_TCB s' = os_active_TCB s" "task_id s' = task_id s"
    "mcb_state s' = mcb_state s" "mcb_count s' = mcb_count s" "mcb_first s' = mcb_first s"
    "mcb_last s' = mcb_last s" "mcb_size s' = mcb_size s" "mcb_msg s' = mcb_msg s"
    "box_free s' = box_free s" "os_err s' = os_err s" "tasks_ok s' = tasks_ok s"
  using assms by (auto simp: core_only_def tasks_ok_def is_task_def is_sem_mbx_def is_head_def fun_eq_iff)

definition kinv :: "kernel \<Rightarrow> (ptr \<Rightarrow> ptr list) \<Rightarrow> (ptr \<times> nat) list \<Rightarrow> bool" where
  "kinv s q ds \<longleftrightarrow>
     sched s q ds {run s} \<and> is_task s (run s) \<and> run s \<notin> fst ` set ds \<and>
     state s (run s) = RUNNING \<and> new_tsk s = run s \<and> tasks_ok s \<and>
     (run s = OS_IDLE \<or> OS_IDLE \<in> set (q OS_RDY)) \<and>
     (\<forall>t\<in>set (q OS_RDY). prio s t \<le> prio s (run s))"

lemma kinvI:
  assumes "sched s q ds {run s}" "is_task s (run s)" "run s \<notin> fst ` set ds" "state s (run s) = RUNNING"
    "new_tsk s = run s" "tasks_ok s" "run s = OS_IDLE \<or> OS_IDLE \<in> set (q OS_RDY)"
    "\<And>t. t \<in> set (q OS_RDY) \<Longrightarrow> prio s t \<le> prio s (run s)"
  shows "kinv s q ds"
  using assms by (simp add: kinv_def)

lemma kinvD:
  assumes "kinv s q ds"
  shows "sched s q ds {run s}" "is_task s (run s)" "run s \<notin> fst ` set ds" "state s (run s) = RUNNING"
    "new_tsk s = run s" "tasks_ok s" "run s = OS_IDLE \<or> OS_IDLE \<in> set (q OS_RDY)"
    "\<And>t. t \<in> set (q OS_RDY) \<Longrightarrow> prio s t \<le> prio s (run s)"
    "run s \<noteq> NULL" "run s \<notin> set (q h)"
  using assms schedD(5) by (auto simp: kinv_def is_task_def)

text \<open>The invariant mentions only the members listed here.\<close>

lemma kinv_cong:
  assumes "cb_type s' = cb_type s" "os_active_TCB s' = os_active_TCB s"
    "p_lnk s' = p_lnk s" "p_rlnk s' = p_rlnk s" "p_dlnk s' = p_dlnk s" "p_blnk s' = p_blnk s"
    "delta_time s' = delta_time s" "prio s' = prio s" "state s' = state s" "run s' = run s"
    "new_tsk s' = new_tsk s"
  shows "kinv s' q ds = kinv s q ds"
proof -
  have "is_task s' = is_task s" using assms by (auto simp: is_task_def fun_eq_iff)
  then show ?thesis
    using sched_cong [of s' s "{run s}" q ds] tasks_ok_cong [of s' s] assms by (simp add: kinv_def)
qed

lemma switch_context_same [simp]: "new_tsk s = run s \<Longrightarrow> switch_context s = s"
  by (simp add: switch_context_def)

lemma kinv_switch_same: "kinv s q ds \<Longrightarrow> kinv (switch_context s) q ds"
  by (simp add: kinvD(5))

lemma switch_context_fields [simp]:
  "run (switch_context s) = new_tsk s" "new_tsk (switch_context s) = new_tsk s"
  "prio (switch_context s) = prio s" "state (switch_context s) = state s"
  "is_task (switch_context s) = is_task s" "cb_type (switch_context s) = cb_type s"
  "ret0 (switch_context s) = ret0 s" "ret1 (switch_context s) = ret1 s"
  "tokens (switch_context s) = tokens s" "is_sem_mbx (switch_context s) = is_sem_mbx s"
  "owner (switch_context s) = owner s" "level (switch_context s) = level s"
  "p_mlnk (switch_context s) = p_mlnk s" "prio_base (switch_context s) = prio_base s"
  "tasks_ok (switch_context s) = tasks_ok s" "os_active_TCB (switch_context s) = os_active_TCB s"
  by (auto simp: switch_context_def tasks_ok_def is_task_def is_sem_mbx_def fun_eq_iff)

lemma sched_switch [simp]: "sched (switch_context s) q ds X = sched s q ds X"
  by (rule sched_cong) (simp_all add: switch_context_def)

lemma kinv_switchI:
  assumes "sched s q ds {t}" "is_task s t" "t \<notin> fst ` set ds" "state s t = RUNNING"
    "new_tsk s = t" "tasks_ok s" "t = OS_IDLE \<or> OS_IDLE \<in> set (q OS_RDY)"
    "\<And>t'. t' \<in> set (q OS_RDY) \<Longrightarrow> prio s t' \<le> prio s t"
  shows "kinv (switch_context s) q ds"
  by (rule kinvI) (use assms in auto)

lemma rt_switch_req_sched: "t \<in> X \<Longrightarrow> sched (rt_switch_req t s) q ds X = sched s q ds X"
  by (rule sched_cong) (auto simp: rt_switch_req_def)

lemma rt_switch_req_fields [simp]:
  "new_tsk (rt_switch_req t s) = t" "state (rt_switch_req t s) = (state s)(t := RUNNING)"
  "prio (rt_switch_req t s) = prio s" "is_task (rt_switch_req t s) = is_task s"
  "run (rt_switch_req t s) = run s" "ret0 (rt_switch_req t s) = ret0 s"
  "tasks_ok (rt_switch_req t s) = tasks_ok s"
  by (auto simp: rt_switch_req_def is_task_def tasks_ok_def fun_eq_iff)

text \<open>The first ready task is dispatched.\<close>

lemma dispatch_first:
  assumes S: "sched s q ds {}" and q: "q OS_RDY = t # B" and idle: "tasks_ok s" "OS_IDLE \<in> set (q OS_RDY)"
  obtains s1 where "rt_get_first OS_RDY s = Some (t, s1)" "core_only s (rt_switch_req t s1)"
    "kinv (switch_context (rt_switch_req t s1)) (q(OS_RDY := B)) ds"
    "state (rt_switch_req t s1) = (state s)(t := RUNNING)"
    "ret0 s1 = ret0 s" "ret1 s1 = ret1 s" "run s1 = run s"
proof -
  obtain s1 where p: "rt_get_first OS_RDY s = Some (t, s1)" "links_only s s1"
    "sched s1 (q(OS_RDY := B)) ds {t}"
    using sched_get_first [OF S is_head_RDY q] by auto
  note f = links_only_fields [OF p(2)]
  have t: "is_task s t" "t \<notin> fst ` set ds" using sched_ready_queue [OF S, of t] q by auto
  have "by_prio (prio s) (t # B)" using schedD(4) [OF S, of OS_RDY] q by simp
  then have hp: "\<And>t'. t' \<in> set B \<Longrightarrow> prio s t' \<le> prio s t" by (simp add: by_prio_Cons)
  have "kinv (switch_context (rt_switch_req t s1)) (q(OS_RDY := B)) ds"
    by (rule kinv_switchI) (use p t hp idle q f in \<open>auto simp: rt_switch_req_sched\<close>)
  moreover have "core_only s (rt_switch_req t s1)"
    by (rule core_only_trans [OF links_only_core [OF p(2)]]) simp
  moreover have "ret0 s1 = ret0 s" "ret1 s1 = ret1 s" using p(2) by (auto simp: links_only_def)
  ultimately show thesis using that p f by simp
qed

lemma rt_dispatch_NULL:
  assumes S: "sched s q ds {}" and q: "q OS_RDY = t # B" and idle: "tasks_ok s" "OS_IDLE \<in> set (q OS_RDY)"
  obtains s' where "rt_dispatch NULL s = Some s'" "core_only s s'" "new_tsk s' = t"
    "kinv (switch_context s') (q(OS_RDY := B)) ds" "state s' = (state s)(t := RUNNING)"
    "ret0 s' = ret0 s" "ret1 s' = ret1 s"
proof -
  obtain s1 where "rt_get_first OS_RDY s = Some (t, s1)" "core_only s (rt_switch_req t s1)"
    "kinv (switch_context (rt_switch_req t s1)) (q(OS_RDY := B)) ds"
    "state (rt_switch_req t s1) = (state s)(t := RUNNING)"
    "ret0 s1 = ret0 s" "ret1 s1 = ret1 s"
    using dispatch_first [OF S q idle] .
  then show thesis using that [of "rt_switch_req t s1"]
    by (simp add: rt_dispatch_def rt_switch_req_def)
qed

text \<open>The dispatcher is given a task that has just been woken up.\<close>

definition dispatched :: "kernel \<Rightarrow> ptr \<Rightarrow> (ptr \<Rightarrow> ptr list) \<Rightarrow> ptr \<Rightarrow> ptr list" where
  "dispatched s t q = q(OS_RDY := (if prio s (run s) < prio s t then run s # q OS_RDY
     else ins_prio (prio s) t (q OS_RDY)))"

lemma rt_dispatch_task:
  assumes S: "sched s q ds {run s, t}" and t: "is_task s t" "t \<notin> fst ` set ds" "t \<noteq> run s"
    and r: "is_task s (run s)" "run s \<notin> fst ` set ds" "state s (run s) = RUNNING" "new_tsk s = run s"
    and idle: "tasks_ok s" "OS_IDLE \<in> {run s, t} \<union> set (q OS_RDY)"
    and hp: "\<And>t. t \<in> set (q OS_RDY) \<Longrightarrow> prio s t \<le> prio s (run s)"
  obtains s' where "rt_dispatch t s = Some s'" "core_only s s'"
    "new_tsk s' = (if prio s (run s) < prio s t then t else run s)"
    "kinv (switch_context s') (dispatched s t q) ds"
    "state s' = (if prio s (run s) < prio s t then (state s)(run s := READY, t := RUNNING)
       else (state s)(t := READY))"
    "ret0 s' = ret0 s" "ret1 s' = ret1 s"
proof (cases "prio s (run s) < prio s t")
  case True
  let ?s0 = "set_state (run s) READY s"
  have S0: "sched ?s0 q ds {run s, t}" using S by simp
  have r0: "is_task ?s0 (run s)" using r(1) by (simp add: is_task_def)
  have p: "links_only ?s0 (rt_put_rdy_first (run s) ?s0)"
    "sched (rt_put_rdy_first (run s) ?s0) (q(OS_RDY := run s # q OS_RDY)) ds {t}"
    using sched_put_rdy_first [OF S0 _ r0 r(2)] hp t(3) by (auto simp: insert_Diff_if)
  have eq: "rt_put_rdy_first (run s) ?s0 = set_state (run s) READY (rt_put_rdy_first (run s) s)"
    by (simp add: rt_put_rdy_first_def)
  let ?s' = "rt_switch_req t (rt_put_rdy_first (run s) ?s0)"
  have "run (rt_put_rdy_first (run s) s) = run s" by (simp add: rt_put_rdy_first_def)
  then have d: "rt_dispatch t s = Some ?s'"
    using True t(1) by (simp add: rt_dispatch_def eq is_task_def Let_def)
  note f = links_only_fields [OF p(1)]
  have c: "core_only s ?s'"
    by (rule core_only_trans [OF core_only_steps(1) core_only_trans [OF links_only_core [OF p(1)]]]) simp
  have s0f: "is_task ?s0 = is_task s" "prio ?s0 = prio s" "state ?s0 = (state s)(run s := READY)"
    by (auto simp: is_task_def)
  have "kinv (switch_context ?s') (q(OS_RDY := run s # q OS_RDY)) ds"
  proof (rule kinv_switchI)
    show "\<And>t'. t' \<in> set ((q(OS_RDY := run s # q OS_RDY)) OS_RDY) \<Longrightarrow> prio ?s' t' \<le> prio ?s' t"
      using hp True f s0f by (auto intro: order_trans [OF _ less_imp_le])
  qed (use p(2) t idle f s0f in \<open>auto simp: rt_switch_req_sched\<close>)
  moreover have "ret0 ?s' = ret0 s" "ret1 ?s' = ret1 s"
    by (simp_all add: rt_switch_req_def rt_put_rdy_first_def)
  ultimately show thesis
    using that [OF d c] True t(3) f s0f
    by (simp add: dispatched_def del: fun_upd_apply)
next
  case False
  let ?s0 = "set_state t READY s"
  have S0: "sched ?s0 q ds {run s, t}" using S by simp
  have t0: "is_task ?s0 t" using t(1) by (simp add: is_task_def)
  obtain s' where p: "rt_put_prio OS_RDY t ?s0 = Some s'" "links_only ?s0 s'"
    "sched s' (q(OS_RDY := ins_prio (prio ?s0) t (q OS_RDY))) ds ({run s, t} - {t})"
    using sched_put_prio_rdy [OF S0 _ t0 t(2)] by auto
  note f = links_only_fields [OF p(2)]
  have d: "rt_dispatch t s = Some s'" using False t(1) p(1) by (simp add: rt_dispatch_def is_task_def)
  have c: "core_only s s'" by (rule core_only_trans [OF core_only_steps(1) links_only_core [OF p(2)]])
  have s0f: "is_task ?s0 = is_task s" "prio ?s0 = prio s" "state ?s0 = (state s)(t := READY)"
    by (auto simp: is_task_def)
  have X: "{run s, t} - {t} = {run s}" using t(3) by auto
  have n: "new_tsk s' = run s" using p(2) r(4) by (auto simp: links_only_def)
  have "kinv (switch_context s') (q(OS_RDY := ins_prio (prio s) t (q OS_RDY))) ds"
    by (rule kinv_switchI [of _ _ _ "run s"]) (use p(3) X t r idle f s0f n hp False in auto)
  moreover have "ret0 s' = ret0 s" "ret1 s' = ret1 s" using p(2) by (auto simp: links_only_def)
  ultimately show thesis using that [OF d c] False n f s0f by (simp add: dispatched_def)
qed

text \<open>The running task blocks.\<close>

lemma sched_unfloat:
  assumes S: "sched s q ds X" and t: "t \<in> X" and st: "blocked st" "\<not> waiting st"
  shows "sched (set_state t st s) q ds (X - {t})"
proof -
  let ?s = "set_state t st s"
  note D = schedD [OF S]
  have tk: "is_task ?s = is_task s" by (simp add: is_task_def fun_eq_iff)
  show ?thesis
  proof (rule schedI)
    show "queues ?s q NULL" using D(1) queues_cong [of ?s s] by simp
    show "delays ?s ds" using D(2) delays_cong [of ?s s] by simp
    show "\<And>t k. (t, k) \<in> set ds \<Longrightarrow> 0 < k" by (rule D(3))
    fix t' assume t': "is_task ?s t'" "t' \<notin> X - {t}"
    have "(\<exists>h. h \<noteq> OS_RDY \<and> t \<in> set (q h)) = False" using D(5) [OF t] by simp
    then show "(\<exists>h. h \<noteq> OS_RDY \<and> t' \<in> set (q h)) \<longleftrightarrow> waiting (state ?s t')"
      using D(7) [of t'] t' tk st by (cases "t' = t") auto
    show "t' \<in> set (q OS_RDY) \<longleftrightarrow> state ?s t' = READY"
      using D(5) [OF t, of OS_RDY] D(6) [of t'] t' tk st by (auto simp: blocked_def)
    show "t' \<in> fst ` set ds \<Longrightarrow> blocked (state ?s t')" "state ?s t' \<noteq> RUNNING"
      using D(8,9) [of t'] t' tk st by (auto simp: blocked_def)
  qed (use D in auto)
qed

lemma sched_put_dly_blocked:
  assumes S: "sched (set_state t st s) q ds X" and t: "is_task s t" "t \<notin> fst ` set ds" "0 < delay"
    and st: "blocked st"
  obtains s' where "rt_put_dly t delay s = Some s'" "dly_only s s'"
    "sched (set_state t st s') q (ins_dly t (unat delay) ds) X"
proof -
  note D = schedD [OF S]
  have tk: "is_task (set_state t st u) = is_task u" for u by (simp add: is_task_def fun_eq_iff)
  have del: "delays s ds" using D(2) delays_cong [of "set_state t st s" s] by simp
  obtain s' where p: "rt_put_dly t delay s = Some s'" "dly_only s s'"
    "delays s' (ins_dly t (unat delay) ds)" using rt_put_dly_delays [OF del t] .
  note f = dly_only_fields [OF p(2)]
  have u: "0 < unat delay" using t(3) by (simp add: word_less_nat_alt)
  have "sched (set_state t st s') q (ins_dly t (unat delay) ds) X"
  proof (rule schedI)
    show "queues (set_state t st s') q NULL"
      using D(1) queues_cong [of "set_state t st s'" "set_state t st s"] f by simp
    show "delays (set_state t st s') (ins_dly t (unat delay) ds)"
      using p(3) delays_cong [of "set_state t st s'" s'] by simp
    show "\<And>t' k. (t', k) \<in> set (ins_dly t (unat delay) ds) \<Longrightarrow> 0 < k" using D(3) u by auto
    show "\<And>h. by_prio (prio (set_state t st s')) (q h)" using D(4) f by simp
    fix t' assume t': "is_task (set_state t st s') t'" "t' \<notin> X"
    then have "is_task (set_state t st s) t'" using f by (simp add: tk)
    note D' = D(6-9) [OF this t'(2)]
    have e: "state (set_state t st s') t' = state (set_state t st s) t'" by (simp add: f)
    show "t' \<in> set (q OS_RDY) \<longleftrightarrow> state (set_state t st s') t' = READY"
      "(\<exists>h. h \<noteq> OS_RDY \<and> t' \<in> set (q h)) \<longleftrightarrow> waiting (state (set_state t st s') t')"
      "state (set_state t st s') t' \<noteq> RUNNING" unfolding e by (fact D')+
    show "t' \<in> fst ` set (ins_dly t (unat delay) ds) \<Longrightarrow> blocked (state (set_state t st s') t')"
      using D'(3) st unfolding e by (cases "t' = t") auto
  qed (use D(5) in auto)
  then show thesis using that p by blast
qed

definition blocked_dly :: "ptr \<Rightarrow> U16 \<Rightarrow> (ptr \<times> nat) list \<Rightarrow> (ptr \<times> nat) list" where
  "blocked_dly t timeout ds = (if timeout < 0xFFFF then ins_dly t (unat timeout) ds else ds)"

lemma rt_block_ok:
  assumes S: "sched (set_state (run s) st s) q ds {}" and r: "is_task s (run s)" "run s \<notin> fst ` set ds"
    and st: "blocked st" and to: "timeout \<noteq> 0"
    and idle: "tasks_ok s" "OS_IDLE \<in> set (q OS_RDY)" and q: "q OS_RDY = t # B"
  obtains s' where "rt_block timeout st s = Some s'" "core_only s s'" "new_tsk s' = t"
    "kinv (switch_context s') (q(OS_RDY := B)) (blocked_dly (run s) timeout ds)"
    "state s' = (state s)(run s := st, t := RUNNING)" "ret0 s' = ret0 s" "ret1 s' = ret1 s"
proof -
  have pos: "0 < timeout" using to by (simp add: word_neq_0_conv)
  obtain s1 where s1: "(if timeout < 0xFFFF then rt_put_dly (run s) timeout s else Some s) = Some s1"
    "dly_only s s1" "sched (set_state (run s) st s1) q (blocked_dly (run s) timeout ds) {}"
  proof (cases "timeout < 0xFFFF")
    case True
    then show thesis using that sched_put_dly_blocked [OF S r pos st] by (auto simp: blocked_dly_def)
  next
    case False
    moreover have "dly_only s s" by (rule dly_onlyI) simp
    ultimately show thesis using that S by (auto simp: blocked_dly_def)
  qed
  note f = dly_only_fields [OF s1(2)]
  let ?s1 = "set_state (run s) st s1"
  have idle1: "tasks_ok ?s1" using idle(1) f by (simp add: tasks_ok_def is_task_def)
  obtain s2 where s2: "rt_get_first OS_RDY ?s1 = Some (t, s2)" "core_only ?s1 (rt_switch_req t s2)"
    "kinv (switch_context (rt_switch_req t s2)) (q(OS_RDY := B)) (blocked_dly (run s) timeout ds)"
    "state (rt_switch_req t s2) = (state ?s1)(t := RUNNING)" "ret0 s2 = ret0 ?s1" "ret1 s2 = ret1 ?s1"
    using dispatch_first [OF s1(3) q idle1 idle(2)] .
  have "rt_block timeout st s = Some (rt_switch_req t s2)"
    using to s1(1) s2(1) f by (simp add: rt_block_def)
  moreover have "core_only s (rt_switch_req t s2)"
    by (rule core_only_trans [OF dly_only_core [OF s1(2)] core_only_trans [OF _ s2(2)]]) simp
  moreover have "ret0 s1 = ret0 s" "ret1 s1 = ret1 s" using s1(2) by (auto simp: dly_only_def)
  ultimately show thesis using that s2 f by (simp add: rt_switch_req_def)
qed

text \<open>The running task blocks without waiting for an object (a delay, an event).\<close>

lemma kinv_rdy_nonempty: "kinv s q ds \<Longrightarrow> run s \<noteq> OS_IDLE \<Longrightarrow> \<exists>t B. q OS_RDY = t # B"
  using kinvD(7) by (metis in_set_conv_nth length_0_conv list.exhaust not_less_zero)

lemma rt_block_kinv:
  assumes K: "kinv s q ds" and r: "run s \<noteq> OS_IDLE" and st: "blocked st" "\<not> waiting st"
    and to: "timeout \<noteq> 0"
  obtains s' where "rt_block timeout st s = Some s'" "core_only s s'"
    "kinv (switch_context s') (q(OS_RDY := tl (q OS_RDY))) (blocked_dly (run s) timeout ds)"
    "new_tsk s' = hd (q OS_RDY)" "state s' = (state s)(run s := st, hd (q OS_RDY) := RUNNING)"
    "ret0 s' = ret0 s" "ret1 s' = ret1 s"
proof -
  note k = kinvD [OF K]
  obtain t B where q: "q OS_RDY = t # B" using kinv_rdy_nonempty [OF K r] by blast
  have S: "sched (set_state (run s) st s) q ds {}" using sched_unfloat [OF k(1) _ st] by simp
  have i: "OS_IDLE \<in> set (q OS_RDY)" using k(7) r by simp
  show thesis using rt_block_ok [OF S k(2,3) st(1) to k(6) i q] that by (metis q list.sel(1,3))
qed

text \<open>The running task waits for the object \<open>h\<close>.\<close>

definition put_wait :: "ptr \<Rightarrow> kernel \<Rightarrow> kernel option" where
  "put_wait p_CB s =
     (if p_lnk s p_CB \<noteq> NULL then rt_put_prio p_CB (run s) s
      else Some (set_p_rlnk (run s) p_CB (set_p_lnk (run s) NULL (set_p_lnk p_CB (run s) s))))"

lemma put_wait_eq:
  assumes h: "is_sem_mbx s h" and r: "is_task s (run s)"
  shows "put_wait h s = rt_put_prio h (run s) s"
proof (cases "p_lnk s h = NULL")
  case True
  have "h \<noteq> run s" using h r by (auto simp: is_sem_mbx_def is_task_def cb_types)
  then show ?thesis using True h
    by (simp add: put_wait_def rt_put_prio_def put_prio_search.simps [of s _ h NULL]
        fun_upd_twist [of h "run s"])
qed (simp add: put_wait_def)

lemma put_wait_sched:
  assumes K: "kinv s q ds" and h: "is_sem_mbx s h"
  obtains s1 where "put_wait h s = Some s1" "links_only s s1"
    "\<And>st. waiting st \<Longrightarrow> sched (set_state (run s) st s1) (q(h := ins_prio (prio s) (run s) (q h))) ds {}"
    "h \<noteq> OS_RDY"
proof -
  note k = kinvD [OF K]
  have hr: "h \<noteq> OS_RDY" using sem_head_facts(3) [OF schedD(1) [OF k(1)] h] .
  obtain s1 where "rt_put_prio h (run s) s = Some s1" "links_only s s1"
    "\<And>st. waiting st \<Longrightarrow>
      sched (set_state (run s) st s1) (q(h := ins_prio (prio s) (run s) (q h))) ds ({run s} - {run s})"
    using sched_put_wait [OF k(1) _ k(2) h] by auto
  then show thesis using that put_wait_eq [OF h k(2)] hr by simp
qed

text \<open>A task is woken up: it leaves the list of \<open>h\<close> and the delay list.\<close>

lemma get_waiter:
  assumes S: "sched s q ds X" and h: "is_sem_mbx s h" and q: "q h = t # B"
  obtains s1 where "rt_get_first h s = Some (t, s1)" "links_only s s1"
    "sched s1 (q(h := B)) ds (insert t X)" "is_task s t" "waiting (state s t) \<or> t \<in> X"
    "h \<noteq> OS_RDY"
proof -
  have hr: "h \<noteq> OS_RDY" using sem_head_facts(3) [OF schedD(1) [OF S] h] .
  have t: "is_task s t" using queues_task [OF schedD(1) [OF S], of t h] q by simp
  have "waiting (state s t) \<or> t \<in> X"
    using schedD(7) [OF S t] hr q by (metis list.set_intros(1))
  then show thesis using sched_get_first [OF S _ q] h t hr that by (auto simp: is_head_def)
qed

section \<open>Waking a task up\<close>

text \<open>Between taking a task \<open>t\<close> off a list and dispatching it the services store results and update
  their object: \<open>quiet t s s'\<close> allows any change but one of the scheduler's members.\<close>

definition quiet :: "ptr \<Rightarrow> kernel \<Rightarrow> kernel \<Rightarrow> bool" where
  "quiet t s s' \<longleftrightarrow>
     cb_type s' = cb_type s \<and> os_active_TCB s' = os_active_TCB s \<and> p_lnk s' = p_lnk s \<and>
     p_rlnk s' = p_rlnk s \<and> p_dlnk s' = p_dlnk s \<and> p_blnk s' = p_blnk s \<and>
     delta_time s' = delta_time s \<and> prio s' = prio s \<and> (\<forall>x. x \<noteq> t \<longrightarrow> state s' x = state s x) \<and>
     run s' = run s \<and> new_tsk s' = new_tsk s"

lemma quiet_sched: "quiet t s s' \<Longrightarrow> t \<in> X \<Longrightarrow> sched s' q ds X = sched s q ds X"
  by (rule sched_cong) (auto simp: quiet_def)

lemma quiet_task:
  assumes "quiet t s s'"
  shows "is_task s' = is_task s" "tasks_ok s' = tasks_ok s"
  using assms by (auto simp: quiet_def is_task_def tasks_ok_def fun_eq_iff)

lemma quiet_fields:
  assumes "quiet t s s'"
  shows "run s' = run s" "new_tsk s' = new_tsk s" "prio s' = prio s" "cb_type s' = cb_type s"
    "x \<noteq> t \<Longrightarrow> state s' x = state s x"
  using assms by (auto simp: quiet_def)

lemma get_waiter_rmv_dly:
  assumes S: "sched s q ds X" and h: "is_sem_mbx s h" "q h = t # B" and Q: "\<And>s1. quiet t s1 (f s1)"
  obtains s1 where "rt_get_first h s = Some (t, s1)" "links_only s s1" "dly_only (f s1) (rt_rmv_dly t (f s1))"
    "sched (rt_rmv_dly t (f s1)) (q(h := B)) (rmv_dly t ds) (insert t X)"
    "is_task s t" "h \<noteq> OS_RDY"
proof -
  obtain s1 where p: "rt_get_first h s = Some (t, s1)" "links_only s s1"
    "sched s1 (q(h := B)) ds (insert t X)" "is_task s t" "h \<noteq> OS_RDY"
    using get_waiter [OF S h] .
  have "sched (f s1) (q(h := B)) ds (insert t X)" using p(3) quiet_sched [OF Q] by simp
  moreover have "is_task (f s1) t" using p(4) quiet_task(1) [OF Q] links_only_fields [OF p(2)] by simp
  ultimately have "dly_only (f s1) (rt_rmv_dly t (f s1))"
    "sched (rt_rmv_dly t (f s1)) (q(h := B)) (rmv_dly t ds) (insert t X)"
    using sched_rmv_dly by blast+
  then show thesis using that p by blast
qed

text \<open>A waiter of \<open>h\<close> is woken up and dispatched; \<open>f\<close> and \<open>g\<close> are what the service does to its
  object before and after the task leaves the delay list.\<close>

lemma wake_dispatch:
  assumes K: "kinv s q ds" and h: "is_sem_mbx s h" "q h = t # B"
    and Q: "\<And>s1. quiet t s1 (f s1)" "\<And>s1. quiet t s1 (g s1)"
  obtains s1 s' where "rt_get_first h s = Some (t, s1)" "links_only s s1"
    "dly_only (f s1) (rt_rmv_dly t (f s1))"
    "rt_dispatch t (g (rt_rmv_dly t (f s1))) = Some s'" "core_only (g (rt_rmv_dly t (f s1))) s'"
    "ret0 s' = ret0 (g (rt_rmv_dly t (f s1)))" "ret1 s' = ret1 (g (rt_rmv_dly t (f s1)))"
    "kinv (switch_context s') (dispatched s t (q(h := B))) (rmv_dly t ds)"
    "new_tsk s' = (if prio s (run s) < prio s t then t else run s)" "t \<noteq> run s" "is_task s t"
proof -
  note k = kinvD [OF K]
  obtain s1 where p: "rt_get_first h s = Some (t, s1)" "links_only s s1"
    "dly_only (f s1) (rt_rmv_dly t (f s1))"
    "sched (rt_rmv_dly t (f s1)) (q(h := B)) (rmv_dly t ds) (insert t {run s})" "is_task s t" "h \<noteq> OS_RDY"
    using get_waiter_rmv_dly [OF k(1) h Q(1)] .
  have tr: "t \<noteq> run s" using k(10) [of h] h(2) by auto
  let ?s2 = "g (rt_rmv_dly t (f s1))"
  note fl = links_only_fields [OF p(2)] and fq = quiet_fields [OF Q(1) [of s1]] quiet_task [OF Q(1) [of s1]]
    and fd = dly_only_fields [OF p(3)]
    and fg = quiet_fields [OF Q(2) [of "rt_rmv_dly t (f s1)"]] quiet_task [OF Q(2) [of "rt_rmv_dly t (f s1)"]]
  have "new_tsk s1 = new_tsk s" "new_tsk (rt_rmv_dly t (f s1)) = new_tsk (f s1)"
    using p(2,3) by (auto simp: links_only_def dly_only_def)
  then have n: "new_tsk ?s2 = run s" using k(5) by (simp add: fg fq)
  have S2: "sched ?s2 (q(h := B)) (rmv_dly t ds) {run ?s2, t}"
    using p(4) quiet_sched [OF Q(2)] by (simp add: fl fq(1) fd fg(1) insert_commute)
  obtain s' where s': "rt_dispatch t ?s2 = Some s'" "core_only ?s2 s'"
    "new_tsk s' = (if prio ?s2 (run ?s2) < prio ?s2 t then t else run ?s2)"
    "kinv (switch_context s') (dispatched ?s2 t (q(h := B))) (rmv_dly t ds)"
    "ret0 s' = ret0 ?s2" "ret1 s' = ret1 ?s2"
    by (rule rt_dispatch_task [OF S2]) (use k p tr n in \<open>auto simp: fl fq fd fg\<close>)
  moreover have "prio ?s2 = prio s" "run ?s2 = run s" by (simp_all add: fl fq fd fg)
  then have "dispatched ?s2 t (q(h := B)) = dispatched s t (q(h := B))" by (simp add: dispatched_def)
  ultimately show thesis using that p tr \<open>prio ?s2 = prio s\<close> \<open>run ?s2 = run s\<close> by metis
qed

text \<open>A waiter of \<open>h\<close> is made ready without a dispatch, as \<open>wake_ready\<close> below states; \<open>g\<close> sets its
  state.\<close>

lemma wake_ready:
  assumes S: "sched s q ds X" and h: "is_sem_mbx s h" "q h = t # B" and X: "t \<notin> X"
    and Q: "\<And>s1. quiet t s1 (f s1)" "\<And>s1. quiet t s1 (g s1)"
    and st: "\<And>s1. state (g (rt_rmv_dly t (f s1))) t = READY"
  obtains s1 s' where "rt_get_first h s = Some (t, s1)" "links_only s s1"
    "dly_only (f s1) (rt_rmv_dly t (f s1))"
    "rt_put_prio OS_RDY t (g (rt_rmv_dly t (f s1))) = Some s'" "links_only (g (rt_rmv_dly t (f s1))) s'"
    "sched s' (q(h := B, OS_RDY := ins_prio (prio s) t (q OS_RDY))) (rmv_dly t ds) X"
    "is_task s t" "state s' = (state s)(t := READY)"
proof -
  obtain s1 where p: "rt_get_first h s = Some (t, s1)" "links_only s s1"
    "dly_only (f s1) (rt_rmv_dly t (f s1))"
    "sched (rt_rmv_dly t (f s1)) (q(h := B)) (rmv_dly t ds) (insert t X)" "is_task s t" "h \<noteq> OS_RDY"
    using get_waiter_rmv_dly [OF S h Q(1)] .
  let ?s2 = "g (rt_rmv_dly t (f s1))"
  note fl = links_only_fields [OF p(2)] and fq = quiet_fields [OF Q(1) [of s1]] quiet_task [OF Q(1) [of s1]]
    and fd = dly_only_fields [OF p(3)]
    and fg = quiet_fields [OF Q(2) [of "rt_rmv_dly t (f s1)"]] quiet_task [OF Q(2) [of "rt_rmv_dly t (f s1)"]]
  have S2: "sched ?s2 (q(h := B)) (rmv_dly t ds) (insert t X)"
    using p(4) quiet_sched [OF Q(2)] by simp
  obtain s' where s': "rt_put_prio OS_RDY t ?s2 = Some s'" "links_only ?s2 s'"
    "sched s' ((q(h := B))(OS_RDY := ins_prio (prio ?s2) t ((q(h := B)) OS_RDY))) (rmv_dly t ds) (insert t X - {t})"
    by (rule sched_put_prio_rdy [OF S2]) (use p st in \<open>auto simp: fl fq fd fg\<close>)
  have pr: "prio ?s2 = prio s" by (simp add: fl fq fd fg)
  have "state s' = (state s)(t := READY)"
  proof
    fix x show "state s' x = ((state s)(t := READY)) x"
      using links_only_fields(5) [OF s'(2)] st [of s1] fg(5) [of x] fq(5) [of x] fd(4) fl(5)
      by (cases "x = t") auto
  qed
  moreover have "insert t X - {t} = X" using X by auto
  ultimately show thesis using that [OF p(1-3) s'(1,2) _ p(5)] s'(3) p(6) pr by simp
qed

section \<open>Changing a priority\<close>

lemma sched_prio_float:
  assumes "sched s q ds X" "t \<in> X"
  shows "sched (set_prio t v s) q ds X"
proof -
  note D = schedD [OF assms(1)]
  have tk: "is_task (set_prio t v s) = is_task s" by (simp add: is_task_def fun_eq_iff)
  show ?thesis
  proof (rule schedI)
    show "queues (set_prio t v s) q NULL" using D(1) queues_cong [of "set_prio t v s" s] by simp
    show "delays (set_prio t v s) ds" using D(2) delays_cong [of "set_prio t v s" s] by simp
    show "by_prio (prio (set_prio t v s)) (q h)" for h
    proof -
      have "by_prio (prio (set_prio t v s)) (q h) = by_prio (prio s) (q h)"
        using D(5) [OF assms(2), of h] by (intro by_prio_cong) auto
      then show ?thesis using D(4) by simp
    qed
  qed (use D tk in simp_all)
qed

text \<open>The queues after a task got a new place in the list it is in.\<close>

definition resorted :: "(ptr \<Rightarrow> U8) \<Rightarrow> ptr \<Rightarrow> (ptr \<Rightarrow> ptr list) \<Rightarrow> ptr \<Rightarrow> ptr list" where
  "resorted pr t q = (\<lambda>h. if t \<in> set (q h) then ins_prio pr t (remove1 t (q h)) else q h)"

lemma set_resorted [simp]: "set (resorted pr t q h) = set (q h)"
proof (cases "t \<in> set (q h)")
  case True
  then have "mset (ins_prio pr t (remove1 t (q h))) = mset (q h)" by simp
  from mset_eq_setD [OF this] show ?thesis using True by (simp only: resorted_def if_True)
qed (simp add: resorted_def)

lemma by_prio_upd [simp]: "t \<notin> set xs \<Longrightarrow> by_prio (pr(t := v)) xs = by_prio pr xs"
  by (rule by_prio_cong) auto

lemma by_prio_remove1: "by_prio pr xs \<Longrightarrow> by_prio pr (remove1 t xs)"
  by (induction xs) (auto simp: by_prio_Cons dest: set_mp [OF set_remove1_subset])

lemma sched_resort:
  assumes S: "sched s q ds X" and t: "is_task s t" "t \<notin> X"
  obtains s' where "rt_resort_prio t (set_prio t v s) = Some s'" "links_only (set_prio t v s) s'"
    "sched s' (resorted ((prio s)(t := v)) t q) ds X"
proof -
  note D = schedD [OF S]
  let ?s = "set_prio t v s" and ?q = "resorted ((prio s)(t := v)) t q"
  have tk: "is_task ?s = is_task s" by (simp add: is_task_def fun_eq_iff)
  have Q: "queues ?s q NULL" using D(1) queues_cong [of ?s s] by simp
  obtain s' where p: "rt_resort_prio t ?s = Some s'" "links_only ?s s'" "queues s' ?q NULL"
  proof (cases "\<exists>h. t \<in> set (q h)")
    case True
    then obtain h where h: "t \<in> set (q h)" by blast
    have "h = OS_RDY \<Longrightarrow> state ?s t = READY" using D(6) [OF t] h by simp
    then obtain s' where "rt_resort_prio t ?s = Some s'" "links_only ?s s'"
      "queues s' (q(h := ins_prio (prio ?s) t (remove1 t (q h)))) NULL"
      using rt_resort_prio_queues [OF Q h] by blast
    moreover have "q(h := ins_prio (prio ?s) t (remove1 t (q h))) = ?q"
    proof (rule ext)
      fix h' show "(q(h := ins_prio (prio ?s) t (remove1 t (q h)))) h' = ?q h'"
        using h queues_disjoint [OF D(1) h, of h'] by (cases "h' = h") (auto simp: resorted_def)
    qed
    ultimately show thesis using that by simp
  next
    case False
    have "state ?s t \<noteq> READY" using D(6) [OF t] False by simp
    then have "rt_resort_prio t ?s = Some ?s" using rt_resort_prio_absent [OF Q] t tk False by simp
    moreover have "?q = q" using False by (simp add: resorted_def)
    moreover have "links_only ?s ?s" by (rule links_onlyI) simp
    ultimately show thesis using that Q by simp
  qed
  note f = links_only_fields [OF p(2)]
  have "sched s' ?q ds X"
  proof (rule schedI)
    have "delays ?s ds" using D(2) delays_cong [of ?s s] by simp
    then show "delays s' ds" using delays_links_only [OF p(2)] by simp
    show "by_prio (prio s') (?q h)" for h
    proof (cases "t \<in> set (q h)")
      case True
      have "by_prio (prio s) (remove1 t (q h))" using by_prio_remove1 [OF D(4)] .
      moreover have "t \<notin> set (remove1 t (q h))" using queues_distinct [OF D(1), of h] by simp
      ultimately have "by_prio ((prio s)(t := v)) (remove1 t (q h))" by simp
      then show ?thesis using True by (simp add: f resorted_def by_prio_ins_prio)
    next
      case False
      then have "by_prio ((prio s)(t := v)) (q h)" using D(4) by simp
      then show ?thesis using False by (simp add: f resorted_def)
    qed
  qed (use p(3) D tk f in auto)
  then show thesis using that p by blast
qed

end
