(* ===== verification/Rtx_Sem.thy ===== *)
theory Rtx_Sem
  imports Rtx_Sched
begin

text \<open>
  Semaphores (\<open>rt_Semaphore.c\<close>): a count of tokens and a list of waiting tasks.  Each operation is
  related to the abstract lists: sending a token wakes the first waiter up and dispatches it, or
  stores the token; waiting takes a token or puts the running task into the list and the delay
  list; deleting makes all waiters ready.
\<close>

section \<open>The operations\<close>

definition rt_sem_init :: "ptr \<Rightarrow> U16 \<Rightarrow> kernel \<Rightarrow> kernel" where
  "rt_sem_init p_SCB token_count s =
     set_tokens p_SCB token_count (set_p_lnk p_SCB NULL (set_cb_type p_SCB SCB s))"

text \<open>The loop of \<open>rt_sem_delete\<close> and \<open>rt_mut_delete\<close> that makes every waiter ready with result 0,
  and the preemption test that follows it.\<close>

partial_function (option) flush_waiters :: "ptr \<Rightarrow> kernel \<Rightarrow> kernel option" where
  "flush_waiters p_CB s =
     (if p_lnk s p_CB = NULL then Some s
      else do {
        (p_TCB, s) \<leftarrow> rt_get_first p_CB s;
        let s = rt_ret_val p_TCB 0 s;
        let s = rt_rmv_dly p_TCB s;
        let s = set_state p_TCB READY s;
        s \<leftarrow> rt_put_prio OS_RDY p_TCB s;
        flush_waiters p_CB s
      })"

definition preempt_ready :: "kernel \<Rightarrow> kernel option" where
  "preempt_ready s =
     (if p_lnk s OS_RDY \<noteq> NULL \<and> prio s (run s) < prio s (p_lnk s OS_RDY)
      then do {
        s \<leftarrow> rt_put_prio OS_RDY (run s) s;
        rt_dispatch NULL (set_state (run s) READY s)
      }
      else Some s)"

definition rt_sem_delete :: "ptr \<Rightarrow> kernel \<Rightarrow> (U32 \<times> kernel) option" where
  "rt_sem_delete p_SCB s = do {
     s \<leftarrow> flush_waiters p_SCB s;
     s \<leftarrow> preempt_ready s;
     Some (OS_R_OK, set_cb_type p_SCB 0 s)
   }"

definition rt_sem_send :: "ptr \<Rightarrow> kernel \<Rightarrow> (U32 \<times> kernel) option" where
  "rt_sem_send p_SCB s =
     (if p_lnk s p_SCB \<noteq> NULL
      then do {
        (p_TCB, s) \<leftarrow> rt_get_first p_SCB s;
        let s = rt_ret_val p_TCB 1 s;
        let s = rt_rmv_dly p_TCB s;
        s \<leftarrow> rt_dispatch p_TCB s;
        Some (OS_R_OK, s)
      }
      else Some (OS_R_OK, set_tokens p_SCB (tokens s p_SCB + 1) s))"

definition rt_sem_wait :: "ptr \<Rightarrow> U16 \<Rightarrow> kernel \<Rightarrow> (U32 \<times> kernel) option" where
  "rt_sem_wait p_SCB timeout s =
     (if tokens s p_SCB \<noteq> 0 then Some (OS_R_OK, set_tokens p_SCB (tokens s p_SCB - 1) s)
      else if timeout = 0 then Some (OS_R_TMO, s)
      else do {
        s \<leftarrow> put_wait p_SCB s;
        s \<leftarrow> rt_block timeout WAIT_SEM s;
        Some (OS_R_TMO, s)
      })"

definition isr_sem_send :: "ptr \<Rightarrow> kernel \<Rightarrow> kernel" where
  "isr_sem_send p_SCB s = rt_psh_req (rt_psq_enq p_SCB 0 s)"

definition rt_sem_psh :: "ptr \<Rightarrow> kernel \<Rightarrow> kernel option" where
  "rt_sem_psh p_CB s =
     (if p_lnk s p_CB \<noteq> NULL
      then do {
        (p_TCB, s) \<leftarrow> rt_get_first p_CB s;
        let s = rt_rmv_dly p_TCB s;
        let s = set_state p_TCB READY s;
        let s = rt_ret_val p_TCB 1 s;
        rt_put_prio OS_RDY p_TCB s
      }
      else Some (set_tokens p_CB (tokens s p_CB + 1) s))"

section \<open>What they do to the lists\<close>

lemma p_lnk_head: "queues s q x \<Longrightarrow> is_head s h \<Longrightarrow> p_lnk s h = hd0 (q h)"
  using queues_chain chain_hd by blast

lemma p_lnk_head_NULL: "queues s q x \<Longrightarrow> is_head s h \<Longrightarrow> p_lnk s h = NULL \<longleftrightarrow> q h = []"
  using p_lnk_head [of s q x h] queues_task [of s q x _ h]
  by (auto simp: is_task_def split: list.splits)

lemma kinv_p_lnk_NULL: "kinv s q ds \<Longrightarrow> is_head s h \<Longrightarrow> p_lnk s h = NULL \<longleftrightarrow> q h = []"
  using p_lnk_head_NULL [OF schedD(1) [OF kinvD(1)]] .

lemma quiet_ret_val [simp]: "quiet t s (rt_ret_val t v s)" "quiet t s (rt_ret_val2 t v w s)"
  "quiet t s (set_state t st s)" "quiet t s s"
  by (simp_all add: quiet_def rt_ret_val_def rt_ret_val2_def)

lemma is_sem_SCB: "cb_type s h = SCB \<Longrightarrow> is_sem_mbx s h" by (simp add: is_sem_mbx_def)
lemma is_sem_MCB: "cb_type s h = MCB \<Longrightarrow> is_sem_mbx s h" by (simp add: is_sem_mbx_def)
lemma is_sem_MUCB: "cb_type s h = MUCB \<Longrightarrow> is_sem_mbx s h" by (simp add: is_sem_mbx_def)

lemma rt_sem_send_wake:
  assumes K: "kinv s q ds" and h: "cb_type s h = SCB" "q h = t # B"
  obtains s' where "rt_sem_send h s = Some (OS_R_OK, s')" "core_only s s'"
    "kinv (switch_context s') (dispatched s t (q(h := B))) (rmv_dly t ds)"
    "new_tsk s' = (if prio s (run s) < prio s t then t else run s)"
    "ret0 s' = (ret0 s)(t := 1)"
proof -
  obtain s1 s' where w: "rt_get_first h s = Some (t, s1)" "links_only s s1"
    "dly_only (rt_ret_val t 1 s1) (rt_rmv_dly t (rt_ret_val t 1 s1))"
    "rt_dispatch t (rt_rmv_dly t (rt_ret_val t 1 s1)) = Some s'"
    "core_only (rt_rmv_dly t (rt_ret_val t 1 s1)) s'"
    "ret0 s' = ret0 (rt_rmv_dly t (rt_ret_val t 1 s1))"
    "kinv (switch_context s') (dispatched s t (q(h := B))) (rmv_dly t ds)"
    "new_tsk s' = (if prio s (run s) < prio s t then t else run s)" "t \<noteq> run s"
    by (rule wake_dispatch [OF K is_sem_SCB [OF h(1)] h(2), of "rt_ret_val t 1" id]) auto
  have "rt_sem_send h s = Some (OS_R_OK, s')"
    using kinv_p_lnk_NULL [OF K, of h] h w(1,4) is_sem_SCB [OF h(1)]
    by (simp add: rt_sem_send_def is_head_def)
  moreover have "core_only s s'"
    by (rule core_only_trans [OF links_only_core [OF w(2)]
          core_only_trans [OF _ core_only_trans [OF dly_only_core [OF w(3)] w(5)]]]) simp
  moreover have "ret0 s' = (ret0 s)(t := 1)"
  proof -
    have "ret0 s1 = ret0 s" using w(2) by (auto simp: links_only_def)
    moreover have "ret0 (rt_rmv_dly t (rt_ret_val t 1 s1)) = ret0 (rt_ret_val t 1 s1)"
      using w(3) unfolding dly_only_def by fastforce
    ultimately show ?thesis by (simp add: w(6) rt_ret_val_def)
  qed
  ultimately show thesis using that w by blast
qed

lemma rt_sem_send_store:
  assumes K: "kinv s q ds" and h: "cb_type s h = SCB" "q h = []"
  shows "rt_sem_send h s = Some (OS_R_OK, set_tokens h (tokens s h + 1) s)"
    "kinv (switch_context (set_tokens h (tokens s h + 1) s)) q ds"
proof -
  show "rt_sem_send h s = Some (OS_R_OK, set_tokens h (tokens s h + 1) s)"
    using kinv_p_lnk_NULL [OF K, of h] h is_sem_SCB [OF h(1)]
    by (simp add: rt_sem_send_def is_head_def)
  have "kinv (set_tokens h (tokens s h + 1) s) q ds" using K kinv_cong [of "set_tokens h (tokens s h + 1) s" s] by simp
  then show "kinv (switch_context (set_tokens h (tokens s h + 1) s)) q ds" by (rule kinv_switch_same)
qed

lemma rt_sem_wait_block:
  assumes K: "kinv s q ds" and h: "cb_type s h = SCB" "tokens s h = 0" and r: "run s \<noteq> OS_IDLE"
    and to: "timeout \<noteq> 0"
  obtains s' where "rt_sem_wait h timeout s = Some (OS_R_TMO, s')" "core_only s s'"
    "kinv (switch_context s') (q(h := ins_prio (prio s) (run s) (q h), OS_RDY := tl (q OS_RDY)))
       (blocked_dly (run s) timeout ds)"
    "new_tsk s' = hd (q OS_RDY)" "state s' = (state s)(run s := WAIT_SEM, hd (q OS_RDY) := RUNNING)"
proof -
  note k = kinvD [OF K]
  obtain s1 where p: "put_wait h s = Some s1" "links_only s s1"
    "\<And>st. waiting st \<Longrightarrow> sched (set_state (run s) st s1) (q(h := ins_prio (prio s) (run s) (q h))) ds {}"
    "h \<noteq> OS_RDY" using put_wait_sched [OF K is_sem_SCB [OF h(1)]] by metis
  note f = links_only_fields [OF p(2)]
  obtain t B where q: "q OS_RDY = t # B" using kinv_rdy_nonempty [OF K r] by blast
  have S: "sched (set_state (run s1) WAIT_SEM s1) (q(h := ins_prio (prio s) (run s) (q h))) ds {}"
    using p(3) by (simp add: f waiting_def)
  obtain s' where b: "rt_block timeout WAIT_SEM s1 = Some s'" "core_only s1 s'" "new_tsk s' = t"
    "kinv (switch_context s') ((q(h := ins_prio (prio s) (run s) (q h)))(OS_RDY := B))
       (blocked_dly (run s1) timeout ds)"
    "state s' = (state s1)(run s1 := WAIT_SEM, t := RUNNING)"
    by (rule rt_block_ok [OF S _ _ _ to, of t B])
      (use k r q p(4) in \<open>auto simp: f blocked_def\<close>)
  have "rt_sem_wait h timeout s = Some (OS_R_TMO, s')"
    using h to p(1) b(1) by (simp add: rt_sem_wait_def)
  moreover have "core_only s s'" by (rule core_only_trans [OF links_only_core [OF p(2)] b(2)])
  ultimately show thesis using that b f q by simp
qed


lemma rt_sem_psh_wake:
  assumes S: "sched s q ds X" and h: "cb_type s h = SCB" "q h = t # B" and X: "t \<notin> X"
  obtains s' where "rt_sem_psh h s = Some s'" "core_only s s'"
    "sched s' (q(h := B, OS_RDY := ins_prio (prio s) t (q OS_RDY))) (rmv_dly t ds) X"
    "state s' = (state s)(t := READY)" "ret0 s' = (ret0 s)(t := 1)" "new_tsk s' = new_tsk s"
proof -
  let ?g = "\<lambda>s. rt_ret_val t 1 (set_state t READY s)"
  have quiet_g: "quiet t s1 (?g s1)" for s1 by (simp add: quiet_def rt_ret_val_def)
  obtain s1 s' where w: "rt_get_first h s = Some (t, s1)" "links_only s s1"
    "dly_only s1 (rt_rmv_dly t s1)"
    "rt_put_prio OS_RDY t (?g (rt_rmv_dly t s1)) = Some s'" "links_only (?g (rt_rmv_dly t s1)) s'"
    "sched s' (q(h := B, OS_RDY := ins_prio (prio s) t (q OS_RDY))) (rmv_dly t ds) X"
    "state s' = (state s)(t := READY)"
    by (rule wake_ready [OF S is_sem_SCB [OF h(1)] h(2) X, of "\<lambda>s. s" ?g])
      (use quiet_g in \<open>auto simp: rt_ret_val_def\<close>)
  have "rt_sem_psh h s = Some s'"
    using p_lnk_head_NULL [OF schedD(1) [OF S], of h] h w(1,4) is_sem_SCB [OF h(1)]
    by (simp add: rt_sem_psh_def is_head_def)
  moreover have "core_only s s'"
    by (rule core_only_trans [OF links_only_core [OF w(2)]
          core_only_trans [OF dly_only_core [OF w(3)] core_only_trans [OF _ links_only_core [OF w(5)]]]])
      (rule core_only_trans [OF core_only_steps(1) core_only_steps(2)])
  moreover have "ret0 s' = (ret0 s)(t := 1)" "new_tsk s' = new_tsk s"
    using w(2,3,5) by (auto simp: links_only_def dly_only_def rt_ret_val_def)
  ultimately show thesis using that w by blast
qed

lemma rt_sem_psh_store:
  assumes "sched s q ds X" "cb_type s h = SCB" "q h = []"
  shows "rt_sem_psh h s = Some (set_tokens h (tokens s h + 1) s)"
  using p_lnk_head_NULL [OF schedD(1) [OF assms(1)], of h] assms is_sem_SCB [OF assms(2)]
  by (simp add: rt_sem_psh_def is_head_def)

text \<open>All waiters become ready, in order.\<close>

definition flushed :: "kernel \<Rightarrow> ptr \<Rightarrow> (ptr \<Rightarrow> ptr list) \<Rightarrow> ptr \<Rightarrow> ptr list" where
  "flushed s h q = q(h := [], OS_RDY := fold (ins_prio (prio s)) (q h) (q OS_RDY))"

definition rmv_dlys :: "ptr list \<Rightarrow> (ptr \<times> nat) list \<Rightarrow> (ptr \<times> nat) list" where
  "rmv_dlys ts ds = fold rmv_dly ts ds"

lemma set_fold_ins_prio [simp]: "set (fold (ins_prio pr) ts xs) = set ts \<union> set xs"
  by (induction ts arbitrary: xs) auto

lemma fst_rmv_dlys [simp]: "fst ` set (rmv_dlys ts ds) = fst ` set ds - set ts"
  by (induction ts arbitrary: ds) (auto simp: rmv_dlys_def)

lemma flush_waiters_ok:
  assumes "sched s q ds X" "is_sem_mbx s h" "\<And>t. t \<in> set (q h) \<Longrightarrow> t \<notin> X"
  shows "\<exists>s'. flush_waiters h s = Some s' \<and> core_only s s' \<and> new_tsk s' = new_tsk s \<and>
    sched s' (flushed s h q) (rmv_dlys (q h) ds) X \<and>
    state s' = (\<lambda>t. if t \<in> set (q h) then READY else state s t) \<and>
    ret0 s' = (\<lambda>t. if t \<in> set (q h) then 0 else ret0 s t)"
  using assms
proof (induction "q h" arbitrary: s q ds)
  case Nil
  have "p_lnk s h = NULL"
    using p_lnk_head_NULL [OF schedD(1) [OF Nil.prems(1)], of h] Nil by (simp add: is_head_def)
  moreover have "flushed s h q = q" using Nil by (auto simp: flushed_def)
  ultimately show ?case using Nil by (simp add: flush_waiters.simps rmv_dlys_def flip: Nil.hyps)
next
  case (Cons t B)
  have hr: "h \<noteq> OS_RDY" using sem_head_facts(3) [OF schedD(1) [OF Cons.prems(1)] Cons.prems(2)] .
  have tB: "t \<notin> set B" using queues_distinct [OF schedD(1) [OF Cons.prems(1)], of h] Cons.hyps(2) 
    by (metis distinct.simps(2))
  have X: "t \<notin> X" using Cons.prems(3) Cons.hyps(2) by (metis list.set_intros(1))
  let ?f = "rt_ret_val t 0" and ?g = "set_state t READY"
  obtain s1 s2 where w: "rt_get_first h s = Some (t, s1)" "links_only s s1"
    "dly_only (?f s1) (rt_rmv_dly t (?f s1))"
    "rt_put_prio OS_RDY t (?g (rt_rmv_dly t (?f s1))) = Some s2" "links_only (?g (rt_rmv_dly t (?f s1))) s2"
    "sched s2 (q(h := B, OS_RDY := ins_prio (prio s) t (q OS_RDY))) (rmv_dly t ds) X"
    "state s2 = (state s)(t := READY)"
    by (rule wake_ready [OF Cons.prems(1,2) Cons.hyps(2) [symmetric] X, of ?f ?g]) auto
  have c: "core_only s s2"
    by (rule core_only_trans [OF links_only_core [OF w(2)] core_only_trans [OF core_only_steps(2)
          core_only_trans [OF dly_only_core [OF w(3)] core_only_trans [OF core_only_steps(1) links_only_core [OF w(5)]]]]])
  note f = core_only_fields [OF c]
  have r: "ret0 s2 = (ret0 s)(t := 0)" "new_tsk s2 = new_tsk s"
  proof -
    have "ret0 s1 = ret0 s" "new_tsk s1 = new_tsk s" using w(2) by (auto simp: links_only_def)
    moreover have "ret0 (rt_rmv_dly t (?f s1)) = ret0 (?f s1)" "new_tsk (rt_rmv_dly t (?f s1)) = new_tsk (?f s1)"
      using w(3) unfolding dly_only_def by fastforce+
    moreover have "ret0 s2 = ret0 (?g (rt_rmv_dly t (?f s1)))" "new_tsk s2 = new_tsk (?g (rt_rmv_dly t (?f s1)))"
      using w(5) unfolding links_only_def by fastforce+
    ultimately show "ret0 s2 = (ret0 s)(t := 0)" "new_tsk s2 = new_tsk s" by (simp_all add: rt_ret_val_def)
  qed
  let ?q = "q(h := B, OS_RDY := ins_prio (prio s) t (q OS_RDY))"
  have qh: "?q h = B" using hr by simp
  have prem: "is_sem_mbx s2 h" "\<And>x. x \<in> set (?q h) \<Longrightarrow> x \<notin> X"
    using Cons.prems(2,3) f qh by (simp_all flip: Cons.hyps(2))
  obtain s3 where s3: "flush_waiters h s2 = Some s3" "core_only s2 s3" "new_tsk s3 = new_tsk s2"
    "sched s3 (flushed s2 h ?q) (rmv_dlys B (rmv_dly t ds)) X"
    "state s3 = (\<lambda>x. if x \<in> set B then READY else state s2 x)"
    "ret0 s3 = (\<lambda>x. if x \<in> set B then 0 else ret0 s2 x)"
    using Cons.hyps(1) [OF qh [symmetric] w(6) prem] unfolding qh by blast
  have "p_lnk s h \<noteq> NULL"
    using p_lnk_head_NULL [OF schedD(1) [OF Cons.prems(1)], of h] Cons.prems(2) Cons.hyps(2)
    by (auto simp: is_head_def)
  then have "flush_waiters h s = Some s3"
    using w(1,4) s3(1) by (simp add: flush_waiters.simps [of h s])
  moreover have "flushed s2 h ?q = flushed s h q"
    using hr by (simp add: flushed_def f(2) fun_eq_iff flip: Cons.hyps(2))
  moreover have "rmv_dlys B (rmv_dly t ds) = rmv_dlys (q h) ds"
    by (simp add: rmv_dlys_def flip: Cons.hyps(2))
  moreover have "state s3 = (\<lambda>x. if x \<in> set (q h) then READY else state s x)"
    "ret0 s3 = (\<lambda>x. if x \<in> set (q h) then 0 else ret0 s x)"
    using s3(5,6) w(7) r(1) by (auto simp: fun_eq_iff simp flip: Cons.hyps(2))
  moreover have "core_only s s3" by (rule core_only_trans [OF c s3(2)])
  ultimately show ?case using s3(3,4) r(2) by auto
qed

text \<open>The preemption test restores the invariant when ready tasks may have a higher priority.\<close>

definition preempted :: "kernel \<Rightarrow> (ptr \<Rightarrow> ptr list) \<Rightarrow> ptr \<Rightarrow> ptr list" where
  "preempted s q = (case q OS_RDY of [] \<Rightarrow> q
     | t # B \<Rightarrow> if prio s (run s) < prio s t then q(OS_RDY := ins_prio (prio s) (run s) B) else q)"

lemma preempt_put:
  assumes S: "sched s q ds {run s}" and r: "is_task s (run s)" "run s \<notin> fst ` set ds"
    and idle: "tasks_ok s" "run s = OS_IDLE \<or> OS_IDLE \<in> set (q OS_RDY)"
    and q: "q OS_RDY = t # B" "prio s (run s) < prio s t"
  obtains s1 s' where "rt_put_prio OS_RDY (run s) s = Some s1"
    "rt_dispatch NULL (set_state (run s) READY s1) = Some s'"
    "core_only s s'" "new_tsk s' = t" "run s1 = run s" "links_only s s1"
    "kinv (switch_context s') (q(OS_RDY := ins_prio (prio s) (run s) B)) ds"
    "state s' = (state s)(run s := READY, t := RUNNING)" "ret0 s' = ret0 s" "ret1 s' = ret1 s"
proof -
  obtain s1 where p: "rt_put_prio OS_RDY (run s) s = Some s1" "links_only s s1"
    "sched (set_state (run s) READY s1) (q(OS_RDY := ins_prio (prio s) (run s) (q OS_RDY))) ds {}"
    using sched_put_rdy [OF S _ r] by auto
  note f = links_only_fields [OF p(2)]
  let ?s1 = "set_state (run s) READY s1"
  have ins: "ins_prio (prio s) (run s) (q OS_RDY) = t # ins_prio (prio s) (run s) B"
    using q by (simp add: ins_prio_def less_imp_le)
  have idle1: "tasks_ok ?s1" "OS_IDLE \<in> set ((q(OS_RDY := ins_prio (prio s) (run s) (q OS_RDY))) OS_RDY)"
    using idle f by auto
  have hdq: "(q(OS_RDY := ins_prio (prio s) (run s) (q OS_RDY))) OS_RDY = t # ins_prio (prio s) (run s) B"
    by (simp add: ins)
  obtain s' where s': "rt_dispatch NULL ?s1 = Some s'" "core_only ?s1 s'" "new_tsk s' = t"
    "kinv (switch_context s') ((q(OS_RDY := ins_prio (prio s) (run s) (q OS_RDY)))
        (OS_RDY := ins_prio (prio s) (run s) B)) ds"
    "state s' = (state ?s1)(t := RUNNING)" "ret0 s' = ret0 ?s1" "ret1 s' = ret1 ?s1"
    using rt_dispatch_NULL [OF p(3) hdq idle1] .
  note K = s'(4) [unfolded fun_upd_upd]
  have "core_only s s'"
    by (rule core_only_trans [OF links_only_core [OF p(2)] core_only_trans [OF _ s'(2)]]) simp
  moreover have "ret0 s1 = ret0 s" "ret1 s1 = ret1 s" using p(2) by (auto simp: links_only_def)
  ultimately show thesis using that [OF p(1) s'(1) _ s'(3) _ p(2) K] s'(5-7) f by simp
qed

lemma preempt_ready_ok:
  assumes S: "sched s q ds {run s}" and r: "is_task s (run s)" "run s \<notin> fst ` set ds"
      "state s (run s) = RUNNING" "new_tsk s = run s"
    and idle: "tasks_ok s" "run s = OS_IDLE \<or> OS_IDLE \<in> set (q OS_RDY)"
  obtains s' where "preempt_ready s = Some s'" "core_only s s'"
    "kinv (switch_context s') (preempted s q) ds" "ret0 s' = ret0 s" "ret1 s' = ret1 s"
proof -
  note D = schedD [OF S]
  have hd: "p_lnk s OS_RDY = hd0 (q OS_RDY)" using p_lnk_head [OF D(1) is_head_RDY] .
  show thesis
  proof (cases "\<exists>t B. q OS_RDY = t # B \<and> prio s (run s) < prio s t")
    case True
    then obtain t B where q: "q OS_RDY = t # B" "prio s (run s) < prio s t" by blast
    have "t \<noteq> NULL" using queues_task [OF D(1), of t OS_RDY] q by (simp add: is_task_def)
    obtain s1 s' where p: "rt_put_prio OS_RDY (run s) s = Some s1"
      "rt_dispatch NULL (set_state (run s) READY s1) = Some s'" "core_only s s'" "run s1 = run s"
      "kinv (switch_context s') (q(OS_RDY := ins_prio (prio s) (run s) B)) ds"
      "ret0 s' = ret0 s" "ret1 s' = ret1 s"
      using preempt_put [OF S r(1,2) idle q] by metis
    have "preempt_ready s = Some s'"
      using \<open>t \<noteq> NULL\<close> q(2) p(1,2,4) by (simp add: preempt_ready_def hd q(1))
    moreover have "preempted s q = q(OS_RDY := ins_prio (prio s) (run s) B)"
      using q by (simp add: preempted_def)
    ultimately show thesis using that p by simp
  next
    case False
    have hp: "prio s t \<le> prio s (run s)" if "t \<in> set (q OS_RDY)" for t
      using D(4) [of OS_RDY] that False by (cases "q OS_RDY") (auto simp: by_prio_Cons)
    have "kinv (switch_context s) q ds"
      by (rule kinv_switchI [of _ _ _ "run s"]) (use S r idle hp in auto)
    moreover have "preempt_ready s = Some s" using False hd by (auto simp: preempt_ready_def split: list.splits)
    moreover have "preempted s q = q" using False by (auto simp: preempted_def split: list.splits)
    ultimately show thesis using that by simp
  qed
qed


section \<open>Creating and deleting a synchronisation object\<close>

text \<open>An address that is not a control block of a task or of the kernel.\<close>

definition free_addr :: "kernel \<Rightarrow> ptr \<Rightarrow> bool" where
  "free_addr s h \<longleftrightarrow> h \<notin> {NULL, OS_RDY, OS_DLY, OS_IDLE} \<and> h \<notin> set (os_active_TCB s)"

lemma sched_set_cb:
  assumes S: "sched s q ds X" and h: "free_addr s h" "q h = []"
    and s': "cb_type s' = (cb_type s)(h := c)" "p_lnk s' = (p_lnk s)(h := v)"
      "c = SCB \<or> c = MCB \<or> c = MUCB \<Longrightarrow> v = NULL" "os_active_TCB s' = os_active_TCB s"
      "p_rlnk s' = p_rlnk s" "p_dlnk s' = p_dlnk s" "p_blnk s' = p_blnk s"
      "delta_time s' = delta_time s" "prio s' = prio s" "state s' = state s"
  shows "sched s' q ds X" "is_task s' = is_task s"
proof -
  note D = schedD [OF S]
  show tk: "is_task s' = is_task s" using h(1) s' by (auto simp: is_task_def free_addr_def fun_eq_iff)
  have hn: "h \<noteq> OS_RDY" "h \<noteq> OS_DLY" "h \<noteq> NULL" using h(1) by (auto simp: free_addr_def)
  have sem: "is_sem_mbx s' h' \<longleftrightarrow> is_sem_mbx s h'" if "h' \<noteq> h" for h'
    using that s' by (simp add: is_sem_mbx_def)
  have hdd: "is_head s' h' \<longleftrightarrow> is_head s h'" if "h' \<noteq> h" for h'
    using that sem by (simp add: is_head_def)
  have nt: "\<And>h' t. t \<in> set (q h') \<Longrightarrow> t \<noteq> h"
    using queues_task [OF D(1)] h(1) by (auto simp: is_task_def free_addr_def)
  have ch: "chain (p_lnk s') (p_lnk s' h') (q h') NULL" if "is_head s' h'" for h'
  proof (cases "h' = h")
    case True
    then have "v = NULL" using that s'(1,3) hn by (auto simp: is_head_def is_sem_mbx_def)
    then show ?thesis using True h(2) s'(2) by simp
  next
    case False
    then have "chain (p_lnk s) (p_lnk s h') (q h') NULL" using queues_chain [OF D(1)] that hdd by simp
    moreover have "h \<notin> set (q h')" using nt by blast
    ultimately show ?thesis using s'(2) False by simp
  qed
  have "queues s' q NULL" unfolding queues_def tk
  proof (intro conjI allI impI ballI)
    show "cb_type s' OS_RDY = HCB" "cb_type s' OS_DLY = HCB" "cb_type s' NULL = TCB"
      using D(1) s'(1) hn by (auto simp: queues_def)
    show "\<And>h'. is_head s' h' \<Longrightarrow> chain (p_lnk s') (p_lnk s' h') (q h') NULL" by (rule ch)
    show "\<And>h'. \<not> is_head s' h' \<Longrightarrow> q h' = []"
      using D(1) hdd h(2) unfolding queues_def by metis
    show "\<And>h'. is_sem_mbx s' h' \<Longrightarrow> rchain (p_rlnk s') h' (q h')"
      using queues_rchain [OF D(1)] sem h(2) s'(5) by (metis rchain.simps(1))
    show "\<And>t. is_task s t \<Longrightarrow> t \<noteq> NULL \<Longrightarrow> \<forall>h'. is_sem_mbx s' h' \<longrightarrow> t \<notin> set (q h') \<Longrightarrow> p_rlnk s' t = NULL"
      using queues_rlnk_NULL [OF D(1)] sem h(2) s'(5) by (metis empty_iff list.set(1))
    show "\<And>h'. distinct (q h')" by (rule queues_distinct [OF D(1)])
    show "\<And>h1 h2. h1 \<noteq> h2 \<Longrightarrow> set (q h1) \<inter> set (q h2) = {}" using queues_disjoint [OF D(1)] by blast
    show "\<And>h' t. t \<in> set (q h') \<Longrightarrow> is_task s t" by (rule queues_task [OF D(1)])
  qed
  moreover have "delays s' ds" using D(2) s' tk hn unfolding delays_def by simp
  ultimately show "sched s' q ds X"
    using S s' unfolding sched_def tk by simp
qed

lemma kinv_set_cb:
  assumes K: "kinv s q ds" and h: "free_addr s h" "q h = []"
    and s': "cb_type s' = (cb_type s)(h := c)" "p_lnk s' = (p_lnk s)(h := v)"
      "c = SCB \<or> c = MCB \<or> c = MUCB \<Longrightarrow> v = NULL" "os_active_TCB s' = os_active_TCB s"
      "p_rlnk s' = p_rlnk s" "p_dlnk s' = p_dlnk s" "p_blnk s' = p_blnk s"
      "delta_time s' = delta_time s" "prio s' = prio s" "state s' = state s"
      "run s' = run s" "new_tsk s' = new_tsk s"
  shows "kinv s' q ds"
proof -
  note sc = sched_set_cb [OF kinvD(1) [OF K] h s'(1-10)]
  then show ?thesis using K s' tasks_ok_cong [OF sc(2) s'(4)] by (simp add: kinv_def)
qed

lemma sem_addr:
  assumes "kinv s q ds" "is_sem_mbx s h"
  shows "free_addr s h"
proof -
  note k = kinvD [OF assms(1)]
  have "\<not> is_task s h" using assms(2) by (auto simp: is_task_def is_sem_mbx_def cb_types)
  moreover have "h \<noteq> NULL" "h \<noteq> OS_RDY" using sem_head_facts [OF schedD(1) [OF k(1)] assms(2)] by auto
  moreover have "h \<noteq> OS_DLY" using schedD(1) [OF k(1)] assms(2)
    by (auto simp: queues_def is_sem_mbx_def cb_types)
  ultimately show ?thesis using k(6) by (auto simp: free_addr_def tasks_ok_def)
qed

lemma rt_sem_init_ok:
  assumes K: "kinv s q ds" and h: "free_addr s h" "q h = []"
  shows "kinv (rt_sem_init h n s) q ds" "cb_type (rt_sem_init h n s) h = SCB"
    "tokens (rt_sem_init h n s) = (tokens s)(h := n)"
  by (rule kinv_set_cb [OF K h, of _ SCB NULL]; simp add: rt_sem_init_def)
    (simp_all add: rt_sem_init_def)

lemma tasks_ok_set_cb: "free_addr s h \<Longrightarrow> tasks_ok (set_cb_type h c s) = tasks_ok s"
  by (auto simp: tasks_ok_def is_task_def free_addr_def)

text \<open>The end of the two deletions.\<close>

lemma delete_waiters:
  assumes K: "kinv s q ds" and h: "is_sem_mbx s h"
    and s0: "sched s0 q0 ds {run s0}" "run s0 = run s" "state s0 (run s) = RUNNING" "new_tsk s0 = run s"
      "is_sem_mbx s0 = is_sem_mbx s" "is_task s0 = is_task s" "tasks_ok s0" "free_addr s0 h"
      "OS_IDLE = run s \<or> OS_IDLE \<in> set (q0 OS_RDY)"
  obtains s1 s2 q' ds' where "flush_waiters h s0 = Some s1" "preempt_ready s1 = Some s2" "core_only s0 s2"
    "kinv (switch_context (set_cb_type h 0 s2)) q' ds'" "ds' = rmv_dlys (q0 h) ds"
    "q' = preempted s0 (flushed s0 h q0)"
    "ret0 s2 = (\<lambda>t. if t \<in> set (q0 h) then 0 else ret0 s0 t)"
proof -
  note k = kinvD [OF K]
  have hq: "run s0 \<notin> set (q0 h)" using schedD(5) [OF s0(1)] by simp
  have h0: "is_sem_mbx s0 h" using h s0(5) by simp
  have hq': "\<And>t. t \<in> set (q0 h) \<Longrightarrow> t \<notin> {run s0}" using hq by auto
  obtain s1 where f: "flush_waiters h s0 = Some s1" "core_only s0 s1" "new_tsk s1 = new_tsk s0"
    "sched s1 (flushed s0 h q0) (rmv_dlys (q0 h) ds) {run s0}"
    "state s1 = (\<lambda>t. if t \<in> set (q0 h) then READY else state s0 t)"
    "ret0 s1 = (\<lambda>t. if t \<in> set (q0 h) then 0 else ret0 s0 t)"
    using flush_waiters_ok [OF s0(1) h0 hq'] by blast
  note c = core_only_fields [OF f(2)]
  have hr: "h \<noteq> OS_RDY" using s0(8) by (simp add: free_addr_def)
  have S1: "sched s1 (flushed s0 h q0) (rmv_dlys (q0 h) ds) {run s1}" using f(4) c by simp
  obtain s2 where p: "preempt_ready s1 = Some s2" "core_only s1 s2"
    "kinv (switch_context s2) (preempted s1 (flushed s0 h q0)) (rmv_dlys (q0 h) ds)"
    "ret0 s2 = ret0 s1"
  proof (rule preempt_ready_ok [OF S1])
    show "is_task s1 (run s1)" "run s1 \<notin> fst ` set (rmv_dlys (q0 h) ds)"
      using k(2,3) s0(2,6) c by simp_all
    show "state s1 (run s1) = RUNNING" using f(5) hq s0(2,3) c by simp
    show "new_tsk s1 = run s1" "tasks_ok s1" using f(3) s0(2,4,7) c by simp_all
    show "run s1 = OS_IDLE \<or> OS_IDLE \<in> set (flushed s0 h q0 OS_RDY)"
      using s0(2,9) c hr by (auto simp: flushed_def)
  qed
  have pe: "preempted s1 (flushed s0 h q0) = preempted s0 (flushed s0 h q0)"
    unfolding preempted_def c ..
  have c2: "core_only s0 s2" by (rule core_only_trans [OF f(2) p(2)])
  have "kinv (set_cb_type h 0 (switch_context s2)) (preempted s0 (flushed s0 h q0)) (rmv_dlys (q0 h) ds)"
  proof (rule kinv_set_cb [OF p(3) [unfolded pe], where h = h and c = 0 and v = "p_lnk s2 h"])
    show "free_addr (switch_context s2) h"
      using s0(8) core_only_fields [OF c2] by (simp add: free_addr_def)
    show "preempted s0 (flushed s0 h q0) h = []"
      using hr by (simp add: preempted_def flushed_def split: list.split)
  qed (simp_all add: cb_types switch_context_def)
  moreover have "set_cb_type h 0 (switch_context s2) = switch_context (set_cb_type h 0 s2)"
    by (simp add: switch_context_def)
  ultimately show thesis using that f p c2 by simp
qed

lemma rt_sem_delete_ok:
  assumes K: "kinv s q ds" and h: "cb_type s h = SCB"
  obtains s' where "rt_sem_delete h s = Some (OS_R_OK, s')"
    "kinv (switch_context s') (preempted s (flushed s h q)) (rmv_dlys (q h) ds)"
    "cb_type s' = (cb_type s)(h := 0)"
    "ret0 s' = (\<lambda>t. if t \<in> set (q h) then 0 else ret0 s t)" "tokens s' = tokens s"
proof -
  note k = kinvD [OF K] and sem = is_sem_SCB [OF h]
  have i: "OS_IDLE = run s \<or> OS_IDLE \<in> set (q OS_RDY)" using k(7) by auto
  obtain s1 s2 where d: "flush_waiters h s = Some s1" "preempt_ready s1 = Some s2" "core_only s s2"
    "kinv (switch_context (set_cb_type h 0 s2)) (preempted s (flushed s h q)) (rmv_dlys (q h) ds)"
    "ret0 s2 = (\<lambda>t. if t \<in> set (q h) then 0 else ret0 s t)"
    using delete_waiters [OF K sem k(1) refl k(4,5) refl refl k(6) sem_addr [OF K sem] i] by blast
  then show thesis using that [of "set_cb_type h 0 s2"] core_only_fields [OF d(3)]
    by (simp add: rt_sem_delete_def)
qed

end
