(* ===== verification/Fifo.thy ===== *)
theory Fifo
  imports Prelude
begin

text \<open>
  Ring buffers, and the interface of a first-in first-out buffer: \<open>put\<close> adds at the end, \<open>get\<close>
  takes from the front, and what is put in comes out in the same order.  The mailboxes and the
  post-service queue of the kernel provide it.
\<close>

section \<open>Ring buffers\<close>

definition ring :: "(nat \<Rightarrow> 'v) \<Rightarrow> nat \<Rightarrow> nat \<Rightarrow> nat \<Rightarrow> 'v list" where
  "ring b l c n = map (\<lambda>i. b ((l + i) mod n)) [0..<c]"

lemma length_ring [simp]: "length (ring b l c n) = c"
  by (simp add: ring_def)

lemma ring_0 [simp]: "ring b l 0 n = []"
  by (simp add: ring_def)

lemma mod_add_less_inj:
  assumes "i < j" "j < (n :: nat)"
  shows "(l + i) mod n \<noteq> (l + j) mod n"
proof
  assume "(l + i) mod n = (l + j) mod n"
  then have "(l + j) mod n = (l + i) mod n" by simp
  then have "n dvd (l + j) - (l + i)" using assms by (subst mod_eq_dvd_iff_nat [symmetric]) auto
  then show False using assms by (auto dest: dvd_imp_le)
qed

lemma ring_store:
  assumes "c < n"
  shows "ring (b((l + c) mod n := v)) l (Suc c) n = ring b l c n @ [v]"
  using assms mod_add_less_inj [of _ c n l] by (auto simp: ring_def)

lemma ring_fetch: "ring b l (Suc c) n = b (l mod n) # ring b (Suc l mod n) c n"
proof -
  have "map (\<lambda>i. b ((l + i) mod n)) (0 # map Suc [0..<c]) = b (l mod n) # ring b (Suc l mod n) c n"
    by (simp add: ring_def mod_simps)
  moreover have "0 # map Suc [0..<c] = [0..<Suc c]" by (simp only: map_Suc_upt upt_conv_Cons zero_less_Suc)
  ultimately show ?thesis unfolding ring_def by simp
qed

lemma ring_cong: "(\<And>i. i < n \<Longrightarrow> b i = b' i) \<Longrightarrow> 0 < n \<Longrightarrow> ring b l c n = ring b' l c n"
  by (simp add: ring_def)

lemma ring_adv: "l < n \<Longrightarrow> (if Suc l = n then 0 else Suc l) = Suc l mod n"
  by auto

text \<open>A first-in first-out buffer: what its clients rely on.\<close>

locale fifo =
  fixes wf :: "'s \<Rightarrow> bool" and cont :: "'s \<Rightarrow> 'v list" and cap :: "'s \<Rightarrow> nat"
    and put :: "'v \<Rightarrow> 's \<Rightarrow> 's" and get :: "'s \<Rightarrow> 'v \<times> 's"
  assumes put_ok: "wf s \<Longrightarrow> length (cont s) < cap s \<Longrightarrow>
      wf (put v s) \<and> cont (put v s) = cont s @ [v] \<and> cap (put v s) = cap s"
    and get_ok: "wf s \<Longrightarrow> cont s = v # vs \<Longrightarrow>
      wf (snd (get s)) \<and> fst (get s) = v \<and> cont (snd (get s)) = vs \<and> cap (snd (get s)) = cap s"
begin

fun gets :: "nat \<Rightarrow> 's \<Rightarrow> 'v list \<times> 's" where
  "gets 0 s = ([], s)"
| "gets (Suc n) s = (let (v, s) = get s; (vs, s) = gets n s in (v # vs, s))"

lemma puts_ok: "wf s \<Longrightarrow> length (cont s) + length vs \<le> cap s \<Longrightarrow>
    wf (fold put vs s) \<and> cont (fold put vs s) = cont s @ vs \<and> cap (fold put vs s) = cap s"
proof (induction vs arbitrary: s)
  case (Cons v vs)
  then have "wf (put v s) \<and> cont (put v s) = cont s @ [v] \<and> cap (put v s) = cap s"
    using put_ok [of s v] by simp
  then show ?case using Cons by simp
qed simp

lemma gets_ok: "wf s \<Longrightarrow> n \<le> length (cont s) \<Longrightarrow>
    wf (snd (gets n s)) \<and> fst (gets n s) = take n (cont s) \<and> cont (snd (gets n s)) = drop n (cont s)"
proof (induction n arbitrary: s)
  case (Suc n)
  then obtain v vs where c: "cont s = v # vs" by (cases "cont s") auto
  then show ?case using get_ok [OF Suc.prems(1) c] Suc by (auto simp: split_def)
qed simp

text \<open>What was put in comes out in order.\<close>

lemma fifo_order:
  assumes "wf s" "cont s = []" "length vs \<le> cap s"
  shows "fst (gets (length vs) (fold put vs s)) = vs"
  using puts_ok [of s vs] gets_ok [of "fold put vs s" "length vs"] assms by simp

end

end
