(* ===== verification/Rtx_Mailbox.thy ===== *)
theory Rtx_Mailbox
  imports Rtx_Sem Fifo
begin

text \<open>
  Mailboxes (\<open>rt_Mailbox.c\<close>): a ring buffer of messages and one list of waiting tasks, which the
  member \<open>state\<close> says what they wait for: a message (1), room for a message (2), or a block of the
  memory pool of a mail queue (3).
\<close>

section \<open>The operations\<close>

definition rt_mbx_init :: "ptr \<Rightarrow> U16 \<Rightarrow> kernel \<Rightarrow> kernel" where
  "rt_mbx_init p_MCB mbx_size s =
     (let s = set_cb_type p_MCB MCB s;
          s = set_isr_st p_MCB 0 (set_mcb_state p_MCB 0 s);
          s = set_p_lnk p_MCB NULL s;
          s = set_mcb_count p_MCB 0 (set_mcb_last p_MCB 0 (set_mcb_first p_MCB 0 s))
      in set_mcb_size p_MCB (ucast ((ucast mbx_size - 16) div 4 :: U32)) s)"

text \<open>The statements that store a message at \<open>first\<close> and fetch one from \<open>last\<close>, which occur in
  several operations, and those on the number of messages.\<close>

definition mbx_store :: "ptr \<Rightarrow> U32 \<Rightarrow> kernel \<Rightarrow> kernel" where
  "mbx_store m v s =
     (let s = set_mcb_msg m (mcb_first s m) v s;
          f = mcb_first s m + 1
      in set_mcb_first m (if f = mcb_size s m then 0 else f) s)"

definition mbx_fetch :: "ptr \<Rightarrow> kernel \<Rightarrow> U32 \<times> kernel" where
  "mbx_fetch m s =
     (let v = mcb_msg s m (mcb_last s m);
          l = mcb_last s m + 1
      in (v, set_mcb_last m (if l = mcb_size s m then 0 else l) s))"

definition mbx_inc :: "ptr \<Rightarrow> kernel \<Rightarrow> kernel" where
  "mbx_inc m s = set_mcb_count m (mcb_count s m + 1) s"

definition mbx_dec :: "ptr \<Rightarrow> kernel \<Rightarrow> kernel" where
  "mbx_dec m s = set_mcb_count m (mcb_count s m - 1) s"

text \<open>The running task becomes the first waiter, for \<open>w\<close>, or joins the waiters.\<close>

definition mbx_put_wait :: "ptr \<Rightarrow> U8 \<Rightarrow> kernel \<Rightarrow> kernel option" where
  "mbx_put_wait m w s =
     (if p_lnk s m \<noteq> NULL then rt_put_prio m (run s) s
      else Some (set_mcb_state m w
        (set_p_rlnk (run s) m (set_p_lnk (run s) NULL (set_p_lnk m (run s) s)))))"

definition rt_mbx_send :: "ptr \<Rightarrow> U32 \<Rightarrow> U16 \<Rightarrow> kernel \<Rightarrow> (U32 \<times> kernel) option" where
  "rt_mbx_send p_MCB p_msg timeout s =
     (if p_lnk s p_MCB \<noteq> NULL \<and> mcb_state s p_MCB = 1
      then do {
        (p_TCB, s) \<leftarrow> rt_get_first p_MCB s;
        let s = rt_ret_val2 p_TCB 0x10 p_msg s;
        let s = rt_rmv_dly p_TCB s;
        s \<leftarrow> rt_dispatch p_TCB s;
        Some (OS_R_OK, s)
      }
      else if mcb_count s p_MCB = mcb_size s p_MCB
      then if timeout = 0 then Some (OS_R_TMO, s)
        else do {
          s \<leftarrow> mbx_put_wait p_MCB 2 s;
          let s = set_msg (run s) p_msg s;
          s \<leftarrow> rt_block timeout WAIT_MBX s;
          Some (OS_R_TMO, s)
        }
      else Some (OS_R_OK, mbx_inc p_MCB (mbx_store p_MCB p_msg s)))"

text \<open>The message is a result: \<open>None\<close> when \<open>*message\<close> is not assigned.\<close>

definition rt_mbx_wait :: "ptr \<Rightarrow> U16 \<Rightarrow> kernel \<Rightarrow> (U32 \<times> U32 option \<times> kernel) option" where
  "rt_mbx_wait p_MCB timeout s =
     (if mcb_count s p_MCB \<noteq> 0
      then do {
        let (v, s) = mbx_fetch p_MCB s;
        if p_lnk s p_MCB \<noteq> NULL \<and> mcb_state s p_MCB = 2
        then do {
          (p_TCB, s) \<leftarrow> rt_get_first p_MCB s;
          let s = rt_ret_val p_TCB 0 s;
          let s = mbx_store p_MCB (msg s p_TCB) s;
          let s = rt_rmv_dly p_TCB s;
          s \<leftarrow> rt_dispatch p_TCB s;
          Some (OS_R_OK, Some v, s)
        }
        else Some (OS_R_OK, Some v, mbx_dec p_MCB s)
      }
      else if timeout = 0 then Some (OS_R_TMO, None, s)
      else do {
        s \<leftarrow> mbx_put_wait p_MCB 1 s;
        s \<leftarrow> rt_block timeout WAIT_MBX s;
        Some (OS_R_TMO, None, s)
      })"

definition rt_mbx_check :: "ptr \<Rightarrow> kernel \<Rightarrow> U32" where
  "rt_mbx_check p_MCB s = ucast (mcb_size s p_MCB) - ucast (mcb_count s p_MCB)"

definition isr_mbx_send :: "ptr \<Rightarrow> U32 \<Rightarrow> kernel \<Rightarrow> kernel" where
  "isr_mbx_send p_MCB p_msg s = rt_psh_req (rt_psq_enq p_MCB p_msg s)"

definition isr_mbx_receive :: "ptr \<Rightarrow> kernel \<Rightarrow> U32 \<times> U32 option \<times> kernel" where
  "isr_mbx_receive p_MCB s =
     (if mcb_count s p_MCB \<noteq> 0
      then let v = mcb_msg s p_MCB (mcb_last s p_MCB);
               s = (if mcb_state s p_MCB = 2 then rt_psh_req (rt_psq_enq p_MCB 0 s) else s);
               s = mbx_dec p_MCB s
           in (OS_R_MBX, Some v, snd (mbx_fetch p_MCB s))
      else (OS_R_OK, None, s))"

text \<open>The branches of \<open>rt_mbx_psh\<close> that make the first waiter ready: \<open>f\<close> stores its result.\<close>

definition mbx_psh_ready :: "ptr \<Rightarrow> kernel \<Rightarrow> kernel option" where
  "mbx_psh_ready p_TCB s =
     (let s = set_state p_TCB READY s;
          s = rt_rmv_dly p_TCB s
      in rt_put_prio OS_RDY p_TCB s)"

definition rt_mbx_psh :: "ptr \<Rightarrow> U32 \<Rightarrow> kernel \<Rightarrow> kernel option" where
  "rt_mbx_psh p_CB p_msg s =
     (if p_lnk s p_CB \<noteq> NULL
      then if mcb_state s p_CB = 3
        then let (mem, s) = alloc_box p_msg s in
          if mem = 0 then Some s
          else do {
            (p_TCB, s) \<leftarrow> rt_get_first p_CB s;
            mbx_psh_ready p_TCB (rt_ret_val p_TCB mem s)
          }
        else if mcb_state s p_CB = 2
        then do {
          (p_TCB, s) \<leftarrow> rt_get_first p_CB s;
          let s = rt_ret_val p_TCB 0 s;
          let s = mbx_inc p_CB (mbx_store p_CB (msg s p_TCB) s);
          mbx_psh_ready p_TCB s
        }
        else if mcb_state s p_CB = 1
        then do {
          (p_TCB, s) \<leftarrow> rt_get_first p_CB s;
          mbx_psh_ready p_TCB (rt_ret_val2 p_TCB 0x10 p_msg s)
        }
        else Some s
      else if mcb_count s p_CB < mcb_size s p_CB
      then Some (mbx_inc p_CB (mbx_store p_CB p_msg s))
      else Some (os_error OS_ERR_MBX_OVF s))"

section \<open>The ring buffer of a mailbox\<close>

definition mbx_wf :: "ptr \<Rightarrow> kernel \<Rightarrow> bool" where
  "mbx_wf m s \<longleftrightarrow> unat (mcb_last s m) < unat (mcb_size s m) \<and> mcb_count s m \<le> mcb_size s m \<and>
     unat (mcb_first s m) = (unat (mcb_last s m) + unat (mcb_count s m)) mod unat (mcb_size s m)"

definition mbx_msgs :: "ptr \<Rightarrow> kernel \<Rightarrow> U32 list" where
  "mbx_msgs m s = ring (\<lambda>i. mcb_msg s m (word_of_nat i)) (unat (mcb_last s m)) (unat (mcb_count s m))
     (unat (mcb_size s m))"

lemma unat_adv:
  assumes "unat l < unat (n :: U16)"
  shows "unat (if l + 1 = n then 0 else l + 1) = Suc (unat l) mod unat n"
proof -
  have "unat l + 1 < 65536" using assms unat_u16 [of n] by linarith
  then have u: "unat (l + 1) = Suc (unat l)" using unat_add_u16 [of l 1] by simp
  then have "l + 1 = n \<longleftrightarrow> Suc (unat l) = unat n" by (metis unsigned_word_eqI)
  then show ?thesis using u ring_adv [OF assms] by auto
qed

lemma word_of_nat_eq_iff16: "i < 65536 \<Longrightarrow> word_of_nat i = (x :: U16) \<longleftrightarrow> i = unat x"
  by (auto simp: unsigned_of_nat take_bit_eq_mod word_unat_eq_iff)


lemma ring_upd:
  assumes "unat f = (l + c) mod n" "c < n" "n < 65536"
  shows "ring (\<lambda>i. (b(f := v)) (word_of_nat i :: U16)) l (Suc c) n = ring (\<lambda>i. b (word_of_nat i)) l c n @ [v]"
proof -
  have "ring (\<lambda>i. (b(f := v)) (word_of_nat i)) l (Suc c) n =
      ring ((\<lambda>i. b (word_of_nat i))((l + c) mod n := v)) l (Suc c) n"
  proof (rule ring_cong)
    fix i assume "i < n"
    then have "word_of_nat i = f \<longleftrightarrow> i = (l + c) mod n"
      using word_of_nat_eq_iff16 [of i f] assms by simp
    then show "(b(f := v)) (word_of_nat i) = ((\<lambda>i. b (word_of_nat i))((l + c) mod n := v)) i" by simp
  qed (use assms in simp)
  then show ?thesis using ring_store [OF assms(2), of "\<lambda>i. b (word_of_nat i)" l v] by simp
qed

definition mbx_put :: "ptr \<Rightarrow> U32 \<Rightarrow> kernel \<Rightarrow> kernel" where
  "mbx_put m v s = mbx_inc m (mbx_store m v s)"

definition mbx_get :: "ptr \<Rightarrow> kernel \<Rightarrow> U32 \<times> kernel" where
  "mbx_get m s = (let (v, s) = mbx_fetch m s in (v, mbx_dec m s))"

lemma mbx_put_ok:
  assumes wf: "mbx_wf m s" and c: "mcb_count s m < mcb_size s m"
  shows "mbx_wf m (mbx_put m v s)" "mbx_msgs m (mbx_put m v s) = mbx_msgs m s @ [v]"
    "mcb_size (mbx_put m v s) = mcb_size s"
proof -
  let ?n = "unat (mcb_size s m)" and ?l = "unat (mcb_last s m)" and ?c = "unat (mcb_count s m)"
  have f: "unat (mcb_first s m) = (?l + ?c) mod ?n" "?l < ?n" "?c < ?n"
    using wf c by (auto simp: mbx_wf_def word_less_nat_alt)
  have "?c + 1 < 65536" using f(3) unat_u16 [of "mcb_size s m"] by linarith
  then have uc: "unat (mcb_count s m + 1) = Suc ?c" using unat_add_u16 [of "mcb_count s m" 1] by simp
  have "unat (mcb_first s m) < ?n" using f by simp
  from unat_adv [OF this] have adv: "unat (if mcb_first s m + 1 = mcb_size s m then 0 else mcb_first s m + 1)
      = (?l + Suc ?c) mod ?n" using f(1) by (simp add: mod_simps)
  show "mbx_wf m (mbx_put m v s)"
    using f uc adv unfolding mbx_wf_def mbx_put_def mbx_inc_def mbx_store_def Let_def
    by (simp add: word_le_nat_alt split: if_splits del: add_Suc_right)
  show "mbx_msgs m (mbx_put m v s) = mbx_msgs m s @ [v]"
    using ring_upd [OF f(1,3), of "mcb_msg s m" v] uc
    by (simp add: mbx_msgs_def mbx_put_def mbx_inc_def mbx_store_def Let_def)
  show "mcb_size (mbx_put m v s) = mcb_size s"
    by (simp add: mbx_put_def mbx_inc_def mbx_store_def Let_def)
qed

lemma mbx_get_ok:
  assumes wf: "mbx_wf m s" and c: "mcb_count s m \<noteq> 0"
  shows "mbx_wf m (snd (mbx_get m s))" "mbx_msgs m s = fst (mbx_get m s) # mbx_msgs m (snd (mbx_get m s))"
    "mcb_size (snd (mbx_get m s)) = mcb_size s"
proof -
  let ?n = "unat (mcb_size s m)" and ?l = "unat (mcb_last s m)" and ?c = "unat (mcb_count s m)"
  have f: "unat (mcb_first s m) = (?l + ?c) mod ?n" "?l < ?n" "?c \<le> ?n"
    using wf by (auto simp: mbx_wf_def word_le_nat_alt)
  have cp: "0 < ?c" using c by (simp add: unat_gt_0)
  have uc: "unat (mcb_count s m - 1) = ?c - 1" using cp by (subst unat_sub_word) auto
  note adv = unat_adv [OF f(2)]
  have e: "(Suc ?l mod ?n + (?c - 1)) mod ?n = (?l + ?c) mod ?n"
  proof -
    obtain k where "?c = Suc k" using cp by (cases ?c) auto
    then show ?thesis by (simp add: mod_simps)
  qed
  show "mbx_wf m (snd (mbx_get m s))"
    using f uc adv e cp unfolding mbx_wf_def mbx_get_def mbx_fetch_def mbx_dec_def Let_def
    by (simp add: word_le_nat_alt)
  show "mbx_msgs m s = fst (mbx_get m s) # mbx_msgs m (snd (mbx_get m s))"
    using ring_fetch [of "\<lambda>i. mcb_msg s m (word_of_nat i)" ?l "?c - 1" ?n] cp f(2) uc adv
    by (simp add: mbx_msgs_def mbx_get_def mbx_fetch_def mbx_dec_def Let_def)
  show "mcb_size (snd (mbx_get m s)) = mcb_size s"
    by (simp add: mbx_get_def mbx_fetch_def mbx_dec_def Let_def)
qed

lemma length_mbx_msgs: "length (mbx_msgs m s) = unat (mcb_count s m)"
  by (simp add: mbx_msgs_def)

interpretation mbx: fifo "mbx_wf m" "mbx_msgs m" "\<lambda>s. unat (mcb_size s m)" "mbx_put m" "mbx_get m"
  for m
proof
  fix s v
  assume "mbx_wf m s" "length (mbx_msgs m s) < unat (mcb_size s m)"
  then show "mbx_wf m (mbx_put m v s) \<and> mbx_msgs m (mbx_put m v s) = mbx_msgs m s @ [v] \<and>
      unat (mcb_size (mbx_put m v s) m) = unat (mcb_size s m)"
    using mbx_put_ok [of m s v] by (simp add: length_mbx_msgs word_less_nat_alt)
next
  fix s v vs
  assume a: "mbx_wf m s" "mbx_msgs m s = v # vs"
  then have "mcb_count s m \<noteq> 0" using length_mbx_msgs [of m s] by auto
  from mbx_get_ok [OF a(1) this] a(2)
  show "mbx_wf m (snd (mbx_get m s)) \<and> fst (mbx_get m s) = v \<and>
      mbx_msgs m (snd (mbx_get m s)) = vs \<and> unat (mcb_size (snd (mbx_get m s)) m) = unat (mcb_size s m)"
    by simp
qed


section \<open>What the operations do\<close>

lemma mbx_put_wait_eq: "mbx_put_wait m w s =
    (if p_lnk s m \<noteq> NULL then put_wait m s else map_option (set_mcb_state m w) (put_wait m s))"
  by (simp add: mbx_put_wait_def put_wait_def)

lemma kinv_quiet_any:
  assumes "kinv s q ds" "quiet t s s'" "state s' = state s"
  shows "kinv s' q ds"
  using kinv_cong [of s' s q ds] assms by (simp add: quiet_def)

lemma quiet_mbx [simp]:
  "quiet t s (mbx_store m v s)" "quiet t s (mbx_inc m s)" "quiet t s (mbx_dec m s)"
  "quiet t s (mbx_put m v s)" "quiet t s (snd (mbx_fetch m s))" "quiet t s (snd (mbx_get m s))"
  by (simp_all add: quiet_def mbx_store_def mbx_inc_def mbx_dec_def mbx_put_def mbx_fetch_def
      mbx_get_def Let_def)

lemma mbx_state [simp]:
  "state (mbx_store m v s) = state s" "state (mbx_inc m s) = state s" "state (mbx_dec m s) = state s"
  "state (mbx_put m v s) = state s" "state (snd (mbx_fetch m s)) = state s"
  "state (snd (mbx_get m s)) = state s"
  by (simp_all add: mbx_store_def mbx_inc_def mbx_dec_def mbx_put_def mbx_fetch_def mbx_get_def Let_def)

lemma quiet_trans: "quiet t s s' \<Longrightarrow> quiet t s' s'' \<Longrightarrow> quiet t s s''"
  by (simp add: quiet_def)

text \<open>A message for a task that waits for one goes directly into the result of that task.\<close>

lemma rt_mbx_send_wake:
  assumes K: "kinv s q ds" and m: "cb_type s m = MCB" "mcb_state s m = 1" "q m = t # B"
  obtains s' where "rt_mbx_send m v timeout s = Some (OS_R_OK, s')" "core_only s s'"
    "kinv (switch_context s') (dispatched s t (q(m := B))) (rmv_dly t ds)"
    "new_tsk s' = (if prio s (run s) < prio s t then t else run s)"
    "ret0 s' = (ret0 s)(t := 0x10)" "ret1 s' = (ret1 s)(t := v)"
proof -
  let ?f = "rt_ret_val2 t 0x10 v"
  obtain s1 s' where w: "rt_get_first m s = Some (t, s1)" "links_only s s1"
    "dly_only (?f s1) (rt_rmv_dly t (?f s1))" "rt_dispatch t (rt_rmv_dly t (?f s1)) = Some s'"
    "core_only (rt_rmv_dly t (?f s1)) s'"
    "ret0 s' = ret0 (rt_rmv_dly t (?f s1))" "ret1 s' = ret1 (rt_rmv_dly t (?f s1))"
    "kinv (switch_context s') (dispatched s t (q(m := B))) (rmv_dly t ds)"
    "new_tsk s' = (if prio s (run s) < prio s t then t else run s)"
    by (rule wake_dispatch [OF K is_sem_MCB [OF m(1)] m(3), of ?f id]) auto
  have "rt_mbx_send m v timeout s = Some (OS_R_OK, s')"
    using kinv_p_lnk_NULL [OF K, of m] m w(1,4) is_sem_MCB [OF m(1)]
    by (simp add: rt_mbx_send_def is_head_def)
  moreover have "core_only s s'"
    by (rule core_only_trans [OF links_only_core [OF w(2)]
          core_only_trans [OF _ core_only_trans [OF dly_only_core [OF w(3)] w(5)]]]) simp
  moreover have "ret0 s' = (ret0 s)(t := 0x10)" "ret1 s' = (ret1 s)(t := v)"
  proof -
    have "ret0 s1 = ret0 s" "ret1 s1 = ret1 s" using w(2) by (auto simp: links_only_def)
    moreover have "ret0 (rt_rmv_dly t (?f s1)) = ret0 (?f s1)" "ret1 (rt_rmv_dly t (?f s1)) = ret1 (?f s1)"
      using w(3) unfolding dly_only_def by fastforce+
    ultimately show "ret0 s' = (ret0 s)(t := 0x10)" "ret1 s' = (ret1 s)(t := v)"
      by (simp_all add: w(6,7) rt_ret_val2_def)
  qed
  ultimately show thesis using that w by blast
qed

text \<open>Otherwise it is stored, when there is room.\<close>

lemma rt_mbx_send_store:
  assumes K: "kinv s q ds" and m: "cb_type s m = MCB" "q m = [] \<or> mcb_state s m \<noteq> 1"
    "mcb_count s m \<noteq> mcb_size s m"
  shows "rt_mbx_send m v timeout s = Some (OS_R_OK, mbx_put m v s)"
    "kinv (switch_context (mbx_put m v s)) q ds"
proof -
  show "rt_mbx_send m v timeout s = Some (OS_R_OK, mbx_put m v s)"
    using kinv_p_lnk_NULL [OF K, of m] m is_sem_MCB [OF m(1)]
    by (auto simp: rt_mbx_send_def mbx_put_def is_head_def)
  show "kinv (switch_context (mbx_put m v s)) q ds"
    by (rule kinv_switch_same [OF kinv_quiet_any [OF K quiet_mbx(4)]]) simp
qed

text \<open>The running task waits, for \<open>w\<close>.\<close>

lemma mbx_block:
  assumes K: "kinv s q ds" and m: "cb_type s m = MCB" and r: "run s \<noteq> OS_IDLE" and to: "timeout \<noteq> 0"
    and f: "\<And>s1. f s1 = s1 \<or> f s1 = set_msg (run s1) v s1"
  obtains s1 s' where "mbx_put_wait m w s = Some s1" "rt_block timeout WAIT_MBX (f s1) = Some s'"
    "kinv (switch_context s') (q(m := ins_prio (prio s) (run s) (q m), OS_RDY := tl (q OS_RDY)))
       (blocked_dly (run s) timeout ds)"
    "new_tsk s' = hd (q OS_RDY)" "state s' = (state s)(run s := WAIT_MBX, hd (q OS_RDY) := RUNNING)"
    "core_only (f s1) s'" "mcb_state s1 = (mcb_state s)(m := if q m = [] then w else mcb_state s m)"
    "run s1 = run s" "mcb_count s1 = mcb_count s" "mcb_size s1 = mcb_size s" "mcb_msg s1 = mcb_msg s"
    "mcb_first s1 = mcb_first s" "mcb_last s1 = mcb_last s" "cb_type s1 = cb_type s"
proof -
  note k = kinvD [OF K]
  obtain s0 where p: "put_wait m s = Some s0" "links_only s s0"
    "\<And>st. waiting st \<Longrightarrow> sched (set_state (run s) st s0) (q(m := ins_prio (prio s) (run s) (q m))) ds {}"
    "m \<noteq> OS_RDY" using put_wait_sched [OF K is_sem_MCB [OF m]] by metis
  note f0 = links_only_fields [OF p(2)] core_only_fields [OF links_only_core [OF p(2)]]
  define s1 where "s1 = (if q m \<noteq> [] then s0 else set_mcb_state m w s0)"
  have pw: "mbx_put_wait m w s = Some s1"
    using p(1) kinv_p_lnk_NULL [OF K, of m] is_sem_MCB [OF m] by (auto simp: mbx_put_wait_eq s1_def is_head_def)
  have q1: "quiet t s0 s1" "quiet t s0 (f s1)" for t
    using f [of s1] by (auto simp: s1_def quiet_def)
  have st1: "state s1 = state s0" "state (f s1) = state s0" using f [of s1] by (auto simp: s1_def)
  have q2: "quiet (run s) (set_state (run s) WAIT_MBX s0) (set_state (run s) WAIT_MBX (f s1))"
    using q1(2) [of "run s"] st1 by (simp add: quiet_def)
  note g1 = quiet_fields [OF q1(2)] quiet_task [OF q1(2)]
  obtain t B where q: "q OS_RDY = t # B" using kinv_rdy_nonempty [OF K r] by blast
  have S: "sched (set_state (run (f s1)) WAIT_MBX (f s1)) (q(m := ins_prio (prio s) (run s) (q m))) ds {}"
  proof -
    have "sched (set_state (run s) WAIT_MBX s0) (q(m := ins_prio (prio s) (run s) (q m))) ds {}"
      using p(3) by (simp add: waiting_def)
    moreover have "sched (set_state (run s) WAIT_MBX (f s1)) q' ds {} =
        sched (set_state (run s) WAIT_MBX s0) q' ds {}" for q'
      by (rule sched_cong) (use q1(2) [of NULL] st1 in \<open>simp_all add: quiet_def\<close>)
    ultimately show ?thesis using g1 f0 by simp
  qed
  obtain s' where b: "rt_block timeout WAIT_MBX (f s1) = Some s'" "core_only (f s1) s'" "new_tsk s' = t"
    "kinv (switch_context s') ((q(m := ins_prio (prio s) (run s) (q m)))(OS_RDY := B))
       (blocked_dly (run (f s1)) timeout ds)"
    "state s' = (state (f s1))(run (f s1) := WAIT_MBX, t := RUNNING)"
    by (rule rt_block_ok [OF S _ _ _ to, of t B])
      (use k r q p(4) in \<open>auto simp: g1 f0 blocked_def\<close>)
  show thesis
    by (rule that [OF pw b(1) _ _ _ b(2)])
      (use b q g1 f0 st1 in \<open>simp_all add: s1_def\<close>)
qed

lemma rt_mbx_send_block:
  assumes K: "kinv s q ds" and m: "cb_type s m = MCB" "q m = [] \<or> mcb_state s m \<noteq> 1"
    "mcb_count s m = mcb_size s m" and r: "run s \<noteq> OS_IDLE" and to: "timeout \<noteq> 0"
  obtains s' where "rt_mbx_send m v timeout s = Some (OS_R_TMO, s')"
    "kinv (switch_context s') (q(m := ins_prio (prio s) (run s) (q m), OS_RDY := tl (q OS_RDY)))
       (blocked_dly (run s) timeout ds)" "msg s' (run s) = v"
    "new_tsk s' = hd (q OS_RDY)" "mcb_state s' m = (if q m = [] then 2 else mcb_state s m)"
    "mbx_msgs m s' = mbx_msgs m s"
proof -
  obtain s1 s' where b: "mbx_put_wait m 2 s = Some s1"
    "rt_block timeout WAIT_MBX (set_msg (run s1) v s1) = Some s'"
    "kinv (switch_context s') (q(m := ins_prio (prio s) (run s) (q m), OS_RDY := tl (q OS_RDY)))
       (blocked_dly (run s) timeout ds)"
    "new_tsk s' = hd (q OS_RDY)" "core_only (set_msg (run s1) v s1) s'"
    "mcb_state s1 = (mcb_state s)(m := if q m = [] then 2 else mcb_state s m)"
    "run s1 = run s" "mcb_count s1 = mcb_count s" "mcb_size s1 = mcb_size s" "mcb_msg s1 = mcb_msg s"
    "mcb_first s1 = mcb_first s" "mcb_last s1 = mcb_last s"
    by (rule mbx_block [OF K m(1) r to, of "\<lambda>s1. set_msg (run s1) v s1"]) auto
  note c = core_only_fields [OF b(5)]
  have "rt_mbx_send m v timeout s = Some (OS_R_TMO, s')"
    using kinv_p_lnk_NULL [OF K, of m] m is_sem_MCB [OF m(1)] to b(1,2)
    by (auto simp: rt_mbx_send_def is_head_def)
  then show thesis using that b(3,4) c b(6-12) by (simp add: mbx_msgs_def)
qed

lemma rt_mbx_wait_get:
  assumes K: "kinv s q ds" and m: "cb_type s m = MCB" "mcb_count s m \<noteq> 0" "q m = [] \<or> mcb_state s m \<noteq> 2"
  shows "rt_mbx_wait m timeout s = Some (OS_R_OK, Some (fst (mbx_get m s)), snd (mbx_get m s))"
    "kinv (switch_context (snd (mbx_get m s))) q ds"
proof -
  have "p_lnk (snd (mbx_fetch m s)) = p_lnk s" "mcb_state (snd (mbx_fetch m s)) = mcb_state s"
    by (simp_all add: mbx_fetch_def Let_def)
  then show "rt_mbx_wait m timeout s = Some (OS_R_OK, Some (fst (mbx_get m s)), snd (mbx_get m s))"
    using kinv_p_lnk_NULL [OF K, of m] m is_sem_MCB [OF m(1)]
    by (auto simp: rt_mbx_wait_def mbx_get_def is_head_def split_def Let_def)
  show "kinv (switch_context (snd (mbx_get m s))) q ds"
    by (rule kinv_switch_same [OF kinv_quiet_any [OF K quiet_mbx(6)]]) simp
qed

text \<open>When a task waits to send, its message takes the place of the one that is taken.\<close>

lemma rt_mbx_wait_wakes:
  assumes K: "kinv s q ds" and m: "cb_type s m = MCB" "mcb_count s m \<noteq> 0" "q m = t # B" "mcb_state s m = 2"
  obtains s' where "rt_mbx_wait m timeout s = Some (OS_R_OK, Some (fst (mbx_get m s)), s')"
    "kinv (switch_context s') (dispatched s t (q(m := B))) (rmv_dly t ds)"
    "new_tsk s' = (if prio s (run s) < prio s t then t else run s)" "ret0 s' = (ret0 s)(t := 0)"
    "mcb_msg s' = mcb_msg (mbx_put m (msg s t) (snd (mbx_get m s)))"
    "mcb_first s' = mcb_first (mbx_put m (msg s t) (snd (mbx_get m s)))"
    "mcb_last s' = mcb_last (mbx_put m (msg s t) (snd (mbx_get m s)))"
    "mcb_size s' = mcb_size (mbx_put m (msg s t) (snd (mbx_get m s)))"
    "mcb_count s' = mcb_count (mbx_put m (msg s t) (snd (mbx_get m s)))"
proof -
  define s0 where "s0 = snd (mbx_fetch m s)"
  have s0: "mbx_fetch m s = (fst (mbx_get m s), s0)" by (simp add: s0_def mbx_get_def split_def Let_def)
  have K0: "kinv s0 q ds" unfolding s0_def by (rule kinv_quiet_any [OF K quiet_mbx(5)]) simp
  have f0: "p_lnk s0 = p_lnk s" "mcb_state s0 = mcb_state s" "cb_type s0 = cb_type s" "prio s0 = prio s"
    "run s0 = run s" "ret0 s0 = ret0 s" "msg s0 = msg s"
    by (simp_all add: s0_def mbx_fetch_def Let_def)
  have m0: "is_sem_mbx s0 m" using m(1) f0 by (simp add: is_sem_mbx_def)
  let ?f = "\<lambda>s1. mbx_store m (msg (rt_ret_val t 0 s1) t) (rt_ret_val t 0 s1)"
  have qf: "quiet t s1 (?f s1)" for s1 by (rule quiet_trans [OF quiet_ret_val(1) quiet_mbx(1)])
  obtain s1 s' where w: "rt_get_first m s0 = Some (t, s1)" "links_only s0 s1"
    "dly_only (?f s1) (rt_rmv_dly t (?f s1))" "rt_dispatch t (rt_rmv_dly t (?f s1)) = Some s'"
    "core_only (rt_rmv_dly t (?f s1)) s'" "ret0 s' = ret0 (rt_rmv_dly t (?f s1))"
    "kinv (switch_context s') (dispatched s0 t (q(m := B))) (rmv_dly t ds)"
    "new_tsk s' = (if prio s0 (run s0) < prio s0 t then t else run s0)"
    by (rule wake_dispatch [OF K0 m0 m(3) qf, of id]) auto
  have e: "rt_mbx_wait m timeout s = Some (OS_R_OK, Some (fst (mbx_get m s)), s')"
    using m w(1,4) s0 f0 kinv_p_lnk_NULL [OF K, of m] is_sem_MCB [OF m(1)]
    by (simp add: rt_mbx_wait_def is_head_def)
  have k: "kinv (switch_context s') (dispatched s t (q(m := B))) (rmv_dly t ds)"
  proof -
    have "dispatched s0 t (q(m := B)) = dispatched s t (q(m := B))" by (simp add: dispatched_def f0)
    then show ?thesis using w(7) by simp
  qed
  have r: "ret0 s' = (ret0 s)(t := 0)"
  proof -
    have "ret0 s1 = ret0 s" using w(2) f0 by (auto simp: links_only_def)
    moreover have "ret0 (rt_rmv_dly t (?f s1)) = ret0 (?f s1)"
      using w(3) unfolding dly_only_def by fastforce
    ultimately show ?thesis by (simp add: w(6) rt_ret_val_def mbx_store_def Let_def)
  qed
  note c = core_only_fields [OF core_only_trans [OF dly_only_core [OF w(3)] w(5)]]
    core_only_fields [OF links_only_core [OF w(2)]]
  show thesis
    by (rule that [OF e k _ r]) (use w(8) f0 in \<open>simp_all add: c mbx_put_def mbx_get_def mbx_store_def mbx_fetch_def
      mbx_inc_def mbx_dec_def Let_def rt_ret_val_def s0_def\<close>)
qed

lemma rt_mbx_wait_sender:
  assumes K: "kinv s q ds" and m: "cb_type s m = MCB" "mcb_count s m \<noteq> 0" "q m = t # B" "mcb_state s m = 2"
    and wf: "mbx_wf m s"
  obtains s' where "rt_mbx_wait m timeout s = Some (OS_R_OK, Some (hd (mbx_msgs m s)), s')"
    "kinv (switch_context s') (dispatched s t (q(m := B))) (rmv_dly t ds)"
    "mbx_wf m s'" "mbx_msgs m s' = tl (mbx_msgs m s) @ [msg s t]"
    "new_tsk s' = (if prio s (run s) < prio s t then t else run s)" "ret0 s' = (ret0 s)(t := 0)"
proof -
  let ?g = "snd (mbx_get m s)"
  have msgs: "mbx_msgs m s = fst (mbx_get m s) # mbx_msgs m ?g" "mbx_wf m ?g" "mcb_size ?g = mcb_size s"
    using mbx_get_ok [OF wf m(2)] by auto
  have "mcb_count ?g m < mcb_size ?g m"
  proof -
    have "unat (mcb_count s m) \<noteq> 0" using m(2) by (simp add: unat_eq_0)
    then have "unat (mcb_count s m - 1) < unat (mcb_count s m)" by (subst unat_sub_word) auto
    then show ?thesis using wf by (auto simp: mbx_get_def mbx_fetch_def mbx_dec_def Let_def mbx_wf_def word_less_nat_alt word_le_nat_alt)
  qed
  note put = mbx_put_ok [OF msgs(2) this, of "msg s t"]
  obtain s' where s': "rt_mbx_wait m timeout s = Some (OS_R_OK, Some (fst (mbx_get m s)), s')"
    "kinv (switch_context s') (dispatched s t (q(m := B))) (rmv_dly t ds)"
    "new_tsk s' = (if prio s (run s) < prio s t then t else run s)" "ret0 s' = (ret0 s)(t := 0)"
    and e: "mcb_msg s' = mcb_msg (mbx_put m (msg s t) ?g)" "mcb_first s' = mcb_first (mbx_put m (msg s t) ?g)"
      "mcb_last s' = mcb_last (mbx_put m (msg s t) ?g)" "mcb_size s' = mcb_size (mbx_put m (msg s t) ?g)"
      "mcb_count s' = mcb_count (mbx_put m (msg s t) ?g)"
    by (rule rt_mbx_wait_wakes [OF K m])
  have "mbx_wf m s'" "mbx_msgs m s' = tl (mbx_msgs m s) @ [msg s t]"
    using put msgs(1) by (simp_all add: mbx_wf_def mbx_msgs_def e)
  then show thesis using that [of s'] s' msgs(1) by simp
qed


lemma rt_mbx_wait_block:
  assumes K: "kinv s q ds" and m: "cb_type s m = MCB" "mcb_count s m = 0" and r: "run s \<noteq> OS_IDLE"
    and to: "timeout \<noteq> 0"
  obtains s' where "rt_mbx_wait m timeout s = Some (OS_R_TMO, None, s')"
    "kinv (switch_context s') (q(m := ins_prio (prio s) (run s) (q m), OS_RDY := tl (q OS_RDY)))
       (blocked_dly (run s) timeout ds)"
    "new_tsk s' = hd (q OS_RDY)" "mcb_state s' m = (if q m = [] then 1 else mcb_state s m)"
    "mbx_msgs m s' = mbx_msgs m s"
proof -
  obtain s1 s' where b: "mbx_put_wait m 1 s = Some s1" "rt_block timeout WAIT_MBX s1 = Some s'"
    "kinv (switch_context s') (q(m := ins_prio (prio s) (run s) (q m), OS_RDY := tl (q OS_RDY)))
       (blocked_dly (run s) timeout ds)"
    "new_tsk s' = hd (q OS_RDY)" "core_only s1 s'"
    "mcb_state s1 = (mcb_state s)(m := if q m = [] then 1 else mcb_state s m)"
    "run s1 = run s" "mcb_count s1 = mcb_count s" "mcb_size s1 = mcb_size s" "mcb_msg s1 = mcb_msg s"
    "mcb_first s1 = mcb_first s" "mcb_last s1 = mcb_last s"
    by (rule mbx_block [OF K m(1) r to, of "\<lambda>s1. s1"]) auto
  note c = core_only_fields [OF b(5)]
  have "rt_mbx_wait m timeout s = Some (OS_R_TMO, None, s')"
    using m to b(1,2) by (simp add: rt_mbx_wait_def)
  then show thesis using that b(3,4) c b(6-12) by (simp add: mbx_msgs_def)
qed

text \<open>The post-service handling never fails, and gives what arrives to the first waiter.\<close>

lemma mbx_psh_ready_eq:
  "mbx_psh_ready t s = rt_put_prio OS_RDY t (rt_rmv_dly t (set_state t READY s))"
  by (simp add: mbx_psh_ready_def)

lemma psh_wake:
  assumes S: "sched s q ds X" and m: "cb_type s m = MCB" "q m = t # B" and X: "t \<notin> X"
    and Q: "\<And>s1. quiet t s1 (f s1)"
  obtains s1 s' where "rt_get_first m s = Some (t, s1)" "links_only s s1"
    "mbx_psh_ready t (f s1) = Some s'" "core_only (f s1) s'"
    "sched s' (q(m := B, OS_RDY := ins_prio (prio s) t (q OS_RDY))) (rmv_dly t ds) X"
    "state s' = (state s)(t := READY)" "ret0 s' = ret0 (f s1)" "ret1 s' = ret1 (f s1)"
    "new_tsk s' = new_tsk s"
proof -
  let ?f = "\<lambda>s. set_state t READY (f s)"
  have qf: "quiet t s1 (?f s1)" for s1 by (rule quiet_trans [OF Q]) simp
  have st: "state (rt_rmv_dly t (?f s1)) t = READY" for s1
    by (simp add: rt_rmv_dly_def Let_def)
  obtain s1 s' where w: "rt_get_first m s = Some (t, s1)" "links_only s s1"
    "dly_only (?f s1) (rt_rmv_dly t (?f s1))"
    "rt_put_prio OS_RDY t (rt_rmv_dly t (?f s1)) = Some s'" "links_only (rt_rmv_dly t (?f s1)) s'"
    "sched s' (q(m := B, OS_RDY := ins_prio (prio s) t (q OS_RDY))) (rmv_dly t ds) X"
    "state s' = (state s)(t := READY)"
    by (rule wake_ready [OF S is_sem_MCB [OF m(1)] m(2) X qf quiet_ret_val(4)]) (use st in auto)
  have r: "ret0 s' = ret0 (f s1)" "ret1 s' = ret1 (f s1)" "new_tsk s' = new_tsk (f s1)"
  proof -
    have "ret0 (rt_rmv_dly t (?f s1)) = ret0 (?f s1)" "ret1 (rt_rmv_dly t (?f s1)) = ret1 (?f s1)"
      "new_tsk (rt_rmv_dly t (?f s1)) = new_tsk (?f s1)"
      using w(3) unfolding dly_only_def by fastforce+
    moreover have "ret0 s' = ret0 (rt_rmv_dly t (?f s1))" "ret1 s' = ret1 (rt_rmv_dly t (?f s1))"
      "new_tsk s' = new_tsk (rt_rmv_dly t (?f s1))"
      using w(5) unfolding links_only_def by fastforce+
    ultimately show "ret0 s' = ret0 (f s1)" "ret1 s' = ret1 (f s1)" "new_tsk s' = new_tsk (f s1)" by simp_all
  qed
  have "new_tsk s1 = new_tsk s" using w(2) by (auto simp: links_only_def)
  then have n: "new_tsk s' = new_tsk s" using r(3) quiet_fields(2) [OF Q [of s1]] by simp
  have "core_only (f s1) s'"
    by (rule core_only_trans [OF core_only_steps(1) core_only_trans [OF dly_only_core [OF w(3)] links_only_core [OF w(5)]]])
  then show thesis using that [OF w(1,2) _ _ w(6,7) r(1,2) n] w(4) by (simp add: mbx_psh_ready_eq)
qed

text \<open>What handling a request leaves alone.\<close>

definition psh_frame :: "kernel \<Rightarrow> kernel \<Rightarrow> bool" where
  "psh_frame s s' \<longleftrightarrow> prio s' = prio s \<and> run s' = run s \<and> cb_type s' = cb_type s \<and>
     os_active_TCB s' = os_active_TCB s \<and> psq_first s' = psq_first s \<and> psq_last s' = psq_last s \<and>
     psq_count s' = psq_count s \<and> psq_size s' = psq_size s \<and> psq_id s' = psq_id s \<and>
     psq_arg s' = psq_arg s \<and> mcb_size s' = mcb_size s"

lemma psh_frame_refl [simp]: "psh_frame s s"
  by (simp add: psh_frame_def)

lemma psh_frame_trans: "psh_frame s s' \<Longrightarrow> psh_frame s' s'' \<Longrightarrow> psh_frame s s''"
  by (simp add: psh_frame_def)

lemma core_psh_frame: "core_only s s' \<Longrightarrow> psh_frame s s'"
  by (auto simp: core_only_def psh_frame_def)

lemma psh_frame_steps [simp]:
  "psh_frame s (mbx_store m v s)" "psh_frame s (mbx_inc m s)" "psh_frame s (snd (alloc_box b s))"
  "psh_frame s (os_error c s)" "psh_frame s (set_tokens p n s)" "psh_frame s (set_events p w s)"
  "psh_frame s (set_waits p w s)"
  by (simp_all add: psh_frame_def mbx_store_def mbx_inc_def alloc_box_def os_error_def Let_def
      split: list.split)

lemma psh_frame_task: "psh_frame s s' \<Longrightarrow> is_task s' = is_task s \<and> tasks_ok s' = tasks_ok s"
  by (simp add: psh_frame_def is_task_def tasks_ok_def fun_eq_iff)

text \<open>Afterwards the lists are unchanged, or the first waiter has become ready.\<close>

lemma rt_mbx_psh_sched:
  assumes S: "sched s q ds X" and m: "cb_type s m = MCB" and X: "X \<inter> set (q m) = {}"
  shows "\<exists>s'. rt_mbx_psh m v s = Some s' \<and> psh_frame s s' \<and>
    ((sched s' q ds X \<and> state s' = state s) \<or>
     (\<exists>t B. q m = t # B \<and> sched s' (q(m := B, OS_RDY := ins_prio (prio s) t (q OS_RDY))) (rmv_dly t ds) X \<and>
        state s' = (state s)(t := READY)))"
proof (cases "q m")
  case Nil
  then have n: "p_lnk s m = NULL"
    using p_lnk_head_NULL [OF schedD(1) [OF S], of m] is_sem_MCB [OF m] by (simp add: is_head_def)
  let ?s' = "if mcb_count s m < mcb_size s m then mbx_inc m (mbx_store m v s) else os_error OS_ERR_MBX_OVF s"
  have "psh_frame s ?s'" by (simp add: psh_frame_trans [of _ "mbx_store m v s"])
  moreover have "sched ?s' q ds X \<and> state ?s' = state s"
    using S sched_cong [of "mbx_inc m (mbx_store m v s)" s X q ds] sched_cong [of "os_error OS_ERR_MBX_OVF s" s X q ds]
    by (simp add: os_error_def mbx_inc_def mbx_store_def Let_def)
  moreover have "rt_mbx_psh m v s = Some ?s'" using n by (simp add: rt_mbx_psh_def)
  ultimately show ?thesis by blast
next
  case (Cons t B)
  then have n: "p_lnk s m \<noteq> NULL"
    using p_lnk_head_NULL [OF schedD(1) [OF S], of m] is_sem_MCB [OF m] by (simp add: is_head_def)
  have tX: "t \<notin> X" using X Cons by auto
  obtain mem s0 where al: "alloc_box v s = (mem, s0)" by fastforce
  have a0: "psh_frame s s0" using psh_frame_steps(3) [of s v] al by simp
  have b0: "p_lnk s0 = p_lnk s" "cb_type s0 = cb_type s" "state s0 = state s" "prio s0 = prio s"
    using al by (auto simp: alloc_box_def split: list.splits)
  have S0: "sched s0 q ds X"
    using S al sched_cong [of s0 s X q ds] by (auto simp: alloc_box_def split: list.splits)
  consider (alloc) "mcb_state s m = 3" "mem \<noteq> 0" | (noalloc) "mcb_state s m = 3" "mem = 0"
    | (send) "mcb_state s m = 2" | (recv) "mcb_state s m = 1"
    | (other) "mcb_state s m \<notin> {1, 2, 3}" by blast
  then show ?thesis
  proof cases
    case alloc
    have m0: "cb_type s0 m = MCB" using m b0 by simp
    have qf: "quiet t s1 (rt_ret_val t mem s1)" for s1 by simp
    obtain s1 s' where w: "rt_get_first m s0 = Some (t, s1)" "links_only s0 s1"
      "mbx_psh_ready t (rt_ret_val t mem s1) = Some s'" "core_only (rt_ret_val t mem s1) s'"
      "sched s' (q(m := B, OS_RDY := ins_prio (prio s0) t (q OS_RDY))) (rmv_dly t ds) X"
      "state s' = (state s0)(t := READY)"
      using psh_wake [OF S0 m0 Cons tX qf] by metis
    have "rt_mbx_psh m v s = Some s'" using n alloc w al by (simp add: rt_mbx_psh_def)
    moreover have "psh_frame s s'"
      by (rule psh_frame_trans [OF a0 core_psh_frame [OF core_only_trans [OF links_only_core [OF w(2)]
            core_only_trans [OF core_only_steps(2) w(4)]]]])
    ultimately show ?thesis using w(5,6) b0 Cons by auto
  next
    case noalloc
    then show ?thesis using n al a0 S0 b0 by (simp add: rt_mbx_psh_def)
  next
    case send
    let ?f = "\<lambda>s. mbx_inc m (mbx_store m (msg (rt_ret_val t 0 s) t) (rt_ret_val t 0 s))"
    have qf: "quiet t s1 (?f s1)" for s1
      by (rule quiet_trans [OF quiet_ret_val(1) quiet_trans [OF quiet_mbx(1) quiet_mbx(2)]])
    obtain s1 s' where w: "rt_get_first m s = Some (t, s1)" "links_only s s1"
      "mbx_psh_ready t (?f s1) = Some s'" "core_only (?f s1) s'"
      "sched s' (q(m := B, OS_RDY := ins_prio (prio s) t (q OS_RDY))) (rmv_dly t ds) X"
      "state s' = (state s)(t := READY)"
      using psh_wake [OF S m Cons tX qf] by metis
    have "rt_mbx_psh m v s = Some s'" using n send w by (simp add: rt_mbx_psh_def)
    moreover have "psh_frame s s'"
      by (rule psh_frame_trans [OF core_psh_frame [OF core_only_trans [OF links_only_core [OF w(2)] core_only_steps(2)]]
            psh_frame_trans [OF psh_frame_steps(1) psh_frame_trans [OF psh_frame_steps(2) core_psh_frame [OF w(4)]]]])
    ultimately show ?thesis using w(5,6) Cons by auto
  next
    case recv
    have qf: "quiet t s1 (rt_ret_val2 t 0x10 v s1)" for s1 by simp
    obtain s1 s' where w: "rt_get_first m s = Some (t, s1)" "links_only s s1"
      "mbx_psh_ready t (rt_ret_val2 t 0x10 v s1) = Some s'" "core_only (rt_ret_val2 t 0x10 v s1) s'"
      "sched s' (q(m := B, OS_RDY := ins_prio (prio s) t (q OS_RDY))) (rmv_dly t ds) X"
      "state s' = (state s)(t := READY)"
      using psh_wake [OF S m Cons tX qf] by metis
    have "rt_mbx_psh m v s = Some s'" using n recv w by (simp add: rt_mbx_psh_def)
    moreover have "psh_frame s s'"
      by (rule core_psh_frame [OF core_only_trans [OF links_only_core [OF w(2)] core_only_trans [OF core_only_steps(3) w(4)]]])
    ultimately show ?thesis using w(5,6) Cons by auto
  next
    case other
    then show ?thesis using n S by (auto simp: rt_mbx_psh_def)
  qed
qed

end
