(* ===== verification/Cmsis_Timer.thy ===== *)
theory Cmsis_Timer
  imports Rtx_Mailbox
begin

text \<open>
  The user timers of \<open>rt_CMSIS.c\<close>: a list of running timers in the order of their times, each
  holding the time from the timer before it.  The tick sends the timers that expire to the queue of
  the timer thread and starts the periodic ones again.
\<close>

definition osOK :: U32 where "osOK = 0"
definition osErrorParameter :: U32 where "osErrorParameter = 0x80"
definition osErrorResource :: U32 where "osErrorResource = 0x81"
definition osErrorTimeoutResource :: U32 where "osErrorTimeoutResource = 0xC1"
definition osErrorISR :: U32 where "osErrorISR = 0x82"
definition osErrorValue :: U32 where "osErrorValue = 0x86"

definition osTimerInvalid :: U8 where "osTimerInvalid = 0"
definition osTimerStopped :: U8 where "osTimerStopped = 1"
definition osTimerRunning :: U8 where "osTimerRunning = 2"

definition osTimerOnce :: U8 where "osTimerOnce = 0"
definition osTimerPeriodic :: U8 where "osTimerPeriodic = 1"

definition os_clockrate :: U32 where "os_clockrate = 1000"

section \<open>The list of timers\<close>

text \<open>The search of \<open>rt_timer_insert\<close>: the timers before and after the place, and the rest of the
  time.\<close>

partial_function (option) timer_search :: "kernel \<Rightarrow> ptr \<Rightarrow> ptr \<Rightarrow> U32 \<Rightarrow> (ptr \<times> ptr \<times> U32) option" where
  "timer_search s prev p tcnt =
     (if p = NULL \<or> tcnt < tmr_tcnt s p then Some (prev, p, tcnt)
      else timer_search s p (tmr_next s p) (tcnt - tmr_tcnt s p))"

definition rt_timer_insert :: "ptr \<Rightarrow> U32 \<Rightarrow> kernel \<Rightarrow> kernel option" where
  "rt_timer_insert pt tcnt s = do {
     (prev, p, tcnt) \<leftarrow> timer_search s NULL (os_timer_head s) tcnt;
     let s = set_tmr_tcnt pt tcnt (set_tmr_next pt p s);
     let s = (if p \<noteq> NULL then set_tmr_tcnt p (tmr_tcnt s p - tmr_tcnt s pt) s else s);
     Some (if prev \<noteq> NULL then set_tmr_next prev pt s else s\<lparr>os_timer_head := pt\<rparr>)
   }"

text \<open>The search of \<open>rt_timer_remove\<close>: the timer before \<open>pt\<close> and \<open>pt\<close>, or \<open>NULL\<close> when it is not in
  the list.\<close>

partial_function (option) timer_find :: "kernel \<Rightarrow> ptr \<Rightarrow> ptr \<Rightarrow> ptr \<Rightarrow> (ptr \<times> ptr) option" where
  "timer_find s pt prev p =
     (if p = NULL \<or> p = pt then Some (prev, p) else timer_find s pt p (tmr_next s p))"

definition rt_timer_remove :: "ptr \<Rightarrow> kernel \<Rightarrow> (int \<times> kernel) option" where
  "rt_timer_remove pt s = do {
     (prev, p) \<leftarrow> timer_find s pt NULL (os_timer_head s);
     if p = NULL then Some (- 1, s)
     else
       let s = (if prev \<noteq> NULL then set_tmr_next prev (tmr_next s pt) s
                else s\<lparr>os_timer_head := tmr_next s pt\<rparr>);
           s = (if tmr_next s pt \<noteq> NULL
                then set_tmr_tcnt (tmr_next s pt) (tmr_tcnt s (tmr_next s pt) + tmr_tcnt s pt) s
                else s)
       in Some (0, s)
   }"

section \<open>The services\<close>

definition rt_id2obj :: "ptr \<Rightarrow> ptr" where
  "rt_id2obj p = (if addr_of p AND 3 \<noteq> 0 then NULL else p)"

text \<open>A timer definition: its handler and its control block; \<open>None\<close> is the null pointer.\<close>

record timer_def =
  td_ptimer :: U32
  td_timer :: ptr
  td_addr :: U32

definition svcTimerCreate :: "timer_def option \<Rightarrow> U8 \<Rightarrow> U32 \<Rightarrow> kernel \<Rightarrow> ptr \<times> kernel" where
  "svcTimerCreate tdef type arg s =
     (case tdef of None \<Rightarrow> (NULL, s)
      | Some td \<Rightarrow>
        let pt = td_timer td in
        if td_ptimer td = 0 \<or> pt = NULL then (NULL, s)
        else if type \<noteq> osTimerOnce \<and> type \<noteq> osTimerPeriodic then (NULL, s)
        else if timer_thread s = NULL then (NULL, s)
        else if tmr_state s pt \<noteq> osTimerInvalid then (NULL, s)
        else (pt, set_tmr_def pt (td_addr td) (set_tmr_arg pt arg (set_tmr_type pt type
               (set_tmr_state pt osTimerStopped (set_tmr_next pt NULL s))))))"

text \<open>The conversion to ticks is done in 64 bits.\<close>

definition timer_ticks :: "U32 \<Rightarrow> U32" where
  "timer_ticks millisec =
     ucast ((1000 * (ucast millisec :: U64) + ucast os_clockrate - 1) div ucast os_clockrate)"

definition svcTimerStart :: "ptr \<Rightarrow> U32 \<Rightarrow> kernel \<Rightarrow> (U32 \<times> kernel) option" where
  "svcTimerStart timer_id millisec s =
     (let pt = rt_id2obj timer_id in
      if pt = NULL then Some (osErrorParameter, s)
      else if millisec = 0 then Some (osErrorValue, s)
      else
        let tcnt = timer_ticks millisec in
        if tmr_state s pt = osTimerRunning
        then do {
          (r, s) \<leftarrow> rt_timer_remove pt s;
          if r \<noteq> 0 then Some (osErrorResource, s)
          else do { s \<leftarrow> rt_timer_insert pt tcnt s; Some (osOK, s) }
        }
        else if tmr_state s pt = osTimerStopped
        then do {
          let s = set_tmr_icnt pt tcnt (set_tmr_state pt osTimerRunning s);
          s \<leftarrow> rt_timer_insert pt tcnt s;
          Some (osOK, s)
        }
        else Some (osErrorResource, s))"

definition svcTimerStop :: "ptr \<Rightarrow> kernel \<Rightarrow> (U32 \<times> kernel) option" where
  "svcTimerStop timer_id s =
     (let pt = rt_id2obj timer_id in
      if pt = NULL then Some (osErrorParameter, s)
      else if tmr_state s pt \<noteq> osTimerRunning then Some (osErrorResource, s)
      else do {
        let s = set_tmr_state pt osTimerStopped s;
        (r, s) \<leftarrow> rt_timer_remove pt s;
        Some (if r \<noteq> 0 then osErrorResource else osOK, s)
      })"

definition svcTimerDelete :: "ptr \<Rightarrow> kernel \<Rightarrow> (U32 \<times> kernel) option" where
  "svcTimerDelete timer_id s =
     (let pt = rt_id2obj timer_id in
      if pt = NULL then Some (osErrorParameter, s)
      else if tmr_state s pt = osTimerRunning
      then do {
        (r, s) \<leftarrow> rt_timer_remove pt s;
        Some (osOK, set_tmr_state pt osTimerInvalid s)
      }
      else if tmr_state s pt = osTimerStopped
      then Some (osOK, set_tmr_state pt osTimerInvalid s)
      else Some (osErrorResource, s))"

text \<open>The callback of a timer: its definition, which holds the handler, and its argument.\<close>

definition svcTimerCall :: "ptr \<Rightarrow> kernel \<Rightarrow> U32 \<times> U32" where
  "svcTimerCall timer_id s =
     (let pt = rt_id2obj timer_id in
      if pt = NULL then (0, 0) else (tmr_def s pt, tmr_arg s pt))"

definition isrMessagePut :: "ptr \<Rightarrow> U32 \<Rightarrow> U32 \<Rightarrow> kernel \<Rightarrow> U32 \<times> kernel" where
  "isrMessagePut queue_id info millisec s =
     (if queue_id = NULL \<or> millisec \<noteq> 0 then (osErrorParameter, s)
      else if cb_type s queue_id \<noteq> MCB then (osErrorParameter, s)
      else if rt_mbx_check queue_id s = 0 then (osErrorResource, s)
      else (osOK, isr_mbx_send queue_id info s))"

section \<open>The tick\<close>

text \<open>The loop of \<open>sysTimerTick\<close>; \<open>p\<close> is the first timer that has not been looked at.\<close>

partial_function (option) timer_expire :: "ptr \<Rightarrow> kernel \<Rightarrow> kernel option" where
  "timer_expire p s =
     (if p \<noteq> NULL \<and> tmr_tcnt s p = 0
      then do {
        let pt = p;
        let p = tmr_next s p;
        let s = s\<lparr>os_timer_head := p\<rparr>;
        let (status, s) = isrMessagePut (timer_queue s) (addr_of pt) 0 s;
        let s = (if status \<noteq> osOK then os_error OS_ERR_TIMER_OVF s else s);
        s \<leftarrow> (if tmr_type s pt = osTimerPeriodic then rt_timer_insert pt (tmr_icnt s pt) s
              else Some (set_tmr_state pt osTimerStopped s));
        timer_expire p s
      }
      else Some s)"

definition sysTimerTick :: "kernel \<Rightarrow> kernel option" where
  "sysTimerTick s =
     (let p = os_timer_head s in
      if p = NULL then Some s
      else timer_expire p (set_tmr_tcnt p (tmr_tcnt s p - 1) s))"

definition sysUserTimerWakeupTime :: "kernel \<Rightarrow> U32" where
  "sysUserTimerWakeupTime s =
     (if os_timer_head s \<noteq> NULL then tmr_tcnt s (os_timer_head s) else 0xFFFFFFFF)"

partial_function (option) sysUserTimerUpdate :: "U32 \<Rightarrow> kernel \<Rightarrow> kernel option" where
  "sysUserTimerUpdate sleep_time s =
     (if os_timer_head s \<noteq> NULL \<and> sleep_time \<noteq> 0
      then let h = os_timer_head s in
        if tmr_tcnt s h \<le> sleep_time
        then Option.bind (sysTimerTick (set_tmr_tcnt h 1 s))
               (sysUserTimerUpdate (sleep_time - tmr_tcnt s h))
        else Some (set_tmr_tcnt h (tmr_tcnt s h - sleep_time) s)
      else Some s)"


section \<open>The list of timers by absolute times\<close>

text \<open>Every timer of the list holds the ticks that pass between the timer before it and its own
  expiry; \<open>ts\<close> are the timers with the ticks until they expire.\<close>

primrec tdeltas :: "(ptr \<Rightarrow> U32) \<Rightarrow> nat \<Rightarrow> (ptr \<times> nat) list \<Rightarrow> bool" where
  "tdeltas d acc [] \<longleftrightarrow> True"
| "tdeltas d acc (x # xs) \<longleftrightarrow> snd x = acc + unat (d (fst x)) \<and> tdeltas d (snd x) xs"

definition timers :: "kernel \<Rightarrow> (ptr \<times> nat) list \<Rightarrow> bool" where
  "timers s ts \<longleftrightarrow>
     chain (tmr_next s) (os_timer_head s) (map fst ts) NULL \<and> distinct (map fst ts) \<and>
     tdeltas (tmr_tcnt s) 0 ts \<and> (\<forall>k\<in>snd ` set ts. k < 2 ^ 32)"

definition ins_tmr :: "'a \<Rightarrow> nat \<Rightarrow> ('a \<times> nat) list \<Rightarrow> ('a \<times> nat) list" where
  "ins_tmr t k ts = takeWhile (\<lambda>x. snd x \<le> k) ts @ (t, k) # dropWhile (\<lambda>x. snd x \<le> k) ts"

lemma tdeltas_append [chain_simps]:
  "tdeltas d acc (xs @ ys) \<longleftrightarrow> tdeltas d acc xs \<and> tdeltas d (last (acc # map snd xs)) ys"
  by (induction xs arbitrary: acc) auto

lemma tdeltas_upd_other [simp]: "t \<notin> set (map fst xs) \<Longrightarrow> tdeltas (d(t := v)) acc xs = tdeltas d acc xs"
  by (induction xs arbitrary: acc) auto

lemma tdeltas_mono: "tdeltas d acc xs \<Longrightarrow> x \<in> set xs \<Longrightarrow> acc \<le> snd x"
  by (induction xs arbitrary: acc) (auto, fastforce)

lemma tdeltas_sorted: "tdeltas d acc xs \<Longrightarrow> sorted (map snd xs)"
  by (induction xs arbitrary: acc) (auto dest: tdeltas_mono)

lemma timer_search_ok:
  assumes "chain (tmr_next s) p (map fst ts) NULL" "tdeltas (tmr_tcnt s) acc ts"
  shows "\<exists>k'. timer_search s prev p k = Some (last (prev # map fst (takeWhile (\<lambda>x. snd x \<le> acc + unat k) ts)),
      case dropWhile (\<lambda>x. snd x \<le> acc + unat k) ts of [] \<Rightarrow> NULL | b # _ \<Rightarrow> fst b, k') \<and>
    last (acc # map snd (takeWhile (\<lambda>x. snd x \<le> acc + unat k) ts)) + unat k' = acc + unat k"
  using assms
proof (induction ts arbitrary: p acc k prev)
  case Nil
  then show ?case by (subst timer_search.simps) simp
next
  case (Cons x xs)
  then have p: "p = fst x" "p \<noteq> NULL" and x: "snd x = acc + unat (tmr_tcnt s p)" by auto
  show ?case
  proof (cases "k < tmr_tcnt s p")
    case True
    then have "\<not> snd x \<le> acc + unat k" using x by (simp add: word_less_nat_alt)
    then show ?thesis using True p by (subst timer_search.simps) simp
  next
    case False
    then have le: "unat (tmr_tcnt s p) \<le> unat k" by (simp add: word_less_nat_alt)
    have k: "snd x + unat (k - tmr_tcnt s p) = acc + unat k" using le x by (simp add: unat_sub_word)
    have "chain (tmr_next s) (tmr_next s p) (map fst xs) NULL" "tdeltas (tmr_tcnt s) (snd x) xs"
      using Cons.prems p by auto
    from Cons.IH [OF this, where k = "k - tmr_tcnt s p" and prev = p] show ?thesis
      using False p le x unfolding k by (subst timer_search.simps) simp
  qed
qed

lemma rt_timer_insert_ok:
  assumes T: "timers s ts" and t: "t \<noteq> NULL" "t \<notin> fst ` set ts"
  obtains s' where "rt_timer_insert t k s = Some s'" "timers s' (ins_tmr t (unat k) ts)"
proof -
  define A where "A = takeWhile (\<lambda>x. snd x \<le> unat k) ts"
  define B where "B = dropWhile (\<lambda>x. snd x \<le> unat k) ts"
  have ts: "ts = A @ B" by (simp add: A_def B_def)
  have ch: "chain (tmr_next s) (os_timer_head s) (map fst A @ map fst B) NULL"
    and dl: "tdeltas (tmr_tcnt s) 0 (A @ B)" and dist: "distinct (map fst A @ map fst B)"
    using T unfolding timers_def ts by (simp_all only: map_append)
  have bd: "\<forall>k\<in>snd ` set (A @ B). k < 2 ^ 32" using T unfolding timers_def ts by blast
  obtain k' where k': "timer_search s NULL (os_timer_head s) k =
      Some (last (NULL # map fst A), case B of [] \<Rightarrow> NULL | b # _ \<Rightarrow> fst b, k')"
      "last (0 # map snd A) + unat k' = unat k"
    using timer_search_ok [of s "os_timer_head s" ts 0 NULL k] T unfolding timers_def A_def B_def
    by (metis add_0)
  define b where "b = (case B of [] \<Rightarrow> NULL | b # _ \<Rightarrow> fst b)"
  define a where "a = last (NULL # map fst A)"
  let ?s1 = "set_tmr_tcnt t k' (set_tmr_next t b s)"
  let ?s2 = "if b \<noteq> NULL then set_tmr_tcnt b (tmr_tcnt s b - k') ?s1 else ?s1"
  let ?s' = "if a \<noteq> NULL then set_tmr_next a t ?s2 else ?s2\<lparr>os_timer_head := t\<rparr>"
  have bt: "b \<noteq> t" and nin: "t \<notin> set (map fst A)" "t \<notin> set (map fst B)"
    using t unfolding b_def ts by (auto split: list.split)
  have ins: "rt_timer_insert t k s = Some ?s'"
    unfolding rt_timer_insert_def k'(1) a_def [symmetric] b_def [symmetric]
    using bt by (simp add: Let_def)
  have bA: "b \<notin> set (map fst A)" if "b \<noteq> NULL"
    using that dist by (cases B) (simp_all add: b_def)
  have tc: "tmr_tcnt ?s' = (if b \<noteq> NULL then (tmr_tcnt s)(t := k', b := tmr_tcnt s b - k') else (tmr_tcnt s)(t := k'))"
    by simp
  have "tdeltas (tmr_tcnt ?s') 0 (A @ (t, unat k) # B)"
  proof -
    have dA: "tdeltas (tmr_tcnt ?s') 0 A" using dl nin(1) bA unfolding tc by (auto simp: chain_simps)
    have dB: "tdeltas (tmr_tcnt ?s') (unat k) B"
    proof (cases B)
      case (Cons y ys)
      have by': "b = fst y" "b \<noteq> NULL" using Cons ch chain_NULL_notin by (fastforce simp: b_def)+
      have k: "unat k < snd y" using Cons hd_dropWhile [of "\<lambda>x. snd x \<le> unat k" ts] by (simp add: B_def)
      have y: "snd y = last (0 # map snd A) + unat (tmr_tcnt s b)" "tdeltas (tmr_tcnt s) (snd y) ys"
        using dl unfolding Cons tdeltas_append tdeltas.simps by'(1) by blast+
      then have "unat (tmr_tcnt s b - k') = snd y - unat k" using k k'(2) by (simp add: unat_sub_word)
      then show ?thesis using y k nin(2) dist by' bt unfolding tc by (simp add: Cons)
    qed simp
    have "tmr_tcnt ?s' t = k'" using bt by simp
    then show ?thesis using dA dB k'(2) by (simp add: chain_simps)
  qed
  moreover have "chain (tmr_next ?s') (os_timer_head ?s') (map fst A @ t # map fst B) NULL"
  proof (cases "A = []")
    case True
    then have "chain (tmr_next s) b (map fst B) NULL" using ch b_def by (cases B) auto
    then show ?thesis using True nin t(1) by (cases "b = NULL") (simp_all add: a_def)
  next
    case False
    define A' where "A' = butlast (map fst A)"
    have A: "map fst A = A' @ [a]" using False by (simp add: A'_def a_def)
    then have "a \<noteq> NULL" "a \<notin> set A'" "a \<notin> set (map fst B)" "a \<noteq> t"
      using ch chain_NULL_notin [OF ch] dist nin by auto
    moreover have "chain (tmr_next s) (os_timer_head s) A' a" "chain (tmr_next s) b (map fst B) NULL"
      using ch A b_def by (auto simp: chain_simps split: list.splits)
    ultimately show ?thesis using nin t(1) A by (cases "b = NULL") (simp_all add: chain_simps)
  qed
  moreover have "distinct (map fst (A @ (t, unat k) # B))" using dist nin by simp
  moreover have "\<forall>k\<in>snd ` set (A @ (t, unat k) # B). k < 2 ^ 32" using bd by auto
  ultimately have "timers ?s' (ins_tmr t (unat k) ts)"
    unfolding timers_def ins_tmr_def A_def [symmetric] B_def [symmetric] by simp
  then show thesis by (rule that [OF ins])
qed

lemma timer_find_ok:
  "chain (tmr_next s) p (map fst A @ t # map fst B) NULL \<Longrightarrow> t \<notin> set (map fst A) \<Longrightarrow>
    timer_find s t prev p = Some (last (prev # map fst A), t)"
proof (induction A arbitrary: p prev)
  case Nil
  then show ?case by (subst timer_find.simps) simp
next
  case (Cons x xs)
  have "timer_find s t p (tmr_next s p) = Some (last (p # map fst xs), t)"
    by (rule Cons.IH) (use Cons.prems in auto)
  moreover have "p = fst x" "p \<noteq> NULL" "p \<noteq> t" using Cons.prems by auto
  ultimately show ?case by (subst timer_find.simps) simp
qed

lemma timer_find_absent:
  "chain (tmr_next s) p xs NULL \<Longrightarrow> t \<notin> set xs \<Longrightarrow> \<exists>c. timer_find s t prev p = Some (c, NULL)"
proof (induction xs arbitrary: p prev)
  case Nil
  then show ?case by (subst timer_find.simps) simp
next
  case (Cons x xs)
  then show ?case by (subst timer_find.simps) auto
qed

lemma rt_timer_remove_absent:
  assumes "timers s ts" "t \<notin> fst ` set ts"
  shows "rt_timer_remove t s = Some (- 1, s)"
proof -
  obtain c where "timer_find s t NULL (os_timer_head s) = Some (c, NULL)"
    using timer_find_absent [of s "os_timer_head s" "map fst ts" t NULL] assms by (auto simp: timers_def)
  then show ?thesis by (simp add: rt_timer_remove_def)
qed

lemma rt_timer_remove_ok:
  assumes T: "timers s ts" and t: "t \<in> fst ` set ts"
  obtains s' where "rt_timer_remove t s = Some (0, s')" "timers s' (rmv_dly t ts)"
proof -
  obtain k A B where ts: "ts = A @ (t, k) # B" using t by (metis imageE prod.collapse split_list)
  have ch: "chain (tmr_next s) (os_timer_head s) (map fst A @ t # map fst B) NULL"
    and dist: "distinct (map fst A @ t # map fst B)" and bd: "\<forall>k\<in>snd ` set (A @ (t, k) # B). k < 2 ^ 32"
    and dl: "tdeltas (tmr_tcnt s) 0 (A @ (t, k) # B)"
    using T unfolding timers_def ts by simp_all
  define a where "a = last (NULL # map fst A)"
  define b where "b = tmr_next s t"
  have t0: "t \<noteq> NULL" using chain_NULL_notin [OF ch] by auto
  have at: "a \<noteq> t" using t0 dist last_in_set [of "map fst A"] by (auto simp: a_def)
  have chB: "chain (tmr_next s) b (map fst B) NULL" using ch by (auto simp: chain_simps b_def)
  have b: "b = (case B of [] \<Rightarrow> NULL | y # _ \<Rightarrow> fst y)" using chain_hd [OF chB] by (cases B) auto
  let ?s1 = "if a \<noteq> NULL then set_tmr_next a b s else s\<lparr>os_timer_head := b\<rparr>"
  let ?s' = "if b \<noteq> NULL then set_tmr_tcnt b (tmr_tcnt s b + tmr_tcnt s t) ?s1 else ?s1"
  have rm: "rt_timer_remove t s = Some (0, ?s')"
  proof -
    have "t \<notin> set (map fst A)" using dist by simp
    from timer_find_ok [OF ch this, of NULL, folded a_def] show ?thesis
      unfolding rt_timer_remove_def b_def using t0 at by (simp add: Let_def)
  qed
  have bA: "b \<notin> set (map fst A)" using dist chain_NULL_notin [OF ch] unfolding b by (cases B) auto
  have "tdeltas (tmr_tcnt ?s') 0 (A @ B)"
  proof (cases B)
    case Nil
    then show ?thesis using dl b by (simp add: chain_simps)
  next
    case (Cons y ys)
    have by': "b = fst y" "b \<noteq> NULL" using Cons ch chain_NULL_notin [OF ch] b by auto
    have y: "k = last (0 # map snd A) + unat (tmr_tcnt s t)" "snd y = k + unat (tmr_tcnt s b)"
        "tdeltas (tmr_tcnt s) (snd y) ys" "tdeltas (tmr_tcnt s) 0 A"
      using dl unfolding Cons tdeltas_append tdeltas.simps by'(1) fst_conv snd_conv by blast+
    have "snd y < 2 ^ 32" using bd Cons by auto
    then have "unat (tmr_tcnt s b + tmr_tcnt s t) = unat (tmr_tcnt s b) + unat (tmr_tcnt s t)"
      by (intro unat_add_u32) (use y in simp)
    then show ?thesis using y by' bA dist unfolding Cons tdeltas_append by simp
  qed
  moreover have "chain (tmr_next ?s') (os_timer_head ?s') (map fst A @ map fst B) NULL"
  proof (cases "A = []")
    case True
    then show ?thesis using chB by (cases "b = NULL") (simp_all add: a_def)
  next
    case False
    define A' where "A' = butlast (map fst A)"
    have A: "map fst A = A' @ [a]" using False by (simp add: A'_def a_def)
    then have "a \<noteq> NULL" "a \<notin> set A'" "a \<notin> set (map fst B)"
      using chain_NULL_notin [OF ch] dist by auto
    moreover have "chain (tmr_next s) (os_timer_head s) A' a" using ch A by (auto simp: chain_simps)
    ultimately show ?thesis using chB A by (cases "b = NULL") (simp_all add: chain_simps)
  qed
  moreover have "rmv_dly t ts = A @ B"
  proof -
    have "filter (\<lambda>x. fst x \<noteq> t) A = A" by (rule filter_True) (use dist in auto)
    moreover have "filter (\<lambda>x. fst x \<noteq> t) B = B" by (rule filter_True) (use dist in auto)
    ultimately show ?thesis by (simp add: ts rmv_dly_def)
  qed
  moreover have "distinct (map fst (A @ B))" "\<forall>k\<in>snd ` set (A @ B). k < 2 ^ 32" using dist bd by auto
  ultimately have "timers ?s' (rmv_dly t ts)" unfolding timers_def by simp
  then show thesis by (rule that [OF rm])
qed


text \<open>A timer that expires leaves the list or, when it is periodic, enters it again.\<close>

definition rearm :: "kernel \<Rightarrow> ptr \<Rightarrow> (ptr \<times> nat) list \<Rightarrow> (ptr \<times> nat) list" where
  "rearm s t ts = (if tmr_type s t = osTimerPeriodic then ins_tmr t (unat (tmr_icnt s t)) ts else ts)"

definition tmr_keep :: "kernel \<Rightarrow> kernel \<Rightarrow> bool" where
  "tmr_keep s s' \<longleftrightarrow> tmr_type s' = tmr_type s \<and> tmr_icnt s' = tmr_icnt s \<and> timer_queue s' = timer_queue s"

lemma timers_cong: "tmr_next s' = tmr_next s \<Longrightarrow> os_timer_head s' = os_timer_head s \<Longrightarrow>
    tmr_tcnt s' = tmr_tcnt s \<Longrightarrow> timers s' ts = timers s ts"
  by (simp add: timers_def)

lemma request_timers:
  "timers (isr_mbx_send m v s) ts = timers s ts" "tmr_keep s (isr_mbx_send m v s)"
  by (rule timers_cong; simp add: isr_mbx_send_def rt_psq_enq_def rt_inc_qi_def rt_psh_req_def os_error_def Let_def)
    (simp add: tmr_keep_def isr_mbx_send_def rt_psq_enq_def rt_inc_qi_def rt_psh_req_def os_error_def Let_def)

lemma isrMessagePut_timers: "isrMessagePut m v to s = (st, s') \<Longrightarrow> timers s' ts = timers s ts \<and> tmr_keep s s'"
  using request_timers by (simp add: isrMessagePut_def tmr_keep_def split: if_splits) blast+

lemma rt_timer_insert_keep: "rt_timer_insert t k s = Some s' \<Longrightarrow> tmr_keep s s'"
  by (auto simp: rt_timer_insert_def tmr_keep_def Let_def bind_eq_Some_conv split: if_splits)

lemma timers_tail: "timers s ((t, 0) # ts) \<Longrightarrow> timers (s\<lparr>os_timer_head := tmr_next s t\<rparr>) ts"
  by (simp add: timers_def)

lemma timers_pos: "timers s ((p, k) # ts) \<Longrightarrow> 0 < k \<Longrightarrow> tmr_tcnt s p \<noteq> 0"
  by (auto simp: timers_def)

lemma ins_tmr_Cons: "k < i \<Longrightarrow> ins_tmr t k ((p, i) # ts) = (t, k) # (p, i) # ts"
  "i \<le> k \<Longrightarrow> ins_tmr t k ((p, i) # ts) = (p, i) # ins_tmr t k ts"
  by (simp_all add: ins_tmr_def)

lemma timers_second: "timers s ((t, j) # (p, k) # ts) \<Longrightarrow> j < k \<Longrightarrow> tmr_tcnt s p \<noteq> 0"
  by (auto simp: timers_def)

lemma set_ins_tmr [simp]: "set (ins_tmr t k ts) = insert (t, k) (set ts)"
proof -
  have "set (takeWhile (\<lambda>x. snd x \<le> k) ts) \<union> set (dropWhile (\<lambda>x. snd x \<le> k) ts) = set ts"
    by (metis set_append takeWhile_dropWhile_id)
  then show ?thesis unfolding ins_tmr_def by auto
qed

lemma ins_tmr_zeros: "\<forall>z\<in>set Z. snd z = 0 \<Longrightarrow> ins_tmr t k (Z @ R) = Z @ ins_tmr t k R"
  by (induction Z) (auto simp: ins_tmr_def)

text \<open>The state of a timer that expires.\<close>

definition after_expiry :: "kernel \<Rightarrow> ptr list \<Rightarrow> ptr \<Rightarrow> U8" where
  "after_expiry s E = (\<lambda>t. if t \<in> set E \<and> tmr_type s t \<noteq> osTimerPeriodic then osTimerStopped else tmr_state s t)"

lemma isrMessagePut_state: "isrMessagePut m v to s = (st, s') \<Longrightarrow> tmr_state s' = tmr_state s"
  by (auto simp: isrMessagePut_def isr_mbx_send_def rt_psq_enq_def rt_inc_qi_def rt_psh_req_def os_error_def Let_def
      split: if_splits)

lemma rt_timer_insert_state: "rt_timer_insert t k s = Some s' \<Longrightarrow> tmr_state s' = tmr_state s"
  by (auto simp: rt_timer_insert_def Let_def bind_eq_Some_conv split: if_splits)

text \<open>How the requests of the tick fill the queue of requests: as long as it and the queue of the timer
  thread have room, nothing is reported to \<open>os_error\<close>.\<close>

definition mbox_ready :: "kernel \<Rightarrow> bool" where
  "mbox_ready s \<longleftrightarrow> timer_queue s \<noteq> NULL \<and> cb_type s (timer_queue s) = MCB \<and> rt_mbx_check (timer_queue s) s \<noteq> 0"

definition posts :: "nat \<Rightarrow> kernel \<Rightarrow> kernel \<Rightarrow> bool" where
  "posts n s s' \<longleftrightarrow> ((0 < n \<longrightarrow> mbox_ready s) \<longrightarrow> psq_first s < psq_size s \<longrightarrow>
     unat (psq_count s) + n \<le> unat (psq_size s) \<longrightarrow> os_err s' = os_err s \<and> mbox_ready s' = mbox_ready s \<and>
     psq_first s' < psq_size s' \<and> unat (psq_count s') = unat (psq_count s) + n \<and> psq_size s' = psq_size s)"

lemma posts_0 [simp]: "posts 0 s s"
  by (simp add: posts_def)

lemma posts_Suc: "posts 1 s s1 \<Longrightarrow> posts n s1 s' \<Longrightarrow> posts (Suc n) s s'"
  by (auto simp: posts_def)

definition post_fields :: "kernel \<Rightarrow> _" where
  "post_fields s = (os_err s, timer_queue s, cb_type s, mcb_size s, mcb_count s, psq_first s, psq_count s, psq_size s)"

lemma posts_same: "post_fields s1 = post_fields s \<Longrightarrow> post_fields s2 = post_fields s' \<Longrightarrow> posts n s1 s2 = posts n s s'"
  by (simp add: posts_def mbox_ready_def rt_mbx_check_def post_fields_def)

lemma post_fields_steps [simp]:
  "post_fields (tmr_next_update f s) = post_fields s" "post_fields (tmr_tcnt_update g s) = post_fields s"
  "post_fields (tmr_state_update h s) = post_fields s" "post_fields (s\<lparr>os_timer_head := p\<rparr>) = post_fields s"
  by (simp_all add: post_fields_def)

lemma timer_insert_post_fields: "rt_timer_insert t k s = Some s' \<Longrightarrow> post_fields s' = post_fields s"
  by (auto simp: rt_timer_insert_def Let_def bind_eq_Some_conv split: if_splits)

lemma inc_qi_room:
  assumes f: "psq_first s < psq_size s" and c: "psq_count s < psq_size s" and e: "rt_inc_qi s = (i, s')"
  shows "i < ucast (psq_size s')" "psq_first s' < psq_size s'" "unat (psq_count s') = unat (psq_count s) + 1"
    "os_err s' = os_err s" "psq_size s' = psq_size s" "mbox_ready s' = mbox_ready s"
proof -
  have cn: "unat (psq_count s) < unat (psq_size s)" "unat (psq_first s) < unat (psq_size s)" "unat (psq_size s) < 256"
    using f c unat_u8 [of "psq_size s"] by (simp_all add: word_less_nat_alt)
  have cl: "(ucast (psq_count s) :: U32) < ucast (psq_size s)" using cn by (simp add: word_less_nat_alt)
  have lt: "unat (psq_first s) + 1 < 4294967296" "unat (psq_count s) + 1 < 256" using cn by linarith+
  define x where "x = (ucast (psq_first s) :: U32) + 1"
  have x: "unat x = unat (psq_first s) + 1" using lt unat_add_u32 [of "ucast (psq_first s)" 1] by (simp add: x_def)
  define y where "y = (if x = ucast (psq_size s) then 0 else x)"
  have "x = ucast (psq_size s) \<longleftrightarrow> unat x = unat (psq_size s)" by (simp add: word_unat_eq_iff)
  then have y: "unat y < unat (psq_size s)" using x cn by (auto simp: y_def)
  then have "unat y < 256" using cn by linarith
  then have yu: "unat (ucast y :: U8) = unat y" by (simp add: unat_ucast_32_8)
  have ct: "unat (ucast (ucast (psq_count s) + 1 :: U32) :: U8) = unat (psq_count s) + 1"
    using cn lt unat_add_u32 [of "ucast (psq_count s)" 1] by (simp add: unat_ucast_32_8)
  have e2: "i = ucast (psq_first s)" "s' = s\<lparr>psq_count := ucast (ucast (psq_count s) + 1 :: U32), psq_first := ucast y\<rparr>"
    using e cl by (auto simp: rt_inc_qi_def Let_def y_def x_def)
  show "i < ucast (psq_size s')" using cn by (simp add: e2 word_less_nat_alt)
  show "psq_first s' < psq_size s'" using y yu by (simp add: e2 word_less_nat_alt)
  show "unat (psq_count s') = unat (psq_count s) + 1" using ct by (simp add: e2)
  show "os_err s' = os_err s" "psq_size s' = psq_size s" "mbox_ready s' = mbox_ready s"
    by (simp_all add: e2 mbox_ready_def rt_mbx_check_def)
qed

lemma isrMessagePut_posts:
  assumes m: "isrMessagePut (timer_queue s) v 0 s = (st, s1)"
  shows "posts 1 s (if st \<noteq> osOK then os_error OS_ERR_TIMER_OVF s1 else s1)"
proof (cases "mbox_ready s \<and> psq_first s < psq_size s \<and> psq_count s < psq_size s")
  case True
  obtain i s0 where e: "rt_inc_qi s = (i, s0)" by fastforce
  have f: "psq_first s < psq_size s" "psq_count s < psq_size s" using True by simp_all
  note r = inc_qi_room [OF f e]
  have p: "rt_psq_enq p a s = s0\<lparr>psq_id := (psq_id s0)(i := p), psq_arg := (psq_arg s0)(i := a)\<rparr>" for p a
    using r(1) by (simp add: rt_psq_enq_def e)
  have "st = osOK" "s1 = rt_psh_req (rt_psq_enq (timer_queue s) v s)"
    using m True by (auto simp: isrMessagePut_def isr_mbx_send_def mbox_ready_def)
  moreover have "mbox_ready s1 = mbox_ready s0"
    using calculation(2) by (simp add: p rt_psh_req_def mbox_ready_def rt_mbx_check_def)
  ultimately show ?thesis using r(2-6) by (simp add: posts_def p rt_psh_req_def)
next
  case False
  then show ?thesis by (auto simp: posts_def word_less_nat_alt)
qed

text \<open>One turn of the loop.\<close>

lemma timer_expire_step:
  assumes T: "timers s ((t, 0) # ts)"
  obtains s' where "timer_expire t s = timer_expire (tmr_next s t) s'" "timers s' (rearm s t ts)"
    "tmr_keep s s'" "tmr_state s' = after_expiry s [t]" "posts 1 s s'"
proof -
  have h: "t \<noteq> NULL" "tmr_tcnt s t = 0" "t \<notin> fst ` set ts" using T by (auto simp: timers_def unat_eq_0)
  let ?s1 = "s\<lparr>os_timer_head := tmr_next s t\<rparr>"
  have T1: "timers ?s1 ts" by (rule timers_tail [OF T])
  obtain st s2 where m: "isrMessagePut (timer_queue s) (addr_of t) 0 ?s1 = (st, s2)" by fastforce
  define s3 where "s3 = (if st \<noteq> osOK then os_error OS_ERR_TIMER_OVF s2 else s2)"
  have T3: "timers s3 ts" and k3: "tmr_keep s s3"
    using isrMessagePut_timers [OF m] T1 timers_cong [of s3 s2 ts]
    by (auto simp: s3_def os_error_def tmr_keep_def)
  have st3: "tmr_state s3 = tmr_state s" using isrMessagePut_state [OF m] by (simp add: s3_def os_error_def)
  have q3: "posts 1 s s3"
    using isrMessagePut_posts [of ?s1 "addr_of t" st s2] m posts_same [of ?s1 s s3 s3 1] by (simp add: s3_def)
  obtain s4 where s4: "(if tmr_type s3 t = osTimerPeriodic then rt_timer_insert t (tmr_icnt s3 t) s3
      else Some (set_tmr_state t osTimerStopped s3)) = Some s4" "timers s4 (rearm s t ts)" "tmr_keep s3 s4"
    "tmr_state s4 = after_expiry s [t]" "post_fields s4 = post_fields s3"
  proof (cases "tmr_type s t = osTimerPeriodic")
    case True
    obtain s4 where "rt_timer_insert t (tmr_icnt s3 t) s3 = Some s4" "timers s4 (ins_tmr t (unat (tmr_icnt s3 t)) ts)"
      using rt_timer_insert_ok [OF T3 h(1,3)] .
    then show thesis using that [of s4] True k3 rt_timer_insert_keep rt_timer_insert_state timer_insert_post_fields st3
      by (simp add: rearm_def tmr_keep_def after_expiry_def fun_eq_iff)
  next
    case False
    then show thesis using that [of "set_tmr_state t osTimerStopped s3"] k3 T3
        timers_cong [of "set_tmr_state t osTimerStopped s3" s3 ts] st3 by (simp add: rearm_def tmr_keep_def after_expiry_def fun_eq_iff)
  qed
  have "timer_expire t s = timer_expire (tmr_next s t) s4"
    using h(1,2) m s4(1) by (subst timer_expire.simps) (auto simp: Let_def simp flip: s3_def split: if_splits)
  moreover have "tmr_keep s s4" using k3 s4(3) by (simp add: tmr_keep_def)
  moreover have "posts 1 s s4" using q3 posts_same [OF refl s4(5), of 1 s] by simp
  ultimately show thesis using that s4(2,4) by blast
qed

text \<open>All timers that expire, and only they, are taken from the front of the list.\<close>

lemma timer_expire_ok:
  assumes "timers s (Z @ R)" "\<forall>z\<in>set Z. snd z = 0" "\<forall>r\<in>set R. 0 < snd r"
    and "\<forall>t\<in>fst ` set Z. tmr_type s t = osTimerPeriodic \<longrightarrow> tmr_icnt s t \<noteq> 0"
    and "p = (case Z @ R of [] \<Rightarrow> NULL | x # _ \<Rightarrow> fst x) \<or> Z = [] \<and> (p = NULL \<or> tmr_tcnt s p \<noteq> 0)"
  shows "\<exists>s'. timer_expire p s = Some s' \<and> timers s' (fold (rearm s) (map fst Z) R) \<and> tmr_keep s s' \<and>
    tmr_state s' = after_expiry s (map fst Z) \<and> posts (length Z) s s'"
  using assms
proof (induction Z arbitrary: s p R)
  case Nil
  have "p = NULL \<or> tmr_tcnt s p \<noteq> 0"
    using Nil timers_pos by (cases R) auto
  then have "timer_expire p s = Some s" by (subst timer_expire.simps) auto
  then show ?case using Nil by (simp add: tmr_keep_def after_expiry_def)
next
  case (Cons z Z)
  obtain t where z: "z = (t, 0)" using Cons.prems(2) by (cases z) auto
  have p: "p = t" using Cons.prems(5) z by simp
  have T: "timers s ((t, 0) # Z @ R)" using Cons.prems(1) z by simp
  obtain s1 where s1: "timer_expire t s = timer_expire (tmr_next s t) s1"
    "timers s1 (rearm s t (Z @ R))" "tmr_keep s s1" "tmr_state s1 = after_expiry s [t]"
    "posts 1 s s1"
    using timer_expire_step [OF T] .
  have ae: "after_expiry s1 (map fst Z) = after_expiry s (t # map fst Z)"
    using s1(3,4) by (auto simp: after_expiry_def tmr_keep_def fun_eq_iff)
  have r: "rearm s1 = rearm s" using s1(3) by (simp add: rearm_def tmr_keep_def fun_eq_iff)
  have z0: "\<forall>z\<in>set Z. snd z = 0" using Cons.prems(2) by simp
  have zr: "rearm s t (Z @ R) = Z @ rearm s t R" by (simp add: rearm_def ins_tmr_zeros [OF z0])
  have pos: "\<forall>r\<in>set (rearm s t R). 0 < snd r"
    using Cons.prems(3,4) z by (auto simp: rearm_def unat_gt_0)
  have nx: "tmr_next s t = (case Z @ R of [] \<Rightarrow> NULL | x # _ \<Rightarrow> fst x)"
    using T by (cases "Z @ R") (auto simp: timers_def)
  have ic: "tmr_type s t = osTimerPeriodic \<Longrightarrow> 0 < unat (tmr_icnt s t)"
    using Cons.prems(4) z by (auto simp: unat_gt_0)
  have "tmr_next s t = (case Z @ rearm s t R of [] \<Rightarrow> NULL | x # _ \<Rightarrow> fst x) \<or>
      Z = [] \<and> (tmr_next s t = NULL \<or> tmr_tcnt s1 (tmr_next s t) \<noteq> 0)"
  proof (cases Z)
    case Nil
    show ?thesis
    proof (cases R)
      case (Cons r R')
      obtain u j where r': "r = (u, j)" by (cases r)
      have j: "0 < j" using Cons.prems r' \<open>R = r # R'\<close> by simp
      show ?thesis
      proof (cases "tmr_type s t = osTimerPeriodic \<and> unat (tmr_icnt s t) < j")
        case True
        then have "timers s1 ((t, unat (tmr_icnt s t)) # (u, j) # R')"
          using s1(2) Nil \<open>R = r # R'\<close> r' by (simp add: rearm_def ins_tmr_Cons)
        then show ?thesis using timers_second True nx Nil \<open>R = r # R'\<close> r' by auto
      next
        case False
        then show ?thesis using nx Nil \<open>R = r # R'\<close> r' by (auto simp: rearm_def ins_tmr_Cons)
      qed
    qed (use nx Nil in simp)
  qed (use nx in simp)
  from Cons.IH [OF s1(2) [unfolded zr] z0 pos _ this] Cons.prems(4) s1(3)
  obtain s' where s': "timer_expire (tmr_next s t) s1 = Some s'" "timers s' (fold (rearm s) (map fst Z) (rearm s t R))"
    "tmr_keep s1 s'" "tmr_state s' = after_expiry s (t # map fst Z)" "posts (length Z) s1 s'"
    by (auto simp: r ae tmr_keep_def)
  have "posts (Suc (length Z)) s s'" by (rule posts_Suc [OF s1(5) s'(5)])
  then show ?case unfolding p s1(1) using s' s1(3) by (simp add: z tmr_keep_def)
qed


lemma tdeltas_tick: "tdeltas d (Suc acc) xs \<Longrightarrow> tdeltas d acc (tick_ds xs)"
  by (induction xs arbitrary: acc) (force simp: tick_ds_def)+

lemma sorted_dropWhile_0: "sorted (map snd ys) \<Longrightarrow> r \<in> set (dropWhile (\<lambda>x. snd x = 0) ys) \<Longrightarrow> 0 < (snd r :: nat)"
  by (induction ys) (force split: if_splits)+

lemma sysTimerTick_posts:
  assumes T: "timers s ts" and pos: "\<forall>x\<in>set ts. 0 < snd x"
    and per: "\<forall>t\<in>set (expired ts). tmr_type s t = osTimerPeriodic \<longrightarrow> tmr_icnt s t \<noteq> 0"
  obtains s' where "sysTimerTick s = Some s'" "timers s' (fold (rearm s) (expired ts) (kept ts))"
    "tmr_keep s s'" "tmr_state s' = after_expiry s (expired ts)" "posts (length (expired ts)) s s'"
proof (cases ts)
  case Nil
  then have "os_timer_head s = NULL" using T by (simp add: timers_def)
  then show thesis using that [of s] T Nil
    by (simp add: sysTimerTick_def expired_def kept_def tick_ds_def tmr_keep_def after_expiry_def)
next
  case (Cons x xs)
  obtain p k where x: "x = (p, k)" by (cases x)
  define s1 where "s1 = set_tmr_tcnt p (tmr_tcnt s p - 1) s"
  have p: "os_timer_head s = p" "p \<noteq> NULL" "unat (tmr_tcnt s p) = k" "0 < k" "p \<notin> set (map fst xs)"
    "tdeltas (tmr_tcnt s) k xs" using T pos Cons x by (auto simp: timers_def)
  have u: "unat (tmr_tcnt s p - 1) = k - 1" using p by (subst unat_sub_word) auto
  have ft: "map fst (tick_ds ys) = map fst ys" for ys :: "(ptr \<times> nat) list" by (simp add: tick_ds_def)
  have "tdeltas (tmr_tcnt s) (k - 1) (tick_ds xs)" using tdeltas_tick [of "tmr_tcnt s" "k - 1" xs] p by simp
  then have "tdeltas (tmr_tcnt s1) 0 (tick_ds ts)"
    using u p(5) ft [of xs] by (simp add: Cons x s1_def tick_ds_def image_iff)
  moreover have "\<forall>k\<in>snd ` set (tick_ds ts). k < 2 ^ 32"
    using T by (fastforce simp: timers_def tick_ds_def)
  ultimately have T1: "timers s1 (tick_ds ts)"
    using T by (simp add: timers_def ft s1_def)
  let ?Z = "takeWhile (\<lambda>x. snd x = 0) (tick_ds ts)" and ?R = "dropWhile (\<lambda>x. snd x = 0) (tick_ds ts)"
  note sp = tick_ds_split [OF pos]
  have Z0: "\<forall>z\<in>set ?Z. snd z = 0" by (auto dest: set_takeWhileD)
  have "sorted (map snd (tick_ds ts))" using T1 tdeltas_sorted by (auto simp: timers_def)
  then have R0: "\<forall>r\<in>set ?R. 0 < snd r"
    using sorted_dropWhile_0 by blast
  have tk: "tmr_type s1 = tmr_type s" "tmr_icnt s1 = tmr_icnt s" "timer_queue s1 = timer_queue s"
    by (simp_all add: s1_def)
  have ex: "\<exists>s'. timer_expire p s1 = Some s' \<and> timers s' (fold (rearm s1) (map fst ?Z) ?R) \<and> tmr_keep s1 s' \<and>
      tmr_state s' = after_expiry s1 (map fst ?Z) \<and> posts (length ?Z) s1 s'"
  proof (rule timer_expire_ok [OF _ Z0 R0])
    show "timers s1 (?Z @ ?R)" using T1 by simp
    show "\<forall>t\<in>fst ` set ?Z. tmr_type s1 t = osTimerPeriodic \<longrightarrow> tmr_icnt s1 t \<noteq> 0"
      using per sp(1) tk by (metis image_set)
    have "?Z @ ?R = (p, k - 1) # tick_ds xs" by (simp add: Cons x tick_ds_def)
    then show "p = (case ?Z @ ?R of [] \<Rightarrow> NULL | x # _ \<Rightarrow> fst x) \<or> ?Z = [] \<and> (p = NULL \<or> tmr_tcnt s1 p \<noteq> 0)"
      by simp
  qed
  have "after_expiry s1 = after_expiry s" by (simp add: after_expiry_def s1_def fun_eq_iff)
  moreover have "rearm s1 = rearm s" by (simp add: rearm_def tk fun_eq_iff)
  moreover have "posts n s1 = posts n s" for n
    by (rule ext, rule posts_same [OF _ refl]) (simp add: s1_def)
  moreover have "length ?Z = length (expired ts)" using sp(1) by (metis length_map)
  ultimately show thesis using ex that p(1,2) tk unfolding sp
    by (auto simp: sysTimerTick_def Let_def tmr_keep_def simp flip: s1_def)
qed

lemma sysTimerTick_ok:
  assumes "timers s ts" "\<forall>x\<in>set ts. 0 < snd x"
    "\<forall>t\<in>set (expired ts). tmr_type s t = osTimerPeriodic \<longrightarrow> tmr_icnt s t \<noteq> 0"
  obtains s' where "sysTimerTick s = Some s'" "timers s' (fold (rearm s) (expired ts) (kept ts))"
    "tmr_keep s s'" "tmr_state s' = after_expiry s (expired ts)"
  by (rule sysTimerTick_posts [OF assms]) (rule that)

end
