(* ===== verification/Rtx_Event.thy ===== *)
theory Rtx_Event
  imports Rtx_Mailbox
begin

text \<open>
  Event flags (\<open>rt_Event.c\<close>): 16 flags per task, which the task waits for, all or any of them, and
  the delays of a task (\<open>rt_Time.c\<close>).
\<close>

section \<open>Events\<close>

definition rt_evt_wait :: "U16 \<Rightarrow> U16 \<Rightarrow> bool \<Rightarrow> kernel \<Rightarrow> (U32 \<times> kernel) option" where
  "rt_evt_wait wait_flags timeout and_wait s =
     (let ev = events s (run s) in
      if and_wait \<and> ev AND wait_flags = wait_flags
      then Some (OS_R_EVT, set_events (run s) (ev AND NOT wait_flags) s)
      else if \<not> and_wait \<and> ev AND wait_flags \<noteq> 0
      then Some (OS_R_EVT, set_events (run s) (ev AND NOT wait_flags)
             (set_waits (run s) (ev AND wait_flags) s))
      else do {
        let s = set_waits (run s) wait_flags s;
        s \<leftarrow> rt_block timeout (if and_wait then WAIT_AND else WAIT_OR) s;
        Some (OS_R_TMO, s)
      })"

text \<open>The part that \<open>rt_evt_set\<close> and \<open>rt_evt_psh\<close> have in common: the flags are set and, when the
  task waits for them, they are cleared and the task leaves the delay list (the code after the
  labels \<open>wkup\<close> and \<open>rdy\<close>); the result says whether the task is woken up.\<close>

definition evt_wkup :: "ptr \<Rightarrow> U16 \<Rightarrow> kernel \<Rightarrow> kernel" where
  "evt_wkup p event_flags s =
     (let s = set_events p (events s p AND NOT event_flags) s;
          s = rt_rmv_dly p s;
          s = set_state p READY s
      in rt_ret_val2 p 0x08 (ucast (waits s p)) s)"

definition evt_signal :: "ptr \<Rightarrow> U16 \<Rightarrow> kernel \<Rightarrow> bool \<times> kernel" where
  "evt_signal p event_flags s =
     (let s = set_events p (events s p OR event_flags) s in
      if state s p = WAIT_AND \<and> events s p AND waits s p = waits s p
      then (True, evt_wkup p (waits s p) s)
      else if state s p = WAIT_OR \<and> events s p AND waits s p \<noteq> 0
      then (True, evt_wkup p (waits s p) (set_waits p (waits s p AND events s p) s))
      else (False, s))"

definition rt_evt_set :: "U16 \<Rightarrow> U32 \<Rightarrow> kernel \<Rightarrow> kernel option" where
  "rt_evt_set event_flags tid s =
     (let p = os_active_TCB s ! (unat tid - 1) in
      if p = NULL then Some s
      else let (wkup, s) = evt_signal p event_flags s
        in if wkup then rt_dispatch p s else Some s)"

definition rt_evt_clr :: "U16 \<Rightarrow> U32 \<Rightarrow> kernel \<Rightarrow> kernel" where
  "rt_evt_clr clear_flags tid s =
     (let p = os_active_TCB s ! (unat tid - 1) in
      if p = NULL then s else set_events p (events s p AND NOT clear_flags) s)"

definition isr_evt_set :: "U16 \<Rightarrow> U32 \<Rightarrow> kernel \<Rightarrow> kernel" where
  "isr_evt_set event_flags tid s =
     (let p = os_active_TCB s ! (unat tid - 1) in
      if p = NULL then s else rt_psh_req (rt_psq_enq p (ucast event_flags) s))"

definition rt_evt_get :: "kernel \<Rightarrow> U16" where
  "rt_evt_get s = waits s (run s)"

definition rt_evt_psh :: "ptr \<Rightarrow> U16 \<Rightarrow> kernel \<Rightarrow> kernel option" where
  "rt_evt_psh p set_flags s =
     (let (wkup, s) = evt_signal p set_flags s
      in if wkup then rt_put_prio OS_RDY p s else Some s)"

section \<open>Delays\<close>

definition rt_time_get :: "kernel \<Rightarrow> U32" where
  "rt_time_get s = os_time s"

definition rt_dly_wait :: "U16 \<Rightarrow> kernel \<Rightarrow> kernel option" where
  "rt_dly_wait delay_time s = rt_block delay_time WAIT_DLY s"

definition rt_itv_set :: "U16 \<Rightarrow> kernel \<Rightarrow> kernel" where
  "rt_itv_set itv s =
     (let s = set_interval_time (run s) itv s
      in set_delta_time (run s) (itv + ucast (os_time s)) s)"

definition rt_itv_wait :: "kernel \<Rightarrow> kernel option" where
  "rt_itv_wait s =
     (let delta = delta_time s (run s) - ucast (os_time s);
          s = set_delta_time (run s) (delta_time s (run s) + interval_time s (run s)) s
      in if delta AND 0x8000 = 0 then rt_block delta WAIT_ITV s else Some s)"


section \<open>What the operations do\<close>

lemma sched_float:
  assumes S: "sched s q ds X" and t: "is_task s t" "state s t \<noteq> READY" "\<not> waiting (state s t)"
  shows "sched s q ds (insert t X)" "t \<notin> set (q h)"
proof -
  note D = schedD [OF S]
  have nq: "t \<notin> set (q h)" for h
    using D(5) [of t] D(6) [OF t(1)] D(7) [OF t(1)] t by (cases "h = OS_RDY") blast+
  then show "t \<notin> set (q h)" .
  show "sched s q ds (insert t X)" by (rule schedI) (use D nq in auto)
qed

definition evt_wakes :: "kernel \<Rightarrow> ptr \<Rightarrow> U16 \<Rightarrow> bool" where
  "evt_wakes s t f \<longleftrightarrow>
     (state s t = WAIT_AND \<and> (events s t OR f) AND waits s t = waits s t) \<or>
     (state s t = WAIT_OR \<and> (events s t OR f) AND waits s t \<noteq> 0)"

lemma evt_signal_stays: "\<not> evt_wakes s t f \<Longrightarrow> evt_signal t f s = (False, set_events t (events s t OR f) s)"
  by (simp add: evt_signal_def evt_wakes_def Let_def)

lemma evt_signal_wakes:
  assumes S: "sched s q ds X" and t: "is_task s t" and w: "evt_wakes s t f"
  obtains s' where "evt_signal t f s = (True, s')" "psh_frame s s'" "new_tsk s' = new_tsk s"
    "sched s' q (rmv_dly t ds) (insert t X)" "state s' = (state s)(t := READY)"
    "\<And>h. t \<notin> set (q h)" "events s' = (events s)(t := (events s t OR f) AND NOT (waits s t))"
    "ret0 s' = (ret0 s)(t := 8)"
    "ret1 s' = (ret1 s)(t := ucast (if state s t = WAIT_AND then waits s t
       else waits s t AND (events s t OR f)))"
proof -
  have st: "state s t \<noteq> READY" "\<not> waiting (state s t)" using w by (auto simp: evt_wakes_def waiting_def)
  note fl = sched_float [OF S t st]
  define ev where "ev = events s t OR f"
  define wt where "wt = (if state s t = WAIT_AND then waits s t else waits s t AND ev)"
  define s0 where "s0 = (if state s t = WAIT_AND then set_events t ev s
    else set_waits t wt (set_events t ev s))"
  define s1 where "s1 = set_events t (ev AND NOT (waits s t)) s0"
  have e: "evt_signal t f s = (True, evt_wkup t (waits s t) s0)"
    using w by (auto simp: evt_signal_def evt_wakes_def s0_def ev_def wt_def Let_def)
  have s1f: "waits s1 t = wt" "state s1 = state s" "ret0 s1 = ret0 s" "ret1 s1 = ret1 s" "psh_frame s s1"
    "new_tsk s1 = new_tsk s" "events s1 = (events s)(t := ev AND NOT (waits s t))"
    by (simp_all add: s1_def s0_def wt_def psh_frame_def)
  have S1: "sched s1 q ds (insert t X)"
    using fl(1) sched_cong [of s1 s "insert t X" q ds] by (simp add: s1_def s0_def)
  have t1: "is_task s1 t" using psh_frame_task [OF s1f(5)] t by simp
  note d = sched_rmv_dly [OF S1 _ t1]
  let ?s2 = "rt_rmv_dly t s1"
  let ?s' = "rt_ret_val2 t 8 (ucast wt) (set_state t READY ?s2)"
  have f2: "waits ?s2 = waits s1" "ret0 ?s2 = ret0 s1" "ret1 ?s2 = ret1 s1" "state ?s2 = state s1"
    "new_tsk ?s2 = new_tsk s1" "events ?s2 = events s1"
    using d(1) unfolding dly_only_def by fastforce+
  have "events s0 t = ev" by (simp add: s0_def)
  then have "evt_wkup t (waits s t) s0 = ?s'" using f2(1) s1f(1) by (simp add: evt_wkup_def Let_def s1_def)
  moreover have "psh_frame s ?s'"
    by (rule psh_frame_trans [OF s1f(5) core_psh_frame [OF core_only_trans [OF dly_only_core [OF d(1)]
          core_only_trans [OF core_only_steps(1) core_only_steps(3)]]]]) simp
  moreover have "sched ?s' q (rmv_dly t ds) (insert t X)"
    using d(2) quiet_sched [OF quiet_ret_val(2), of t "insert t X"] by simp
  ultimately show thesis
    using that [of ?s'] e fl(2) s1f f2 by (simp add: rt_ret_val2_def ev_def wt_def)
qed

lemma rt_evt_psh_sched:
  assumes S: "sched s q ds X" and t: "is_task s t" "t \<notin> X"
  shows "\<exists>s'. rt_evt_psh t f s = Some s' \<and> psh_frame s s' \<and>
    ((sched s' q ds X \<and> state s' = state s) \<or>
     (sched s' (q(OS_RDY := ins_prio (prio s) t (q OS_RDY))) (rmv_dly t ds) X \<and>
        state s' = (state s)(t := READY)))"
proof (cases "evt_wakes s t f")
  case False
  have "sched (set_events t (events s t OR f) s) q ds X"
    using S sched_cong [of "set_events t (events s t OR f) s" s X q ds] by simp
  then show ?thesis using evt_signal_stays [OF False] by (simp add: rt_evt_psh_def)
next
  case True
  obtain s1 where e: "evt_signal t f s = (True, s1)" "psh_frame s s1"
    "sched s1 q (rmv_dly t ds) (insert t X)" "state s1 = (state s)(t := READY)"
    using evt_signal_wakes [OF S t(1) True] by metis
  have t1: "is_task s1 t" using psh_frame_task [OF e(2)] t by simp
  obtain s2 where p: "rt_put_prio OS_RDY t s1 = Some s2" "links_only s1 s2"
    "sched s2 (q(OS_RDY := ins_prio (prio s1) t (q OS_RDY))) (rmv_dly t ds) (insert t X - {t})"
    using sched_put_prio_rdy [OF e(3) _ t1] e(4) by auto
  have "insert t X - {t} = X" using t(2) by auto
  moreover have "psh_frame s s2" by (rule psh_frame_trans [OF e(2) core_psh_frame [OF links_only_core [OF p(2)]]])
  moreover have "prio s1 = prio s" using e(2) by (simp add: psh_frame_def)
  ultimately show ?thesis using e(1,4) p links_only_fields(5) [OF p(2)] by (simp add: rt_evt_psh_def)
qed

lemma rt_evt_wait_block:
  assumes K: "kinv s q ds" and r: "run s \<noteq> OS_IDLE" and to: "timeout \<noteq> 0"
    and w: "if and_wait then events s (run s) AND f \<noteq> f else events s (run s) AND f = 0"
  obtains s' where "rt_evt_wait f timeout and_wait s = Some (OS_R_TMO, s')"
    "kinv (switch_context s') (q(OS_RDY := tl (q OS_RDY))) (blocked_dly (run s) timeout ds)"
    "waits s' (run s) = f" "state s' (run s) = (if and_wait then WAIT_AND else WAIT_OR)"
    "events s' = events s" "new_tsk s' = hd (q OS_RDY)"
proof -
  let ?s = "set_waits (run s) f s" and ?st = "if and_wait then WAIT_AND else WAIT_OR"
  have K1: "kinv ?s q ds" using K kinv_cong [of ?s s] by simp
  obtain s' where b: "rt_block timeout ?st ?s = Some s'" "core_only ?s s'"
    "kinv (switch_context s') (q(OS_RDY := tl (q OS_RDY))) (blocked_dly (run ?s) timeout ds)"
    "new_tsk s' = hd (q OS_RDY)" "state s' = (state ?s)(run ?s := ?st, hd (q OS_RDY) := RUNNING)"
    by (rule rt_block_kinv [OF K1 _ _ _ to, of ?st]) (use r in \<open>auto simp: blocked_def waiting_def\<close>)
  have "rt_evt_wait f timeout and_wait s = Some (OS_R_TMO, s')"
    using w b(1) by (auto simp: rt_evt_wait_def Let_def split: if_splits)
  moreover have "hd (q OS_RDY) \<noteq> run s"
    using kinv_rdy_nonempty [OF K r] kinvD(10) [OF K, of OS_RDY] by auto
  ultimately show thesis using that b core_only_fields [OF b(2)] by simp
qed

lemma rt_evt_set_wake:
  assumes K: "kinv s q ds" and t: "os_active_TCB s ! (unat tid - 1) = t" "is_task s t" and w: "evt_wakes s t f"
  obtains s' where "rt_evt_set f tid s = Some s'"
    "kinv (switch_context s') (dispatched s t q) (rmv_dly t ds)"
    "new_tsk s' = (if prio s (run s) < prio s t then t else run s)"
    "events s' t = (events s t OR f) AND NOT (waits s t)" "ret0 s' t = 8"
    "ret1 s' t = ucast (if state s t = WAIT_AND then waits s t else waits s t AND (events s t OR f))"
proof -
  note k = kinvD [OF K]
  obtain s1 where e: "evt_signal t f s = (True, s1)" "psh_frame s s1" "new_tsk s1 = new_tsk s"
    "sched s1 q (rmv_dly t ds) (insert t {run s})" "state s1 = (state s)(t := READY)"
    "events s1 = (events s)(t := (events s t OR f) AND NOT (waits s t))"
    "ret0 s1 = (ret0 s)(t := 8)"
    "ret1 s1 = (ret1 s)(t := ucast (if state s t = WAIT_AND then waits s t
       else waits s t AND (events s t OR f)))"
    using evt_signal_wakes [OF k(1) t(2) w] by metis
  have tr: "t \<noteq> run s" using w k(4) by (auto simp: evt_wakes_def)
  have f1: "run s1 = run s" "prio s1 = prio s" "is_task s1 = is_task s" "tasks_ok s1 = tasks_ok s"
    using e(2) psh_frame_task [OF e(2)] by (simp_all add: psh_frame_def)
  have S1: "sched s1 q (rmv_dly t ds) {run s1, t}" using e(4) f1 by (simp add: insert_commute)
  obtain s' where d: "rt_dispatch t s1 = Some s'" "core_only s1 s'"
    "new_tsk s' = (if prio s1 (run s1) < prio s1 t then t else run s1)"
    "kinv (switch_context s') (dispatched s1 t q) (rmv_dly t ds)" "ret0 s' = ret0 s1" "ret1 s' = ret1 s1"
    by (rule rt_dispatch_task [OF S1]) (use k t tr f1 e in auto)
  have "dispatched s1 t q = dispatched s t q" by (simp add: dispatched_def f1)
  moreover have "t \<noteq> NULL" using t(2) by (simp add: is_task_def)
  ultimately show thesis
    using that [of s'] t(1) e d f1 core_only_fields [OF d(2)] by (simp add: rt_evt_set_def)
qed

lemma rt_evt_set_stay:
  assumes K: "kinv s q ds" and t: "os_active_TCB s ! (unat tid - 1) = t" and w: "t = NULL \<or> \<not> evt_wakes s t f"
  shows "rt_evt_set f tid s = Some (if t = NULL then s else set_events t (events s t OR f) s)"
    "kinv (switch_context (if t = NULL then s else set_events t (events s t OR f) s)) q ds"
proof -
  show "rt_evt_set f tid s = Some (if t = NULL then s else set_events t (events s t OR f) s)"
    using t w evt_signal_stays [of s t f] by (auto simp: rt_evt_set_def)
  have "kinv (set_events t (events s t OR f) s) q ds"
    using K kinv_cong [of "set_events t (events s t OR f) s" s] by simp
  then show "kinv (switch_context (if t = NULL then s else set_events t (events s t OR f) s)) q ds"
    using kinv_switch_same K by simp
qed


lemma rt_evt_wait_ready:
  assumes K: "kinv s q ds"
    and w: "if and_wait then events s (run s) AND f = f else events s (run s) AND f \<noteq> 0"
  obtains s' where "rt_evt_wait f timeout and_wait s = Some (OS_R_EVT, s')"
    "kinv (switch_context s') q ds" "run s' = run s"
    "events s' (run s) = events s (run s) AND NOT f"
    "waits s' (run s) = (if and_wait then waits s (run s) else events s (run s) AND f)"
proof -
  let ?s = "set_events (run s) (events s (run s) AND NOT f)
    (if and_wait then s else set_waits (run s) (events s (run s) AND f) s)"
  have "kinv ?s q ds" using K kinv_cong [of ?s s] by simp
  then have "kinv (switch_context ?s) q ds" using kinv_switch_same by simp
  moreover have "rt_evt_wait f timeout and_wait s = Some (OS_R_EVT, ?s)"
    using w by (auto simp: rt_evt_wait_def Let_def)
  ultimately show thesis using that by simp
qed

lemma rt_dly_wait_block:
  assumes K: "kinv s q ds" and r: "run s \<noteq> OS_IDLE" and to: "timeout \<noteq> 0"
  obtains s' where "rt_dly_wait timeout s = Some s'"
    "kinv (switch_context s') (q(OS_RDY := tl (q OS_RDY))) (blocked_dly (run s) timeout ds)"
    "new_tsk s' = hd (q OS_RDY)" "state s' = (state s)(run s := WAIT_DLY, hd (q OS_RDY) := RUNNING)"
proof -
  obtain s' where b: "rt_block timeout WAIT_DLY s = Some s'" "core_only s s'"
    "kinv (switch_context s') (q(OS_RDY := tl (q OS_RDY))) (blocked_dly (run s) timeout ds)"
    "new_tsk s' = hd (q OS_RDY)" "state s' = (state s)(run s := WAIT_DLY, hd (q OS_RDY) := RUNNING)"
    by (rule rt_block_kinv [OF K _ _ _ to, of WAIT_DLY]) (use r in \<open>auto simp: blocked_def waiting_def\<close>)
  then show thesis using that by (simp add: rt_dly_wait_def)
qed

end
