(* ===== verification/Rtx_Mutex.thy ===== *)
theory Rtx_Mutex
  imports Rtx_Sem
begin

text \<open>
  Mutexes (\<open>rt_Mutex.c\<close>): a nesting level, an owner and a list of waiting tasks.  A task keeps the
  mutexes it owns in a list through \<open>p_mlnk\<close>, and runs with the highest priority among its own and
  those of the first waiters of its mutexes (priority inheritance).
\<close>

section \<open>The operations\<close>

definition rt_mut_init :: "ptr \<Rightarrow> kernel \<Rightarrow> kernel" where
  "rt_mut_init p_MCB s =
     set_p_mlnk p_MCB NULL (set_owner p_MCB NULL (set_p_lnk p_MCB NULL
       (set_level p_MCB 0 (set_cb_type p_MCB MUCB s))))"

text \<open>The search of \<open>rt_mut_delete\<close> and \<open>rt_mut_release\<close> for the mutex that links to \<open>p_MCB\<close>, and
  the removal of \<open>p_MCB\<close> from the list of its owner.\<close>

partial_function (option) mlnk_search :: "kernel \<Rightarrow> ptr \<Rightarrow> ptr \<Rightarrow> ptr option" where
  "mlnk_search s p_MCB p =
     (if p = NULL then Some NULL
      else if p_mlnk s p = p_MCB then Some p
      else mlnk_search s p_MCB (p_mlnk s p))"

definition mut_unlink :: "ptr \<Rightarrow> ptr \<Rightarrow> kernel \<Rightarrow> kernel option" where
  "mut_unlink p_TCB p_MCB s =
     (if p_mlnk s p_TCB = p_MCB then Some (set_p_mlnk p_TCB (p_mlnk s p_MCB) s)
      else do {
        p \<leftarrow> mlnk_search s p_MCB (p_mlnk s p_TCB);
        Some (if p \<noteq> NULL then set_p_mlnk p (p_mlnk s p_MCB) s else s)
      })"

text \<open>The priority that a task inherits through its mutexes.\<close>

partial_function (option) mut_prio :: "kernel \<Rightarrow> ptr \<Rightarrow> U8 \<Rightarrow> U8 option" where
  "mut_prio s p pr =
     (if p = NULL then Some pr
      else mut_prio s (p_mlnk s p)
        (if p_lnk s p \<noteq> NULL \<and> pr < prio s (p_lnk s p) then prio s (p_lnk s p) else pr))"

text \<open>The first part of \<open>rt_mut_delete\<close>: an owned mutex leaves the list of its owner, whose
  priority is restored.\<close>

definition mut_disown :: "ptr \<Rightarrow> kernel \<Rightarrow> kernel option" where
  "mut_disown p_MCB s =
     (if level s p_MCB \<noteq> 0
      then do {
        let p_TCB = owner s p_MCB;
        s \<leftarrow> mut_unlink p_TCB p_MCB s;
        pr \<leftarrow> mut_prio s (p_mlnk s p_TCB) (prio_base s p_TCB);
        if prio s p_TCB \<noteq> pr
        then let s = set_prio p_TCB pr s
             in if p_TCB \<noteq> run s then rt_resort_prio p_TCB s else Some s
        else Some s
      }
      else Some s)"

definition rt_mut_delete :: "ptr \<Rightarrow> kernel \<Rightarrow> (U32 \<times> kernel) option" where
  "rt_mut_delete p_MCB s = do {
     s \<leftarrow> mut_disown p_MCB s;
     s \<leftarrow> flush_waiters p_MCB s;
     s \<leftarrow> preempt_ready s;
     Some (OS_R_OK, set_cb_type p_MCB 0 s)
   }"

text \<open>The part of \<open>rt_mut_release\<close> for a mutex that a task waits for.\<close>

definition mut_hand_over :: "ptr \<Rightarrow> kernel \<Rightarrow> kernel option" where
  "mut_hand_over p_MCB s =
  do {
    (p_TCB, s) \<leftarrow> rt_get_first p_MCB s;
    let s = rt_ret_val p_TCB 0 s;
    let s = rt_rmv_dly p_TCB s;
    let s = set_owner p_MCB p_TCB (set_level p_MCB 1 s);
    let s = set_p_mlnk p_MCB (p_mlnk s p_TCB) s;
    let s = set_p_mlnk p_TCB p_MCB s;
    rp \<leftarrow> rt_rdy_prio s;
    if rp \<le> prio s (run s) then rt_dispatch p_TCB s
    else do {
      s \<leftarrow> rt_put_prio OS_RDY (run s) s;
      s \<leftarrow> rt_put_prio OS_RDY p_TCB s;
      rt_dispatch NULL (set_state p_TCB READY (set_state (run s) READY s))
    }
  }"

definition rt_mut_release :: "ptr \<Rightarrow> kernel \<Rightarrow> (U32 \<times> kernel) option" where
  "rt_mut_release p_MCB s =
     (if level s p_MCB = 0 \<or> owner s p_MCB \<noteq> run s then Some (OS_R_NOK, s)
      else let s = set_level p_MCB (level s p_MCB - 1) s in
        if level s p_MCB \<noteq> 0 then Some (OS_R_OK, s)
        else do {
          s \<leftarrow> mut_unlink (run s) p_MCB s;
          pr \<leftarrow> mut_prio s (p_mlnk s (run s)) (prio_base s (run s));
          let s = set_prio (run s) pr s;
          s \<leftarrow> (if p_lnk s p_MCB \<noteq> NULL
            then mut_hand_over p_MCB s
            else do {
              rp \<leftarrow> rt_rdy_prio s;
              if prio s (run s) < rp
              then do {
                s \<leftarrow> rt_put_prio OS_RDY (run s) s;
                rt_dispatch NULL (set_state (run s) READY s)
              }
              else Some s
            });
          Some (OS_R_OK, s)
        })"

definition rt_mut_wait :: "ptr \<Rightarrow> U16 \<Rightarrow> kernel \<Rightarrow> (U32 \<times> kernel) option" where
  "rt_mut_wait p_MCB timeout s =
     (if level s p_MCB = 0
      then let s = set_owner p_MCB (run s) s;
               s = set_p_mlnk p_MCB (p_mlnk s (run s)) s;
               s = set_p_mlnk (run s) p_MCB s
           in Some (OS_R_OK, set_level p_MCB (level s p_MCB + 1) s)
      else if owner s p_MCB = run s then Some (OS_R_OK, set_level p_MCB (level s p_MCB + 1) s)
      else if timeout = 0 then Some (OS_R_TMO, s)
      else do {
        s \<leftarrow> (if prio s (owner s p_MCB) < prio s (run s)
              then rt_resort_prio (owner s p_MCB) (set_prio (owner s p_MCB) (prio s (run s)) s)
              else Some s);
        s \<leftarrow> put_wait p_MCB s;
        s \<leftarrow> rt_block timeout WAIT_MUT s;
        Some (OS_R_TMO, s)
      })"

section \<open>The mutexes of a task\<close>

definition mutexes :: "kernel \<Rightarrow> (ptr \<Rightarrow> ptr list) \<Rightarrow> (ptr \<Rightarrow> ptr list) \<Rightarrow> bool" where
  "mutexes s q own \<longleftrightarrow>
     (\<forall>t. is_task s t \<longrightarrow> chain (p_mlnk s) (p_mlnk s t) (own t) NULL \<and> distinct (own t) \<and>
        set (own t) = {m. cb_type s m = MUCB \<and> level s m \<noteq> 0 \<and> owner s m = t}) \<and>
     (\<forall>m. cb_type s m = MUCB \<longrightarrow> level s m \<noteq> 0 \<longrightarrow> is_task s (owner s m)) \<and>
     (\<forall>m. cb_type s m = MUCB \<longrightarrow> level s m = 0 \<longrightarrow> q m = [])"

lemma mutexesD:
  assumes "mutexes s q own"
  shows "is_task s t \<Longrightarrow> chain (p_mlnk s) (p_mlnk s t) (own t) NULL"
    "is_task s t \<Longrightarrow> distinct (own t)"
    "is_task s t \<Longrightarrow> m \<in> set (own t) \<longleftrightarrow> cb_type s m = MUCB \<and> level s m \<noteq> 0 \<and> owner s m = t"
    "cb_type s m = MUCB \<Longrightarrow> level s m \<noteq> 0 \<Longrightarrow> is_task s (owner s m)"
    "cb_type s m = MUCB \<Longrightarrow> level s m = 0 \<Longrightarrow> q m = []"
  using assms by (auto simp: mutexes_def)

lemma mlnk_search_found:
  "chain (p_mlnk s) c (A @ b # m # B) NULL \<Longrightarrow> m \<notin> set (A @ [b]) \<Longrightarrow>
   mlnk_search s m c = Some b"
proof (induction A arbitrary: c)
  case (Cons a A)
  then show ?case by (cases A) (auto simp: mlnk_search.simps)
qed (auto simp: mlnk_search.simps)

lemma mut_unlink_ok:
  assumes "chain (p_mlnk s) (p_mlnk s t) (A @ m # B) NULL" "distinct (A @ m # B)" "t \<notin> set (A @ m # B)"
  shows "mut_unlink t m s = Some (set_p_mlnk (last (t # A)) (hd0 B) s)"
    "chain ((p_mlnk s)(last (t # A) := hd0 B)) (((p_mlnk s)(last (t # A) := hd0 B)) t) (A @ B) NULL"
proof -
  note c = chain_remove [OF assms]
  show "chain ((p_mlnk s)(last (t # A) := hd0 B)) (((p_mlnk s)(last (t # A) := hd0 B)) t) (A @ B) NULL"
    by (rule c(1))
  show "mut_unlink t m s = Some (set_p_mlnk (last (t # A)) (hd0 B) s)"
  proof (cases A rule: rev_cases)
    case Nil
    then show ?thesis using c(2,3) by (simp add: mut_unlink_def)
  next
    case (snoc A' a)
    have "p_mlnk s t \<noteq> m" using assms(1,2) snoc by (cases A') auto
    moreover have "mlnk_search s m (p_mlnk s t) = Some a"
      using mlnk_search_found [of s "p_mlnk s t" A' a m B] assms(1,2) snoc by auto
    moreover have "a \<noteq> NULL" using chain_NULL_notin [OF assms(1)] snoc by auto
    ultimately show ?thesis using c(2) snoc by (simp add: mut_unlink_def)
  qed
qed

text \<open>The inherited priority is the maximum of the own one and those of the first waiters.\<close>

definition inherited :: "kernel \<Rightarrow> (ptr \<Rightarrow> ptr list) \<Rightarrow> ptr list \<Rightarrow> U8 \<Rightarrow> U8" where
  "inherited s q ms pr = fold (\<lambda>m pr. case q m of [] \<Rightarrow> pr | w # _ \<Rightarrow> max pr (prio s w)) ms pr"

lemma mut_prio_ok:
  assumes "chain (p_mlnk s) p ms NULL" "\<And>m. m \<in> set ms \<Longrightarrow> p_lnk s m = hd0 (q m) \<and> NULL \<notin> set (q m)"
  shows "mut_prio s p pr = Some (inherited s q ms pr)"
  using assms
proof (induction ms arbitrary: p pr)
  case Nil
  then show ?case by (simp add: mut_prio.simps inherited_def)
next
  case (Cons m ms)
  then have "p = m" "p \<noteq> NULL" "p_lnk s p = hd0 (q p)" "NULL \<notin> set (q p)" by auto
  moreover have "mut_prio s (p_mlnk s m) pr' = Some (inherited s q ms pr')" for pr'
    using Cons by simp
  ultimately show ?case
    by (cases "q m") (auto simp: mut_prio.simps [of s m] inherited_def max_def)
qed

lemma inherited_ge: "pr \<le> inherited s q ms pr"
proof (induction ms arbitrary: pr)
  case (Cons m ms)
  show ?case using Cons [of pr] Cons [of "max pr (prio s (hd (q m)))"]
    by (auto simp: inherited_def split: list.split intro: order_trans [OF max.cobounded1])
qed (simp add: inherited_def)

lemma inherited_waiter: "m \<in> set ms \<Longrightarrow> q m = w # ws \<Longrightarrow> prio s w \<le> inherited s q ms pr"
proof (induction ms arbitrary: pr)
  case (Cons a ms)
  show ?case
  proof (cases "a = m")
    case True
    have "max pr (prio s w) \<le> inherited s q ms (max pr (prio s w))" by (rule inherited_ge)
    then show ?thesis using True Cons.prems by (simp add: inherited_def)
  next
    case False
    then show ?thesis using Cons by (simp add: inherited_def split: list.split)
  qed
qed simp


lemma mutexes_cong:
  assumes "mutexes s q own" "is_task s' = is_task s" "cb_type s' = cb_type s" "p_mlnk s' = p_mlnk s"
    "level s' = level s" "owner s' = owner s"
    "\<And>m. cb_type s m = MUCB \<Longrightarrow> q m = [] \<Longrightarrow> level s m = 0 \<Longrightarrow> q' m = []"
  shows "mutexes s' q' own"
  using assms unfolding mutexes_def by simp

lemma mutexes_core: "mutexes s q own \<Longrightarrow> core_only s s' \<Longrightarrow>
    (\<And>m. cb_type s m = MUCB \<Longrightarrow> q m = [] \<Longrightarrow> level s m = 0 \<Longrightarrow> q' m = []) \<Longrightarrow> mutexes s' q' own"
  by (erule mutexes_cong) (auto simp: core_only_fields)

lemma mutexes_switch [simp]: "mutexes (switch_context s) q own = mutexes s q own"
  unfolding mutexes_def by simp

lemma MUCB_not_task: "cb_type s m = MUCB \<Longrightarrow> \<not> is_task s m"
  by (simp add: is_task_def cb_types)

lemma MUCB_not_RDY: "kinv s q ds \<Longrightarrow> cb_type s m = MUCB \<Longrightarrow> m \<noteq> OS_RDY"
  using sem_head_facts(3) [OF schedD(1) [OF kinvD(1)] is_sem_MUCB] .

text \<open>Taking a free mutex.\<close>

definition mut_take :: "ptr \<Rightarrow> ptr \<Rightarrow> kernel \<Rightarrow> kernel" where
  "mut_take m t s = set_level m 1 (set_p_mlnk t m (set_p_mlnk m (p_mlnk s t) (set_owner m t s)))"

lemma mut_take_mutexes:
  assumes M: "mutexes s q own" and m: "cb_type s m = MUCB" "m \<noteq> NULL" and t: "is_task s t"
    and free: "\<And>t'. is_task s t' \<Longrightarrow> m \<notin> set (own t')"
  shows "mutexes (mut_take m t s) q (own(t := m # own t))"
proof -
  have mt: "m \<noteq> t" using MUCB_not_task [OF m(1)] t by auto
  have tk: "is_task (mut_take m t s) = is_task s"
    by (auto simp: mut_take_def is_task_def fun_eq_iff)
  have tn: "\<And>t' x. is_task s t' \<Longrightarrow> x \<in> set (own t') \<Longrightarrow> x \<noteq> t \<and> x \<noteq> m"
    using mutexesD(3) [OF M] MUCB_not_task t free by blast
  have "chain (p_mlnk (mut_take m t s)) (p_mlnk (mut_take m t s) t') ((own(t := m # own t)) t') NULL \<and>
      distinct ((own(t := m # own t)) t')"
    if "is_task s t'" for t'
  proof -
    have "t \<notin> set (own t')" "m \<notin> set (own t')" using tn [OF that] by auto
    moreover have "m \<noteq> t'" using MUCB_not_task [OF m(1)] that by auto
    ultimately show ?thesis using mutexesD(1,2) [OF M that] mt m(2)
      by (auto simp: mut_take_def)
  qed
  moreover have "set ((own(t := m # own t)) t') =
      {x. cb_type (mut_take m t s) x = MUCB \<and> level (mut_take m t s) x \<noteq> 0 \<and> owner (mut_take m t s) x = t'}"
    if "is_task s t'" for t'
    using mutexesD(3) [OF M that] m(1) free [OF that] t by (auto simp: mut_take_def)
  moreover have "is_task s (owner (mut_take m t s) x)"
    if "cb_type s x = MUCB" "level (mut_take m t s) x \<noteq> 0" for x
    using that mutexesD(4) [OF M, of x] t by (auto simp: mut_take_def)
  moreover have "q x = []" if "cb_type s x = MUCB" "level (mut_take m t s) x = 0" for x
    using that mutexesD(5) [OF M, of x] by (auto simp: mut_take_def split: if_splits)
  ultimately show ?thesis unfolding mutexes_def tk by (simp add: mut_take_def)
qed

text \<open>Giving up a mutex: it leaves the list of its owner.\<close>

lemma mut_unlink_mutexes:
  assumes M: "mutexes s q own" and m: "cb_type s m = MUCB" "level s m \<noteq> 0" "owner s m = t"
    and t: "is_task s t"
  obtains f where "mut_unlink t m (set_level m v s) = Some (p_mlnk_update (\<lambda>_. f) (set_level m v s))"
    "\<And>q'. q' m = [] \<Longrightarrow> (\<And>x. q x = [] \<Longrightarrow> q' x = []) \<Longrightarrow>
       mutexes (p_mlnk_update (\<lambda>_. f) (set_level m 0 s)) q' (own(t := remove1 m (own t)))"
    "\<And>x q'. (\<And>x. x \<noteq> m \<Longrightarrow> q x = [] \<Longrightarrow> q' x = []) \<Longrightarrow> x \<noteq> NULL \<Longrightarrow> is_task s x \<Longrightarrow>
       mutexes (mut_take m x (p_mlnk_update (\<lambda>_. f) (set_level m 0 s))) q'
         ((own(t := remove1 m (own t)))(x := m # (own(t := remove1 m (own t))) x))"
    "chain f (f t) (remove1 m (own t)) NULL"
proof -
  have "m \<in> set (own t)" using mutexesD(3) [OF M t] m by simp
  then obtain A B where AB: "own t = A @ m # B" by (meson split_list)
  have ch: "chain (p_mlnk s) (p_mlnk s t) (A @ m # B) NULL" and dist: "distinct (A @ m # B)"
    using mutexesD(1,2) [OF M t] by (simp_all add: AB)
  have nt: "\<And>t' x. is_task s t' \<Longrightarrow> x \<in> set (own t') \<Longrightarrow> \<not> is_task s x"
    using mutexesD(3) [OF M] MUCB_not_task by blast
  have tn: "t \<notin> set (A @ m # B)" using nt [OF t, of t] t by (auto simp: AB)
  let ?s = "set_level m v s"
  define f where "f = (p_mlnk s)(last (t # A) := hd0 B)"
  have u: "mut_unlink t m ?s = Some (p_mlnk_update (\<lambda>_. f) ?s)"
    and c: "chain f (f t) (A @ B) NULL"
    using mut_unlink_ok [of ?s t A m B] ch dist tn by (simp_all add: f_def)
  have rm: "remove1 m (own t) = A @ B" using dist by (simp add: AB remove1_append)
  have lt: "last (t # A) = t \<or> last (t # A) \<in> set (own t)"
    using last_in_set [of A] by (auto simp: AB)
  have oc: "chain f (f t') (own t') NULL" if t': "is_task s t'" "t' \<noteq> t" for t'
  proof -
    have "last (t # A) \<noteq> t'" using lt nt [OF t] t' by auto
    moreover have "last (t # A) \<notin> set (own t')"
    proof -
      have "t \<notin> set (own t')" using nt [OF t'(1)] t by blast
      moreover have "x \<notin> set (own t')" if "x \<in> set (own t)" for x
        using that mutexesD(3) [OF M t] mutexesD(3) [OF M t'(1)] t'(2) by simp
      ultimately show ?thesis using lt by auto
    qed
    ultimately show ?thesis using mutexesD(1) [OF M t'(1)] by (simp add: f_def)
  qed
  let ?own = "own(t := remove1 m (own t))" and ?s0 = "p_mlnk_update (\<lambda>_. f) (set_level m 0 s)"
  have tk: "is_task ?s0 = is_task s" by (auto simp: is_task_def fun_eq_iff)
  have 1: "chain f (f t') (?own t') NULL \<and> distinct (?own t')" if "is_task s t'" for t'
    using c oc [OF that] mutexesD(2) [OF M that] dist by (cases "t' = t") (simp_all add: rm)
  have 2: "set (?own t') = {x. cb_type s x = MUCB \<and> level ?s0 x \<noteq> 0 \<and> owner s x = t'}"
    if "is_task s t'" for t'
    using mutexesD(2) [OF M t] mutexesD(3) [OF M that] m by (cases "t' = t") auto
  have 3: "is_task s (owner s x)" if "cb_type s x = MUCB" "level ?s0 x \<noteq> 0" for x
    using that mutexesD(4) [OF M, of x] by (auto split: if_splits)
  have weak: "mutexes ?s0 q' ?own" if "q' m = []" "\<And>x. x \<noteq> m \<Longrightarrow> q x = [] \<Longrightarrow> q' x = []" for q'
    unfolding mutexes_def tk using 1 2 3 that mutexesD(5) [OF M]
    by (auto split: if_splits)
  have strong: "mutexes (mut_take m x ?s0) q' (?own(x := m # ?own x))"
    if q': "\<And>x. x \<noteq> m \<Longrightarrow> q x = [] \<Longrightarrow> q' x = []" and x: "x \<noteq> NULL" "is_task s x" for x q'
  proof -
    have "mutexes ?s0 (q'(m := [])) ?own" using q' by (intro weak) auto
    moreover have "m \<noteq> NULL" using chain_NULL_notin [OF ch] by auto
    moreover have "\<And>t'. is_task ?s0 t' \<Longrightarrow> m \<notin> set (?own t')" using 2 by (auto simp: tk)
    ultimately have "mutexes (mut_take m x ?s0) (q'(m := [])) (?own(x := m # ?own x))"
      using mut_take_mutexes [of ?s0 "q'(m := [])" ?own m x] m(1) x(2) by (simp add: tk)
    then show ?thesis by (rule mutexes_cong) (auto simp: mut_take_def split: if_splits)
  qed
  show thesis
  proof (rule that [OF u])
    show "mutexes ?s0 q' ?own" if "q' m = []" "\<And>x. q x = [] \<Longrightarrow> q' x = []" for q'
      using weak that by blast
    show "mutexes (mut_take m x ?s0) q' (?own(x := m # ?own x))"
      if "\<And>x. x \<noteq> m \<Longrightarrow> q x = [] \<Longrightarrow> q' x = []" "x \<noteq> NULL" "is_task s x" for x q'
      using strong that by blast
    show "chain f (f t) (remove1 m (own t)) NULL" using c by (simp add: rm)
  qed
qed


section \<open>What the operations do\<close>

lemma quiet_mut_take: "quiet x s (mut_take m t s)"
  by (simp add: quiet_def mut_take_def)

lemma kinv_quiet: "quiet (run s) s s' \<Longrightarrow> state s' (run s) = state s (run s) \<Longrightarrow> kinv s q ds \<Longrightarrow> kinv s' q ds"
proof -
  assume a: "quiet (run s) s s'" "state s' (run s) = state s (run s)" "kinv s q ds"
  then have "state s' x = state s x" for x by (cases "x = run s") (auto simp: quiet_def)
  then have "state s' = state s" by (rule ext)
  then show ?thesis using kinv_cong [of s' s q ds] a by (simp add: quiet_def)
qed

lemma rt_mut_wait_free:
  assumes K: "kinv s q ds" and M: "mutexes s q own" and m: "cb_type s m = MUCB" "level s m = 0"
  obtains s' where "rt_mut_wait m timeout s = Some (OS_R_OK, s')" "kinv (switch_context s') q ds"
    "mutexes s' q (own(run s := m # own (run s)))" "owner s' m = run s" "level s' m = 1"
    "new_tsk s' = run s" "prio s' = prio s"
proof -
  note k = kinvD [OF K]
  let ?s' = "mut_take m (run s) s"
  have mn: "m \<noteq> NULL" "m \<noteq> run s" using sem_head_facts(1) [OF schedD(1) [OF k(1)] is_sem_MUCB [OF m(1)]]
      MUCB_not_task [OF m(1)] k(2) by auto
  have "rt_mut_wait m timeout s = Some (OS_R_OK, ?s')" using m mn by (simp add: rt_mut_wait_def mut_take_def)
  moreover have K': "kinv ?s' q ds"
    by (rule kinv_quiet [OF quiet_mut_take _ K]) (simp add: mut_take_def)
  moreover have "mutexes ?s' q (own(run s := m # own (run s)))"
    using mut_take_mutexes [OF M m(1) mn(1) k(2)] mutexesD(3) [OF M] m by simp
  ultimately show thesis using that kinv_switch_same [OF K'] k(5) by (simp add: mut_take_def)
qed

lemma rt_mut_wait_again:
  assumes K: "kinv s q ds" and M: "mutexes s q own" and m: "cb_type s m = MUCB" "level s m \<noteq> 0"
    "owner s m = run s" "level s m + 1 \<noteq> 0"
  shows "rt_mut_wait m timeout s = Some (OS_R_OK, set_level m (level s m + 1) s)"
    "kinv (switch_context (set_level m (level s m + 1) s)) q ds"
    "mutexes (set_level m (level s m + 1) s) q own"
proof -
  let ?s' = "set_level m (level s m + 1) s"
  show "rt_mut_wait m timeout s = Some (OS_R_OK, ?s')" using m by (simp add: rt_mut_wait_def)
  have K': "kinv ?s' q ds" by (rule kinv_quiet [OF _ _ K]) (simp_all add: quiet_def)
  then show "kinv (switch_context ?s') q ds" by (rule kinv_switch_same)
  have tk: "is_task ?s' = is_task s" by (simp add: is_task_def fun_eq_iff)
  have "level ?s' x = 0 \<longleftrightarrow> level s x = 0" for x using m by simp
  then show "mutexes ?s' q own" using M unfolding mutexes_def tk by simp
qed

lemma rt_mut_wait_block:
  assumes K: "kinv s q ds" and M: "mutexes s q own" and m: "cb_type s m = MUCB" "level s m \<noteq> 0"
    "owner s m \<noteq> run s" and r: "run s \<noteq> OS_IDLE" and to: "timeout \<noteq> 0"
  obtains s' q' where "rt_mut_wait m timeout s = Some (OS_R_TMO, s')"
    "kinv (switch_context s') q' (blocked_dly (run s) timeout ds)" "mutexes s' q' own"
    "state s' (run s) = WAIT_MUT" "run s \<in> set (q' m)"
    "prio s' = (prio s)(owner s m := max (prio s (owner s m)) (prio s (run s)))"
    "\<And>x. x \<noteq> OS_RDY \<Longrightarrow> x \<noteq> m \<Longrightarrow> set (q' x) = set (q x)" "set (q' m) = insert (run s) (set (q m))"
    "tokens s' = tokens s" "cb_type s' = cb_type s"
proof -
  note k = kinvD [OF K]
  define v where "v = max (prio s (owner s m)) (prio s (run s))"
  let ?o = "owner s m"
  have ot: "is_task s ?o" using mutexesD(4) [OF M] m by simp
  \<comment> \<open>the priority of the owner is raised\<close>
  obtain s1 q1 where s1: "(if prio s ?o < prio s (run s)
      then rt_resort_prio ?o (set_prio ?o (prio s (run s)) s) else Some s) = Some s1"
    "kinv s1 q1 ds" "prio s1 = (prio s)(?o := v)" "\<And>x. set (q1 x) = set (q x)"
    "core_only (set_prio ?o v s) s1"
  proof (cases "prio s ?o < prio s (run s)")
    case True
    then have v: "v = prio s (run s)" by (simp add: v_def max_def less_imp_le)
    obtain s1 where p: "rt_resort_prio ?o (set_prio ?o v s) = Some s1" "links_only (set_prio ?o v s) s1"
      "sched s1 (resorted ((prio s)(?o := v)) ?o q) ds {run s}"
      using sched_resort [OF k(1) ot, of v] m(3) by auto
    note f = links_only_fields [OF p(2)]
    have n: "new_tsk s1 = run s" using p(2) k(5) by (auto simp: links_only_def)
    have "tasks_ok (set_prio ?o v s) = tasks_ok s" "is_task (set_prio ?o v s) = is_task s"
      by (simp_all add: tasks_ok_def is_task_def fun_eq_iff)
    then have "kinv s1 (resorted ((prio s)(?o := v)) ?o q) ds"
      by (intro kinvI) (use p k m(3) n v in \<open>auto simp: f\<close>)
    then show thesis using that p True v f links_only_core [OF p(2)] by simp
  next
    case False
    then have "v = prio s ?o" by (simp add: v_def max_def)
    moreover have "set_prio ?o (prio s ?o) s = s" by simp
    ultimately show thesis using that [of s q] False K by (metis core_only_refl fun_upd_triv)
  qed
  note c1 = core_only_fields [OF s1(5)]
  have f1: "cb_type s1 = cb_type s" "run s1 = run s" using c1 by simp_all
  have M1: "mutexes s1 q1 own"
  proof (rule mutexes_core [OF _ s1(5), of q])
    have "is_task (set_prio ?o v s) = is_task s" by (simp add: is_task_def fun_eq_iff)
    then show "mutexes (set_prio ?o v s) q own" using M unfolding mutexes_def by simp
  qed (use s1(4) in \<open>simp flip: set_empty\<close>)
  \<comment> \<open>the running task waits\<close>
  obtain s2 where p: "put_wait m s1 = Some s2" "links_only s1 s2"
    "\<And>st. waiting st \<Longrightarrow> sched (set_state (run s1) st s2) (q1(m := ins_prio (prio s1) (run s1) (q1 m))) ds {}"
    "m \<noteq> OS_RDY" using put_wait_sched [OF s1(2) is_sem_MUCB] m(1) f1 by metis
  note f2 = links_only_fields [OF p(2)] and k1 = kinvD [OF s1(2)]
  obtain t B where q: "q1 OS_RDY = t # B" using kinv_rdy_nonempty [OF s1(2)] r f1 by auto
  have S: "sched (set_state (run s2) WAIT_MUT s2) (q1(m := ins_prio (prio s1) (run s1) (q1 m))) ds {}"
    using p(3) by (simp add: f2 waiting_def)
  obtain s' where b: "rt_block timeout WAIT_MUT s2 = Some s'" "core_only s2 s'" "new_tsk s' = t"
    "kinv (switch_context s') ((q1(m := ins_prio (prio s1) (run s1) (q1 m)))(OS_RDY := B))
       (blocked_dly (run s2) timeout ds)"
    "state s' = (state s2)(run s2 := WAIT_MUT, t := RUNNING)"
    by (rule rt_block_ok [OF S _ _ _ to, of t B])
      (use k1 r q p(4) f1 in \<open>auto simp: f2 blocked_def\<close>)
  have c2: "core_only s1 s'" by (rule core_only_trans [OF links_only_core [OF p(2)] b(2)])
  note c2f = core_only_fields [OF c2]
  let ?q' = "(q1(m := ins_prio (prio s1) (run s1) (q1 m)))(OS_RDY := B)"
  have "t \<noteq> run s" using k1(10) [of OS_RDY] q f1 by auto
  then have "state s' (run s) = WAIT_MUT" using b(5) f2 f1 by simp
  moreover have "mutexes s' ?q' own"
    by (rule mutexes_core [OF M1 c2]) (use m p(4) MUCB_not_RDY [OF s1(2)] f1 c1(13) in auto)
  moreover have "rt_mut_wait m timeout s = Some (OS_R_TMO, s')"
    using m to s1(1) p(1) b(1) by (simp add: rt_mut_wait_def)
  moreover have "run s \<in> set (?q' m)" "set (?q' m) = insert (run s) (set (q m))" using p(4) f1 s1(4) by auto
  moreover have "\<And>x. x \<noteq> OS_RDY \<Longrightarrow> x \<noteq> m \<Longrightarrow> set (?q' x) = set (q x)" using s1(4) by simp
  moreover have "kinv (switch_context s') ?q' (blocked_dly (run s) timeout ds)" using b(4) f2 f1 by simp
  moreover have "prio s' = (prio s)(?o := v)" "tokens s' = tokens s" "cb_type s' = cb_type s"
    using c2f s1(3) c1 by simp_all
  ultimately show thesis using that unfolding v_def by blast
qed


lemma rt_mut_release_nested:
  assumes K: "kinv s q ds" and M: "mutexes s q own" and m: "cb_type s m = MUCB" "1 < level s m"
    "owner s m = run s"
  shows "rt_mut_release m s = Some (OS_R_OK, set_level m (level s m - 1) s)"
    "kinv (switch_context (set_level m (level s m - 1) s)) q ds"
    "mutexes (set_level m (level s m - 1) s) q own"
proof -
  let ?s' = "set_level m (level s m - 1) s"
  have l: "level s m \<noteq> 0" "level s m - 1 \<noteq> 0" using m(2) by auto
  show "rt_mut_release m s = Some (OS_R_OK, ?s')" using m l by (simp add: rt_mut_release_def)
  have K': "kinv ?s' q ds" by (rule kinv_quiet [OF _ _ K]) (simp_all add: quiet_def)
  then show "kinv (switch_context ?s') q ds" by (rule kinv_switch_same)
  have tk: "is_task ?s' = is_task s" by (simp add: is_task_def fun_eq_iff)
  have "level ?s' x = 0 \<longleftrightarrow> level s x = 0" for x using l by simp
  then show "mutexes ?s' q own" using M unfolding mutexes_def tk by simp
qed

lemma rt_rdy_prio_hd: "sched s q ds X \<Longrightarrow> q OS_RDY = t # B \<Longrightarrow> rt_rdy_prio s = Some (prio s t)"
  using p_lnk_head [OF schedD(1) is_head_RDY] queues_task [OF schedD(1), of s q ds X t OS_RDY]
  by (fastforce simp: rt_rdy_prio_def is_task_def)

text \<open>The common first part of a release: the running task no longer owns the mutex and has its
  inherited priority again.\<close>

lemma release_prelude:
  assumes K: "kinv s q ds" and M: "mutexes s q own" and m: "cb_type s m = MUCB" "level s m = 1"
    "owner s m = run s"
  obtains f pr s3 where "mut_unlink (run s) m (set_level m 0 s) = Some (p_mlnk_update (\<lambda>_. f) (set_level m 0 s))"
    "mut_prio (p_mlnk_update (\<lambda>_. f) (set_level m 0 s)) (f (run s)) (prio_base s (run s)) = Some pr"
    "pr = inherited s q (remove1 m (own (run s))) (prio_base s (run s))"
    "s3 = set_prio (run s) pr (p_mlnk_update (\<lambda>_. f) (set_level m 0 s))"
    "sched s3 q ds {run s}" "is_task s3 = is_task s" "tasks_ok s3 = tasks_ok s"
    "\<And>q'. q' m = [] \<Longrightarrow> (\<And>x. q x = [] \<Longrightarrow> q' x = []) \<Longrightarrow>
       mutexes s3 q' (own(run s := remove1 m (own (run s))))"
    "\<And>x q'. (\<And>x. x \<noteq> m \<Longrightarrow> q x = [] \<Longrightarrow> q' x = []) \<Longrightarrow> x \<noteq> NULL \<Longrightarrow> is_task s x \<Longrightarrow>
       mutexes (mut_take m x s3) q'
         ((own(run s := remove1 m (own (run s))))(x := m # (own(run s := remove1 m (own (run s)))) x))"
proof -
  note k = kinvD [OF K]
  have l: "level s m \<noteq> 0" using m(2) by simp
  obtain f where f: "mut_unlink (run s) m (set_level m 0 s) = Some (p_mlnk_update (\<lambda>_. f) (set_level m 0 s))"
    "\<And>q'. q' m = [] \<Longrightarrow> (\<And>x. q x = [] \<Longrightarrow> q' x = []) \<Longrightarrow>
       mutexes (p_mlnk_update (\<lambda>_. f) (set_level m 0 s)) q' (own(run s := remove1 m (own (run s))))"
    "\<And>x q'. (\<And>x. x \<noteq> m \<Longrightarrow> q x = [] \<Longrightarrow> q' x = []) \<Longrightarrow> x \<noteq> NULL \<Longrightarrow> is_task s x \<Longrightarrow>
       mutexes (mut_take m x (p_mlnk_update (\<lambda>_. f) (set_level m 0 s))) q'
         ((own(run s := remove1 m (own (run s))))(x := m # (own(run s := remove1 m (own (run s)))) x))"
    "chain f (f (run s)) (remove1 m (own (run s))) NULL"
    using mut_unlink_mutexes [OF M m(1) l m(3) k(2)] by metis
  let ?s2 = "p_mlnk_update (\<lambda>_. f) (set_level m 0 s)"
  have "p_lnk ?s2 x = hd0 (q x) \<and> NULL \<notin> set (q x)" if "x \<in> set (remove1 m (own (run s)))" for x
  proof -
    have "x \<in> set (own (run s))" using that set_remove1_subset by fast
    then have "cb_type s x = MUCB" using mutexesD(3) [OF M k(2)] by simp
    then have "is_head s x" using is_sem_MUCB by (simp add: is_head_def)
    then show ?thesis using p_lnk_head [OF schedD(1) [OF k(1)]] queues_task [OF schedD(1) [OF k(1)]]
      by (auto simp: is_task_def)
  qed
  then have pr: "mut_prio ?s2 (f (run s)) (prio_base s (run s)) =
      Some (inherited ?s2 q (remove1 m (own (run s))) (prio_base s (run s)))"
    using mut_prio_ok [of ?s2 "f (run s)" "remove1 m (own (run s))" q] f(4) by simp
  have inh: "inherited ?s2 = inherited s" by (simp add: inherited_def fun_eq_iff cong: list.case_cong)
  define pr where "pr = inherited s q (remove1 m (own (run s))) (prio_base s (run s))"
  let ?s3 = "set_prio (run s) pr ?s2"
  have "sched ?s2 q ds {run s}" using k(1) sched_cong [of ?s2 s] by simp
  then have S3: "sched ?s3 q ds {run s}" by (rule sched_prio_float) simp
  have tk: "is_task ?s3 = is_task s" "tasks_ok ?s3 = tasks_ok s"
    by (simp_all add: is_task_def tasks_ok_def fun_eq_iff)
  have tk2: "is_task ?s2 = is_task s" by (simp_all add: is_task_def fun_eq_iff)
  have M3: "mutexes (set_prio y v u) q' own'" if "mutexes u q' own'" for y v u q' own'
    by (rule mutexes_cong [OF that]) (simp_all add: is_task_def fun_eq_iff)
  have mt: "mut_take m x ?s3 = set_prio (run s) pr (mut_take m x ?s2)" for x
    by (simp add: mut_take_def)
  show thesis
    by (rule that [OF f(1) pr [unfolded inh, folded pr_def] pr_def refl S3 tk M3 [OF f(2)]])
      (auto simp only: mt intro!: M3 f(3))
qed

lemma rt_mut_release_idle:
  assumes K: "kinv s q ds" and M: "mutexes s q own" and m: "cb_type s m = MUCB" "level s m = 1"
    "owner s m = run s" "q m = []" and r: "run s \<noteq> OS_IDLE"
  obtains s' q' where "rt_mut_release m s = Some (OS_R_OK, s')" "kinv (switch_context s') q' ds"
    "mutexes s' q' (own(run s := remove1 m (own (run s))))" "level s' m = 0"
    "prio s' = (prio s)(run s := inherited s q (remove1 m (own (run s))) (prio_base s (run s)))"
    "\<And>x. x \<noteq> OS_RDY \<Longrightarrow> q' x = q x" "tokens s' = tokens s" "cb_type s' = cb_type s"
proof -
  note k = kinvD [OF K]
  obtain f pr s3 where p: "mut_unlink (run s) m (set_level m 0 s) = Some (p_mlnk_update (\<lambda>_. f) (set_level m 0 s))"
    "mut_prio (p_mlnk_update (\<lambda>_. f) (set_level m 0 s)) (f (run s)) (prio_base s (run s)) = Some pr"
    "pr = inherited s q (remove1 m (own (run s))) (prio_base s (run s))"
    "s3 = set_prio (run s) pr (p_mlnk_update (\<lambda>_. f) (set_level m 0 s))"
    "sched s3 q ds {run s}" "is_task s3 = is_task s" "tasks_ok s3 = tasks_ok s"
    "\<And>q'. q' m = [] \<Longrightarrow> (\<And>x. q x = [] \<Longrightarrow> q' x = []) \<Longrightarrow>
       mutexes s3 q' (own(run s := remove1 m (own (run s))))"
    using release_prelude [OF K M m(1-3)] by metis
  obtain t B where q: "q OS_RDY = t # B" using kinv_rdy_nonempty [OF K r] by blast
  have r3: "run s3 = run s" "state s3 = state s" "new_tsk s3 = run s" "prio s3 = (prio s)(run s := pr)"
    "p_lnk s3 m = NULL" "tokens s3 = tokens s" "cb_type s3 = cb_type s" "level s3 m = 0"
    using k(5) kinv_p_lnk_NULL [OF K, of m] m is_sem_MUCB [OF m(1)] by (simp_all add: p(4) is_head_def)
  have S3: "sched s3 q ds {run s3}" using p(5) r3 by simp
  have ne: "p_lnk s3 OS_RDY \<noteq> NULL"
    using p_lnk_head_NULL [OF schedD(1) [OF S3] is_head_RDY] q by simp
  obtain s' where e: "preempt_ready s3 = Some s'" "core_only s3 s'"
    "kinv (switch_context s') (preempted s3 q) ds"
    by (rule preempt_ready_ok [OF S3]) (use k r3 p(6,7) in auto)
  note c = core_only_fields [OF e(2)]
  have "preempt_ready s3 = do {
      rp \<leftarrow> rt_rdy_prio s3;
      if prio s3 (run s3) < rp
      then do { s \<leftarrow> rt_put_prio OS_RDY (run s3) s3; rt_dispatch NULL (set_state (run s) READY s) }
      else Some s3 }"
    using ne by (simp add: preempt_ready_def rt_rdy_prio_def)
  then have "rt_mut_release m s = Some (OS_R_OK, s')"
    using m(2,3) p(1,2) e(1) r3(5)
    by (cases "rt_rdy_prio s3") (auto simp: rt_mut_release_def p(4) Let_def cong: if_cong)
  moreover have q': "x \<noteq> OS_RDY \<Longrightarrow> preempted s3 q x = q x" for x
    by (simp add: preempted_def split: list.split)
  moreover have "mutexes s' (preempted s3 q) (own(run s := remove1 m (own (run s))))"
    by (rule mutexes_core [OF p(8) [of q] e(2)]) (use m MUCB_not_RDY [OF K] q' r3 in auto)
  ultimately show thesis using that e(3) c r3 p(3) by metis
qed

text \<open>Both the running task and a woken one go to the ready list, and the first ready task is
  dispatched.\<close>

lemma put_both:
  assumes S: "sched s q ds {run s, t}" and r: "is_task s (run s)" "run s \<notin> fst ` set ds"
    and t: "is_task s t" "t \<notin> fst ` set ds" "t \<noteq> run s"
    and idle: "tasks_ok s" "OS_IDLE \<in> set (q OS_RDY)"
  obtains s1 s2 s' q' where "rt_put_prio OS_RDY (run s) s = Some s1" "run s1 = run s"
    "rt_put_prio OS_RDY t s1 = Some s2" "run s2 = run s"
    "rt_dispatch NULL (set_state t READY (set_state (run s) READY s2)) = Some s'"
    "core_only s s'" "kinv (switch_context s') q' ds" "\<And>x. x \<noteq> OS_RDY \<Longrightarrow> q' x = q x"
    "ret0 s' = ret0 s"
proof -
  obtain s1 where p1: "rt_put_prio OS_RDY (run s) s = Some s1" "links_only s s1"
    "sched (set_state (run s) READY s1) (q(OS_RDY := ins_prio (prio s) (run s) (q OS_RDY))) ds ({run s, t} - {run s})"
    using sched_put_rdy [OF S _ r] by auto
  note f1 = links_only_fields [OF p1(2)]
  have X: "{run s, t} - {run s} = {t}" using t(3) by auto
  let ?q1 = "q(OS_RDY := ins_prio (prio s) (run s) (q OS_RDY))"
  have t1: "is_task s1 t" using t(1) f1 by simp
  obtain s2 where p2: "rt_put_prio OS_RDY t s1 = Some s2" "links_only s1 s2"
    "sched (set_state t READY (set_state (run s) READY s2))
       (?q1(OS_RDY := ins_prio (prio s1) t (?q1 OS_RDY))) ds ({t} - {t})"
    using sched_put_rdy_later [OF p1(3) [unfolded X] _ t1 t(2)] by auto
  note f2 = links_only_fields [OF p2(2)]
  let ?s3 = "set_state t READY (set_state (run s) READY s2)"
    and ?q2 = "?q1(OS_RDY := ins_prio (prio s1) t (?q1 OS_RDY))"
  have i: "tasks_ok ?s3" "OS_IDLE \<in> set (?q2 OS_RDY)" using idle f1 f2 by auto
  obtain x B where qx: "?q2 OS_RDY = x # B" using i(2) by (cases "?q2 OS_RDY") auto
  have S3: "sched ?s3 ?q2 ds {}" using p2(3) by simp
  obtain s' where d: "rt_dispatch NULL ?s3 = Some s'" "core_only ?s3 s'"
    "kinv (switch_context s') (?q2(OS_RDY := B)) ds" "ret0 s' = ret0 ?s3"
    using rt_dispatch_NULL [OF S3 qx i] by metis
  have "core_only s s'"
    by (rule core_only_trans [OF links_only_core [OF p1(2)] core_only_trans [OF links_only_core [OF p2(2)]
          core_only_trans [OF _ d(2)]]]) (rule core_only_trans [OF core_only_steps(1) core_only_steps(1)])
  moreover have "ret0 ?s3 = ret0 s" using p1(2) p2(2) by (auto simp: links_only_def)
  moreover have "x \<noteq> OS_RDY \<Longrightarrow> (?q2(OS_RDY := B)) x = q x" for x by simp
  ultimately show thesis using that [OF p1(1) _ p2(1) _ d(1) _ d(3)] f1 f2 d(4) by metis
qed

lemma rt_mut_release_hand_over:
  assumes K: "kinv s q ds" and M: "mutexes s q own" and m: "cb_type s m = MUCB" "level s m = 1"
    "owner s m = run s" "q m = t # B" and r: "run s \<noteq> OS_IDLE"
  obtains s' q' own' where "rt_mut_release m s = Some (OS_R_OK, s')"
    "kinv (switch_context s') q' (rmv_dly t ds)"
    "mutexes s' q' own'" "level s' m = 1" "owner s' m = t" "ret0 s' = (ret0 s)(t := 0)"
    "prio s' = (prio s)(run s := inherited s q (remove1 m (own (run s))) (prio_base s (run s)))"
    "\<And>x. x \<noteq> OS_RDY \<Longrightarrow> q' x = (q(m := B)) x" "tokens s' = tokens s" "cb_type s' = cb_type s"
proof -
  note k = kinvD [OF K]
  obtain f pr s3 where p: "mut_unlink (run s) m (set_level m 0 s) = Some (p_mlnk_update (\<lambda>_. f) (set_level m 0 s))"
    "mut_prio (p_mlnk_update (\<lambda>_. f) (set_level m 0 s)) (f (run s)) (prio_base s (run s)) = Some pr"
    "pr = inherited s q (remove1 m (own (run s))) (prio_base s (run s))"
    "s3 = set_prio (run s) pr (p_mlnk_update (\<lambda>_. f) (set_level m 0 s))"
    "sched s3 q ds {run s}" "is_task s3 = is_task s" "tasks_ok s3 = tasks_ok s"
    "\<And>x q'. (\<And>x. x \<noteq> m \<Longrightarrow> q x = [] \<Longrightarrow> q' x = []) \<Longrightarrow> x \<noteq> NULL \<Longrightarrow> is_task s x \<Longrightarrow>
       mutexes (mut_take m x s3) q'
         ((own(run s := remove1 m (own (run s))))(x := m # (own(run s := remove1 m (own (run s)))) x))"
    using release_prelude [OF K M m(1-3)] by metis
  have r3: "run s3 = run s" "state s3 = state s" "new_tsk s3 = run s" "prio s3 = (prio s)(run s := pr)"
    "p_lnk s3 m \<noteq> NULL" "tokens s3 = tokens s" "cb_type s3 = cb_type s" "ret0 s3 = ret0 s"
    using k(5) kinv_p_lnk_NULL [OF K, of m] m is_sem_MUCB [OF m(1)] by (simp_all add: p(4) is_head_def)
  have sem3: "is_sem_mbx s3 m" using m(1) r3 by (simp add: is_sem_mbx_def)
  obtain s4 where w: "rt_get_first m s3 = Some (t, s4)" "links_only s3 s4"
    "dly_only (rt_ret_val t 0 s4) (rt_rmv_dly t (rt_ret_val t 0 s4))"
    "sched (rt_rmv_dly t (rt_ret_val t 0 s4)) (q(m := B)) (rmv_dly t ds) (insert t {run s})"
    "is_task s3 t" "m \<noteq> OS_RDY"
    using get_waiter_rmv_dly [OF p(5) sem3 m(4), of "rt_ret_val t 0"] quiet_ret_val(1) by metis
  let ?s5 = "rt_rmv_dly t (rt_ret_val t 0 s4)"
  let ?s6 = "mut_take m t ?s5"
  have tr: "t \<noteq> run s" using k(10) [of m] m(4) by auto
  have tn: "t \<noteq> NULL" using w(5) by (simp add: is_task_def)
  note f4 = links_only_fields [OF w(2)] and f5 = dly_only_fields [OF w(3)]
  have c5: "core_only s3 ?s5"
    by (rule core_only_trans [OF links_only_core [OF w(2)] core_only_trans [OF _ dly_only_core [OF w(3)]]]) simp
  note c5f = core_only_fields [OF c5]
  have n5: "new_tsk ?s5 = run s" "ret0 ?s5 = (ret0 s)(t := 0)"
  proof -
    have "new_tsk s4 = new_tsk s3" "ret0 s4 = ret0 s3" using w(2) by (auto simp: links_only_def)
    moreover have "new_tsk ?s5 = new_tsk (rt_ret_val t 0 s4)" "ret0 ?s5 = ret0 (rt_ret_val t 0 s4)"
      using w(3) unfolding dly_only_def by fastforce+
    ultimately show "new_tsk ?s5 = run s" "ret0 ?s5 = (ret0 s)(t := 0)"
      using r3 by (simp_all add: rt_ret_val_def)
  qed
  have st5: "state ?s5 = state s" using f4 f5 r3 by (simp add: rt_ret_val_def)
  have f6: "run ?s6 = run s" "prio ?s6 = (prio s)(run s := pr)" "is_task ?s6 = is_task s"
    "tasks_ok ?s6 = tasks_ok s" "new_tsk ?s6 = run s" "state ?s6 = state s" "ret0 ?s6 = (ret0 s)(t := 0)"
    using c5f p(6,7) r3 n5 st5 quiet_task [OF quiet_mut_take [of t ?s5 m t]]
    by (auto simp: mut_take_def)
  have S6: "sched ?s6 (q(m := B)) (rmv_dly t ds) {run ?s6, t}"
    using w(4) quiet_sched [OF quiet_mut_take, of t "insert t {run s}" m t ?s5] f6(1)
    by (simp add: insert_commute)
  have ts: "is_task s t" using w(5) p(6) by simp
  obtain x C where qx: "(q(m := B)) OS_RDY = x # C" using kinv_rdy_nonempty [OF K r] w(6) by auto
  have rdy: "rt_rdy_prio ?s6 = Some (prio ?s6 x)" using rt_rdy_prio_hd [OF S6 qx] .
  have idle: "OS_IDLE \<in> set ((q(m := B)) OS_RDY)" using k(7) r w(6) by auto
  have hp: "prio ?s6 t' \<le> prio ?s6 (run ?s6)" if "prio ?s6 x \<le> prio ?s6 (run ?s6)" "t' \<in> set ((q(m := B)) OS_RDY)" for t'
    using schedD(4) [OF S6, of OS_RDY] qx that by (auto simp: by_prio_Cons intro: order_trans)
  obtain s' q' where e: "(if prio ?s6 x \<le> prio ?s6 (run ?s6) then rt_dispatch t ?s6
      else do { s \<leftarrow> rt_put_prio OS_RDY (run ?s6) ?s6; s \<leftarrow> rt_put_prio OS_RDY t s;
                rt_dispatch NULL (set_state t READY (set_state (run s) READY s)) }) = Some s'"
    "core_only ?s6 s'" "kinv (switch_context s') q' (rmv_dly t ds)" "ret0 s' = ret0 ?s6"
    "\<And>x. x \<noteq> OS_RDY \<Longrightarrow> q' x = (q(m := B)) x"
  proof (cases "prio ?s6 x \<le> prio ?s6 (run ?s6)")
    case True
    obtain s' where "rt_dispatch t ?s6 = Some s'" "core_only ?s6 s'"
      "kinv (switch_context s') (dispatched ?s6 t (q(m := B))) (rmv_dly t ds)" "ret0 s' = ret0 ?s6"
      by (rule rt_dispatch_task [OF S6]) (use ts tr k f6 idle hp [OF True] in auto)
    then show thesis using that [of s' "dispatched ?s6 t (q(m := B))"] True by (simp add: dispatched_def)
  next
    case False
    have rr: "is_task ?s6 (run ?s6)" "run ?s6 \<notin> fst ` set (rmv_dly t ds)" "is_task ?s6 t"
      "t \<notin> fst ` set (rmv_dly t ds)" "t \<noteq> run ?s6" "tasks_ok ?s6"
      using k ts tr f6 by auto
    obtain s1 s2 s' q' where b: "rt_put_prio OS_RDY (run ?s6) ?s6 = Some s1" "run s1 = run ?s6"
      "rt_put_prio OS_RDY t s1 = Some s2" "run s2 = run ?s6"
      "rt_dispatch NULL (set_state t READY (set_state (run ?s6) READY s2)) = Some s'"
      "core_only ?s6 s'" "kinv (switch_context s') q' (rmv_dly t ds)"
      "\<And>x. x \<noteq> OS_RDY \<Longrightarrow> q' x = (q(m := B)) x" "ret0 s' = ret0 ?s6"
      using put_both [OF S6 rr idle] by metis
    show thesis by (rule that [OF _ b(6,7,9,8)]) (use False b in simp)
  qed
  have take: "set_p_mlnk t m (set_p_mlnk m (p_mlnk (set_owner m t (set_level m 1 ?s5)) t)
      (set_owner m t (set_level m 1 ?s5))) = ?s6"
    using tr by (simp add: mut_take_def)
  have "mut_hand_over m s3 = Some s'"
    unfolding e(1) [symmetric]
    by (simp only: mut_hand_over_def w(1) Let_def bind.bind_lunit prod.case take rdy) 
  then have "rt_mut_release m s = Some (OS_R_OK, s')"
    using m(2,3) p(1,2) r3(5) by (simp add: rt_mut_release_def p(4) Let_def cong: if_cong)
  moreover have "mutexes s' q'
      ((own(run s := remove1 m (own (run s))))(t := m # (own(run s := remove1 m (own (run s)))) t))"
  proof (rule mutexes_core [OF _ e(2), of q'])
    have "mutexes (mut_take m t s3) q'
      ((own(run s := remove1 m (own (run s))))(t := m # (own(run s := remove1 m (own (run s)))) t))"
    proof (rule p(8) [OF _ tn ts])
      fix y assume "y \<noteq> m" "q y = []"
      moreover have "q OS_RDY \<noteq> []" using qx w(6) by auto
      ultimately show "q' y = []" using e(5) [of y] by (cases "y = OS_RDY") auto
    qed
    then show "mutexes ?s6 q'
      ((own(run s := remove1 m (own (run s))))(t := m # (own(run s := remove1 m (own (run s)))) t))"
      by (rule mutexes_cong) (use c5f f6(3) p(6) in \<open>auto simp: mut_take_def is_task_def fun_eq_iff\<close>)
  qed
  moreover note e(3)
  moreover have "level s' m = 1" "owner s' m = t" "ret0 s' = (ret0 s)(t := 0)"
    "prio s' = (prio s)(run s := pr)" "tokens s' = tokens s" "cb_type s' = cb_type s"
    using core_only_fields [OF e(2)] e(4) f6 c5f r3 by (auto simp: mut_take_def)
  ultimately show thesis using that e(5) p(3) by blast
qed


text \<open>Deleting a mutex.\<close>

lemma mutexes_drop:
  assumes "mutexes (set_level m 0 s) q own" "is_task s' = is_task s" "cb_type s' = (cb_type s)(m := c)"
    "c \<noteq> MUCB" "p_mlnk s' = p_mlnk s" "owner s' = owner s" "level s' = level s"
    "\<And>x. x \<noteq> m \<Longrightarrow> cb_type s x = MUCB \<Longrightarrow> q x = [] \<Longrightarrow> q' x = []"
  shows "mutexes s' q' own"
proof -
  have tk: "is_task (set_level m 0 s) = is_task s" by (simp add: is_task_def fun_eq_iff)
  have "{x. cb_type s' x = MUCB \<and> level s' x \<noteq> 0 \<and> owner s' x = t} =
      {x. cb_type s x = MUCB \<and> level (set_level m 0 s) x \<noteq> 0 \<and> owner s x = t}" for t
    using assms by auto
  then show ?thesis using assms unfolding mutexes_def tk by (simp split: if_splits)
qed

lemma mut_chain_heads:
  assumes K: "kinv s q ds" and M: "mutexes s q own" and t: "is_task s t" and x: "x \<in> set (own t)"
  shows "p_lnk s x = hd0 (q x) \<and> NULL \<notin> set (q x)"
proof -
  have "cb_type s x = MUCB" using mutexesD(3) [OF M t] x by simp
  then have "is_head s x" using is_sem_MUCB by (simp add: is_head_def)
  then show ?thesis using p_lnk_head [OF schedD(1) [OF kinvD(1) [OF K]]] queues_task [OF schedD(1) [OF kinvD(1) [OF K]]]
    by (auto simp: is_task_def)
qed

text \<open>The first part of the deletion restores the priority of the owner.\<close>

lemma mut_delete_owner:
  assumes K: "kinv s q ds" and M: "mutexes s q own" and m: "cb_type s m = MUCB"
  obtains s0 q0 own0 where "mut_disown m s = Some s0"
    "sched s0 q0 ds {run s0}" "run s0 = run s" "state s0 = state s" "new_tsk s0 = new_tsk s"
    "cb_type s0 = cb_type s" "is_task s0 = is_task s" "tasks_ok s0 = tasks_ok s"
    "os_active_TCB s0 = os_active_TCB s"
    "\<And>x. set (q0 x) = set (q x)" "mutexes (set_level m 0 s0) (q0(m := [])) own0"
    "tokens s0 = tokens s" "ret0 s0 = ret0 s" "level s0 = level s" "owner s0 = owner s"
proof (cases "level s m = 0")
  case True
  have "mutexes (set_level m 0 s) (q(m := [])) own"
    by (rule mutexes_cong [OF M]) (use True in \<open>auto simp: is_task_def fun_eq_iff\<close>)
  then show thesis using that [of s q own] kinvD(1) [OF K] True by (simp add: mut_disown_def)
next
  case False
  note k = kinvD [OF K]
  define t where "t = owner s m"
  have t: "is_task s t" using mutexesD(4) [OF M m False] by (simp add: t_def)
  have lv: "set_level m (level s m) s = s" by simp
  obtain f where f: "mut_unlink t m s = Some (p_mlnk_update (\<lambda>_. f) s)"
    "\<And>q'. q' m = [] \<Longrightarrow> (\<And>x. q x = [] \<Longrightarrow> q' x = []) \<Longrightarrow>
       mutexes (p_mlnk_update (\<lambda>_. f) (set_level m 0 s)) q' (own(t := remove1 m (own t)))"
    "chain f (f t) (remove1 m (own t)) NULL"
    using mut_unlink_mutexes [OF M m False t_def [symmetric] t, of "level s m", unfolded lv] by metis
  let ?s1 = "p_mlnk_update (\<lambda>_. f) s"
  have "p_lnk ?s1 x = hd0 (q x) \<and> NULL \<notin> set (q x)" if "x \<in> set (remove1 m (own t))" for x
    using mut_chain_heads [OF K M t, of x] that set_remove1_subset [of m "own t"] by auto
  then obtain pr where pr: "mut_prio ?s1 (f t) (prio_base s t) = Some pr"
    using mut_prio_ok [of ?s1 "f t" "remove1 m (own t)" q] f(3) by fastforce
  have S1: "sched ?s1 q ds {run s}" using k(1) sched_cong [of ?s1 s] by simp
  have tk1: "is_task (set_prio t v ?s1) = is_task s" "tasks_ok (set_prio t v ?s1) = tasks_ok s"
    "is_task ?s1 = is_task s" "tasks_ok ?s1 = tasks_ok s" for v
    by (simp_all add: is_task_def tasks_ok_def fun_eq_iff)
  have fin: "mutexes (set_level m 0 s0) (q0(m := [])) (own(t := remove1 m (own t)))"
    if "is_task s0 = is_task s" "cb_type s0 = cb_type s" "p_mlnk s0 = f" "owner s0 = owner s"
      "level s0 = level s" "\<And>x. set (q0 x) = set (q x)" for s0 q0
  proof -
    have "mutexes (p_mlnk_update (\<lambda>_. f) (set_level m 0 s)) (q0(m := [])) (own(t := remove1 m (own t)))"
    proof (rule f(2))
      show "(q0(m := [])) x = []" if "q x = []" for x
        using that \<open>\<And>x. set (q0 x) = set (q x)\<close> [of x] by (cases "x = m") auto
    qed simp
    then show ?thesis
    proof (rule mutexes_cong)
      show "is_task (set_level m 0 s0) = is_task (p_mlnk_update (\<lambda>_. f) (set_level m 0 s))"
        using that(1) by (simp add: is_task_def fun_eq_iff)
    qed (use that in simp_all)
  qed
  consider "prio s t = pr" | "prio s t \<noteq> pr" "t = run s" | "prio s t \<noteq> pr" "t \<noteq> run s" by blast
  then show thesis
  proof cases
    case 1
    have "mutexes (set_level m 0 ?s1) (q(m := [])) (own(t := remove1 m (own t)))"
      by (rule fin) (simp_all add: tk1)
    then show thesis
      by (intro that [of ?s1 q "own(t := remove1 m (own t))"]) (use False f(1) pr 1 S1 tk1 in \<open>simp_all add: t_def mut_disown_def\<close>)
  next
    case 2
    have "sched (set_prio t pr ?s1) q ds {run s}" by (rule sched_prio_float [OF S1]) (simp add: 2)
    moreover have "mutexes (set_level m 0 (set_prio t pr ?s1)) (q(m := [])) (own(t := remove1 m (own t)))"
      by (rule fin) (simp_all add: tk1)
    ultimately show thesis
      by (intro that [of "set_prio t pr ?s1" q "own(t := remove1 m (own t))"])
        (use False f(1) pr 2 tk1 in \<open>simp_all add: t_def Let_def mut_disown_def\<close>)
  next
    case 3
    obtain s' where p: "rt_resort_prio t (set_prio t pr ?s1) = Some s'" "links_only (set_prio t pr ?s1) s'"
      "sched s' (resorted ((prio ?s1)(t := pr)) t q) ds {run s}"
      using sched_resort [OF S1, of t pr] t tk1 3 by auto
    note fl = links_only_fields [OF p(2)] core_only_fields [OF links_only_core [OF p(2)]]
    have r: "new_tsk s' = new_tsk s" "ret0 s' = ret0 s" using p(2) by (auto simp: links_only_def)
    show thesis
    proof (rule that [of s' "resorted ((prio ?s1)(t := pr)) t q"])
      show "mutexes (set_level m 0 s') ((resorted ((prio ?s1)(t := pr)) t q)(m := []))
          (own(t := remove1 m (own t)))"
        by (rule fin) (simp_all add: fl tk1)
    qed (use False f(1) pr 3 p fl tk1 r in \<open>simp_all add: t_def Let_def mut_disown_def\<close>)
  qed
qed

lemma rt_mut_delete_ok:
  assumes K: "kinv s q ds" and M: "mutexes s q own" and m: "cb_type s m = MUCB"
  obtains s' q0 q' own' where "rt_mut_delete m s = Some (OS_R_OK, s')"
    "kinv (switch_context s') q' (rmv_dlys (q0 m) ds)" "mutexes s' q' own'"
    "cb_type s' = (cb_type s)(m := 0)" "set (q0 m) = set (q m)"
    "ret0 s' = (\<lambda>t. if t \<in> set (q m) then 0 else ret0 s t)"
    "\<And>x. x \<noteq> OS_RDY \<Longrightarrow> set (q' x) = (if x = m then {} else set (q x))" "tokens s' = tokens s"
proof -
  note k = kinvD [OF K] and sem = is_sem_MUCB [OF m]
  obtain s0 q0 own0 where o: "mut_disown m s = Some s0"
    "sched s0 q0 ds {run s0}" "run s0 = run s" "state s0 = state s" "new_tsk s0 = new_tsk s"
    "cb_type s0 = cb_type s" "is_task s0 = is_task s" "tasks_ok s0 = tasks_ok s"
    "os_active_TCB s0 = os_active_TCB s"
    "\<And>x. set (q0 x) = set (q x)" "mutexes (set_level m 0 s0) (q0(m := [])) own0"
    "tokens s0 = tokens s" "ret0 s0 = ret0 s" "level s0 = level s" "owner s0 = owner s"
    using mut_delete_owner [OF K M m] by blast
  have i: "is_sem_mbx s0 = is_sem_mbx s" "free_addr s0 m" "OS_IDLE = run s \<or> OS_IDLE \<in> set (q0 OS_RDY)"
    "state s0 (run s) = RUNNING" "new_tsk s0 = run s" "tasks_ok s0"
    using o k sem_addr [OF K sem] by (auto simp: is_sem_mbx_def free_addr_def fun_eq_iff)
  obtain s1 s2 where d: "flush_waiters m s0 = Some s1" "preempt_ready s1 = Some s2" "core_only s0 s2"
    "kinv (switch_context (set_cb_type m 0 s2)) (preempted s0 (flushed s0 m q0)) (rmv_dlys (q0 m) ds)"
    "ret0 s2 = (\<lambda>t. if t \<in> set (q0 m) then 0 else ret0 s0 t)"
    using delete_waiters [OF K sem o(2,3) i(4,5,1) o(7) i(6,2,3)] by blast
  note c = core_only_fields [OF d(3)]
  let ?s' = "set_cb_type m 0 s2" and ?q' = "preempted s0 (flushed s0 m q0)"
  have "rt_mut_delete m s = Some (OS_R_OK, ?s')" using o(1) d(1,2) by (simp add: rt_mut_delete_def)
  moreover have q': "x \<noteq> OS_RDY \<Longrightarrow> ?q' x = (q0(m := [])) x" for x
    by (simp add: preempted_def flushed_def split: list.split)
  moreover have "mutexes ?s' ?q' own0"
  proof (rule mutexes_drop [where s = s0 and m = m and c = 0 and q = "q0(m := [])"])
    have "free_addr s2 m" using i(2) c by (simp add: free_addr_def)
    then show "is_task ?s' = is_task s0" using c(4) by (auto simp: is_task_def free_addr_def fun_eq_iff)
    show "?q' x = []" if "x \<noteq> m" "cb_type s0 x = MUCB" "(q0(m := [])) x = []" for x
      using q' that MUCB_not_RDY [OF K, of x] o(6) by metis
  qed (use o c in \<open>simp_all add: cb_types\<close>)
  moreover have "ret0 ?s' = (\<lambda>t. if t \<in> set (q m) then 0 else ret0 s t)"
    using d(5) o(10,13) by (simp cong: if_cong)
  moreover have "cb_type ?s' = (cb_type s)(m := 0)" "tokens ?s' = tokens s" using c o(6,12) by simp_all
  moreover have "set (?q' x) = (if x = m then {} else set (q x))" if "x \<noteq> OS_RDY" for x
    using q' [OF that] o(10) by simp
  ultimately show thesis using that [of ?s' ?q' q0 own0] d(4) o(10) by blast
qed

end
