(* ===== verification/Rtx_System.thy ===== *)
theory Rtx_System
  imports Cmsis_Timer Rtx_Event Rtx_Mutex
begin

text \<open>
  The system exceptions of the kernel (\<open>rt_System.c\<close>, \<open>rt_Robin.c\<close>): the tick, the post-service
  handling of the requests of interrupt handlers, the scheduler lock, suspending and resuming.
\<close>

definition rt_chk_robin :: "kernel \<Rightarrow> kernel option" where
  "rt_chk_robin s =
     (let s = (if robin_task s \<noteq> p_lnk s OS_RDY
               then s\<lparr>robin_task := p_lnk s OS_RDY,
                      robin_time := ucast (os_time s) + robin_tout s - 1\<rparr>
               else s)
      in if robin_time s = ucast (os_time s)
         then do {
           let s = s\<lparr>robin_task := NULL\<rparr>;
           (p_new, s) \<leftarrow> rt_get_first OS_RDY s;
           rt_put_prio OS_RDY p_new s
         }
         else Some s)"

definition rt_systick :: "kernel \<Rightarrow> kernel option" where
  "rt_systick s = do {
     let s = set_state (run s) READY s;
     let s = rt_put_rdy_first (run s) s;
     s \<leftarrow> rt_chk_robin s;
     let s = s\<lparr>os_time := os_time s + 1\<rparr>;
     s \<leftarrow> rt_dec_dly s;
     s \<leftarrow> sysTimerTick s;
     (next_TCB, s) \<leftarrow> rt_get_first OS_RDY s;
     Some (rt_switch_req next_TCB s)
   }"

text \<open>The loop of \<open>rt_pop_req\<close>, with the index as a result, and one request.\<close>

definition pop_one :: "U32 \<Rightarrow> kernel \<Rightarrow> kernel option" where
  "pop_one idx s =
     (let p_CB = psq_id s idx in
      if cb_type s p_CB = TCB then rt_evt_psh p_CB (ucast (psq_arg s idx)) s
      else if cb_type s p_CB = MCB then rt_mbx_psh p_CB (psq_arg s idx) s
      else rt_sem_psh p_CB s)"

partial_function (option) pop_loop :: "U32 \<Rightarrow> kernel \<Rightarrow> (U32 \<times> kernel) option" where
  "pop_loop idx s =
     (if psq_count s \<noteq> 0
      then do {
        s \<leftarrow> pop_one idx s;
        let idx = (if idx + 1 = ucast (psq_size s) then 0 else idx + 1);
        pop_loop idx (s\<lparr>psq_count := psq_count s - 1\<rparr>)
      }
      else Some (idx, s))"

definition rt_pop_req :: "kernel \<Rightarrow> kernel option" where
  "rt_pop_req s = do {
     let s = set_state (run s) READY s;
     let s = rt_put_rdy_first (run s) s;
     (idx, s) \<leftarrow> pop_loop (ucast (psq_last s)) s;
     let s = s\<lparr>psq_last := ucast idx\<rparr>;
     (next_TCB, s) \<leftarrow> rt_get_first OS_RDY s;
     Some (rt_switch_req next_TCB s)
   }"

section \<open>Locking and suspending the scheduler\<close>

text \<open>The lock saves the pending requests, of which the model keeps the post-service one, and the
  unlocking requests them again together with those that came in between.\<close>

definition rt_tsk_lock :: "kernel \<Rightarrow> bool \<times> kernel" where
  "rt_tsk_lock s = (pendsv s, s\<lparr>os_lock := True, pendsv := False\<rparr>)"

definition rt_tsk_unlock :: "bool \<Rightarrow> kernel \<Rightarrow> kernel" where
  "rt_tsk_unlock pend_flags s =
     s\<lparr>os_lock := False, pendsv := pendsv s \<or> pend_flags \<or> os_psh_flag s, os_psh_flag := False\<rparr>"

definition rt_suspend :: "kernel \<Rightarrow> U32 \<times> bool \<times> kernel" where
  "rt_suspend s =
     (let (pend_flags, s) = rt_tsk_lock s;
          delta = (if p_dlnk s OS_DLY \<noteq> NULL then ucast (delta_time s OS_DLY) else 0xFFFF);
          sleep = sysUserTimerWakeupTime s
      in (if sleep < delta then sleep else delta, pend_flags, s))"

text \<open>The loop of \<open>rt_resume\<close> over the delays that ended while the system slept.\<close>

partial_function (option) resume_loop :: "U32 \<Rightarrow> kernel \<Rightarrow> kernel option" where
  "resume_loop delta s =
     (if p_dlnk s OS_DLY \<noteq> NULL
      then do {
        s \<leftarrow> rt_dec_dly s;
        if delta = 0 then Some s
        else resume_loop (delta - 1) (s\<lparr>os_time := os_time s + 1\<rparr>)
      }
      else Some s)"

definition resume_delays :: "U32 \<Rightarrow> kernel \<Rightarrow> kernel option" where
  "resume_delays sleep_time s =
     (if p_dlnk s OS_DLY \<noteq> NULL
      then let d = ucast (delta_time s OS_DLY) in
        if d \<le> sleep_time
        then resume_loop (sleep_time - d)
               (set_delta_time OS_DLY 1 (s\<lparr>os_time := os_time s + d\<rparr>))
        else Some (set_delta_time OS_DLY (delta_time s OS_DLY - ucast sleep_time)
               (s\<lparr>os_time := os_time s + sleep_time\<rparr>))
      else Some (s\<lparr>os_time := os_time s + sleep_time\<rparr>))"

definition rt_resume :: "bool \<Rightarrow> U32 \<Rightarrow> kernel \<Rightarrow> kernel option" where
  "rt_resume pend_flags sleep_time s = do {
     let s = set_state (run s) READY s;
     let s = rt_put_rdy_first (run s) s;
     let s = s\<lparr>robin_task := NULL\<rparr>;
     s \<leftarrow> resume_delays sleep_time s;
     s \<leftarrow> sysUserTimerUpdate sleep_time s;
     (next_TCB, s) \<leftarrow> rt_get_first OS_RDY s;
     Some (rt_tsk_unlock pend_flags (rt_switch_req next_TCB s))
   }"


section \<open>What the exceptions do\<close>

text \<open>The tick of the delay list, with the scheduler's facts.\<close>

lemma expired_fst: "set (expired ds) \<subseteq> fst ` set ds"
  by (auto simp: expired_def dest: set_takeWhileD)

lemma kept_fst: "(t, k) \<in> set (kept ds) \<Longrightarrow> t \<in> fst ` set ds"
  by (auto simp: kept_def tick_ds_def dest: set_dropWhileD intro: image_eqI [rotated])

lemma by_prio_sorted_times: "sorted (map snd ds) \<Longrightarrow> (t, k) \<in> set (dropWhile (\<lambda>x. snd x = (1::nat)) ds) \<Longrightarrow>
    \<forall>x\<in>set ds. 0 < snd x \<Longrightarrow> 1 < k"
  by (induction ds) (auto split: if_splits)

lemma fold_make_ready:
  assumes "\<forall>h. by_prio pr (q h) \<and> distinct (q h)" "distinct E"
  shows "(\<forall>h. by_prio pr (fold (make_ready pr) E q h)) \<and>
    (\<forall>t. t \<in> set (fold (make_ready pr) E q OS_RDY) \<longleftrightarrow> t \<in> set (q OS_RDY) \<or> t \<in> set E) \<and>
    (\<forall>h t. h \<noteq> OS_RDY \<longrightarrow> t \<in> set (fold (make_ready pr) E q h) \<longleftrightarrow> t \<in> set (q h) \<and> t \<notin> set E)"
  using assms
proof (induction E arbitrary: q)
  case (Cons e E)
  let ?q = "make_ready pr e q"
  have "by_prio pr (removeAll e (q h))" for h
    using Cons.prems(1) by (simp add: by_prio_def sorted_wrt_filter removeAll_filter_not_eq)
  then have "\<forall>h. by_prio pr (?q h) \<and> distinct (?q h)"
    using Cons.prems(1) by (simp add: make_ready_def rmv_q_def by_prio_ins_prio distinct_removeAll)
  note IH = Cons.IH [OF this]
  have "t \<in> set (?q OS_RDY) \<longleftrightarrow> t = e \<or> t \<in> set (q OS_RDY)" for t by (auto simp: make_ready_def)
  moreover have "h \<noteq> OS_RDY \<Longrightarrow> t \<in> set (?q h) \<longleftrightarrow> t \<noteq> e \<and> t \<in> set (q h)" for h t
    by (simp add: make_ready_def)
  ultimately show ?case unfolding fold_simps o_apply using IH Cons.prems(2) by (simp add: disj_ac conj_ac)
qed simp

lemma sched_dec_dly:
  assumes S: "sched s q ds X" and X: "\<And>t. t \<in> X \<Longrightarrow> t \<notin> fst ` set ds"
  obtains s' where "rt_dec_dly s = Some s'" "sched_only s s'"
    "sched s' (fold (make_ready (prio s)) (expired ds) q) (kept ds) X"
    "state s' = (\<lambda>t. if t \<in> set (expired ds) then READY else state s t)"
proof -
  note D = schedD [OF S]
  have pos: "\<forall>x\<in>set ds. 0 < snd x" using D(3) by auto
  have nr: "\<forall>t\<in>fst ` set ds. t \<notin> set (q OS_RDY)" using sched_ready_queue [OF S] by blast
  obtain s' where p: "rt_dec_dly s = Some s'" "sched_only s s'"
    "queues s' (fold (make_ready (prio s)) (expired ds) q) NULL" "delays s' (kept ds)"
    "state s' = (\<lambda>t. if t \<in> set (expired ds) then READY else state s t)"
    using rt_dec_dly_ok [OF D(1,2) pos nr] .
  note f = sched_only_fields [OF p(2)]
  have srt: "sorted (map snd ds)" and dst: "distinct (map fst ds)"
    using D(2) deltas_sorted by (auto simp: delays_def)
  have dst2: "distinct (map fst (takeWhile (\<lambda>x. snd x = 1) ds) @ map fst (dropWhile (\<lambda>x. snd x = 1) ds))"
    using dst unfolding map_append [symmetric] takeWhile_dropWhile_id .
  then have dE: "distinct (expired ds)" unfolding expired_def distinct_append by blast
  note F = fold_make_ready [of "prio s" q, OF _ dE]
  have b: "\<forall>h. by_prio (prio s) (q h) \<and> distinct (q h)"
    by (intro allI conjI D(4) queues_distinct [OF D(1)])
  note F = F [OF b]
  let ?q = "fold (make_ready (prio s)) (expired ds) q"
  have inX: "t \<notin> set (expired ds)" if "t \<in> X" for t
    by (rule contra_subsetD [OF expired_fst X [OF that]])
  have "sched s' ?q (kept ds) X"
  proof (rule schedI)
    show "queues s' ?q NULL" "delays s' (kept ds)" by (rule p)+
    show "0 < k" if "(t, k) \<in> set (kept ds)" for t k
      using that by_prio_sorted_times [OF srt _ pos] by (fastforce simp: kept_def tick_ds_def)
    show "by_prio (prio s') (?q h)" for h using F f by simp
    show "t \<notin> set (?q h)" if "t \<in> X" for t h
      using that F D(5) inX by (cases "h = OS_RDY") auto
    fix t assume t: "is_task s' t" "t \<notin> X"
    then have t': "is_task s t" using f by simp
    show "t \<in> set (?q OS_RDY) \<longleftrightarrow> state s' t = READY" using F D(6) [OF t' t(2)] p(5) by simp
    have "(\<exists>h. h \<noteq> OS_RDY \<and> t \<in> set (?q h)) \<longleftrightarrow> (\<exists>h. h \<noteq> OS_RDY \<and> t \<in> set (q h)) \<and> t \<notin> set (expired ds)"
      using F by blast
    then show "(\<exists>h. h \<noteq> OS_RDY \<and> t \<in> set (?q h)) \<longleftrightarrow> waiting (state s' t)"
      using D(7) [OF t' t(2)] p(5) by (simp add: waiting_def)
    show "state s' t \<noteq> RUNNING" using D(9) [OF t' t(2)] p(5) by simp
    show "blocked (state s' t)" if k: "t \<in> fst ` set (kept ds)"
    proof -
      have "t \<in> fst ` set ds" using k kept_fst [of t _ ds] by auto
      moreover have "t \<notin> set (expired ds)"
      proof
        assume "t \<in> set (expired ds)"
        then have "t \<in> set (map fst (takeWhile (\<lambda>x. snd x = 1) ds))" by (simp add: expired_def)
        moreover have "t \<in> set (map fst (dropWhile (\<lambda>x. snd x = 1) ds))"
          using k by (force simp: kept_def tick_ds_def)
        ultimately show False using dst2 by auto
      qed
      ultimately show ?thesis using D(8) [OF t' t(2)] p(5) by simp
    qed
  qed
  then show thesis using that p by blast
qed


text \<open>The timers and their queue are no part of the scheduler.\<close>

definition timers_only :: "kernel \<Rightarrow> kernel \<Rightarrow> bool" where
  "timers_only s s' \<longleftrightarrow> (\<exists>a b c d e f g h i j k. s' = s\<lparr>tmr_next := a, tmr_tcnt := b, tmr_state := c,
     os_timer_head := d, psq_first := e, psq_count := f, psq_id := g, psq_arg := h, os_psh_flag := i,
     pendsv := j, os_err := k\<rparr>)"

lemma timers_onlyI: "s' = s\<lparr>tmr_next := tmr_next s', tmr_tcnt := tmr_tcnt s', tmr_state := tmr_state s',
     os_timer_head := os_timer_head s', psq_first := psq_first s', psq_count := psq_count s',
     psq_id := psq_id s', psq_arg := psq_arg s', os_psh_flag := os_psh_flag s', pendsv := pendsv s',
     os_err := os_err s'\<rparr> \<Longrightarrow> timers_only s s'"
  unfolding timers_only_def by (intro exI)

lemma timers_only_refl [simp]: "timers_only s s"
  by (rule timers_onlyI) simp

lemma timers_only_trans: "timers_only s s' \<Longrightarrow> timers_only s' s'' \<Longrightarrow> timers_only s s''"
  by (clarsimp simp: timers_only_def) (intro exI, rule refl)

lemma timers_only_steps:
  "timers_only s (set_tmr_tcnt p v s)" "timers_only s (set_tmr_next p p' s)"
  "timers_only s (set_tmr_state p w s)" "timers_only s (s\<lparr>os_timer_head := p\<rparr>)"
  "timers_only s (os_error c s)" "timers_only s (rt_psh_req s)" "timers_only s (rt_psq_enq p a s)"
  by (rule timers_onlyI; simp add: os_error_def rt_psh_req_def rt_psq_enq_def rt_inc_qi_def Let_def)+

lemma timers_only_fields:
  assumes "timers_only s s'"
  shows "run s' = run s" "is_task s' = is_task s" "tasks_ok s' = tasks_ok s" "prio s' = prio s"
    "state s' = state s" "sched s' q ds X = sched s q ds X" "os_time s' = os_time s"
proof -
  obtain a b c d e f g h i j k where s': "s' = s\<lparr>tmr_next := a, tmr_tcnt := b, tmr_state := c,
     os_timer_head := d, psq_first := e, psq_count := f, psq_id := g, psq_arg := h, os_psh_flag := i,
     pendsv := j, os_err := k\<rparr>" using assms unfolding timers_only_def by blast
  show "sched s' q ds X = sched s q ds X" by (rule sched_cong) (simp_all add: s')
qed (use assms in \<open>auto simp: timers_only_def is_task_def tasks_ok_def fun_eq_iff\<close>)

lemma rt_timer_insert_only: "rt_timer_insert t k s = Some s' \<Longrightarrow> timers_only s s'"
  by (auto simp: rt_timer_insert_def Let_def bind_eq_Some_conv intro!: timers_onlyI split: if_splits)

lemma isrMessagePut_only: "timers_only s (snd (isrMessagePut m v to s))"
  by (simp add: isrMessagePut_def isr_mbx_send_def timers_only_trans [OF timers_only_steps(7) timers_only_steps(6)])

lemma timer_expire_only:
  assumes "timer_expire p s = Some s'"
  shows "timers_only s s'"
  using assms
proof (induction rule: timer_expire.raw_induct [rotated 1, consumes 1, case_names 1])
  case (1 f p s s')
  show ?case
  proof (cases "p \<noteq> NULL \<and> tmr_tcnt s p = 0")
    case True
    let ?s1 = "s\<lparr>os_timer_head := tmr_next s p\<rparr>"
    obtain st s2 where m: "isrMessagePut (timer_queue s) (addr_of p) 0 ?s1 = (st, s2)" by fastforce
    let ?s3 = "if st \<noteq> osOK then os_error OS_ERR_TIMER_OVF s2 else s2"
    have a3: "timers_only s ?s3"
      using timers_only_trans [OF timers_only_steps(4) isrMessagePut_only [of ?s1]] m
        timers_only_trans [OF _ timers_only_steps(5)] by (metis snd_conv)
    obtain s4 where b: "(if tmr_type ?s3 p = osTimerPeriodic then rt_timer_insert p (tmr_icnt ?s3 p) ?s3
        else Some (set_tmr_state p osTimerStopped ?s3)) = Some s4" "f (tmr_next s p) s4 = Some s'"
      using 1(2) True m by (auto simp: Let_def bind_eq_Some_conv simp del: if_split)
    have c: "timers_only ?s3 s4"
      using b(1) rt_timer_insert_only timers_only_steps(3) by (auto split: if_splits)
    show ?thesis by (rule timers_only_trans [OF a3 timers_only_trans [OF c 1(1) [OF b(2)]]])
  qed (use 1 in auto)
qed

lemma sysTimerTick_only: "sysTimerTick s = Some s' \<Longrightarrow> timers_only s s'"
  by (auto simp: sysTimerTick_def Let_def split: if_splits
    dest!: timer_expire_only intro: timers_only_trans [OF timers_only_steps(1)])


section \<open>The tick\<close>

text \<open>The running task is put in front of the ready list at the start of an exception.\<close>

lemma run_first:
  assumes K: "kinv s q ds"
  shows "core_only s (rt_put_rdy_first (run s) (set_state (run s) READY s))"
    "sched (rt_put_rdy_first (run s) (set_state (run s) READY s)) (q(OS_RDY := run s # q OS_RDY)) ds {}"
proof -
  note k = kinvD [OF K]
  let ?s = "set_state (run s) READY s"
  have S: "sched ?s q ds {run s}" using k(1) by simp
  note p = sched_put_rdy_first [OF S, of "run s"]
  show "core_only s (rt_put_rdy_first (run s) ?s)"
    using core_only_trans [OF core_only_steps(1) links_only_core [OF p(1)]] k by simp
  show "sched (rt_put_rdy_first (run s) ?s) (q(OS_RDY := run s # q OS_RDY)) ds {}"
    using p(2) k by simp
qed

text \<open>The round robin: the first ready task is put behind those of its priority.\<close>

definition robin :: "kernel \<Rightarrow> (ptr \<Rightarrow> ptr list) \<Rightarrow> ptr \<Rightarrow> ptr list" where
  "robin s q = (if (if robin_task s \<noteq> p_lnk s OS_RDY then robin_tout s = 1 else robin_time s = ucast (os_time s))
     then (case q OS_RDY of [] \<Rightarrow> q | t # B \<Rightarrow> q(OS_RDY := ins_prio (prio s) t B)) else q)"

lemma sched_robin_fields [simp]:
  "sched (s\<lparr>robin_task := a\<rparr>) q ds X = sched s q ds X"
  "sched (s\<lparr>robin_task := a, robin_time := b\<rparr>) q ds X = sched s q ds X"
  "sched (s\<lparr>os_time := c\<rparr>) q ds X = sched s q ds X"
  by (rule sched_cong; simp)+

text \<open>What the exceptions leave alone until the timers are looked at.\<close>

definition sys_frame :: "kernel \<Rightarrow> kernel \<Rightarrow> bool" where
  "sys_frame s s' \<longleftrightarrow> run s' = run s \<and> prio s' = prio s \<and> cb_type s' = cb_type s \<and>
     os_active_TCB s' = os_active_TCB s \<and> tmr_next s' = tmr_next s \<and> tmr_tcnt s' = tmr_tcnt s \<and>
     os_timer_head s' = os_timer_head s \<and> tmr_type s' = tmr_type s \<and> tmr_icnt s' = tmr_icnt s \<and>
     tmr_state s' = tmr_state s \<and>
     timer_queue s' = timer_queue s \<and> robin_tout s' = robin_tout s"

lemma sys_frame_refl [simp]: "sys_frame s s"
  by (simp add: sys_frame_def)

lemma sys_frame_trans: "sys_frame s s' \<Longrightarrow> sys_frame s' s'' \<Longrightarrow> sys_frame s s''"
  by (simp add: sys_frame_def)

lemma core_sys_frame: "core_only s s' \<Longrightarrow> sys_frame s s'"
  by (auto simp: core_only_def sys_frame_def)

lemma sys_frame_steps [simp]:
  "sys_frame s (s\<lparr>robin_task := a\<rparr>)" "sys_frame s (s\<lparr>robin_task := a, robin_time := b\<rparr>)"
  "sys_frame s (s\<lparr>os_time := c\<rparr>)"
  by (simp_all add: sys_frame_def)

lemma sys_frame_same:
  assumes "sys_frame s s'"
  shows "is_task s' = is_task s" "tasks_ok s' = tasks_ok s" "timers s' ts = timers s ts" "rearm s' = rearm s"
    "prio s' = prio s" "run s' = run s"
  using assms timers_cong [of s' s ts]
  by (simp_all add: sys_frame_def is_task_def tasks_ok_def rearm_def fun_eq_iff)

lemma rt_chk_robin_ok:
  assumes S: "sched s q ds {}" and q: "q OS_RDY = t # B"
  obtains s' where "rt_chk_robin s = Some s'" "sched s' (robin s q) ds {}" "sys_frame s s'"
    "state s' = state s" "os_time s' = os_time s"
proof -
  let ?a = "robin_task s \<noteq> p_lnk s OS_RDY"
  define s1 where "s1 = (if ?a then s\<lparr>robin_task := p_lnk s OS_RDY,
      robin_time := ucast (os_time s) + robin_tout s - 1\<rparr> else s)"
  have S1: "sched (s1\<lparr>robin_task := NULL\<rparr>) q ds {}" "sched s1 q ds {}" and f1: "sys_frame s s1"
    and st: "state s1 = state s" "os_time s1 = os_time s"
    using S by (simp_all add: s1_def)
  have tm: "robin_time s1 = ucast (os_time s1) \<longleftrightarrow>
      (if ?a then robin_tout s = 1 else robin_time s = ucast (os_time s))"
    by (auto simp: s1_def add.assoc)
  have e: "rt_chk_robin s = (if robin_time s1 = ucast (os_time s1)
         then do {
           (p_new, s) \<leftarrow> rt_get_first OS_RDY (s1\<lparr>robin_task := NULL\<rparr>);
           rt_put_prio OS_RDY p_new s
         } else Some s1)"
    by (simp add: rt_chk_robin_def s1_def Let_def)
  show thesis
  proof (cases "robin_time s1 = ucast (os_time s1)")
    case False
    then have "robin s q = q" using tm by (simp add: robin_def)
    then show thesis using that [of s1] False e S1 f1 st by simp
  next
    case True
    then have r: "robin s q = q(OS_RDY := ins_prio (prio s) t B)" using tm q by (simp add: robin_def)
    obtain s2 where p: "rt_get_first OS_RDY (s1\<lparr>robin_task := NULL\<rparr>) = Some (t, s2)"
      "links_only (s1\<lparr>robin_task := NULL\<rparr>) s2" "sched s2 (q(OS_RDY := B)) ds {t}"
      using sched_get_first [OF S1(1) is_head_RDY q] by auto
    have f2: "sys_frame s s2"
      by (rule sys_frame_trans [OF f1 sys_frame_trans [OF sys_frame_steps(1) core_sys_frame [OF links_only_core [OF p(2)]]]])
    note l2 = links_only_fields [OF p(2)] core_only_fields(10) [OF links_only_core [OF p(2)]]
    have t: "is_task s t" "t \<notin> fst ` set ds" "state s t = READY" using sched_ready_queue [OF S, of t] q by auto
    have st2: "state s2 = state s" "os_time s2 = os_time s" using l2 st by simp_all
    obtain s3 where p3: "rt_put_prio OS_RDY t s2 = Some s3" "links_only s2 s3"
      "sched s3 ((q(OS_RDY := B))(OS_RDY := ins_prio (prio s2) t ((q(OS_RDY := B)) OS_RDY))) ds ({t} - {t})"
      by (rule sched_put_prio_rdy [OF p(3)]) (use t st2 sys_frame_same [OF f2] in auto)
    note l3 = links_only_fields [OF p3(2)] core_only_fields(10) [OF links_only_core [OF p3(2)]]
    have "sys_frame s s3" by (rule sys_frame_trans [OF f2 core_sys_frame [OF links_only_core [OF p3(2)]]])
    moreover have "sched s3 (robin s q) ds {}" using p3(3) sys_frame_same(5) [OF f2] by (simp add: r)
    ultimately show thesis using that [of s3] True e p(1) p3(1) l3 st2 by simp
  qed
qed


text \<open>The invariant of the timers: all will expire later, and a period is never zero.\<close>

definition timers_ok :: "kernel \<Rightarrow> (ptr \<times> nat) list \<Rightarrow> bool" where
  "timers_ok s ts \<longleftrightarrow> timers s ts \<and> (\<forall>x\<in>set ts. 0 < snd x) \<and>
     (\<forall>t\<in>fst ` set ts. tmr_type s t = osTimerPeriodic \<longrightarrow> tmr_icnt s t \<noteq> 0) \<and>
     fst ` set ts = {t. tmr_state s t = osTimerRunning}"

text \<open>The timers that are in the list after a tick are those that are still running.\<close>

lemma fst_fold_rearm: "fst ` set (fold (rearm s) E ts) = fst ` set ts \<union> {t \<in> set E. tmr_type s t = osTimerPeriodic}"
proof (induction E arbitrary: ts)
  case (Cons e E)
  have "fst ` set (rearm s e ts) = fst ` set ts \<union> {t. t = e \<and> tmr_type s t = osTimerPeriodic}"
    by (auto simp: rearm_def)
  then show ?case using Cons.IH [of "rearm s e ts"] by auto
qed simp

lemma expired_kept:
  assumes "distinct (map fst ts)"
  shows "fst ` set (kept ts) = fst ` set ts - set (expired ts)"
proof -
  have "map fst ts = expired ts @ map fst (kept ts)"
    by (simp add: expired_def kept_def tick_ds_def comp_def flip: map_append)
  then have "distinct (expired ts @ map fst (kept ts))" "set (map fst ts) = set (expired ts) \<union> set (map fst (kept ts))"
    using assms by (metis, metis set_append)
  then show ?thesis by auto
qed

lemma running_after:
  assumes "distinct (map fst ts)" "fst ` set ts = {t. tmr_state s t = osTimerRunning}"
    "tmr_state s' = after_expiry s (expired ts)"
  shows "fst ` set (fold (rearm s) (expired ts) (kept ts)) = {t. tmr_state s' t = osTimerRunning}"
proof -
  have "set (expired ts) \<subseteq> fst ` set ts" by (rule expired_fst)
  then show ?thesis
    unfolding fst_fold_rearm expired_kept [OF assms(1)] assms(2,3) after_expiry_def
    by (auto simp: osTimerStopped_def osTimerRunning_def)
qed

lemma timers_ok_same: "sys_frame s s' \<Longrightarrow> timers_ok s' ts = timers_ok s ts"
  using sys_frame_same(3) [of s s' ts] by (simp add: timers_ok_def sys_frame_def)

lemma fold_rearm_ok:
  assumes "\<forall>x\<in>set ts. 0 < snd x" "\<forall>t\<in>set E \<union> fst ` set ts. tmr_type s t = osTimerPeriodic \<longrightarrow> tmr_icnt s t \<noteq> 0"
  shows "(\<forall>x\<in>set (fold (rearm s) E ts). 0 < snd x) \<and>
    (\<forall>t\<in>fst ` set (fold (rearm s) E ts). tmr_type s t = osTimerPeriodic \<longrightarrow> tmr_icnt s t \<noteq> 0)"
  using assms
proof (induction E arbitrary: ts)
  case (Cons e E)
  have "\<forall>x\<in>set (rearm s e ts). 0 < snd x" using Cons.prems by (auto simp: rearm_def unat_gt_0)
  moreover have "\<forall>t\<in>set E \<union> fst ` set (rearm s e ts). tmr_type s t = osTimerPeriodic \<longrightarrow> tmr_icnt s t \<noteq> 0"
    using Cons.prems(2) by (auto simp: rearm_def)
  ultimately show ?case using Cons.IH by simp
qed simp

lemma sysTimerTick_timers_ok:
  assumes T: "timers_ok s ts"
  obtains s' where "sysTimerTick s = Some s'" "timers_ok s' (fold (rearm s) (expired ts) (kept ts))"
    "timers_only s s'"
proof -
  have E: "t \<in> fst ` set ts" if "t \<in> set (expired ts)" for t by (rule subsetD [OF expired_fst that])
  have K: "fst ` set (kept ts) \<subseteq> fst ` set ts" using kept_fst by fastforce
  obtain s' where s': "sysTimerTick s = Some s'" "timers s' (fold (rearm s) (expired ts) (kept ts))" "tmr_keep s s'"
    "tmr_state s' = after_expiry s (expired ts)"
  proof (rule sysTimerTick_ok [of s ts])
    show "timers s ts" "\<forall>x\<in>set ts. 0 < snd x" using T by (simp_all add: timers_ok_def)
    show "\<forall>t\<in>set (expired ts). tmr_type s t = osTimerPeriodic \<longrightarrow> tmr_icnt s t \<noteq> 0"
      using T E unfolding timers_ok_def by blast
  qed
  have run: "fst ` set (fold (rearm s) (expired ts) (kept ts)) = {t. tmr_state s' t = osTimerRunning}"
    by (rule running_after [OF _ _ s'(4)]) (use T in \<open>simp_all add: timers_ok_def timers_def\<close>)
  have srt: "sorted (map snd ts)" using T tdeltas_sorted by (auto simp: timers_ok_def timers_def)
  have p: "0 < k" if "(t, k) \<in> set (kept ts)" for t k
    using that by_prio_sorted_times [OF srt] T by (fastforce simp: kept_def tick_ds_def timers_ok_def)
  have "timers_ok s' (fold (rearm s) (expired ts) (kept ts))"
    using fold_rearm_ok [of "kept ts" "expired ts" s] p E K T s'(2,3) run
    unfolding timers_ok_def tmr_keep_def by fastforce
  then show thesis using that s'(1) sysTimerTick_only [OF s'(1)] by blast
qed

text \<open>The whole tick: time, delays and timers advance by one, the tasks whose time is up become
  ready, and the first task of the highest priority runs next.\<close>

definition ticked :: "kernel \<Rightarrow> (ptr \<Rightarrow> ptr list) \<Rightarrow> (ptr \<times> nat) list \<Rightarrow> ptr \<Rightarrow> ptr list" where
  "ticked s q ds = fold (make_ready (prio s)) (expired ds)
     (robin (rt_put_rdy_first (run s) (set_state (run s) READY s)) (q(OS_RDY := run s # q OS_RDY)))"

lemma robin_rdy: "q OS_RDY = t # B \<Longrightarrow> set (robin s q OS_RDY) = insert t (set B)"
  "h \<noteq> OS_RDY \<Longrightarrow> robin s q h = q h"
  by (auto simp: robin_def split: list.split)

lemma fold_make_ready_in: "x \<in> set (q OS_RDY) \<Longrightarrow> x \<in> set (fold (make_ready pr) E q OS_RDY)"
  by (induction E arbitrary: q) (auto simp: make_ready_def)

lemma rt_systick_ok:
  assumes K: "kinv s q ds" and T: "timers_ok s ts"
  obtains s' where "rt_systick s = Some s'"
    "kinv (switch_context s') ((ticked s q ds)(OS_RDY := tl (ticked s q ds OS_RDY))) (kept ds)"
    "new_tsk s' = hd (ticked s q ds OS_RDY)"
    "timers_ok s' (fold (rearm s) (expired ts) (kept ts))" "os_time s' = os_time s + 1"
    "prio s' = prio s" "cb_type s' = cb_type s"
proof -
  note k = kinvD [OF K]
  define s1 where "s1 = rt_put_rdy_first (run s) (set_state (run s) READY s)"
  have c1: "core_only s s1" and S1: "sched s1 (q(OS_RDY := run s # q OS_RDY)) ds {}"
    using run_first [OF K] by (simp_all add: s1_def)
  note f1 = core_sys_frame [OF c1] core_only_fields(10) [OF c1]
  obtain s2 where r: "rt_chk_robin s1 = Some s2" "sched s2 (robin s1 (q(OS_RDY := run s # q OS_RDY))) ds {}"
    "sys_frame s1 s2" "os_time s2 = os_time s1"
    using rt_chk_robin_ok [OF S1] by (metis fun_upd_same)
  let ?q2 = "robin s1 (q(OS_RDY := run s # q OS_RDY))"
  define s3 where "s3 = s2\<lparr>os_time := os_time s2 + 1\<rparr>"
  have S3: "sched s3 ?q2 ds {}" using r(2) by (simp add: s3_def)
  have f3: "sys_frame s s3" unfolding s3_def
    by (rule sys_frame_trans [OF f1(1) sys_frame_trans [OF r(3) sys_frame_steps(3)]])
  obtain s4 where d: "rt_dec_dly s3 = Some s4" "sched_only s3 s4"
    "sched s4 (fold (make_ready (prio s3)) (expired ds) ?q2) (kept ds) {}"
    using sched_dec_dly [OF S3] by blast
  have f4: "sys_frame s s4" by (rule sys_frame_trans [OF f3 core_sys_frame [OF sched_only_core [OF d(2)]]])
  note g4 = sys_frame_same [OF f4]
  have q4: "fold (make_ready (prio s3)) (expired ds) ?q2 = ticked s q ds"
    using sys_frame_same(5) [OF f3] by (simp add: ticked_def s1_def)
  obtain s5 where t: "sysTimerTick s4 = Some s5" "timers_ok s5 (fold (rearm s4) (expired ts) (kept ts))"
    "timers_only s4 s5"
    using sysTimerTick_timers_ok [of s4 ts] T timers_ok_same [OF f4] by auto
  note g5 = timers_only_fields [OF t(3)]
  have S5: "sched s5 (ticked s q ds) (kept ds) {}" using d(3) g5(6) by (simp add: q4)
  have rn: "x \<in> set (ticked s q ds OS_RDY)" if "x = run s \<or> x \<in> set (q OS_RDY)" for x
    unfolding ticked_def by (rule fold_make_ready_in) (use that in \<open>simp add: robin_rdy(1)\<close>)
  have idle: "OS_IDLE \<in> set (ticked s q ds OS_RDY)" using rn k(7) by metis
  then obtain t0 B where q5: "ticked s q ds OS_RDY = t0 # B" by (cases "ticked s q ds OS_RDY") auto
  have tok: "tasks_ok s5" using g5(3) g4(2) k(6) by simp
  obtain s6 where p: "rt_get_first OS_RDY s5 = Some (t0, s6)" "core_only s5 (rt_switch_req t0 s6)"
    "kinv (switch_context (rt_switch_req t0 s6)) ((ticked s q ds)(OS_RDY := B)) (kept ds)"
    using dispatch_first [OF S5 q5 tok idle] by metis
  note c6 = core_sys_frame [OF p(2)] core_only_fields(10) [OF p(2)]
  have e: "rt_systick s = Some (rt_switch_req t0 s6)"
    using r(1) d(1) t(1) p(1) by (simp add: rt_systick_def Let_def flip: s1_def s3_def)
  have fr: "rearm s4 = rearm s" by (rule g4)
  have cb: "cb_type (rt_switch_req t0 s6) = cb_type s"
    using c6(1) t(3) f4 by (auto simp: sys_frame_def timers_only_def)
  show thesis
    by (rule that [OF e])
      (use p(3) t(2) c6 f1 r(4) d(2) g5 g4 q5 cb sys_frame_same(5) [OF c6(1)] timers_ok_same [OF c6(1)]
         core_only_fields(10) [OF sched_only_core [OF d(2)]] in \<open>simp_all add: fr s3_def\<close>)
qed


section \<open>The requests of interrupt handlers\<close>

text \<open>The post-service queue as a first-in first-out buffer.\<close>

definition psq_wf :: "kernel \<Rightarrow> bool" where
  "psq_wf s \<longleftrightarrow> unat (psq_last s) < unat (psq_size s) \<and> psq_count s \<le> psq_size s \<and>
     unat (psq_first s) = (unat (psq_last s) + unat (psq_count s)) mod unat (psq_size s)"

definition psq_from :: "nat \<Rightarrow> kernel \<Rightarrow> (ptr \<times> U32) list" where
  "psq_from i s = ring (\<lambda>i. (psq_id s (word_of_nat i), psq_arg s (word_of_nat i))) i
     (unat (psq_count s)) (unat (psq_size s))"

definition psq_items :: "kernel \<Rightarrow> (ptr \<times> U32) list" where
  "psq_items s = psq_from (unat (psq_last s)) s"

text \<open>Taking a request, as the loop of \<open>rt_pop_req\<close> does.\<close>

definition psq_next :: "U32 \<Rightarrow> kernel \<Rightarrow> U32" where
  "psq_next idx s = (if idx + 1 = ucast (psq_size s) then 0 else idx + 1)"

definition psq_get :: "kernel \<Rightarrow> (ptr \<times> U32) \<times> kernel" where
  "psq_get s = (let idx = ucast (psq_last s) in
     ((psq_id s idx, psq_arg s idx),
      s\<lparr>psq_last := ucast (psq_next idx s), psq_count := psq_count s - 1\<rparr>))"

lemma psq_next_unat:
  assumes "unat idx < unat (psq_size s)"
  shows "unat (psq_next idx s) = Suc (unat idx) mod unat (psq_size s)"
proof -
  have "unat idx + 1 < 4294967296" using assms unat_u8 [of "psq_size s"] by linarith
  then have u: "unat (idx + 1) = Suc (unat idx)" using unat_add_u32 [of idx 1] by simp
  then have "idx + 1 = ucast (psq_size s) \<longleftrightarrow> Suc (unat idx) = unat (psq_size s)"
    by (metis unat_ucast_8_32 unsigned_word_eqI)
  then show ?thesis using u ring_adv [OF assms] by (auto simp: psq_next_def)
qed

lemma ucast_unat8: "unat x < 256 \<Longrightarrow> unat (ucast (x :: U32) :: U8) = unat x"
  by (simp add: unat_ucast_32_8)

lemma word_of_nat_eq_iff32: "i < 4294967296 \<Longrightarrow> word_of_nat i = (x :: U32) \<longleftrightarrow> i = unat x"
  by (auto simp: unsigned_of_nat take_bit_eq_mod word_unat_eq_iff)

lemma psq_enq_ok:
  assumes wf: "psq_wf s" and c: "psq_count s < psq_size s"
  shows "psq_wf (rt_psq_enq p a s)" "psq_items (rt_psq_enq p a s) = psq_items s @ [(p, a)]"
    "psq_size (rt_psq_enq p a s) = psq_size s" "os_err (rt_psq_enq p a s) = os_err s"
proof -
  let ?n = "unat (psq_size s)" and ?l = "unat (psq_last s)" and ?c = "unat (psq_count s)"
  have f: "unat (psq_first s) = (?l + ?c) mod ?n" "?l < ?n" "?c < ?n"
    using wf c by (auto simp: psq_wf_def word_less_nat_alt)
  let ?i = "ucast (psq_first s) :: U32"
  have i: "unat ?i < ?n" using f by simp
  have cl: "(ucast (psq_count s) :: U32) < ucast (psq_size s)" using f(3) by (simp add: word_less_nat_alt)
  have il: "?i < ucast (psq_size s)" using i by (simp add: word_less_nat_alt)
  have e: "rt_psq_enq p a s = s\<lparr>psq_count := ucast (ucast (psq_count s) + 1 :: U32),
      psq_first := ucast (psq_next ?i s), psq_id := (psq_id s)(?i := p), psq_arg := (psq_arg s)(?i := a)\<rparr>"
    using cl il by (simp add: rt_psq_enq_def rt_inc_qi_def Let_def psq_next_def)
  have un: "unat (psq_next ?i s) = Suc ((?l + ?c) mod ?n) mod ?n" using psq_next_unat [OF i] f by simp
  then have "unat (psq_next ?i s) < 256" using f(3) unat_u8 [of "psq_size s"]
    by (metis less_trans mod_less_divisor gr_implies_not0 neq0_conv)
  then have fn: "unat (ucast (psq_next ?i s) :: U8) = (?l + Suc ?c) mod ?n"
    using un by (simp add: ucast_unat8 mod_simps)
  have "?c + 1 < 256" using f(3) unat_u8 [of "psq_size s"] by linarith
  then have cn: "unat (ucast (ucast (psq_count s) + 1 :: U32) :: U8) = Suc ?c"
    using unat_add_u32 [of "ucast (psq_count s)" 1] by (simp add: ucast_unat8)
  show "psq_size (rt_psq_enq p a s) = psq_size s" "os_err (rt_psq_enq p a s) = os_err s" by (simp_all add: e)
  show "psq_wf (rt_psq_enq p a s)"
    using f fn cn by (simp add: e psq_wf_def word_le_nat_alt)
  have "psq_items (rt_psq_enq p a s) =
      ring ((\<lambda>i. (psq_id s (word_of_nat i), psq_arg s (word_of_nat i)))((?l + ?c) mod ?n := (p, a))) ?l (Suc ?c) ?n"
    unfolding psq_items_def psq_from_def e
  proof (simp add: cn, rule ring_cong)
    fix j assume j: "j < ?n"
    then have "word_of_nat j = ?i \<longleftrightarrow> j = (?l + ?c) mod ?n"
      using word_of_nat_eq_iff32 [of j ?i] f(1) unat_u8 [of "psq_size s"] by simp
    then show "(if word_of_nat j = ?i then p else psq_id s (word_of_nat j),
         if word_of_nat j = ?i then a else psq_arg s (word_of_nat j)) =
        ((\<lambda>i. (psq_id s (word_of_nat i), psq_arg s (word_of_nat i)))((?l + ?c) mod ?n := (p, a))) j" by simp
  qed (use f in simp)
  then show "psq_items (rt_psq_enq p a s) = psq_items s @ [(p, a)]"
    using ring_store [OF f(3)] by (simp add: psq_items_def psq_from_def)
qed

text \<open>When the queue is full the request is lost and \<open>os_error\<close> reports it.\<close>

lemma psq_enq_full: "\<not> psq_count s < psq_size s \<Longrightarrow> psq_wf s \<Longrightarrow> rt_psq_enq p a s = os_error OS_ERR_FIFO_OVF s"
  by (auto simp: rt_psq_enq_def rt_inc_qi_def psq_wf_def Let_def word_less_nat_alt word_le_nat_alt)

lemma unat_pred: "c \<noteq> 0 \<Longrightarrow> unat c = Suc (unat (c - 1 :: U8))"
  using unat_sub_word [of 1 c] by (simp add: unat_gt_0 Suc_leI unat_eq_0)

lemma psq_from_Cons:
  assumes "unat idx < unat (psq_size s)" "psq_count s \<noteq> 0"
  shows "psq_from (unat idx) s = (psq_id s idx, psq_arg s idx) #
    psq_from (unat (psq_next idx s)) (s\<lparr>psq_count := psq_count s - 1\<rparr>)"
proof -
  have c: "unat (psq_count s) = Suc (unat (psq_count s - 1))"
    using assms(2) by (simp add: unat_pred)
  then show ?thesis using assms(1) psq_next_unat [OF assms(1)]
    by (simp add: psq_from_def ring_fetch psq_next_def)
qed

lemma psq_get_ok:
  assumes wf: "psq_wf s" and i: "psq_items s = x # xs"
  shows "psq_wf (snd (psq_get s)) \<and> fst (psq_get s) = x \<and> psq_items (snd (psq_get s)) = xs \<and>
    psq_size (snd (psq_get s)) = psq_size s"
proof -
  let ?i = "ucast (psq_last s) :: U32"
  have l: "unat ?i < unat (psq_size s)" and c: "psq_count s \<noteq> 0"
    using wf i by (auto simp: psq_wf_def psq_items_def psq_from_def)
  have pc: "unat (psq_count s) = Suc (unat (psq_count s - 1))" using unat_pred [OF c] .
  have nx: "unat (psq_next ?i s) = Suc (unat (psq_last s)) mod unat (psq_size s)"
    using psq_next_unat [OF l] by simp
  then have "unat (psq_next ?i s) < 256" using l unat_u8 [of "psq_size s"]
    by (metis less_trans mod_less_divisor gr_implies_not0 neq0_conv)
  then have u: "unat (ucast (psq_next ?i s) :: U8) = unat (psq_next ?i s)" by (rule ucast_unat8)
  have "psq_items s = (psq_id s ?i, psq_arg s ?i) # psq_items (snd (psq_get s))"
    using psq_from_Cons [OF l c] u by (simp add: psq_items_def psq_get_def psq_from_def Let_def)
  moreover have "psq_wf (snd (psq_get s))"
    using wf u nx pc l by (auto simp: psq_wf_def psq_get_def Let_def word_le_nat_alt mod_simps)
  ultimately show ?thesis using i by (simp add: psq_get_def Let_def)
qed

interpretation psq: fifo psq_wf psq_items "\<lambda>s. unat (psq_size s)" "\<lambda>v. rt_psq_enq (fst v) (snd v)" psq_get
proof
  fix s v assume "psq_wf s" "length (psq_items s) < unat (psq_size s)"
  then show "psq_wf (rt_psq_enq (fst v) (snd v) s) \<and> psq_items (rt_psq_enq (fst v) (snd v) s) = psq_items s @ [v] \<and>
      unat (psq_size (rt_psq_enq (fst v) (snd v) s)) = unat (psq_size s)"
    using psq_enq_ok by (simp add: psq_items_def psq_from_def word_less_nat_alt)
qed (use psq_get_ok in auto)


text \<open>One request, by the kind of the object it names; a request is in order when it names an active
  task, a mailbox or a semaphore.\<close>

definition handle :: "ptr \<times> U32 \<Rightarrow> kernel \<Rightarrow> kernel option" where
  "handle x s = (if cb_type s (fst x) = TCB then rt_evt_psh (fst x) (ucast (snd x)) s
     else if cb_type s (fst x) = MCB then rt_mbx_psh (fst x) (snd x) s else rt_sem_psh (fst x) s)"

primrec handle_all :: "(ptr \<times> U32) list \<Rightarrow> kernel \<Rightarrow> kernel option" where
  "handle_all [] s = Some s"
| "handle_all (x # xs) s =
     Option.bind (handle x s) (\<lambda>s. handle_all xs (s\<lparr>psq_count := psq_count s - 1\<rparr>))"

definition request_ok :: "kernel \<Rightarrow> ptr \<times> U32 \<Rightarrow> bool" where
  "request_ok s x \<longleftrightarrow> is_task s (fst x) \<or> cb_type s (fst x) = MCB \<or> cb_type s (fst x) = SCB"

lemma pop_one_handle: "pop_one idx s = handle (psq_id s idx, psq_arg s idx) s"
  by (simp add: pop_one_def handle_def Let_def)

lemma woken_sets:
  assumes "q x = t # B"
  shows "set (q OS_RDY) \<subseteq> set ((q(x := B, OS_RDY := ins_prio pr t (q OS_RDY))) OS_RDY) \<and>
    (\<forall>h. h \<noteq> OS_RDY \<longrightarrow> set ((q(x := B, OS_RDY := ins_prio pr t (q OS_RDY))) h) \<subseteq> set (q h))"
  using assms by auto

lemma handle_sched:
  assumes S: "sched s q ds {}" and r: "request_ok s x"
  shows "\<exists>s' q' ds'. handle x s = Some s' \<and> psh_frame s s' \<and> sched s' q' ds' {} \<and>
    set (q OS_RDY) \<subseteq> set (q' OS_RDY) \<and> (\<forall>h. h \<noteq> OS_RDY \<longrightarrow> set (q' h) \<subseteq> set (q h))"
proof -
  note no = empty_iff
  consider (evt) "is_task s (fst x)" | (mbx) "cb_type s (fst x) = MCB" | (sem) "cb_type s (fst x) = SCB"
    using r by (auto simp: request_ok_def)
  then show ?thesis
  proof cases
    case evt
    then have "handle x s = rt_evt_psh (fst x) (ucast (snd x)) s" by (simp add: handle_def is_task_def)
    with rt_evt_psh_sched [OF S evt, of "ucast (snd x)"] obtain s' q' ds' where
      s': "handle x s = Some s'" "psh_frame s s'" "sched s' q' ds' {}" and
      q': "q' = q \<or> q' = q(OS_RDY := ins_prio (prio s) (fst x) (q OS_RDY))"
      by auto
    from q' have "set (q OS_RDY) \<subseteq> set (q' OS_RDY)" "\<forall>h. h \<noteq> OS_RDY \<longrightarrow> set (q' h) \<subseteq> set (q h)" by auto
    with s' show ?thesis by blast
  next
    case mbx
    then have h: "handle x s = rt_mbx_psh (fst x) (snd x) s" by (simp add: handle_def cb_types)
    obtain s' where s': "rt_mbx_psh (fst x) (snd x) s = Some s'" "psh_frame s s'" and
      c: "(sched s' q ds {} \<and> state s' = state s) \<or> (\<exists>t B. q (fst x) = t # B \<and>
         sched s' (q(fst x := B, OS_RDY := ins_prio (prio s) t (q OS_RDY))) (rmv_dly t ds) {} \<and>
         state s' = (state s)(t := READY))"
      using rt_mbx_psh_sched [OF S mbx, of "snd x"] by auto
    from c show ?thesis
    proof (elim disjE exE conjE)
      fix t B assume q: "q (fst x) = t # B"
        and S': "sched s' (q(fst x := B, OS_RDY := ins_prio (prio s) t (q OS_RDY))) (rmv_dly t ds) {}" (is "sched s' ?q' _ _")
      show ?thesis using h s' S' woken_sets [of q, OF q] by metis
    qed (use h s' in auto)
  next
    case sem
    then have h: "handle x s = rt_sem_psh (fst x) s" by (simp add: handle_def cb_types)
    show ?thesis
    proof (cases "q (fst x)")
      case Nil
      let ?s' = "set_tokens (fst x) (tokens s (fst x) + 1) s"
      have "sched ?s' q ds {}" using S sched_cong [of ?s' s "{}" q ds] by simp
      moreover have "psh_frame s ?s'" by simp
      ultimately show ?thesis using h rt_sem_psh_store [OF S sem Nil]
        by (intro exI [of _ ?s'] exI [of _ q] exI [of _ ds]) simp
    next
      case (Cons t B)
      obtain s' where "rt_sem_psh (fst x) s = Some s'" "core_only s s'"
        "sched s' (q(fst x := B, OS_RDY := ins_prio (prio s) t (q OS_RDY))) (rmv_dly t ds) {}"
        using rt_sem_psh_wake [OF S sem Cons] by auto
      then show ?thesis using h core_psh_frame woken_sets [of q, OF Cons] by metis
    qed
  qed
qed

lemma psq_count_sched [simp]: "sched (s\<lparr>psq_count := c\<rparr>) q ds X = sched s q ds X"
  by (rule sched_cong) simp_all

text \<open>The loop handles the requests of the queue in the order in which they were made, and ends.\<close>

lemma pop_loop_ok:
  assumes "sched s q ds {}" "unat idx < unat (psq_size s)" "\<forall>x\<in>set (psq_from (unat idx) s). request_ok s x"
  shows "\<exists>s' idx' q' ds'. pop_loop idx s = Some (idx', s') \<and>
    handle_all (psq_from (unat idx) s) s = Some s' \<and> sched s' q' ds' {} \<and>
    set (q OS_RDY) \<subseteq> set (q' OS_RDY) \<and> (\<forall>h. h \<noteq> OS_RDY \<longrightarrow> set (q' h) \<subseteq> set (q h)) \<and> psq_count s' = 0 \<and> unat idx' = (unat idx + unat (psq_count s)) mod unat (psq_size s) \<and>
    run s' = run s \<and> prio s' = prio s \<and> is_task s' = is_task s \<and> tasks_ok s' = tasks_ok s \<and> psq_size s' = psq_size s
    \<and> psq_first s' = psq_first s"
  using assms
proof (induction "unat (psq_count s)" arbitrary: s idx q ds)
  case 0
  then have "psq_count s = 0" by (metis unat_eq_0)
  then show ?case using 0 by (subst pop_loop.simps) (auto simp: psq_from_def)
next
  case (Suc n)
  then have c: "psq_count s \<noteq> 0" by auto
  note pf = psq_from_Cons [OF Suc.prems(2) c]
  let ?x = "(psq_id s idx, psq_arg s idx)"
  obtain s1 q1 ds1 where h: "handle ?x s = Some s1" "psh_frame s s1" "sched s1 q1 ds1 {}"
    "set (q OS_RDY) \<subseteq> set (q1 OS_RDY)" "\<forall>h. h \<noteq> OS_RDY \<longrightarrow> set (q1 h) \<subseteq> set (q h)"
    using handle_sched [OF Suc.prems(1), of ?x] Suc.prems(3) pf by auto
  define s2 where "s2 = s1\<lparr>psq_count := psq_count s1 - 1\<rparr>"
  have f: "psq_count s1 = psq_count s" "psq_size s1 = psq_size s" "psq_id s1 = psq_id s" "psq_arg s1 = psq_arg s"
    "run s1 = run s" "prio s1 = prio s" "cb_type s1 = cb_type s" "is_task s1 = is_task s" "tasks_ok s1 = tasks_ok s"
    "psq_first s1 = psq_first s"
    using h(2) psh_frame_task [OF h(2)] by (simp_all add: psh_frame_def)
  have nx: "psq_next idx s1 = psq_next idx s" "psq_next idx s = (if idx + 1 = ucast (psq_size s1) then 0 else idx + 1)"
    by (simp_all add: psq_next_def f)
  have u: "unat (psq_next idx s) = Suc (unat idx) mod unat (psq_size s)" by (rule psq_next_unat [OF Suc.prems(2)])
  have cnt: "unat (psq_count s) = Suc (unat (psq_count s2))"
    using unat_pred [OF c] f by (simp add: s2_def)
  have fr: "psq_from (unat (psq_next idx s)) s2 = psq_from (unat (psq_next idx s)) (s\<lparr>psq_count := psq_count s - 1\<rparr>)"
    by (simp add: psq_from_def s2_def f)
  have tk: "is_task s2 = is_task s" "tasks_ok s2 = tasks_ok s"
    using f by (auto simp: s2_def is_task_def tasks_ok_def fun_eq_iff)
  have rq: "request_ok s2 = request_ok s" by (simp add: request_ok_def fun_eq_iff tk) (simp add: s2_def f)
  have n: "n = unat (psq_count s2)" using Suc.hyps(2) cnt by simp
  have A: "sched s2 q1 ds1 {}" using h(3) by (simp add: s2_def)
  have B: "unat (psq_next idx s) < unat (psq_size s2)" using u Suc.prems(2) f by (simp add: s2_def)
  have C: "\<forall>x\<in>set (psq_from (unat (psq_next idx s)) s2). request_ok s2 x"
    using Suc.prems(3) pf by (simp add: fr rq)
  from Suc.hyps(1) [OF n A B C] obtain s' idx' q' ds' where IH: "pop_loop (psq_next idx s) s2 = Some (idx', s')"
    "handle_all (psq_from (unat (psq_next idx s)) s2) s2 = Some s'" "sched s' q' ds' {}"
    "set (q1 OS_RDY) \<subseteq> set (q' OS_RDY)" "\<forall>h. h \<noteq> OS_RDY \<longrightarrow> set (q' h) \<subseteq> set (q1 h)" "psq_count s' = 0"
    "unat idx' = (unat (psq_next idx s) + unat (psq_count s2)) mod unat (psq_size s2)"
    "run s' = run s2" "prio s' = prio s2" "is_task s' = is_task s2" "tasks_ok s' = tasks_ok s2"
    "psq_size s' = psq_size s2" "psq_first s' = psq_first s2"
    by blast
  have "pop_loop idx s = Some (idx', s')"
    using c h(1) IH(1) unfolding nx(2) by (subst pop_loop.simps) (simp add: pop_one_handle s2_def Let_def)
  moreover have "handle_all (psq_from (unat idx) s) s = Some s'"
    using IH(2) h(1) unfolding pf fr by (simp add: s2_def)
  moreover have "unat idx' = (unat idx + unat (psq_count s)) mod unat (psq_size s)"
    using IH(7) u cnt by (simp add: s2_def f mod_simps)
  moreover have "set (q OS_RDY) \<subseteq> set (q' OS_RDY)" using h(4) IH(4) by (rule subset_trans)
  moreover have "\<forall>h. h \<noteq> OS_RDY \<longrightarrow> set (q' h) \<subseteq> set (q h)" using h(5) IH(5) by blast
  moreover have "run s2 = run s" "prio s2 = prio s" "psq_size s2 = psq_size s" "psq_first s2 = psq_first s"
    by (simp_all add: s2_def f)
  ultimately show ?case using IH(3,6,8-13) tk
    by (intro exI [of _ s'] exI [of _ idx'] exI [of _ q'] exI [of _ ds'] conjI) simp_all
qed


lemma rt_pop_req_ok:
  assumes K: "kinv s q ds" and wf: "psq_wf s" and r: "\<forall>x\<in>set (psq_items s). request_ok s x"
  obtains s' q' ds' s1 s2 where "rt_pop_req s = Some s'" "kinv (switch_context s') q' ds'"
    "psq_wf s'" "psq_items s' = []" "prio s' = prio s"
    "s1 = rt_put_rdy_first (run s) (set_state (run s) READY s)" "handle_all (psq_items s) s1 = Some s2"
    "tokens s' = tokens s2" "events s' = events s2" "mcb_count s' = mcb_count s2" "mcb_msg s' = mcb_msg s2"
    "\<And>h. h \<noteq> OS_RDY \<Longrightarrow> set (q' h) \<subseteq> set (q h)"
proof -
  note k = kinvD [OF K]
  define s1 where "s1 = rt_put_rdy_first (run s) (set_state (run s) READY s)"
  have c1: "core_only s s1" and S1: "sched s1 (q(OS_RDY := run s # q OS_RDY)) ds {}"
    using run_first [OF K] by (simp_all add: s1_def)
  note p1 = core_psh_frame [OF c1]
  have f1: "psq_last s1 = psq_last s" "psq_size s1 = psq_size s" "psq_count s1 = psq_count s" "psq_first s1 = psq_first s"
    "psq_id s1 = psq_id s" "psq_arg s1 = psq_arg s" "is_task s1 = is_task s" "cb_type s1 = cb_type s" "prio s1 = prio s"
    "tasks_ok s1 = tasks_ok s"
    using p1 psh_frame_task [OF p1] by (simp_all add: psh_frame_def)
  let ?i = "ucast (psq_last s1) :: U32"
  have it: "psq_from (unat ?i) s1 = psq_items s" by (simp add: psq_items_def psq_from_def f1)
  have i: "unat ?i < unat (psq_size s1)" using wf by (simp add: psq_wf_def f1)
  have rq: "\<forall>x\<in>set (psq_from (unat ?i) s1). request_ok s1 x"
    using r unfolding it by (simp add: request_ok_def f1(7,8))
  from pop_loop_ok [OF S1 i rq] obtain s2 idx' q2 ds2 where l: "pop_loop ?i s1 = Some (idx', s2)"
    "handle_all (psq_items s) s1 = Some s2" "sched s2 q2 ds2 {}" "run s # q OS_RDY = run s # q OS_RDY"
    "set (run s # q OS_RDY) \<subseteq> set (q2 OS_RDY)" "psq_count s2 = 0"
    "unat idx' = (unat ?i + unat (psq_count s1)) mod unat (psq_size s1)"
    "prio s2 = prio s1" "is_task s2 = is_task s1" "tasks_ok s2 = tasks_ok s1" "psq_size s2 = psq_size s1"
    "psq_first s2 = psq_first s1" "\<forall>h. h \<noteq> OS_RDY \<longrightarrow> set (q2 h) \<subseteq> set (q h)"
    unfolding it by auto
  define s3 where "s3 = s2\<lparr>psq_last := ucast idx'\<rparr>"
  have S3: "sched s3 q2 ds2 {}" using l(3) sched_cong [of s3 s2 "{}" q2 ds2] by (simp add: s3_def)
  have idle: "OS_IDLE \<in> set (q2 OS_RDY)" using l(5) k(7) by auto
  then obtain t B where q2: "q2 OS_RDY = t # B" by (cases "q2 OS_RDY") auto
  have tok: "tasks_ok s3" using l(10) k(6) f1 by (simp add: s3_def tasks_ok_def is_task_def)
  obtain s4 where g: "rt_get_first OS_RDY s3 = Some (t, s4)" "core_only s3 (rt_switch_req t s4)"
    "kinv (switch_context (rt_switch_req t s4)) (q2(OS_RDY := B)) ds2"
    using dispatch_first [OF S3 q2 tok idle] by metis
  let ?s' = "rt_switch_req t s4"
  have e: "rt_pop_req s = Some ?s'"
    using l(1) g(1) by (simp add: rt_pop_req_def Let_def flip: s1_def s3_def)
  have fi: "unat idx' = unat (psq_first s)" using l(7) wf by (simp add: f1 psq_wf_def)
  have f4: "psq_count ?s' = 0" "psq_size ?s' = psq_size s" "psq_first ?s' = psq_first s"
    "psq_last ?s' = ucast idx'" "prio ?s' = prio s"
    using core_psh_frame [OF g(2)] l f1 by (simp_all add: psh_frame_def s3_def)
  have "idx' = ucast (psq_first s)" using fi by (simp add: word_unat_eq_iff)
  then have "psq_last ?s' = psq_first s"
    using f4(4) by (simp add: word_unat_eq_iff unat_ucast_32_8)
  moreover have "unat (psq_first s) < unat (psq_size s)" using l(7) i fi f1 by (metis mod_less_divisor gr_implies_not0 neq0_conv)
  ultimately have "psq_wf ?s'" using f4 by (simp add: psq_wf_def)
  moreover have "psq_items ?s' = []" using f4 by (simp add: psq_items_def psq_from_def)
  moreover have "tokens ?s' = tokens s2" "events ?s' = events s2" "mcb_count ?s' = mcb_count s2" "mcb_msg ?s' = mcb_msg s2"
    using core_only_fields [OF g(2)] by (simp_all add: s3_def)
  moreover have "h \<noteq> OS_RDY \<Longrightarrow> set ((q2(OS_RDY := B)) h) \<subseteq> set (q h)" for h using l(13) by simp
  ultimately show thesis using that [OF e g(3)] f4(5) l(2) s1_def by blast
qed


section \<open>Resuming after a sleep\<close>

lemma sched_single:
  assumes S: "sched s q [(t, k)] X" and k: "0 < m" "m < 2 ^ 16"
  shows "sched (set_delta_time OS_DLY (word_of_nat m) (s\<lparr>os_time := c\<rparr>)) q [(t, m)] X"
proof -
  note D = schedD [OF S]
  let ?s = "set_delta_time OS_DLY (word_of_nat m) (s\<lparr>os_time := c\<rparr>)"
  have tk: "is_task ?s = is_task s" by (simp add: is_task_def fun_eq_iff)
  show ?thesis
  proof (rule schedI)
    show "queues ?s q NULL" using D(1) queues_cong [of ?s s] by simp
    have "t \<noteq> OS_DLY" using D(2) by (auto simp: delays_def is_task_def)
    moreover have "unat (word_of_nat m :: U16) = m" using k by (simp add: unsigned_of_nat take_bit_eq_mod)
    ultimately show "delays ?s [(t, m)]" using D(2) k unfolding delays_def tk by auto
  qed (use D k in \<open>auto simp: tk\<close>)
qed

text \<open>The delay list is empty as soon as its last task is ready: then the loop stops, and the rest of
  the sleep is not added to the time of the kernel.\<close>

lemma resume_delays_single:
  assumes S: "sched s q [(t, k)] {}" and k: "k \<le> unat sleep"
  obtains s' where "resume_delays sleep s = Some s'"
    "sched s' (make_ready (prio s) t q) [] {}"
    "os_time s' = os_time s + word_of_nat k + (if unat sleep = k then 0 else 1)"
proof -
  note D = schedD [OF S]
  have h: "p_dlnk s OS_DLY = t" "t \<noteq> NULL" "unat (delta_time s OS_DLY) = k" "0 < k"
    using D(2,3) by (auto simp: delays_def)
  let ?d = "ucast (delta_time s OS_DLY) :: U32"
  have d: "?d = word_of_nat k" unfolding h(3) [symmetric] by simp
  have le: "?d \<le> sleep" using k h(3) by (simp add: word_le_nat_alt)
  define s1 where "s1 = set_delta_time OS_DLY 1 (s\<lparr>os_time := os_time s + ?d\<rparr>)"
  have S1: "sched s1 q [(t, 1)] {}" using sched_single [OF S, of 1 "os_time s + ?d"] by (simp add: s1_def)
  have "expired [(t, Suc 0)] = [t]" "kept [(t, Suc 0)] = []" by (simp_all add: expired_def kept_def tick_ds_def)
  then obtain s2 where p: "rt_dec_dly s1 = Some s2" "sched_only s1 s2" "sched s2 (make_ready (prio s1) t q) [] {}"
    using sched_dec_dly [OF S1] by auto
  have n2: "p_dlnk s2 OS_DLY = NULL" using schedD(2) [OF p(3)] by (simp add: delays_def)
  have t1: "p_dlnk s1 OS_DLY \<noteq> NULL" using h by (simp add: s1_def)
  have o2: "os_time s2 = os_time s + ?d" "prio s1 = prio s"
    using core_only_fields(10) [OF sched_only_core [OF p(2)]] by (simp_all add: s1_def)
  have z: "sleep - ?d = 0 \<longleftrightarrow> unat sleep = k" using h(3) by (simp only: right_minus_eq) (auto simp: word_unat_eq_iff)
  have e: "resume_delays sleep s = resume_loop (sleep - ?d) s1"
    using h le by (simp add: resume_delays_def Let_def s1_def)
  show thesis
  proof (cases "sleep - ?d = 0")
    case True
    have "resume_loop (sleep - ?d) s1 = Some s2" using t1 p(1) True by (subst resume_loop.simps) simp
    then show thesis using that [of s2] e p(3) o2 d z True by simp
  next
    case False
    let ?s3 = "s2\<lparr>os_time := os_time s2 + 1\<rparr>"
    have "resume_loop (sleep - ?d - 1) ?s3 = Some ?s3" using n2 by (subst resume_loop.simps) simp
    then have "resume_loop (sleep - ?d) s1 = Some ?s3" using t1 p(1) False by (subst resume_loop.simps) simp
    then show thesis using that [of ?s3] e p(3) o2 d z False by simp
  qed
qed

text \<open>A sleep that ends before the first delay: all times advance together.\<close>

lemma resume_delays_early:
  assumes S: "sched s q ((t, k) # ds) {}" and k: "unat sleep < k"
  obtains s' where "resume_delays sleep s = Some s'" "os_time s' = os_time s + sleep"
    "unat (delta_time s' OS_DLY) = k - unat sleep" "p_dlnk s' = p_dlnk s"
proof -
  note D = schedD [OF S]
  have h: "p_dlnk s OS_DLY \<noteq> NULL" "unat (delta_time s OS_DLY) = k" using D(2) by (auto simp: delays_def)
  have "\<not> (ucast (delta_time s OS_DLY) :: U32) \<le> sleep" using k h by (simp add: word_le_nat_alt)
  moreover have "unat (delta_time s OS_DLY - ucast sleep) = k - unat sleep"
  proof -
    have "unat sleep < 65536" using k h(2) unat_u16 [of "delta_time s OS_DLY"] by linarith
    then have "unat (ucast sleep :: U16) = unat sleep" by (simp add: unat_ucast_32_16)
    then show ?thesis using k h(2) by (simp add: unat_sub_word)
  qed
  ultimately show thesis using that h(1) by (simp add: resume_delays_def Let_def)
qed

end
