(* ===== verification/Cmsis_Services.thy ===== *)
theory Cmsis_Services
  imports Rtx_System
begin

text \<open>
  The services that \<open>rt_CMSIS.c\<close> offers to the threads and interrupt handlers: they check their
  arguments, convert times to ticks, call the kernel and convert its results.  An identifier is the
  address of a control block; an identifier that is not aligned is rejected.  A service returns its
  status as the kernel leaves it when the caller goes on at once: a blocked caller gets its result
  later, from \<open>rt_ret_val\<close>.

  \<open>isr\<close> is the test \<open>__get_PRIMASK() != 0U || __get_IPSR() != 0U\<close> of the public functions.  The event
  observer \<open>osEventObs\<close> is not installed, and the \<open>context\<close> that is kept for it only is left out.
\<close>

definition osErrorPriority :: U32 where "osErrorPriority = 0x84"
definition osErrorNoMemory :: U32 where "osErrorNoMemory = 0x85"
definition osEventSignal :: U32 where "osEventSignal = 0x08"
definition osEventMessage :: U32 where "osEventMessage = 0x10"
definition osEventTimeout :: U32 where "osEventTimeout = 0x40"

definition osWaitForever :: U32 where "osWaitForever = 0xFFFFFFFF"
definition osFeature_Signals :: nat where "osFeature_Signals = 16"
definition osFeature_Semaphore :: int where "osFeature_Semaphore = 65535"

definition osPriorityIdle :: int where "osPriorityIdle = - 3"
definition osPriorityRealtime :: int where "osPriorityRealtime = 3"
definition osPriorityError :: int where "osPriorityError = 0x84"

lemmas cmsis_consts = osOK_def osErrorParameter_def osErrorResource_def osErrorTimeoutResource_def osErrorISR_def
  osErrorValue_def osErrorPriority_def osErrorNoMemory_def osEventSignal_def osEventMessage_def osEventTimeout_def
  osWaitForever_def osFeature_Signals_def osFeature_Semaphore_def osPriorityIdle_def osPriorityRealtime_def
  osPriorityError_def

text \<open>An event: its status and its value, when it has been assigned.\<close>

record os_event =
  ev_status :: U32
  ev_value :: "U32 option"

section \<open>Helper functions\<close>

definition rt_ms2tick :: "U32 \<Rightarrow> U16" where
  "rt_ms2tick millisec =
     (if millisec = 0 then 0
      else if millisec = osWaitForever then 0xFFFF
      else if 4000000 < millisec then 0xFFFE
      else
        let tick = ((1000 * millisec) + os_clockrate - 1) div os_clockrate in
        if 0xFFFE < tick then 0xFFFE else ucast tick)"

definition rt_tid2ptcb :: "kernel \<Rightarrow> ptr \<Rightarrow> ptr" where
  "rt_tid2ptcb s thread_id =
     (if thread_id = NULL then NULL
      else if addr_of thread_id AND 3 \<noteq> 0 then NULL
      else if cb_type s thread_id \<noteq> TCB then NULL
      else thread_id)"

section \<open>Threads\<close>

record thread_def =
  td_pthread :: U32
  td_tpriority :: int
  td_stacksize :: U32
  td_stack_pointer :: U32

text \<open>\<open>texit\<close> is the address of \<open>osThreadExit\<close>, the return address of a thread's function.\<close>

definition svcThreadCreate :: "U32 \<Rightarrow> thread_def option \<Rightarrow> U32 \<Rightarrow> kernel \<Rightarrow> (ptr \<times> kernel) option" where
  "svcThreadCreate texit tdef argument s =
     (case tdef of None \<Rightarrow> Some (NULL, s)
      | Some td \<Rightarrow>
        if td_pthread td = 0 \<or> td_tpriority td < osPriorityIdle \<or> osPriorityRealtime < td_tpriority td
        then Some (NULL, s)
        else do {
          let stk = (if td_stacksize td \<noteq> 0 then td_stack_pointer td else 0);
          (tsk, s) \<leftarrow> rt_tsk_create (td_pthread td)
             (word_of_int (td_tpriority td - osPriorityIdle + 1) OR push_bit 8 (td_stacksize td)) stk argument s;
          if tsk = 0 then Some (NULL, s)
          else
            let ptcb = os_active_TCB s ! (unat tsk - 1);
                s = s\<lparr>stack_word := (stack_word s)(tsk_stack s ptcb + 52 := texit)\<rparr>
            in Some (ptcb, s)
        })"

definition svcThreadGetId :: "kernel \<Rightarrow> ptr" where
  "svcThreadGetId s =
     (let tsk = rt_tsk_self s in if tsk = 0 then NULL else os_active_TCB s ! (unat tsk - 1))"

definition svcThreadTerminate :: "ptr \<Rightarrow> kernel \<Rightarrow> (U32 \<times> kernel) option" where
  "svcThreadTerminate thread_id s =
     (let ptcb = rt_tid2ptcb s thread_id in
      if ptcb = NULL then Some (osErrorParameter, s)
      else do {
        (res, s) \<leftarrow> rt_tsk_delete (ucast (task_id s ptcb)) s;
        Some (if res = OS_R_NOK then osErrorResource else osOK, s)
      })"

definition svcThreadYield :: "kernel \<Rightarrow> (U32 \<times> kernel) option" where
  "svcThreadYield s = do { s \<leftarrow> rt_tsk_pass s; Some (osOK, s) }"

definition svcThreadSetPriority :: "ptr \<Rightarrow> int \<Rightarrow> kernel \<Rightarrow> (U32 \<times> kernel) option" where
  "svcThreadSetPriority thread_id priority s =
     (let ptcb = rt_tid2ptcb s thread_id in
      if ptcb = NULL then Some (osErrorParameter, s)
      else if priority < osPriorityIdle \<or> osPriorityRealtime < priority then Some (osErrorValue, s)
      else do {
        (res, s) \<leftarrow> rt_tsk_prio (ucast (task_id s ptcb)) (word_of_int (priority - osPriorityIdle + 1)) s;
        Some (if res = OS_R_NOK then osErrorResource else osOK, s)
      })"

definition svcThreadGetPriority :: "ptr \<Rightarrow> kernel \<Rightarrow> int" where
  "svcThreadGetPriority thread_id s =
     (let ptcb = rt_tid2ptcb s thread_id in
      if ptcb = NULL then osPriorityError else uint (prio s ptcb) - 1 + osPriorityIdle)"

datatype thread_info = ThreadInfoStackSize | ThreadInfoStackMax | ThreadInfoEntry | ThreadInfoArg | ThreadInfoOther

definition MAGIC_PATTERN :: U32 where "MAGIC_PATTERN = 0xCCCCCCCC"

text \<open>The loop over the words of a stack that have not been used: from word \<open>i\<close>, at most \<open>n\<close> words.\<close>

fun stack_unused :: "nat \<Rightarrow> U32 \<Rightarrow> U32 \<Rightarrow> kernel \<Rightarrow> U32" where
  "stack_unused 0 i stack_ptr s = i"
| "stack_unused (Suc n) i stack_ptr s =
     (if stack_word s (stack_ptr + 4 * i) \<noteq> MAGIC_PATTERN then i else stack_unused n (i + 1) stack_ptr s)"

definition svcThreadGetInfo :: "ptr \<Rightarrow> thread_info \<Rightarrow> kernel \<Rightarrow> os_event" where
  "svcThreadGetInfo thread_id info s =
     (let ptcb = rt_tid2ptcb s thread_id in
      if ptcb = NULL then \<lparr>ev_status = osErrorValue, ev_value = None\<rparr>
      else
        let size = (if priv_stack s ptcb = 0 then os_stackinfo s AND 0x3FFFF else priv_stack s ptcb) in
        case info of
          ThreadInfoStackSize \<Rightarrow> \<lparr>ev_status = osOK, ev_value = Some size\<rparr>
        | ThreadInfoStackMax \<Rightarrow>
            if os_stackinfo s AND push_bit 28 1 = 0 then \<lparr>ev_status = osErrorResource, ev_value = None\<rparr>
            else let i = stack_unused (unat (size div 4) - 1) 1 (stack s ptcb) s
              in \<lparr>ev_status = osOK, ev_value = Some (size - i * 4)\<rparr>
        | ThreadInfoEntry \<Rightarrow> \<lparr>ev_status = osOK, ev_value = Some (ptask s ptcb)\<rparr>
        | ThreadInfoArg \<Rightarrow> \<lparr>ev_status = osOK, ev_value = Some (argv s ptcb)\<rparr>
        | _ \<Rightarrow> \<lparr>ev_status = osErrorParameter, ev_value = None\<rparr>)"

text \<open>\<open>_osThreadEnumNext\<close>: the next active thread, the idle task after the last; \<open>NULL\<close> behind it.\<close>

definition osThreadEnumNext :: "nat \<Rightarrow> kernel \<Rightarrow> ptr \<times> nat" where
  "osThreadEnumNext index s =
     (let n = length (os_active_TCB s);
          i = (case find (\<lambda>i. os_active_TCB s ! i \<noteq> NULL) [index..<n] of Some i \<Rightarrow> i | None \<Rightarrow> max index n);
          id = (if i < n then os_active_TCB s ! i else if i = n then OS_IDLE else NULL)
      in (id, i + 1))"

section \<open>Delays and signals\<close>

definition svcDelay :: "U32 \<Rightarrow> kernel \<Rightarrow> (U32 \<times> kernel) option" where
  "svcDelay millisec s =
     (if millisec = 0 then Some (osOK, s)
      else do { s \<leftarrow> rt_dly_wait (rt_ms2tick millisec) s; Some (osEventTimeout, s) })"

definition bad_signals :: "U32 \<Rightarrow> bool" where
  "bad_signals signals \<longleftrightarrow> signals AND push_bit osFeature_Signals 0xFFFFFFFF \<noteq> 0"

definition svcSignalSet :: "ptr \<Rightarrow> U32 \<Rightarrow> kernel \<Rightarrow> (U32 \<times> kernel) option" where
  "svcSignalSet thread_id signals s =
     (let ptcb = rt_tid2ptcb s thread_id in
      if ptcb = NULL then Some (0x80000000, s)
      else if bad_signals signals then Some (0x80000000, s)
      else do {
        let sig = ucast (events s ptcb);
        s \<leftarrow> rt_evt_set (ucast signals) (ucast (task_id s ptcb)) s;
        Some (sig, s)
      })"

definition svcSignalClear :: "ptr \<Rightarrow> U32 \<Rightarrow> kernel \<Rightarrow> U32 \<times> kernel" where
  "svcSignalClear thread_id signals s =
     (let ptcb = rt_tid2ptcb s thread_id in
      if ptcb = NULL then (0x80000000, s)
      else if bad_signals signals then (0x80000000, s)
      else (ucast (events s ptcb), rt_evt_clr (ucast signals) (ucast (task_id s ptcb)) s))"

definition svcSignalWait :: "U32 \<Rightarrow> U32 \<Rightarrow> kernel \<Rightarrow> (os_event \<times> kernel) option" where
  "svcSignalWait signals millisec s =
     (if bad_signals signals then Some (\<lparr>ev_status = osErrorValue, ev_value = None\<rparr>, s)
      else do {
        (res, s) \<leftarrow> (if signals \<noteq> 0 then rt_evt_wait (ucast signals) (rt_ms2tick millisec) True s
                      else rt_evt_wait 0xFFFF (rt_ms2tick millisec) False s);
        Some (if res = OS_R_EVT
              then (\<lparr>ev_status = osEventSignal,
                     ev_value = Some (if signals \<noteq> 0 then signals else ucast (waits s (run s)))\<rparr>, s)
              else (\<lparr>ev_status = (if millisec \<noteq> 0 then osEventTimeout else osOK), ev_value = Some 0\<rparr>, s))
      })"

definition isrSignalSet :: "ptr \<Rightarrow> U32 \<Rightarrow> kernel \<Rightarrow> U32 \<times> kernel" where
  "isrSignalSet thread_id signals s =
     (let ptcb = rt_tid2ptcb s thread_id in
      if ptcb = NULL then (0x80000000, s)
      else if bad_signals signals then (0x80000000, s)
      else (ucast (events s ptcb), isr_evt_set (ucast signals) (ucast (task_id s ptcb)) s))"

definition osSignalSet :: "bool \<Rightarrow> ptr \<Rightarrow> U32 \<Rightarrow> kernel \<Rightarrow> (U32 \<times> kernel) option" where
  "osSignalSet isr thread_id signals s =
     (if isr then Some (isrSignalSet thread_id signals s) else svcSignalSet thread_id signals s)"

section \<open>Mutexes\<close>

text \<open>A definition holds the address of the control block; \<open>None\<close> is the null pointer.\<close>

definition svcMutexCreate :: "ptr option \<Rightarrow> kernel \<Rightarrow> ptr \<times> kernel" where
  "svcMutexCreate mutex_def s =
     (case mutex_def of None \<Rightarrow> (NULL, s)
      | Some mut \<Rightarrow>
        if mut = NULL then (NULL, s)
        else if cb_type s mut \<noteq> 0 then (NULL, s)
        else (mut, rt_mut_init mut s))"

definition svcMutexWait :: "ptr \<Rightarrow> U32 \<Rightarrow> kernel \<Rightarrow> (U32 \<times> kernel) option" where
  "svcMutexWait mutex_id millisec s =
     (let mut = rt_id2obj mutex_id in
      if mut = NULL then Some (osErrorParameter, s)
      else if cb_type s mut \<noteq> MUCB then Some (osErrorParameter, s)
      else do {
        (res, s) \<leftarrow> rt_mut_wait mut (rt_ms2tick millisec) s;
        Some (if res = OS_R_TMO then if millisec \<noteq> 0 then osErrorTimeoutResource else osErrorResource
              else osOK, s)
      })"

definition svcMutexRelease :: "ptr \<Rightarrow> kernel \<Rightarrow> (U32 \<times> kernel) option" where
  "svcMutexRelease mutex_id s =
     (let mut = rt_id2obj mutex_id in
      if mut = NULL then Some (osErrorParameter, s)
      else if cb_type s mut \<noteq> MUCB then Some (osErrorParameter, s)
      else do {
        (res, s) \<leftarrow> rt_mut_release mut s;
        Some (if res = OS_R_NOK then osErrorResource else osOK, s)
      })"

definition svcMutexDelete :: "ptr \<Rightarrow> kernel \<Rightarrow> (U32 \<times> kernel) option" where
  "svcMutexDelete mutex_id s =
     (let mut = rt_id2obj mutex_id in
      if mut = NULL then Some (osErrorParameter, s)
      else if cb_type s mut \<noteq> MUCB then Some (osErrorParameter, s)
      else do { (_, s) \<leftarrow> rt_mut_delete mut s; Some (osOK, s) })"

definition osMutexWait :: "bool \<Rightarrow> ptr \<Rightarrow> U32 \<Rightarrow> kernel \<Rightarrow> (U32 \<times> kernel) option" where
  "osMutexWait isr mutex_id millisec s =
     (if isr then Some (osErrorISR, s) else svcMutexWait mutex_id millisec s)"

definition osMutexRelease :: "bool \<Rightarrow> ptr \<Rightarrow> kernel \<Rightarrow> (U32 \<times> kernel) option" where
  "osMutexRelease isr mutex_id s =
     (if isr then Some (osErrorISR, s) else svcMutexRelease mutex_id s)"

section \<open>Semaphores\<close>

definition svcSemaphoreCreate :: "ptr option \<Rightarrow> int \<Rightarrow> kernel \<Rightarrow> ptr \<times> kernel" where
  "svcSemaphoreCreate semaphore_def n s =
     (case semaphore_def of None \<Rightarrow> (NULL, s)
      | Some sem \<Rightarrow>
        if sem = NULL then (NULL, s)
        else if cb_type s sem \<noteq> 0 then (NULL, s)
        else if osFeature_Semaphore < n then (NULL, s)
        else (sem, rt_sem_init sem (word_of_int n) s))"

definition svcSemaphoreWait :: "ptr \<Rightarrow> U32 \<Rightarrow> kernel \<Rightarrow> (int \<times> kernel) option" where
  "svcSemaphoreWait semaphore_id millisec s =
     (let sem = rt_id2obj semaphore_id in
      if sem = NULL then Some (- 1, s)
      else if cb_type s sem \<noteq> SCB then Some (- 1, s)
      else do {
        (res, s) \<leftarrow> rt_sem_wait sem (rt_ms2tick millisec) s;
        Some (if res = OS_R_TMO then 0 else uint (tokens s sem) + 1, s)
      })"

definition svcSemaphoreRelease :: "ptr \<Rightarrow> kernel \<Rightarrow> (U32 \<times> kernel) option" where
  "svcSemaphoreRelease semaphore_id s =
     (let sem = rt_id2obj semaphore_id in
      if sem = NULL then Some (osErrorParameter, s)
      else if cb_type s sem \<noteq> SCB then Some (osErrorParameter, s)
      else if uint (tokens s sem) = osFeature_Semaphore then Some (osErrorResource, s)
      else do { (_, s) \<leftarrow> rt_sem_send sem s; Some (osOK, s) })"

definition svcSemaphoreDelete :: "ptr \<Rightarrow> kernel \<Rightarrow> (U32 \<times> kernel) option" where
  "svcSemaphoreDelete semaphore_id s =
     (let sem = rt_id2obj semaphore_id in
      if sem = NULL then Some (osErrorParameter, s)
      else if cb_type s sem \<noteq> SCB then Some (osErrorParameter, s)
      else do { (_, s) \<leftarrow> rt_sem_delete sem s; Some (osOK, s) })"

definition isrSemaphoreRelease :: "ptr \<Rightarrow> kernel \<Rightarrow> U32 \<times> kernel" where
  "isrSemaphoreRelease semaphore_id s =
     (let sem = rt_id2obj semaphore_id in
      if sem = NULL then (osErrorParameter, s)
      else if cb_type s sem \<noteq> SCB then (osErrorParameter, s)
      else if uint (tokens s sem) = osFeature_Semaphore then (osErrorResource, s)
      else (osOK, isr_sem_send sem s))"

definition osSemaphoreWait :: "bool \<Rightarrow> ptr \<Rightarrow> U32 \<Rightarrow> kernel \<Rightarrow> (int \<times> kernel) option" where
  "osSemaphoreWait isr semaphore_id millisec s =
     (if isr then Some (- 1, s) else svcSemaphoreWait semaphore_id millisec s)"

definition osSemaphoreRelease :: "bool \<Rightarrow> ptr \<Rightarrow> kernel \<Rightarrow> (U32 \<times> kernel) option" where
  "osSemaphoreRelease isr semaphore_id s =
     (if isr then Some (isrSemaphoreRelease semaphore_id s) else svcSemaphoreRelease semaphore_id s)"

section \<open>Message queues\<close>

record queue_def =
  qd_sz :: U32
  qd_pool :: ptr

definition svcMessageCreate :: "queue_def option \<Rightarrow> kernel \<Rightarrow> ptr \<times> kernel" where
  "svcMessageCreate qdef s =
     (case qdef of None \<Rightarrow> (NULL, s)
      | Some qd \<Rightarrow>
        if qd_sz qd = 0 \<or> qd_pool qd = NULL then (NULL, s)
        else if cb_type s (qd_pool qd) \<noteq> 0 then (NULL, s)
        else (qd_pool qd, rt_mbx_init (qd_pool qd) (ucast (4 * (qd_sz qd + 4))) s))"

definition svcMessagePut :: "ptr \<Rightarrow> U32 \<Rightarrow> U32 \<Rightarrow> kernel \<Rightarrow> (U32 \<times> kernel) option" where
  "svcMessagePut queue_id info millisec s =
     (if queue_id = NULL then Some (osErrorParameter, s)
      else if cb_type s queue_id \<noteq> MCB then Some (osErrorParameter, s)
      else do {
        (res, s) \<leftarrow> rt_mbx_send queue_id info (rt_ms2tick millisec) s;
        Some (if res = OS_R_TMO then if millisec \<noteq> 0 then osErrorTimeoutResource else osErrorResource
              else osOK, s)
      })"

definition svcMessageGet :: "ptr \<Rightarrow> U32 \<Rightarrow> kernel \<Rightarrow> (os_event \<times> kernel) option" where
  "svcMessageGet queue_id millisec s =
     (if queue_id = NULL then Some (\<lparr>ev_status = osErrorParameter, ev_value = None\<rparr>, s)
      else if cb_type s queue_id \<noteq> MCB then Some (\<lparr>ev_status = osErrorParameter, ev_value = None\<rparr>, s)
      else do {
        (res, v, s) \<leftarrow> rt_mbx_wait queue_id (rt_ms2tick millisec) s;
        Some (\<lparr>ev_status = (if res = OS_R_TMO then if millisec \<noteq> 0 then osEventTimeout else osOK
                            else osEventMessage), ev_value = v\<rparr>, s)
      })"

definition isrMessageGet :: "ptr \<Rightarrow> U32 \<Rightarrow> kernel \<Rightarrow> os_event \<times> kernel" where
  "isrMessageGet queue_id millisec s =
     (if queue_id = NULL \<or> millisec \<noteq> 0 then (\<lparr>ev_status = osErrorParameter, ev_value = None\<rparr>, s)
      else if cb_type s queue_id \<noteq> MCB then (\<lparr>ev_status = osErrorParameter, ev_value = None\<rparr>, s)
      else let (res, v, s) = isr_mbx_receive queue_id s
        in (\<lparr>ev_status = (if res \<noteq> OS_R_MBX then osOK else osEventMessage), ev_value = v\<rparr>, s))"

definition osMessagePut :: "bool \<Rightarrow> ptr \<Rightarrow> U32 \<Rightarrow> U32 \<Rightarrow> kernel \<Rightarrow> (U32 \<times> kernel) option" where
  "osMessagePut isr queue_id info millisec s =
     (if isr then Some (isrMessagePut queue_id info millisec s) else svcMessagePut queue_id info millisec s)"

definition osMessageGet :: "bool \<Rightarrow> ptr \<Rightarrow> U32 \<Rightarrow> kernel \<Rightarrow> (os_event \<times> kernel) option" where
  "osMessageGet isr queue_id millisec s =
     (if isr then Some (isrMessageGet queue_id millisec s) else svcMessageGet queue_id millisec s)"

section \<open>Mail queues\<close>

text \<open>A mail queue is the pair of its mailbox and its pool; the identifier \<open>None\<close> is the null pointer.
  The blocks are those of the list of the pool's free blocks.\<close>

record mail_queue_cb =
  mq_mcb :: ptr
  mq_pool :: U32

definition svcMailCreate :: "U32 \<Rightarrow> U32 \<Rightarrow> mail_queue_cb option \<Rightarrow> kernel \<Rightarrow> bool \<times> kernel" where
  "svcMailCreate queue_sz item_sz pool s =
     (case pool of None \<Rightarrow> (False, s)
      | Some mq \<Rightarrow>
        if queue_sz = 0 \<or> item_sz = 0 then (False, s)
        else if mq_pool mq = 0 \<or> mq_mcb mq = NULL \<or> cb_type s (mq_mcb mq) \<noteq> 0 then (False, s)
        else (True, rt_mbx_init (mq_mcb mq) (ucast (4 * (queue_sz + 4))) (init_box (mq_pool mq) s)))"

definition sysMailAlloc :: "mail_queue_cb option \<Rightarrow> U32 \<Rightarrow> bool \<Rightarrow> kernel \<Rightarrow> (U32 \<times> kernel) option" where
  "sysMailAlloc queue_id millisec isr s =
     (case queue_id of None \<Rightarrow> Some (0, s)
      | Some mq \<Rightarrow>
        let pmcb = mq_mcb mq; pool = mq_pool mq in
        if pool = 0 \<or> pmcb = NULL then Some (0, s)
        else if isr \<and> millisec \<noteq> 0 then Some (0, s)
        else
          let (mem, s) = alloc_box pool s in
          if mem = 0 \<and> millisec \<noteq> 0
          then do {
            s \<leftarrow> mbx_put_wait pmcb 3 s;
            s \<leftarrow> rt_block (rt_ms2tick millisec) WAIT_MBX s;
            Some (mem, s)
          }
          else Some (mem, s))"

definition sysMailFree :: "mail_queue_cb option \<Rightarrow> U32 \<Rightarrow> bool \<Rightarrow> kernel \<Rightarrow> (U32 \<times> kernel) option" where
  "sysMailFree queue_id mail isr s =
     (case queue_id of None \<Rightarrow> Some (osErrorParameter, s)
      | Some mq \<Rightarrow>
        let pmcb = mq_mcb mq; pool = mq_pool mq in
        if pmcb = NULL \<or> pool = 0 then Some (osErrorParameter, s)
        else if mail \<notin> set (box_mem s pool) then Some (osErrorValue, s)
        else
          let s = free_box pool mail s in
          if p_lnk s pmcb \<noteq> NULL \<and> mcb_state s pmcb = 3
          then if isr then Some (osOK, rt_psh_req (rt_psq_enq pmcb pool s))
            else
              let (mem, s) = alloc_box pool s in
              if mem \<noteq> 0
              then do {
                (ptcb, s) \<leftarrow> rt_get_first pmcb s;
                let s = rt_ret_val ptcb mem s;
                let s = rt_rmv_dly ptcb s;
                s \<leftarrow> rt_dispatch ptcb s;
                Some (osOK, s)
              }
              else Some (osOK, s)
          else Some (osOK, s))"

end
