(* ===== verification/Rtx_Life.thy ===== *)
theory Rtx_Life
  imports Rtx_System
begin

text \<open>
  The life of a task: the kernel after the start, the creation of a task, passing control on and
  changing a priority, each of which keeps the invariant of the scheduler.
\<close>

section \<open>Creating a task\<close>

lemma first_free_0: "0 < k \<Longrightarrow> first_free k xs = 0 \<longleftrightarrow> NULL \<notin> set xs"
  by (induction xs arbitrary: k) auto

lemma first_free_nth: "0 < k \<Longrightarrow> NULL \<in> set xs \<Longrightarrow>
    \<exists>i<length xs. first_free k xs = k + i \<and> xs ! i = NULL \<and> (\<forall>j<i. xs ! j \<noteq> NULL)"
proof (induction xs arbitrary: k)
  case (Cons x xs)
  show ?case
  proof (cases "x = NULL")
    case True
    then show ?thesis by (intro exI [of _ 0]) simp
  next
    case False
    then obtain i where "i < length xs" "first_free (Suc k) xs = Suc k + i" "xs ! i = NULL" "\<forall>j<i. xs ! j \<noteq> NULL"
      using Cons.IH [of "Suc k"] Cons.prems by auto
    then show ?thesis using False by (intro exI [of _ "Suc i"]) (auto simp: nth_Cons split: nat.split)
  qed
qed simp

text \<open>A new control block that is no task and no list head becomes a task in none of the lists.\<close>

lemma is_task_new:
  assumes "free_addr s p" "i < length (os_active_TCB s)" "os_active_TCB s ! i = NULL"
    "cb_type s' = (cb_type s)(p := TCB)" "os_active_TCB s' = (os_active_TCB s)[i := p]"
  shows "is_task s' t \<longleftrightarrow> t = p \<or> is_task s t"
proof -
  have pn: "p \<notin> {NULL, OS_RDY, OS_DLY, OS_IDLE}" "p \<notin> set (os_active_TCB s)" using assms(1) by (auto simp: free_addr_def)
  have "x \<in> set ((os_active_TCB s)[i := p]) \<longleftrightarrow> x = p \<or> x \<in> set (os_active_TCB s)" if "x \<noteq> NULL" for x
  proof -
    have "x \<in> set (os_active_TCB s) \<Longrightarrow> x \<in> set ((os_active_TCB s)[i := p])"
      using that assms(2,3) by (metis in_set_conv_nth length_list_update nth_list_update_neq)
    then show ?thesis using assms(2) set_update_subset_insert [of "os_active_TCB s" i p] set_update_memI by fast
  qed
  then show ?thesis using pn assms(4,5) by (cases "t = NULL") (auto simp: is_task_def)
qed

lemma sched_new_task:
  assumes S: "sched s q ds X" and p: "free_addr s p" "\<not> is_sem_mbx s p"
    and i: "i < length (os_active_TCB s)" "os_active_TCB s ! i = NULL"
    and s': "cb_type s' = (cb_type s)(p := TCB)" "os_active_TCB s' = (os_active_TCB s)[i := p]"
      "p_lnk s' = (p_lnk s)(p := NULL)" "p_rlnk s' = (p_rlnk s)(p := NULL)"
      "p_dlnk s' = (p_dlnk s)(p := NULL)" "p_blnk s' = (p_blnk s)(p := NULL)"
      "delta_time s' = (delta_time s)(p := 0)" "prio s' = (prio s)(p := v)" "state s' = (state s)(p := READY)"
  shows "sched s' q ds (insert p X)" "is_task s' t \<longleftrightarrow> t = p \<or> is_task s t" "p \<notin> fst ` set ds"
proof -
  note D = schedD [OF S]
  have pn: "p \<notin> {NULL, OS_RDY, OS_DLY, OS_IDLE}" "p \<notin> set (os_active_TCB s)" using p(1) by (auto simp: free_addr_def)
  have tk: "is_task s' x \<longleftrightarrow> x = p \<or> is_task s x" for x by (rule is_task_new [OF p(1) i s'(1,2)])
  then show "is_task s' t \<longleftrightarrow> t = p \<or> is_task s t" .
  have np: "\<not> is_task s p" using pn by (auto simp: is_task_def)
  have sem: "is_sem_mbx s' = is_sem_mbx s" using p(2) s'(1) by (auto simp: is_sem_mbx_def cb_types fun_eq_iff)
  have hd: "is_head s' = is_head s" by (simp add: is_head_def sem fun_eq_iff)
  have hp: "\<not> is_head s p" using pn p(2) by (auto simp: is_head_def)
  have nq: "p \<notin> set (q h)" for h using queues_task [OF D(1)] np by blast
  show nd: "p \<notin> fst ` set ds" using D(2) np unfolding delays_def by blast
  have Q: "queues s' q NULL"
    unfolding queues_def sem hd
  proof (intro conjI allI impI ballI)
    show "cb_type s' OS_RDY = HCB" "cb_type s' OS_DLY = HCB" "cb_type s' NULL = TCB"
      using D(1) s'(1) pn by (auto simp: queues_def)
    show "is_head s h \<Longrightarrow> chain (p_lnk s') (p_lnk s' h) (q h) NULL" for h
      using queues_chain [OF D(1)] nq hp s'(3) by auto
    show "\<not> is_head s h \<Longrightarrow> q h = []" for h using D(1) unfolding queues_def by blast
    show "is_sem_mbx s h \<Longrightarrow> rchain (p_rlnk s') h (q h)" for h
      using queues_rchain [OF D(1)] nq s'(4) by simp
    show "is_task s' x \<Longrightarrow> x \<noteq> NULL \<Longrightarrow> \<forall>h. is_sem_mbx s h \<longrightarrow> x \<notin> set (q h) \<Longrightarrow> p_rlnk s' x = NULL" for x
      using queues_rlnk_NULL [OF D(1)] s'(4) tk by auto
    show "distinct (q h)" for h by (rule queues_distinct [OF D(1)])
    show "h \<noteq> h' \<Longrightarrow> set (q h) \<inter> set (q h') = {}" for h h' using queues_disjoint [OF D(1)] by blast
    show "x \<in> set (q h) \<Longrightarrow> is_task s' x" for x h using queues_task [OF D(1)] tk by blast
  qed
  have fs: "p \<notin> set (map fst ds)" using nd by simp
  have pd: "OS_DLY \<noteq> p" using pn by auto
  have dl: "deltas ((delta_time s)(p := 0)) OS_DLY 0 ds = deltas (delta_time s) OS_DLY 0 ds"
    using nd pn by (intro deltas_cong) auto
  have ls: "ds \<noteq> [] \<Longrightarrow> fst (last ds) \<noteq> p" using fs by (metis last_in_set image_eqI set_map)
  have "delays s' ds"
    unfolding delays_def
  proof (intro conjI ballI allI impI)
    show "cb_type s' OS_DLY = HCB" using D(2) pn s'(1) by (auto simp: delays_def)
    show "chain (p_dlnk s') (p_dlnk s' OS_DLY) (map fst ds) NULL" "rchain (p_blnk s') OS_DLY (map fst ds)"
      "distinct (map fst ds)" using D(2) fs pd unfolding delays_def by (simp_all add: s'(5,6))
    show "is_task s' x" if "x \<in> fst ` set ds" for x using D(2) that tk unfolding delays_def by blast
    show "p_blnk s' x = NULL" if "is_task s' x" "x \<notin> fst ` set ds" for x
      using D(2) that tk unfolding delays_def by (auto simp: s'(6))
    show "deltas (delta_time s') OS_DLY 0 ds" using D(2) dl unfolding delays_def s'(7) by simp
    show "ds \<noteq> [] \<Longrightarrow> delta_time s' (fst (last ds)) = 0" using D(2) unfolding delays_def s'(7) by auto
    show "k < 2 ^ 16" if "k \<in> snd ` set ds" for k using D(2) that unfolding delays_def by blast
  qed
  moreover have "by_prio (prio s') (q h)" for h using D(4) nq by (simp add: s'(8))
  ultimately show "sched s' q ds (insert p X)"
  proof (intro schedI)
    fix x assume x: "is_task s' x" "x \<notin> insert p X"
    then have "is_task s x" "x \<notin> X" "state s' x = state s x" using tk s'(9) by auto
    then show "(x \<in> set (q OS_RDY)) = (state s' x = READY)"
      "(\<exists>h. h \<noteq> OS_RDY \<and> x \<in> set (q h)) = waiting (state s' x)"
      "x \<in> fst ` set ds \<Longrightarrow> blocked (state s' x)" "state s' x \<noteq> RUNNING"
      using D(6-9) by simp_all
  qed (use Q D(3,5) nq in auto)
qed

text \<open>The fields that the creation of a task sets and those it leaves.\<close>

lemma init_context_fields [simp]:
  "cb_type (rt_init_context p pr tb s) = (cb_type s)(p := TCB)"
  "p_lnk (rt_init_context p pr tb s) = (p_lnk s)(p := NULL)" "p_rlnk (rt_init_context p pr tb s) = (p_rlnk s)(p := NULL)"
  "p_dlnk (rt_init_context p pr tb s) = (p_dlnk s)(p := NULL)" "p_blnk (rt_init_context p pr tb s) = (p_blnk s)(p := NULL)"
  "delta_time (rt_init_context p pr tb s) = (delta_time s)(p := 0)" "prio (rt_init_context p pr tb s) = (prio s)(p := pr)"
  "prio_base (rt_init_context p pr tb s) = (prio_base s)(p := pr)"
  "state (rt_init_context p pr tb s) = (state s)(p := READY)" "run (rt_init_context p pr tb s) = run s"
  "new_tsk (rt_init_context p pr tb s) = new_tsk s" "os_active_TCB (rt_init_context p pr tb s) = os_active_TCB s"
  "events (rt_init_context p pr tb s) = (events s)(p := 0)" "task_id (rt_init_context p pr tb s) = task_id s"
  by (simp_all add: rt_init_context_def rt_init_stack_def alloc_box_def Let_def split: list.split prod.split)

text \<open>The creation of a task: it becomes active under the first free number and runs at once when its
  priority is the highest.\<close>

definition create_prio :: "U32 \<Rightarrow> U8" where
  "create_prio ps = ucast ((if ps AND 0xFF = 0 then ps + 1 else ps) AND 0xFF)"

lemma rt_tsk_create_ok:
  assumes K: "kinv s q ds" and b: "box_free s (mp_tcb s) = b # bs" "b \<noteq> 0" "free_addr s (CB b)" "\<not> is_sem_mbx s (CB b)"
    and a: "NULL \<in> set (os_active_TCB s)"
  obtains i s' s0 where "rt_tsk_create task ps stk arg s = Some (word_of_nat (Suc i), s')"
    "i < length (os_active_TCB s)" "os_active_TCB s ! i = NULL" "\<forall>j<i. os_active_TCB s ! j \<noteq> NULL"
    "os_active_TCB s' = (os_active_TCB s)[i := CB b]"
    "prio s0 = (prio s)(CB b := create_prio ps)" "run s0 = run s"
    "kinv (switch_context s') (dispatched s0 (CB b) q) ds"
    "new_tsk s' = (if prio s (run s) < create_prio ps then CB b else run s)"
proof -
  note k = kinvD [OF K]
  let ?p = "CB b"
  obtain i where i: "i < length (os_active_TCB s)" "rt_get_TID s = Suc i" "os_active_TCB s ! i = NULL"
    "\<forall>j<i. os_active_TCB s ! j \<noteq> NULL"
    using first_free_nth [of 1 "os_active_TCB s"] a by (auto simp: rt_get_TID_def)
  define ps' where "ps' = (if ps AND 0xFF = 0 then ps + 1 else ps)"
  define s1 where "s1 = s\<lparr>box_free := (box_free s)(mp_tcb s := bs)\<rparr>"
  define s2 where "s2 = set_argv ?p arg (set_msg ?p arg (set_task_id ?p (word_of_nat (Suc i))
      (set_priv_stack ?p (drop_bit 8 ps') (set_stack ?p stk s1))))"
  define s3 where "s3 = rt_init_context ?p (create_prio ps) task s2"
  define s4 where "s4 = s3\<lparr>os_active_TCB := (os_active_TCB s3)[i := ?p]\<rparr>"
  have f: "cb_type s4 = (cb_type s)(?p := TCB)" "os_active_TCB s4 = (os_active_TCB s)[i := ?p]"
      "p_lnk s4 = (p_lnk s)(?p := NULL)" "p_rlnk s4 = (p_rlnk s)(?p := NULL)"
      "p_dlnk s4 = (p_dlnk s)(?p := NULL)" "p_blnk s4 = (p_blnk s)(?p := NULL)"
      "delta_time s4 = (delta_time s)(?p := 0)" "prio s4 = (prio s)(?p := create_prio ps)"
      "state s4 = (state s)(?p := READY)" "run s4 = run s" "new_tsk s4 = new_tsk s"
    by (simp_all add: s4_def s3_def s2_def s1_def)
  note N = sched_new_task [OF k(1) b(3,4) i(1,3) f(1-9)]
  have np: "?p \<noteq> run s" using b(3) k(2) by (auto simp: free_addr_def is_task_def)
  have npq: "?p \<notin> set (q h)" for h
    using queues_task [OF schedD(1) [OF k(1)]] b(3) by (fastforce simp: free_addr_def is_task_def)
  have t4: "is_task s4 ?p" "is_task s4 (run s)" using N(2) k(2) by auto
  have ok: "tasks_ok s4"
    unfolding tasks_ok_def
  proof (intro conjI ballI)
    show "is_task s4 OS_IDLE" using k(6) N(2) by (simp add: tasks_ok_def)
    fix x assume "x \<in> set (os_active_TCB s4)"
    then have "x = ?p \<or> x \<in> set (os_active_TCB s)" using f(2) set_update_subset_insert by fastforce
    then show "x = NULL \<or> is_task s4 x" using k(6) N(2) by (auto simp: tasks_ok_def)
  qed
  obtain s' where d: "rt_dispatch ?p s4 = Some s'" "core_only s4 s'"
    "new_tsk s' = (if prio s4 (run s4) < prio s4 ?p then ?p else run s4)"
    "kinv (switch_context s') (dispatched s4 ?p q) ds"
  proof (rule rt_dispatch_task [of s4 q ds ?p])
    show "sched s4 q ds {run s4, ?p}" using N(1) f(10) by (simp add: insert_commute)
    show "prio s4 t \<le> prio s4 (run s4)" if "t \<in> set (q OS_RDY)" for t
      using k(8) [OF that] that npq np by (auto simp: f(8,10))
    show "OS_IDLE \<in> {run s4, ?p} \<union> set (q OS_RDY)" using k(7) f(10) by auto
    show "state s4 (run s4) = RUNNING" "new_tsk s4 = run s4" using k(4,5) np by (simp_all add: f(9-11))
  qed (use t4 N(3) np k(3) ok f(10) in auto)
  have c: "rt_tsk_create task ps stk arg s = Some (word_of_nat (Suc i), s')"
    using b(1,2) i(2) d(1)
    by (simp add: rt_tsk_create_def alloc_box_def ptr_of_def rt_get_TID_def s4_def s3_def s2_def s1_def ps'_def
        create_prio_def Let_def)
  have ac: "os_active_TCB s' = (os_active_TCB s)[i := ?p]" using core_only_fields(17) [OF d(2)] f(2) by simp
  show thesis
    by (rule that [OF c i(1,3,4) ac f(8,10) d(4)]) (use d(3) np in \<open>simp add: f(8,10)\<close>)
qed

text \<open>Without a free number the control block that was allocated is not given back.\<close>

lemma rt_tsk_create_leaks:
  assumes "box_free s (mp_tcb s) = b # bs" "b \<noteq> 0" "NULL \<notin> set (os_active_TCB s)"
  shows "\<exists>s'. rt_tsk_create task ps stk arg s = Some (0, s') \<and> box_free s' (mp_tcb s) = bs \<and>
    os_active_TCB s' = os_active_TCB s"
proof -
  have "first_free 1 (os_active_TCB s) = 0" using assms(3) first_free_0 [of 1] by simp
  then show ?thesis using assms(1,2)
    by (simp add: rt_tsk_create_def alloc_box_def ptr_of_def rt_get_TID_def Let_def)
qed

section \<open>The start\<close>

text \<open>After the initialisation, from zeroed memory, the idle task runs and every list is empty.\<close>

lemma rt_sys_init_ok:
  assumes "s0 = zero_kernel\<lparr>os_active_TCB := replicate n NULL, mp_tcb := pt, mp_stk := ps,
      box_mem := bm, os_stackinfo := si\<rparr>"
  shows "kinv (rt_sys_init fs rr idle s0) (\<lambda>_. []) []"
proof -
  define s where "s = rt_sys_init fs rr idle s0"
  have f: "cb_type s = (\<lambda>_. 0)(OS_IDLE := TCB, OS_RDY := HCB, OS_DLY := HCB)" "p_lnk s = (\<lambda>_. NULL)"
    "p_rlnk s = (\<lambda>_. NULL)" "p_dlnk s = (\<lambda>_. NULL)" "p_blnk s = (\<lambda>_. NULL)" "delta_time s = (\<lambda>_. 0)"
    "state s = (\<lambda>_. INACTIVE)(OS_IDLE := RUNNING)" "run s = OS_IDLE" "new_tsk s = OS_IDLE"
    "os_active_TCB s = replicate n NULL"
    by (auto simp: s_def assms rt_sys_init_def Let_def zero_kernel_def rt_switch_req_def rt_init_robin_def init_box_def
        fun_upd_def fun_eq_iff map_replicate_const)
  have tk: "is_task s t \<longleftrightarrow> t = OS_IDLE" for t by (auto simp: is_task_def f cb_types)
  have sem: "\<not> is_sem_mbx s h" for h by (auto simp: is_sem_mbx_def f cb_types)
  have "sched s (\<lambda>_. []) [] {OS_IDLE}"
    by (rule schedI) (use tk sem in \<open>auto simp: queues_def delays_def f cb_types is_head_def\<close>)
  then have "kinv s (\<lambda>_. []) []"
    by (intro kinvI) (auto simp: f tk tasks_ok_def)
  then show ?thesis by (simp add: s_def)
qed

section \<open>Passing control on\<close>

lemma rt_get_same_eq: "rt_get_same_rdy_prio s =
    (if p_lnk s OS_RDY = NULL then None
     else if prio s (p_lnk s OS_RDY) = prio s (run s)
     then Some (p_lnk s OS_RDY, set_p_lnk OS_RDY (p_lnk s (p_lnk s OS_RDY)) s) else Some (NULL, s))"
  by (simp add: rt_get_same_rdy_prio_def Let_def)

lemma queues_lnk_free:
  assumes "queues s q y" "\<And>h. t \<notin> set (q h)" "\<not> is_head s t"
  shows "queues (set_p_lnk t v s) q y"
proof -
  have e: "is_head (set_p_lnk t v s) = is_head s" "is_sem_mbx (set_p_lnk t v s) = is_sem_mbx s"
    "is_task (set_p_lnk t v s) = is_task s" by (auto simp: is_head_def is_sem_mbx_def is_task_def fun_eq_iff)
  have "chain (p_lnk (set_p_lnk t v s)) (p_lnk (set_p_lnk t v s) h) (q h) NULL" if "is_head s h" for h
    using queues_chain [OF assms(1) that] assms(2) [of h] assms(3) that by auto
  then show ?thesis using assms(1) unfolding queues_def e by simp
qed

lemma sched_get_same:
  assumes S: "sched s q ds X" and q: "q OS_RDY = t # B"
  shows "sched (set_p_lnk OS_RDY (p_lnk s t) s) (q(OS_RDY := B)) ds (insert t X)" "p_lnk s OS_RDY = t" "t \<noteq> NULL"
proof -
  obtain s1 where g: "rt_get_first OS_RDY s = Some (t, s1)" "sched s1 (q(OS_RDY := B)) ds (insert t X)"
    using sched_get_first [OF S is_head_RDY q] by blast
  note D = schedD [OF g(2)]
  have t: "is_task s t" using queues_task [OF schedD(1) [OF S], of t OS_RDY] q by simp
  then show "t \<noteq> NULL" by (auto simp: is_task_def)
  have n: "t \<noteq> OS_RDY" using t by (auto simp: is_task_def)
  show l: "p_lnk s OS_RDY = t" using p_lnk_head [OF schedD(1) [OF S] is_head_RDY] q by simp
  have s1: "s1 = set_p_lnk t NULL (set_p_lnk OS_RDY (p_lnk s t) s)"
    using g(1) l RDY_not_sem [OF schedD(1) [OF S]] n \<open>t \<noteq> NULL\<close>
    by (auto simp: rt_get_first_def Let_def is_sem_mbx_def split: if_splits)
  have e: "set_p_lnk OS_RDY (p_lnk s t) s = set_p_lnk t (p_lnk s t) s1"
    unfolding s1 using n by (simp add: fun_upd_twist fun_upd_idem)
  have "is_task s1 t" using t by (simp add: s1 is_task_def)
  then have "\<not> is_head s1 t" by (rule is_task_not_head)
  then have "queues (set_p_lnk t (p_lnk s t) s1) (q(OS_RDY := B)) NULL"
    using queues_lnk_free [OF D(1)] D(5) by blast
  moreover have "delays (set_p_lnk t (p_lnk s t) s1) ds" using D(2) delays_cong [of "set_p_lnk t (p_lnk s t) s1" s1] by simp
  moreover have "is_task (set_p_lnk t (p_lnk s t) s1) = is_task s1" by (simp add: is_task_def fun_eq_iff)
  ultimately show "sched (set_p_lnk OS_RDY (p_lnk s t) s) (q(OS_RDY := B)) ds (insert t X)"
    unfolding e using g(2) unfolding sched_def by simp
qed

lemma rt_tsk_pass_ok:
  assumes K: "kinv s q ds" and q: "q OS_RDY = t # B"
  obtains s' where "rt_tsk_pass s = Some s'"
    "kinv (switch_context s') (if prio s t = prio s (run s) then q(OS_RDY := ins_prio (prio s) (run s) B) else q) ds"
    "new_tsk s' = (if prio s t = prio s (run s) then t else run s)"
proof -
  note k = kinvD [OF K]
  note G = sched_get_same [OF k(1) q]
  show thesis
  proof (cases "prio s t = prio s (run s)")
    case False
    then have "rt_tsk_pass s = Some s" using G(2,3) by (simp add: rt_tsk_pass_def rt_get_same_eq)
    then show thesis using that kinv_switch_same [OF K] k(5) False by simp
  next
    case True
    let ?s1 = "set_p_lnk OS_RDY (p_lnk s t) s"
    have tk: "is_task ?s1 = is_task s" "tasks_ok ?s1 = tasks_ok s" by (auto simp: is_task_def tasks_ok_def fun_eq_iff)
    have t: "is_task s t" "t \<notin> fst ` set ds" "t \<noteq> run s" using sched_ready_queue [OF k(1), of t] q by auto
    obtain s2 where p: "rt_put_prio OS_RDY (run s) ?s1 = Some s2" "links_only ?s1 s2"
      "sched (set_state (run s) READY s2) ((q(OS_RDY := B))(OS_RDY := ins_prio (prio ?s1) (run s) ((q(OS_RDY := B)) OS_RDY))) ds
         (insert t {run s} - {run s})"
      by (rule sched_put_rdy [OF G(1), of "run s"]) (use k(2,3) tk in auto)
    note f = links_only_fields [OF p(2)]
    have S: "sched (set_state (run s) READY s2) (q(OS_RDY := ins_prio (prio s) (run s) B)) ds {t}"
      using p(3) t(3) by (simp add: insert_Diff_if)
    have r2: "run s2 = run s" using p(2) by (auto simp: links_only_def)
    have e: "rt_tsk_pass s = Some (rt_switch_req t (set_state (run s) READY s2))"
      using True G(2,3) p(1) r2 by (simp add: rt_tsk_pass_def rt_get_same_eq)
    have "by_prio (prio s) (t # B)" using schedD(4) [OF k(1), of OS_RDY] q by simp
    then have hp: "prio s x \<le> prio s t" if "x \<in> set (ins_prio (prio s) (run s) B)" for x
      using that True by (auto simp: by_prio_Cons)
    have "kinv (switch_context (rt_switch_req t (set_state (run s) READY s2))) (q(OS_RDY := ins_prio (prio s) (run s) B)) ds"
    proof (rule kinv_switchI [of _ _ _ t])
      show "t = OS_IDLE \<or> OS_IDLE \<in> set ((q(OS_RDY := ins_prio (prio s) (run s) B)) OS_RDY)"
        using k(7) q by auto
    qed (use S t f tk k(6) hp in \<open>auto simp: rt_switch_req_sched\<close>)
    then show thesis using that [OF e] True by simp
  qed
qed

text \<open>The idle task has no ready task to look at.\<close>

lemma rt_tsk_pass_idle: "kinv s q ds \<Longrightarrow> q OS_RDY = [] \<Longrightarrow> rt_tsk_pass s = None"
  using p_lnk_head [OF schedD(1) [OF kinvD(1)] is_head_RDY, of s q ds] by (simp add: rt_tsk_pass_def rt_get_same_eq)

section \<open>Changing a priority\<close>

lemma tsk_prio_run_ok:
  assumes K: "kinv s q ds" and q: "q OS_RDY = t # B"
    and s0: "s0 = set_prio_base (run s) v (set_prio (run s) v s)"
  obtains s' where "tsk_prio_run v s0 = Some s'"
    "kinv (switch_context s') (if v < prio s t then q(OS_RDY := tl (ins_prio ((prio s)(run s := v)) (run s) (q OS_RDY))) else q) ds"
    "new_tsk s' = (if v < prio s t then t else run s)" "prio s' = (prio s)(run s := v)"
proof -
  note k = kinvD [OF K]
  have tr: "t \<noteq> run s" "run s \<notin> set (q OS_RDY)" using sched_ready_queue [OF k(1), of t] q kinvD(10) [OF K, of OS_RDY] by auto
  have S0: "sched s0 q ds {run s}"
    using sched_prio_float [OF k(1), of "run s" v] sched_cong [of s0 "set_prio (run s) v s" "{run s}" q ds] s0 by simp
  have f0: "is_task s0 = is_task s" "tasks_ok s0 = tasks_ok s" "prio s0 = (prio s)(run s := v)" "run s0 = run s"
    "state s0 = state s" "new_tsk s0 = run s"
    using k(5) by (auto simp: s0 is_task_def tasks_ok_def fun_eq_iff)
  have r: "rt_rdy_prio s0 = Some (prio s t)" using rt_rdy_prio_hd [OF S0 q] f0(3) tr by simp
  show thesis
  proof (cases "v < prio s t")
    case False
    have B: "by_prio (prio s) (q OS_RDY)" by (rule schedD(4) [OF k(1)])
    have "prio s0 x \<le> prio s0 (run s0)" if "x \<in> set (q OS_RDY)" for x
    proof -
      have "prio s x \<le> prio s t" using that B q by (auto simp: by_prio_Cons)
      then show ?thesis using False that tr f0 by auto
    qed
    then have "kinv s0 q ds" by (intro kinvI) (use S0 k f0 in auto)
    moreover have "tsk_prio_run v s0 = Some s0" using False r by (simp add: tsk_prio_run_def)
    ultimately show thesis using that kinv_switch_same False f0 by simp
  next
    case True
    let ?q = "q(OS_RDY := ins_prio (prio s0) (run s) (q OS_RDY))"
    obtain s1 where p: "rt_put_prio OS_RDY (run s) s0 = Some s1" "links_only s0 s1"
      "sched (set_state (run s) READY s1) ?q ds ({run s} - {run s})"
      by (rule sched_put_rdy [OF S0, of "run s"]) (use k(2,3) f0 in auto)
    note f = links_only_fields [OF p(2)]
    have r1: "run s1 = run s" using p(2) f0 by (auto simp: links_only_def)
    have hd: "?q OS_RDY = t # tl (ins_prio (prio s0) (run s) (q OS_RDY))"
      using True f0(3) tr by (simp add: ins_prio_def q)
    have i: "tasks_ok (set_state (run s) READY s1)" "OS_IDLE \<in> set (?q OS_RDY)"
      using k(6,7) f f0 by auto
    obtain s' where d: "rt_dispatch NULL (set_state (run s) READY s1) = Some s'" "core_only (set_state (run s) READY s1) s'"
      "new_tsk s' = t" "kinv (switch_context s') (?q(OS_RDY := tl (ins_prio (prio s0) (run s) (q OS_RDY)))) ds"
      by (rule rt_dispatch_NULL [of _ ?q ds, OF _ hd i]) (use p(3) in auto)
    have "tsk_prio_run v s0 = Some s'" using True r p(1) d(1) f0 r1 by (simp add: tsk_prio_run_def)
    then show thesis using that True d(3,4) core_only_fields(2) [OF d(2)] f f0(3) by simp
  qed
qed

text \<open>Another task: it gets its new place in the list it is in, and runs at once when it is ready and its
  new priority is the highest.\<close>

lemma rt_tsk_prio_other:
  assumes K: "kinv s q ds" and t: "tid \<noteq> 0" "tsk_active tid s = t" "is_task s t" "t \<noteq> run s"
  obtains s' q' where "rt_tsk_prio tid v s = Some (OS_R_OK, s')" "kinv (switch_context s') q' ds"
    "prio s' = (prio s)(t := v)" "new_tsk s' = (if state s t = READY \<and> prio s (run s) < v then t else run s)"
    "\<And>h. h \<noteq> OS_RDY \<Longrightarrow> set (q' h) = set (q h)"
proof -
  note k = kinvD [OF K]
  let ?s1 = "set_prio t v s" and ?s0 = "set_prio_base t v (set_prio t v s)"
  let ?q = "resorted ((prio s)(t := v)) t q"
  have tn: "t \<noteq> NULL" "t \<notin> {run s}" using t(3,4) by (auto simp: is_task_def)
  have c0: "set_prio_base t v (set_prio t v s) = set_prio t v (set_prio_base t v s)" by simp
  have Sb: "sched (set_prio_base t v s) q ds {run s}"
    using k(1) sched_cong [of "set_prio_base t v s" s "{run s}" q ds] by simp
  have tb: "is_task (set_prio_base t v s) = is_task s" "tasks_ok (set_prio_base t v s) = tasks_ok s"
    by (auto simp: is_task_def tasks_ok_def fun_eq_iff)
  obtain s1 where p: "rt_resort_prio t ?s0 = Some s1" "links_only ?s0 s1" "sched s1 ?q ds {run s}"
    using sched_resort [OF Sb, of t v] t(3) tb tn(2) unfolding c0 by auto
  note f = links_only_fields [OF p(2)]
  have t0: "is_task ?s0 = is_task s" "tasks_ok ?s0 = tasks_ok s" by (auto simp: is_task_def tasks_ok_def fun_eq_iff)
  have f1: "is_task s1 = is_task s" "tasks_ok s1 = tasks_ok s" "prio s1 = (prio s)(t := v)" "run s1 = run s"
    "state s1 = state s" "new_tsk s1 = run s"
    using f t0 p(2) k(5) by (auto simp: links_only_def)
  have e: "rt_tsk_prio tid v s = (if state s1 t = READY
      then do { (p, s) \<leftarrow> rt_get_first OS_RDY s1; s \<leftarrow> rt_dispatch p s; Some (OS_R_OK, s) } else Some (OS_R_OK, s1))"
    using t tn p(1) by (simp add: rt_tsk_prio_def)
  have idl: "run s = OS_IDLE \<or> OS_IDLE \<in> set (?q OS_RDY)" using k(7) by simp
  show thesis
  proof (cases "state s t = READY")
    case False
    have nr: "t \<notin> set (q OS_RDY)" using schedD(6) [OF k(1) t(3)] tn False by simp
    have "kinv s1 ?q ds"
      by (rule kinvI) (use p(3) f1 k idl tn nr in auto)
    then show thesis using that [of s1 ?q] e f1 False kinv_switch_same by simp
  next
    case True
    have ir: "t \<in> set (q OS_RDY)" using schedD(6) [OF k(1) t(3)] tn True by simp
    then obtain x B where xq: "?q OS_RDY = x # B" by (cases "?q OS_RDY") (metis list.set_cases empty_iff set_resorted empty_set)+
    obtain s2 where g: "rt_get_first OS_RDY s1 = Some (x, s2)" "links_only s1 s2" "sched s2 (?q(OS_RDY := B)) ds {x, run s}"
      using sched_get_first [OF p(3) is_head_RDY xq] by blast
    note fg = links_only_fields [OF g(2)]
    have f2: "is_task s2 = is_task s" "tasks_ok s2 = tasks_ok s" "prio s2 = (prio s)(t := v)" "run s2 = run s"
      "state s2 = state s" "new_tsk s2 = run s"
      using fg f1 g(2) by (auto simp: links_only_def)
    have x: "is_task s x" "x \<notin> fst ` set ds" "x \<noteq> run s"
      using sched_ready_queue [OF p(3), of x] xq f1 by auto
    have bp: "by_prio (prio s1) (x # B)" using schedD(4) [OF p(3), of OS_RDY] xq by simp
    have tin: "t = x \<or> t \<in> set B" using ir xq by (metis set_ConsD set_resorted)
    have sB: "set B \<subseteq> set (q OS_RDY)" "x \<in> set (q OS_RDY)" using xq by (metis set_resorted set_subset_Cons, metis set_resorted list.set_intros(1))
    have hp: "prio s2 y \<le> prio s2 (run s2)" if y: "y \<in> set ((?q(OS_RDY := B)) OS_RDY)" for y
    proof (cases "y = t")
      case False
      then show ?thesis using k(8) [of y] y sB f2 t(4) by auto
    next
      case True
      have "t \<noteq> x" using schedD(5) [OF g(3), of x OS_RDY] y True by auto
      then have "prio s x \<le> prio s (run s)" "prio s1 t \<le> prio s1 x" using k(8) [OF sB(2)] bp y True by (auto simp: by_prio_Cons)
      then show ?thesis using True f1 f2 \<open>t \<noteq> x\<close> t(4) by auto
    qed
    obtain s' where d: "rt_dispatch x s2 = Some s'" "core_only s2 s'"
      "new_tsk s' = (if prio s2 (run s2) < prio s2 x then x else run s2)"
      "kinv (switch_context s') (dispatched s2 x (?q(OS_RDY := B))) ds"
    proof (rule rt_dispatch_task [of s2 "?q(OS_RDY := B)" ds x])
      show "sched s2 (?q(OS_RDY := B)) ds {run s2, x}" using g(3) f2 by (simp add: insert_commute)
      show "OS_IDLE \<in> {run s2, x} \<union> set ((?q(OS_RDY := B)) OS_RDY)" using idl xq f2 by auto
    qed (use x f2 k hp in auto)
    have n: "new_tsk s' = (if prio s (run s) < v then t else run s)"
    proof (cases "t = x")
      case True
      then show ?thesis using d(3) f2 t(4) by simp
    next
      case False
      then have "prio s x \<le> prio s (run s)" "v \<le> prio s x" using k(8) [OF sB(2)] bp tin f1 by (auto simp: by_prio_Cons)
      then show ?thesis using d(3) f2 False t(4) x(3) by auto
    qed
    have "rt_tsk_prio tid v s = Some (OS_R_OK, s')" using e True f1 g(1) d(1) by simp
    moreover have "prio s' = (prio s)(t := v)" using core_only_fields(2) [OF d(2)] f2 by simp
    moreover have "set (dispatched s2 x (?q(OS_RDY := B)) h) = set (q h)" if "h \<noteq> OS_RDY" for h
      using that by (simp add: dispatched_def)
    ultimately show thesis using that d(4) n True by simp
  qed
qed

end
