(* ===== verification/Kernel_Frame.thy ===== *)
theory Kernel_Frame
  imports Cmsis_Services Rtx_Life "HOL-Library.Sublist"
begin

text \<open>
  What the services leave alone.  \<open>books s\<close> is the state \<open>s\<close> without what scheduling, waiting and the
  passing of messages change: what is left are the kinds of the objects, the table of tasks, the
  mutexes with their owners, the timers, the memory pools and the queue of requests.
\<close>

definition books :: "kernel \<Rightarrow> kernel" where
  "books s = s\<lparr>p_lnk := \<lambda>_. NULL, p_rlnk := \<lambda>_. NULL, p_dlnk := \<lambda>_. NULL, p_blnk := \<lambda>_. NULL,
     delta_time := \<lambda>_. 0, state := \<lambda>_. INACTIVE, prio := \<lambda>_. 0, prio_base := \<lambda>_. 0, interval_time := \<lambda>_. 0,
     events := \<lambda>_. 0, waits := \<lambda>_. 0, msg := \<lambda>_. 0, ret0 := \<lambda>_. 0, ret1 := \<lambda>_. 0, mcb_state := \<lambda>_. 0,
     isr_st := \<lambda>_. 0, mcb_first := \<lambda>_. 0, mcb_last := \<lambda>_. 0, mcb_count := \<lambda>_. 0, mcb_size := \<lambda>_. 0, mcb_msg := \<lambda>_ _. 0, tokens := \<lambda>_. 0,
     run := NULL, new_tsk := NULL, os_time := 0, robin_task := NULL, robin_time := 0, pendsv := False,
     os_psh_flag := False, os_err := None, stack_word := \<lambda>_. 0\<rparr>"

lemma books_steps [simp]:
  "books (p_lnk_update f1 s) = books s" "books (p_rlnk_update f1 s) = books s"
  "books (p_dlnk_update f1 s) = books s" "books (p_blnk_update f1 s) = books s"
  "books (delta_time_update f2 s) = books s" "books (state_update f3 s) = books s"
  "books (prio_update f4 s) = books s" "books (prio_base_update f4 s) = books s"
  "books (interval_time_update f2 s) = books s" "books (events_update f2 s) = books s"
  "books (waits_update f2 s) = books s" "books (msg_update f5 s) = books s"
  "books (ret0_update f5 s) = books s" "books (ret1_update f5 s) = books s"
  "books (mcb_state_update f4 s) = books s" "books (mcb_first_update f2 s) = books s"
  "books (mcb_last_update f2 s) = books s" "books (mcb_count_update f2 s) = books s"
  "books (mcb_size_update f2 s) = books s" "books (isr_st_update f4 s) = books s"
  "books (mcb_msg_update f6 s) = books s" "books (tokens_update f2 s) = books s"
  "books (s\<lparr>run := p\<rparr>) = books s" "books (s\<lparr>new_tsk := p\<rparr>) = books s" "books (s\<lparr>os_time := w\<rparr>) = books s"
  "books (s\<lparr>robin_task := p\<rparr>) = books s" "books (s\<lparr>robin_time := v\<rparr>) = books s"
  "books (s\<lparr>pendsv := b\<rparr>) = books s" "books (s\<lparr>os_psh_flag := b\<rparr>) = books s"
  "books (s\<lparr>os_err := e\<rparr>) = books s" "books (s\<lparr>stack_word := f7\<rparr>) = books s"
  by (simp_all add: books_def)

lemma books_fields:
  assumes "books s' = books s"
  shows "cb_type s' = cb_type s" "task_id s' = task_id s" "os_active_TCB s' = os_active_TCB s"
    "p_mlnk s' = p_mlnk s" "level s' = level s" "owner s' = owner s" "psq_first s' = psq_first s"
    "psq_last s' = psq_last s" "psq_count s' = psq_count s" "psq_size s' = psq_size s" "psq_id s' = psq_id s"
    "psq_arg s' = psq_arg s" "box_free s' = box_free s" "box_mem s' = box_mem s" "mp_tcb s' = mp_tcb s"
    "tmr_next s' = tmr_next s" "tmr_state s' = tmr_state s" "tmr_type s' = tmr_type s" "tmr_tcnt s' = tmr_tcnt s"
    "tmr_icnt s' = tmr_icnt s" "os_timer_head s' = os_timer_head s" "mp_stk s' = mp_stk s"
  using arg_cong [OF assms, of cb_type] arg_cong [OF assms, of task_id] arg_cong [OF assms, of os_active_TCB]
    arg_cong [OF assms, of p_mlnk] arg_cong [OF assms, of level] arg_cong [OF assms, of owner]
    arg_cong [OF assms, of psq_first] arg_cong [OF assms, of psq_last] arg_cong [OF assms, of psq_count]
    arg_cong [OF assms, of psq_size] arg_cong [OF assms, of psq_id] arg_cong [OF assms, of psq_arg]
    arg_cong [OF assms, of box_free] arg_cong [OF assms, of box_mem] arg_cong [OF assms, of mp_tcb]
    arg_cong [OF assms, of tmr_next] arg_cong [OF assms, of tmr_state] arg_cong [OF assms, of tmr_type]
    arg_cong [OF assms, of tmr_tcnt] arg_cong [OF assms, of tmr_icnt] arg_cong [OF assms, of os_timer_head]
    arg_cong [OF assms, of mp_stk]
  by (simp_all add: books_def)

text \<open>Taking a result apart.\<close>

lemma bind_SomeE: "Option.bind r f = Some y \<Longrightarrow> (\<And>x. r = Some x \<Longrightarrow> f x = Some y \<Longrightarrow> P) \<Longrightarrow> P"
  by (cases r) auto

lemma if_SomeE: "(if b then x else y) = Some z \<Longrightarrow> (b \<Longrightarrow> x = Some z \<Longrightarrow> P) \<Longrightarrow> (\<not> b \<Longrightarrow> y = Some z \<Longrightarrow> P) \<Longrightarrow> P"
  by (cases b) auto

section \<open>Lists and the dispatcher\<close>

lemma books_calls [simp]:
  "books (rt_ret_val t v s) = books s" "books (rt_ret_val2 t v w s) = books s"
  "books (rt_switch_req t s) = books s" "books (switch_context s) = books s"
  "books (rt_put_rdy_first t s) = books s" "books (rt_rmv_dly t s) = books s"
  "books (os_error c s) = books s" "books (rt_psh_req s) = books s" "books (mbx_store m v s) = books s"
  "books (mbx_inc m s) = books s" "books (mbx_dec m s) = books s" "books (snd (mbx_fetch m s)) = books s"
  "books (rt_evt_clr f tid s) = books s"
  by (simp_all add: rt_ret_val_def rt_ret_val2_def rt_switch_req_def switch_context_def rt_put_rdy_first_def
      rt_rmv_dly_def os_error_def rt_psh_req_def mbx_store_def mbx_inc_def mbx_dec_def mbx_fetch_def rt_evt_clr_def Let_def)

lemma put_prio_books: "rt_put_prio h t s = Some s' \<Longrightarrow> books s' = books s"
  by (auto simp: rt_put_prio_def Let_def bind_eq_Some_conv)

lemma get_first_books: "rt_get_first h s = Some (t, s') \<Longrightarrow> books s' = books s"
  by (auto simp: rt_get_first_def Let_def split: if_splits)

lemma rmv_list_books: "rt_rmv_list t s = Some s' \<Longrightarrow> books s' = books s"
  by (auto simp: rt_rmv_list_def Let_def bind_eq_Some_conv split: if_splits)

lemma put_dly_books: "rt_put_dly t d s = Some s' \<Longrightarrow> books s' = books s"
  by (auto simp: rt_put_dly_def put_dly_last_def Let_def bind_eq_Some_conv split: if_splits)

lemmas list_books = put_prio_books get_first_books rmv_list_books put_dly_books

lemma resort_books: "rt_resort_prio t s = Some s' \<Longrightarrow> books s' = books s"
  by (auto simp: rt_resort_prio_def bind_eq_Some_conv dest!: list_books split: if_splits)

lemma dec_dly_expire_books: "dec_dly_expire s = Some s' \<Longrightarrow> books s' = books s"
  by (auto simp: dec_dly_expire_def Let_def bind_eq_Some_conv dest!: list_books)

lemma dec_dly_loop_books: "dec_dly_loop s = Some s' \<Longrightarrow> books s' = books s"
  by (induction rule: dec_dly_loop.raw_induct [rotated 1, consumes 1])
    (auto simp: bind_eq_Some_conv dest!: dec_dly_expire_books split: if_splits)

lemma dec_dly_books: "rt_dec_dly s = Some s' \<Longrightarrow> books s' = books s"
  by (auto simp: rt_dec_dly_def dest!: dec_dly_loop_books split: if_splits)

lemma dispatch_books: "rt_dispatch t s = Some s' \<Longrightarrow> books s' = books s"
  by (auto simp: rt_dispatch_def Let_def bind_eq_Some_conv dest!: list_books split: if_splits)

lemma block_books: "rt_block to st s = Some s' \<Longrightarrow> books s' = books s"
  by (auto simp: rt_block_def Let_def bind_eq_Some_conv dest!: list_books split: if_splits)

lemmas task_books = list_books resort_books dispatch_books block_books

section \<open>The services\<close>

lemma tsk_pass_books: "rt_tsk_pass s = Some s' \<Longrightarrow> books s' = books s"
  by (auto simp: rt_tsk_pass_def rt_get_same_rdy_prio_def Let_def bind_eq_Some_conv dest!: task_books split: if_splits)

lemma tsk_prio_run_books: "tsk_prio_run v s = Some s' \<Longrightarrow> books s' = books s"
  by (auto simp: tsk_prio_run_def bind_eq_Some_conv dest!: task_books split: if_splits)

lemma tsk_prio_books:
  assumes "rt_tsk_prio tid v s = Some (r, s')"
  shows "books s' = books s"
proof -
  have run: "books x = books s" if "tsk_prio_run v (set_prio_base p v (set_prio p v s)) = Some x" for p x
    using tsk_prio_run_books [OF that] by simp
  have other: "books x = books s" if "rt_resort_prio p (set_prio_base p v (set_prio p v s)) = Some x" for p x
    using resort_books [OF that] by simp
  show ?thesis
    using assms unfolding rt_tsk_prio_def Let_def
    by (elim bind_SomeE if_SomeE) (auto simp: bind_eq_Some_conv dest!: run other get_first_books dispatch_books)
qed

lemma sem_send_books: "rt_sem_send h s = Some (r, s') \<Longrightarrow> books s' = books s"
  by (auto simp: rt_sem_send_def Let_def bind_eq_Some_conv dest!: task_books split: if_splits)

lemma sem_wait_books: "rt_sem_wait h to s = Some (r, s') \<Longrightarrow> books s' = books s"
  by (auto simp: rt_sem_wait_def put_wait_def Let_def bind_eq_Some_conv dest!: task_books split: if_splits)

lemma mbx_send_books: "rt_mbx_send m v to s = Some (r, s') \<Longrightarrow> books s' = books s"
  by (auto simp: rt_mbx_send_def mbx_put_wait_def Let_def bind_eq_Some_conv dest!: task_books split: if_splits)

lemma mbx_fetch_books: "mbx_fetch m s = (v, s') \<Longrightarrow> books s' = books s"
  by (auto simp: mbx_fetch_def Let_def)

lemma mbx_wait_books: "rt_mbx_wait m to s = Some (r, v, s') \<Longrightarrow> books s' = books s"
  by (auto simp: rt_mbx_wait_def mbx_put_wait_def Let_def bind_eq_Some_conv dest!: task_books mbx_fetch_books
      split: if_splits prod.splits)

lemma evt_signal_books: "evt_signal t f s = (w, s') \<Longrightarrow> books s' = books s"
  by (auto simp: evt_signal_def evt_wkup_def Let_def split: if_splits)

lemma evt_set_books: "rt_evt_set f tid s = Some s' \<Longrightarrow> books s' = books s"
  by (auto simp: rt_evt_set_def Let_def dest!: task_books evt_signal_books split: if_splits prod.splits)

lemma evt_wait_books: "rt_evt_wait f to a s = Some (r, s') \<Longrightarrow> books s' = books s"
  by (auto simp: rt_evt_wait_def Let_def bind_eq_Some_conv dest!: task_books split: if_splits)

lemma dly_wait_books: "rt_dly_wait d s = Some s' \<Longrightarrow> books s' = books s"
  by (auto simp: rt_dly_wait_def dest!: task_books)

lemma chk_robin_books: "rt_chk_robin s = Some s' \<Longrightarrow> books s' = books s"
  by (auto simp: rt_chk_robin_def Let_def bind_eq_Some_conv dest!: task_books split: if_splits)

lemmas service_books = tsk_pass_books tsk_prio_books sem_send_books sem_wait_books mbx_send_books mbx_wait_books
  evt_set_books evt_wait_books dly_wait_books

text \<open>The service calls that change no books.\<close>

lemma svc_books:
  "svcThreadYield s = Some (r, s') \<Longrightarrow> books s' = books s"
  "svcThreadSetPriority t p s = Some (r, s') \<Longrightarrow> books s' = books s"
  "svcDelay ms s = Some (r, s') \<Longrightarrow> books s' = books s"
  "svcSignalSet t sig s = Some (r, s') \<Longrightarrow> books s' = books s"
  "books (snd (svcSignalClear t sig s)) = books s"
  "svcSignalWait sig ms s = Some (e, s') \<Longrightarrow> books s' = books s"
  "svcSemaphoreWait h ms s = Some (n, s') \<Longrightarrow> books s' = books s"
  "svcSemaphoreRelease h s = Some (r, s') \<Longrightarrow> books s' = books s"
  "svcMessagePut m v ms s = Some (r, s') \<Longrightarrow> books s' = books s"
  "svcMessageGet m ms s = Some (e, s') \<Longrightarrow> books s' = books s"
  by (auto simp: svcThreadYield_def svcThreadSetPriority_def svcDelay_def svcSignalSet_def svcSignalClear_def
      svcSignalWait_def svcSemaphoreWait_def svcSemaphoreRelease_def svcMessagePut_def svcMessageGet_def Let_def
      bind_eq_Some_conv dest!: service_books split: if_splits)

section \<open>Mutexes\<close>

text \<open>Without the owners of the mutexes too.\<close>

definition plain :: "kernel \<Rightarrow> kernel" where
  "plain s = books (s\<lparr>p_mlnk := \<lambda>_. NULL, level := \<lambda>_. 0, owner := \<lambda>_. NULL\<rparr>)"

lemma plain_steps [simp]:
  "plain (p_mlnk_update f s) = plain s" "plain (level_update g s) = plain s" "plain (owner_update f s) = plain s"
  by (simp_all add: plain_def books_def)

lemma books_plain: "books s' = books s \<Longrightarrow> plain s' = plain s"
proof -
  assume "books s' = books s"
  moreover have "plain x = (books x)\<lparr>p_mlnk := \<lambda>_. NULL, level := \<lambda>_. 0, owner := \<lambda>_. NULL\<rparr>" for x
    by (simp add: plain_def books_def)
  ultimately show ?thesis by simp
qed

lemmas plain_books_steps [simp] = books_steps [THEN books_plain] books_calls [THEN books_plain]

lemmas task_plain = task_books [THEN books_plain]

lemma mut_unlink_plain: "mut_unlink t m s = Some s' \<Longrightarrow> plain s' = plain s"
  by (auto simp: mut_unlink_def bind_eq_Some_conv split: if_splits)

lemma mut_wait_plain: "rt_mut_wait m to s = Some (r, s') \<Longrightarrow> plain s' = plain s"
  unfolding rt_mut_wait_def put_wait_def Let_def
  by (auto simp: bind_eq_Some_conv dest!: task_plain split: if_splits)

lemma mut_hand_over_plain: "mut_hand_over m s = Some s' \<Longrightarrow> plain s' = plain s"
  by (auto simp: mut_hand_over_def Let_def bind_eq_Some_conv dest!: task_plain split: if_splits)

lemma mut_release_plain: "rt_mut_release m s = Some (r, s') \<Longrightarrow> plain s' = plain s"
  by (auto simp: rt_mut_release_def Let_def bind_eq_Some_conv
      dest!: task_plain mut_unlink_plain mut_hand_over_plain split: if_splits)

section \<open>Creating and deleting objects\<close>

lemma flush_waiters_books: "flush_waiters h s = Some s' \<Longrightarrow> books s' = books s"
  by (induction rule: flush_waiters.raw_induct [rotated 1, consumes 1])
    (auto simp: Let_def bind_eq_Some_conv dest!: task_books split: if_splits)

lemma preempt_ready_books: "preempt_ready s = Some s' \<Longrightarrow> books s' = books s"
  by (auto simp: preempt_ready_def bind_eq_Some_conv dest!: task_books split: if_splits)

lemma books_set_cb: "books s' = books s \<Longrightarrow> books (set_cb_type h c s') = books (set_cb_type h c s)"
proof -
  assume "books s' = books s"
  moreover have "books (set_cb_type h c x) = set_cb_type h c (books x)" for x by (simp add: books_def)
  ultimately show ?thesis by simp
qed

lemma plain_set_cb: "plain s' = plain s \<Longrightarrow> plain (set_cb_type h c s') = plain (set_cb_type h c s)"
proof -
  assume "plain s' = plain s"
  moreover have "plain (set_cb_type h c x) = set_cb_type h c (plain x)" for x by (simp add: plain_def books_def)
  ultimately show ?thesis by simp
qed

lemma sem_delete_books: "rt_sem_delete h s = Some (r, s') \<Longrightarrow> books s' = books (set_cb_type h 0 s)"
  by (auto simp: rt_sem_delete_def bind_eq_Some_conv intro!: books_set_cb dest!: flush_waiters_books preempt_ready_books)

lemma mut_disown_plain: "mut_disown m s = Some s' \<Longrightarrow> plain s' = plain s"
  by (auto simp: mut_disown_def Let_def bind_eq_Some_conv dest!: mut_unlink_plain task_plain split: if_splits)

lemma mut_delete_plain: "rt_mut_delete m s = Some (r, s') \<Longrightarrow> plain s' = plain (set_cb_type m 0 s)"
  by (auto simp: rt_mut_delete_def bind_eq_Some_conv intro!: plain_set_cb
      dest!: mut_disown_plain flush_waiters_books [THEN books_plain] preempt_ready_books [THEN books_plain])

text \<open>A block that is taken leaves the list of free blocks.\<close>

lemma alloc_box_fields:
  "alloc_box b s = (m, s') \<Longrightarrow> s' = s\<lparr>box_free := box_free s'\<rparr> \<and> (\<forall>p. suffix (box_free s' p) (box_free s p))"
  by (auto simp: alloc_box_def suffix_Cons split: list.splits)

lemma init_context_books:
  assumes "rt_init_context p pr body s = s'"
  shows "cb_type s' = (cb_type s)(p := TCB)" "task_id s' = task_id s" "os_active_TCB s' = os_active_TCB s"
    "p_mlnk s' = (p_mlnk s)(p := NULL)" "level s' = level s" "owner s' = owner s"
    "psq_first s' = psq_first s" "psq_last s' = psq_last s" "psq_count s' = psq_count s"
    "psq_size s' = psq_size s" "psq_id s' = psq_id s" "psq_arg s' = psq_arg s" "box_mem s' = box_mem s"
    "mp_tcb s' = mp_tcb s" "tmr_next s' = tmr_next s" "tmr_state s' = tmr_state s" "tmr_type s' = tmr_type s"
    "tmr_tcnt s' = tmr_tcnt s" "tmr_icnt s' = tmr_icnt s" "os_timer_head s' = os_timer_head s"
    "suffix (box_free s' b) (box_free s b)" "mp_stk s' = mp_stk s"
  unfolding assms [symmetric] by (simp_all add: rt_init_context_def rt_init_stack_def alloc_box_def Let_def suffix_ConsI
      split: list.split)

text \<open>What creating a task leaves alone, and what it changes outside of the scheduler.\<close>

lemma tsk_create_fields:
  assumes c: "rt_tsk_create task ps stk arg s = Some (i, s')"
    and b: "box_free s (mp_tcb s) = b # bs" "b \<noteq> 0" "NULL \<in> set (os_active_TCB s)"
  shows "cb_type s' = (cb_type s)(CB b := TCB)" "task_id s' = (task_id s)(CB b := word_of_nat (rt_get_TID s))"
    "os_active_TCB s' = (os_active_TCB s)[rt_get_TID s - 1 := CB b]" "p_mlnk s' = (p_mlnk s)(CB b := NULL)"
    "level s' = level s" "owner s' = owner s" "psq_first s' = psq_first s" "psq_last s' = psq_last s"
    "psq_count s' = psq_count s" "psq_size s' = psq_size s" "psq_id s' = psq_id s" "psq_arg s' = psq_arg s"
    "box_mem s' = box_mem s" "mp_tcb s' = mp_tcb s" "tmr_next s' = tmr_next s" "tmr_state s' = tmr_state s"
    "tmr_type s' = tmr_type s" "tmr_tcnt s' = tmr_tcnt s" "tmr_icnt s' = tmr_icnt s"
    "os_timer_head s' = os_timer_head s" "suffix (box_free s' (mp_tcb s)) bs" "mp_stk s' = mp_stk s"
proof -
  let ?ps = "if ps AND 0xFF = 0 then ps + 1 else ps" and ?i = "rt_get_TID s"
  have al: "alloc_box (mp_tcb s) s = (b, s\<lparr>box_free := (box_free s)(mp_tcb s := bs)\<rparr>)" (is "_ = (b, ?s1)")
    using b by (simp add: alloc_box_def)
  have i: "rt_get_TID s \<noteq> 0" using b(3) first_free_0 [of 1] by (simp add: rt_get_TID_def)
  define s2 where "s2 = set_argv (CB b) arg (set_msg (CB b) arg (set_task_id (CB b) (word_of_nat ?i)
    (set_priv_stack (CB b) (drop_bit 8 ?ps) (set_stack (CB b) stk ?s1))))"
  define s3 where "s3 = rt_init_context (CB b) (ucast (?ps AND 0xFF)) task s2"
  have id: "rt_get_TID (set_priv_stack (CB b) (drop_bit 8 ?ps) (set_stack (CB b) stk ?s1)) = ?i"
    by (simp add: rt_get_TID_def)
  have "rt_dispatch (CB b) (s3\<lparr>os_active_TCB := (os_active_TCB s3)[?i - 1 := CB b]\<rparr>) = Some s'"
    using c b(2) i al id
    by (auto simp: rt_tsk_create_def ptr_of_def s3_def s2_def Let_def bind_eq_Some_conv)
  note d = books_fields [OF dispatch_books [OF this]]
  note f = init_context_books [OF s3_def [symmetric]]
  show "suffix (box_free s' (mp_tcb s)) bs"
    using d(13) f(21) [of "mp_tcb s"] by (simp add: s2_def)
  show "cb_type s' = (cb_type s)(CB b := TCB)" "task_id s' = (task_id s)(CB b := word_of_nat (rt_get_TID s))"
    "os_active_TCB s' = (os_active_TCB s)[rt_get_TID s - 1 := CB b]" "p_mlnk s' = (p_mlnk s)(CB b := NULL)"
    "level s' = level s" "owner s' = owner s" "psq_first s' = psq_first s" "psq_last s' = psq_last s"
    "psq_count s' = psq_count s" "psq_size s' = psq_size s" "psq_id s' = psq_id s" "psq_arg s' = psq_arg s"
    "box_mem s' = box_mem s" "mp_tcb s' = mp_tcb s" "tmr_next s' = tmr_next s" "tmr_state s' = tmr_state s"
    "tmr_type s' = tmr_type s" "tmr_tcnt s' = tmr_tcnt s" "tmr_icnt s' = tmr_icnt s"
    "os_timer_head s' = os_timer_head s" "mp_stk s' = mp_stk s"
    using d f by (simp_all add: s2_def)
qed

section \<open>Requests\<close>

text \<open>Handling requests may take blocks of pools and changes the queue, and nothing else.\<close>

definition pools_shrink :: "kernel \<Rightarrow> kernel \<Rightarrow> bool" where
  "pools_shrink s s' \<longleftrightarrow>
     books s' = books s\<lparr>box_free := box_free s', psq_count := psq_count s', psq_last := psq_last s'\<rparr> \<and>
     (\<forall>p. suffix (box_free s' p) (box_free s p))"

lemma pools_shrink_trans: "pools_shrink s s1 \<Longrightarrow> pools_shrink s1 s2 \<Longrightarrow> pools_shrink s s2"
  unfolding pools_shrink_def by (auto intro: suffix_order.trans)

lemma books_shrink: "books s' = books s \<Longrightarrow> pools_shrink s s'"
proof -
  assume b: "books s' = books s"
  have "books s\<lparr>box_free := box_free s, psq_count := psq_count s, psq_last := psq_last s\<rparr> = books s"
    by (simp add: books_def)
  then show ?thesis using b books_fields [OF b] by (simp add: pools_shrink_def)
qed

lemma psq_shrink: "pools_shrink s (s\<lparr>psq_count := c\<rparr>)" "pools_shrink s (s\<lparr>psq_last := l\<rparr>)"
  by (simp_all add: pools_shrink_def books_def)

lemma alloc_shrink: "alloc_box b s = (m, s') \<Longrightarrow> pools_shrink s s'"
proof -
  assume "alloc_box b s = (m, s')"
  from alloc_box_fields [OF this] obtain f where s': "s' = s\<lparr>box_free := f\<rparr>" "\<forall>p. suffix (f p) (box_free s p)"
    by (metis kernel.select_convs(53))
  then show ?thesis by (simp add: pools_shrink_def books_def)
qed

lemma psh_ready_books: "mbx_psh_ready t s = Some s' \<Longrightarrow> books s' = books s"
  by (auto simp: mbx_psh_ready_def Let_def dest!: task_books)

lemma mbx_psh_shrink:
  assumes "rt_mbx_psh m v s = Some s'"
  shows "pools_shrink s s'"
proof -
  obtain mem s1 where al: "alloc_box v s = (mem, s1)" by fastforce
  show ?thesis
  proof (cases "p_lnk s m \<noteq> NULL \<and> mcb_state s m = 3")
    case True
    then have "books s' = books s1"
      using assms al by (auto simp: rt_mbx_psh_def bind_eq_Some_conv dest!: psh_ready_books task_books split: if_splits)
    then show ?thesis by (rule pools_shrink_trans [OF alloc_shrink [OF al] books_shrink])
  next
    case False
    then have "books s' = books s"
      using assms by (auto simp: rt_mbx_psh_def Let_def bind_eq_Some_conv dest!: psh_ready_books task_books split: if_splits)
    then show ?thesis by (rule books_shrink)
  qed
qed

lemma sem_psh_books: "rt_sem_psh h s = Some s' \<Longrightarrow> books s' = books s"
  by (auto simp: rt_sem_psh_def Let_def bind_eq_Some_conv dest!: task_books split: if_splits)

lemma evt_psh_books: "rt_evt_psh t f s = Some s' \<Longrightarrow> books s' = books s"
  by (auto simp: rt_evt_psh_def Let_def dest!: task_books evt_signal_books split: if_splits prod.splits)

lemma handle_shrink: "handle x s = Some s' \<Longrightarrow> pools_shrink s s'"
  by (auto simp: handle_def intro: books_shrink dest: evt_psh_books sem_psh_books mbx_psh_shrink split: if_splits)


lemma pop_loop_shrink: "pop_loop i s = Some r \<Longrightarrow> pools_shrink s (snd r)"
proof (induction rule: pop_loop.raw_induct [rotated 1, consumes 1, case_names loop])
  case (loop f i s r)
  show ?case
  proof (cases "psq_count s = 0")
    case False
    then obtain s1 where s1: "pop_one i s = Some s1"
      "f (if i + 1 = ucast (psq_size s1) then 0 else i + 1) (s1\<lparr>psq_count := psq_count s1 - 1\<rparr>) = Some r"
      using loop(2) by (auto simp: bind_eq_Some_conv Let_def)
    have "pools_shrink s s1" using s1(1) handle_shrink by (simp add: pop_one_handle)
    then show ?thesis using loop(1) [OF s1(2)] psq_shrink(1) pools_shrink_trans by blast
  qed (use loop in \<open>auto simp: books_shrink\<close>)
qed

lemma pop_req_shrink: "rt_pop_req s = Some s' \<Longrightarrow> pools_shrink s s'"
proof -
  assume "rt_pop_req s = Some s'"
  then obtain i s1 t s2 where p: "pop_loop (ucast (psq_last s)) (rt_put_rdy_first (run s) (set_state (run s) READY s)) = Some (i, s1)"
    "rt_get_first OS_RDY (s1\<lparr>psq_last := ucast i\<rparr>) = Some (t, s2)" "s' = rt_switch_req t s2"
    by (auto simp: rt_pop_req_def Let_def bind_eq_Some_conv rt_put_rdy_first_def)
  have "pools_shrink s (rt_put_rdy_first (run s) (set_state (run s) READY s))" by (rule books_shrink) simp
  then have "pools_shrink s s1" using pop_loop_shrink [OF p(1)] by (simp add: pools_shrink_trans)
  then have "pools_shrink s (s1\<lparr>psq_last := ucast i\<rparr>)" by (rule pools_shrink_trans [OF _ psq_shrink(2)])
  moreover have "books s' = books (s1\<lparr>psq_last := ucast i\<rparr>)" using get_first_books [OF p(2)] p(3) by simp
  ultimately show ?thesis by (rule pools_shrink_trans [OF _ books_shrink])
qed

end
