(* ===== verification/Kernel_Inv.thy ===== *)
theory Kernel_Inv
  imports Kernel_Frame
begin

text \<open>
  The invariant of the whole kernel: that of the scheduler (\<open>kinv\<close>), of the mutexes, of the timers,
  of the queue of requests, and of the table and the pool of the control blocks of the tasks.
\<close>

section \<open>Its parts\<close>

definition psq_inv :: "kernel \<Rightarrow> bool" where
  "psq_inv s \<longleftrightarrow> psq_wf s \<and> (\<forall>x\<in>set (psq_items s). request_ok s x)"

text \<open>A task has the number of its place in the table.\<close>

definition ids_ok :: "kernel \<Rightarrow> bool" where
  "ids_ok s \<longleftrightarrow> length (os_active_TCB s) < 255 \<and>
     (\<forall>i<length (os_active_TCB s). os_active_TCB s ! i \<noteq> NULL \<longrightarrow> unat (task_id s (os_active_TCB s ! i)) = Suc i)"

text \<open>The free control blocks are not in use, and there is a number for each of them.\<close>

definition tcbs_ok :: "kernel \<Rightarrow> bool" where
  "tcbs_ok s \<longleftrightarrow> (let bs = box_free s (mp_tcb s) in
     0 \<notin> set (box_mem s (mp_tcb s)) \<and> mp_stk s \<noteq> mp_tcb s \<and> distinct bs \<and> set bs \<subseteq> set (box_mem s (mp_tcb s)) \<and>
     (\<forall>b\<in>set bs. b \<noteq> 0 \<and> free_addr s (CB b) \<and> \<not> is_sem_mbx s (CB b)) \<and>
     length bs \<le> length (filter (\<lambda>t. t = NULL) (os_active_TCB s)))"

definition tables_ok :: "kernel \<Rightarrow> bool" where
  "tables_ok s \<longleftrightarrow> psq_inv s \<and> ids_ok s \<and> tcbs_ok s"

definition sysinv :: "kernel \<Rightarrow> bool" where
  "sysinv s \<longleftrightarrow> (\<exists>q ds own ts. kinv s q ds \<and> mutexes s q own \<and> timers_ok s ts \<and> tables_ok s)"

lemma sysinvI: "kinv s q ds \<Longrightarrow> mutexes s q own \<Longrightarrow> timers_ok s ts \<Longrightarrow> tables_ok s \<Longrightarrow> sysinv s"
  unfolding sysinv_def by blast

lemma sysinvE:
  assumes "sysinv s"
  obtains q ds own ts where "kinv s q ds" "mutexes s q own" "timers_ok s ts" "tables_ok s"
  using assms unfolding sysinv_def by blast

section \<open>What they depend on\<close>

lemma psq_inv_cong:
  assumes "psq_first s' = psq_first s" "psq_last s' = psq_last s" "psq_count s' = psq_count s"
    "psq_size s' = psq_size s" "psq_id s' = psq_id s" "psq_arg s' = psq_arg s"
    "\<And>x. x \<in> set (psq_items s) \<Longrightarrow> request_ok s x \<Longrightarrow> request_ok s' x"
  shows "psq_inv s \<Longrightarrow> psq_inv s'"
  using assms unfolding psq_inv_def psq_wf_def psq_items_def psq_from_def by auto

lemma ids_ok_cong: "task_id s' = task_id s \<Longrightarrow> os_active_TCB s' = os_active_TCB s \<Longrightarrow> ids_ok s' = ids_ok s"
  by (simp add: ids_ok_def)

lemma tcbs_ok_cong:
  assumes "suffix (box_free s' (mp_tcb s)) (box_free s (mp_tcb s))" "mp_tcb s' = mp_tcb s" "box_mem s' = box_mem s"
    "os_active_TCB s' = os_active_TCB s"
    "\<And>b. b \<in> set (box_free s (mp_tcb s)) \<Longrightarrow> \<not> is_sem_mbx s (CB b) \<Longrightarrow> \<not> is_sem_mbx s' (CB b)"
    "mp_stk s' = mp_stk s"
  shows "tcbs_ok s \<Longrightarrow> tcbs_ok s'"
proof -
  obtain u where u: "box_free s (mp_tcb s) = u @ box_free s' (mp_tcb s)" using assms(1) by (auto simp: suffix_def)
  show "tcbs_ok s \<Longrightarrow> tcbs_ok s'"
    using assms(2-6) u unfolding tcbs_ok_def Let_def free_addr_def by auto
qed

lemma timers_ok_cong:
  assumes "tmr_next s' = tmr_next s" "tmr_tcnt s' = tmr_tcnt s" "os_timer_head s' = os_timer_head s"
    "tmr_type s' = tmr_type s" "tmr_icnt s' = tmr_icnt s" "tmr_state s' = tmr_state s"
  shows "timers_ok s' ts = timers_ok s ts"
  using assms timers_cong [of s' s ts] by (simp add: timers_ok_def)

text \<open>A change of the books of mutexes only.\<close>

lemma plain_fields:
  assumes "plain s' = plain s"
  shows "cb_type s' = cb_type s" "task_id s' = task_id s" "os_active_TCB s' = os_active_TCB s"
    "psq_first s' = psq_first s"
    "psq_last s' = psq_last s" "psq_count s' = psq_count s" "psq_size s' = psq_size s" "psq_id s' = psq_id s"
    "psq_arg s' = psq_arg s" "box_free s' = box_free s" "box_mem s' = box_mem s" "mp_tcb s' = mp_tcb s"
    "tmr_next s' = tmr_next s" "tmr_state s' = tmr_state s" "tmr_type s' = tmr_type s" "tmr_tcnt s' = tmr_tcnt s"
    "tmr_icnt s' = tmr_icnt s" "os_timer_head s' = os_timer_head s" "mp_stk s' = mp_stk s"
  using books_fields [OF assms [unfolded plain_def]] by simp_all

lemma plain_same:
  assumes "plain s' = plain s"
  shows "timers_ok s' ts = timers_ok s ts" "tables_ok s' = tables_ok s" "is_task s' = is_task s"
    "request_ok s' = request_ok s"
proof -
  note f = plain_fields [OF assms]
  show r: "is_task s' = is_task s" by (simp add: is_task_def fun_eq_iff f)
  show rq: "request_ok s' = request_ok s" by (simp add: request_ok_def fun_eq_iff f r)
  show "timers_ok s' ts = timers_ok s ts" by (rule timers_ok_cong) (simp_all add: f)
  have i: "psq_items s' = psq_items s" by (simp add: psq_items_def psq_from_def f)
  show "tables_ok s' = tables_ok s"
    by (simp add: tables_ok_def psq_inv_def psq_wf_def i rq ids_ok_def tcbs_ok_def free_addr_def is_sem_mbx_def f)
qed

text \<open>The lists of the mutexes stay as they are when no mutex that nobody waits for gets a waiter.\<close>

definition unwaited :: "kernel \<Rightarrow> (ptr \<Rightarrow> ptr list) \<Rightarrow> (ptr \<Rightarrow> ptr list) \<Rightarrow> bool" where
  "unwaited s q q' \<longleftrightarrow> (\<forall>m. cb_type s m = MUCB \<longrightarrow> q m = [] \<longrightarrow> q' m = [])"

lemma unwaitedI:
  assumes "kinv s q ds" "\<And>m. m \<noteq> OS_RDY \<Longrightarrow> cb_type s m = MUCB \<Longrightarrow> q m = [] \<Longrightarrow> q' m = []"
  shows "unwaited s q q'"
  using assms MUCB_not_RDY [OF assms(1)] unfolding unwaited_def by blast

lemma unwaited_refl [simp]: "unwaited s q q"
  by (simp add: unwaited_def)

lemma mutexes_books:
  assumes "mutexes s q own" "books s' = books s" "unwaited s q q'"
  shows "mutexes s' q' own"
proof (rule mutexes_cong [OF assms(1)])
  note f = books_fields [OF assms(2)]
  show "is_task s' = is_task s" by (rule plain_same(3) [OF books_plain [OF assms(2)]])
  show "cb_type s' = cb_type s" "p_mlnk s' = p_mlnk s" "level s' = level s" "owner s' = owner s" by (rule f)+
qed (use assms(3) in \<open>simp add: unwaited_def\<close>)

section \<open>Keeping the invariant\<close>

text \<open>A service returns in a state that, after the switch, keeps the invariant of the scheduler, and
  no mutex gets its first waiter.\<close>

definition goes :: "kernel \<Rightarrow> (ptr \<Rightarrow> ptr list) \<Rightarrow> kernel option \<Rightarrow> bool" where
  "goes s q r \<longleftrightarrow> (\<exists>s' q' ds'. r = Some s' \<and> kinv (switch_context s') q' ds' \<and> unwaited s q q')"

lemma goesI: "r = Some s' \<Longrightarrow> kinv (switch_context s') q' ds' \<Longrightarrow> unwaited s q q' \<Longrightarrow> goes s q r"
  unfolding goes_def by blast

lemma goes_stay: "kinv s q ds \<Longrightarrow> goes s q (Some s)"
  by (rule goesI [OF refl kinv_switch_same], assumption, simp)

lemma goes_same: "kinv s' q ds \<Longrightarrow> goes s q (Some s')"
  by (rule goesI [OF refl kinv_switch_same], assumption, simp)

definition upholds :: "kernel option \<Rightarrow> bool" where
  "upholds r \<longleftrightarrow> (\<exists>s'. r = Some s' \<and> sysinv (switch_context s'))"

lemma upholdsI: "r = Some s' \<Longrightarrow> sysinv (switch_context s') \<Longrightarrow> upholds r"
  unfolding upholds_def by blast

lemma sysinv_switch_parts [simp]:
  "timers_ok (switch_context s) ts = timers_ok s ts" "tables_ok (switch_context s) = tables_ok s"
  by (rule plain_same; simp)+

lemma sysinv_switch_same: "sysinv s \<Longrightarrow> upholds (Some s)"
proof (elim sysinvE)
  fix q ds own ts assume "kinv s q ds" "mutexes s q own" "timers_ok s ts" "tables_ok s"
  then show ?thesis by (intro upholdsI [OF refl] sysinvI [OF kinv_switch_same]) simp_all
qed

text \<open>A service that leaves the books as they are.\<close>

lemma books_step:
  assumes "kinv s q ds" "mutexes s q own" "timers_ok s ts" "tables_ok s" "goes s q r"
    "\<And>s'. r = Some s' \<Longrightarrow> books s' = books s"
  shows "upholds r"
proof -
  obtain s' q' ds' where r: "r = Some s'" "kinv (switch_context s') q' ds'" "unwaited s q q'"
    using assms(5) unfolding goes_def by blast
  have b: "books s' = books s" by (rule assms(6) [OF r(1)])
  note p = plain_same [OF books_plain [OF b]]
  show ?thesis
    by (rule upholdsI [OF r(1) sysinvI [OF r(2)]])
      (use assms(3,4) mutexes_books [OF assms(2) b r(3)] p in simp_all)
qed


section \<open>Objects\<close>

text \<open>An object that is created or deleted, when no request names it.\<close>

lemma set_cb_rest:
  assumes T: "tables_ok s" and p: "plain s' = plain (set_cb_type h c s)" and h: "free_addr s h"
    and r: "\<forall>x\<in>set (psq_items s). fst x \<noteq> h" and c: "c = 0 \<or> h \<notin> CB ` set (box_mem s (mp_tcb s))"
  shows "tables_ok s'" "timers_ok s' ts = timers_ok s ts" "is_task s' = is_task s"
proof -
  let ?s1 = "set_cb_type h c s"
  have tk: "is_task ?s1 = is_task s" using h by (auto simp: is_task_def free_addr_def fun_eq_iff)
  have "psq_inv ?s1"
    by (rule psq_inv_cong [of _ s]) (use T r in \<open>auto simp: tables_ok_def request_ok_def tk\<close>)
  moreover have "ids_ok ?s1" using T ids_ok_cong [of ?s1 s] by (simp add: tables_ok_def)
  moreover have "tcbs_ok ?s1"
  proof (rule tcbs_ok_cong [of _ s])
    fix b assume b: "b \<in> set (box_free s (mp_tcb s))" "\<not> is_sem_mbx s (CB b)"
    have "b \<in> set (box_mem s (mp_tcb s))" using b T by (auto simp: tables_ok_def tcbs_ok_def Let_def)
    then show "\<not> is_sem_mbx ?s1 (CB b)" using b c by (auto simp: is_sem_mbx_def cb_types)
  qed (use T in \<open>simp_all add: tables_ok_def\<close>)
  ultimately show "tables_ok s'" using plain_same(2) [OF p] by (simp add: tables_ok_def)
  show "timers_ok s' ts = timers_ok s ts"
    using plain_same(1) [OF p] timers_ok_cong [of ?s1 s] by simp
  show "is_task s' = is_task s" using plain_same(3) [OF p] tk by simp
qed

lemma not_requested: "tables_ok s \<Longrightarrow> cb_type s h = 0 \<Longrightarrow> free_addr s h \<Longrightarrow> \<forall>x\<in>set (psq_items s). fst x \<noteq> h"
  by (auto simp: tables_ok_def psq_inv_def request_ok_def is_task_def free_addr_def cb_types)

lemma create_object:
  assumes "kinv s q ds" "mutexes s q own" "timers_ok s ts" "tables_ok s"
    and h: "free_addr s h" "cb_type s h = 0" "h \<notin> CB ` set (box_mem s (mp_tcb s))"
    and p: "plain s' = plain (set_cb_type h c s)" and c: "is_sem_mbx s' h"
    and f: "cb_type s' = (cb_type s)(h := c)" "p_lnk s' = (p_lnk s)(h := NULL)" "p_rlnk s' = p_rlnk s"
      "p_dlnk s' = p_dlnk s" "p_blnk s' = p_blnk s" "delta_time s' = delta_time s" "prio s' = prio s"
      "state s' = state s" "run s' = run s" "new_tsk s' = new_tsk s" "os_active_TCB s' = os_active_TCB s"
    and m: "level s' = (level s)(h := l)" "owner s' = (owner s)(h := w)" "p_mlnk s' = (p_mlnk s)(h := n)"
      "c = MUCB \<Longrightarrow> l = 0"
  shows "upholds (Some s')"
proof -
  have "\<not> is_head s h" using h by (auto simp: is_head_def is_sem_mbx_def cb_types free_addr_def)
  then have qh: "q h = []" using schedD(1) [OF kinvD(1) [OF assms(1)]] unfolding queues_def by blast
  have K: "kinv s' q ds" by (rule kinv_set_cb [OF assms(1) h(1) qh f(1,2)]) (use f in simp_all)
  note r = set_cb_rest [OF assms(4) p h(1) not_requested [OF assms(4) h(2,1)]] and M = mutexesD [OF assms(2)]
  have t: "is_task s t \<Longrightarrow> t \<noteq> h \<and> h \<notin> set (own t)" for t
    using h M(3) [of t h] by (auto simp: is_task_def free_addr_def cb_types)
  have own: "{x. cb_type s' x = MUCB \<and> level s' x \<noteq> 0 \<and> owner s' x = t} =
      {x. cb_type s x = MUCB \<and> level s x \<noteq> 0 \<and> owner s x = t}" for t
    using f(1) m h(2) by (auto simp: cb_types)
  have "mutexes s' q own"
    unfolding mutexes_def r(3) [OF disjI2 [OF h(3)]] own
    using assms(2) t f(1) m qh h(2) by (auto simp: mutexes_def cb_types split: if_splits)
  then have "sysinv s'"
    by (rule sysinvI [OF K]) (use assms(3) r(1,2) h(3) in simp_all)
  then show ?thesis by (rule sysinv_switch_same)
qed

lemma delete_object:
  assumes "timers_ok s ts" "tables_ok s" "free_addr s h" "\<forall>x\<in>set (psq_items s). fst x \<noteq> h"
    "plain s' = plain (set_cb_type h 0 s)" "kinv (switch_context s') q' ds'" "mutexes s' q' own'"
  shows "upholds (Some s')"
proof -
  note r = set_cb_rest [OF assms(2,5,3,4) disjI1 [OF refl]]
  show ?thesis by (rule upholdsI [OF refl sysinvI [OF assms(6)]]) (use assms(1,7) r in simp_all)
qed


section \<open>Tasks\<close>

lemma filter_update:
  "i < length xs \<Longrightarrow> P (xs ! i) \<Longrightarrow> \<not> P y \<Longrightarrow> Suc (length (filter P (xs[i := y]))) = length (filter P xs)"
  by (induction xs arbitrary: i) (auto split: nat.split)

text \<open>A created task is entered under the first free number.\<close>

lemma tsk_create_upholds:
  assumes K: "kinv s q ds" and M: "mutexes s q own" and T: "timers_ok s ts" "tables_ok s"
  shows "upholds (map_option snd (rt_tsk_create task ps stk arg s))"
proof (cases "box_free s (mp_tcb s)")
  case Nil
  then have "rt_tsk_create task ps stk arg s = Some (0, s)" by (simp add: rt_tsk_create_def alloc_box_def ptr_of_def Let_def)
  then show ?thesis using sysinv_switch_same [OF sysinvI [OF K M T]] by simp
next
  case (Cons b bs)
  define a where "a = os_active_TCB s"
  have P: "distinct (b # bs)" "set (b # bs) \<subseteq> set (box_mem s (mp_tcb s))"
    "\<forall>b\<in>set (b # bs). b \<noteq> 0 \<and> free_addr s (CB b) \<and> \<not> is_sem_mbx s (CB b)"
    "length (b # bs) \<le> length (filter (\<lambda>t. t = NULL) a)" "0 \<notin> set (box_mem s (mp_tcb s))" "mp_stk s \<noteq> mp_tcb s"
    using T(2) Cons by (auto simp: tables_ok_def tcbs_ok_def Let_def a_def)
  have b: "b \<noteq> 0" "free_addr s (CB b)" "\<not> is_sem_mbx s (CB b)" using P(3) by simp_all
  have "filter (\<lambda>t. t = NULL) a \<noteq> []" using P(4) by auto
  then have nn: "NULL \<in> set (os_active_TCB s)" by (auto simp: filter_empty_conv a_def)
  obtain i where i: "rt_get_TID s = Suc i" "i < length a" "a ! i = NULL"
    using first_free_nth [of 1 a] nn by (auto simp: rt_get_TID_def a_def)
  obtain w s' s0 where c: "rt_tsk_create task ps stk arg s = Some (w, s')"
    "kinv (switch_context s') (dispatched s0 (CB b) q) ds"
    by (rule rt_tsk_create_ok [OF K Cons b nn]) blast
  note f = tsk_create_fields [OF c(1) Cons b(1) nn]
  have act: "os_active_TCB s' = a[i := CB b]" using f(3) i by (simp add: a_def)
  have tk: "is_task s' t \<longleftrightarrow> t = CB b \<or> is_task s t" for t
    by (rule is_task_new [OF b(2) i(2,3) [unfolded a_def] f(1)]) (use act in \<open>simp add: a_def\<close>)
  have nt: "\<not> is_task s (CB b)" using b(2) by (auto simp: is_task_def free_addr_def)
  have nm: "CB b \<noteq> m" if "cb_type s m \<in> {SCB, MCB, MUCB}" for m using that b(3) by (auto simp: is_sem_mbx_def)
  have len: "length a < 255" using T(2) by (simp add: tables_ok_def ids_ok_def a_def)
  have "psq_inv s'"
    by (rule psq_inv_cong [of _ s]) (use T(2) f tk nm in \<open>auto simp: tables_ok_def request_ok_def\<close>)
  moreover have "ids_ok s'"
    unfolding ids_ok_def act
  proof (intro conjI allI impI)
    show "length (a[i := CB b]) < 255" using len by simp
    fix j assume j: "j < length (a[i := CB b])" "a[i := CB b] ! j \<noteq> NULL"
    show "unat (task_id s' (a[i := CB b] ! j)) = Suc j"
    proof (cases "j = i")
      case True
      then show ?thesis using f(2) i j len by (simp add: unsigned_of_nat take_bit_eq_mod del: of_nat_Suc)
    next
      case False
      then have "a ! j \<in> set a" "a ! j \<noteq> NULL" using j by auto
      moreover have "a ! j \<noteq> CB b" using \<open>a ! j \<in> set a\<close> b(2) by (auto simp: free_addr_def a_def)
      ultimately show ?thesis using T(2) f(2) j False by (auto simp: tables_ok_def ids_ok_def a_def)
    qed
  qed
  moreover have "tcbs_ok s'"
  proof -
    obtain u where u: "bs = u @ box_free s' (mp_tcb s)" using f(21) by (auto simp: suffix_def)
    have "\<forall>b'\<in>set bs. b' \<noteq> 0 \<and> free_addr s' (CB b') \<and> \<not> is_sem_mbx s' (CB b')"
    proof
      fix b' assume b': "b' \<in> set bs"
      then have "b' \<noteq> b" "free_addr s (CB b')" "\<not> is_sem_mbx s (CB b')" using P(1,3) by auto
      moreover have "CB b' \<notin> set (a[i := CB b])"
        using \<open>b' \<noteq> b\<close> \<open>free_addr s (CB b')\<close> set_update_subset_insert [of a i "CB b"] by (auto simp: free_addr_def a_def)
      ultimately show "b' \<noteq> 0 \<and> free_addr s' (CB b') \<and> \<not> is_sem_mbx s' (CB b')"
        using P(3) b' act f(1) by (auto simp: free_addr_def is_sem_mbx_def)
    qed
    moreover have "Suc (length (filter (\<lambda>t. t = NULL) (a[i := CB b]))) = length (filter (\<lambda>t. t = NULL) a)"
      by (rule filter_update) (use i in simp_all)
    ultimately show ?thesis using P u f act by (auto simp: tcbs_ok_def Let_def)
  qed
  moreover have "timers_ok s' ts" using T(1) f timers_ok_cong [of s' s ts] by simp
  moreover have "mutexes s' (dispatched s0 (CB b) q) (own(CB b := []))"
  proof -
    note D = mutexesD [OF M]
    have nb: "CB b \<notin> set (own t)" if "is_task s t" for t using D(3) [OF that] nm by blast
    have nd: "cb_type s m = MUCB \<Longrightarrow> dispatched s0 (CB b) q m = q m" for m
      using MUCB_not_RDY [OF K] by (auto simp: dispatched_def)
    have set: "{m. cb_type s' m = MUCB \<and> level s' m \<noteq> 0 \<and> owner s' m = t} =
        {m. cb_type s m = MUCB \<and> level s m \<noteq> 0 \<and> owner s m = t}" for t
      using f nm by (auto simp: cb_types)
    have ow: "{m. cb_type s m = MUCB \<and> level s m \<noteq> 0 \<and> owner s m = CB b} = {}"
      by (auto dest: D(4) simp: nt)
    have mu: "cb_type s' m = MUCB \<longleftrightarrow> cb_type s m = MUCB" for m using f(1) nm [of m] by (auto simp: cb_types)
    show ?thesis
      unfolding mutexes_def tk set
    proof (intro conjI allI impI)
      fix t assume t: "t = CB b \<or> is_task s t"
      show "chain (p_mlnk s') (p_mlnk s' t) ((own(CB b := [])) t) NULL"
        using t D(1) [of t] nb [of t] f(4) by auto
      show "distinct ((own(CB b := [])) t)" using t D(2) [of t] by auto
      show "set ((own(CB b := [])) t) = {m. cb_type s m = MUCB \<and> level s m \<noteq> 0 \<and> owner s m = t}"
        using t D(3) [of t] ow by auto
    next
      fix m assume "cb_type s' m = MUCB" "level s' m \<noteq> 0"
      then show "owner s' m = CB b \<or> is_task s (owner s' m)" using D(4) [of m] mu f(5,6) by simp
    next
      fix m assume "cb_type s' m = MUCB" "level s' m = 0"
      then show "dispatched s0 (CB b) q m = []" using D(5) [of m] nd [of m] mu f(5) by simp
    qed
  qed
  moreover have "tables_ok s'" using calculation(1-3) by (simp add: tables_ok_def)
  ultimately have "sysinv (switch_context s')" by (intro sysinvI [OF c(2)]) simp_all
  then show ?thesis using c(1) by (simp add: upholds_def)
qed


section \<open>Requests\<close>

text \<open>A request that an interrupt handler enters into the queue.\<close>

lemma psq_enq_fields:
  assumes "rt_psq_enq p a s = s'"
  shows "cb_type s' = cb_type s" "os_active_TCB s' = os_active_TCB s" "task_id s' = task_id s"
    "box_free s' = box_free s" "box_mem s' = box_mem s" "mp_tcb s' = mp_tcb s" "level s' = level s"
    "owner s' = owner s" "p_mlnk s' = p_mlnk s" "mp_stk s' = mp_stk s"
  unfolding assms [symmetric] by (simp_all add: rt_psq_enq_def rt_inc_qi_def os_error_def Let_def)

lemma psq_enq_tables:
  assumes T: "tables_ok s" and r: "request_ok s (p, a)"
  shows "tables_ok (rt_psq_enq p a s)"
proof -
  let ?s' = "rt_psq_enq p a s"
  note f = psq_enq_fields [of p a s, OF refl]
  have rq: "request_ok ?s' = request_ok s" by (simp add: request_ok_def is_task_def fun_eq_iff f)
  have "psq_inv ?s'"
  proof (cases "psq_count s < psq_size s")
    case True
    then show ?thesis using T r psq_enq_ok [of s p a] by (auto simp: tables_ok_def psq_inv_def rq)
  next
    case False
    then have "?s' = os_error OS_ERR_FIFO_OVF s" using T psq_enq_full [of s p a] by (simp add: tables_ok_def psq_inv_def)
    moreover have "tables_ok (os_error OS_ERR_FIFO_OVF s)" using T plain_same(2) [of "os_error OS_ERR_FIFO_OVF s" s] by simp
    ultimately show ?thesis by (simp add: tables_ok_def)
  qed
  then show ?thesis using T by (simp add: tables_ok_def ids_ok_def tcbs_ok_def free_addr_def is_sem_mbx_def f)
qed

lemma request_upholds:
  assumes "sysinv s" "request_ok s (p, a)"
  shows "sysinv (rt_psh_req (rt_psq_enq p a s))"
proof -
  let ?s1 = "rt_psq_enq p a s"
  obtain q ds own ts where I: "kinv s q ds" "mutexes s q own" "timers_ok s ts" "tables_ok s" using assms(1) by (rule sysinvE)
  note f = psq_enq_fields [of p a s, OF refl] and p = plain_same [of "rt_psh_req ?s1" ?s1, OF books_plain]
  have "kinv (rt_psh_req ?s1) q ds" using I(1) kinv_cong [of "rt_psh_req ?s1" s q ds]
    by (simp add: rt_psh_req_def rt_psq_enq_def rt_inc_qi_def os_error_def Let_def)
  moreover have "mutexes ?s1 q own" by (rule mutexes_cong [OF I(2)]) (simp_all add: f is_task_def fun_eq_iff)
  then have "mutexes (rt_psh_req ?s1) q own" by (rule mutexes_books) simp_all
  moreover have "timers_ok ?s1 ts = timers_ok s ts"
    by (rule timers_ok_cong) (simp_all add: rt_psq_enq_def rt_inc_qi_def os_error_def Let_def)
  ultimately show ?thesis using I(3) psq_enq_tables [OF I(4) assms(2)] p by (intro sysinvI) simp_all
qed

lemma sysinv_books:
  assumes "sysinv s" "books s' = books s" "\<And>q ds. kinv s q ds \<Longrightarrow> kinv s' q ds"
  shows "sysinv s'"
proof -
  obtain q ds own ts where I: "kinv s q ds" "mutexes s q own" "timers_ok s ts" "tables_ok s" using assms(1) by (rule sysinvE)
  show ?thesis
    by (rule sysinvI [OF assms(3) [OF I(1)] mutexes_books [OF I(2) assms(2) unwaited_refl]])
      (use I plain_same [OF books_plain [OF assms(2)]] in simp_all)
qed

text \<open>The post-service handling.\<close>

lemma pop_req_upholds:
  assumes "sysinv s"
  shows "upholds (rt_pop_req s)"
proof -
  obtain q ds own ts where I: "kinv s q ds" "mutexes s q own" "timers_ok s ts" "tables_ok s" using assms by (rule sysinvE)
  have P: "psq_wf s" "\<forall>x\<in>set (psq_items s). request_ok s x" using I(4) by (simp_all add: tables_ok_def psq_inv_def)
  obtain s' q' ds' where s': "rt_pop_req s = Some s'" "kinv (switch_context s') q' ds'" "psq_wf s'" "psq_items s' = []"
    "\<And>h. h \<noteq> OS_RDY \<Longrightarrow> set (q' h) \<subseteq> set (q h)"
    by (rule rt_pop_req_ok [OF I(1) P]) blast
  have sh: "books s' = books s\<lparr>box_free := box_free s', psq_count := psq_count s', psq_last := psq_last s'\<rparr>"
    "\<forall>p. suffix (box_free s' p) (box_free s p)"
    using pop_req_shrink [OF s'(1)] by (simp_all add: pools_shrink_def)
  define s1 where "s1 = s\<lparr>box_free := box_free s', psq_count := psq_count s', psq_last := psq_last s'\<rparr>"
  have b: "books s' = books s1" using sh(1) by (simp add: books_def s1_def)
  have f: "cb_type s' = cb_type s" "task_id s' = task_id s" "os_active_TCB s' = os_active_TCB s"
    "p_mlnk s' = p_mlnk s" "level s' = level s" "owner s' = owner s" "box_mem s' = box_mem s" "mp_tcb s' = mp_tcb s"
    "tmr_next s' = tmr_next s" "tmr_state s' = tmr_state s" "tmr_type s' = tmr_type s" "tmr_tcnt s' = tmr_tcnt s"
    "tmr_icnt s' = tmr_icnt s" "os_timer_head s' = os_timer_head s" "mp_stk s' = mp_stk s"
    using books_fields(1-6,14-22) [OF b] by (simp_all add: s1_def)
  have tk: "is_task s' = is_task s" by (simp add: is_task_def fun_eq_iff f)
  have "unwaited s q q'"
  proof (rule unwaitedI [OF I(1)])
    fix m assume "m \<noteq> OS_RDY" "q m = []"
    then show "q' m = []" using s'(5) [of m] by auto
  qed
  then have "mutexes s' q' own"
    by (intro mutexes_cong [OF I(2)]) (simp_all add: tk f unwaited_def)
  moreover have "timers_ok s' ts" using I(3) timers_ok_cong [of s' s ts] by (simp add: f)
  moreover have "tables_ok s'"
  proof -
    have "psq_inv s'" using s'(3,4) by (simp add: psq_inv_def)
    moreover have "ids_ok s'" using I(4) ids_ok_cong [of s' s] by (simp add: tables_ok_def f)
    moreover have "tcbs_ok s'"
      by (rule tcbs_ok_cong [of _ s]) (use I(4) sh(2) in \<open>simp_all add: f tables_ok_def is_sem_mbx_def\<close>)
    ultimately show ?thesis by (simp add: tables_ok_def)
  qed
  ultimately show ?thesis by (intro upholdsI [OF s'(1)] sysinvI [OF s'(2)]) simp_all
qed

section \<open>The tick\<close>

text \<open>The timers that expire enter requests for the queue of the timer thread.\<close>

lemma isrMessagePut_tables: "tables_ok s \<Longrightarrow> isrMessagePut m v to s = (st, s') \<Longrightarrow> tables_ok s'"
  using psq_enq_tables [of s m v] plain_same(2) [of "rt_psh_req (rt_psq_enq m v s)" "rt_psq_enq m v s"]
  by (auto simp: isrMessagePut_def isr_mbx_send_def request_ok_def split: if_splits)

lemma tmr_tables:
  assumes "tables_ok s" "cb_type s' = cb_type s" "os_active_TCB s' = os_active_TCB s" "task_id s' = task_id s"
    "box_free s' = box_free s" "box_mem s' = box_mem s" "mp_tcb s' = mp_tcb s" "psq_first s' = psq_first s"
    "psq_last s' = psq_last s" "psq_count s' = psq_count s" "psq_size s' = psq_size s" "psq_id s' = psq_id s"
    "psq_arg s' = psq_arg s" "mp_stk s' = mp_stk s"
  shows "tables_ok s'"
proof -
  have "request_ok s' = request_ok s" by (simp add: request_ok_def is_task_def fun_eq_iff assms)
  then have "psq_inv s'" using psq_inv_cong [of s' s] assms by (simp add: tables_ok_def)
  then show ?thesis using assms by (simp add: tables_ok_def ids_ok_def tcbs_ok_def free_addr_def is_sem_mbx_def)
qed

lemma timer_insert_tables: "tables_ok s \<Longrightarrow> rt_timer_insert t k s = Some s' \<Longrightarrow> tables_ok s'"
  by (erule tmr_tables; auto simp: rt_timer_insert_def Let_def bind_eq_Some_conv split: if_splits)

lemma timer_expire_tables: "timer_expire p s = Some s' \<Longrightarrow> tables_ok s \<longrightarrow> tables_ok s'"
proof (induction rule: timer_expire.raw_induct [rotated 1, consumes 1, case_names loop])
  case (loop f p s r)
  show ?case
  proof
    assume T: "tables_ok s"
    show "tables_ok r"
    proof (cases "p \<noteq> NULL \<and> tmr_tcnt s p = 0")
      case True
      let ?s1 = "s\<lparr>os_timer_head := tmr_next s p\<rparr>"
      obtain st s2 where m: "isrMessagePut (timer_queue s) (addr_of p) 0 ?s1 = (st, s2)" by fastforce
      let ?s3 = "if st \<noteq> osOK then os_error OS_ERR_TIMER_OVF s2 else s2"
      have "tables_ok ?s1" by (rule tmr_tables [OF T]) simp_all
      then have "tables_ok s2" by (rule isrMessagePut_tables [OF _ m])
      then have T3: "tables_ok ?s3" using plain_same(2) [of "os_error OS_ERR_TIMER_OVF s2" s2] by simp
      obtain s4 where b: "(if tmr_type ?s3 p = osTimerPeriodic then rt_timer_insert p (tmr_icnt ?s3 p) ?s3
          else Some (set_tmr_state p osTimerStopped ?s3)) = Some s4" "f (tmr_next s p) s4 = Some r"
        using loop(2) True m by (auto simp: Let_def bind_eq_Some_conv simp del: if_split)
      have "tables_ok (set_tmr_state p osTimerStopped ?s3)" by (rule tmr_tables [OF T3]) simp_all
      then have "tables_ok s4" using b(1) timer_insert_tables [OF T3] by (auto split: if_splits)
      then show ?thesis using loop(1) [OF b(2)] by simp
    qed (use loop T in auto)
  qed
qed

lemma sysTimerTick_tables: "sysTimerTick s = Some s' \<Longrightarrow> tables_ok s \<Longrightarrow> tables_ok s'"
  using timer_expire_tables [of "os_timer_head s" "set_tmr_tcnt (os_timer_head s) (tmr_tcnt s (os_timer_head s) - 1) s" s']
    tmr_tables [of s "set_tmr_tcnt (os_timer_head s) (tmr_tcnt s (os_timer_head s) - 1) s"]
  by (auto simp: sysTimerTick_def Let_def split: if_splits)

lemma ticked_empty:
  assumes "m \<noteq> OS_RDY" "q m = []"
  shows "ticked s q ds m = []"
proof -
  have "fold (make_ready pr) E q' m = []" if "q' m = []" for pr E and q' :: "ptr \<Rightarrow> ptr list"
    using that assms(1) by (induction E arbitrary: q') (auto simp: make_ready_def rmv_q_def)
  then show ?thesis unfolding ticked_def using assms robin_rdy(2) by simp
qed

lemma systick_upholds:
  assumes "sysinv s"
  shows "upholds (rt_systick s)"
proof -
  obtain q ds own ts where I: "kinv s q ds" "mutexes s q own" "timers_ok s ts" "tables_ok s" using assms by (rule sysinvE)
  obtain s' ts' where s': "rt_systick s = Some s'"
    "kinv (switch_context s') ((ticked s q ds)(OS_RDY := tl (ticked s q ds OS_RDY))) (kept ds)" "timers_ok s' ts'"
    by (rule rt_systick_ok [OF I(1,3)]) blast
  from s'(1) obtain s2 s3 s4 t s5 where c: "rt_chk_robin (rt_put_rdy_first (run s) (set_state (run s) READY s)) = Some s2"
    "rt_dec_dly (s2\<lparr>os_time := os_time s2 + 1\<rparr>) = Some s3" "sysTimerTick s3 = Some s4"
    "rt_get_first OS_RDY s4 = Some (t, s5)" "s' = rt_switch_req t s5"
    by (auto simp: rt_systick_def Let_def bind_eq_Some_conv rt_put_rdy_first_def)
  have b3: "books s3 = books s" using chk_robin_books [OF c(1)] dec_dly_books [OF c(2)] by simp
  have b5: "books s' = books s4" using get_first_books [OF c(4)] c(5) by simp
  have "tables_ok s3" using I(4) plain_same(2) [OF books_plain [OF b3]] by simp
  then have T: "tables_ok s'" using sysTimerTick_tables [OF c(3)] plain_same(2) [OF books_plain [OF b5]] by simp
  note o = sysTimerTick_only [OF c(3), unfolded timers_only_def]
  have f: "cb_type s' = cb_type s" "p_mlnk s' = p_mlnk s" "level s' = level s" "owner s' = owner s"
    "os_active_TCB s' = os_active_TCB s"
    using books_fields [OF b3] books_fields [OF b5] o by auto
  let ?q' = "(ticked s q ds)(OS_RDY := tl (ticked s q ds OS_RDY))"
  have "unwaited s q ?q'" by (rule unwaitedI [OF I(1)]) (simp add: ticked_empty)
  then have "mutexes s' ?q' own"
    by (intro mutexes_cong [OF I(2)]) (simp_all add: f is_task_def fun_eq_iff unwaited_def)
  then show ?thesis using s' T by (intro upholdsI [OF s'(1)] sysinvI [OF s'(2)]) simp_all
qed


section \<open>Timers\<close>

text \<open>What the services of the timers change.\<close>

definition tmr_only :: "kernel \<Rightarrow> kernel \<Rightarrow> bool" where
  "tmr_only s s' \<longleftrightarrow> (\<exists>a b c d e f g h. s' = s\<lparr>tmr_next := a, tmr_state := b, tmr_type := c, tmr_tcnt := d,
     tmr_icnt := e, tmr_arg := f, tmr_def := g, os_timer_head := h\<rparr>)"

lemma tmr_onlyI: "s' = s\<lparr>tmr_next := tmr_next s', tmr_state := tmr_state s', tmr_type := tmr_type s',
     tmr_tcnt := tmr_tcnt s', tmr_icnt := tmr_icnt s', tmr_arg := tmr_arg s', tmr_def := tmr_def s',
     os_timer_head := os_timer_head s'\<rparr> \<Longrightarrow> tmr_only s s'"
  unfolding tmr_only_def by (intro exI)

lemma tmr_only_upholds:
  assumes "sysinv s" "tmr_only s s'" "\<And>ts. timers_ok s ts \<Longrightarrow> \<exists>ts'. timers_ok s' ts'"
  shows "upholds (Some s')"
proof -
  obtain q ds own ts where I: "kinv s q ds" "mutexes s q own" "timers_ok s ts" "tables_ok s" using assms(1) by (rule sysinvE)
  have "kinv s' q ds" using I(1) assms(2) kinv_cong [of s' s q ds] by (auto simp: tmr_only_def)
  moreover have "mutexes s' q own"
    by (rule mutexes_cong [OF I(2)]) (use assms(2) in \<open>auto simp: tmr_only_def is_task_def fun_eq_iff\<close>)
  moreover have "tables_ok s'" by (rule tmr_tables [OF I(4)]) (use assms(2) in \<open>auto simp: tmr_only_def\<close>)
  moreover obtain ts' where "timers_ok s' ts'" using assms(3) [OF I(3)] by blast
  ultimately show ?thesis by (intro sysinv_switch_same sysinvI)
qed

text \<open>The state without the timers.\<close>

definition untimed :: "kernel \<Rightarrow> kernel" where
  "untimed s = s\<lparr>tmr_next := \<lambda>_. NULL, tmr_state := \<lambda>_. 0, tmr_type := \<lambda>_. 0, tmr_tcnt := \<lambda>_. 0,
     tmr_icnt := \<lambda>_. 0, tmr_arg := \<lambda>_. 0, tmr_def := \<lambda>_. 0, os_timer_head := NULL\<rparr>"

lemma untimed_steps [simp]:
  "untimed (tmr_next_update f s) = untimed s" "untimed (tmr_state_update g s) = untimed s"
  "untimed (tmr_type_update g s) = untimed s" "untimed (tmr_tcnt_update h s) = untimed s"
  "untimed (tmr_icnt_update h s) = untimed s" "untimed (tmr_arg_update h s) = untimed s"
  "untimed (tmr_def_update h s) = untimed s" "untimed (os_timer_head_update k s) = untimed s"
  by (simp_all add: untimed_def)

lemma untimed_only:
  assumes "untimed s' = untimed s"
  shows "tmr_only s s'"
proof (rule tmr_onlyI)
  let ?f = "\<lambda>x. x\<lparr>tmr_next := tmr_next s', tmr_state := tmr_state s', tmr_type := tmr_type s',
     tmr_tcnt := tmr_tcnt s', tmr_icnt := tmr_icnt s', tmr_arg := tmr_arg s', tmr_def := tmr_def s',
     os_timer_head := os_timer_head s'\<rparr>"
  have "s' = ?f (untimed s')" by (simp add: untimed_def)
  also have "\<dots> = ?f (untimed s)" using assms by simp
  also have "\<dots> = ?f s" by (simp add: untimed_def)
  finally show "s' = ?f s" .
qed

lemma timer_insert_untimed: "rt_timer_insert t k s = Some s' \<Longrightarrow> untimed s' = untimed s"
  by (auto simp: rt_timer_insert_def Let_def bind_eq_Some_conv)

lemma timer_remove_untimed:
  assumes "rt_timer_remove t s = Some (r, s')"
  shows "untimed s' = untimed s" "tmr_state s' = tmr_state s \<and> tmr_type s' = tmr_type s \<and> tmr_icnt s' = tmr_icnt s"
proof -
  obtain prev p where f: "timer_find s t NULL (os_timer_head s) = Some (prev, p)" using assms
    by (auto simp: rt_timer_remove_def bind_eq_Some_conv)
  define s1 where "s1 = (if prev \<noteq> NULL then set_tmr_next prev (tmr_next s t) s else s\<lparr>os_timer_head := tmr_next s t\<rparr>)"
  define s2 where "s2 = (if tmr_next s1 t \<noteq> NULL
    then set_tmr_tcnt (tmr_next s1 t) (tmr_tcnt s1 (tmr_next s1 t) + tmr_tcnt s1 t) s1 else s1)"
  have "rt_timer_remove t s = (if p = NULL then Some (- 1, s) else Some (0, s2))"
    by (simp only: rt_timer_remove_def f bind.bind_lunit prod.case Let_def s1_def [symmetric] s2_def [symmetric])
  then have "s' = s \<or> s' = s2" using assms by (cases "p = NULL") simp_all
  moreover have "untimed s2 = untimed s" "tmr_state s2 = tmr_state s" "tmr_type s2 = tmr_type s" "tmr_icnt s2 = tmr_icnt s"
    by (simp_all add: s2_def s1_def)
  ultimately show "untimed s' = untimed s" "tmr_state s' = tmr_state s \<and> tmr_type s' = tmr_type s \<and> tmr_icnt s' = tmr_icnt s"
    by auto
qed

lemma timer_ticks_exact: "timer_ticks ms = ms"
proof -
  have c: "unat (ucast ms :: U64) = unat ms"
    using unat_u32 [of ms] by (simp add: unsigned_ucast_eq take_bit_nat_eq_self_iff del: unat_u32)
  have "unat ((1000 * (ucast ms :: U64) + 1000 - 1) div 1000) = unat ms"
  proof -
    have m: "unat (1000 * (ucast ms :: U64)) = 1000 * unat ms"
      using unat_u32 [of ms] by (simp add: unat_word_ariths c del: unat_u32)
    have "1000 * (ucast ms :: U64) + 1000 - 1 = 1000 * ucast ms + 999" by simp
    moreover have "unat (1000 * (ucast ms :: U64) + 999) = 1000 * unat ms + 999"
      using unat_u32 [of ms] by (simp add: unat_word_ariths(1) m del: unat_u32)
    ultimately show ?thesis by (simp only: unat_div) simp
  qed
  then have "unat (timer_ticks ms) = unat ms mod 4294967296"
    unfolding timer_ticks_def os_clockrate_def by (simp add: unsigned_ucast_eq take_bit_eq_mod)
  then show ?thesis using unat_u32 [of ms] by (simp add: word_unat_eq_iff del: unat_u32)
qed

lemma ins_tmr_fst: "fst ` set (ins_tmr t k ts) = insert t (fst ` set ts)"
  by simp

lemma timer_insert_ok:
  assumes T: "timers s ts" "\<forall>x\<in>set ts. 0 < snd x" and t: "t \<noteq> NULL" "t \<notin> fst ` set ts" "k \<noteq> 0"
    and i: "\<forall>u\<in>insert t (fst ` set ts). tmr_type s u = osTimerPeriodic \<longrightarrow> tmr_icnt s u \<noteq> 0"
    and st: "{u. tmr_state s u = osTimerRunning} = insert t (fst ` set ts)"
  obtains s' where "rt_timer_insert t k s = Some s'" "timers_ok s' (ins_tmr t (unat k) ts)"
proof -
  obtain s' where s': "rt_timer_insert t k s = Some s'" "timers s' (ins_tmr t (unat k) ts)"
    by (rule rt_timer_insert_ok [OF T(1) t(1,2)])
  note k = rt_timer_insert_keep [OF s'(1)] rt_timer_insert_state [OF s'(1)]
  have "timers_ok s' (ins_tmr t (unat k) ts)"
    unfolding timers_ok_def ins_tmr_fst using s'(2) T(2) t(3) i st k by (auto simp: tmr_keep_def unat_gt_0)
  then show thesis by (rule that [OF s'(1)])
qed

lemma timer_remove_ok:
  assumes T: "timers_ok s ts" and t: "t \<in> fst ` set ts"
  obtains s' where "rt_timer_remove t s = Some (0, s')" "timers s' (rmv_dly t ts)"
    "tmr_state s' = tmr_state s" "tmr_type s' = tmr_type s" "tmr_icnt s' = tmr_icnt s"
proof -
  have "timers s ts" using T by (simp add: timers_ok_def)
  then obtain s' where s': "rt_timer_remove t s = Some (0, s')" "timers s' (rmv_dly t ts)"
    by (rule rt_timer_remove_ok [OF _ t])
  then show thesis using that [OF s'] timer_remove_untimed(2) [OF s'(1)] by simp
qed

end
