(* ===== verification/Rtx_MemBox.thy ===== *)
theory Rtx_MemBox
  imports Cmsis_Timer
begin

text \<open>
  The memory pools, \<open>rt_MemBox.c\<close> and the pool services of \<open>rt_CMSIS.c\<close>, on a memory of words: \<open>m a\<close>
  is the word at the byte address \<open>a\<close>, and all accesses are aligned.  A pool is a header \<open>OS_BM\<close>
  (\<open>free\<close>, \<open>end\<close>, \<open>blk_size\<close> at the offsets 0, 4 and 8) with its blocks behind it; the first word of a
  free block is the address of the next one.  The lemmas show that the free blocks are a list, which
  allocation takes from and release puts to the front of, that writing to an allocated block does
  not change it, and that these are the operations \<open>alloc_box\<close> and \<open>free_box\<close> which the kernel is
  modelled with.

  Interrupts are disabled (or exclusive accesses are repeated) around the change of the list, so that
  it is one step here.
\<close>

section \<open>The code\<close>

definition BOX_ALIGN_8 :: U32 where "BOX_ALIGN_8 = 0x80000000"

definition OS_BM_size :: U32 where "OS_BM_size = 12"

text \<open>The loop of \<open>_init_box\<close>, with the end marker behind it; it may run around the address space.\<close>

partial_function (option) link_blocks :: "U32 \<Rightarrow> U32 \<Rightarrow> U32 \<Rightarrow> memory \<Rightarrow> memory option" where
  "link_blocks blk_size end_blk blk m =
     (let next = blk + blk_size in
      if end_blk < next then Some (m(blk := 0))
      else link_blocks blk_size end_blk next (m(blk := next)))"

definition init_box_sizes :: "U32 \<Rightarrow> U32 \<times> U32" where
  "init_box_sizes blk_size =
     (if blk_size AND BOX_ALIGN_8 \<noteq> 0
      then (((blk_size AND NOT BOX_ALIGN_8) + 7) AND NOT 7, (OS_BM_size + 7) AND NOT 7)
      else ((blk_size + 3) AND NOT 3, OS_BM_size))"

definition rt_init_box :: "U32 \<Rightarrow> U32 \<Rightarrow> U32 \<Rightarrow> memory \<Rightarrow> (U32 \<times> memory) option" where
  "rt_init_box bm box_size blk_size m =
     (let (blk_size, sizeof_bm) = init_box_sizes blk_size in
      if blk_size = 0 then Some (1, m)
      else if box_size < blk_size + sizeof_bm then Some (1, m)
      else do {
        let blk = bm + sizeof_bm;
        let en = bm + box_size;
        m \<leftarrow> link_blocks blk_size (en - blk_size) blk (m(bm := blk, bm + 4 := en, bm + 8 := blk_size));
        Some (0, m)
      })"

definition rt_alloc_box :: "U32 \<Rightarrow> memory \<Rightarrow> U32 \<times> memory" where
  "rt_alloc_box bm m = (let free = m bm in (free, if free \<noteq> 0 then m(bm := m free) else m))"

text \<open>The loop that clears the words of a block, of \<open>_calloc_box\<close> and \<open>rt_clr_box\<close>: it only ends for a
  size that is a multiple of four.\<close>

partial_function (option) clear_words :: "U32 \<Rightarrow> U32 \<Rightarrow> memory \<Rightarrow> memory option" where
  "clear_words p i m = (if i = 0 then Some m else clear_words (p + 4) (i - 4) (m(p := 0)))"

definition rt_calloc_box :: "U32 \<Rightarrow> memory \<Rightarrow> (U32 \<times> memory) option" where
  "rt_calloc_box bm m =
     (let (free, m) = rt_alloc_box bm m in
      if free \<noteq> 0 then do { m \<leftarrow> clear_words free (m (bm + 8)) m; Some (free, m) } else Some (free, m))"

definition rt_free_box :: "U32 \<Rightarrow> U32 \<Rightarrow> memory \<Rightarrow> U32 \<times> memory" where
  "rt_free_box bm box m =
     (if box < bm \<or> m (bm + 4) \<le> box then (1, m)
      else let m = m(box := m bm) in (0, m(bm := box)))"

definition rt_clr_box :: "U32 \<Rightarrow> U32 \<Rightarrow> memory \<Rightarrow> memory option" where
  "rt_clr_box bm box m = (if bm \<noteq> 0 \<and> box \<noteq> 0 then clear_words box (m (bm + 8)) m else Some m)"

text \<open>The services; \<open>None\<close> for the definition is the null pointer.\<close>

record os_pool_def =
  pd_pool_sz :: U32
  pd_item_sz :: U32
  pd_pool :: U32

definition svcPoolCreate :: "os_pool_def option \<Rightarrow> memory \<Rightarrow> (U32 \<times> memory) option" where
  "svcPoolCreate pdef m =
     (case pdef of None \<Rightarrow> Some (0, m)
      | Some d \<Rightarrow>
        if pd_pool_sz d = 0 \<or> pd_item_sz d = 0 \<or> pd_pool d = 0 then Some (0, m)
        else do {
          let blk_sz = (pd_item_sz d + 3) AND NOT 3;
          (_, m) \<leftarrow> rt_init_box (pd_pool d) (OS_BM_size + pd_pool_sz d * blk_sz) blk_sz m;
          Some (pd_pool d, m)
        })"

definition sysPoolAlloc :: "U32 \<Rightarrow> memory \<Rightarrow> U32 \<times> memory" where
  "sysPoolAlloc pool_id m = (if pool_id = 0 then (0, m) else rt_alloc_box pool_id m)"

definition sysPoolFree :: "U32 \<Rightarrow> U32 \<Rightarrow> memory \<Rightarrow> U32 \<times> memory" where
  "sysPoolFree pool_id block m =
     (if pool_id = 0 then (osErrorParameter, m)
      else let (res, m) = rt_free_box pool_id block m in (if res \<noteq> 0 then osErrorValue else osOK, m))"

definition osPoolCAlloc :: "U32 \<Rightarrow> memory \<Rightarrow> (U32 \<times> memory) option" where
  "osPoolCAlloc pool_id m =
     (let (mem, m) = sysPoolAlloc pool_id m in do { m \<leftarrow> rt_clr_box pool_id mem m; Some (mem, m) })"

section \<open>Pools\<close>

text \<open>The geometry of a pool: \<open>n\<close> blocks of \<open>sz\<close> bytes from \<open>b0\<close>, behind the header at \<open>bm\<close> and below
  \<open>en\<close>.\<close>

definition geometry :: "U32 \<Rightarrow> U32 \<Rightarrow> U32 \<Rightarrow> U32 \<Rightarrow> nat \<Rightarrow> bool" where
  "geometry bm en b0 sz n \<longleftrightarrow> bm \<noteq> 0 \<and> unat bm + 12 \<le> unat b0 \<and> unat b0 + n * unat sz \<le> unat en \<and> 4 \<le> unat sz"

definition blk :: "U32 \<Rightarrow> U32 \<Rightarrow> nat \<Rightarrow> U32" where
  "blk b0 sz i = b0 + word_of_nat i * sz"

primrec links :: "U32 \<Rightarrow> U32 \<Rightarrow> memory \<Rightarrow> U32 \<Rightarrow> nat list \<Rightarrow> bool" where
  "links b0 sz m p [] \<longleftrightarrow> p = 0"
| "links b0 sz m p (i # fs) \<longleftrightarrow> p = blk b0 sz i \<and> links b0 sz m (m p) fs"

text \<open>The pool with the numbers of its free blocks, first to be allocated first.\<close>

definition pool :: "U32 \<Rightarrow> U32 \<Rightarrow> U32 \<Rightarrow> U32 \<Rightarrow> nat \<Rightarrow> memory \<Rightarrow> nat list \<Rightarrow> bool" where
  "pool bm en b0 sz n m fs \<longleftrightarrow> geometry bm en b0 sz n \<and> m (bm + 4) = en \<and> m (bm + 8) = sz \<and>
     links b0 sz m (m bm) fs \<and> distinct fs \<and> (\<forall>i\<in>set fs. i < n)"

lemma geometry_unat:
  assumes "geometry bm en b0 sz n" "i < n" "unat k < unat sz"
  shows "unat (blk b0 sz i + k) = unat b0 + i * unat sz + unat k"
proof -
  have "Suc i * unat sz \<le> n * unat sz" using assms(2) by (intro mult_le_mono1) simp
  then have l: "unat b0 + i * unat sz + unat k < 4294967296"
    using assms(1,3) u32_le [of en] by (simp add: geometry_def)
  have "unat (blk b0 sz i + k) = (unat b0 + i * unat sz + unat k) mod 4294967296"
    by (simp add: blk_def unat_word_ariths unsigned_of_nat take_bit_eq_mod mod_simps)
  then show ?thesis using l by simp
qed

lemma geometry_blk: "geometry bm en b0 sz n \<Longrightarrow> i < n \<Longrightarrow> unat (blk b0 sz i) = unat b0 + i * unat sz"
  using geometry_unat [of bm en b0 sz n i 0] by (simp add: geometry_def)


lemma blk_facts:
  assumes g: "geometry bm en b0 sz n" and i: "i < n"
  shows "blk b0 sz i \<noteq> 0" "blk b0 sz i \<noteq> bm" "blk b0 sz i \<noteq> bm + 4" "blk b0 sz i \<noteq> bm + 8" "\<not> blk b0 sz i < bm" "blk b0 sz i < en"
    "unat (bm + 4) = unat bm + 4" "unat (bm + 8) = unat bm + 8"
proof -
  note u = geometry_blk [OF g i]
  have e: "Suc i * unat sz \<le> n * unat sz" using i by (intro mult_le_mono1) simp
  show b: "unat (bm + 4) = unat bm + 4" "unat (bm + 8) = unat bm + 8"
    using g u32_le [of b0] by (auto simp: geometry_def intro!: unat_add_u32 [THEN trans])
  show "blk b0 sz i \<noteq> 0" "blk b0 sz i \<noteq> bm" "blk b0 sz i \<noteq> bm + 4" "blk b0 sz i \<noteq> bm + 8" "\<not> blk b0 sz i < bm"
    using g u b by (auto simp: geometry_def word_less_nat_alt)
  show "blk b0 sz i < en" using g u e by (simp add: geometry_def word_less_nat_alt)
qed

lemma blk_inj:
  assumes g: "geometry bm en b0 sz n" and "i < n" "j < n" "unat k < unat sz" "unat l < unat sz" "blk b0 sz i + k = blk b0 sz j + l"
  shows "i = j" "k = l"
proof -
  have e: "i * unat sz + unat k = j * unat sz + unat l"
    using geometry_unat [OF g assms(2,4)] geometry_unat [OF g assms(3,5)] assms(6) by simp
  show "i = j" using arg_cong [OF e, of "\<lambda>x. x div unat sz"] assms(4,5) by simp
  then show "k = l" using e by (simp add: word_unat_eq_iff)
qed

lemma links_cong: "(\<And>i. i \<in> set fs \<Longrightarrow> m (blk b0 sz i) = m' (blk b0 sz i)) \<Longrightarrow> links b0 sz m p fs = links b0 sz m' p fs"
  by (induction fs arbitrary: p) auto

text \<open>Allocation takes the first free block, and returns the null pointer when there is none.\<close>

lemma alloc_empty: "pool bm en b0 sz n m [] \<Longrightarrow> rt_alloc_box bm m = (0, m)"
  by (simp add: pool_def rt_alloc_box_def)

lemma alloc_ok:
  assumes P: "pool bm en b0 sz n m (i # fs)"
  obtains m' where "rt_alloc_box bm m = (blk b0 sz i, m')" "pool bm en b0 sz n m' fs" "\<And>a. a \<noteq> bm \<Longrightarrow> m' a = m a"
proof -
  have g: "geometry bm en b0 sz n" "i < n" "m bm = blk b0 sz i" "links b0 sz m (m (blk b0 sz i)) fs"
    using P by (auto simp: pool_def)
  have b: "bm + 4 \<noteq> bm" "bm + 8 \<noteq> bm" by simp_all
  let ?m = "m(bm := m (blk b0 sz i))"
  have "links b0 sz ?m (?m bm) fs"
    using g(4) links_cong [of fs ?m b0 sz m] blk_facts(2) [OF g(1)] P by (auto simp: pool_def)
  then show thesis using that [of ?m] P g blk_facts(1) [OF g(1,2)] b by (auto simp: pool_def rt_alloc_box_def Let_def)
qed

text \<open>A released block becomes the first free one.\<close>

lemma free_ok:
  assumes P: "pool bm en b0 sz n m fs" and i: "i < n" "i \<notin> set fs"
  obtains m' where "rt_free_box bm (blk b0 sz i) m = (0, m')" "pool bm en b0 sz n m' (i # fs)"
    "\<And>a. a \<noteq> bm \<Longrightarrow> a \<noteq> blk b0 sz i \<Longrightarrow> m' a = m a"
proof -
  have g: "geometry bm en b0 sz n" using P by (simp add: pool_def)
  note b = blk_facts [OF g i(1)]
  let ?m = "m(blk b0 sz i := m bm, bm := blk b0 sz i)"
  have ne: "blk b0 sz j \<noteq> blk b0 sz i" if "j \<in> set fs" for j
    using blk_inj(1) [OF g _ i(1), of j 0 0] that i P g by (auto simp: pool_def geometry_def)
  have "links b0 sz ?m (m bm) fs"
    using links_cong [of fs ?m b0 sz m] ne blk_facts(2) [OF g] P by (auto simp: pool_def)
  then have "pool bm en b0 sz n ?m (i # fs)" using P i b(2-4) by (auto simp: pool_def)
  moreover have "rt_free_box bm (blk b0 sz i) m = (0, ?m)" using b(5,6) P by (auto simp: rt_free_box_def pool_def)
  ultimately show thesis using that [of ?m] by simp
qed

text \<open>The owner of a block that is not free may write to all of it.\<close>

lemma write_ok:
  assumes P: "pool bm en b0 sz n m fs" and i: "i < n" "i \<notin> set fs" and k: "unat k < unat sz"
  shows "pool bm en b0 sz n (m(blk b0 sz i + k := v)) fs"
proof -
  have g: "geometry bm en b0 sz n" using P by (simp add: pool_def)
  have "blk b0 sz j \<noteq> blk b0 sz i + k" if "j \<in> set fs" for j
    using blk_inj(1) [OF g _ i(1), of j 0 k] that i k P g by (auto simp: pool_def geometry_def)
  then have "links b0 sz (m(blk b0 sz i + k := v)) p fs = links b0 sz m p fs" for p
    by (intro links_cong) auto
  moreover have "blk b0 sz i + k \<noteq> bm" "blk b0 sz i + k \<noteq> bm + 4" "blk b0 sz i + k \<noteq> bm + 8"
    using geometry_unat [OF g i(1) k] g blk_facts(7,8) [OF g i(1)] by (auto simp: geometry_def word_unat_eq_iff)
  ultimately show ?thesis using P by (auto simp: pool_def)
qed


text \<open>Clearing a block.\<close>

lemma clear_words_ok:
  assumes "unat i = 4 * k" "unat p + unat i \<le> 4294967295"
  shows "clear_words p i m = Some (\<lambda>a. if \<exists>j<k. a = p + 4 * word_of_nat j then 0 else m a)"
  using assms
proof (induction k arbitrary: p i m)
  case 0
  then have "i = 0" by (simp add: word_unat_eq_iff)
  then show ?case by (subst clear_words.simps) simp
next
  case (Suc k)
  have i: "i \<noteq> 0" "unat (i - 4) = 4 * k" using Suc.prems(1) by (auto simp: unat_sub_word)
  have p: "unat (p + 4) = unat p + 4" using Suc.prems by (subst unat_add_u32) auto
  have e: "(\<exists>j<Suc k. a = p + 4 * word_of_nat j) \<longleftrightarrow> a = p \<or> (\<exists>j<k. a = p + 4 + 4 * word_of_nat j)" for a
    by (subst Ex_less_Suc2) (simp add: algebra_simps)
  have "clear_words p i m = clear_words (p + 4) (i - 4) (m(p := 0))" using i by (subst clear_words.simps) simp
  also have "\<dots> = Some (\<lambda>a. if \<exists>j<k. a = p + 4 + 4 * word_of_nat j then 0 else (m(p := 0)) a)"
    by (rule Suc.IH) (use i p Suc.prems in simp_all)
  also have "\<dots> = Some (\<lambda>a. if \<exists>j<Suc k. a = p + 4 * word_of_nat j then 0 else m a)"
    unfolding e by (auto simp: fun_eq_iff)
  finally show ?case .
qed

lemma pool_clear:
  assumes P: "pool bm en b0 sz n m fs" and i: "i < n" "i \<notin> set fs" and d: "4 dvd unat sz"
  obtains m' where "clear_words (blk b0 sz i) (m (bm + 8)) m = Some m'" "pool bm en b0 sz n m' fs"
    "\<And>j. j < unat sz div 4 \<Longrightarrow> m' (blk b0 sz i + 4 * word_of_nat j) = 0"
    "\<And>a. (\<And>j. j < unat sz div 4 \<Longrightarrow> a \<noteq> blk b0 sz i + 4 * word_of_nat j) \<Longrightarrow> m' a = m a"
proof -
  let ?b = "blk b0 sz i"
  have g: "geometry bm en b0 sz n" "m (bm + 8) = sz" using P by (auto simp: pool_def)
  define K where "K = unat sz div 4"
  have K: "unat sz = 4 * K" using d by (simp add: K_def)
  have "unat ?b + unat sz \<le> 4294967295"
  proof -
    have "Suc i * unat sz \<le> n * unat sz" using i by (intro mult_le_mono1) simp
    then show ?thesis using geometry_blk [OF g(1) i(1)] g(1) u32_le [of en] by (simp add: geometry_def)
  qed
  then have c: "clear_words ?b sz m = Some (\<lambda>a. if \<exists>j<K. a = ?b + 4 * word_of_nat j then 0 else m a)"
    using clear_words_ok K by blast
  define S where "S = (\<lambda>k a. if \<exists>j<k. a = ?b + 4 * word_of_nat j then 0 else m a)"
  have "pool bm en b0 sz n (S k) fs" if "k \<le> K" for k
    using that
  proof (induction k)
    case 0
    then show ?case using P by (simp add: S_def)
  next
    case (Suc k)
    have "S (Suc k) = (S k)(?b + 4 * word_of_nat k := 0)" by (auto simp: S_def fun_eq_iff less_Suc_eq)
    moreover have "unat (4 * word_of_nat k :: U32) = 4 * k"
      using Suc.prems K u32_le [of sz] by (simp add: unat_word_ariths unsigned_of_nat take_bit_eq_mod mod_simps)
    moreover from this have "pool bm en b0 sz n ((S k)(?b + 4 * word_of_nat k := 0)) fs"
      by (intro write_ok [OF Suc.IH i]) (use Suc.prems K in simp_all)
    ultimately show ?case by (simp only:)
  qed
  then have "pool bm en b0 sz n (S K) fs" by simp
  moreover have "clear_words ?b (m (bm + 8)) m = Some (S K)" using c g(2) by (simp add: S_def)
  moreover have "S K (?b + 4 * word_of_nat j) = 0" if "j < K" for j using that by (auto simp: S_def)
  moreover have "S K a = m a" if "\<And>j. j < K \<Longrightarrow> a \<noteq> ?b + 4 * word_of_nat j" for a using that by (auto simp: S_def)
  ultimately show thesis using that [of "S K"] unfolding K_def by blast
qed

lemma calloc_ok:
  assumes P: "pool bm en b0 sz n m (i # fs)" and d: "4 dvd unat sz"
  obtains m' where "rt_calloc_box bm m = Some (blk b0 sz i, m')" "pool bm en b0 sz n m' fs"
    "\<And>j. j < unat sz div 4 \<Longrightarrow> m' (blk b0 sz i + 4 * word_of_nat j) = 0"
proof -
  have i: "i < n" "i \<notin> set fs" "geometry bm en b0 sz n" using P by (auto simp: pool_def)
  obtain m1 where a: "rt_alloc_box bm m = (blk b0 sz i, m1)" "pool bm en b0 sz n m1 fs"
    by (rule alloc_ok [OF P]) blast
  obtain m' where c: "clear_words (blk b0 sz i) (m1 (bm + 8)) m1 = Some m'" "pool bm en b0 sz n m' fs"
    "\<And>j. j < unat sz div 4 \<Longrightarrow> m' (blk b0 sz i + 4 * word_of_nat j) = 0"
    by (rule pool_clear [OF a(2) i(1,2) d]) blast
  show thesis by (rule that [OF _ c(2,3)]) (use a(1) c(1) blk_facts(1) [OF i(3,1)] in \<open>simp_all add: rt_calloc_box_def\<close>)
qed

section \<open>The start of a pool\<close>

lemma link_blocks_ok:
  assumes g: "geometry bm en b0 sz n" and k: "i < n" "unat en < unat b0 + Suc n * unat sz" and j: "n - Suc i = j"
  shows "\<exists>m'. link_blocks sz (en - sz) (blk b0 sz i) m = Some m' \<and> links b0 sz m' (blk b0 sz i) [i..<n] \<and>
    (\<forall>a. (\<forall>k. i \<le> k \<and> k < n \<longrightarrow> a \<noteq> blk b0 sz k) \<longrightarrow> m' a = m a)"
  using k(1) j
proof (induction j arbitrary: i m)
  case 0
  then have n: "n = Suc i" by simp
  let ?b = "blk b0 sz i"
  have z: "unat (en - sz) = unat en - unat sz" "unat sz \<le> unat en" using g n by (auto simp: geometry_def unat_sub_word)
  have "unat ?b + unat sz \<le> unat en" using geometry_blk [OF g 0(1)] g n by (simp add: geometry_def)
  then have "unat (?b + sz) = unat ?b + unat sz" using u32_le [of en] by (intro unat_add_u32) simp
  then have "en - sz < ?b + sz" using z k(2) geometry_blk [OF g 0(1)] n g by (simp add: word_less_nat_alt geometry_def)
  then have "link_blocks sz (en - sz) ?b m = Some (m(?b := 0))" by (subst link_blocks.simps) (simp add: Let_def)
  then show ?case using n by (auto simp: upt_rec [of i])
next
  case (Suc j)
  let ?b = "blk b0 sz i" and ?c = "blk b0 sz (Suc i)"
  have i: "Suc i < n" and nj: "n - Suc (Suc i) = j" using Suc.prems(2) by simp_all
  have c: "?b + sz = ?c" by (simp add: blk_def algebra_simps)
  have "Suc (Suc i) * unat sz \<le> n * unat sz" using i by (intro mult_le_mono1) simp
  moreover have "unat b0 + n * unat sz \<le> unat en" using g by (simp add: geometry_def)
  ultimately have "unat ?c + unat sz \<le> unat en" using geometry_blk [OF g i] by simp
  then have "\<not> en - sz < ?c" by (simp add: word_less_nat_alt unat_sub_word)
  then have e: "link_blocks sz (en - sz) ?b m = link_blocks sz (en - sz) ?c (m(?b := ?c))"
    using c by (subst link_blocks.simps) (simp add: Let_def)
  obtain m' where IH: "link_blocks sz (en - sz) ?c (m(?b := ?c)) = Some m'" "links b0 sz m' ?c [Suc i..<n]"
    "\<And>a. (\<forall>k. Suc i \<le> k \<and> k < n \<longrightarrow> a \<noteq> blk b0 sz k) \<Longrightarrow> m' a = (m(?b := ?c)) a"
    using Suc.IH [OF i nj, of "m(?b := ?c)"] by blast
  have "?b \<noteq> blk b0 sz k" if "Suc i \<le> k" "k < n" for k
    using blk_inj(1) [OF g Suc.prems(1) that(2), of 0 0] that g by (auto simp: geometry_def)
  then have "m' ?b = ?c" using IH(3) [of ?b] by auto
  then have "links b0 sz m' ?b [i..<n]" using IH(2) Suc.prems(1) by (simp add: upt_rec [of i])
  moreover have "m' a = m a" if "\<forall>k. i \<le> k \<and> k < n \<longrightarrow> a \<noteq> blk b0 sz k" for a
    using IH(3) [of a] that Suc.prems(1) by (metis Suc_leD fun_upd_other order_refl)
  ultimately show ?case using e IH(1) by auto
qed

text \<open>\<open>_init_box\<close> of a memory that holds \<open>n\<close> blocks and no more.\<close>

lemma init_ok:
  assumes s: "init_box_sizes bs = (sz, hz)" and g: "geometry bm (bm + ms) (bm + hz) sz n"
    and n: "0 < n" "unat (bm + ms) < unat (bm + hz) + Suc n * unat sz" "unat bm + unat ms \<le> 4294967295" "unat (bm + hz) = unat bm + unat hz"
  obtains m' where "rt_init_box bm ms bs m = Some (0, m')" "pool bm (bm + ms) (bm + hz) sz n m' [0..<n]"
proof -
  let ?b0 = "bm + hz" and ?en = "bm + ms"
  let ?m = "m(bm := ?b0, bm + 4 := ?en, bm + 8 := sz)"
  have b: "blk ?b0 sz 0 = ?b0" by (simp add: blk_def)
  note f = blk_facts [OF g n(1), unfolded b]
  obtain m' where l: "link_blocks sz (?en - sz) ?b0 ?m = Some m'" "links ?b0 sz m' ?b0 [0..<n]"
    "\<And>a. (\<forall>k. k < n \<longrightarrow> a \<noteq> blk ?b0 sz k) \<Longrightarrow> m' a = ?m a"
    using link_blocks_ok [OF g n(1,2) refl, of ?m] unfolding b by auto
  have h: "m' (bm + c) = ?m (bm + c)" if "c = 0 \<or> c = 4 \<or> c = 8" for c
    using l(3) [of "bm + c"] blk_facts(2-4) [OF g] that by fastforce
  have d: "bm + 4 \<noteq> bm" "bm + 8 \<noteq> bm" "bm + 8 \<noteq> bm + 4" by simp_all
  have "pool bm ?en ?b0 sz n m' [0..<n]" using g l(2) h [of 0] h [of 4] h [of 8] by (simp add: pool_def)
  moreover have "sz \<noteq> 0" using g by (auto simp: geometry_def)
  moreover have "\<not> ms < sz + hz"
  proof -
    have e: "unat ?en = unat bm + unat ms" "unat ?b0 = unat bm + unat hz"
      using n(3,4) by (auto intro!: unat_add_u32)
    have "unat sz \<le> n * unat sz" using n(1) by (cases n) simp_all
    moreover have "unat (bm + hz) + n * unat sz \<le> unat (bm + ms)" using g by (simp add: geometry_def)
    ultimately have "unat sz + unat hz \<le> unat ms" using e by linarith
    moreover from this have "unat (sz + hz) = unat sz + unat hz" using n(3) by (intro unat_add_u32) simp
    ultimately show ?thesis by (simp add: word_less_nat_alt)
  qed
  ultimately show thesis using that [of m'] l(1) by (simp add: rt_init_box_def s Let_def)
qed


text \<open>Sizes are rounded up to words; rounding twice is rounding once.\<close>

lemma round_up_4: "(((x + 3) AND NOT 3) + 3) AND NOT 3 = (x + 3) AND NOT (3 :: U32)"
proof -
  define y where "y = (x + 3) AND NOT (3 :: U32)"
  have a: "y AND 3 = 0" by (simp add: y_def and.assoc)
  have "y + 3 = y OR 3" by (rule disjunctive_add_eq_or) (rule a)
  then have "(y + 3) AND NOT 3 = y AND NOT 3" by (simp add: bit.conj_disj_distrib2)
  also have "\<dots> = y" by (simp add: y_def and.assoc)
  finally show ?thesis by (simp add: y_def)
qed

lemma svcPoolCreate_ok:
  assumes d: "pd_pool_sz d \<noteq> 0" "pd_item_sz d \<noteq> 0" "pd_pool d \<noteq> 0" "sz = (pd_item_sz d + 3) AND NOT 3" "sz \<noteq> 0"
    "sz AND BOX_ALIGN_8 = 0" "n = unat (pd_pool_sz d)" "unat (pd_pool d) + 12 + n * unat sz \<le> 4294967295"
  obtains m' en where "svcPoolCreate (Some d) m = Some (pd_pool d, m')"
    "pool (pd_pool d) en (pd_pool d + 12) sz n m' [0..<n]"
proof -
  have z: "init_box_sizes sz = (sz, 12)" using d(6) round_up_4 [of "pd_item_sz d"] by (simp add: init_box_sizes_def OS_BM_size_def d(4))
  have "sz AND 3 = 0" by (simp add: d(4) and.assoc)
  moreover have "sz AND 3 = take_bit 2 sz" by (simp add: take_bit_eq_mask mask_eq_exp_minus_1)
  ultimately have "unat sz mod 4 = 0" using unsigned_take_bit_eq [of 2 sz, where 'a = nat] by (simp add: take_bit_eq_mod)
  then have s4: "4 \<le> unat sz" using d(5) by (cases "unat sz < 4") (auto simp: word_unat_eq_iff)
  let ?ms = "OS_BM_size + pd_pool_sz d * sz"
  have "n * unat sz < 4294967296" using d(8) by simp
  then have ms: "unat ?ms = 12 + n * unat sz" using d(7,8)
    by (simp add: OS_BM_size_def unat_word_ariths)
  have en: "unat (pd_pool d + ?ms) = unat (pd_pool d) + 12 + n * unat sz" "unat (pd_pool d + 12) = unat (pd_pool d) + 12"
    using d(8) ms by (auto simp: unat_add_u32)
  have g: "geometry (pd_pool d) (pd_pool d + ?ms) (pd_pool d + 12) sz n"
    using d(3) en s4 by (simp add: geometry_def)
  obtain m' where i: "rt_init_box (pd_pool d) ?ms sz m = Some (0, m')" "pool (pd_pool d) (pd_pool d + ?ms) (pd_pool d + 12) sz n m' [0..<n]"
  proof (rule init_ok [OF z g])
    show "0 < n" using d(1,7) by (simp add: word_unat_eq_iff)
    show "unat (pd_pool d) + unat ?ms \<le> 4294967295" using ms d(8) by simp
  qed (use en s4 in simp_all)
  have "svcPoolCreate (Some d) m = Some (pd_pool d, m')"
    unfolding svcPoolCreate_def Let_def option.case d(4) [symmetric] using i(1) d(1-3) by simp
  then show thesis using that i(2) by blast
qed

section \<open>Pools as lists of blocks\<close>

text \<open>The contract of a pool: its free blocks are different, and it gives them out in turn.  So blocks
  that have been allocated and not released are different.\<close>

locale block_pool =
  fixes inv :: "'s \<Rightarrow> bool" and free_blocks :: "'s \<Rightarrow> U32 list" and alloc :: "'s \<Rightarrow> U32 \<times> 's"
  assumes free_distinct: "inv s \<Longrightarrow> distinct (free_blocks s) \<and> 0 \<notin> set (free_blocks s)"
    and alloc_none: "inv s \<Longrightarrow> free_blocks s = [] \<Longrightarrow> alloc s = (0, s)"
    and alloc_some: "inv s \<Longrightarrow> free_blocks s = b # bs \<Longrightarrow>
      fst (alloc s) = b \<and> inv (snd (alloc s)) \<and> free_blocks (snd (alloc s)) = bs"
begin

primrec allocs :: "nat \<Rightarrow> 's \<Rightarrow> U32 list \<times> 's" where
  "allocs 0 s = ([], s)"
| "allocs (Suc k) s = (let (b, s) = alloc s; (bs, s) = allocs k s in (b # bs, s))"

lemma allocs_take: "inv s \<Longrightarrow> k \<le> length (free_blocks s) \<Longrightarrow>
    fst (allocs k s) = take k (free_blocks s) \<and> inv (snd (allocs k s)) \<and> free_blocks (snd (allocs k s)) = drop k (free_blocks s)"
proof (induction k arbitrary: s)
  case (Suc k)
  then obtain b bs where f: "free_blocks s = b # bs" by (cases "free_blocks s") auto
  have a: "fst (alloc s) = b \<and> inv (snd (alloc s)) \<and> free_blocks (snd (alloc s)) = bs" by (rule alloc_some [OF Suc.prems(1) f])
  show ?case using Suc.IH [of "snd (alloc s)"] Suc.prems(2) a f by (auto simp: split_def Let_def)
qed simp

lemma allocs_distinct:
  assumes "inv s" "k \<le> length (free_blocks s)"
  shows "distinct (fst (allocs k s))" "0 \<notin> set (fst (allocs k s))"
  using allocs_take [OF assms] free_distinct [OF assms(1)] by (auto dest: in_set_takeD)

end

text \<open>Following the links of a pool, at most \<open>k\<close> of them.\<close>

primrec walk :: "nat \<Rightarrow> memory \<Rightarrow> U32 \<Rightarrow> U32 list" where
  "walk 0 m p = []"
| "walk (Suc k) m p = (if p = 0 then [] else p # walk k m (m p))"

lemma walk_links: "geometry bm en b0 sz n \<Longrightarrow> links b0 sz m p fs \<Longrightarrow> \<forall>i\<in>set fs. i < n \<Longrightarrow> length fs \<le> k \<Longrightarrow>
    walk k m p = map (blk b0 sz) fs"
proof (induction fs arbitrary: k p)
  case Nil
  then show ?case by (cases k) simp_all
next
  case (Cons i fs)
  obtain k' where k: "k = Suc k'" using Cons.prems(4) by (cases k) auto
  have p: "p = blk b0 sz i" "links b0 sz m (m p) fs" "p \<noteq> 0" using Cons.prems blk_facts(1) [OF Cons.prems(1)] by auto
  show ?case using Cons.IH [OF Cons.prems(1) p(2), of k'] Cons.prems(3,4) p unfolding k by simp
qed

definition pool_inv :: "U32 \<Rightarrow> U32 \<Rightarrow> U32 \<Rightarrow> U32 \<Rightarrow> nat \<Rightarrow> memory \<Rightarrow> bool" where
  "pool_inv bm en b0 sz n m \<longleftrightarrow> (\<exists>fs. pool bm en b0 sz n m fs)"

lemma pool_walk:
  assumes P: "pool bm en b0 sz n m fs"
  shows "walk n m (m bm) = map (blk b0 sz) fs"
proof -
  have "card (set fs) \<le> card {..<n}" using P by (intro card_mono) (auto simp: pool_def)
  then have "length fs \<le> n" using P by (simp add: pool_def distinct_card)
  then show ?thesis using walk_links [of bm en b0 sz n m "m bm" fs n] P by (simp add: pool_def)
qed

lemma pool_blocks_distinct:
  assumes P: "pool bm en b0 sz n m fs"
  shows "distinct (map (blk b0 sz) fs)" "0 \<notin> set (map (blk b0 sz) fs)"
proof -
  have g: "geometry bm en b0 sz n" and l: "\<And>i. i \<in> set fs \<Longrightarrow> i < n" and d: "distinct fs" using P by (auto simp: pool_def)
  have "inj_on (blk b0 sz) (set fs)"
    using blk_inj(1) [OF g l l, of _ _ 0 0] g by (intro inj_onI) (auto simp: geometry_def)
  then show "distinct (map (blk b0 sz) fs)" using d by (simp add: distinct_map)
  show "0 \<notin> set (map (blk b0 sz) fs)" using blk_facts(1) [OF g l] by force
qed

interpretation word_pool: block_pool "pool_inv bm en b0 sz n" "\<lambda>m. walk n m (m bm)" "rt_alloc_box bm"
proof
  fix m assume I: "pool_inv bm en b0 sz n m"
  then obtain fs where P: "pool bm en b0 sz n m fs" by (auto simp: pool_inv_def)
  show "distinct (walk n m (m bm)) \<and> 0 \<notin> set (walk n m (m bm))"
    using pool_blocks_distinct [OF P] by (simp add: pool_walk [OF P])
  show "walk n m (m bm) = [] \<Longrightarrow> rt_alloc_box bm m = (0, m)" using alloc_empty [of bm en b0 sz n m] P by (simp add: pool_walk [OF P])
  fix b bs assume "walk n m (m bm) = b # bs"
  then obtain i gs where f: "fs = i # gs" "b = blk b0 sz i" "bs = map (blk b0 sz) gs" by (auto simp: pool_walk [OF P])
  obtain m' where "rt_alloc_box bm m = (b, m')" "pool bm en b0 sz n m' gs"
    unfolding f(2) by (rule alloc_ok [OF P [unfolded f(1)]]) blast
  then show "fst (rt_alloc_box bm m) = b \<and> pool_inv bm en b0 sz n (snd (rt_alloc_box bm m)) \<and>
      walk n (snd (rt_alloc_box bm m)) (snd (rt_alloc_box bm m) bm) = bs"
    using pool_walk f(3) by (auto simp: pool_inv_def)
qed

interpretation list_pool: block_pool "\<lambda>s. distinct (box_free s p) \<and> 0 \<notin> set (box_free s p)" "\<lambda>s. box_free s p" "alloc_box p"
  by unfold_locales (auto simp: alloc_box_def)

text \<open>The words implement the lists: the same blocks are allocated, and they go back to the same place.\<close>

lemma alloc_implements:
  assumes P: "pool bm en b0 sz n m fs" and s: "box_free s bm = map (blk b0 sz) fs"
  obtains b s' m' fs' where "alloc_box bm s = (b, s')" "rt_alloc_box bm m = (b, m')"
    "pool bm en b0 sz n m' fs'" "box_free s' bm = map (blk b0 sz) fs'"
proof (cases fs)
  case Nil
  then show thesis using that [of 0 s m "[]"] P s alloc_empty [of bm en b0 sz n m] by (simp add: alloc_box_def)
next
  case (Cons i gs)
  obtain m' where "rt_alloc_box bm m = (blk b0 sz i, m')" "pool bm en b0 sz n m' gs"
    by (rule alloc_ok [OF P [unfolded Cons]]) blast
  then show thesis using that [of "blk b0 sz i" "s\<lparr>box_free := (box_free s)(bm := map (blk b0 sz) gs)\<rparr>" m' gs] s Cons
    by (simp add: alloc_box_def)
qed

lemma free_implements:
  assumes P: "pool bm en b0 sz n m fs" and s: "box_free s bm = map (blk b0 sz) fs" "box_mem s bm = map (blk b0 sz) [0..<n]"
    and i: "i < n" "i \<notin> set fs"
  obtains m' where "rt_free_box bm (blk b0 sz i) m = (0, m')" "pool bm en b0 sz n m' (i # fs)"
    "box_free (free_box bm (blk b0 sz i) s) bm = map (blk b0 sz) (i # fs)"
  by (rule free_ok [OF P i]) (use that s i in \<open>auto simp: free_box_def\<close>)

section \<open>What the test of \<open>rt_free_box\<close> does not find\<close>

text \<open>A block that is released twice is allocated twice.\<close>

lemma double_free_ok:
  assumes P: "pool bm en b0 sz n m fs" and i: "i < n" "i \<notin> set fs"
  shows "\<exists>m1 m2 m3 m4. rt_free_box bm (blk b0 sz i) m = (0, m1) \<and> rt_free_box bm (blk b0 sz i) m1 = (0, m2) \<and>
    rt_alloc_box bm m2 = (blk b0 sz i, m3) \<and> rt_alloc_box bm m3 = (blk b0 sz i, m4)"
proof -
  have g: "geometry bm en b0 sz n" "m (bm + 4) = en" using P by (auto simp: pool_def)
  note b = blk_facts [OF g(1) i(1)]
  show ?thesis using b(1-6) g(2) by (auto simp: rt_free_box_def rt_alloc_box_def Let_def)
qed

end
