(* ===== verification/Kernel_Example.thy ===== *)
theory Kernel_Example
  imports Kernel_Inv Rtx_MemBox
begin

text \<open>
  A state of the kernel with seven tasks at which the theorems about its services are instantiated:
  a running task that owns a mutex, a ready task and the idle task, a task waiting for a semaphore
  with a timeout, one waiting for the mutex, one waiting to receive from an empty mailbox, one
  waiting to send to a full mailbox and one waiting for event flags.
\<close>


definition ex_kernel :: kernel where
  "ex_kernel = zero_kernel\<lparr>
     cb_type := (\<lambda>_. HCB)(NULL := TCB, OS_IDLE := TCB, CB 16 := TCB, CB 32 := TCB, CB 48 := TCB,
       CB 64 := TCB, CB 80 := TCB, CB 96 := TCB, CB 112 := TCB, CB 256 := SCB, CB 272 := SCB,
       CB 288 := MUCB, CB 304 := MUCB, CB 320 := MCB, CB 336 := MCB, CB 352 := MCB, CB 368 := MUCB),
     os_active_TCB := [CB 16, CB 32, CB 48, CB 64, CB 80, CB 96, CB 112, NULL],
     task_id := (\<lambda>_. 0)(OS_IDLE := 255, CB 16 := 1, CB 32 := 2, CB 48 := 3, CB 64 := 4, CB 80 := 5,
       CB 96 := 6, CB 112 := 7),
     prio := (\<lambda>_. 0)(CB 16 := 3, CB 32 := 2, CB 48 := 4, CB 64 := 3, CB 80 := 1, CB 96 := 5, CB 112 := 2),
     prio_base := (\<lambda>_. 0)(CB 16 := 2, CB 32 := 2, CB 48 := 4, CB 64 := 3, CB 80 := 1, CB 96 := 5, CB 112 := 2),
     state := (\<lambda>_. INACTIVE)(OS_IDLE := READY, CB 16 := RUNNING, CB 32 := READY, CB 48 := WAIT_SEM,
       CB 64 := WAIT_MUT, CB 80 := WAIT_MBX, CB 96 := WAIT_OR, CB 112 := WAIT_MBX),
     p_lnk := (\<lambda>_. NULL)(OS_RDY := CB 32, CB 32 := OS_IDLE, CB 256 := CB 48, CB 288 := CB 64,
       CB 320 := CB 80, CB 336 := CB 112),
     p_rlnk := (\<lambda>_. NULL)(CB 48 := CB 256, CB 64 := CB 288, CB 80 := CB 320, CB 112 := CB 336),
     p_dlnk := (\<lambda>_. NULL)(OS_DLY := CB 48, CB 48 := CB 96, CB 96 := CB 80),
     p_blnk := (\<lambda>_. NULL)(CB 48 := OS_DLY, CB 96 := CB 48, CB 80 := CB 96),
     delta_time := (\<lambda>_. 0)(OS_DLY := 1, CB 48 := 4, CB 96 := 4),
     waits := (\<lambda>_. 0)(CB 96 := 3),
     mcb_state := (\<lambda>_. 0)(CB 320 := 1, CB 336 := 2),
     mcb_size := (\<lambda>_. 0)(CB 320 := 2, CB 336 := 1, CB 352 := 2),
     mcb_count := (\<lambda>_. 0)(CB 336 := 1, CB 352 := 1),
     mcb_first := (\<lambda>_. 0)(CB 352 := 1),
     mcb_msg := (\<lambda>_ _. 0)(CB 336 := (\<lambda>_. 7), CB 352 := (\<lambda>_. 9)),
     msg := (\<lambda>_. 0)(CB 112 := 8),
     tokens := (\<lambda>_. 0)(CB 272 := 2),
     level := (\<lambda>_. 0)(CB 288 := 1, CB 368 := 1), owner := (\<lambda>_. NULL)(CB 288 := CB 16, CB 368 := CB 32),
     p_mlnk := (\<lambda>_. NULL)(CB 16 := CB 288, CB 32 := CB 368),
     run := CB 16, new_tsk := CB 16, robin_tout := 5, psq_size := 16, timer_queue := CB 352\<rparr>"

lemma ex_fields [simp]:
  "cb_type ex_kernel = (\<lambda>_. HCB)(NULL := TCB, OS_IDLE := TCB, CB 16 := TCB, CB 32 := TCB, CB 48 := TCB, CB 64 := TCB, CB 80 := TCB, CB 96 := TCB, CB 112 := TCB, CB 256 := SCB, CB 272 := SCB, CB 288 := MUCB, CB 304 := MUCB, CB 320 := MCB, CB 336 := MCB, CB 352 := MCB, CB 368 := MUCB)"
  "os_active_TCB ex_kernel = [CB 16, CB 32, CB 48, CB 64, CB 80, CB 96, CB 112, NULL]"
  "task_id ex_kernel = (\<lambda>_. 0)(OS_IDLE := 255, CB 16 := 1, CB 32 := 2, CB 48 := 3, CB 64 := 4, CB 80 := 5, CB 96 := 6, CB 112 := 7)"
  "prio ex_kernel = (\<lambda>_. 0)(CB 16 := 3, CB 32 := 2, CB 48 := 4, CB 64 := 3, CB 80 := 1, CB 96 := 5, CB 112 := 2)"
  "prio_base ex_kernel = (\<lambda>_. 0)(CB 16 := 2, CB 32 := 2, CB 48 := 4, CB 64 := 3, CB 80 := 1, CB 96 := 5, CB 112 := 2)"
  "state ex_kernel = (\<lambda>_. INACTIVE)(OS_IDLE := READY, CB 16 := RUNNING, CB 32 := READY, CB 48 := WAIT_SEM, CB 64 := WAIT_MUT, CB 80 := WAIT_MBX, CB 96 := WAIT_OR, CB 112 := WAIT_MBX)"
  "p_lnk ex_kernel = (\<lambda>_. NULL)(OS_RDY := CB 32, CB 32 := OS_IDLE, CB 256 := CB 48, CB 288 := CB 64, CB 320 := CB 80, CB 336 := CB 112)"
  "p_rlnk ex_kernel = (\<lambda>_. NULL)(CB 48 := CB 256, CB 64 := CB 288, CB 80 := CB 320, CB 112 := CB 336)"
  "p_dlnk ex_kernel = (\<lambda>_. NULL)(OS_DLY := CB 48, CB 48 := CB 96, CB 96 := CB 80)"
  "p_blnk ex_kernel = (\<lambda>_. NULL)(CB 48 := OS_DLY, CB 96 := CB 48, CB 80 := CB 96)"
  "delta_time ex_kernel = (\<lambda>_. 0)(OS_DLY := 1, CB 48 := 4, CB 96 := 4)"
  "waits ex_kernel = (\<lambda>_. 0)(CB 96 := 3)"
  "mcb_state ex_kernel = (\<lambda>_. 0)(CB 320 := 1, CB 336 := 2)"
  "mcb_size ex_kernel = (\<lambda>_. 0)(CB 320 := 2, CB 336 := 1, CB 352 := 2)"
  "mcb_count ex_kernel = (\<lambda>_. 0)(CB 336 := 1, CB 352 := 1)"
  "mcb_first ex_kernel = (\<lambda>_. 0)(CB 352 := 1)"
  "mcb_msg ex_kernel = (\<lambda>_ _. 0)(CB 336 := (\<lambda>_. 7), CB 352 := (\<lambda>_. 9))"
  "msg ex_kernel = (\<lambda>_. 0)(CB 112 := 8)"
  "tokens ex_kernel = (\<lambda>_. 0)(CB 272 := 2)"
  "level ex_kernel = (\<lambda>_. 0)(CB 288 := 1, CB 368 := 1)"
  "owner ex_kernel = (\<lambda>_. NULL)(CB 288 := CB 16, CB 368 := CB 32)"
  "p_mlnk ex_kernel = (\<lambda>_. NULL)(CB 16 := CB 288, CB 32 := CB 368)"
  "run ex_kernel = CB 16"
  "new_tsk ex_kernel = CB 16"
  "robin_tout ex_kernel = 5"
  "psq_size ex_kernel = 16"
  "timer_queue ex_kernel = CB 352"
  "interval_time ex_kernel = (\<lambda>_. 0)"
  "events ex_kernel = (\<lambda>_. 0)"
  "os_time ex_kernel = 0"
  "robin_task ex_kernel = NULL"
  "robin_time ex_kernel = 0"
  "mcb_last ex_kernel = (\<lambda>_. 0)"
  "psq_count ex_kernel = 0"
  "psq_first ex_kernel = 0"
  "psq_last ex_kernel = 0"
  "ret0 ex_kernel = (\<lambda>_. 0)"
  "os_timer_head ex_kernel = NULL"
  "tmr_state ex_kernel = (\<lambda>_. 0)"
  by (simp_all add: ex_kernel_def zero_kernel_def)

definition ex_q :: "ptr \<Rightarrow> ptr list" where
  "ex_q = (\<lambda>_. [])(OS_RDY := [CB 32, OS_IDLE], CB 256 := [CB 48], CB 288 := [CB 64],
     CB 320 := [CB 80], CB 336 := [CB 112])"

definition ex_ds :: "(ptr \<times> nat) list" where
  "ex_ds = [(CB 48, 1), (CB 96, 5), (CB 80, 9)]"

lemma ex_task: "is_task ex_kernel t \<longleftrightarrow>
    t \<in> {OS_IDLE, CB 16, CB 32, CB 48, CB 64, CB 80, CB 96, CB 112}"
  by (auto simp: is_task_def  cb_types)

lemma ex_sem_mbx: "is_sem_mbx ex_kernel t \<longleftrightarrow>
    t \<in> {CB 256, CB 272, CB 288, CB 304, CB 320, CB 336, CB 352, CB 368}"
  by (auto simp: is_sem_mbx_def  cb_types split: if_splits)

lemma ex_q_in: "t \<in> set (ex_q h) \<longleftrightarrow>
    (h, t) \<in> {(OS_RDY, CB 32), (OS_RDY, OS_IDLE), (CB 256, CB 48), (CB 288, CB 64), (CB 320, CB 80), (CB 336, CB 112)}"
  by (auto simp: ex_q_def split: if_splits)

lemma ex_queues: "queues ex_kernel ex_q NULL"
proof -
  have "chain (p_lnk ex_kernel) (p_lnk ex_kernel h) (ex_q h) NULL" if "is_head ex_kernel h" for h
    using that by (auto simp: is_head_def ex_sem_mbx ex_q_def )
  moreover have "ex_q h = []" if "\<not> is_head ex_kernel h" for h
    using that by (auto simp: is_head_def ex_sem_mbx ex_q_def)
  moreover have "rchain (p_rlnk ex_kernel) h (ex_q h)" if "is_sem_mbx ex_kernel h" for h
    using that by (auto simp: ex_sem_mbx ex_q_def )
  moreover have "p_rlnk ex_kernel t = NULL" if "is_task ex_kernel t"
    "\<forall>h. is_sem_mbx ex_kernel h \<longrightarrow> t \<notin> set (ex_q h)" for t
    using that unfolding ex_task ex_sem_mbx ex_q_in
    by auto
  moreover have "distinct (ex_q h)" for h by (simp add: ex_q_def)
  moreover have "set (ex_q h) \<inter> set (ex_q h') = {}" if "h \<noteq> h'" for h h'
    using that unfolding disjoint_iff ex_q_in by auto
  moreover have "is_task ex_kernel t" if "t \<in> set (ex_q h)" for h t
    using that unfolding ex_q_in ex_task by auto
  moreover have "cb_type ex_kernel OS_RDY = HCB" "cb_type ex_kernel OS_DLY = HCB" "cb_type ex_kernel NULL = TCB"
    by simp_all
  ultimately show ?thesis unfolding queues_def by blast
qed

lemma ex_delays: "delays ex_kernel ex_ds"
  unfolding delays_def ex_task
  by (auto simp: ex_ds_def )

lemma ex_kinv: "kinv ex_kernel ex_q ex_ds"
proof (rule kinvI)
  have f: "run ex_kernel = CB 16" "new_tsk ex_kernel = CB 16" by (simp_all add: ex_kernel_def)
  show "sched ex_kernel ex_q ex_ds {run ex_kernel}"
  proof (rule schedI)
    show "queues ex_kernel ex_q NULL" "delays ex_kernel ex_ds" by (rule ex_queues ex_delays)+
    show "\<And>t k. (t, k) \<in> set ex_ds \<Longrightarrow> 0 < k" by (auto simp: ex_ds_def)
    show "\<And>h. by_prio (prio ex_kernel) (ex_q h)"
      by (simp add: ex_q_def by_prio_Cons )
    show "\<And>t h. t \<in> {run ex_kernel} \<Longrightarrow> t \<notin> set (ex_q h)" unfolding ex_q_in f by auto
    fix t assume t: "is_task ex_kernel t" "t \<notin> {run ex_kernel}"
    show "(t \<in> set (ex_q OS_RDY)) = (state ex_kernel t = READY)"
      using t unfolding ex_q_in f ex_task by auto
    show "(\<exists>h. h \<noteq> OS_RDY \<and> t \<in> set (ex_q h)) = waiting (state ex_kernel t)"
      using t unfolding ex_q_in f ex_task by (auto simp:  waiting_def)
    show "t \<in> fst ` set ex_ds \<Longrightarrow> blocked (state ex_kernel t)"
      by (auto simp: ex_ds_def  blocked_def)
    show "state ex_kernel t \<noteq> RUNNING"
      using t unfolding f ex_task by auto
  qed
  show "is_task ex_kernel (run ex_kernel)" "run ex_kernel \<notin> fst ` set ex_ds"
    "state ex_kernel (run ex_kernel) = RUNNING" "new_tsk ex_kernel = run ex_kernel"
    "run ex_kernel = OS_IDLE \<or> OS_IDLE \<in> set (ex_q OS_RDY)"
    unfolding f ex_task ex_q_in by (auto simp: ex_ds_def )
  show "tasks_ok ex_kernel" unfolding tasks_ok_def ex_task by auto
  show "\<And>t. t \<in> set (ex_q OS_RDY) \<Longrightarrow> prio ex_kernel t \<le> prio ex_kernel (run ex_kernel)"
    unfolding f ex_q_in by auto
qed


text \<open>The mutexes and the mailboxes of the example.\<close>

definition ex_own :: "ptr \<Rightarrow> ptr list" where
  "ex_own = (\<lambda>_. [])(CB 16 := [CB 288], CB 32 := [CB 368])"

lemma ex_mutexes: "mutexes ex_kernel ex_q ex_own"
proof -
  have m: "cb_type ex_kernel m = MUCB \<longleftrightarrow> m = CB 288 \<or> m = CB 304 \<or> m = CB 368" for m
    by (auto simp: cb_types split: if_splits)
  have o: "{m. cb_type ex_kernel m = MUCB \<and> level ex_kernel m \<noteq> 0 \<and> owner ex_kernel m = t} =
      (if t = CB 16 then {CB 288} else if t = CB 32 then {CB 368} else {})" for t
    unfolding m by auto
  show ?thesis unfolding mutexes_def o m ex_task by (auto simp: ex_own_def ex_q_def)
qed

lemma ex_mbx_wf: "mbx_wf (CB 336) ex_kernel" "mbx_wf (CB 352) ex_kernel"
  by (simp_all add: mbx_wf_def)

lemma ex_mbx_msgs: "mbx_msgs (CB 336) ex_kernel = [7]"
  by (simp add: mbx_msgs_def ring_def)

text \<open>The same state with two free blocks for tasks; and the kernel after its start with such a pool.\<close>

definition ex_pool :: kernel where
  "ex_pool = ex_kernel\<lparr>mp_tcb := 4096, box_free := (\<lambda>_. [])(4096 := [512, 768])\<rparr>"

lemma ex_pool_kinv: "kinv ex_pool ex_q ex_ds"
  using ex_kinv kinv_cong [of ex_pool ex_kernel] by (simp add: ex_pool_def)

lemma ex_pool_fields [simp]:
  "mp_tcb ex_pool = 4096" "box_free ex_pool = (\<lambda>_. [])(4096 := [512, 768])" "run ex_pool = CB 16"
  "cb_type ex_pool = cb_type ex_kernel" "prio ex_pool = prio ex_kernel"
  "os_active_TCB ex_pool = os_active_TCB ex_kernel"
  by (simp_all add: ex_pool_def)

text \<open>The same state with a pool of control blocks, of which one is free: all of the kernel is in order.\<close>

definition ex_sys :: kernel where
  "ex_sys = ex_kernel\<lparr>mp_tcb := 4096, mp_stk := 8192, box_free := (\<lambda>_. [])(4096 := [512]),
     box_mem := (\<lambda>_. [])(4096 := [16, 32, 48, 64, 80, 96, 112, 512])\<rparr>"

lemma ex_sys_fields [simp]:
  "run ex_sys = CB 16" "cb_type ex_sys = cb_type ex_kernel" "os_active_TCB ex_sys = os_active_TCB ex_kernel"
  "level ex_sys = level ex_kernel" "owner ex_sys = owner ex_kernel" "p_lnk ex_sys = p_lnk ex_kernel"
  "psq_count ex_sys = 0"
  by (simp_all add: ex_sys_def)

lemma ex_sys_inv: "sysinv ex_sys"
proof (rule sysinvI)
  show "kinv ex_sys ex_q ex_ds" using ex_kinv kinv_cong [of ex_sys ex_kernel] by (simp add: ex_sys_def)
  have tk: "is_task ex_sys = is_task ex_kernel" by (simp add: is_task_def fun_eq_iff)
  show "mutexes ex_sys ex_q ex_own" by (rule mutexes_cong [OF ex_mutexes tk]) (simp_all add: ex_sys_def)
  show "timers_ok ex_sys []" by (simp add: timers_ok_def timers_def ex_sys_def osTimerRunning_def)
  have "psq_inv ex_sys" by (simp add: psq_inv_def psq_wf_def psq_items_def psq_from_def ring_def ex_sys_def)
  moreover have "ids_ok ex_sys"
    unfolding ids_ok_def
  proof (intro conjI allI impI)
    show "length (os_active_TCB ex_sys) < 255" by simp
    have n: "task_id ex_sys = task_id ex_kernel" by (simp add: ex_sys_def)
    fix i assume i: "i < length (os_active_TCB ex_sys)" "os_active_TCB ex_sys ! i \<noteq> NULL"
    then have "i = 0 \<or> i = 1 \<or> i = 2 \<or> i = 3 \<or> i = 4 \<or> i = 5 \<or> i = 6 \<or> i = 7" by simp linarith
    then show "unat (task_id ex_sys (os_active_TCB ex_sys ! i)) = Suc i" unfolding n
      by (elim disjE) (use i(2) in simp_all)
  qed
  moreover have "tcbs_ok ex_sys"
    by (simp add: tcbs_ok_def Let_def free_addr_def is_sem_mbx_def cb_types) (simp add: ex_sys_def)
  ultimately show "tables_ok ex_sys" by (simp add: tables_ok_def)
qed

definition ex_boot :: kernel where
  "ex_boot = rt_sys_init 16 5 0 (zero_kernel\<lparr>os_active_TCB := [NULL, NULL], mp_tcb := 4096, mp_stk := 8192,
     box_mem := (\<lambda>_. [])(4096 := [512, 768]), os_stackinfo := 0\<rparr>)"

lemma ex_boot_fields [simp]:
  "mp_tcb ex_boot = 4096" "box_free ex_boot 4096 = [512, 768]" "run ex_boot = OS_IDLE"
  "cb_type ex_boot = (\<lambda>_. 0)(OS_IDLE := TCB, OS_RDY := HCB, OS_DLY := HCB)" "os_active_TCB ex_boot = [NULL, NULL]"
  by (simp_all add: ex_boot_def rt_sys_init_def Let_def zero_kernel_def rt_switch_req_def rt_init_robin_def init_box_def
      rt_init_context_def alloc_box_def rt_init_stack_def)

definition ex_thread :: thread_def where
  "ex_thread = \<lparr>td_pthread = 4, td_tpriority = 0, td_stacksize = 512, td_stack_pointer = 1024\<rparr>"

text \<open>A request of an interrupt handler; two timers; a task that sleeps alone; a pool of two blocks.\<close>

definition ex_requests :: kernel where
  "ex_requests = ex_kernel\<lparr>psq_count := 1, psq_first := 1, psq_id := (\<lambda>_. CB 272), psq_arg := (\<lambda>_. 3)\<rparr>"

lemma ex_requests_ok: "kinv ex_requests ex_q ex_ds" "psq_wf ex_requests" "psq_items ex_requests = [(CB 272, 3)]"
  "\<forall>x\<in>set (psq_items ex_requests). request_ok ex_requests x"
  using ex_kinv kinv_cong [of ex_requests ex_kernel]
  by (simp_all add: ex_requests_def psq_wf_def psq_items_def psq_from_def ring_def request_ok_def cb_types)

definition ex_timers :: kernel where
  "ex_timers = ex_kernel\<lparr>os_timer_head := CB 600, tmr_next := (\<lambda>_. NULL)(CB 600 := CB 620),
     tmr_tcnt := (\<lambda>_. 0)(CB 600 := 1, CB 620 := 2), tmr_icnt := (\<lambda>_. 5),
     tmr_state := (\<lambda>_. osTimerInvalid)(CB 600 := osTimerRunning, CB 620 := osTimerRunning),
     tmr_type := (\<lambda>_. osTimerOnce)(CB 600 := osTimerPeriodic)\<rparr>"

lemma ex_timers_ok: "timers_ok ex_timers [(CB 600, 1), (CB 620, 3)]"
  by (auto simp: timers_ok_def timers_def ex_timers_def osTimerInvalid_def osTimerRunning_def)

lemma ex_ticked: "hd (ticked ex_kernel ex_q ex_ds OS_RDY) = CB 48"
  by (simp add: ticked_def expired_def ex_ds_def robin_def rt_put_rdy_first_def make_ready_def rmv_q_def ex_q_def ins_prio_def Let_def)

definition ex_sleep :: kernel where
  "ex_sleep = zero_kernel\<lparr>
     cb_type := (\<lambda>_. HCB)(NULL := TCB, OS_IDLE := TCB, CB 16 := TCB),
     os_active_TCB := [CB 16, NULL],
     state := (\<lambda>_. INACTIVE)(OS_IDLE := READY, CB 16 := WAIT_DLY), p_lnk := (\<lambda>_. NULL)(OS_RDY := OS_IDLE),
     p_dlnk := (\<lambda>_. NULL)(OS_DLY := CB 16), p_blnk := (\<lambda>_. NULL)(CB 16 := OS_DLY),
     delta_time := (\<lambda>_. 0)(OS_DLY := 7), run := OS_IDLE, new_tsk := OS_IDLE\<rparr>"

lemma ex_sleep_fields [simp]:
  "cb_type ex_sleep = (\<lambda>_. HCB)(NULL := TCB, OS_IDLE := TCB, CB 16 := TCB)" "os_active_TCB ex_sleep = [CB 16, NULL]"
  "state ex_sleep = (\<lambda>_. INACTIVE)(OS_IDLE := READY, CB 16 := WAIT_DLY)" "p_lnk ex_sleep = (\<lambda>_. NULL)(OS_RDY := OS_IDLE)"
  "p_rlnk ex_sleep = (\<lambda>_. NULL)" "p_dlnk ex_sleep = (\<lambda>_. NULL)(OS_DLY := CB 16)"
  "p_blnk ex_sleep = (\<lambda>_. NULL)(CB 16 := OS_DLY)" "delta_time ex_sleep = (\<lambda>_. 0)(OS_DLY := 7)" "os_time ex_sleep = 0"
  by (simp_all add: ex_sleep_def zero_kernel_def)

lemma ex_sleep_sched: "sched ex_sleep ((\<lambda>_. [])(OS_RDY := [OS_IDLE])) [(CB 16, 7)] {}"
proof -
  have t: "is_task ex_sleep t \<longleftrightarrow> t = OS_IDLE \<or> t = CB 16" for t
    by (auto simp: is_task_def cb_types)
  have h: "\<not> is_sem_mbx ex_sleep h" for h by (auto simp: is_sem_mbx_def cb_types)
  show ?thesis
    by (rule schedI) (auto simp: queues_def delays_def t h is_head_def waiting_def blocked_def by_prio_Cons split: if_splits)
qed

definition ex_mem :: memory where
  "ex_mem = (\<lambda>_. 0)(4096 := 4108, 4100 := 4124, 4104 := 8, 4108 := 4116)"

lemma ex_mem_pool: "pool 4096 4124 4108 8 2 ex_mem [0, 1]"
  by (simp add: pool_def geometry_def ex_mem_def blk_def)

end
