(* ===== verification/Rtx_Exit.thy ===== *)
theory Rtx_Exit
  imports Kernel_Inv
begin

text \<open>
  The end of a task (\<open>rt_tsk_delete\<close>): it leaves the lists, its mutexes go to the first tasks that
  wait for them, and its number and its control block become free.
\<close>

section \<open>A table without the task\<close>

text \<open>The loop over the mutexes does not look at the table of active tasks, from which the task is
  taken out afterwards; the facts about the lists hold for the state with the table \<open>a\<close> without it.\<close>

definition retab :: "ptr list \<Rightarrow> kernel \<Rightarrow> kernel" where
  "retab a s = s\<lparr>os_active_TCB := a\<rparr>"

lemma retab_fields [simp]:
  "p_lnk (retab a s) = p_lnk s" "p_rlnk (retab a s) = p_rlnk s" "p_dlnk (retab a s) = p_dlnk s"
  "p_blnk (retab a s) = p_blnk s" "delta_time (retab a s) = delta_time s" "prio (retab a s) = prio s"
  "state (retab a s) = state s" "cb_type (retab a s) = cb_type s" "os_active_TCB (retab a s) = a"
  "p_mlnk (retab a s) = p_mlnk s" "level (retab a s) = level s" "owner (retab a s) = owner s"
  "ret0 (retab a s) = ret0 s" "run (retab a s) = run s" "new_tsk (retab a s) = new_tsk s"
  "is_sem_mbx (retab a s) = is_sem_mbx s" "is_head (retab a s) = is_head s"
  by (auto simp: retab_def is_sem_mbx_def is_head_def fun_eq_iff)

lemma retab_retab [simp]: "retab a (retab b s) = retab a s" "retab (os_active_TCB s) s = s"
  by (simp_all add: retab_def)

lemma put_prio_search_retab:
  "put_prio_search s pr p c = Some r \<Longrightarrow> put_prio_search (retab a s) pr p c = Some r"
proof (induction rule: put_prio_search.raw_induct [rotated 1, consumes 1, case_names loop])
  case (loop f s pr p c r)
  show ?case
  proof (cases "c \<noteq> NULL \<and> pr \<le> prio s c")
    case True
    then show ?thesis using loop by (subst put_prio_search.simps) simp
  next
    case False
    then show ?thesis using loop(2) by (subst put_prio_search.simps) auto
  qed
qed

lemma put_prio_retab:
  assumes "rt_put_prio h t s = Some s'"
  shows "rt_put_prio h t (retab a s) = Some (retab a s')"
proof -
  obtain b c where p: "put_prio_search s (prio s t) h (p_lnk s h) = Some (b, c)"
    using assms by (auto simp: rt_put_prio_def bind_eq_Some_conv)
  have "put_prio_search (retab a s) (prio s t) h (p_lnk s h) = Some (b, c)" by (rule put_prio_search_retab [OF p])
  then show ?thesis using assms p by (auto simp: rt_put_prio_def retab_def is_sem_mbx_def Let_def)
qed

lemma get_first_retab: "rt_get_first h s = Some (t, s') \<Longrightarrow> rt_get_first h (retab a s) = Some (t, retab a s')"
  by (auto simp: rt_get_first_def Let_def retab_def is_sem_mbx_def split: if_splits)

lemma rmv_dly_retab: "rt_rmv_dly t (retab a s) = retab a (rt_rmv_dly t s)"
  by (simp add: rt_rmv_dly_def Let_def retab_def)

lemma sched_untask:
  assumes Q: "queues s q y" "y = NULL \<or> y = p" "\<And>h. p \<notin> set (q h)" and D: "delays s ds" "p \<notin> fst ` set ds"
    "\<And>t k. (t, k) \<in> set ds \<Longrightarrow> 0 < k" and P: "\<And>h. by_prio (prio s) (q h)"
    and X: "\<And>t h. t \<in> X \<Longrightarrow> t \<notin> set (q h)"
    and st: "\<And>t. is_task s t \<Longrightarrow> t \<notin> insert p X \<Longrightarrow> (t \<in> set (q OS_RDY) \<longleftrightarrow> state s t = READY) \<and>
        ((\<exists>h. h \<noteq> OS_RDY \<and> t \<in> set (q h)) \<longleftrightarrow> waiting (state s t)) \<and>
        (t \<in> fst ` set ds \<longrightarrow> blocked (state s t)) \<and> state s t \<noteq> RUNNING"
    and a: "\<And>t. is_task (retab a s) t \<longleftrightarrow> is_task s t \<and> t \<noteq> p"
  shows "sched (retab a s) q ds X"
proof (rule schedI)
  show "queues (retab a s) q NULL" using Q a unfolding queues_def by auto
  show "delays (retab a s) ds" using D(1,2) a unfolding delays_def by auto
qed (use D P X st a in simp_all)

lemma is_task_untask:
  assumes "i < length (os_active_TCB s)" "os_active_TCB s ! i = p" "p \<noteq> OS_IDLE" "p \<noteq> NULL"
    "\<And>j. j < length (os_active_TCB s) \<Longrightarrow> os_active_TCB s ! j = p \<Longrightarrow> j = i"
  shows "is_task (retab ((os_active_TCB s)[i := NULL]) s) t \<longleftrightarrow> is_task s t \<and> t \<noteq> p"
proof -
  have "t \<in> set ((os_active_TCB s)[i := NULL]) \<longleftrightarrow> t \<in> set (os_active_TCB s) \<and> t \<noteq> p" if "t \<noteq> NULL"
  proof -
    have "t \<in> set ((os_active_TCB s)[i := NULL]) \<longleftrightarrow> (\<exists>j<length (os_active_TCB s). j \<noteq> i \<and> os_active_TCB s ! j = t)"
      using that assms(1) by (auto simp: in_set_conv_nth nth_list_update)
    then show ?thesis using assms(2,5) by (auto simp: in_set_conv_nth)
  qed
  then show ?thesis using assms(3,4) by (auto simp: is_task_def)
qed

text \<open>The running task leaves the table; another task leaves its lists and the table.\<close>

lemma sched_untask_run:
  assumes S: "sched s q ds X" and p: "p \<in> X" "p \<notin> fst ` set ds"
    and a: "\<And>t. is_task (retab a s) t \<longleftrightarrow> is_task s t \<and> t \<noteq> p"
  shows "sched (retab a s) q ds (X - {p})"
proof -
  note D = schedD [OF S]
  show ?thesis
    by (rule sched_untask [OF D(1) disjI1 [OF refl] D(5) [OF p(1)] D(2) p(2) D(3,4) _ _ a])
      (use D(5-9) in \<open>auto simp del: imageE\<close>)
qed

lemma sched_rmv_task:
  assumes S: "sched s q ds X" and p: "is_task s p" "p \<notin> X"
    and a: "\<And>t. is_task (retab a s) t \<longleftrightarrow> is_task s t \<and> t \<noteq> p"
  obtains s1 where "rt_rmv_list p s = Some s1" "links_only s s1" "dly_only s1 (rt_rmv_dly p s1)"
    "sched (retab a (rt_rmv_dly p s1)) (\<lambda>h. removeAll p (q h)) (rmv_dly p ds) X"
proof -
  note D = schedD [OF S]
  obtain s1 y where s1: "rt_rmv_list p s = Some s1" "links_only s s1" "queues s1 (\<lambda>h. removeAll p (q h)) y"
    "y = NULL \<or> y = p"
  proof (cases "\<exists>h. p \<in> set (q h)")
    case True
    then obtain h where h: "p \<in> set (q h)" by blast
    have "q(h := remove1 p (q h)) = (\<lambda>h. removeAll p (q h))"
    proof (rule ext)
      fix h'
      have "p \<notin> set (q h')" if "h' \<noteq> h" using queues_disjoint [OF D(1) h] that by blast
      then show "(q(h := remove1 p (q h))) h' = removeAll p (q h')"
        using queues_distinct [OF D(1), of h] by (cases "h' = h") (simp_all add: distinct_remove1_removeAll)
    qed
    then show thesis using rt_rmv_list_queues [OF D(1) h] that by metis
  next
    case False
    then have "(\<lambda>h. removeAll p (q h)) = q" by auto
    moreover have "links_only s s" by (rule links_onlyI) simp
    ultimately show thesis using rt_rmv_list_absent [OF D(1) p(1)] False D(1) that by metis
  qed
  note f = links_only_fields [OF s1(2)]
  have t1: "is_task s1 p" using p(1) f by simp
  have D1: "delays s1 ds" using D(2) delays_links_only [OF s1(2)] by simp
  note d = rt_rmv_dly_delays [OF D1 t1]
  note g = dly_only_fields [OF d(1)]
  have mem: "t \<in> set (removeAll p (q h)) \<longleftrightarrow> t \<in> set (q h) \<and> t \<noteq> p" for t h by auto
  have a1: "is_task (retab a (rt_rmv_dly p s1)) t \<longleftrightarrow> is_task (rt_rmv_dly p s1) t \<and> t \<noteq> p" for t
    using a [of t] f g core_only_fields(1,17) [OF core_only_trans [OF links_only_core [OF s1(2)] dly_only_core [OF d(1)]]]
    by (simp add: is_task_def)
  have "sched (retab a (rt_rmv_dly p s1)) (\<lambda>h. removeAll p (q h)) (rmv_dly p ds) X"
  proof (rule sched_untask [OF _ s1(4) _ d(2) _ _ _ _ _ a1])
    show "queues (rt_rmv_dly p s1) (\<lambda>h. removeAll p (q h)) y" using s1(3) queues_dly_only [OF d(1)] by simp
    show "0 < k" if "(t, k) \<in> set (rmv_dly p ds)" for t k using D(3) that by (auto simp: rmv_dly_def)
    show "by_prio (prio (rt_rmv_dly p s1)) (removeAll p (q h))" for h
    proof -
      have "removeAll p (q h) = remove1 p (q h)" using queues_distinct [OF D(1)] by (simp add: distinct_remove1_removeAll)
      then show ?thesis using by_prio_remove1 [OF D(4)] by (simp add: f g)
    qed
    show "t \<notin> set (removeAll p (q h))" if "t \<in> X" for t h using D(5) [OF that] by simp
    fix t assume t: "is_task (rt_rmv_dly p s1) t" "t \<notin> insert p X"
    then have t': "is_task s t" "t \<notin> X" "t \<noteq> p" by (simp_all add: f g)
    show "(t \<in> set (removeAll p (q OS_RDY)) \<longleftrightarrow> state (rt_rmv_dly p s1) t = READY) \<and>
        ((\<exists>h. h \<noteq> OS_RDY \<and> t \<in> set (removeAll p (q h))) \<longleftrightarrow> waiting (state (rt_rmv_dly p s1) t)) \<and>
        (t \<in> fst ` set (rmv_dly p ds) \<longrightarrow> blocked (state (rt_rmv_dly p s1) t)) \<and> state (rt_rmv_dly p s1) t \<noteq> RUNNING"
      unfolding mem using D(6-9) [OF t'(1,2)] t'(3) by (simp add: f g)
  qed simp_all
  then show thesis using that s1(1,2) d(1) by blast
qed


section \<open>Giving up the mutexes\<close>

text \<open>A mutex of the task, the first in its list, becomes free or goes to a waiting task.\<close>

lemma mutexes_unowned:
  assumes M: "mutexes s q own" and m: "cb_type s m = MUCB" "level s m = 0"
  shows "mutexes (set_p_mlnk m v (set_owner m w s)) q own"
proof -
  have tk: "is_task (set_p_mlnk m v (set_owner m w s)) = is_task s" by (simp add: is_task_def fun_eq_iff)
  have "m \<notin> set (own t) \<and> t \<noteq> m" if "is_task s t" for t
    using that mutexesD(3) [OF M that, of m] m MUCB_not_task [OF m(1)] by auto
  moreover have "{x. cb_type s x = MUCB \<and> level s x \<noteq> 0 \<and> ((owner s)(m := w)) x = t} =
      {x. cb_type s x = MUCB \<and> level s x \<noteq> 0 \<and> owner s x = t}" for t using m by auto
  ultimately show ?thesis using M m unfolding mutexes_def tk by auto
qed

lemma mutexes_give_up:
  assumes M: "mutexes (set_p_mlnk p c s) q own" and p: "is_task s p" "own p = m # ms"
  shows "c = m" "cb_type s m = MUCB" "level s m \<noteq> 0" "owner s m = p" "m \<noteq> NULL" "m \<noteq> p" "m \<notin> set ms"
    "q' m = [] \<Longrightarrow> (\<And>x. q x = [] \<Longrightarrow> q' x = []) \<Longrightarrow>
      mutexes (set_p_mlnk p (p_mlnk s m) (set_p_mlnk m NULL (set_owner m NULL (set_level m 0 s)))) q' (own(p := ms))"
    "is_task s t \<Longrightarrow> t \<noteq> p \<Longrightarrow> (\<And>x. x \<noteq> m \<Longrightarrow> q x = [] \<Longrightarrow> q' x = []) \<Longrightarrow>
      mutexes (set_p_mlnk p (p_mlnk s m) (mut_take m t s)) q' (own(p := ms, t := m # own t))"
proof -
  let ?s0 = "set_p_mlnk p c s"
  have tk: "is_task ?s0 = is_task s" by (simp add: is_task_def fun_eq_iff)
  have p0: "is_task ?s0 p" using p(1) by (simp add: tk)
  note D = mutexesD [OF M]
  show c: "c = m" and mn: "m \<noteq> NULL" using D(1) [OF p0] p(2) by simp_all
  have m: "cb_type ?s0 m = MUCB" "level ?s0 m \<noteq> 0" "owner ?s0 m = p" using D(3) [OF p0, of m] p(2) by auto
  then show "cb_type s m = MUCB" "level s m \<noteq> 0" "owner s m = p" by simp_all
  have mt: "\<not> is_task s m" using MUCB_not_task [OF m(1)] tk by simp
  then show mp: "m \<noteq> p" using p(1) by auto
  show "m \<notin> set ms" using D(2) [OF p0] p(2) by simp
  have rm: "remove1 m (own p) = ms" using p(2) by simp
  obtain f where f: "mut_unlink p m (set_level m 0 ?s0) = Some (p_mlnk_update (\<lambda>_. f) (set_level m 0 ?s0))"
    "\<And>q'. q' m = [] \<Longrightarrow> (\<And>x. q x = [] \<Longrightarrow> q' x = []) \<Longrightarrow>
       mutexes (p_mlnk_update (\<lambda>_. f) (set_level m 0 ?s0)) q' (own(p := ms))"
    "\<And>x q'. (\<And>x. x \<noteq> m \<Longrightarrow> q x = [] \<Longrightarrow> q' x = []) \<Longrightarrow> x \<noteq> NULL \<Longrightarrow> is_task ?s0 x \<Longrightarrow>
       mutexes (mut_take m x (p_mlnk_update (\<lambda>_. f) (set_level m 0 ?s0))) q'
         ((own(p := ms))(x := m # (own(p := ms)) x))"
    using mut_unlink_mutexes [OF M m p0, of 0, unfolded rm] by metis
  have "mut_unlink p m (set_level m 0 ?s0) = Some (set_p_mlnk p (p_mlnk s m) (set_level m 0 ?s0))"
    using c mp by (simp add: mut_unlink_def)
  then have "p_mlnk_update (\<lambda>_. f) (set_level m 0 ?s0) = set_p_mlnk p (p_mlnk s m) (set_level m 0 ?s0)"
    using f(1) by simp
  then have e: "p_mlnk_update (\<lambda>_. f) (set_level m 0 ?s0) = set_p_mlnk p (p_mlnk s m) (set_level m 0 s)"
    by simp
  note f2 = f(2) [unfolded e] and f3 = f(3) [unfolded e tk]
  show "mutexes (set_p_mlnk p (p_mlnk s m) (set_p_mlnk m NULL (set_owner m NULL (set_level m 0 s)))) q' (own(p := ms))"
    if q': "q' m = []" "\<And>x. q x = [] \<Longrightarrow> q' x = []"
  proof -
    have "mutexes (set_p_mlnk m NULL (set_owner m NULL (set_p_mlnk p (p_mlnk s m) (set_level m 0 s)))) q' (own(p := ms))"
      by (rule mutexes_unowned [OF f2]) (use q' m in simp_all)
    then show ?thesis
      by (rule mutexes_cong) (use mp in \<open>auto simp: is_task_def fun_eq_iff\<close>)
  qed
  show "mutexes (set_p_mlnk p (p_mlnk s m) (mut_take m t s)) q' (own(p := ms, t := m # own t))"
    if t: "is_task s t" "t \<noteq> p" and q': "\<And>x. x \<noteq> m \<Longrightarrow> q x = [] \<Longrightarrow> q' x = []"
  proof -
    have tn: "t \<noteq> NULL" "t \<noteq> m" using t(1) mt by (auto simp: is_task_def)
    have "mutexes (mut_take m t (set_p_mlnk p (p_mlnk s m) (set_level m 0 s))) q' ((own(p := ms))(t := m # (own(p := ms)) t))"
      by (rule f3 [OF q' tn(1) t(1)])
    then have "mutexes (set_p_mlnk p (p_mlnk s m) (mut_take m t s)) q' ((own(p := ms))(t := m # (own(p := ms)) t))"
      by (rule mutexes_cong) (use mp tn t in \<open>auto simp: is_task_def mut_take_def fun_eq_iff\<close>)
    then show ?thesis using t(2) by simp
  qed
qed


text \<open>What the loop changes at most.\<close>

definition gives_up :: "ptr set \<Rightarrow> (ptr \<Rightarrow> ptr list) \<Rightarrow> (ptr \<times> nat) list \<Rightarrow> kernel \<Rightarrow>
    (ptr \<Rightarrow> ptr list) \<Rightarrow> (ptr \<times> nat) list \<Rightarrow> kernel \<Rightarrow> bool" where
  "gives_up X q ds s q' ds' s' \<longleftrightarrow> plain s' = plain s \<and> prio s' = prio s \<and> run s' = run s \<and> new_tsk s' = new_tsk s \<and>
     (\<forall>x. state s' x = state s x \<or> state s' x = READY) \<and> (\<forall>x\<in>X. state s' x = state s x) \<and>
     (\<forall>x. x \<noteq> OS_RDY \<longrightarrow> set (q' x) \<subseteq> set (q x)) \<and> set (q OS_RDY) \<subseteq> set (q' OS_RDY) \<and>
     fst ` set ds' \<subseteq> fst ` set ds"

lemma gives_up_refl [simp]: "gives_up X q ds s q ds s"
  by (simp add: gives_up_def)

lemma gives_upD:
  assumes "gives_up X q ds s q' ds' s'"
  shows "plain s' = plain s" "prio s' = prio s" "run s' = run s" "new_tsk s' = new_tsk s"
    "state s' x = state s x \<or> state s' x = READY" "x \<in> X \<Longrightarrow> state s' x = state s x"
    "x \<noteq> OS_RDY \<Longrightarrow> set (q' x) \<subseteq> set (q x)" "set (q OS_RDY) \<subseteq> set (q' OS_RDY)" "fst ` set ds' \<subseteq> fst ` set ds"
  using assms unfolding gives_up_def by simp_all

lemma gives_up_trans:
  assumes "gives_up X q ds s q1 ds1 s1" "gives_up X q1 ds1 s1 q2 ds2 s2"
  shows "gives_up X q ds s q2 ds2 s2"
proof -
  note a = gives_upD [OF assms(1)] and b = gives_upD [OF assms(2)]
  have "state s2 x = state s x \<or> state s2 x = READY" for x using a(5) [of x] b(5) [of x] by metis
  then show ?thesis
    unfolding gives_up_def
    using a(1-4) b(1-4) a(6) b(6) subset_trans [OF b(7) a(7)] subset_trans [OF a(8) b(8)] subset_trans [OF b(9) a(9)]
    by simp
qed

lemma retab_mut_take: "retab a (mut_take m t s) = mut_take m t (retab a s)"
  by (simp add: retab_def mut_take_def)

text \<open>The first task that waits for the mutex owns it and is ready; without one the mutex is free.\<close>

definition passed_on :: "(ptr \<Rightarrow> ptr list) \<Rightarrow> kernel \<Rightarrow> ptr \<Rightarrow> bool" where
  "passed_on q s m \<longleftrightarrow> (case q m of [] \<Rightarrow> level s m = 0
     | t # _ \<Rightarrow> level s m = 1 \<and> owner s m = t \<and> state s t = READY)"

lemma release_mutex_free:
  assumes S: "sched (retab a s) q ds X" and M: "mutexes (set_p_mlnk p c s) q own" and p: "is_task s p" "own p = m # ms"
    and e: "q m = []"
  obtains s' where "release_mutex m s = Some (p_mlnk s m, s')" "sched (retab a s') q ds X"
    "mutexes (set_p_mlnk p (p_mlnk s m) s') q (own(p := ms))" "passed_on q s' m" "gives_up X q ds s q ds s'"
    "level s' = (level s)(m := 0)" "owner s' = (owner s)(m := NULL)"
proof -
  note g = mutexes_give_up [OF M p]
  define s' where "s' = set_p_mlnk m NULL (set_owner m NULL (set_level m 0 s))"
  have "is_head (retab a s) m" using is_sem_MUCB [OF g(2)] by (simp add: is_head_def)
  then have "p_lnk s m = NULL" using p_lnk_head [OF schedD(1) [OF S]] e by simp
  then have r: "release_mutex m s = Some (p_mlnk s m, s')" by (simp add: release_mutex_def s'_def)
  have S': "sched (retab a s') q ds X" using S sched_cong [of "retab a s'" "retab a s"] by (simp add: s'_def)
  have M': "mutexes (set_p_mlnk p (p_mlnk s m) s') q (own(p := ms))" unfolding s'_def by (rule g(8)) (use e in simp_all)
  show thesis
    by (rule that [OF r S' M']) (use e in \<open>simp_all add: passed_on_def gives_up_def s'_def\<close>)
qed

lemma release_mutex_waited:
  assumes S: "sched (retab a s) q ds X" and M: "mutexes (set_p_mlnk p c s) q own" and p: "is_task s p" "own p = m # ms"
    and a: "\<And>t. is_task (retab a s) t \<longleftrightarrow> is_task s t \<and> t \<noteq> p" and e: "q m = t # B"
  obtains s' where "release_mutex m s = Some (p_mlnk s m, s')"
    "sched (retab a s') (q(m := B, OS_RDY := ins_prio (prio s) t (q OS_RDY))) (rmv_dly t ds) X"
    "mutexes (set_p_mlnk p (p_mlnk s m) s') (q(m := B, OS_RDY := ins_prio (prio s) t (q OS_RDY))) (own(p := ms, t := m # own t))"
    "passed_on q s' m" "gives_up X q ds s (q(m := B, OS_RDY := ins_prio (prio s) t (q OS_RDY))) (rmv_dly t ds) s'"
    "level s' = (level s)(m := 1)" "owner s' = (owner s)(m := t)" "t \<noteq> p"
proof -
  note g = mutexes_give_up [OF M p]
  let ?f = "rt_ret_val t 0" and ?g = "set_state t READY" and ?b = "os_active_TCB s"
  let ?q = "q(m := B, OS_RDY := ins_prio (prio s) t (q OS_RDY))"
  have sem: "is_sem_mbx (retab a s) m" using is_sem_MUCB [OF g(2)] by simp
  have tX: "t \<notin> X" using schedD(5) [OF S, of t m] e by auto
  have mr: "m \<noteq> OS_RDY" using sem_head_facts(3) [OF schedD(1) [OF S] sem] .
  obtain s1 s2 where w: "rt_get_first m (retab a s) = Some (t, s1)" "links_only (retab a s) s1"
    "dly_only (?f s1) (rt_rmv_dly t (?f s1))"
    "rt_put_prio OS_RDY t (?g (rt_rmv_dly t (?f s1))) = Some s2" "links_only (?g (rt_rmv_dly t (?f s1))) s2"
    "sched s2 (q(m := B, OS_RDY := ins_prio (prio (retab a s)) t (q OS_RDY))) (rmv_dly t ds) X"
    "is_task (retab a s) t" "state s2 = (state (retab a s))(t := READY)"
    by (rule wake_ready [OF S sem e tX, of ?f ?g]) auto
  have t: "is_task s t" "t \<noteq> p" "t \<noteq> NULL" "t \<noteq> m"
    using w(7) a [of t] MUCB_not_task [OF g(2)] by (auto simp: is_task_def)
  have c: "core_only (retab a s) s2"
    by (rule core_only_trans [OF links_only_core [OF w(2)] core_only_trans [OF core_only_steps(2)
          core_only_trans [OF dly_only_core [OF w(3)] core_only_trans [OF core_only_steps(1) links_only_core [OF w(5)]]]]])
  note cf = core_only_fields [OF c]
  have n: "new_tsk s2 = new_tsk s"
  proof -
    have "new_tsk s1 = new_tsk s" using w(2) by (auto simp: links_only_def)
    moreover have "new_tsk (rt_rmv_dly t (?f s1)) = new_tsk (?f s1)" using w(3) unfolding dly_only_def by fastforce
    moreover have "new_tsk s2 = new_tsk (?g (rt_rmv_dly t (?f s1)))" using w(5) unfolding links_only_def by fastforce
    ultimately show ?thesis by (simp add: rt_ret_val_def)
  qed
  have r: "?f (retab ?b s1) = retab ?b (?f s1)" "?g (retab ?b x) = retab ?b (?g x)" for x
    by (simp_all add: rt_ret_val_def retab_def)
  have k: "rt_get_first m s = Some (t, retab ?b s1)" "rt_put_prio OS_RDY t (?g (rt_rmv_dly t (?f (retab ?b s1)))) = Some (retab ?b s2)"
    using get_first_retab [OF w(1), of ?b] put_prio_retab [OF w(4), of ?b] by (simp_all add: r rmv_dly_retab)
  define s' where "s' = mut_take m t (retab ?b s2)"
  have "p_lnk s m \<noteq> NULL"
    using p_lnk_head [OF schedD(1) [OF S], of m] sem e t(3) by (simp add: is_head_def)
  then have rel: "release_mutex m s = Some (p_mlnk s m, s')"
    using k cf(16) t(4) by (simp add: release_mutex_def s'_def mut_take_def Let_def)
  have "retab a s2 = s2" using cf(17) retab_retab(2) [of s2] by simp
  then have "retab a s' = mut_take m t s2" by (simp add: s'_def retab_mut_take)
  then have S': "sched (retab a s') ?q (rmv_dly t ds) X"
    using w(6) sched_cong [of "mut_take m t s2" s2 X ?q "rmv_dly t ds"] by (simp add: mut_take_def)
  have M': "mutexes (set_p_mlnk p (p_mlnk s m) s') ?q (own(p := ms, t := m # own t))"
  proof (rule mutexes_cong [OF g(9) [OF t(1,2), of "q(m := B)"]])
    fix x assume "cb_type (set_p_mlnk p (p_mlnk s m) (mut_take m t s)) x = MUCB" "(q(m := B)) x = []"
    moreover have "cb_type s x = MUCB \<Longrightarrow> x \<noteq> OS_RDY"
      using sem_head_facts(3) [OF schedD(1) [OF S], of x] is_sem_MUCB [of s x] by simp
    ultimately show "?q x = []" by (simp add: mut_take_def)
  qed (use cf in \<open>auto simp: s'_def mut_take_def is_task_def fun_eq_iff\<close>)
  have b: "books (retab ?b s2) = books s"
    using get_first_books [OF k(1)] put_prio_books [OF k(2)] by simp
  have "plain s' = plain s" using books_plain [OF b] by (simp add: s'_def mut_take_def)
  then have "gives_up X q ds s ?q (rmv_dly t ds) s'"
    using n cf w(8) tX mr e by (auto simp: gives_up_def s'_def mut_take_def)
  then show thesis
    by (rule that [OF rel S' M', rotated]) (use e w(8) cf t in \<open>simp_all add: passed_on_def s'_def mut_take_def\<close>)
qed


text \<open>The loop: each mutex is passed on.\<close>

lemma release_mutexes_ok:
  assumes "sched (retab a s) q ds X" "mutexes (set_p_mlnk p c s) q own" "is_task s p" "own p = ms"
    "\<And>t. is_task (retab a s) t \<longleftrightarrow> is_task s t \<and> t \<noteq> p"
  shows "\<exists>s' q' ds' own'. release_mutexes c s = Some s' \<and> sched (retab a s') q' ds' X \<and>
    mutexes (set_p_mlnk p NULL s') q' own' \<and> own' p = [] \<and> gives_up X q ds s q' ds' s' \<and>
    (\<forall>m\<in>set ms. passed_on q s' m) \<and> (\<forall>m. m \<notin> set ms \<longrightarrow> level s' m = level s m \<and> owner s' m = owner s m)"
  using assms
proof (induction ms arbitrary: s q ds own c)
  case Nil
  have "is_task (set_p_mlnk p c s) p" using Nil.prems(3) by (simp add: is_task_def)
  then have c: "c = NULL" using mutexesD(1) [OF Nil.prems(2)] Nil.prems(4) by fastforce
  have "release_mutexes c s = Some s" using c by (simp add: release_mutexes.simps)
  moreover have "mutexes (set_p_mlnk p NULL s) q own" using Nil.prems(2) unfolding c .
  moreover have "(\<forall>m\<in>set []. passed_on q s m) \<and> (\<forall>m. m \<notin> set [] \<longrightarrow> level s m = level s m \<and> owner s m = owner s m)"
    by simp
  ultimately show ?case using Nil.prems(1,4) gives_up_refl by blast
next
  case (Cons m ms)
  note g = mutexes_give_up [OF Cons.prems(2-4)]
  obtain s1 q1 ds1 own1 where st: "release_mutex m s = Some (p_mlnk s m, s1)" "sched (retab a s1) q1 ds1 X"
    "mutexes (set_p_mlnk p (p_mlnk s m) s1) q1 own1" "own1 p = ms" "passed_on q s1 m" "gives_up X q ds s q1 ds1 s1"
    "\<And>x. x \<noteq> m \<Longrightarrow> level s1 x = level s x \<and> owner s1 x = owner s x" "\<And>x. x \<noteq> m \<Longrightarrow> x \<noteq> OS_RDY \<Longrightarrow> q1 x = q x"
  proof (cases "q m")
    case Nil
    show thesis
    proof (rule release_mutex_free [OF Cons.prems(1-4) Nil])
      fix s1 assume r: "release_mutex m s = Some (p_mlnk s m, s1)" "sched (retab a s1) q ds X"
        "mutexes (set_p_mlnk p (p_mlnk s m) s1) q (own(p := ms))" "passed_on q s1 m" "gives_up X q ds s q ds s1"
        "level s1 = (level s)(m := 0)" "owner s1 = (owner s)(m := NULL)"
      show thesis by (rule that [OF r(1-3) _ r(4,5)]) (simp_all add: r(6,7))
    qed
  next
    case (Cons t B)
    let ?q = "q(m := B, OS_RDY := ins_prio (prio s) t (q OS_RDY))"
    show thesis
    proof (rule release_mutex_waited [OF Cons.prems(1-5) Cons])
      fix s1 assume r: "release_mutex m s = Some (p_mlnk s m, s1)" "sched (retab a s1) ?q (rmv_dly t ds) X"
        "mutexes (set_p_mlnk p (p_mlnk s m) s1) ?q (own(p := ms, t := m # own t))" "passed_on q s1 m"
        "gives_up X q ds s ?q (rmv_dly t ds) s1" "level s1 = (level s)(m := 1)" "owner s1 = (owner s)(m := t)" "t \<noteq> p"
      show thesis by (rule that [OF r(1-3) _ r(4,5)]) (use r(8) in \<open>simp_all add: r(6,7)\<close>)
    qed
  qed
  note gu = gives_upD [OF st(6)]
  have tk: "is_task s1 = is_task s" by (rule plain_same(3) [OF gu(1)])
  have a1: "is_task (retab a s1) t \<longleftrightarrow> is_task s1 t \<and> t \<noteq> p" for t
    using Cons.prems(5) [of t] plain_fields(1) [OF gu(1)] tk by (simp add: is_task_def)
  obtain s2 q2 ds2 own2 where ih: "release_mutexes (p_mlnk s m) s1 = Some s2" "sched (retab a s2) q2 ds2 X"
    "mutexes (set_p_mlnk p NULL s2) q2 own2" "own2 p = []" "gives_up X q1 ds1 s1 q2 ds2 s2"
    "\<forall>m\<in>set ms. passed_on q1 s2 m" "\<And>m. m \<notin> set ms \<Longrightarrow> level s2 m = level s1 m \<and> owner s2 m = owner s1 m"
    using Cons.IH [OF st(2,3) _ st(4) a1] Cons.prems(3) tk by metis
  have "release_mutexes c s = Some s2"
    using g(5) st(1) ih(1) release_mutexes.simps [of m s] by (simp add: g(1))
  moreover have "passed_on q s2 x" if "x \<in> set (m # ms)" for x
  proof (cases "x = m")
    case True
    have "state s1 t = READY \<Longrightarrow> state s2 t = READY" for t using gives_upD(5) [OF ih(5), of t] by metis
    then show ?thesis using True st(5) ih(7) [OF g(7)] by (auto simp: passed_on_def split: list.splits)
  next
    case False
    have p0: "is_task (set_p_mlnk p c s) p" using Cons.prems(3) by (simp add: is_task_def)
    have "cb_type s x = MUCB" using mutexesD(3) [OF Cons.prems(2) p0, of x] Cons.prems(4) that by simp
    then have "x \<noteq> OS_RDY" using sem_head_facts(3) [OF schedD(1) [OF Cons.prems(1)], of x] is_sem_MUCB [of s x] by simp
    then show ?thesis using False that ih(6) st(8) by (auto simp: passed_on_def)
  qed
  moreover have "level s2 x = level s x \<and> owner s2 x = owner s x" if "x \<notin> set (m # ms)" for x
    using that ih(7) [of x] st(7) [of x] by simp
  ultimately show ?case using ih(2-4) gives_up_trans [OF st(6) ih(5)] by blast
qed

section \<open>Deleting the task\<close>

text \<open>The number and the blocks of the task become free.\<close>

lemma drop_task_eq: "drop_task (CB b) tid s = s\<lparr>os_active_TCB := (os_active_TCB s)[unat tid - 1 := NULL],
    box_free := box_free (drop_task (CB b) tid s), stack := (stack s)(CB b := 0)\<rparr>"
  by (simp add: drop_task_def free_box_def Let_def)

lemma drop_task_fields [simp]:
  "os_active_TCB (drop_task p tid s) = (os_active_TCB s)[unat tid - 1 := NULL]"
  "cb_type (drop_task p tid s) = cb_type s" "state (drop_task p tid s) = state s" "prio (drop_task p tid s) = prio s"
  "run (drop_task p tid s) = run s" "new_tsk (drop_task p tid s) = new_tsk s" "p_mlnk (drop_task p tid s) = p_mlnk s"
  "level (drop_task p tid s) = level s" "owner (drop_task p tid s) = owner s" "p_lnk (drop_task p tid s) = p_lnk s"
  "p_rlnk (drop_task p tid s) = p_rlnk s" "p_dlnk (drop_task p tid s) = p_dlnk s" "p_blnk (drop_task p tid s) = p_blnk s"
  "delta_time (drop_task p tid s) = delta_time s" "task_id (drop_task p tid s) = task_id s"
  "mp_tcb (drop_task p tid s) = mp_tcb s" "mp_stk (drop_task p tid s) = mp_stk s" "box_mem (drop_task p tid s) = box_mem s"
  "psq_first (drop_task p tid s) = psq_first s" "psq_last (drop_task p tid s) = psq_last s"
  "psq_count (drop_task p tid s) = psq_count s" "psq_size (drop_task p tid s) = psq_size s"
  "psq_id (drop_task p tid s) = psq_id s" "psq_arg (drop_task p tid s) = psq_arg s"
  "tmr_next (drop_task p tid s) = tmr_next s" "tmr_state (drop_task p tid s) = tmr_state s"
  "tmr_type (drop_task p tid s) = tmr_type s" "tmr_tcnt (drop_task p tid s) = tmr_tcnt s"
  "tmr_icnt (drop_task p tid s) = tmr_icnt s" "os_timer_head (drop_task p tid s) = os_timer_head s"
  by (simp_all add: drop_task_def free_box_def Let_def split: ptr.split)

lemma drop_task_pool:
  assumes "mp_stk s \<noteq> mp_tcb s"
  shows "box_free (drop_task (CB b) tid s) (mp_tcb s) =
    (if b \<in> set (box_mem s (mp_tcb s)) then b # box_free s (mp_tcb s) else box_free s (mp_tcb s))"
  using assms by (simp add: drop_task_def free_box_def Let_def)

lemma mutexes_untask:
  assumes M: "mutexes (set_p_mlnk p NULL s) q own" and p: "is_task s p" "own p = []"
    and s': "\<And>t. is_task s' t \<longleftrightarrow> is_task s t \<and> t \<noteq> p" "cb_type s' = cb_type s" "p_mlnk s' = p_mlnk s"
      "level s' = level s" "owner s' = owner s" "\<And>m. cb_type s m = MUCB \<Longrightarrow> q m = [] \<Longrightarrow> q' m = []"
  shows "mutexes s' q' own"
proof -
  have tk: "is_task (set_p_mlnk p NULL s) = is_task s" by (simp add: is_task_def fun_eq_iff)
  note D = mutexesD [OF M, unfolded tk]
  have no: "owner s m \<noteq> p" if "cb_type s m = MUCB" "level s m \<noteq> 0" for m
    using D(3) [OF p(1), of m] p(2) that by auto
  have ch: "chain (p_mlnk s) (p_mlnk s t) (own t) NULL" if "is_task s t" "t \<noteq> p" for t
  proof -
    have "p \<notin> set (own t)" using D(3) [OF that(1), of p] MUCB_not_task [of s p] p(1) by auto
    then show ?thesis using D(1) [OF that(1)] that(2) by simp
  qed
  show ?thesis
    unfolding mutexes_def s'(2-5)
  proof (intro conjI allI impI)
    fix t assume "is_task s' t"
    then have t: "is_task s t" "t \<noteq> p" by (simp_all add: s'(1))
    show "chain (p_mlnk s) (p_mlnk s t) (own t) NULL" by (rule ch [OF t])
    show "distinct (own t)" by (rule D(2) [OF t(1)])
    show "set (own t) = {m. cb_type s m = MUCB \<and> level s m \<noteq> 0 \<and> owner s m = t}" using D(3) [OF t(1)] by auto
  next
    fix m assume m: "cb_type s m = MUCB" "level s m \<noteq> 0"
    show "is_task s' (owner s m)" using D(4) [of m] no [of m] m by (simp add: s'(1))
  next
    fix m assume m: "cb_type s m = MUCB" "level s m = 0"
    show "q' m = []" using D(5) [of m] s'(6) m by simp
  qed
qed


text \<open>The tables after the task has been dropped.\<close>

lemma untask_tables:
  assumes T: "tables_ok s" and i: "i < length (os_active_TCB s)" "os_active_TCB s ! i = CB b"
    and rq: "\<forall>x\<in>set (psq_items s). fst x \<noteq> CB b" and t: "cb_type s (CB b) = TCB"
    and s1: "plain s1 = plain s" and tid: "unat tid = Suc i"
    and s': "plain s' = plain (drop_task (CB b) tid s1)"
    and tk: "\<And>t. is_task s' t \<longleftrightarrow> is_task s t \<and> t \<noteq> CB b"
  shows "tables_ok s'"
proof -
  let ?d = "drop_task (CB b) tid s1"
  note f = plain_fields [OF s', unfolded drop_task_fields plain_fields [OF s1]]
  have act: "os_active_TCB s' = (os_active_TCB s)[i := NULL]" using f(3) tid by simp
  have ids: "length (os_active_TCB s) < 255"
    "\<And>j. j < length (os_active_TCB s) \<Longrightarrow> os_active_TCB s ! j \<noteq> NULL \<Longrightarrow> unat (task_id s (os_active_TCB s ! j)) = Suc j"
    using T by (simp_all add: tables_ok_def ids_ok_def)
  have "psq_inv s'"
    by (rule psq_inv_cong [of _ s]) (use T rq f tk in \<open>auto simp: tables_ok_def request_ok_def\<close>)
  moreover have "ids_ok s'"
    unfolding ids_ok_def act f(2)
  proof (intro conjI allI impI)
    fix j assume j: "j < length ((os_active_TCB s)[i := NULL])" "(os_active_TCB s)[i := NULL] ! j \<noteq> NULL"
    then have "j \<noteq> i" by auto
    then show "unat (task_id s ((os_active_TCB s)[i := NULL] ! j)) = Suc j" using ids(2) [of j] j by simp
  qed (use ids(1) in simp)
  moreover have "tcbs_ok s'"
  proof -
    have P: "0 \<notin> set (box_mem s (mp_tcb s))" "mp_stk s \<noteq> mp_tcb s" "distinct (box_free s (mp_tcb s))"
      "set (box_free s (mp_tcb s)) \<subseteq> set (box_mem s (mp_tcb s))"
      "\<forall>x\<in>set (box_free s (mp_tcb s)). x \<noteq> 0 \<and> free_addr s (CB x) \<and> \<not> is_sem_mbx s (CB x)"
      "length (box_free s (mp_tcb s)) \<le> length (filter (\<lambda>t. t = NULL) (os_active_TCB s))"
      using T by (simp_all add: tables_ok_def tcbs_ok_def Let_def)
    have b: "b \<notin> set (box_free s (mp_tcb s))" 
    proof -
      have "CB b \<in> set (os_active_TCB s)" using i by (metis nth_mem)
      then show ?thesis using P(5) by (auto simp: free_addr_def)
    qed
    have bf: "box_free s' (mp_tcb s) = (if b \<in> set (box_mem s (mp_tcb s)) then b # box_free s (mp_tcb s) else box_free s (mp_tcb s))"
      using drop_task_pool [of s1 b tid] plain_fields(10) [OF s'] plain_fields(10-12,19) [OF s1] P(2) by simp
    have sem: "is_sem_mbx s' x = is_sem_mbx s x" for x using f(1) by (simp add: is_sem_mbx_def)
    have once: "os_active_TCB s ! j = CB b \<Longrightarrow> j < length (os_active_TCB s) \<Longrightarrow> j = i" for j
      using ids(2) [of j] ids(2) [of i] i by simp
    have fr: "free_addr s' x" if "free_addr s x \<or> x = CB b" for x
    proof -
      have "x \<notin> set ((os_active_TCB s)[i := NULL])" if "x \<noteq> NULL"
      proof
        assume "x \<in> set ((os_active_TCB s)[i := NULL])"
        then obtain j where j: "j < length (os_active_TCB s)" "(os_active_TCB s)[i := NULL] ! j = x" by (auto simp: in_set_conv_nth)
        then have "j \<noteq> i" using that by auto
        then have "os_active_TCB s ! j = x" using j by simp
        then show False using \<open>free_addr s x \<or> x = CB b\<close> once [of j] j(1) \<open>j \<noteq> i\<close> by (auto simp: free_addr_def)
      qed
      then show ?thesis using that act by (auto simp: free_addr_def)
    qed
    have "filter (\<lambda>t. t = NULL) (os_active_TCB s) = filter (\<lambda>t. t = NULL) (((os_active_TCB s)[i := NULL])[i := CB b])"
      using i by (metis list_update_id list_update_overwrite)
    moreover have "Suc (length (filter (\<lambda>t. t = NULL) (((os_active_TCB s)[i := NULL])[i := CB b]))) =
        length (filter (\<lambda>t. t = NULL) ((os_active_TCB s)[i := NULL]))"
      by (rule filter_update) (use i(1) in simp_all)
    ultimately have "Suc (length (filter (\<lambda>t. t = NULL) (os_active_TCB s))) =
        length (filter (\<lambda>t. t = NULL) ((os_active_TCB s)[i := NULL]))" by simp
    moreover have "\<not> is_sem_mbx s (CB b)" using t by (simp add: is_sem_mbx_def cb_types)
    ultimately show ?thesis using P b fr by (auto simp: tcbs_ok_def Let_def f(11,12,19) bf act sem)
  qed
  ultimately show ?thesis by (simp add: tables_ok_def)
qed


text \<open>A task has one place in the table.\<close>

lemma task_place:
  assumes "tables_ok s" "i < length (os_active_TCB s)" "os_active_TCB s ! i = t" "t \<noteq> NULL"
  shows "unat (task_id s t) = Suc i" "j < length (os_active_TCB s) \<Longrightarrow> os_active_TCB s ! j = t \<Longrightarrow> j = i"
proof -
  have *: "unat (task_id s t) = Suc k" if "k < length (os_active_TCB s)" "os_active_TCB s ! k = t" for k
    using assms(1,4) that unfolding tables_ok_def ids_ok_def by blast
  show "unat (task_id s t) = Suc i" by (rule * [OF assms(2,3)])
  show "j < length (os_active_TCB s) \<Longrightarrow> os_active_TCB s ! j = t \<Longrightarrow> j = i"
    using * [of j] * [OF assms(2,3)] by simp
qed

text \<open>What both ways of deleting a task share: the mutexes are passed on and the task is dropped; what
  is left to do leaves the books as they are.\<close>

lemma delete_common:
  assumes T: "timers_ok s ts" "tables_ok s" "tasks_ok s"
    and i: "i < length (os_active_TCB s)" "os_active_TCB s ! i = p" "is_task s p" "unat tid = Suc i"
    and p: "p = CB b" and rq: "\<forall>x\<in>set (psq_items s). fst x \<noteq> p"
    and S: "sched (retab ((os_active_TCB s)[i := NULL]) s1) q ds X" and M: "mutexes s1 q own" and s1: "plain s1 = plain s"
  obtains s2 q2 ds2 own2 where "release_mutexes (p_mlnk s1 (p)) s1 = Some s2"
    "sched (drop_task p tid s2) q2 ds2 X" "gives_up X q ds s1 q2 ds2 s2"
    "\<forall>t. is_task (drop_task p tid s2) t \<longleftrightarrow> is_task s t \<and> t \<noteq> p" "tasks_ok (drop_task p tid s2)"
    "\<forall>m\<in>set (own p). passed_on q s2 m"
    "\<forall>s' q' ds'. kinv (switch_context s') q' ds' \<longrightarrow> books s' = books (drop_task p tid s2) \<longrightarrow>
       (\<forall>x. x \<noteq> OS_RDY \<longrightarrow> q' x = q2 x) \<longrightarrow> sysinv (switch_context s')"
proof -
  let ?p = p and ?a = "(os_active_TCB s)[i := NULL]"
  note f1 = plain_fields [OF s1]
  have ids: "j = i" if j: "os_active_TCB s ! j = ?p" "j < length (os_active_TCB s)" for j
    by (rule task_place(2) [OF T(2) i(1,2) _ j(2,1)]) (simp add: p)
  have u: "is_task (retab ?a s) t \<longleftrightarrow> is_task s t \<and> t \<noteq> ?p" for t
    by (rule is_task_untask [OF i(1,2)]) (use ids p in auto)
  have tk1: "is_task s1 = is_task s" by (rule plain_same(3) [OF s1])
  have a1: "is_task (retab ?a s1) t \<longleftrightarrow> is_task s1 t \<and> t \<noteq> ?p" for t
    using u [of t] f1(1) tk1 by (simp add: is_task_def)
  have p1: "is_task s1 ?p" using i(3) tk1 by simp
  have "set_p_mlnk ?p (p_mlnk s1 ?p) s1 = s1" by simp
  then have M1: "mutexes (set_p_mlnk ?p (p_mlnk s1 ?p) s1) q own" using M by metis
  obtain s2 q2 ds2 own2 where L: "release_mutexes (p_mlnk s1 ?p) s1 = Some s2" "sched (retab ?a s2) q2 ds2 X"
    "mutexes (set_p_mlnk ?p NULL s2) q2 own2" "own2 ?p = []" "gives_up X q ds s1 q2 ds2 s2"
    "\<forall>m\<in>set (own ?p). passed_on q s2 m"
    using release_mutexes_ok [OF S M1 p1 refl a1] by blast
  note g = gives_upD [OF L(5)] and f2 = plain_fields [OF gives_upD(1) [OF L(5)]]
  let ?d = "drop_task ?p tid s2"
  have act: "os_active_TCB ?d = ?a" using f1(3) f2(3) i(4) by simp
  have td: "is_task ?d t \<longleftrightarrow> is_task s t \<and> t \<noteq> ?p" for t
    using u [of t] act f1(1) f2(1) by (simp add: is_task_def)
  have Sd: "sched ?d q2 ds2 X" using L(2) sched_cong [of ?d "retab ?a s2"] act by simp
  have ok: "tasks_ok ?d"
    unfolding tasks_ok_def act td
  proof (intro conjI ballI)
    show "is_task s OS_IDLE" using T(3) by (simp add: tasks_ok_def)
    fix t assume t: "t \<in> set ?a"
    show "t = NULL \<or> is_task s t \<and> t \<noteq> ?p"
    proof (cases "t = NULL")
      case False
      have "t \<in> insert NULL (set (os_active_TCB s))" using t set_update_subset_insert [of "os_active_TCB s" i NULL] by blast
      moreover have "t \<noteq> ?p"
      proof
        assume e: "t = ?p"
        obtain j where j: "j < length (os_active_TCB s)" "?a ! j = ?p" using t e by (auto simp: in_set_conv_nth)
        then have "j \<noteq> i" using p i(1) by auto
        then show False using ids [of j] j by simp
      qed
      ultimately show ?thesis using False T(3) by (auto simp: tasks_ok_def)
    qed simp
  qed (simp add: p)
  have fin: "sysinv (switch_context s')"
    if K: "kinv (switch_context s') q' ds'" and b: "books s' = books ?d" and q': "\<And>x. x \<noteq> OS_RDY \<Longrightarrow> q' x = q2 x"
    for s' q' ds'
  proof -
    note pd = books_plain [OF b]
    note fb = books_fields [OF b] and bd = plain_fields [OF pd]
    have tk': "is_task s' t \<longleftrightarrow> is_task s t \<and> t \<noteq> ?p" for t using td [of t] plain_same(3) [OF pd] by simp
    have tk2: "is_task s2 = is_task s" using plain_same(3) [OF g(1)] tk1 by simp
    have "mutexes s' q' own2"
    proof (rule mutexes_untask [OF L(3) _ L(4)])
      show "q' m = []" if "cb_type s2 m = MUCB" "q2 m = []" for m
      proof -
        have "m \<noteq> OS_RDY" using sem_head_facts(3) [OF schedD(1) [OF L(2)], of m] is_sem_MUCB [of s2 m] that(1) by simp
        then show ?thesis using q' that(2) by simp
      qed
    qed (use i(3) tk' tk2 fb in simp_all)
    moreover have "plain s2 = plain s" using g(1) s1 by simp
    then have "tables_ok s'"
      by (intro untask_tables [OF T(2) i(1) i(2) [unfolded p] rq [unfolded p] _ _ i(4) pd [unfolded p] tk' [unfolded p]])
        (use i(3) p in \<open>simp_all add: is_task_def\<close>)
    moreover have "timers_ok s' ts"
      using T(1) timers_ok_cong [of s' s ts] bd f1 f2 by simp
    ultimately show ?thesis by (intro sysinvI [OF K]) simp_all
  qed
  have "\<forall>t. is_task ?d t \<longleftrightarrow> is_task s t \<and> t \<noteq> ?p" using td by blast
  moreover have "\<forall>s' q' ds'. kinv (switch_context s') q' ds' \<longrightarrow> books s' = books ?d \<longrightarrow>
      (\<forall>x. x \<noteq> OS_RDY \<longrightarrow> q' x = q2 x) \<longrightarrow> sysinv (switch_context s')" using fin by blast
  ultimately show thesis using that [OF L(1) Sd L(5) _ ok L(6)] by blast
qed


text \<open>The running task deletes itself: the first ready task runs.\<close>

lemma rt_tsk_delete_self:
  assumes I: "kinv s q ds" "mutexes s q own" "timers_ok s ts" "tables_ok s"
    and i: "i < length (os_active_TCB s)" "os_active_TCB s ! i = run s" "run s = CB b"
    and rq: "\<forall>x\<in>set (psq_items s). fst x \<noteq> run s" and tid: "tid = ucast (task_id s (run s))"
  obtains s' where "rt_tsk_delete tid s = Some (OS_R_OK, s')" "sysinv (switch_context s')"
    "os_active_TCB s' = (os_active_TCB s)[i := NULL]"
    "\<And>m t B. m \<in> set (own (run s)) \<Longrightarrow> level s' m = (case q m of [] \<Rightarrow> 0 | _ \<Rightarrow> 1) \<and> (q m = t # B \<longrightarrow> owner s' m = t \<and>
       state s' t \<in> {READY, RUNNING})"
proof -
  note k = kinvD [OF I(1)]
  define s0 where "s0 = rt_stk_check (set_tsk_stack (run s) (psp s) (set_state (run s) INACTIVE s))"
  have f0: "cb_type s0 = cb_type s" "os_active_TCB s0 = os_active_TCB s" "task_id s0 = task_id s"
    "p_lnk s0 = p_lnk s" "p_rlnk s0 = p_rlnk s" "p_dlnk s0 = p_dlnk s" "p_blnk s0 = p_blnk s"
    "delta_time s0 = delta_time s" "prio s0 = prio s" "run s0 = run s" "p_mlnk s0 = p_mlnk s" "level s0 = level s"
    "owner s0 = owner s" "state s0 = (state s)(run s := INACTIVE)" "psq_items s0 = psq_items s"
    by (simp_all add: s0_def rt_stk_check_def os_error_def psq_items_def psq_from_def)
  have tk: "is_task s0 = is_task s" by (simp add: is_task_def fun_eq_iff f0)
  have T0: "tables_ok s0"
    by (rule tmr_tables [OF I(4)]) (simp_all add: s0_def rt_stk_check_def os_error_def)
  have ts0: "timers_ok s0 ts"
    using I(3) timers_ok_cong [of s0 s ts] by (simp add: s0_def rt_stk_check_def os_error_def)
  have M0: "mutexes s0 q own" by (rule mutexes_cong [OF I(2)]) (simp_all add: tk f0)
  let ?a = "(os_active_TCB s0)[i := NULL]"
  note id = task_place(1) [OF I(4) i(1,2) k(9)] and once = task_place(2) [OF I(4) i(1,2) k(9)]
  have u: "is_task (retab ?a s0) t \<longleftrightarrow> is_task s0 t \<and> t \<noteq> run s" for t
  proof (rule is_task_untask [where p = "run s" and i = i])
    show "run s \<noteq> OS_IDLE" using i(3) by simp
    show "i < length (os_active_TCB s0)" "os_active_TCB s0 ! i = run s" unfolding f0 by (fact i(1), fact i(2))
    show "j = i" if "j < length (os_active_TCB s0)" "os_active_TCB s0 ! j = run s" for j
      by (rule once) (use that in \<open>simp_all only: f0\<close>)
  qed (rule k(9))
  have S0: "sched s0 q ds {run s}" using k(1) sched_cong [of s0 s "{run s}" q ds] by (simp add: f0)
  have S: "sched (retab ?a s0) q ds {}"
    using sched_untask_run [OF S0 _ k(3) u] by simp
  have ut: "unat tid = Suc i" using id tid by simp
  have ok0: "tasks_ok s0" using k(6) tasks_ok_cong [OF tk f0(2)] by simp
  obtain s2 q2 ds2 where L: "release_mutexes (p_mlnk s0 (run s)) s0 = Some s2"
    "sched (drop_task (run s) tid s2) q2 ds2 {}" "gives_up {} q ds s0 q2 ds2 s2" "tasks_ok (drop_task (run s) tid s2)"
    "\<forall>m\<in>set (own (run s)). passed_on q s2 m"
    "\<forall>s' q' ds'. kinv (switch_context s') q' ds' \<longrightarrow> books s' = books (drop_task (run s) tid s2) \<longrightarrow>
       (\<forall>x. x \<noteq> OS_RDY \<longrightarrow> q' x = q2 x) \<longrightarrow> sysinv (switch_context s')"
  proof (rule delete_common [OF ts0 T0 ok0 _ _ _ ut i(3) _ S M0 refl])
    show "i < length (os_active_TCB s0)" "os_active_TCB s0 ! i = run s" "is_task s0 (run s)"
      "\<forall>x\<in>set (psq_items s0). fst x \<noteq> run s" using i(1,2) rq k(2) by (simp_all add: f0 tk)
    fix s2 q2 ds2 own2
    assume L: "release_mutexes (p_mlnk s0 (run s)) s0 = Some s2" "sched (drop_task (run s) tid s2) q2 ds2 {}"
      "gives_up {} q ds s0 q2 ds2 s2" "\<forall>t. is_task (drop_task (run s) tid s2) t \<longleftrightarrow> is_task s0 t \<and> t \<noteq> run s"
      "tasks_ok (drop_task (run s) tid s2)" "\<forall>m\<in>set (own (run s)). passed_on q s2 m"
      "\<forall>s' q' ds'. kinv (switch_context s') q' ds' \<longrightarrow> books s' = books (drop_task (run s) tid s2) \<longrightarrow>
       (\<forall>x. x \<noteq> OS_RDY \<longrightarrow> q' x = q2 x) \<longrightarrow> sysinv (switch_context s')"
    show thesis by (rule that [OF L(1-3,5-7)])
  qed
  note g = gives_upD [OF L(3)]
  let ?d = "drop_task (run s) tid s2" and ?e = "(drop_task (run s) tid s2)\<lparr>run := NULL\<rparr>"
  have Sd: "sched ?e q2 ds2 {}" 
  proof -
    have "sched ?e q2 ds2 {} = sched ?d q2 ds2 {}" by (rule sched_cong) simp_all
    with L(2) show ?thesis by metis
  qed
  have okd: "tasks_ok ?e" using L(4) by (simp add: tasks_ok_def is_task_def)
  have idle: "OS_IDLE \<in> set (q2 OS_RDY)" using k(7) i(3) g(8) by auto
  then obtain t B where qr: "q2 OS_RDY = t # B" by (cases "q2 OS_RDY") auto
  obtain s' where d: "rt_dispatch NULL ?e = Some s'" "core_only ?e s'"
    "kinv (switch_context s') (q2(OS_RDY := B)) ds2" "state s' = (state ?e)(t := RUNNING)"
    using rt_dispatch_NULL [OF Sd qr okd idle] by metis
  have b: "books s' = books ?d" using dispatch_books [OF d(1)] by simp
  have inv: "sysinv (switch_context s')" using L(6) d(3) b by (metis fun_upd_other)
  have e: "rt_tsk_delete tid s = Some (OS_R_OK, s')"
  proof -
    have r2: "run s2 = run s" "task_id s2 = task_id s" using g(3) f0 plain_fields(2) [OF g(1)] by simp_all
    show ?thesis
      using L(1) d(1) tid r2 by (simp add: rt_tsk_delete_def s0_def [symmetric] f0(10) Let_def)
  qed
  have f2: "os_active_TCB s2 = os_active_TCB s" using plain_fields(3) [OF g(1)] f0 by simp
  note c = core_only_fields [OF d(2)]
  have act: "os_active_TCB s' = (os_active_TCB s)[i := NULL]" using c(17) f2 ut by simp
  show thesis
  proof (rule that [OF e inv act])
    fix m w C assume m: "m \<in> set (own (run s))"
    have "level s' m = level s2 m" "owner s' m = owner s2 m" "state s2 w = READY \<Longrightarrow> state s' w \<in> {READY, RUNNING}"
      using c(12,13) d(4) by simp_all
    then show "level s' m = (case q m of [] \<Rightarrow> 0 | _ \<Rightarrow> 1) \<and> (q m = w # C \<longrightarrow> owner s' m = w \<and>
       state s' w \<in> {READY, RUNNING})"
      using bspec [OF L(5) m] by (auto simp: passed_on_def split: list.splits)
  qed
qed


text \<open>What is left to do when another task has been deleted: a ready task may have a higher priority.\<close>

lemma delete_preempt:
  assumes S: "sched s q ds {run s}" and r: "is_task s (run s)" "run s \<notin> fst ` set ds" "state s (run s) = RUNNING"
      "new_tsk s = run s" "run s \<noteq> OS_IDLE" and ok: "tasks_ok s" "OS_IDLE \<in> set (q OS_RDY)"
  obtains rp s' q' where "rt_rdy_prio s = Some rp"
    "(if prio s (run s) < rp
      then do {
        let s = set_state (run s) READY s;
        s \<leftarrow> rt_put_prio OS_RDY (run s) s;
        s \<leftarrow> rt_dispatch NULL s;
        Some (OS_R_OK, s)
      }
      else Some (OS_R_OK, s)) = Some (OS_R_OK, s')"
    "kinv (switch_context s') q' ds" "books s' = books s" "\<forall>x. x \<noteq> OS_RDY \<longrightarrow> q' x = q x" "core_only s s'"
    "\<forall>x. state s x = READY \<longrightarrow> state s' x \<in> {READY, RUNNING}"
proof -
  obtain t B where q: "q OS_RDY = t # B" using ok(2) by (cases "q OS_RDY") auto
  have rp: "rt_rdy_prio s = Some (prio s t)" by (rule rt_rdy_prio_hd [OF S q])
  show thesis
  proof (cases "prio s (run s) < prio s t")
    case True
    let ?s0 = "set_state (run s) READY s"
    have S0: "sched ?s0 q ds {run s}" using S by simp
    have r0: "is_task ?s0 (run s)" using r(1) by (simp add: is_task_def)
    obtain s1 where p: "rt_put_prio OS_RDY (run s) ?s0 = Some s1" "links_only ?s0 s1"
      "sched s1 (q(OS_RDY := ins_prio (prio ?s0) (run s) (q OS_RDY))) ds ({run s} - {run s})"
      by (rule sched_put_prio_rdy [OF S0 _ r0 r(2)]) auto
    note f = links_only_fields [OF p(2)] and c1 = core_only_fields [OF links_only_core [OF p(2)]]
    have ins: "ins_prio (prio ?s0) (run s) (q OS_RDY) = t # ins_prio (prio s) (run s) B"
      using q True by (simp add: ins_prio_def less_imp_le)
    have tk0: "is_task ?s0 = is_task s" by (simp add: is_task_def fun_eq_iff)
    have ok1: "tasks_ok s1" using ok(1) c1(27) tasks_ok_cong [OF tk0] by simp
    have qq: "(q(OS_RDY := ins_prio (prio ?s0) (run s) (q OS_RDY))) OS_RDY = t # ins_prio (prio s) (run s) B"
      using ins by simp
    have id1: "OS_IDLE \<in> set ((q(OS_RDY := ins_prio (prio ?s0) (run s) (q OS_RDY))) OS_RDY)" using ok(2) by simp
    have S1: "sched s1 (q(OS_RDY := ins_prio (prio ?s0) (run s) (q OS_RDY))) ds {}" using p(3) by simp
    obtain s' where d: "rt_dispatch NULL s1 = Some s'" "core_only s1 s'"
      "kinv (switch_context s') (q(OS_RDY := ins_prio (prio ?s0) (run s) (q OS_RDY), OS_RDY := ins_prio (prio s) (run s) B)) ds"
      "state s' = (state s1)(t := RUNNING)"
      using rt_dispatch_NULL [OF S1 qq ok1 id1] by metis
    have c: "core_only s s'"
      by (rule core_only_trans [OF core_only_steps(1) core_only_trans [OF links_only_core [OF p(2)] d(2)]])
    have b: "books s' = books s" using dispatch_books [OF d(1)] put_prio_books [OF p(1)] by simp
    have st: "\<forall>x. state s x = READY \<longrightarrow> state s' x \<in> {READY, RUNNING}" using d(4) f(5) by simp
    show thesis by (rule that [OF rp _ d(3) b _ c st]) (use True p(1) d(1) in simp_all)
  next
    case False
    have hp: "prio s x \<le> prio s (run s)" if "x \<in> set (q OS_RDY)" for x
      using schedD(4) [OF S, of OS_RDY] that False q by (auto simp: by_prio_Cons)
    have K: "kinv (switch_context s) q ds"
      by (rule kinv_switchI [of _ _ _ "run s"]) (use S r ok hp in auto)
    show thesis by (rule that [OF rp _ K refl]) (use False in simp_all)
  qed
qed

text \<open>Another task is deleted.\<close>

lemma rt_tsk_delete_other:
  assumes I: "kinv s q ds" "mutexes s q own" "timers_ok s ts" "tables_ok s" and r: "run s \<noteq> OS_IDLE"
    and i: "i < length (os_active_TCB s)" "os_active_TCB s ! i = p" "p = CB b" "p \<noteq> run s"
    and rq: "\<forall>x\<in>set (psq_items s). fst x \<noteq> p" and tid: "tid = ucast (task_id s p)" "tid \<noteq> ucast (task_id s (run s))"
  obtains s' where "rt_tsk_delete tid s = Some (OS_R_OK, s')" "sysinv (switch_context s')"
    "os_active_TCB s' = (os_active_TCB s)[i := NULL]"
    "\<And>m t B. m \<in> set (own p) \<Longrightarrow> level s' m = (case removeAll p (q m) of [] \<Rightarrow> 0 | _ \<Rightarrow> 1) \<and>
       (removeAll p (q m) = t # B \<longrightarrow> owner s' m = t \<and> state s' t \<in> {READY, RUNNING})"
proof -
  note k = kinvD [OF I(1)]
  have pn: "p \<noteq> NULL" using i(3) by simp
  note id = task_place(1) [OF I(4) i(1,2) pn] and once = task_place(2) [OF I(4) i(1,2) pn]
  have pt: "is_task s p" using k(6) i(1,2) pn nth_mem [OF i(1)] by (auto simp: tasks_ok_def)
  have u: "is_task (retab ((os_active_TCB s)[i := NULL]) s) t \<longleftrightarrow> is_task s t \<and> t \<noteq> p" for t
    by (rule is_task_untask [OF i(1,2) _ pn once]) (simp add: i(3))
  have pr: "p \<notin> {run s}" using i(4) by simp
  let ?q = "\<lambda>h. removeAll p (q h)"
  obtain s1 where R: "rt_rmv_list p s = Some s1" "links_only s s1" "dly_only s1 (rt_rmv_dly p s1)"
    "sched (retab ((os_active_TCB s)[i := NULL]) (rt_rmv_dly p s1)) ?q (rmv_dly p ds) {run s}"
    by (rule sched_rmv_task [OF k(1) pt pr u])
  define s0 where "s0 = rt_rmv_dly p s1"
  have c0: "core_only s s0" unfolding s0_def by (rule core_only_trans [OF links_only_core [OF R(2)] dly_only_core [OF R(3)]])
  note cf = core_only_fields [OF c0]
  have st0: "state s0 = state s" using links_only_fields(5) [OF R(2)] dly_only_fields(4) [OF R(3)] by (simp add: s0_def)
  have n0: "new_tsk s0 = run s"
  proof -
    have "new_tsk s1 = new_tsk s" using R(2) by (auto simp: links_only_def)
    moreover have "new_tsk s0 = new_tsk s1" using R(3) unfolding s0_def dly_only_def by fastforce
    ultimately show ?thesis using k(5) by simp
  qed
  have b0: "books s0 = books s" using rmv_list_books [OF R(1)] by (simp add: s0_def)
  have M0: "mutexes s0 ?q own" by (rule mutexes_core [OF I(2) c0]) simp
  have ut: "unat tid = Suc i" using id tid(1) by simp
  have tact: "tsk_active tid s = p" "tid \<noteq> 0" using ut i(1,2) by (auto simp: tsk_active_def)
  obtain s2 q2 ds2 where L: "release_mutexes (p_mlnk s0 p) s0 = Some s2"
    "sched (drop_task p tid s2) q2 ds2 {run s}" "gives_up {run s} ?q (rmv_dly p ds) s0 q2 ds2 s2"
    "\<forall>t. is_task (drop_task p tid s2) t \<longleftrightarrow> is_task s t \<and> t \<noteq> p" "tasks_ok (drop_task p tid s2)"
    "\<forall>m\<in>set (own p). passed_on ?q s2 m"
    "\<forall>s' q' ds'. kinv (switch_context s') q' ds' \<longrightarrow> books s' = books (drop_task p tid s2) \<longrightarrow>
       (\<forall>x. x \<noteq> OS_RDY \<longrightarrow> q' x = q2 x) \<longrightarrow> sysinv (switch_context s')"
    by (rule delete_common [OF I(3,4) k(6) i(1,2) pt ut i(3) rq R(4) [folded s0_def] M0 books_plain [OF b0]])
  note g = gives_upD [OF L(3)]
  let ?d = "drop_task p tid s2"
  have rd: "run ?d = run s" using g(3) cf(3) by simp
  have D: "sched ?d q2 ds2 {run ?d}" "is_task ?d (run ?d)" "run ?d \<notin> fst ` set ds2" "state ?d (run ?d) = RUNNING"
    "new_tsk ?d = run ?d" "run ?d \<noteq> OS_IDLE" "OS_IDLE \<in> set (q2 OS_RDY)"
    unfolding rd
  proof -
    show "sched ?d q2 ds2 {run s}" by (rule L(2))
    show "is_task ?d (run s)" using L(4) k(2) i(4) by simp
    show "run s \<notin> fst ` set ds2" using g(9) k(3) by auto
    show "state ?d (run s) = RUNNING" using g(6) [of "run s"] st0 k(4) by simp
    show "new_tsk ?d = run s" using g(4) n0 by simp
    show "run s \<noteq> OS_IDLE" by (rule r)
    show "OS_IDLE \<in> set (q2 OS_RDY)" using k(7) r g(8) i(3) by auto
  qed
  obtain rp s' q' where P: "rt_rdy_prio ?d = Some rp"
    "(if prio ?d (run ?d) < rp
      then do {
        let s = set_state (run ?d) READY ?d;
        s \<leftarrow> rt_put_prio OS_RDY (run s) s;
        s \<leftarrow> rt_dispatch NULL s;
        Some (OS_R_OK, s)
      }
      else Some (OS_R_OK, ?d)) = Some (OS_R_OK, s')"
    "kinv (switch_context s') q' ds2" "books s' = books ?d" "\<forall>x. x \<noteq> OS_RDY \<longrightarrow> q' x = q2 x" "core_only ?d s'"
    "\<forall>x. state ?d x = READY \<longrightarrow> state s' x \<in> {READY, RUNNING}"
    by (rule delete_preempt [OF D(1-6) L(5) D(7)])
  have inv: "sysinv (switch_context s')" using L(7) P(3-5) by blast
  have e: "rt_tsk_delete tid s = Some (OS_R_OK, s')"
    using tact tid(2) pn R(1) L(1) P(1,2) by (simp add: rt_tsk_delete_def s0_def Let_def)
  note c = core_only_fields [OF P(6)]
  have act: "os_active_TCB s' = (os_active_TCB s)[i := NULL]"
    using c(17) plain_fields(3) [OF g(1)] cf(17) ut by simp
  show thesis
  proof (rule that [OF e inv act])
    fix m w C assume m: "m \<in> set (own p)"
    have "level s' m = level s2 m" "owner s' m = owner s2 m" "state s2 w = READY \<Longrightarrow> state s' w \<in> {READY, RUNNING}"
      using c(12,13) P(7) by simp_all
    then show "level s' m = (case removeAll p (q m) of [] \<Rightarrow> 0 | _ \<Rightarrow> 1) \<and> (removeAll p (q m) = w # C \<longrightarrow> owner s' m = w \<and>
       state s' w \<in> {READY, RUNNING})"
      using bspec [OF L(6) m] by (auto simp: passed_on_def split: list.splits)
  qed
qed

end
