(* ===== verification/Kernel_Error.thy ===== *)
theory Kernel_Error
  imports Kernel_Inv
begin

text \<open>
  When \<open>os_error\<close> is called.  It does not return: a state in which \<open>os_err\<close> is set is one in which the
  kernel has stopped.  Only the checks of the stack of a task that ends itself, of the room in the queue of
  requests, in the queue of the timer thread and in a mailbox call it; the lemmas show that all else leaves
  \<open>os_err\<close> alone, and that these do when there is room.
\<close>

section \<open>Lists and the dispatcher\<close>

definition mbs :: "kernel \<Rightarrow> _" where
  "mbs s = (os_err s, mcb_count s, mcb_size s, cb_type s, timer_queue s)"

lemma mbsD: "mbs s' = mbs s \<Longrightarrow> os_err s' = os_err s" "mbs s' = mbs s \<Longrightarrow> mcb_count s' = mcb_count s"
  "mbs s' = mbs s \<Longrightarrow> mcb_size s' = mcb_size s" "mbs s' = mbs s \<Longrightarrow> cb_type s' = cb_type s"
  "mbs s' = mbs s \<Longrightarrow> timer_queue s' = timer_queue s"
  by (simp_all add: mbs_def)

lemma mbs_steps [simp]:
  "mbs (p_lnk_update f1 s) = mbs s" "mbs (p_rlnk_update f1 s) = mbs s"
  "mbs (p_dlnk_update f1 s) = mbs s" "mbs (p_blnk_update f1 s) = mbs s" "mbs (p_mlnk_update f1 s) = mbs s"
  "mbs (delta_time_update f2 s) = mbs s" "mbs (state_update f3 s) = mbs s"
  "mbs (prio_update f4 s) = mbs s" "mbs (prio_base_update f4 s) = mbs s"
  "mbs (interval_time_update f2 s) = mbs s" "mbs (events_update f2 s) = mbs s"
  "mbs (waits_update f2 s) = mbs s" "mbs (msg_update f5 s) = mbs s"
  "mbs (ret0_update f5 s) = mbs s" "mbs (ret1_update f5 s) = mbs s"
  "mbs (mcb_state_update f4 s) = mbs s" "mbs (isr_st_update f4 s) = mbs s"
  "mbs (tokens_update f2 s) = mbs s" "mbs (level_update f2 s) = mbs s" "mbs (owner_update f1 s) = mbs s"
  "mbs (s\<lparr>run := p\<rparr>) = mbs s" "mbs (s\<lparr>new_tsk := p\<rparr>) = mbs s" "mbs (s\<lparr>os_time := w\<rparr>) = mbs s"
  "mbs (s\<lparr>robin_task := p\<rparr>) = mbs s" "mbs (s\<lparr>robin_time := v\<rparr>) = mbs s"
  "mbs (s\<lparr>pendsv := b\<rparr>) = mbs s" "mbs (s\<lparr>os_psh_flag := b\<rparr>) = mbs s" "mbs (s\<lparr>stack_word := f7\<rparr>) = mbs s"
  "mbs (s\<lparr>psq_count := c\<rparr>) = mbs s" "mbs (s\<lparr>psq_last := c\<rparr>) = mbs s"
  by (simp_all add: mbs_def)

lemma mbs_calls [simp]:
  "mbs (rt_ret_val t v s) = mbs s" "mbs (rt_ret_val2 t v w s) = mbs s"
  "mbs (rt_switch_req t s) = mbs s" "mbs (switch_context s) = mbs s"
  "mbs (rt_put_rdy_first t s) = mbs s" "mbs (rt_rmv_dly t s) = mbs s"
  "mbs (rt_psh_req s) = mbs s" "mbs (rt_evt_clr f tid s) = mbs s"
  by (simp_all add: rt_ret_val_def rt_ret_val2_def rt_switch_req_def switch_context_def rt_put_rdy_first_def
      rt_rmv_dly_def rt_psh_req_def rt_evt_clr_def Let_def)

lemma put_prio_mbs: "rt_put_prio h t s = Some s' \<Longrightarrow> mbs s' = mbs s"
  by (auto simp: rt_put_prio_def Let_def bind_eq_Some_conv)

lemma get_first_mbs: "rt_get_first h s = Some (t, s') \<Longrightarrow> mbs s' = mbs s"
  by (auto simp: rt_get_first_def Let_def split: if_splits)

lemma rmv_list_mbs: "rt_rmv_list t s = Some s' \<Longrightarrow> mbs s' = mbs s"
  by (auto simp: rt_rmv_list_def Let_def bind_eq_Some_conv split: if_splits)

lemma put_dly_mbs: "rt_put_dly t d s = Some s' \<Longrightarrow> mbs s' = mbs s"
  by (auto simp: rt_put_dly_def put_dly_last_def Let_def bind_eq_Some_conv split: if_splits)

lemmas list_mbs = put_prio_mbs get_first_mbs rmv_list_mbs put_dly_mbs

lemma resort_mbs: "rt_resort_prio t s = Some s' \<Longrightarrow> mbs s' = mbs s"
  by (auto simp: rt_resort_prio_def bind_eq_Some_conv dest!: list_mbs split: if_splits)

lemma dec_dly_expire_mbs: "dec_dly_expire s = Some s' \<Longrightarrow> mbs s' = mbs s"
  by (auto simp: dec_dly_expire_def Let_def bind_eq_Some_conv dest!: list_mbs)

lemma dec_dly_loop_mbs: "dec_dly_loop s = Some s' \<Longrightarrow> mbs s' = mbs s"
  by (induction rule: dec_dly_loop.raw_induct [rotated 1, consumes 1])
    (auto simp: bind_eq_Some_conv dest!: dec_dly_expire_mbs split: if_splits)

lemma dec_dly_mbs: "rt_dec_dly s = Some s' \<Longrightarrow> mbs s' = mbs s"
  by (auto simp: rt_dec_dly_def dest!: dec_dly_loop_mbs split: if_splits)

lemma dispatch_mbs: "rt_dispatch t s = Some s' \<Longrightarrow> mbs s' = mbs s"
  by (auto simp: rt_dispatch_def Let_def bind_eq_Some_conv dest!: list_mbs split: if_splits)

lemma block_mbs: "rt_block to st s = Some s' \<Longrightarrow> mbs s' = mbs s"
  by (auto simp: rt_block_def Let_def bind_eq_Some_conv dest!: list_mbs split: if_splits)

lemma chk_robin_mbs: "rt_chk_robin s = Some s' \<Longrightarrow> mbs s' = mbs s"
  by (auto simp: rt_chk_robin_def Let_def bind_eq_Some_conv dest!: list_mbs split: if_splits)

lemmas task_mbs = list_mbs resort_mbs dispatch_mbs block_mbs

lemmas list_err = put_prio_mbs [THEN mbsD(1)] get_first_mbs [THEN mbsD(1)] rmv_list_mbs [THEN mbsD(1)]
  put_dly_mbs [THEN mbsD(1)] resort_mbs [THEN mbsD(1)] dispatch_mbs [THEN mbsD(1)] block_mbs [THEN mbsD(1)]

lemmas err_calls [simp] = mbs_calls [THEN mbsD(1)]

section \<open>The services\<close>

lemma err_mbx [simp]: "os_err (mbx_store m v s) = os_err s" "os_err (mbx_inc m s) = os_err s" "os_err (mbx_dec m s) = os_err s"
  "os_err (snd (mbx_fetch m s)) = os_err s"
  by (simp_all add: mbx_store_def mbx_inc_def mbx_dec_def mbx_fetch_def Let_def)

lemma mbx_fetch_err: "mbx_fetch m s = (v, s') \<Longrightarrow> os_err s' = os_err s"
  by (auto simp: mbx_fetch_def Let_def)

lemma tsk_pass_err: "rt_tsk_pass s = Some s' \<Longrightarrow> os_err s' = os_err s"
  by (auto simp: rt_tsk_pass_def rt_get_same_rdy_prio_def Let_def bind_eq_Some_conv dest!: list_err split: if_splits)

lemma tsk_prio_run_err: "tsk_prio_run v s = Some s' \<Longrightarrow> os_err s' = os_err s"
  by (auto simp: tsk_prio_run_def bind_eq_Some_conv dest!: list_err split: if_splits)

lemma tsk_prio_err:
  assumes "rt_tsk_prio tid v s = Some (r, s')"
  shows "os_err s' = os_err s"
proof -
  have run: "os_err x = os_err s" if "tsk_prio_run v (set_prio_base p v (set_prio p v s)) = Some x" for p x
    using tsk_prio_run_err [OF that] by simp
  have other: "os_err x = os_err s" if "rt_resort_prio p (set_prio_base p v (set_prio p v s)) = Some x" for p x
    using mbsD(1) [OF resort_mbs [OF that]] by simp
  show ?thesis
    using assms unfolding rt_tsk_prio_def Let_def
    by (elim bind_SomeE if_SomeE) (auto simp: bind_eq_Some_conv dest!: run other get_first_mbs [THEN mbsD(1)] dispatch_mbs [THEN mbsD(1)])
qed

lemma sem_send_err: "rt_sem_send h s = Some (r, s') \<Longrightarrow> os_err s' = os_err s"
  by (auto simp: rt_sem_send_def Let_def bind_eq_Some_conv dest!: list_err split: if_splits)

lemma sem_wait_err: "rt_sem_wait h to s = Some (r, s') \<Longrightarrow> os_err s' = os_err s"
  by (auto simp: rt_sem_wait_def put_wait_def Let_def bind_eq_Some_conv dest!: list_err split: if_splits)

lemma mbx_send_err: "rt_mbx_send m v to s = Some (r, s') \<Longrightarrow> os_err s' = os_err s"
  by (auto simp: rt_mbx_send_def mbx_put_wait_def Let_def bind_eq_Some_conv dest!: list_err split: if_splits)

lemma mbx_wait_err: "rt_mbx_wait m to s = Some (r, v, s') \<Longrightarrow> os_err s' = os_err s"
  by (auto simp: rt_mbx_wait_def mbx_put_wait_def Let_def bind_eq_Some_conv dest!: list_err mbx_fetch_err
      split: if_splits prod.splits)

lemma evt_signal_mbs: "evt_signal t f s = (w, s') \<Longrightarrow> mbs s' = mbs s"
  by (auto simp: evt_signal_def evt_wkup_def Let_def split: if_splits)

lemma evt_set_err: "rt_evt_set f tid s = Some s' \<Longrightarrow> os_err s' = os_err s"
  by (auto simp: rt_evt_set_def Let_def dest!: list_err evt_signal_mbs [THEN mbsD(1)] split: if_splits prod.splits)

lemma evt_wait_err: "rt_evt_wait f to a s = Some (r, s') \<Longrightarrow> os_err s' = os_err s"
  by (auto simp: rt_evt_wait_def Let_def bind_eq_Some_conv dest!: list_err split: if_splits)

lemma dly_wait_err: "rt_dly_wait d s = Some s' \<Longrightarrow> os_err s' = os_err s"
  by (auto simp: rt_dly_wait_def dest!: list_err)

lemma mut_unlink_err: "mut_unlink t m s = Some s' \<Longrightarrow> os_err s' = os_err s"
  by (auto simp: mut_unlink_def bind_eq_Some_conv split: if_splits)

lemma mut_wait_err: "rt_mut_wait m to s = Some (r, s') \<Longrightarrow> os_err s' = os_err s"
  unfolding rt_mut_wait_def put_wait_def Let_def
  by (auto simp: bind_eq_Some_conv dest!: list_err split: if_splits)

lemma mut_hand_over_err: "mut_hand_over m s = Some s' \<Longrightarrow> os_err s' = os_err s"
  by (auto simp: mut_hand_over_def Let_def bind_eq_Some_conv dest!: list_err split: if_splits)

lemma mut_release_err: "rt_mut_release m s = Some (r, s') \<Longrightarrow> os_err s' = os_err s"
  by (auto simp: rt_mut_release_def Let_def bind_eq_Some_conv
      dest!: list_err mut_unlink_err mut_hand_over_err split: if_splits)

lemma flush_waiters_err: "flush_waiters h s = Some s' \<Longrightarrow> os_err s' = os_err s"
  by (induction rule: flush_waiters.raw_induct [rotated 1, consumes 1])
    (auto simp: Let_def bind_eq_Some_conv dest!: list_err split: if_splits)

lemma preempt_ready_err: "preempt_ready s = Some s' \<Longrightarrow> os_err s' = os_err s"
  by (auto simp: preempt_ready_def bind_eq_Some_conv dest!: list_err split: if_splits)

lemma sem_delete_err: "rt_sem_delete h s = Some (r, s') \<Longrightarrow> os_err s' = os_err s"
  by (auto simp: rt_sem_delete_def bind_eq_Some_conv dest!: flush_waiters_err preempt_ready_err)

lemma mut_disown_err: "mut_disown m s = Some s' \<Longrightarrow> os_err s' = os_err s"
  by (auto simp: mut_disown_def Let_def bind_eq_Some_conv dest!: mut_unlink_err list_err split: if_splits)

lemma mut_delete_err: "rt_mut_delete m s = Some (r, s') \<Longrightarrow> os_err s' = os_err s"
  by (auto simp: rt_mut_delete_def bind_eq_Some_conv dest!: mut_disown_err flush_waiters_err preempt_ready_err)

lemma init_context_err [simp]: "os_err (rt_init_context p pr body s) = os_err s"
  by (simp add: rt_init_context_def rt_init_stack_def alloc_box_def Let_def split: list.split)

lemma alloc_box_err: "alloc_box b s = (m, s') \<Longrightarrow> os_err s' = os_err s"
  by (auto simp: alloc_box_def split: list.splits)

lemma tsk_create_err: "rt_tsk_create task ps stk arg s = Some (i, s') \<Longrightarrow> os_err s' = os_err s"
  by (auto simp: rt_tsk_create_def Let_def bind_eq_Some_conv dest!: list_err alloc_box_err split: if_splits prod.splits)

lemma release_mutex_err: "release_mutex m s = Some (n, s') \<Longrightarrow> os_err s' = os_err s"
  by (auto simp: release_mutex_def Let_def bind_eq_Some_conv dest!: list_err split: if_splits)

lemma release_mutexes_err: "release_mutexes m s = Some s' \<Longrightarrow> os_err s' = os_err s"
  by (induction rule: release_mutexes.raw_induct [rotated 1, consumes 1])
    (auto simp: bind_eq_Some_conv dest!: release_mutex_err split: if_splits)

lemma drop_task_err [simp]: "os_err (drop_task p tid s) = os_err s"
  by (simp add: drop_task_def free_box_def Let_def split: ptr.split)

lemma stk_check_err: "os_err (rt_stk_check s) =
    (if tsk_stack s (run s) < stack s (run s) \<or> stack_word s (stack s (run s)) \<noteq> MAGIC_WORD then Some OS_ERR_STK_OVF else os_err s)"
  by (simp add: rt_stk_check_def os_error_def)

text \<open>The stack of the running task, as \<open>rt_stk_check\<close> tests it.\<close>

definition stack_intact :: "kernel \<Rightarrow> bool" where
  "stack_intact s \<longleftrightarrow> stack s (run s) \<le> psp s \<and> stack_word s (stack s (run s)) = MAGIC_WORD"

lemma tsk_delete_err:
  assumes d: "rt_tsk_delete tid s = Some (r, s')" and i: "tid = 0 \<or> tid = ucast (task_id s (run s)) \<longrightarrow> stack_intact s"
  shows "os_err s' = os_err s"
proof (cases "tid = 0 \<or> tid = ucast (task_id s (run s))")
  case True
  let ?s0 = "set_tsk_stack (run s) (psp s) (set_state (run s) INACTIVE s)"
  have "os_err (rt_stk_check ?s0) = os_err s"
    using i True unfolding stk_check_err by (auto simp: stack_intact_def)
  then show ?thesis using d unfolding rt_tsk_delete_def if_P [OF True] Let_def
    by (elim bind_SomeE) (auto dest!: release_mutexes_err list_err)
next
  case False
  show ?thesis using d unfolding rt_tsk_delete_def if_not_P [OF False] Let_def
    by (elim bind_SomeE if_SomeE) (((drule release_mutexes_err list_err)+)?, clarsimp)+
qed

lemma timer_insert_err: "rt_timer_insert t k s = Some s' \<Longrightarrow> os_err s' = os_err s"
  by (drule timer_insert_post_fields) (simp add: post_fields_def)

lemma untimed_err: "untimed s' = untimed s \<Longrightarrow> os_err s' = os_err s"
  by (drule arg_cong [where f = os_err]) (simp add: untimed_def)

lemmas timer_remove_err = timer_remove_untimed(1) [THEN untimed_err]

section \<open>Requests of interrupt handlers\<close>

lemma request_err: "psq_wf s \<Longrightarrow> psq_count s < psq_size s \<Longrightarrow> os_err (rt_psh_req (rt_psq_enq p a s)) = os_err s"
  by (simp add: psq_enq_ok)

section \<open>The tick\<close>

text \<open>The timers that end with the tick find room in the queue of requests, and the queue of the timer
  thread is there and not full.\<close>

definition timer_room :: "kernel \<Rightarrow> bool" where
  "timer_room s \<longleftrightarrow> (\<forall>ts. timers s ts \<longrightarrow> expired ts \<noteq> [] \<longrightarrow>
     mbox_ready s \<and> unat (psq_count s) + length (expired ts) \<le> unat (psq_size s))"

lemma timer_tick_err:
  assumes T: "timers_ok s ts" and W: "psq_wf s" and R: "timer_room s" and e: "sysTimerTick s = Some s'"
  shows "os_err s' = os_err s"
proof -
  have t: "timers s ts" "\<forall>x\<in>set ts. 0 < snd x"
    "\<forall>t. tmr_state s t = osTimerRunning \<longrightarrow> tmr_type s t = osTimerPeriodic \<longrightarrow> tmr_icnt s t \<noteq> 0"
    "\<forall>t. t \<in> fst ` set ts \<longleftrightarrow> tmr_state s t = osTimerRunning" using T unfolding timers_ok_def by blast+
  have i: "\<forall>t\<in>set (expired ts). tmr_type s t = osTimerPeriodic \<longrightarrow> tmr_icnt s t \<noteq> 0"
    using t expired_fst [of ts] by blast
  obtain s1 where s1: "sysTimerTick s = Some s1" "posts (length (expired ts)) s s1"
    by (rule sysTimerTick_posts [OF t(1,2) i])
  have w: "psq_first s < psq_size s"
    using W mod_less_divisor [of "unat (psq_size s)"] by (auto simp: psq_wf_def word_less_nat_alt)
  have le: "unat (psq_count s) + length (expired ts) \<le> unat (psq_size s)"
    using R t(1) W by (cases "expired ts = []") (auto simp: timer_room_def psq_wf_def word_le_nat_alt)
  have "0 < length (expired ts) \<longrightarrow> mbox_ready s" using R t(1) by (auto simp: timer_room_def)
  then show ?thesis using s1 e w le by (simp add: posts_def)
qed

lemma timer_room_same:
  assumes "books s' = books s" "mbs s' = mbs s"
  shows "timer_room s' = timer_room s" "psq_wf s' = psq_wf s"
proof -
  note f = books_fields [OF assms(1)]
  have "timers s' ts = timers s ts" for ts by (rule timers_cong; rule f)
  moreover have "mbox_ready s' = mbox_ready s" using mbsD [OF assms(2)] by (simp add: mbox_ready_def rt_mbx_check_def)
  ultimately show "timer_room s' = timer_room s" "psq_wf s' = psq_wf s" using f by (simp_all add: timer_room_def psq_wf_def)
qed

lemma systick_err:
  assumes T: "timers_ok s ts" and W: "psq_wf s" and R: "timer_room s" and e: "rt_systick s = Some s'"
  shows "os_err s' = os_err s"
proof -
  from e obtain s2 s3 s4 t s5 where c: "rt_chk_robin (rt_put_rdy_first (run s) (set_state (run s) READY s)) = Some s2"
    "rt_dec_dly (s2\<lparr>os_time := os_time s2 + 1\<rparr>) = Some s3" "sysTimerTick s3 = Some s4"
    "rt_get_first OS_RDY s4 = Some (t, s5)" "s' = rt_switch_req t s5"
    by (auto simp: rt_systick_def Let_def bind_eq_Some_conv rt_put_rdy_first_def)
  have b: "books s3 = books s" and m: "mbs s3 = mbs s"
    using chk_robin_books [OF c(1)] dec_dly_books [OF c(2)] chk_robin_mbs [OF c(1)] dec_dly_mbs [OF c(2)] by simp_all
  have "timers_ok s3 ts" using T plain_same [OF books_plain [OF b]] by simp
  then have "os_err s4 = os_err s3" using timer_tick_err [OF _ _ _ c(3)] W R timer_room_same [OF b m] by blast
  then show ?thesis using c(4,5) mbsD(1) [OF m] get_first_mbs [OF c(4), THEN mbsD(1)] by simp
qed

section \<open>The handling of requests\<close>

text \<open>Every mailbox has room for the requests that wait for it.\<close>

definition mailbox_room :: "kernel \<Rightarrow> (ptr \<times> U32) list \<Rightarrow> bool" where
  "mailbox_room s xs \<longleftrightarrow> (\<forall>x\<in>set xs. cb_type s (fst x) = MCB \<longrightarrow>
     unat (mcb_count s (fst x)) + length (filter (\<lambda>y. fst y = fst x) xs) \<le> unat (mcb_size s (fst x)))"

lemma psh_ready_mbs: "mbx_psh_ready t s = Some s' \<Longrightarrow> mbs s' = mbs s"
  by (auto simp: mbx_psh_ready_def Let_def dest!: put_prio_mbs)

lemma sem_psh_mbs: "rt_sem_psh h s = Some s' \<Longrightarrow> mbs s' = mbs s"
  by (auto simp: rt_sem_psh_def Let_def bind_eq_Some_conv dest!: list_mbs split: if_splits)

lemma evt_psh_mbs: "rt_evt_psh t f s = Some s' \<Longrightarrow> mbs s' = mbs s"
  by (auto simp: rt_evt_psh_def Let_def dest!: list_mbs evt_signal_mbs split: if_splits prod.splits)

lemma alloc_box_mbs: "alloc_box b s = (m, s') \<Longrightarrow> mbs s' = mbs s"
  by (auto simp: alloc_box_def mbs_def split: list.splits)

lemma unat_Suc16: "unat ((c :: U16) + 1) \<le> Suc (unat c)"
  by (simp add: unat_word_ariths)

lemma mbx_store_mbs:
  "mbs x = mbs s \<Longrightarrow> mbs (mbx_inc m (mbx_store m v x)) = mbs (set_mcb_count m (mcb_count s m + 1) s)"
  by (simp add: mbs_def mbx_inc_def mbx_store_def Let_def)

lemma mbx_psh_mbs:
  assumes h: "rt_mbx_psh m v s = Some s'" and r: "mcb_count s m < mcb_size s m"
  shows "mbs s' = mbs s \<or> mbs s' = mbs (set_mcb_count m (mcb_count s m + 1) s)"
  using h r unfolding rt_mbx_psh_def Let_def
  by (elim bind_SomeE if_SomeE)
    (auto split: prod.splits if_splits simp: bind_eq_Some_conv mbx_store_mbs dest!: psh_ready_mbs get_first_mbs alloc_box_mbs)

lemma handle_mbs:
  assumes h: "handle x s = Some s'" and r: "cb_type s (fst x) = MCB \<longrightarrow> mcb_count s (fst x) < mcb_size s (fst x)"
  shows "mbs s' = mbs s \<or> cb_type s (fst x) = MCB \<and> mbs s' = mbs (set_mcb_count (fst x) (mcb_count s (fst x) + 1) s)"
  using h r mbx_psh_mbs [of "fst x" "snd x" s s'] unfolding handle_def
  by (elim if_SomeE) (auto dest: evt_psh_mbs sem_psh_mbs)

text \<open>Each request adds at most one message to its mailbox.\<close>

lemma handle_room:
  assumes h: "handle x s = Some s'" and r: "mailbox_room s (x # xs)"
  shows "os_err s' = os_err s" "mailbox_room s' xs"
proof -
  have "cb_type s (fst x) = MCB \<longrightarrow> mcb_count s (fst x) < mcb_size s (fst x)"
    using r by (auto simp: mailbox_room_def word_less_nat_alt)
  note m = handle_mbs [OF h this]
  then have f: "os_err s' = os_err s" "cb_type s' = cb_type s" "mcb_size s' = mcb_size s"
    by (auto simp: mbs_def)
  show "os_err s' = os_err s" by (rule f)
  have c: "unat (mcb_count s' h) \<le> unat (mcb_count s h) + (if h = fst x then 1 else 0)" for h
    using m unat_Suc16 [of "mcb_count s (fst x)"] by (auto simp: mbs_def)
  show "mailbox_room s' xs" unfolding mailbox_room_def f
  proof (intro ballI impI)
    fix y assume y: "y \<in> set xs" "cb_type s (fst y) = MCB"
    then have "unat (mcb_count s (fst y)) + length (filter (\<lambda>z. fst z = fst y) (x # xs)) \<le> unat (mcb_size s (fst y))"
      using r by (auto simp: mailbox_room_def)
    then show "unat (mcb_count s' (fst y)) + length (filter (\<lambda>z. fst z = fst y) xs) \<le> unat (mcb_size s (fst y))"
      using c [of "fst y"] by (simp split: if_splits)
  qed
qed

lemma mailbox_room_mbs: "mbs s' = mbs s \<Longrightarrow> mailbox_room s' xs = mailbox_room s xs"
  by (simp add: mailbox_room_def mbs_def)

lemma handle_all_err: "handle_all xs s = Some s' \<Longrightarrow> mailbox_room s xs \<Longrightarrow> os_err s' = os_err s"
proof (induction xs arbitrary: s)
  case (Cons x xs)
  obtain s1 where s1: "handle x s = Some s1" "handle_all xs (s1\<lparr>psq_count := psq_count s1 - 1\<rparr>) = Some s'"
    using Cons.prems(1) by (auto simp: bind_eq_Some_conv)
  note r = handle_room [OF s1(1) Cons.prems(2)]
  have "mailbox_room (s1\<lparr>psq_count := psq_count s1 - 1\<rparr>) xs" using r(2) by (subst mailbox_room_mbs) simp_all
  from Cons.IH [OF s1(2) this] r(1) show ?case by simp
qed simp

lemma pop_req_err:
  assumes K: "kinv s q ds" and wf: "psq_wf s" and r: "\<forall>x\<in>set (psq_items s). request_ok s x"
    and room: "mailbox_room s (psq_items s)" and e: "rt_pop_req s = Some s'"
  shows "os_err s' = os_err s"
proof -
  define s1 where "s1 = rt_put_rdy_first (run s) (set_state (run s) READY s)"
  have c1: "core_only s s1" and S1: "sched s1 (q(OS_RDY := run s # q OS_RDY)) ds {}"
    using run_first [OF K] by (simp_all add: s1_def)
  note p1 = core_psh_frame [OF c1]
  have f1: "psq_last s1 = psq_last s" "psq_size s1 = psq_size s" "psq_count s1 = psq_count s"
    "psq_id s1 = psq_id s" "psq_arg s1 = psq_arg s" "is_task s1 = is_task s" "cb_type s1 = cb_type s"
    using p1 psh_frame_task [OF p1] by (simp_all add: psh_frame_def)
  let ?i = "ucast (psq_last s1) :: U32"
  have it: "psq_from (unat ?i) s1 = psq_items s" by (simp add: psq_items_def psq_from_def f1)
  have i: "unat ?i < unat (psq_size s1)" using wf by (simp add: psq_wf_def f1)
  have rq: "\<forall>x\<in>set (psq_from (unat ?i) s1). request_ok s1 x"
    using r unfolding it by (simp add: request_ok_def f1)
  obtain s2 idx' where l: "pop_loop ?i s1 = Some (idx', s2)" "handle_all (psq_items s) s1 = Some s2"
    using pop_loop_ok [OF S1 i rq] unfolding it by blast
  have m1: "mbs s1 = mbs s" by (simp add: s1_def)
  obtain t s4 where g: "rt_get_first OS_RDY (s2\<lparr>psq_last := ucast idx'\<rparr>) = Some (t, s4)" "s' = rt_switch_req t s4"
    using e l(1) by (auto simp: rt_pop_req_def Let_def bind_eq_Some_conv simp flip: s1_def)
  have "mailbox_room s1 (psq_items s)" using room mailbox_room_mbs [OF m1] by simp
  then have "os_err s2 = os_err s1" by (rule handle_all_err [OF l(2)])
  then show ?thesis using get_first_mbs [OF g(1), THEN mbsD(1)] g(2) mbsD(1) [OF m1] by simp
qed

end
