(* ===== verification/Stepper.thy ===== *)
theory Stepper
  imports Prelude
begin

text \<open>
  The interface of a component that handles events one at a time and whose handlers keep an
  invariant: what a client that sends it a sequence of events relies on.  The controllers of the
  accumulator system and the kernel provide it.
\<close>

text \<open>A run of a list of events; \<open>None\<close> when one of the handlers does not return.\<close>

fun runs :: "('e \<Rightarrow> 's \<Rightarrow> 's option) \<Rightarrow> 'e list \<Rightarrow> 's \<Rightarrow> 's option" where
  "runs step [] s = Some s"
| "runs step (e # es) s = Option.bind (step e s) (runs step es)"

lemma runs_append: "runs step (es @ fs) s = Option.bind (runs step es s) (runs step fs)"
proof (induction es arbitrary: s)
  case (Cons e es)
  then show ?case by (cases "step e s") simp_all
qed simp

text \<open>Every event comes at a state in which its handler may be called.\<close>

fun oks :: "('e \<Rightarrow> 's \<Rightarrow> 's option) \<Rightarrow> ('e \<Rightarrow> 's \<Rightarrow> bool) \<Rightarrow> 'e list \<Rightarrow> 's \<Rightarrow> bool" where
  "oks step ok [] s \<longleftrightarrow> True"
| "oks step ok (e # es) s \<longleftrightarrow> ok e s \<and> (\<forall>s'. step e s = Some s' \<longrightarrow> oks step ok es s')"

text \<open>Handlers that keep the invariant when they return.\<close>

locale keeper =
  fixes step :: "'e \<Rightarrow> 's \<Rightarrow> 's option" and inv :: "'s \<Rightarrow> bool" and ok :: "'e \<Rightarrow> 's \<Rightarrow> bool"
  assumes step_keeps: "inv s \<Longrightarrow> ok e s \<Longrightarrow> step e s = Some s' \<Longrightarrow> inv s'"
begin

lemma runs_inv_Some: "inv s \<Longrightarrow> oks step ok es s \<Longrightarrow> runs step es s = Some s' \<Longrightarrow> inv s'"
proof (induction es arbitrary: s)
  case (Cons e es)
  then obtain s1 where "step e s = Some s1" "runs step es s1 = Some s'" by (auto simp: bind_eq_Some_conv)
  then show ?case using Cons.IH [of s1] Cons.prems(1,2) step_keeps [of s e s1] by simp
qed simp

lemma runs_never:
  assumes "inv s" "oks step ok es s" "\<And>t. inv t \<Longrightarrow> \<not> bad t" "runs step es s = Some s'"
  shows "\<not> bad s'"
  using runs_inv_Some [OF assms(1,2,4)] assms(3) by blast

end

text \<open>Handlers that also return.\<close>

locale stepper =
  fixes step :: "'e \<Rightarrow> 's \<Rightarrow> 's option" and inv :: "'s \<Rightarrow> bool" and ok :: "'e \<Rightarrow> 's \<Rightarrow> bool"
  assumes step_inv: "inv s \<Longrightarrow> ok e s \<Longrightarrow> \<exists>s'. step e s = Some s' \<and> inv s'"
begin

lemma runs_inv: "inv s \<Longrightarrow> oks step ok es s \<Longrightarrow> \<exists>s'. runs step es s = Some s' \<and> inv s'"
proof (induction es arbitrary: s)
  case (Cons e es)
  obtain s1 where "step e s = Some s1" "inv s1" using step_inv [of s e] Cons.prems by auto
  then show ?case using Cons.IH [of s1] Cons.prems by simp
qed simp

end

sublocale stepper \<subseteq> keeper
  using step_inv by unfold_locales fastforce

end
