(* ===== verification/Kernel_Steps.thy ===== *)
theory Kernel_Steps
  imports Rtx_Exit Kernel_Error Stepper
begin

text \<open>
  The kernel as a machine: the services that threads call, those that interrupt handlers call, the
  tick and the handling of the requests that interrupts leave behind, each followed by the switch to
  the task that the kernel has chosen.  A step whose handler calls \<open>os_error\<close> does not return.  Every
  handler keeps the invariant \<open>sysinv\<close> of the kernel, and where there is \<open>room\<close> for what it adds to the
  queues of the kernel its step returns.
\<close>

section \<open>Services that keep the lists in order\<close>

text \<open>A result of two components.\<close>

definition keeps :: "kernel \<Rightarrow> (ptr \<Rightarrow> ptr list) \<Rightarrow> ('a \<times> kernel) option \<Rightarrow> bool" where
  "keeps s q r \<longleftrightarrow> goes s q (map_option snd r)"

lemma keepsI: "r = Some (x, s') \<Longrightarrow> kinv (switch_context s') q' ds' \<Longrightarrow> unwaited s q q' \<Longrightarrow> keeps s q r"
  unfolding keeps_def by (rule goesI) simp_all

lemma keeps_stay: "kinv s q ds \<Longrightarrow> keeps s q (Some (x, s))"
  by (rule keepsI [OF refl kinv_switch_same], assumption, simp)

lemma keeps_same: "kinv s' q ds \<Longrightarrow> keeps s q (Some (x, s'))"
  by (rule keepsI [OF refl kinv_switch_same], assumption, simp)

lemma keeps_map: "keeps s q r \<Longrightarrow> keeps s q (do { (x, s) \<leftarrow> r; Some (f x s, s) })"
  by (cases r) (simp_all add: keeps_def split_def)

lemma keeps_map_snd: "keeps s q r \<Longrightarrow> (\<And>x s. snd (f x s) = s) \<Longrightarrow> keeps s q (do { (x, s) \<leftarrow> r; Some (f x s) })"
  by (cases r) (simp_all add: keeps_def split_def)

text \<open>The lists after a task has been woken up, has begun to wait, or only the ready list has changed.\<close>

lemma unwaited_wake: "kinv s q ds \<Longrightarrow> q h = t # B \<Longrightarrow> unwaited s q (dispatched s' t (q(h := B)))"
  by (rule unwaitedI) (auto simp: dispatched_def)

lemma unwaited_ready: "kinv s q ds \<Longrightarrow> unwaited s q (dispatched s' t q)" "kinv s q ds \<Longrightarrow> unwaited s q (q(OS_RDY := R))"
  by (rule unwaitedI; auto simp: dispatched_def)+

lemma unwaited_wait: "kinv s q ds \<Longrightarrow> cb_type s h \<noteq> MUCB \<Longrightarrow> unwaited s q (q(h := W, OS_RDY := R))"
  by (rule unwaitedI) auto

lemma unwaited_sets: "kinv s q ds \<Longrightarrow> (\<And>h. h \<noteq> OS_RDY \<Longrightarrow> set (q' h) = set (q h)) \<Longrightarrow> unwaited s q q'"
  by (erule unwaitedI) (metis set_empty)

lemma unwaited_if: "unwaited s q q1 \<Longrightarrow> unwaited s q q2 \<Longrightarrow> unwaited s q (if b then q1 else q2)"
  by simp

lemma sem_release_keeps: "kinv s q ds \<Longrightarrow> cb_type s h = SCB \<Longrightarrow> keeps s q (rt_sem_send h s)"
proof (cases "q h")
  case Nil
  assume K: "kinv s q ds" "cb_type s h = SCB"
  show ?thesis by (rule keepsI [OF rt_sem_send_store [OF K Nil]]) simp
next
  case (Cons t B)
  assume K: "kinv s q ds" "cb_type s h = SCB"
  show ?thesis by (rule rt_sem_send_wake [OF K Cons]) (erule (1) keepsI [OF _ _ unwaited_wake [where q = q, OF K(1) Cons]])
qed

lemma sem_wait_keeps:
  assumes "kinv s q ds" "cb_type s h = SCB" "timeout \<noteq> 0 \<Longrightarrow> run s \<noteq> OS_IDLE"
  shows "keeps s q (rt_sem_wait h timeout s)"
proof (cases "tokens s h = 0 \<and> timeout \<noteq> 0")
  case True
  then have to: "tokens s h = 0" "timeout \<noteq> 0" by auto
  have "cb_type s h \<noteq> MUCB" using assms(2) by (simp add: cb_types)
  note u = unwaited_wait [OF assms(1) this]
  show ?thesis by (rule rt_sem_wait_block [OF assms(1,2) to(1) assms(3) [OF to(2)] to(2)]) (erule (1) keepsI [OF _ _ u])
next
  case False
  have "kinv (set_tokens h (tokens s h - 1) s) q ds"
    using assms(1) kinv_cong [of "set_tokens h (tokens s h - 1) s" s] by simp
  then show ?thesis using False keeps_stay [OF assms(1)] keeps_same by (auto simp: rt_sem_wait_def)
qed

lemma mbx_put_keeps:
  assumes "kinv s q ds" "cb_type s m = MCB" "timeout \<noteq> 0 \<Longrightarrow> run s \<noteq> OS_IDLE"
  shows "keeps s q (rt_mbx_send m v timeout s)"
proof (cases "q m \<noteq> [] \<and> mcb_state s m = 1")
  case True
  then obtain t B where m: "mcb_state s m = 1" "q m = t # B" by (cases "q m") auto
  show ?thesis
    by (rule rt_mbx_send_wake [OF assms(1,2) m]) (erule (1) keepsI [OF _ _ unwaited_wake [where q = q, OF assms(1) m(2)]])
next
  case False
  then have e: "q m = [] \<or> mcb_state s m \<noteq> 1" by blast
  have hd: "is_head s m" using is_sem_MCB [OF assms(2)] by (simp add: is_head_def)
  have "cb_type s m \<noteq> MUCB" using assms(2) by (simp add: cb_types)
  note u = unwaited_wait [OF assms(1) this]
  show ?thesis
  proof (cases "mcb_count s m = mcb_size s m")
    case full: True
    show ?thesis
    proof (cases "timeout = 0")
      case True
      have "p_lnk s m = NULL \<or> mcb_state s m \<noteq> 1" using e kinv_p_lnk_NULL [OF assms(1) hd] by auto
      then have "rt_mbx_send m v timeout s = Some (OS_R_TMO, s)" using full True by (auto simp: rt_mbx_send_def)
      then show ?thesis using keeps_stay [OF assms(1)] by simp
    next
      case False
      show ?thesis
        by (rule rt_mbx_send_block [OF assms(1,2) e full assms(3) [OF False] False]) (erule (1) keepsI [OF _ _ u])
    qed
  next
    case False
    show ?thesis by (rule keepsI [OF rt_mbx_send_store [OF assms(1,2) e False]]) simp
  qed
qed

text \<open>A result of three components.\<close>

definition keeps3 :: "kernel \<Rightarrow> (ptr \<Rightarrow> ptr list) \<Rightarrow> ('a \<times> 'b \<times> kernel) option \<Rightarrow> bool" where
  "keeps3 s q r \<longleftrightarrow> goes s q (map_option (snd \<circ> snd) r)"

lemma keeps3I: "r = Some (x, y, s') \<Longrightarrow> kinv (switch_context s') q' ds' \<Longrightarrow> unwaited s q q' \<Longrightarrow> keeps3 s q r"
  unfolding keeps3_def by (rule goesI) simp_all

lemma keeps3_map: "keeps3 s q r \<Longrightarrow> keeps s q (do { (x, v, s) \<leftarrow> r; Some (f x v s, s) })"
  by (cases r) (simp_all add: keeps_def keeps3_def split_def)

lemma mbx_get_keeps:
  assumes "kinv s q ds" "cb_type s m = MCB" "timeout \<noteq> 0 \<Longrightarrow> run s \<noteq> OS_IDLE"
  shows "keeps3 s q (rt_mbx_wait m timeout s)"
proof (cases "mcb_count s m = 0")
  case True
  have "cb_type s m \<noteq> MUCB" using assms(2) by (simp add: cb_types)
  note u = unwaited_wait [OF assms(1) this]
  show ?thesis
  proof (cases "timeout = 0")
    case True
    then have "rt_mbx_wait m timeout s = Some (OS_R_TMO, None, s)" using \<open>mcb_count s m = 0\<close> by (simp add: rt_mbx_wait_def)
    then show ?thesis by (rule keeps3I [OF _ kinv_switch_same [OF assms(1)]]) simp
  next
    case False
    show ?thesis
      by (rule rt_mbx_wait_block [OF assms(1,2) True assms(3) [OF False] False]) (erule (1) keeps3I [OF _ _ u])
  qed
next
  case False
  show ?thesis
  proof (cases "q m \<noteq> [] \<and> mcb_state s m = 2")
    case True
    then obtain t B where m: "q m = t # B" "mcb_state s m = 2" by (cases "q m") auto
    show ?thesis
      by (rule rt_mbx_wait_wakes [OF assms(1,2) False m]) (erule (1) keeps3I [OF _ _ unwaited_wake [where q = q, OF assms(1) m(1)]])
  next
    case e: False
    then have e: "q m = [] \<or> mcb_state s m \<noteq> 2" by blast
    show ?thesis by (rule keeps3I [OF rt_mbx_wait_get [OF assms(1,2) False e]]) simp
  qed
qed

lemma evt_set_keeps:
  assumes K: "kinv s q ds" and t: "os_active_TCB s ! (unat tid - 1) = t" "is_task s t"
  shows "goes s q (rt_evt_set f tid s)"
proof (cases "evt_wakes s t f")
  case True
  show ?thesis by (rule rt_evt_set_wake [OF K t True]) (erule (1) goesI [OF _ _ unwaited_ready(1) [OF K]])
next
  case False
  then have "t = NULL \<or> \<not> evt_wakes s t f" by blast
  from rt_evt_set_stay [OF K t(1) this] show ?thesis by (rule goesI) simp
qed

lemma evt_wait_keeps:
  assumes "kinv s q ds" "timeout \<noteq> 0 \<Longrightarrow> run s \<noteq> OS_IDLE"
  shows "keeps s q (rt_evt_wait f timeout a s)"
proof (cases "if a then events s (run s) AND f = f else events s (run s) AND f \<noteq> 0")
  case True
  show ?thesis by (rule rt_evt_wait_ready [OF assms(1) True]) (erule (1) keepsI, simp)
next
  case False
  show ?thesis
  proof (cases "timeout = 0")
    case True
    have K: "kinv (set_waits (run s) f s) q ds" using assms(1) kinv_cong [of "set_waits (run s) f s" s] by simp
    have "rt_evt_wait f timeout a s = Option.bind (rt_block 0 (if a then WAIT_AND else WAIT_OR) (set_waits (run s) f s))
        (\<lambda>s. Some (OS_R_TMO, s))"
      using False True by (auto simp: rt_evt_wait_def Let_def)
    then show ?thesis using keeps_same [OF K] by (simp add: rt_block_def)
  next
    case to: False
    have "if a then events s (run s) AND f \<noteq> f else events s (run s) AND f = 0" using False by (auto split: if_splits)
    then show ?thesis
      by (rule rt_evt_wait_block [OF assms(1) assms(2) [OF to] to]) (erule (1) keepsI [OF _ _ unwaited_ready(2) [OF assms(1)]])
  qed
qed


section \<open>Services that keep the mutexes in order\<close>

text \<open>The services of the mutexes keep the invariants of the scheduler and of the mutexes, and change
  nothing else.\<close>

lemma plain_step:
  assumes "timers_ok s ts" "tables_ok s" "r = Some (x, s')" "kinv (switch_context s') q' ds'" "mutexes s' q' own'"
    "plain s' = plain s"
  shows "upholds (map_option snd r)"
  using assms plain_same [OF assms(6)] by (intro upholdsI [of _ s'] sysinvI [OF assms(4)]) simp_all

lemma mut_wait_upholds:
  assumes I: "kinv s q ds" "mutexes s q own" "timers_ok s ts" "tables_ok s" and m: "cb_type s m = MUCB"
    and r: "timeout \<noteq> 0 \<Longrightarrow> run s \<noteq> OS_IDLE" and l: "owner s m = run s \<longrightarrow> level s m + 1 \<noteq> 0"
  shows "upholds (map_option snd (rt_mut_wait m timeout s))"
proof -
  note p = plain_step [OF I(3,4)]
  consider "level s m = 0" | "level s m \<noteq> 0" "owner s m = run s"
    | "level s m \<noteq> 0" "owner s m \<noteq> run s" "timeout = 0" | "level s m \<noteq> 0" "owner s m \<noteq> run s" "timeout \<noteq> 0" by blast
  then show ?thesis
  proof cases
    case 1
    show ?thesis by (rule rt_mut_wait_free [OF I(1,2) m 1]) (rule p; (assumption | erule mut_wait_plain))
  next
    case 2
    have "level s m + 1 \<noteq> 0" using l 2 by simp
    note a = rt_mut_wait_again [OF I(1,2) m 2 this]
    show ?thesis by (rule p [OF a mut_wait_plain [OF a(1)]])
  next
    case 3
    then have "rt_mut_wait m timeout s = Some (OS_R_TMO, s)" by (simp add: rt_mut_wait_def)
    then show ?thesis using sysinv_switch_same [OF sysinvI [OF I]] by simp
  next
    case 4
    show ?thesis by (rule rt_mut_wait_block [OF I(1,2) m 4(1,2) r [OF 4(3)] 4(3)]) (rule p; (assumption | erule mut_wait_plain))
  qed
qed

lemma mut_release_upholds:
  assumes I: "kinv s q ds" "mutexes s q own" "timers_ok s ts" "tables_ok s" and m: "cb_type s m = MUCB"
    and r: "run s \<noteq> OS_IDLE"
  shows "upholds (map_option snd (rt_mut_release m s))"
proof -
  note p = plain_step [OF I(3,4)]
  have "level s m = 0 \<or> level s m = 1 \<or> 1 < level s m" by (simp add: word_less_nat_alt word_unat_eq_iff) linarith
  then consider "level s m = 0 \<or> owner s m \<noteq> run s" | "1 < level s m" "owner s m = run s"
    | "level s m = 1" "owner s m = run s" "q m = []" | t B where "level s m = 1" "owner s m = run s" "q m = t # B"
    by (cases "q m") blast+
  then show ?thesis
  proof cases
    case 1
    then have "rt_mut_release m s = Some (OS_R_NOK, s)" by (simp add: rt_mut_release_def)
    then show ?thesis using sysinv_switch_same [OF sysinvI [OF I]] by simp
  next
    case 2
    note a = rt_mut_release_nested [OF I(1,2) m 2]
    show ?thesis by (rule p [OF a mut_release_plain [OF a(1)]])
  next
    case 3
    show ?thesis by (rule rt_mut_release_idle [OF I(1,2) m 3 r]) (rule p; (assumption | erule mut_release_plain))
  next
    case 4
    show ?thesis by (rule rt_mut_release_hand_over [OF I(1,2) m 4 r]) (rule p; (assumption | erule mut_release_plain))
  qed
qed

lemma mut_delete_upholds:
  assumes I: "kinv s q ds" "mutexes s q own" "timers_ok s ts" "tables_ok s" and m: "cb_type s m = MUCB"
  shows "upholds (map_option snd (rt_mut_delete m s))"
proof -
  obtain s' q' own' ds' where d: "rt_mut_delete m s = Some (OS_R_OK, s')" "kinv (switch_context s') q' ds'" "mutexes s' q' own'"
    by (rule rt_mut_delete_ok [OF I(1,2) m]) blast
  have a: "free_addr s m" by (rule sem_addr [OF I(1) is_sem_MUCB [OF m]])
  have "\<forall>x\<in>set (psq_items s). fst x \<noteq> m"
    using I(4) m MUCB_not_task [OF m] by (auto simp: tables_ok_def psq_inv_def request_ok_def cb_types)
  from delete_object [OF I(3,4) a this mut_delete_plain [OF d(1)] d(2,3)] show ?thesis using d(1) by simp
qed

lemma sem_delete_upholds:
  assumes I: "kinv s q ds" "mutexes s q own" "timers_ok s ts" "tables_ok s" and h: "cb_type s h = SCB"
    and n: "\<forall>x\<in>set (psq_items s). fst x \<noteq> h"
  shows "upholds (map_option snd (rt_sem_delete h s))"
proof -
  obtain s' where d: "rt_sem_delete h s = Some (OS_R_OK, s')"
    "kinv (switch_context s') (preempted s (flushed s h q)) (rmv_dlys (q h) ds)"
    by (rule rt_sem_delete_ok [OF I(1) h]) blast
  note a = sem_addr [OF I(1) is_sem_SCB [OF h]] and b = sem_delete_books [OF d(1)]
  have u: "unwaited s q (preempted s (flushed s h q))"
    by (rule unwaitedI [OF I(1)]) (auto simp: preempted_def flushed_def split: list.split)
  let ?s1 = "set_cb_type h 0 s"
  have tk: "is_task ?s1 = is_task s" by (rule set_cb_rest(3) [OF I(4) refl a n]) simp
  have "mutexes ?s1 q own"
    using I(2) h unfolding mutexes_def tk by (auto simp: cb_types)
  then have "mutexes s' (preempted s (flushed s h q)) own"
    by (rule mutexes_books [OF _ b]) (use u in \<open>auto simp: unwaited_def cb_types split: if_splits\<close>)
  from delete_object [OF I(3,4) a n books_plain [OF b] d(2) this] show ?thesis using d(1) by simp
qed

section \<open>Timers\<close>

lemma timers_ok_iff: "timers_ok s ts \<longleftrightarrow> timers s ts \<and> (\<forall>x\<in>set ts. 0 < snd x) \<and>
    (\<forall>t. tmr_state s t = osTimerRunning \<longrightarrow> tmr_type s t = osTimerPeriodic \<longrightarrow> tmr_icnt s t \<noteq> 0) \<and>
    (\<forall>t. t \<in> fst ` set ts \<longleftrightarrow> tmr_state s t = osTimerRunning)"
  unfolding timers_ok_def by blast

lemmas timers_ok_fields = timers_ok_iff [THEN iffD1]

lemma timer_create_upholds:
  assumes "sysinv s"
  shows "upholds (Some (snd (svcTimerCreate td ty arg s)))"
proof (rule tmr_only_upholds [OF assms untimed_only])
  show "untimed (snd (svcTimerCreate td ty arg s)) = untimed s"
    by (simp add: svcTimerCreate_def Let_def split: option.split)
  fix ts assume T: "timers_ok s ts"
  show "\<exists>ts'. timers_ok (snd (svcTimerCreate td ty arg s)) ts'"
  proof (cases "\<exists>d. td = Some d \<and> td_ptimer d \<noteq> 0 \<and> td_timer d \<noteq> NULL \<and> (ty = osTimerOnce \<or> ty = osTimerPeriodic) \<and>
      timer_thread s \<noteq> NULL \<and> tmr_state s (td_timer d) = osTimerInvalid")
    case True
    then obtain d where d: "td = Some d" "td_ptimer d \<noteq> 0" "td_timer d \<noteq> NULL" "ty = osTimerOnce \<or> ty = osTimerPeriodic"
      "timer_thread s \<noteq> NULL" "tmr_state s (td_timer d) = osTimerInvalid" by blast
    define t f a where "t = td_timer d" and "f = td_addr d" and "a = arg"
    have s': "snd (svcTimerCreate td ty arg s) = set_tmr_def t f (set_tmr_arg t a (set_tmr_type t ty
      (set_tmr_state t osTimerStopped (set_tmr_next t NULL s))))" "tmr_state s t = osTimerInvalid"
      using d by (auto simp: svcTimerCreate_def Let_def t_def f_def a_def)
    have t: "t \<notin> fst ` set ts" using s'(2) timers_ok_fields [OF T] by (auto simp: osTimerInvalid_def osTimerRunning_def)
    define s1 where "s1 = set_tmr_def t f (set_tmr_arg t a (set_tmr_type t ty
      (set_tmr_state t osTimerStopped (set_tmr_next t NULL s))))"
    have "chain ((tmr_next s)(t := NULL)) (os_timer_head s) (map fst ts) NULL"
      using T t by (simp add: timers_ok_def timers_def)
    then have "timers s1 ts" using T by (simp add: timers_ok_def timers_def s1_def)
    moreover have r: "tmr_state s1 u = osTimerRunning \<longleftrightarrow> tmr_state s u = osTimerRunning" for u
      using s'(2) by (simp add: s1_def osTimerInvalid_def osTimerRunning_def osTimerStopped_def)
    have "\<forall>u. tmr_state s1 u = osTimerRunning \<longrightarrow> tmr_type s1 u = osTimerPeriodic \<longrightarrow> tmr_icnt s1 u \<noteq> 0"
    proof (intro allI impI)
      fix u assume u: "tmr_state s1 u = osTimerRunning" "tmr_type s1 u = osTimerPeriodic"
      then have "u \<noteq> t" using r [of u] s'(2) by (auto simp: osTimerInvalid_def osTimerRunning_def)
      then show "tmr_icnt s1 u \<noteq> 0" using u r [of u] timers_ok_fields [OF T] by (simp add: s1_def)
    qed
    ultimately have "timers_ok s1 ts"
      unfolding timers_ok_iff r by (intro conjI) (use timers_ok_fields [OF T] in blast)+
    then have "timers_ok (snd (svcTimerCreate td ty arg s)) ts" unfolding s'(1) s1_def .
    then show ?thesis by blast
  next
    case False
    then have "snd (svcTimerCreate td ty arg s) = s"
      by (cases td) (simp_all add: svcTimerCreate_def Let_def, blast)
    then show ?thesis using T by auto
  qed
qed

text \<open>Starting a timer that is stopped, or again one that is running.\<close>

lemma timer_start_upholds:
  assumes S: "sysinv s"
  shows "upholds (map_option snd (svcTimerStart t ms s))"
proof -
  define pt where "pt = rt_id2obj t"
  consider (none) "pt = NULL \<or> ms = 0 \<or> tmr_state s pt \<notin> {osTimerRunning, osTimerStopped}"
    | (run) "pt \<noteq> NULL" "ms \<noteq> 0" "tmr_state s pt = osTimerRunning"
    | (stop) "pt \<noteq> NULL" "ms \<noteq> 0" "tmr_state s pt = osTimerStopped" by blast
  then show ?thesis
  proof cases
    case none
    then have "\<exists>r. svcTimerStart t ms s = Some (r, s)" by (auto simp: svcTimerStart_def Let_def pt_def)
    then obtain r where "svcTimerStart t ms s = Some (r, s)" ..
    then show ?thesis using sysinv_switch_same [OF S] by simp
  next
    case run
    obtain q ds own ts where "timers_ok s ts" using S by (auto elim: sysinvE)
    note T = timers_ok_fields [OF this]
    obtain s1 where s1: "rt_timer_remove pt s = Some (0, s1)" "timers s1 (rmv_dly pt ts)"
      "tmr_state s1 = tmr_state s" "tmr_type s1 = tmr_type s" "tmr_icnt s1 = tmr_icnt s"
      by (rule timer_remove_ok [OF \<open>timers_ok s ts\<close>]) (use T run in auto)
    have f: "fst ` set (rmv_dly pt ts) = fst ` set ts - {pt}" by (force simp: rmv_dly_def)
    obtain s2 where s2: "rt_timer_insert pt ms s1 = Some s2" "timers_ok s2 (ins_tmr pt (unat ms) (rmv_dly pt ts))"
      by (rule timer_insert_ok [OF s1(2), of pt ms]) (use T run s1 f in \<open>auto simp: rmv_dly_def\<close>)
    have "untimed s2 = untimed s" using timer_insert_untimed [OF s2(1)] timer_remove_untimed(1) [OF s1(1)] by simp
    then have "upholds (Some s2)" using s2(2) by (intro tmr_only_upholds [OF S untimed_only]) blast+
    then show ?thesis using run s1(1) s2(1) by (simp add: svcTimerStart_def Let_def timer_ticks_exact flip: pt_def)
  next
    case stop
    obtain q ds own ts where "timers_ok s ts" using S by (auto elim: sysinvE)
    note T = timers_ok_fields [OF this]
    define s1 where "s1 = set_tmr_icnt pt ms (set_tmr_state pt osTimerRunning s)"
    have nt: "pt \<notin> fst ` set ts" using T stop by (auto simp: osTimerStopped_def osTimerRunning_def)
    have T1: "timers s1 ts" using T timers_cong [of s1 s ts] by (simp add: s1_def)
    obtain s2 where s2: "rt_timer_insert pt ms s1 = Some s2" "timers_ok s2 (ins_tmr pt (unat ms) ts)"
      by (rule timer_insert_ok [OF T1, of pt ms]) (use T stop nt in \<open>auto simp: s1_def\<close>)
    have "untimed s2 = untimed s" using timer_insert_untimed [OF s2(1)] by (simp add: s1_def)
    then have "upholds (Some s2)" using s2(2) by (intro tmr_only_upholds [OF S untimed_only]) blast+
    then show ?thesis using stop s2(1)
      by (simp add: svcTimerStart_def Let_def timer_ticks_exact osTimerStopped_def osTimerRunning_def s1_def flip: pt_def)
  qed
qed

text \<open>Stopping a timer, and deleting it, takes it out of the list.\<close>

lemma timer_drop:
  assumes S: "sysinv s" and t: "tmr_state s t = osTimerRunning" and v: "v \<noteq> osTimerRunning"
  obtains s' where "rt_timer_remove t s = Some (0, s')" "upholds (Some (set_tmr_state t v s'))"
proof -
  obtain q ds own ts where T0: "timers_ok s ts" using S by (auto elim: sysinvE)
  note T = timers_ok_fields [OF T0]
  obtain s1 where s1: "rt_timer_remove t s = Some (0, s1)" "timers s1 (rmv_dly t ts)"
    "tmr_state s1 = tmr_state s" "tmr_type s1 = tmr_type s" "tmr_icnt s1 = tmr_icnt s"
    by (rule timer_remove_ok [OF T0]) (use T t in auto)
  have f: "fst ` set (rmv_dly t ts) = fst ` set ts - {t}" by (force simp: rmv_dly_def)
  have "timers (set_tmr_state t v s1) (rmv_dly t ts)" using s1(2) timers_cong [of "set_tmr_state t v s1" s1] by simp
  then have "timers_ok (set_tmr_state t v s1) (rmv_dly t ts)"
    unfolding timers_ok_iff f using T v s1 by (auto simp: rmv_dly_def)
  moreover have "untimed (set_tmr_state t v s1) = untimed s" using timer_remove_untimed(1) [OF s1(1)] by simp
  ultimately have "upholds (Some (set_tmr_state t v s1))" by (intro tmr_only_upholds [OF S untimed_only]) blast+
  then show thesis by (rule that [OF s1(1)])
qed

lemma timer_halt:
  assumes S: "sysinv s" and t: "tmr_state s t = osTimerRunning" and v: "v \<noteq> osTimerRunning"
  obtains s' where "rt_timer_remove t (set_tmr_state t v s) = Some (0, s')" "upholds (Some s')"
proof -
  obtain q ds own ts where T0: "timers_ok s ts" using S by (auto elim: sysinvE)
  note T = timers_ok_fields [OF T0]
  let ?s0 = "set_tmr_state t v s"
  have "timers ?s0 ts" using T timers_cong [of ?s0 s ts] by simp
  then obtain s1 where s1: "rt_timer_remove t ?s0 = Some (0, s1)" "timers s1 (rmv_dly t ts)"
    by (rule rt_timer_remove_ok) (use T t in auto)
  have f: "fst ` set (rmv_dly t ts) = fst ` set ts - {t}" by (force simp: rmv_dly_def)
  have "timers_ok s1 (rmv_dly t ts)"
    unfolding timers_ok_iff f using T v s1(2) timer_remove_untimed(2) [OF s1(1)] by (auto simp: rmv_dly_def)
  moreover have "untimed s1 = untimed s" using timer_remove_untimed(1) [OF s1(1)] by simp
  ultimately have "upholds (Some s1)" by (intro tmr_only_upholds [OF S untimed_only]) blast+
  then show thesis by (rule that [OF s1(1)])
qed

section \<open>The steps\<close>

text \<open>The events of the machine, which the model adds to the code.  The mail and pool services, \<open>svcTimerCall\<close>,
  \<open>rt_suspend\<close> and \<open>rt_resume\<close> are not among them.\<close>

datatype kevent =
    ThreadCreate thread_def U32 | ThreadTerminate ptr | ThreadYield | SetPriority ptr int | Delay U32
  | SignalSet ptr U32 | SignalClear ptr U32 | SignalWait U32 U32
  | MutexCreate ptr | MutexWait ptr U32 | MutexRelease ptr | MutexDelete ptr
  | SemCreate ptr int | SemWait ptr U32 | SemRelease ptr | SemDelete ptr
  | MsgCreate queue_def | MsgPut ptr U32 U32 | MsgGet ptr U32
  | TimerCreate timer_def U8 U32 | TimerStart ptr U32 | TimerStop ptr | TimerDelete ptr
  | IsrSignalSet ptr U32 | IsrSemRelease ptr | IsrMsgPut ptr U32 | IsrMsgGet ptr
  | SysTick | PendSV

text \<open>The state after the handler, before the switch.\<close>

definition handler :: "kevent \<Rightarrow> kernel \<Rightarrow> kernel option" where
  "handler e s = (case e of
       ThreadCreate td arg \<Rightarrow> map_option snd (svcThreadCreate 0 (Some td) arg s)
     | ThreadTerminate t \<Rightarrow> map_option snd (svcThreadTerminate t s)
     | ThreadYield \<Rightarrow> map_option snd (svcThreadYield s)
     | SetPriority t p \<Rightarrow> map_option snd (svcThreadSetPriority t p s)
     | Delay ms \<Rightarrow> map_option snd (svcDelay ms s)
     | SignalSet t sig \<Rightarrow> map_option snd (svcSignalSet t sig s)
     | SignalClear t sig \<Rightarrow> Some (snd (svcSignalClear t sig s))
     | SignalWait sig ms \<Rightarrow> map_option snd (svcSignalWait sig ms s)
     | MutexCreate h \<Rightarrow> Some (snd (svcMutexCreate (Some h) s))
     | MutexWait m ms \<Rightarrow> map_option snd (svcMutexWait m ms s)
     | MutexRelease m \<Rightarrow> map_option snd (svcMutexRelease m s)
     | MutexDelete m \<Rightarrow> map_option snd (svcMutexDelete m s)
     | SemCreate h n \<Rightarrow> Some (snd (svcSemaphoreCreate (Some h) n s))
     | SemWait h ms \<Rightarrow> map_option snd (svcSemaphoreWait h ms s)
     | SemRelease h \<Rightarrow> map_option snd (svcSemaphoreRelease h s)
     | SemDelete h \<Rightarrow> map_option snd (svcSemaphoreDelete h s)
     | MsgCreate qd \<Rightarrow> Some (snd (svcMessageCreate (Some qd) s))
     | MsgPut m v ms \<Rightarrow> map_option snd (svcMessagePut m v ms s)
     | MsgGet m ms \<Rightarrow> map_option snd (svcMessageGet m ms s)
     | TimerCreate td ty arg \<Rightarrow> Some (snd (svcTimerCreate (Some td) ty arg s))
     | TimerStart t ms \<Rightarrow> map_option snd (svcTimerStart t ms s)
     | TimerStop t \<Rightarrow> map_option snd (svcTimerStop t s)
     | TimerDelete t \<Rightarrow> map_option snd (svcTimerDelete t s)
     | IsrSignalSet t sig \<Rightarrow> Some (snd (isrSignalSet t sig s))
     | IsrSemRelease h \<Rightarrow> Some (snd (isrSemaphoreRelease h s))
     | IsrMsgPut m v \<Rightarrow> Some (snd (isrMessagePut m v 0 s))
     | IsrMsgGet m \<Rightarrow> Some (snd (isrMessageGet m 0 s))
     | SysTick \<Rightarrow> rt_systick s
     | PendSV \<Rightarrow> rt_pop_req s)"

text \<open>The step: the kernel stops when the handler has called \<open>os_error\<close>.\<close>

definition kstep :: "kevent \<Rightarrow> kernel \<Rightarrow> kernel option" where
  "kstep e s = Option.bind (handler e s) (\<lambda>s'. if os_err s' = None then Some (switch_context s') else None)"

text \<open>When a step may be taken, as far as it depends on the caller: only the idle task never blocks or
  yields, and it is not terminated; a thread identifier is that of an active thread, or one that the
  service refuses; the memory of a new object is not in use; a semaphore is not deleted, and a thread
  not terminated, while a request of an interrupt handler for it is pending; and a mutex is not locked more often than its 16-bit level counts.\<close>

definition thread_ok :: "kernel \<Rightarrow> ptr \<Rightarrow> bool" where
  "thread_ok s t \<longleftrightarrow> rt_tid2ptcb s t = NULL \<or> t \<in> set (os_active_TCB s)"

definition unused :: "kernel \<Rightarrow> ptr \<Rightarrow> bool" where
  "unused s h \<longleftrightarrow> free_addr s h \<and> h \<notin> CB ` set (box_mem s (mp_tcb s))"

definition kok :: "kevent \<Rightarrow> kernel \<Rightarrow> bool" where
  "kok e s = (case e of
       ThreadTerminate t \<Rightarrow> run s \<noteq> OS_IDLE \<and> t \<noteq> OS_IDLE \<and> thread_ok s t \<and> (\<forall>x\<in>set (psq_items s). fst x \<noteq> t)
     | ThreadYield \<Rightarrow> run s \<noteq> OS_IDLE
     | SetPriority t p \<Rightarrow> run s \<noteq> OS_IDLE \<and> thread_ok s t
     | Delay ms \<Rightarrow> run s \<noteq> OS_IDLE
     | SignalSet t sig \<Rightarrow> thread_ok s t
     | SignalWait sig ms \<Rightarrow> run s \<noteq> OS_IDLE
     | MutexCreate h \<Rightarrow> unused s h
     | MutexWait m ms \<Rightarrow> run s \<noteq> OS_IDLE \<and> (owner s m = run s \<longrightarrow> level s m + 1 \<noteq> 0)
     | MutexRelease m \<Rightarrow> run s \<noteq> OS_IDLE
     | SemCreate h n \<Rightarrow> unused s h
     | SemWait h ms \<Rightarrow> run s \<noteq> OS_IDLE
     | SemDelete h \<Rightarrow> \<forall>x\<in>set (psq_items s). fst x \<noteq> h
     | MsgCreate qd \<Rightarrow> unused s (qd_pool qd)
     | MsgPut m v ms \<Rightarrow> run s \<noteq> OS_IDLE
     | MsgGet m ms \<Rightarrow> run s \<noteq> OS_IDLE
     | IsrSignalSet t sig \<Rightarrow> thread_ok s t
     | _ \<Rightarrow> True)"

text \<open>When a handler finds room: a task that ends itself has not overrun its stack; the queue of requests
  is not full when an interrupt handler calls a service; the timers that end with a tick, and the
  mailboxes that the pending requests are for, have room for them.\<close>

definition room :: "kevent \<Rightarrow> kernel \<Rightarrow> bool" where
  "room e s = (case e of
       ThreadTerminate t \<Rightarrow> t = run s \<longrightarrow> stack_intact s
     | IsrSignalSet t sig \<Rightarrow> psq_count s < psq_size s
     | IsrSemRelease h \<Rightarrow> psq_count s < psq_size s
     | IsrMsgPut h v \<Rightarrow> psq_count s < psq_size s
     | IsrMsgGet h \<Rightarrow> psq_count s < psq_size s
     | SysTick \<Rightarrow> timer_room s
     | PendSV \<Rightarrow> mailbox_room s (psq_items s)
     | _ \<Rightarrow> True)"

lemma ucast_8_32_0: "(ucast (x :: U8) :: U32) = 0 \<longleftrightarrow> x = 0"
  by (simp add: word_unat_eq_iff)

lemma thread_okD:
  assumes "kinv s q ds" "tables_ok s" "thread_ok s t" "rt_tid2ptcb s t \<noteq> NULL"
  shows "rt_tid2ptcb s t = t" "is_task s t" "(ucast (task_id s t) :: U32) \<noteq> 0"
    "tsk_active (ucast (task_id s t)) s = t" "os_active_TCB s ! (unat (ucast (task_id s t) :: U32) - 1) = t"
proof -
  show e: "rt_tid2ptcb s t = t" using assms(4) by (auto simp: rt_tid2ptcb_def split: if_splits)
  have t: "t \<in> set (os_active_TCB s)" "t \<noteq> NULL" using assms(3,4) e by (auto simp: thread_ok_def)
  show "is_task s t" using kinvD(6) [OF assms(1)] t by (auto simp: tasks_ok_def)
  obtain i where i: "i < length (os_active_TCB s)" "os_active_TCB s ! i = t" using t(1) by (auto simp: in_set_conv_nth)
  then have "unat (task_id s t) = Suc i" using assms(2) t(2) by (auto simp: tables_ok_def ids_ok_def)
  then show "(ucast (task_id s t) :: U32) \<noteq> 0" "tsk_active (ucast (task_id s t)) s = t"
    "os_active_TCB s ! (unat (ucast (task_id s t) :: U32) - 1) = t"
    using i by (auto simp: tsk_active_def ucast_8_32_0 simp del: ucast_0)
qed

lemma priority_goes:
  assumes K: "kinv s q ds" and T: "tables_ok s" and r: "run s \<noteq> OS_IDLE" and t: "thread_ok s t"
  shows "keeps s q (svcThreadSetPriority t p s)"
proof (cases "rt_tid2ptcb s t = NULL \<or> p < osPriorityIdle \<or> osPriorityRealtime < p")
  case True
  then show ?thesis using keeps_stay [OF K] by (auto simp: svcThreadSetPriority_def Let_def)
next
  case False
  then have n: "rt_tid2ptcb s t \<noteq> NULL" by blast
  note o = thread_okD [OF K T t n]
  let ?v = "word_of_int (p - osPriorityIdle + 1) :: U8"
  have "keeps s q (rt_tsk_prio (ucast (task_id s t)) ?v s)"
  proof (cases "t = run s")
    case True
    obtain x B where q: "q OS_RDY = x # B" using kinv_rdy_nonempty [OF K r] by blast
    have n: "run s \<noteq> NULL" using kinvD(9) [OF K] by simp
    note u = unwaited_if [OF unwaited_ready(2) [OF K] unwaited_refl]
    show ?thesis
      by (rule tsk_prio_run_ok [OF K q refl, of ?v], rule keepsI [OF _ _ u, of _ OS_R_OK])
        (use o n True in \<open>simp_all add: rt_tsk_prio_def\<close>)
  next
    case ne: False
    show ?thesis
      by (rule rt_tsk_prio_other [OF K o(3,4,2) ne, of ?v]) (rule keepsI; (assumption | (rule unwaited_sets [OF K], assumption)))
  qed
  from keeps_map [OF this, of "\<lambda>res s. if res = OS_R_NOK then osErrorResource else osOK"]
  show ?thesis using False o(1) by (simp add: svcThreadSetPriority_def Let_def)
qed

lemma signal_goes:
  assumes K: "kinv s q ds" and T: "tables_ok s" and t: "thread_ok s t"
  shows "keeps s q (svcSignalSet t sig s)"
proof (cases "rt_tid2ptcb s t = NULL \<or> bad_signals sig")
  case True
  then show ?thesis using keeps_stay [OF K] by (auto simp: svcSignalSet_def Let_def)
next
  case False
  then have n: "rt_tid2ptcb s t \<noteq> NULL" by blast
  note o = thread_okD [OF K T t n]
  have "goes s q (rt_evt_set (ucast sig) (ucast (task_id s t)) s)" by (rule evt_set_keeps [OF K o(5,2)])
  then show ?thesis using False o(1)
    by (cases "rt_evt_set (ucast sig) (ucast (task_id s t)) s") (simp_all add: keeps_def svcSignalSet_def Let_def)
qed

lemma delay_goes:
  assumes K: "kinv s q ds" and r: "run s \<noteq> OS_IDLE"
  shows "keeps s q (svcDelay ms s)"
proof (cases "ms = 0 \<or> rt_ms2tick ms = 0")
  case True
  then have "\<exists>r. svcDelay ms s = Some (r, s)" by (auto simp: svcDelay_def rt_dly_wait_def rt_block_def)
  then show ?thesis using keeps_stay [OF K] by auto
next
  case False
  then have "rt_ms2tick ms \<noteq> 0" by blast
  show ?thesis
    by (rule rt_dly_wait_block [OF K r \<open>rt_ms2tick ms \<noteq> 0\<close>], rule keepsI [OF _ _ unwaited_ready(2) [OF K]])
      (use False in \<open>simp_all add: svcDelay_def\<close>)
qed

text \<open>The services of threads that change no books.\<close>

lemma books_upholds:
  assumes "kinv s q ds" "mutexes s q own" "timers_ok s ts" "tables_ok s" "keeps s q r"
    "\<And>x s'. r = Some (x, s') \<Longrightarrow> books s' = books s"
  shows "upholds (map_option snd r)"
  by (rule books_step [OF assms(1-4)]) (use assms(5,6) in \<open>auto simp: keeps_def\<close>)

lemma thread_services:
  assumes I: "kinv s q ds" "mutexes s q own" "timers_ok s ts" "tables_ok s" and ok: "kok e s"
  shows "e = ThreadYield \<or> e = SetPriority t p \<or> e = Delay ms \<or> e = SignalSet t sig \<or> e = SignalClear t sig \<or>
    e = SignalWait sig ms \<or> e = SemWait h ms \<or> e = SemRelease h \<or> e = MsgPut m v ms \<or> e = MsgGet m ms
    \<Longrightarrow> upholds (handler e s)"
proof (elim disjE)
  note K = I(1) and b = books_upholds [OF I]
  assume e: "e = ThreadYield"
  then obtain t B where q: "q OS_RDY = t # B" using kinv_rdy_nonempty [OF K] ok by (auto simp: kok_def)
  have "keeps s q (svcThreadYield s)"
    by (rule rt_tsk_pass_ok [OF K q], rule keepsI [OF _ _ unwaited_if [OF unwaited_ready(2) [OF K] unwaited_refl]])
      (simp_all add: svcThreadYield_def)
  then show ?thesis unfolding e handler_def kevent.case by (rule b) (rule svc_books)
next
  note b = books_upholds [OF I]
  assume e: "e = SetPriority t p"
  have "keeps s q (svcThreadSetPriority t p s)" by (rule priority_goes [OF I(1,4)]) (use ok in \<open>simp_all add: kok_def e\<close>)
  then show ?thesis unfolding e handler_def kevent.case by (rule b) (rule svc_books)
next
  note b = books_upholds [OF I]
  assume e: "e = Delay ms"
  have "keeps s q (svcDelay ms s)" by (rule delay_goes [OF I(1)]) (use ok in \<open>simp add: kok_def e\<close>)
  then show ?thesis unfolding e handler_def kevent.case by (rule b) (rule svc_books)
next
  note b = books_upholds [OF I]
  assume e: "e = SignalSet t sig"
  have "keeps s q (svcSignalSet t sig s)" by (rule signal_goes [OF I(1,4)]) (use ok in \<open>simp add: kok_def e\<close>)
  then show ?thesis unfolding e handler_def kevent.case by (rule b) (rule svc_books)
next
  assume e: "e = SignalClear t sig"
  let ?s' = "snd (svcSignalClear t sig s)"
  have "sysinv ?s'"
  proof (rule sysinv_books [OF sysinvI [OF I] svc_books(5)])
    fix q ds assume "kinv s q ds"
    then show "kinv ?s' q ds" using kinv_cong [of ?s' s q ds] by (auto simp: svcSignalClear_def rt_evt_clr_def Let_def)
  qed
  then show ?thesis unfolding e handler_def kevent.case by (rule sysinv_switch_same)
next
  note b = books_upholds [OF I]
  assume e: "e = SignalWait sig ms"
  then have r: "run s \<noteq> OS_IDLE" using ok by (simp add: kok_def)
  have "keeps s q (svcSignalWait sig ms s)"
  proof (cases "bad_signals sig")
    case False
    show ?thesis unfolding svcSignalWait_def if_not_P [OF False]
      by (rule keeps_map_snd) (use evt_wait_keeps [OF I(1) r] in auto)
  qed (use keeps_stay [OF I(1)] in \<open>simp add: svcSignalWait_def\<close>)
  then show ?thesis unfolding e handler_def kevent.case by (rule b) (rule svc_books)
next
  note b = books_upholds [OF I]
  assume e: "e = SemWait h ms"
  then have r: "run s \<noteq> OS_IDLE" using ok by (simp add: kok_def)
  have "keeps s q (svcSemaphoreWait h ms s)"
  proof (cases "rt_id2obj h = NULL \<or> cb_type s (rt_id2obj h) \<noteq> SCB")
    case True
    then show ?thesis using keeps_stay [OF I(1)] by (auto simp: svcSemaphoreWait_def Let_def)
  next
    case False
    then show ?thesis unfolding svcSemaphoreWait_def Let_def
      by (simp, intro keeps_map sem_wait_keeps [OF I(1) _ r]) simp
  qed
  then show ?thesis unfolding e handler_def kevent.case by (rule b) (rule svc_books)
next
  note b = books_upholds [OF I]
  assume e: "e = SemRelease h"
  have "keeps s q (svcSemaphoreRelease h s)"
  proof (cases "rt_id2obj h = NULL \<or> cb_type s (rt_id2obj h) \<noteq> SCB \<or> uint (tokens s (rt_id2obj h)) = osFeature_Semaphore")
    case True
    then show ?thesis using keeps_stay [OF I(1)] by (auto simp: svcSemaphoreRelease_def Let_def)
  next
    case False
    then show ?thesis unfolding svcSemaphoreRelease_def Let_def
      by (simp, intro keeps_map sem_release_keeps [OF I(1)]) simp
  qed
  then show ?thesis unfolding e handler_def kevent.case by (rule b) (rule svc_books)
next
  note b = books_upholds [OF I]
  assume e: "e = MsgPut m v ms"
  then have r: "run s \<noteq> OS_IDLE" using ok by (simp add: kok_def)
  have "keeps s q (svcMessagePut m v ms s)"
  proof (cases "m = NULL \<or> cb_type s m \<noteq> MCB")
    case True
    then show ?thesis using keeps_stay [OF I(1)] by (auto simp: svcMessagePut_def)
  next
    case False
    then show ?thesis unfolding svcMessagePut_def
      by (simp split del: if_split, intro keeps_map mbx_put_keeps [OF I(1) _ r]) simp
  qed
  then show ?thesis unfolding e handler_def kevent.case by (rule b) (rule svc_books)
next
  note b = books_upholds [OF I]
  assume e: "e = MsgGet m ms"
  then have r: "run s \<noteq> OS_IDLE" using ok by (simp add: kok_def)
  have "keeps s q (svcMessageGet m ms s)"
  proof (cases "m = NULL \<or> cb_type s m \<noteq> MCB")
    case True
    then show ?thesis using keeps_stay [OF I(1)] by (auto simp: svcMessageGet_def)
  next
    case False
    then show ?thesis unfolding svcMessageGet_def
      by (simp split del: if_split, intro keeps3_map mbx_get_keeps [OF I(1) _ r]) simp
  qed
  then show ?thesis unfolding e handler_def kevent.case by (rule b) (rule svc_books)
qed

text \<open>The services that create and delete objects.\<close>

lemma thread_create_upholds:
  assumes I: "kinv s q ds" "mutexes s q own" "timers_ok s ts" "tables_ok s"
  shows "upholds (map_option snd (svcThreadCreate texit (Some td) arg s))"
proof -
  have st: "upholds (Some s)" by (rule sysinv_switch_same [OF sysinvI [OF I]])
  let ?c = "rt_tsk_create (td_pthread td) (word_of_int (td_tpriority td - osPriorityIdle + 1) OR push_bit 8 (td_stacksize td))
      (if td_stacksize td \<noteq> 0 then td_stack_pointer td else 0) arg s"
  have "upholds (map_option snd ?c)" by (rule tsk_create_upholds [OF I])
  then obtain s'' where "map_option snd ?c = Some s''" "sysinv (switch_context s'')" unfolding upholds_def by blast
  then obtain i s' where c: "?c = Some (i, s')" "sysinv (switch_context s')" by fastforce
  have sw: "sysinv (switch_context (s'\<lparr>stack_word := f\<rparr>))" for f
    by (rule sysinv_books [OF c(2)]) (simp, use kinv_cong [of "switch_context (s'\<lparr>stack_word := f\<rparr>)" "switch_context s'"]
      in \<open>simp add: switch_context_def\<close>)
  show ?thesis using c st sw upholdsI [OF refl] by (auto simp: svcThreadCreate_def Let_def)
qed

lemma object_services:
  assumes I: "kinv s q ds" "mutexes s q own" "timers_ok s ts" "tables_ok s" and ok: "kok e s"
  shows "e = ThreadCreate td arg \<or> e = MutexCreate h \<or> e = MutexDelete h \<or> e = SemCreate h n \<or> e = SemDelete h \<or>
    e = MsgCreate qd \<Longrightarrow> upholds (handler e s)"
proof (elim disjE)
  assume e: "e = ThreadCreate td arg"
  show ?thesis unfolding e handler_def kevent.case by (rule thread_create_upholds [OF I])
next
  assume e: "e = MutexCreate h"
  have "upholds (Some (rt_mut_init h s))" if "h \<noteq> NULL" "cb_type s h = 0"
  proof (rule create_object [OF I])
    show "free_addr s h" "h \<notin> CB ` set (box_mem s (mp_tcb s))" using ok e by (simp_all add: kok_def unused_def)
    show "is_sem_mbx (rt_mut_init h s) h" by (simp add: rt_mut_init_def is_sem_mbx_def)
    show "plain (rt_mut_init h s) = plain (set_cb_type h MUCB s)" by (simp add: rt_mut_init_def)
  qed (use that in \<open>simp_all add: rt_mut_init_def\<close>)
  then show ?thesis using sysinv_switch_same [OF sysinvI [OF I]] by (auto simp: e handler_def svcMutexCreate_def)
next
  assume e: "e = MutexDelete h"
  have "upholds (map_option snd (svcMutexDelete h s))"
  proof (cases "rt_id2obj h = NULL \<or> cb_type s (rt_id2obj h) \<noteq> MUCB")
    case True
    then show ?thesis using sysinv_switch_same [OF sysinvI [OF I]] by (auto simp: svcMutexDelete_def Let_def)
  next
    case False
    then have "upholds (map_option snd (rt_mut_delete (rt_id2obj h) s))" by (intro mut_delete_upholds [OF I]) simp
    then show ?thesis using False by (cases "rt_mut_delete (rt_id2obj h) s") (auto simp: svcMutexDelete_def Let_def)
  qed
  then show ?thesis by (simp add: e handler_def)
next
  assume e: "e = SemCreate h n"
  have "upholds (Some (rt_sem_init h (word_of_int n) s))" if "h \<noteq> NULL" "cb_type s h = 0"
  proof (rule create_object [OF I])
    show "free_addr s h" "h \<notin> CB ` set (box_mem s (mp_tcb s))" using ok e by (simp_all add: kok_def unused_def)
    show "is_sem_mbx (rt_sem_init h (word_of_int n) s) h" by (simp add: rt_sem_init_def is_sem_mbx_def)
    show "plain (rt_sem_init h (word_of_int n) s) = plain (set_cb_type h SCB s)" by (simp add: rt_sem_init_def)
    show "level (rt_sem_init h (word_of_int n) s) = (level s)(h := level s h)"
      "owner (rt_sem_init h (word_of_int n) s) = (owner s)(h := owner s h)"
      "p_mlnk (rt_sem_init h (word_of_int n) s) = (p_mlnk s)(h := p_mlnk s h)" by (simp_all add: rt_sem_init_def)
  qed (use that in \<open>simp_all add: rt_sem_init_def cb_types\<close>)
  then show ?thesis using sysinv_switch_same [OF sysinvI [OF I]] by (auto simp: e handler_def svcSemaphoreCreate_def)
next
  assume e: "e = SemDelete h"
  have "upholds (map_option snd (svcSemaphoreDelete h s))"
  proof (cases "rt_id2obj h = NULL \<or> cb_type s (rt_id2obj h) \<noteq> SCB")
    case True
    then show ?thesis using sysinv_switch_same [OF sysinvI [OF I]] by (auto simp: svcSemaphoreDelete_def Let_def)
  next
    case False
    then have "rt_id2obj h = h" by (auto simp: rt_id2obj_def split: if_splits)
    then have "upholds (map_option snd (rt_sem_delete (rt_id2obj h) s))"
      using False ok by (intro sem_delete_upholds [OF I]) (simp_all add: e kok_def)
    then show ?thesis using False by (cases "rt_sem_delete (rt_id2obj h) s") (auto simp: svcSemaphoreDelete_def Let_def)
  qed
  then show ?thesis by (simp add: e handler_def)
next
  assume e: "e = MsgCreate qd"
  let ?h = "qd_pool qd" and ?i = "rt_mbx_init (qd_pool qd) (ucast (4 * (qd_sz qd + 4)))"
  have "upholds (Some (?i s))" if "cb_type s ?h = 0"
  proof (rule create_object [OF I])
    show "free_addr s ?h" "?h \<notin> CB ` set (box_mem s (mp_tcb s))" using ok e by (simp_all add: kok_def unused_def)
    show "is_sem_mbx (?i s) ?h" by (simp add: rt_mbx_init_def is_sem_mbx_def Let_def)
    show "plain (?i s) = plain (set_cb_type ?h MCB s)" by (simp add: rt_mbx_init_def Let_def)
    show "level (?i s) = (level s)(?h := level s ?h)" "owner (?i s) = (owner s)(?h := owner s ?h)"
      "p_mlnk (?i s) = (p_mlnk s)(?h := p_mlnk s ?h)" by (simp_all add: rt_mbx_init_def Let_def)
  qed (use that in \<open>simp_all add: rt_mbx_init_def Let_def cb_types\<close>)
  then show ?thesis using sysinv_switch_same [OF sysinvI [OF I]] by (auto simp: e handler_def svcMessageCreate_def)
qed

text \<open>No two active tasks have the same identifier.\<close>

lemma task_id_other:
  assumes K: "kinv s q ds" and T: "tables_ok s" and r: "run s \<noteq> OS_IDLE" and t: "t \<in> set (os_active_TCB s)" "t \<noteq> NULL" "t \<noteq> run s"
  shows "task_id s t \<noteq> task_id s (run s)"
proof -
  note k = kinvD [OF K]
  obtain i where i: "i < length (os_active_TCB s)" "os_active_TCB s ! i = t" using t(1) by (auto simp: in_set_conv_nth)
  have "is_task s (run s)" "run s \<noteq> NULL" by (rule k)+
  then have "run s \<in> set (os_active_TCB s)" using r by (simp add: is_task_def)
  then obtain j where j: "j < length (os_active_TCB s)" "os_active_TCB s ! j = run s" by (auto simp: in_set_conv_nth)
  have "unat (task_id s (run s)) = Suc j" "unat (task_id s t) = Suc i"
    using task_place(1) [OF T j k(9)] task_place(1) [OF T i t(2)] .
  moreover have "i \<noteq> j" using i j t(3) by auto
  ultimately show ?thesis by auto
qed

text \<open>The end of a thread: its mutexes go to the first tasks that wait for them.\<close>

lemma terminate_ok:
  assumes I: "kinv s q ds" "mutexes s q own" "timers_ok s ts" "tables_ok s" and ok: "kok (ThreadTerminate t) s"
    and n: "rt_tid2ptcb s t \<noteq> NULL"
  obtains s' where "svcThreadTerminate t s = Some (osOK, s')" "sysinv (switch_context s')" "t \<notin> set (os_active_TCB s')"
    "\<And>m. cb_type s m = MUCB \<Longrightarrow> level s m \<noteq> 0 \<Longrightarrow> owner s m = t \<Longrightarrow>
       (p_lnk s m = NULL \<longrightarrow> level s' m = 0) \<and>
       (p_lnk s m \<notin> {NULL, t} \<longrightarrow> level s' m = 1 \<and> owner s' m = p_lnk s m \<and> state s' (p_lnk s m) \<in> {READY, RUNNING})"
proof -
  note k = kinvD [OF I(1)]
  have c: "run s \<noteq> OS_IDLE" "t \<noteq> OS_IDLE" "thread_ok s t" "\<forall>x\<in>set (psq_items s). fst x \<noteq> t"
    using ok by (simp_all add: kok_def)
  note o = thread_okD [OF I(1,4) c(3) n]
  have t: "t \<in> set (os_active_TCB s)" "t \<noteq> NULL" using c(3) n o(1) by (auto simp: thread_ok_def)
  obtain i where i: "i < length (os_active_TCB s)" "os_active_TCB s ! i = t" using t(1) by (auto simp: in_set_conv_nth)
  obtain b where b: "t = CB b" using o(2) c(2) by (cases t) (auto simp: is_task_def)
  define tid :: U32 where "tid = ucast (task_id s t)"
  have gone: "t \<notin> set ((os_active_TCB s)[i := NULL])"
  proof
    assume "t \<in> set ((os_active_TCB s)[i := NULL])"
    then obtain j where j: "j < length (os_active_TCB s)" "(os_active_TCB s)[i := NULL] ! j = t" by (auto simp: in_set_conv_nth)
    then have "j \<noteq> i" using t(2) by auto
    then show False using task_place(2) [OF I(4) i t(2), of j] j by simp
  qed
  have hd: "p_lnk s m = hd0 (q m)" if "cb_type s m = MUCB" for m
    using p_lnk_head [OF schedD(1) [OF k(1)], of m] is_sem_MUCB [OF that] by (simp add: is_head_def)
  have nq: "NULL \<notin> set (q m)" for m
    using queues_task [OF schedD(1) [OF k(1)]] by (auto simp: is_task_def)
  have own: "m \<in> set (own t)" if "cb_type s m = MUCB" "level s m \<noteq> 0" "owner s m = t" for m
    using mutexesD(3) [OF I(2) o(2)] that by simp
  note found = that
  have fin: thesis if d: "rt_tsk_delete tid s = Some (OS_R_OK, s')" "sysinv (switch_context s')"
      "os_active_TCB s' = (os_active_TCB s)[i := NULL]"
      and m: "\<And>m x B. m \<in> set (own t) \<Longrightarrow> level s' m = (case removeAll t (q m) of [] \<Rightarrow> 0 | _ \<Rightarrow> 1) \<and>
        (removeAll t (q m) = x # B \<longrightarrow> owner s' m = x \<and> state s' x \<in> {READY, RUNNING})" for s'
  proof (rule found)
    show "svcThreadTerminate t s = Some (osOK, s')"
      using d(1) n o(1) by (simp add: svcThreadTerminate_def Let_def tid_def OS_R_OK_def OS_R_NOK_def)
    show "sysinv (switch_context s')" by (rule d(2))
    show "t \<notin> set (os_active_TCB s')" unfolding d(3) by (rule gone)
    fix m assume mm: "cb_type s m = MUCB" "level s m \<noteq> 0" "owner s m = t"
    note w = m [OF own [OF mm]]
    show "(p_lnk s m = NULL \<longrightarrow> level s' m = 0) \<and>
       (p_lnk s m \<notin> {NULL, t} \<longrightarrow> level s' m = 1 \<and> owner s' m = p_lnk s m \<and> state s' (p_lnk s m) \<in> {READY, RUNNING})"
    proof (cases "q m")
      case Nil
      then show ?thesis using w [of NULL "[]"] hd [OF mm(1)] by simp
    next
      case (Cons x B)
      then show ?thesis using w [of x "removeAll t B"] hd [OF mm(1)] nq [of m] by (cases "x = t") auto
    qed
  qed
  show thesis
  proof (cases "t = run s")
    case True
    have rq: "\<forall>x\<in>set (psq_items s). fst x \<noteq> run s" and td: "tid = ucast (task_id s (run s))"
      and ir: "os_active_TCB s ! i = run s" "run s = CB b" using c(4) i b True by (simp_all add: tid_def)
    have rm: "removeAll t (q m) = q m" for m using k(10) [of m] True by simp
    show thesis
    proof (rule rt_tsk_delete_self [OF I i(1) ir rq td])
      fix s' assume d: "rt_tsk_delete tid s = Some (OS_R_OK, s')" "sysinv (switch_context s')"
        "os_active_TCB s' = (os_active_TCB s)[i := NULL]"
        "\<And>m t B. m \<in> set (own (run s)) \<Longrightarrow> level s' m = (case q m of [] \<Rightarrow> 0 | _ \<Rightarrow> 1) \<and> (q m = t # B \<longrightarrow> owner s' m = t \<and>
       state s' t \<in> {READY, RUNNING})"
      show thesis by (rule fin [OF d(1-3)]) (unfold rm, use d(4) True in simp)
    qed
  next
    case False
    have "task_id s t \<noteq> task_id s (run s)" by (rule task_id_other [OF I(1,4) c(1) t False])
    then have ne: "tid \<noteq> ucast (task_id s (run s))"
      unfolding tid_def by (simp add: word_unat_eq_iff)
    show thesis
      by (rule rt_tsk_delete_other [OF I c(1) i b False c(4) tid_def ne]) (rule fin; assumption)
  qed
qed

lemma terminate_upholds:
  assumes I: "kinv s q ds" "mutexes s q own" "timers_ok s ts" "tables_ok s" and ok: "kok (ThreadTerminate t) s"
  shows "upholds (handler (ThreadTerminate t) s)"
proof (cases "rt_tid2ptcb s t = NULL")
  case True
  then have "svcThreadTerminate t s = Some (osErrorParameter, s)" by (simp add: svcThreadTerminate_def)
  then show ?thesis using sysinv_switch_same [OF sysinvI [OF I]] by (simp add: handler_def)
next
  case False
  show ?thesis by (rule terminate_ok [OF I ok False]) (simp add: handler_def upholds_def)
qed

text \<open>The services of the mutexes and of the timers.\<close>

lemma rt_id2obj_self: "rt_id2obj m \<noteq> NULL \<Longrightarrow> rt_id2obj m = m"
  by (auto simp: rt_id2obj_def split: if_splits)

lemma mutex_services:
  assumes I: "kinv s q ds" "mutexes s q own" "timers_ok s ts" "tables_ok s" and ok: "kok e s"
  shows "e = MutexWait m ms \<or> e = MutexRelease m \<Longrightarrow> upholds (handler e s)"
proof (elim disjE)
  assume e: "e = MutexWait m ms"
  have "upholds (map_option snd (svcMutexWait m ms s))"
  proof (cases "rt_id2obj m = NULL \<or> cb_type s (rt_id2obj m) \<noteq> MUCB")
    case True
    then show ?thesis using sysinv_switch_same [OF sysinvI [OF I]] by (auto simp: svcMutexWait_def Let_def)
  next
    case False
    then have m: "rt_id2obj m = m" "cb_type s m = MUCB" using rt_id2obj_self [of m] by auto
    have "upholds (map_option snd (rt_mut_wait m (rt_ms2tick ms) s))"
      by (rule mut_wait_upholds [OF I m(2)]) (use ok in \<open>simp_all add: e kok_def\<close>)
    then show ?thesis using False m
      by (cases "rt_mut_wait m (rt_ms2tick ms) s") (auto simp: svcMutexWait_def Let_def)
  qed
  then show ?thesis by (simp add: e handler_def)
next
  assume e: "e = MutexRelease m"
  have "upholds (map_option snd (svcMutexRelease m s))"
  proof (cases "rt_id2obj m = NULL \<or> cb_type s (rt_id2obj m) \<noteq> MUCB")
    case True
    then show ?thesis using sysinv_switch_same [OF sysinvI [OF I]] by (auto simp: svcMutexRelease_def Let_def)
  next
    case False
    then have "upholds (map_option snd (rt_mut_release (rt_id2obj m) s))"
      using ok by (intro mut_release_upholds [OF I]) (simp_all add: e kok_def)
    then show ?thesis using False
      by (cases "rt_mut_release (rt_id2obj m) s") (auto simp: svcMutexRelease_def Let_def)
  qed
  then show ?thesis by (simp add: e handler_def)
qed

lemma timer_stop_upholds:
  assumes S: "sysinv s"
  shows "upholds (map_option snd (svcTimerStop t s))"
proof (cases "rt_id2obj t = NULL \<or> tmr_state s (rt_id2obj t) \<noteq> osTimerRunning")
  case True
  then show ?thesis using sysinv_switch_same [OF S] by (auto simp: svcTimerStop_def Let_def)
next
  case False
  then have t: "rt_id2obj t \<noteq> NULL" "tmr_state s (rt_id2obj t) = osTimerRunning" by simp_all
  have v: "osTimerStopped \<noteq> osTimerRunning" by (simp add: osTimerStopped_def osTimerRunning_def)
  show ?thesis
    by (rule timer_halt [OF S t(2) v]) (simp add: svcTimerStop_def Let_def t)
qed

lemma timer_delete_upholds:
  assumes S: "sysinv s"
  shows "upholds (map_option snd (svcTimerDelete t s))"
proof -
  define pt where "pt = rt_id2obj t"
  have w: "osTimerInvalid \<noteq> osTimerRunning" "osTimerStopped \<noteq> osTimerRunning"
    by (simp_all add: osTimerInvalid_def osTimerRunning_def osTimerStopped_def)
  consider "pt = NULL \<or> tmr_state s pt \<notin> {osTimerRunning, osTimerStopped}"
    | "pt \<noteq> NULL" "tmr_state s pt = osTimerRunning" | "pt \<noteq> NULL" "tmr_state s pt = osTimerStopped" by blast
  then show ?thesis
  proof cases
    case 1
    then show ?thesis using sysinv_switch_same [OF S] by (auto simp: svcTimerDelete_def Let_def pt_def)
  next
    case 2
    show ?thesis
      by (rule timer_drop [OF S 2(2) w(1)]) (use 2 in \<open>simp add: svcTimerDelete_def Let_def flip: pt_def\<close>)
  next
    case 3
    let ?s1 = "set_tmr_state pt osTimerInvalid s"
    have "upholds (Some ?s1)"
    proof (rule tmr_only_upholds [OF S untimed_only])
      fix ts assume T: "timers_ok s ts"
      note T' = timers_ok_fields [OF T]
      have "timers ?s1 ts" using T' timers_cong [of ?s1 s ts] by simp
      moreover have "tmr_state ?s1 u = osTimerRunning \<longleftrightarrow> tmr_state s u = osTimerRunning" for u
        using 3 w by auto
      ultimately have "timers_ok ?s1 ts" using T' unfolding timers_ok_iff by simp
      then show "\<exists>ts'. timers_ok ?s1 ts'" ..
    qed simp
    then show ?thesis using 3 w by (simp add: svcTimerDelete_def Let_def flip: pt_def)
  qed
qed

text \<open>What interrupt handlers do.\<close>

lemma mbx_receive_upholds:
  assumes S: "sysinv s" and m: "cb_type s m = MCB"
  shows "sysinv (snd (snd (isr_mbx_receive m s)))"
proof (cases "mcb_count s m = 0")
  case False
  let ?s1 = "if mcb_state s m = 2 then rt_psh_req (rt_psq_enq m 0 s) else s"
  have "sysinv ?s1" using S request_upholds [OF S, of m 0] m by (simp add: request_ok_def)
  then have "sysinv (mbx_dec m ?s1)"
    by (rule sysinv_books) (simp, rule kinv_quiet_any [OF _ quiet_mbx(3)], simp_all)
  then have "sysinv (snd (mbx_fetch m (mbx_dec m ?s1)))"
    by (rule sysinv_books) (simp, rule kinv_quiet_any [OF _ quiet_mbx(5)], simp_all)
  then show ?thesis using False by (simp add: isr_mbx_receive_def Let_def)
qed (use S in \<open>simp add: isr_mbx_receive_def\<close>)

lemma isr_services:
  assumes I: "kinv s q ds" "mutexes s q own" "timers_ok s ts" "tables_ok s" and ok: "kok e s"
  shows "e = IsrSignalSet t sig \<or> e = IsrSemRelease h \<or> e = IsrMsgPut h v \<or> e = IsrMsgGet h
    \<Longrightarrow> upholds (handler e s)"
proof (elim disjE)
  note S = sysinvI [OF I] and st = sysinv_switch_same
  assume e: "e = IsrSignalSet t sig"
  then have t: "thread_ok s t" using ok by (simp add: kok_def)
  have "sysinv (snd (isrSignalSet t sig s))"
  proof (cases "rt_tid2ptcb s t = NULL \<or> bad_signals sig")
    case True
    then show ?thesis using S by (auto simp: isrSignalSet_def Let_def)
  next
    case False
    note o = thread_okD [OF I(1,4) t, OF conjunct1 [OF False [unfolded de_Morgan_disj]]]
    have "sysinv (rt_psh_req (rt_psq_enq t (ucast (ucast sig :: U16)) s))"
      by (rule request_upholds [OF S]) (simp add: request_ok_def o(2))
    then show ?thesis using False o S by (simp add: isrSignalSet_def isr_evt_set_def Let_def)
  qed
  then show ?thesis unfolding e handler_def kevent.case by (rule st)
next
  note S = sysinvI [OF I] and st = sysinv_switch_same
  assume e: "e = IsrSemRelease h"
  have "sysinv (snd (isrSemaphoreRelease h s))"
    using S request_upholds [OF S, of "rt_id2obj h" 0]
    by (auto simp: isrSemaphoreRelease_def isr_sem_send_def request_ok_def Let_def)
  then show ?thesis unfolding e handler_def kevent.case by (rule st)
next
  note S = sysinvI [OF I] and st = sysinv_switch_same
  assume e: "e = IsrMsgPut h v"
  have "sysinv (snd (isrMessagePut h v 0 s))"
    using S request_upholds [OF S, of h v] by (auto simp: isrMessagePut_def isr_mbx_send_def request_ok_def)
  then show ?thesis unfolding e handler_def kevent.case by (rule st)
next
  note S = sysinvI [OF I] and st = sysinv_switch_same
  assume e: "e = IsrMsgGet h"
  have "sysinv (snd (isrMessageGet h 0 s))"
    using S mbx_receive_upholds [OF S, of h] by (auto simp: isrMessageGet_def split_def Let_def)
  then show ?thesis unfolding e handler_def kevent.case by (rule st)
qed

text \<open>Every handler keeps the invariant.\<close>

theorem handler_upholds:
  assumes S: "sysinv s" and ok: "kok e s"
  shows "upholds (handler e s)"
proof -
  obtain q ds own ts where I: "kinv s q ds" "mutexes s q own" "timers_ok s ts" "tables_ok s"
    using S by (rule sysinvE)
  note services = thread_services [OF I ok] object_services [OF I ok] mutex_services [OF I ok] isr_services [OF I ok]
  show ?thesis
  proof (cases e)
    case (ThreadTerminate t)
    then show ?thesis using terminate_upholds [OF I, of t] ok by simp
  next
    case (TimerCreate td ty arg)
    then show ?thesis using timer_create_upholds [OF S] by (simp add: handler_def)
  next
    case (TimerStart t ms)
    then show ?thesis using timer_start_upholds [OF S] by (simp add: handler_def)
  next
    case (TimerStop t)
    then show ?thesis using timer_stop_upholds [OF S] by (simp add: handler_def)
  next
    case (TimerDelete t)
    then show ?thesis using timer_delete_upholds [OF S] by (simp add: handler_def)
  next
    case SysTick
    then show ?thesis using systick_upholds [OF S] by (simp add: handler_def)
  next
    case PendSV
    then show ?thesis using pop_req_upholds [OF S] by (simp add: handler_def)
  qed (use services in blast)+
qed

section \<open>Handlers that find room\<close>

text \<open>A handler that finds room does not call \<open>os_error\<close>.\<close>

lemma init_err [simp]: "os_err (rt_mut_init h s) = os_err s" "os_err (rt_sem_init h n s) = os_err s"
  "os_err (rt_mbx_init h n s) = os_err s"
  by (simp_all add: rt_mut_init_def rt_sem_init_def rt_mbx_init_def Let_def)

lemma thread_create_err: "svcThreadCreate texit td arg s = Some (p, s') \<Longrightarrow> os_err s' = os_err s"
  unfolding svcThreadCreate_def Let_def
  by (cases td) (simp, simp only: option.case, elim bind_SomeE if_SomeE, auto simp: bind_eq_Some_conv dest!: tsk_create_err split: if_splits)

lemma handler_err_threads:
  "svcThreadYield s = Some (r, s') \<Longrightarrow> os_err s' = os_err s"
  "svcThreadSetPriority t pr s = Some (r, s') \<Longrightarrow> os_err s' = os_err s"
  "svcDelay ms s = Some (r, s') \<Longrightarrow> os_err s' = os_err s"
  unfolding svcThreadYield_def svcThreadSetPriority_def svcDelay_def Let_def
  by (elim bind_SomeE if_SomeE; clarsimp split: prod.splits simp: tsk_pass_err tsk_prio_err dly_wait_err)+

lemma handler_err_signals:
  "svcSignalSet t sig s = Some (r, s') \<Longrightarrow> os_err s' = os_err s"
  "svcSignalWait sig ms s = Some (ev, s') \<Longrightarrow> os_err s' = os_err s"
  unfolding svcSignalSet_def svcSignalWait_def Let_def
  by (elim bind_SomeE if_SomeE; clarsimp split: prod.splits if_splits simp: evt_set_err evt_wait_err)+

lemma signal_clear_err: "os_err (snd (svcSignalClear t sig s)) = os_err s"
  by (simp add: svcSignalClear_def Let_def)

lemma handler_err_mutexes:
  "svcMutexWait m ms s = Some (r, s') \<Longrightarrow> os_err s' = os_err s"
  "svcMutexRelease m s = Some (r, s') \<Longrightarrow> os_err s' = os_err s"
  "svcMutexDelete m s = Some (r, s') \<Longrightarrow> os_err s' = os_err s"
  unfolding svcMutexWait_def svcMutexRelease_def svcMutexDelete_def Let_def
  by (elim bind_SomeE if_SomeE; clarsimp split: prod.splits simp: mut_wait_err mut_release_err mut_delete_err)+

lemma handler_err_semaphores:
  "svcSemaphoreWait m ms s = Some (i, s') \<Longrightarrow> os_err s' = os_err s"
  "svcSemaphoreRelease m s = Some (r, s') \<Longrightarrow> os_err s' = os_err s"
  "svcSemaphoreDelete m s = Some (r, s') \<Longrightarrow> os_err s' = os_err s"
  unfolding svcSemaphoreWait_def svcSemaphoreRelease_def svcSemaphoreDelete_def Let_def
  by (elim bind_SomeE if_SomeE; clarsimp split: prod.splits simp: sem_wait_err sem_send_err sem_delete_err)+

lemma handler_err_messages:
  "svcMessagePut m v ms s = Some (r, s') \<Longrightarrow> os_err s' = os_err s"
  "svcMessageGet m ms s = Some (ev, s') \<Longrightarrow> os_err s' = os_err s"
  unfolding svcMessagePut_def svcMessageGet_def
  by (elim bind_SomeE if_SomeE; clarsimp split: prod.splits simp: mbx_send_err mbx_wait_err)+

lemma handler_err_create:
  "os_err (snd (svcMutexCreate h s)) = os_err s" "os_err (snd (svcSemaphoreCreate h n s)) = os_err s"
  "os_err (snd (svcMessageCreate qd s)) = os_err s"
  by (simp_all add: svcMutexCreate_def svcSemaphoreCreate_def svcMessageCreate_def split: option.split)

lemma handler_err_timers:
  "svcTimerStart t ms s = Some (r, s') \<Longrightarrow> os_err s' = os_err s"
  "svcTimerStop t s = Some (r, s') \<Longrightarrow> os_err s' = os_err s"
  "svcTimerDelete t s = Some (r, s') \<Longrightarrow> os_err s' = os_err s"
  by (auto simp: svcTimerStart_def svcTimerStop_def svcTimerDelete_def bind_eq_Some_conv Let_def
      dest!: timer_insert_err timer_remove_err split: if_splits)

lemma timer_create_err: "os_err (snd (svcTimerCreate td ty arg s)) = os_err s"
  by (simp add: svcTimerCreate_def Let_def split: option.split)

lemmas handler_err_some = thread_create_err handler_err_threads handler_err_signals handler_err_mutexes
  handler_err_semaphores handler_err_messages handler_err_timers

lemmas handler_err_all = signal_clear_err handler_err_create timer_create_err

lemma handler_err_isr:
  assumes "psq_wf s" "psq_count s < psq_size s"
  shows "os_err (snd (isrSignalSet t sig s)) = os_err s" "os_err (snd (isrSemaphoreRelease h s)) = os_err s"
    "os_err (snd (isrMessagePut h v ms s)) = os_err s" "os_err (snd (isrMessageGet h ms s)) = os_err s"
  using request_err [OF assms]
  by (simp_all add: isrSignalSet_def isr_evt_set_def isrSemaphoreRelease_def isr_sem_send_def isrMessagePut_def
      isr_mbx_send_def isrMessageGet_def isr_mbx_receive_def split_def Let_def)

lemma terminate_err:
  assumes I: "kinv s q ds" "tables_ok s" and ok: "kok (ThreadTerminate t) s" and r: "t = run s \<longrightarrow> stack_intact s"
    and h: "svcThreadTerminate t s = Some (x, s')"
  shows "os_err s' = os_err s"
proof (cases "rt_tid2ptcb s t = NULL")
  case True
  then show ?thesis using h by (simp add: svcThreadTerminate_def)
next
  case False
  have c: "run s \<noteq> OS_IDLE" "thread_ok s t" using ok by (simp_all add: kok_def)
  note o = thread_okD [OF I c(2) False]
  have t: "t \<in> set (os_active_TCB s)" "t \<noteq> NULL" using c(2) False o(1) by (auto simp: thread_ok_def)
  obtain y where d: "rt_tsk_delete (ucast (task_id s t)) s = Some (y, s')"
    using h False o(1) by (auto simp: svcThreadTerminate_def Let_def bind_eq_Some_conv)
  have "(ucast (task_id s t) :: U32) \<noteq> ucast (task_id s (run s))" if "t \<noteq> run s"
    using task_id_other [OF I c(1) t that] by (simp add: word_unat_eq_iff)
  then show ?thesis using tsk_delete_err [OF d] o(3) r by blast
qed

lemma handler_err:
  assumes S: "sysinv s" and ok: "kok e s" and r: "room e s" and h: "handler e s = Some s'"
  shows "os_err s' = os_err s"
proof -
  obtain q ds own ts where I: "kinv s q ds" "timers_ok s ts" "tables_ok s" using S by (rule sysinvE)
  have P: "psq_wf s" "\<forall>x\<in>set (psq_items s). request_ok s x" using I(3) by (simp_all add: tables_ok_def psq_inv_def)
  note e = handler_err_some and i = handler_err_all handler_err_isr [OF P(1)]
  show ?thesis
  proof (cases e)
    case (ThreadTerminate t)
    then show ?thesis using h ok r by (auto simp: handler_def room_def dest!: terminate_err [OF I(1,3)])
  next
    case SysTick
    then show ?thesis using h r systick_err [OF I(2) P(1)] by (simp add: handler_def room_def)
  next
    case PendSV
    then show ?thesis using h r pop_req_err [OF I(1) P] by (simp add: handler_def room_def)
  qed (use h r in \<open>auto simp: handler_def room_def i elim!: e\<close>)
qed

section \<open>The machine\<close>

definition kernel_ok :: "kernel \<Rightarrow> bool" where
  "kernel_ok s \<longleftrightarrow> sysinv s \<and> os_err s = None"

lemma err_switch [simp]: "os_err (switch_context s) = os_err s"
  by (simp add: switch_context_def)

lemma kstep_keeps: "kernel_ok s \<Longrightarrow> kok e s \<Longrightarrow> kstep e s = Some s' \<Longrightarrow> kernel_ok s'"
  using handler_upholds [of s e] unfolding kernel_ok_def upholds_def kstep_def by (auto split: if_splits)

lemma kstep_returns: "kernel_ok s \<Longrightarrow> kok e s \<Longrightarrow> room e s \<Longrightarrow> \<exists>s'. kstep e s = Some s' \<and> kernel_ok s'"
  using handler_upholds [of s e] handler_err [of s e] unfolding kernel_ok_def upholds_def kstep_def by auto

text \<open>A step that does not return is one whose handler has called \<open>os_error\<close>.\<close>

lemma kstep_stops: "kernel_ok s \<Longrightarrow> kok e s \<Longrightarrow> kstep e s = None \<Longrightarrow> \<exists>s'. handler e s = Some s' \<and> os_err s' \<noteq> None"
  using handler_upholds [of s e] unfolding kernel_ok_def upholds_def kstep_def by (auto split: if_splits)

interpretation kern: keeper kstep kernel_ok kok
  using kstep_keeps by unfold_locales

interpretation kern_room: stepper kstep kernel_ok "\<lambda>e s. kok e s \<and> room e s"
  using kstep_returns by unfold_locales blast

end
