(* ===== verification/Cmsis_Api.thy ===== *)
theory Cmsis_Api
  imports Cmsis_Services Rtx_MemBox
begin

text \<open>
  The public functions of \<open>rt_CMSIS.c\<close>.  \<open>isr\<close> says whether the caller is an interrupt handler or has
  disabled interrupts (\<open>__get_PRIMASK() != 0U || __get_IPSR() != 0U\<close>): then a function that may
  block or that creates an object refuses, and the others take their interrupt variants.  A call
  through the supervisor call instruction (\<open>__svcX\<close>) and a direct call have the same result.

  \<open>osThreadCreate\<close> and \<open>osThreadTerminate\<close> hold the mutex of the threads around their services, and
  \<open>osMailCAlloc\<close> mixes a mail queue with the words of its blocks; they are left out.  The
  start of the kernel is in \<open>Cmsis_Kernel\<close>.
\<close>

definition osEventMail :: U32 where "osEventMail = 0x20"

section \<open>Threads, delays and signals\<close>

definition osThreadGetId :: "bool \<Rightarrow> kernel \<Rightarrow> ptr" where
  "osThreadGetId isr s = (if isr then NULL else svcThreadGetId s)"

definition osThreadYield :: "bool \<Rightarrow> kernel \<Rightarrow> (U32 \<times> kernel) option" where
  "osThreadYield isr s = (if isr then Some (osErrorISR, s) else svcThreadYield s)"

definition osThreadSetPriority :: "bool \<Rightarrow> ptr \<Rightarrow> int \<Rightarrow> kernel \<Rightarrow> (U32 \<times> kernel) option" where
  "osThreadSetPriority isr thread_id priority s =
     (if isr then Some (osErrorISR, s) else svcThreadSetPriority thread_id priority s)"

definition osThreadGetPriority :: "bool \<Rightarrow> ptr \<Rightarrow> kernel \<Rightarrow> int" where
  "osThreadGetPriority isr thread_id s = (if isr then osPriorityError else svcThreadGetPriority thread_id s)"

text \<open>\<open>Inl\<close> is the error code that is returned in place of a state.\<close>

definition osThreadGetState :: "bool \<Rightarrow> ptr \<Rightarrow> kernel \<Rightarrow> U32 + tstate" where
  "osThreadGetState isr thread_id s =
     (if isr then Inl osErrorISR
      else let ptcb = rt_tid2ptcb s thread_id in
        if ptcb = NULL then Inr INACTIVE else Inr (state s ptcb))"

definition osThreadGetInfo :: "bool \<Rightarrow> ptr \<Rightarrow> thread_info \<Rightarrow> kernel \<Rightarrow> os_event" where
  "osThreadGetInfo isr thread_id info s =
     (if isr then \<lparr>ev_status = osErrorISR, ev_value = None\<rparr> else svcThreadGetInfo thread_id info s)"

definition osDelay :: "bool \<Rightarrow> U32 \<Rightarrow> kernel \<Rightarrow> (U32 \<times> kernel) option" where
  "osDelay isr millisec s = (if isr then Some (osErrorISR, s) else svcDelay millisec s)"

definition osSignalClear :: "bool \<Rightarrow> ptr \<Rightarrow> U32 \<Rightarrow> kernel \<Rightarrow> U32 \<times> kernel" where
  "osSignalClear isr thread_id signals s = (if isr then (0x80000000, s) else svcSignalClear thread_id signals s)"

definition osSignalWait :: "bool \<Rightarrow> U32 \<Rightarrow> U32 \<Rightarrow> kernel \<Rightarrow> (os_event \<times> kernel) option" where
  "osSignalWait isr signals millisec s =
     (if isr then Some (\<lparr>ev_status = osErrorISR, ev_value = None\<rparr>, s) else svcSignalWait signals millisec s)"

section \<open>Timers\<close>

definition osTimerCreate :: "bool \<Rightarrow> timer_def option \<Rightarrow> U8 \<Rightarrow> U32 \<Rightarrow> kernel \<Rightarrow> ptr \<times> kernel" where
  "osTimerCreate isr tdef type argument s = (if isr then (NULL, s) else svcTimerCreate tdef type argument s)"

definition osTimerStart :: "bool \<Rightarrow> ptr \<Rightarrow> U32 \<Rightarrow> kernel \<Rightarrow> (U32 \<times> kernel) option" where
  "osTimerStart isr timer_id millisec s =
     (if isr then Some (osErrorISR, s) else svcTimerStart timer_id millisec s)"

definition osTimerStop :: "bool \<Rightarrow> ptr \<Rightarrow> kernel \<Rightarrow> (U32 \<times> kernel) option" where
  "osTimerStop isr timer_id s = (if isr then Some (osErrorISR, s) else svcTimerStop timer_id s)"

definition osTimerDelete :: "bool \<Rightarrow> ptr \<Rightarrow> kernel \<Rightarrow> (U32 \<times> kernel) option" where
  "osTimerDelete isr timer_id s = (if isr then Some (osErrorISR, s) else svcTimerDelete timer_id s)"

section \<open>Mutexes and semaphores\<close>

definition osMutexCreate :: "bool \<Rightarrow> ptr option \<Rightarrow> kernel \<Rightarrow> ptr \<times> kernel" where
  "osMutexCreate isr mutex_def s = (if isr then (NULL, s) else svcMutexCreate mutex_def s)"

definition osMutexDelete :: "bool \<Rightarrow> ptr \<Rightarrow> kernel \<Rightarrow> (U32 \<times> kernel) option" where
  "osMutexDelete isr mutex_id s = (if isr then Some (osErrorISR, s) else svcMutexDelete mutex_id s)"

definition osSemaphoreCreate :: "bool \<Rightarrow> ptr option \<Rightarrow> int \<Rightarrow> kernel \<Rightarrow> ptr \<times> kernel" where
  "osSemaphoreCreate isr semaphore_def n s = (if isr then (NULL, s) else svcSemaphoreCreate semaphore_def n s)"

definition osSemaphoreDelete :: "bool \<Rightarrow> ptr \<Rightarrow> kernel \<Rightarrow> (U32 \<times> kernel) option" where
  "osSemaphoreDelete isr semaphore_id s =
     (if isr then Some (osErrorISR, s) else svcSemaphoreDelete semaphore_id s)"

section \<open>Message queues, pools and mail queues\<close>

definition osMessageCreate :: "bool \<Rightarrow> queue_def option \<Rightarrow> kernel \<Rightarrow> ptr \<times> kernel" where
  "osMessageCreate isr qdef s = (if isr then (NULL, s) else svcMessageCreate qdef s)"

definition osPoolCreate :: "bool \<Rightarrow> os_pool_def option \<Rightarrow> memory \<Rightarrow> (U32 \<times> memory) option" where
  "osPoolCreate isr pdef m = (if isr then Some (0, m) else svcPoolCreate pdef m)"

definition osPoolAlloc :: "U32 \<Rightarrow> memory \<Rightarrow> U32 \<times> memory" where
  "osPoolAlloc pool_id m = sysPoolAlloc pool_id m"

definition osPoolFree :: "U32 \<Rightarrow> U32 \<Rightarrow> memory \<Rightarrow> U32 \<times> memory" where
  "osPoolFree pool_id block m = sysPoolFree pool_id block m"

definition osMailCreate :: "bool \<Rightarrow> U32 \<Rightarrow> U32 \<Rightarrow> mail_queue_cb option \<Rightarrow> kernel \<Rightarrow> bool \<times> kernel" where
  "osMailCreate isr queue_sz item_sz mq s =
     (if isr then (False, s) else svcMailCreate queue_sz item_sz mq s)"

definition osMailAlloc :: "bool \<Rightarrow> mail_queue_cb option \<Rightarrow> U32 \<Rightarrow> kernel \<Rightarrow> (U32 \<times> kernel) option" where
  "osMailAlloc isr queue_id millisec s = sysMailAlloc queue_id millisec isr s"

definition osMailFree :: "bool \<Rightarrow> mail_queue_cb option \<Rightarrow> U32 \<Rightarrow> kernel \<Rightarrow> (U32 \<times> kernel) option" where
  "osMailFree isr queue_id mail s = sysMailFree queue_id mail isr s"

definition osMailPut :: "bool \<Rightarrow> mail_queue_cb option \<Rightarrow> U32 \<Rightarrow> kernel \<Rightarrow> (U32 \<times> kernel) option" where
  "osMailPut isr queue_id mail s =
     (case queue_id of None \<Rightarrow> Some (osErrorParameter, s)
      | Some mq \<Rightarrow> if mail = 0 then Some (osErrorValue, s) else osMessagePut isr (mq_mcb mq) mail 0 s)"

definition osMailGet :: "bool \<Rightarrow> mail_queue_cb option \<Rightarrow> U32 \<Rightarrow> kernel \<Rightarrow> (os_event \<times> kernel) option" where
  "osMailGet isr queue_id millisec s =
     (case queue_id of None \<Rightarrow> Some (\<lparr>ev_status = osErrorParameter, ev_value = None\<rparr>, s)
      | Some mq \<Rightarrow> do {
          (ret, s) \<leftarrow> osMessageGet isr (mq_mcb mq) millisec s;
          Some (if ev_status ret = osEventMessage then ret\<lparr>ev_status := osEventMail\<rparr> else ret, s)
        })"

section \<open>What an interrupt handler may change\<close>

text \<open>A call from an interrupt handler returns, and leaves the tasks, their lists and the running task as
  they are: what it asks for is done later, by the post-service handling.\<close>

definition only_requests :: "kernel \<Rightarrow> kernel \<Rightarrow> bool" where
  "only_requests s s' \<longleftrightarrow> p_lnk s' = p_lnk s \<and> p_rlnk s' = p_rlnk s \<and> p_dlnk s' = p_dlnk s \<and> p_blnk s' = p_blnk s \<and>
     delta_time s' = delta_time s \<and> state s' = state s \<and> prio s' = prio s \<and> run s' = run s \<and> new_tsk s' = new_tsk s \<and>
     tokens s' = tokens s \<and> events s' = events s \<and> cb_type s' = cb_type s"

lemma only_requests_refl [simp]: "only_requests s s"
  by (simp add: only_requests_def)

lemma only_requests_enq [simp]: "only_requests s (rt_psh_req (rt_psq_enq p a s))"
  by (simp add: only_requests_def rt_psh_req_def rt_psq_enq_def rt_inc_qi_def os_error_def Let_def)

lemma isr_calls_only_request:
  "\<exists>r s'. osSignalSet True t sig s = Some (r, s') \<and> only_requests s s'"
  "\<exists>r s'. osSemaphoreRelease True h s = Some (r, s') \<and> only_requests s s'"
  "\<exists>r s'. osMessagePut True m v ms s = Some (r, s') \<and> only_requests s s'"
  "\<exists>r s'. osMutexWait True h ms s = Some (r, s') \<and> only_requests s s'"
  "\<exists>r s'. osSemaphoreWait True h ms s = Some (r, s') \<and> only_requests s s'"
  "\<exists>r s'. osDelay True ms s = Some (r, s') \<and> only_requests s s'"
  by (auto simp: osSignalSet_def isrSignalSet_def isr_evt_set_def osSemaphoreRelease_def isrSemaphoreRelease_def isr_sem_send_def
      osMessagePut_def isrMessagePut_def isr_mbx_send_def osMutexWait_def osSemaphoreWait_def osDelay_def Let_def)

end
