(* ===== verification/Cmsis_Kernel.thy ===== *)
theory Cmsis_Kernel
  imports Cmsis_Api
begin

text \<open>
  The start of the kernel and its time (\<open>rt_CMSIS.c\<close>).  \<open>osKernelInitialize\<close> sets the kernel up with the
  caller as the idle task at the highest priority, so that objects and threads can be created without
  a switch; \<open>osKernelStart\<close> restores its priority, and the first thread runs.

  \<open>isr\<close> is the test \<open>__get_PRIMASK() != 0U || __get_IPSR() != 0U\<close> and \<open>control\<close> the register \<open>CONTROL\<close>: bit 0 is
  set for unprivileged code, bit 1 for the process stack.  An unprivileged caller reaches the service
  through a supervisor call, in which \<open>__get_IPSR() != 0U\<close> holds.  \<open>rt_sys_start\<close>, which starts the timer
  of the hardware, changes none of the state that is modelled.
\<close>

section \<open>Starting the kernel\<close>

text \<open>The constants of the configuration: the size of the queue of requests, the ticks of the round robin,
  the idle function, the objects of the timer thread, the mutex of the threads, \<open>osThreadExit\<close>.\<close>

record kernel_config =
  kc_fifo_size :: U8
  kc_rrobin :: U16
  kc_idle_demon :: U32
  kc_timer_queue :: queue_def
  kc_timer_thread :: thread_def
  kc_thread_mutex :: ptr
  kc_thread_exit :: U32

text \<open>The kernel with the variables of \<open>rt_CMSIS.c\<close> that only its start uses.\<close>

record cmsis =
  krn :: kernel
  os_initialized :: bool
  os_running :: bool
  osMutexId_osThreadMutex :: ptr

definition svcKernelInitialize :: "kernel_config \<Rightarrow> bool \<Rightarrow> cmsis \<Rightarrow> (U32 \<times> cmsis) option" where
  "svcKernelInitialize k isr c =
     (let s = krn c;
          s = (if \<not> os_initialized c then rt_sys_init (kc_fifo_size k) (kc_rrobin k) (kc_idle_demon k) s else s);
          s = set_prio (run s) 255 s
      in do {
        (m, s) \<leftarrow> (if \<not> os_initialized c then do {
              let (q, s) = svcMessageCreate (Some (kc_timer_queue k)) s;
              let s = s\<lparr>timer_queue := q\<rparr>;
              (t, s) \<leftarrow> svcThreadCreate (kc_thread_exit k) (Some (kc_timer_thread k)) 0 s;
              let s = s\<lparr>timer_thread := t\<rparr>;
              Some (osMutexCreate isr (Some (kc_thread_mutex k)) s)
            }
            else Some (osMutexId_osThreadMutex c, s));
        Some (osOK, c\<lparr>krn := s, os_initialized := True, os_running := False, osMutexId_osThreadMutex := m\<rparr>)
      })"

definition svcKernelStart :: "cmsis \<Rightarrow> (U32 \<times> cmsis) option" where
  "svcKernelStart c =
     (if os_running c then Some (osOK, c)
      else do {
        let s = krn c;
        (_, s) \<leftarrow> rt_tsk_prio 0 (prio_base s (run s)) s;
        let s = (if task_id s (run s) = 0xFF then s\<lparr>psp := tsk_stack s (run s) + 8 * 4\<rparr> else s);
        let s = (if new_tsk s = NULL then s\<lparr>new_tsk := run s, run := NULL\<rparr> else s);
        Some (osOK, c\<lparr>krn := s, os_running := True\<rparr>)
      })"

definition svcKernelRunning :: "cmsis \<Rightarrow> bool" where
  "svcKernelRunning c = os_running c"

definition osErrorOS :: U32 where "osErrorOS = 0xFF"

definition osKernelInitialize :: "kernel_config \<Rightarrow> bool \<Rightarrow> U32 \<Rightarrow> cmsis \<Rightarrow> (U32 \<times> cmsis) option" where
  "osKernelInitialize k isr control c =
     (if isr then Some (osErrorISR, c)
      else if control AND 1 = 0 then svcKernelInitialize k False c
      else svcKernelInitialize k True c)"

text \<open>Before the service the caller gets the process stack and the mode that \<open>os_flags\<close> asks for: the new
  \<open>CONTROL\<close> is a result.\<close>

definition osKernelStart :: "bool \<Rightarrow> U8 \<Rightarrow> U32 \<Rightarrow> cmsis \<Rightarrow> (U32 \<times> U32 \<times> cmsis) option" where
  "osKernelStart isr os_flags control c =
     (let mode = control AND 3; start = (\<lambda>control. map_option (\<lambda>(r, c). (r, control, c)) (svcKernelStart c)) in
      if isr then Some (osErrorISR, control, c)
      else if mode = 0 then start (if os_flags AND 1 \<noteq> 0 then 2 else 3)
      else if mode = 1 then Some (osErrorOS, control, c)
      else if mode = 2 then start (if os_flags AND 1 = 0 then 3 else control)
      else if os_flags AND 1 \<noteq> 0 then Some (osErrorOS, control, c)
      else start control)"

section \<open>The time of the kernel\<close>

text \<open>The counter of the tick timer has the period \<open>os_trv + 1\<close>.  It is read, then the flag of an overflow that
  the tick handler has not served yet, and then, when it is set, the counter again.\<close>

definition svcKernelSysTick :: "U32 \<Rightarrow> U32 \<Rightarrow> bool \<Rightarrow> U32 \<Rightarrow> kernel \<Rightarrow> U32" where
  "svcKernelSysTick os_trv tick ovf tick0 s =
     (if ovf
      then let tick = (if tick0 < tick then tick0 else tick) in tick + (os_trv + 1) * (os_time s + 1)
      else tick + (os_trv + 1) * os_time s)"

text \<open>The result is the time at some moment between the first reading and the last one: \<open>a\<close>, \<open>b\<close> and \<open>c\<close> are the
  clocks from the last tick that has been served to the three readings.\<close>

lemma sys_tick_between:
  assumes p: "unat os_trv + 1 = p" "p < 2 ^ 32" and m: "a \<le> b" "b \<le> c" "c < 2 * p"
  obtains x where "a \<le> x" "x \<le> c"
    "svcKernelSysTick os_trv (word_of_nat (a mod p)) (p \<le> b) (word_of_nat (c mod p)) s =
     word_of_nat (x + p * unat (os_time s))"
proof -
  have p0: "0 < p" using p(1) by simp
  have q: "os_trv + 1 = word_of_nat p" by (simp add: p(1) [symmetric] add.commute)
  have md: "x mod p = (if x < p then x else x - p)" if "x < 2 * p" for x :: nat
    using that by (auto simp: le_mod_geq)
  have lt: "(word_of_nat (c mod p) :: U32) < word_of_nat (a mod p) \<longleftrightarrow> c mod p < a mod p"
  proof -
    have "x mod p < 2 ^ 32" for x using p(2) mod_less_divisor [OF p0, of x] by (rule order.strict_trans [rotated])
    then have "unat (word_of_nat (x mod p) :: U32) = x mod p" for x by (simp add: unsigned_of_nat take_bit_nat_eq_self)
    then show ?thesis by (simp add: word_less_nat_alt)
  qed
  show thesis
  proof (cases "p \<le> b")
    case False
    then have "a mod p = a" using m by simp
    then show thesis using that [of a] m False by (simp add: svcKernelSysTick_def q)
  next
    case b: True
    define v where "v = (if c mod p < a mod p then c mod p else a mod p)"
    have e: "svcKernelSysTick os_trv (word_of_nat (a mod p)) (p \<le> b) (word_of_nat (c mod p)) s =
        word_of_nat ((v + p) + p * unat (os_time s))"
      unfolding svcKernelSysTick_def q using b lt by (auto simp: v_def Let_def algebra_simps)
    have "a \<le> v + p" "v + p \<le> c" using md [of a] md [of c] m b by (auto simp: v_def split: if_splits)
    then show thesis using that e by blast
  qed
qed

end
