(* ===== verification/Kernel_Start.thy ===== *)
theory Kernel_Start
  imports Kernel_Steps Cmsis_Kernel
begin

text \<open>
  The start of the kernel, and the states that it reaches: from \<open>rt_sys_init\<close> or \<open>svcKernelInitialize\<close> by
  the steps of \<open>Kernel_Steps\<close> and by \<open>svcKernelStart\<close>.  In all of them the invariant holds, so that a
  task of the highest priority runs and every locked mutex has an active owner.
\<close>

section \<open>The memory at the start\<close>

text \<open>The kernel starts with an empty table of at most 254 tasks, a pool of as many control blocks at
  most, which lie in memory of their own (the stacks are another pool), and a queue of requests with room for at least one.\<close>

definition boot_ok :: "U8 \<Rightarrow> nat \<Rightarrow> U32 list \<Rightarrow> bool" where
  "boot_ok fs n bs \<longleftrightarrow> 0 < fs \<and> n < 255 \<and> distinct bs \<and> length bs \<le> n \<and>
     (\<forall>b\<in>set bs. b \<noteq> 0 \<and> CB b \<notin> {NULL, OS_RDY, OS_DLY, OS_IDLE})"

text \<open>Zeroed memory: a table of \<open>n\<close> tasks, the pools \<open>pt\<close> and \<open>ps\<close> and the blocks of all pools.\<close>

definition fresh :: "nat \<Rightarrow> U32 \<Rightarrow> U32 \<Rightarrow> (U32 \<Rightarrow> U32 list) \<Rightarrow> U32 \<Rightarrow> kernel" where
  "fresh n pt ps bm si = zero_kernel\<lparr>os_active_TCB := replicate n NULL, mp_tcb := pt, mp_stk := ps, box_mem := bm, os_stackinfo := si\<rparr>"

text \<open>The state after the start keeps the invariant.\<close>

lemma sys_init_fields:
  assumes "s = rt_sys_init fs rr idle (fresh n pt ps bm si)"
  shows "cb_type s = (\<lambda>_. 0)(OS_IDLE := TCB, OS_RDY := HCB, OS_DLY := HCB)" "os_active_TCB s = replicate n NULL"
    "p_mlnk s = (\<lambda>_. NULL)" "tmr_state s = (\<lambda>_. 0)" "os_timer_head s = NULL"
    "psq_first s = 0" "psq_last s = 0" "psq_count s = 0" "psq_size s = fs" "mp_tcb s = pt" "mp_stk s = ps" "box_mem s = bm"
    "suffix (box_free s pt) (bm pt)" "run s = OS_IDLE"
  unfolding assms fresh_def
  by (auto simp: rt_sys_init_def Let_def zero_kernel_def rt_switch_req_def rt_init_robin_def init_box_def
      fun_upd_def fun_eq_iff map_replicate_const rt_init_context_def rt_init_stack_def alloc_box_def suffix_def
      split: list.split)

lemma rt_sys_init_inv:
  assumes b: "boot_ok fs n (bm pt)" "pt \<noteq> ps"
  shows "sysinv (rt_sys_init fs rr idle (fresh n pt ps bm si))"
proof -
  define s where "s = rt_sys_init fs rr idle (fresh n pt ps bm si)"
  note f = sys_init_fields [OF s_def]
  obtain u where u: "bm pt = u @ box_free s pt" using f(13) by (auto simp: suffix_def)
  have "psq_inv s" using b by (simp add: psq_inv_def psq_wf_def psq_items_def psq_from_def ring_def f boot_ok_def word_less_nat_alt)
  moreover have "ids_ok s" using b by (simp add: ids_ok_def f boot_ok_def)
  moreover have "tcbs_ok s"
    using b u by (auto simp: tcbs_ok_def Let_def f boot_ok_def free_addr_def is_sem_mbx_def cb_types)
  ultimately have "tables_ok s" by (simp add: tables_ok_def)
  moreover have "kinv s (\<lambda>_. []) []" unfolding s_def by (rule rt_sys_init_ok [OF fresh_def])
  moreover have "cb_type s m \<noteq> MUCB" for m by (simp add: f cb_types)
  then have "mutexes s (\<lambda>_. []) (\<lambda>_. [])" by (simp add: mutexes_def f)
  moreover have "timers_ok s []" by (simp add: timers_ok_def timers_def f osTimerRunning_def)
  ultimately show ?thesis unfolding s_def by (intro sysinvI)
qed

lemma rt_sys_init_err: "os_err (rt_sys_init fs rr idle (fresh n pt ps bm si)) = None"
  by (simp add: rt_sys_init_def fresh_def zero_kernel_def init_box_def rt_init_robin_def Let_def)

section \<open>The services of the start\<close>

text \<open>Services that are called directly: nothing switches to another task, and none has been chosen.\<close>

lemma U8_le_255: "(x :: U8) \<le> 255"
proof -
  have "unat x < 256" using unsigned_less [of x] by simp
  then have "unat x \<le> 255" by linarith
  then show ?thesis by (simp add: word_le_nat_alt)
qed

lemma sysinv_direct: "sysinv (switch_context s) \<Longrightarrow> new_tsk s = run s \<Longrightarrow> sysinv s"
  by simp

lemma sysinv_new_tsk: "sysinv s \<Longrightarrow> new_tsk s = run s"
  by (elim sysinvE) (simp add: kinvD(5))

lemma sysinv_top_prio:
  assumes "sysinv s"
  shows "sysinv (set_prio (run s) 255 s)"
proof (rule sysinv_books [OF assms])
  fix q ds assume K: "kinv s q ds"
  note k = kinvD [OF K]
  have t: "is_task (set_prio (run s) 255 s) = is_task s" by (simp add: is_task_def fun_eq_iff)
  note m = U8_le_255
  show "kinv (set_prio (run s) 255 s) q ds"
    by (rule kinvI) (use k t m kinvD(10) [OF K, of OS_RDY] sched_prio_float [OF k(1), of "run s" 255] in
      \<open>auto simp: tasks_ok_def fun_upd_def\<close>)
qed simp

text \<open>Variables that the invariant does not speak of.\<close>

definition unspoken :: "kernel \<Rightarrow> kernel" where
  "unspoken s = s\<lparr>psp := 0, timer_queue := NULL, timer_thread := NULL\<rparr>"

lemma sysinv_unspoken:
  assumes S: "sysinv s" and e: "unspoken s' = unspoken s"
  shows "sysinv s'"
proof -
  let ?f = "\<lambda>x. x\<lparr>psp := psp s', timer_queue := timer_queue s', timer_thread := timer_thread s'\<rparr>"
  have "s' = ?f (unspoken s')" by (simp add: unspoken_def)
  then have e: "s' = ?f s" unfolding e by (simp add: unspoken_def)
  obtain q ds own ts where I: "kinv s q ds" "mutexes s q own" "timers_ok s ts" "tables_ok s" using S by (rule sysinvE)
  have f: "cb_type s' = cb_type s" "os_active_TCB s' = os_active_TCB s" "p_mlnk s' = p_mlnk s" "level s' = level s"
    "owner s' = owner s" "task_id s' = task_id s" by (subst e, simp)+
  have tk: "is_task s' = is_task s" by (simp add: f is_task_def fun_eq_iff)
  have "kinv s' q ds" using I(1) kinv_cong [of "?f s" s q ds] by (subst e) simp
  moreover have "mutexes s' q own" by (rule mutexes_cong [OF I(2) tk]) (simp_all add: f)
  moreover have "timers_ok s' ts" using I(3) timers_ok_cong [of "?f s" s ts] by (subst e) simp
  moreover have "tables_ok s'" by (subst e, rule tmr_tables [OF I(4)]) simp_all
  ultimately show ?thesis by (rule sysinvI)
qed

text \<open>A thread that is created by a caller of the highest priority does not run at once.\<close>

lemma tsk_create_run: "rt_tsk_create task ps stk arg s = Some (i, s') \<Longrightarrow> run s' = run s"
proof -
  have put: "rt_put_prio h t x = Some y \<Longrightarrow> run y = run x" for h t x y
    by (auto simp: rt_put_prio_def Let_def bind_eq_Some_conv)
  have get: "rt_get_first h x = Some (t, y) \<Longrightarrow> run y = run x" for h t x y
    by (auto simp: rt_get_first_def Let_def split: if_splits)
  have dis: "rt_dispatch t x = Some y \<Longrightarrow> run y = run x" for t x y
    by (auto simp: rt_dispatch_def rt_switch_req_def rt_put_rdy_first_def Let_def bind_eq_Some_conv dest!: put get split: if_splits)
  have box: "alloc_box m x = (b, y) \<Longrightarrow> run y = run x" for m x b y
    by (auto simp: alloc_box_def split: list.splits)
  have ctx: "run (rt_init_context p pr body x) = run x" for p pr body x
    by (simp add: rt_init_context_def rt_init_stack_def alloc_box_def Let_def split: list.split)
  show "rt_tsk_create task ps stk arg s = Some (i, s') \<Longrightarrow> run s' = run s"
    by (auto simp: rt_tsk_create_def Let_def bind_eq_Some_conv ctx dest!: dis box split: if_splits prod.splits)
qed

lemma tsk_create_prio:
  assumes c: "rt_tsk_create task ps stk arg s = Some (i, s')" and b: "box_free s (mp_tcb s) = b # bs" and h: "h \<noteq> CB b"
  shows "prio s' h = prio s h"
proof -
  have put: "rt_put_prio h t x = Some y \<Longrightarrow> prio y = prio x" for h t x y
    by (auto simp: rt_put_prio_def Let_def bind_eq_Some_conv)
  have get: "rt_get_first h x = Some (t, y) \<Longrightarrow> prio y = prio x" for h t x y
    by (auto simp: rt_get_first_def Let_def split: if_splits)
  have dis: "rt_dispatch t x = Some y \<Longrightarrow> prio y = prio x" for t x y
    by (auto simp: rt_dispatch_def rt_switch_req_def rt_put_rdy_first_def Let_def bind_eq_Some_conv dest!: put get split: if_splits)
  have ctx: "prio (rt_init_context (CB b) pr body x) h = prio x h" for pr body x
    using h by (simp add: rt_init_context_def rt_init_stack_def alloc_box_def Let_def split: list.split)
  show ?thesis using c b h
    by (auto simp: rt_tsk_create_def alloc_box_def ptr_of_def Let_def bind_eq_Some_conv ctx dest!: dis split: if_splits)
qed

lemma thread_create_direct:
  assumes S: "sysinv s" and top: "prio s (run s) = 255"
  obtains t s' where "svcThreadCreate texit (Some td) arg s = Some (t, s')" "sysinv s'" "run s' = run s"
    "set (os_active_TCB s') \<subseteq> set (os_active_TCB s) \<union> CB ` set (box_mem s (mp_tcb s))"
    "mp_tcb s' = mp_tcb s" "box_mem s' = box_mem s" "prio s' OS_IDLE = prio s OS_IDLE"
proof -
  obtain q ds own ts where I: "kinv s q ds" "mutexes s q own" "timers_ok s ts" "tables_ok s" using S by (rule sysinvE)
  let ?ps = "word_of_int (td_tpriority td - osPriorityIdle + 1) OR push_bit 8 (td_stacksize td)"
    and ?stk = "if td_stacksize td \<noteq> 0 then td_stack_pointer td else 0"
  have up: "upholds (map_option snd (svcThreadCreate texit (Some td) arg s))" by (rule thread_create_upholds [OF I])
  show thesis
  proof (cases "td_pthread td = 0 \<or> td_tpriority td < osPriorityIdle \<or> osPriorityRealtime < td_tpriority td \<or> box_free s (mp_tcb s) = []")
    case True
    then have "svcThreadCreate texit (Some td) arg s = Some (NULL, s)"
      by (auto simp: svcThreadCreate_def rt_tsk_create_def alloc_box_def ptr_of_def Let_def)
    then show thesis using that S by blast
  next
    case False
    then obtain b bs where b: "box_free s (mp_tcb s) = b # bs" by (cases "box_free s (mp_tcb s)") auto
    have P: "b \<noteq> 0" "free_addr s (CB b)" "\<not> is_sem_mbx s (CB b)" "b \<in> set (box_mem s (mp_tcb s))"
      "filter (\<lambda>t. t = NULL) (os_active_TCB s) \<noteq> []"
      using I(4) b by (auto simp: tables_ok_def tcbs_ok_def Let_def)
    then have nn: "NULL \<in> set (os_active_TCB s)" by (auto simp: filter_empty_conv)
    obtain i s' s0 where c: "rt_tsk_create (td_pthread td) ?ps ?stk arg s = Some (word_of_nat (Suc i), s')"
      "os_active_TCB s' = (os_active_TCB s)[i := CB b]"
      "new_tsk s' = (if prio s (run s) < create_prio ?ps then CB b else run s)"
      by (rule rt_tsk_create_ok [OF I(1) b P(1-3) nn]) blast
    note r = tsk_create_run [OF c(1)]
    have "\<not> 255 < create_prio ?ps" by (rule leD [OF U8_le_255])
    then have n: "new_tsk s' = run s" using c(3) top by simp
    note f = tsk_create_fields [OF c(1) b P(1) nn]
    have "OS_IDLE \<noteq> CB b" using P(2) by (auto simp: free_addr_def)
    note pr = tsk_create_prio [OF c(1) b this]
    have "\<exists>t s2. svcThreadCreate texit (Some td) arg s = Some (t, s2) \<and> s2 = s'\<lparr>stack_word := stack_word s2\<rparr>"
      using False c(1) by (cases "(word_of_nat (Suc i) :: U32) = 0") (simp_all add: svcThreadCreate_def Let_def del: of_nat_Suc)
    then obtain t s2 where s2: "svcThreadCreate texit (Some td) arg s = Some (t, s2)" "s2 = s'\<lparr>stack_word := stack_word s2\<rparr>" by blast
    have d: "run s2 = run s'" "new_tsk s2 = new_tsk s'" "os_active_TCB s2 = os_active_TCB s'" "mp_tcb s2 = mp_tcb s'"
      "box_mem s2 = box_mem s'" "prio s2 = prio s'" by (subst s2(2), simp)+
    have "sysinv s2" using up s2(1) n r d by (auto simp: upholds_def)
    moreover have "set (os_active_TCB s2) \<subseteq> set (os_active_TCB s) \<union> CB ` set (box_mem s (mp_tcb s))"
      using d(3) c(2) P(4) set_update_subset_insert [of "os_active_TCB s" i "CB b"] by auto
    ultimately show thesis using that [OF s2(1)] r d f pr by simp
  qed
qed

text \<open>\<open>svcKernelInitialize\<close> on zeroed memory, with the objects of its own in memory that nothing else uses.\<close>

definition config_ok :: "kernel_config \<Rightarrow> U32 list \<Rightarrow> bool" where
  "config_ok k bs \<longleftrightarrow> (\<forall>h\<in>{qd_pool (kc_timer_queue k), kc_thread_mutex k}.
     h \<notin> {NULL, OS_RDY, OS_DLY, OS_IDLE} \<and> h \<notin> CB ` set bs)"

lemma initialize_ok:
  assumes b: "boot_ok (kc_fifo_size k) n (bm pt)" "pt \<noteq> ps" "config_ok k (bm pt)"
    and c: "krn c = fresh n pt ps bm si" "\<not> os_initialized c"
  obtains c' where "svcKernelInitialize k isr c = Some (osOK, c')" "sysinv (krn c')" "os_initialized c'" "\<not> os_running c'"
    "run (krn c') = OS_IDLE" "prio (krn c') OS_IDLE = 255" "os_err (krn c') = None"
proof -
  define s0 where "s0 = rt_sys_init (kc_fifo_size k) (kc_rrobin k) (kc_idle_demon k) (fresh n pt ps bm si)"
  have S0: "sysinv s0" unfolding s0_def by (rule rt_sys_init_inv) (rule b)+
  note f0 = sys_init_fields [OF s0_def]
  define s1 where "s1 = set_prio (run s0) 255 s0"
  have S1: "sysinv s1" unfolding s1_def by (rule sysinv_top_prio [OF S0])
  let ?h = "qd_pool (kc_timer_queue k)" and ?m = "kc_thread_mutex k"
  have f1: "os_active_TCB s1 = replicate n NULL" "mp_tcb s1 = pt" "box_mem s1 = bm" "run s1 = OS_IDLE" "prio s1 OS_IDLE = 255"
    by (simp_all add: s1_def f0)
  obtain q s2 where q: "svcMessageCreate (Some (kc_timer_queue k)) s1 = (q, s2)" by fastforce
  have k: "unused s1 ?h" using b(3) f1 by (simp add: unused_def config_ok_def free_addr_def)
  then have "upholds (Some s2)"
    using handler_upholds [OF S1, of "MsgCreate (kc_timer_queue k)"] q by (simp add: kok_def handler_def)
  then have u2: "sysinv (switch_context s2)" by (simp add: upholds_def)
  have f2: "os_active_TCB s2 = os_active_TCB s1" "mp_tcb s2 = mp_tcb s1" "box_mem s2 = box_mem s1" "run s2 = run s1"
    "new_tsk s2 = new_tsk s1" "prio s2 = prio s1"
    using q by (auto simp: svcMessageCreate_def rt_mbx_init_def Let_def split: if_splits)
  have S2: "sysinv s2" by (rule sysinv_direct [OF u2]) (use sysinv_new_tsk [OF S1] f2 in simp)
  let ?s3 = "s2\<lparr>timer_queue := q\<rparr>"
  have S3: "sysinv ?s3" by (rule sysinv_unspoken [OF S2]) (simp add: unspoken_def)
  have "prio ?s3 (run ?s3) = 255" using f1 f2 by simp
  then obtain t s4 where t: "svcThreadCreate (kc_thread_exit k) (Some (kc_timer_thread k)) 0 ?s3 = Some (t, s4)" "sysinv s4"
    "run s4 = run ?s3" "set (os_active_TCB s4) \<subseteq> set (os_active_TCB ?s3) \<union> CB ` set (box_mem ?s3 (mp_tcb ?s3))"
    "mp_tcb s4 = mp_tcb ?s3" "box_mem s4 = box_mem ?s3" "prio s4 OS_IDLE = prio ?s3 OS_IDLE"
    by (rule thread_create_direct [OF S3])
  let ?s5 = "s4\<lparr>timer_thread := t\<rparr>"
  have S5: "sysinv ?s5" by (rule sysinv_unspoken [OF t(2)]) (simp add: unspoken_def)
  obtain m s6 where m: "osMutexCreate isr (Some ?m) ?s5 = (m, s6)" by fastforce
  have S6: "sysinv s6 \<and> run s6 = run s4 \<and> prio s6 = prio s4 \<and> os_err s6 = os_err s4"
  proof (cases isr)
    case True
    then show ?thesis using m S5 by (auto simp: osMutexCreate_def)
  next
    case False
    have "unused ?s5 ?m" using b(3) t(4-6) f1 f2 by (auto simp: unused_def config_ok_def free_addr_def)
    then have "upholds (Some s6)"
      using handler_upholds [OF S5, of "MutexCreate ?m"] m False by (simp add: kok_def handler_def osMutexCreate_def)
    then have "sysinv (switch_context s6)" by (simp add: upholds_def)
    moreover have "run s6 = run s4" "new_tsk s6 = new_tsk s4" "prio s6 = prio s4" "os_err s6 = os_err s4"
      using m False by (auto simp: osMutexCreate_def svcMutexCreate_def rt_mut_init_def split: if_splits)
    ultimately show ?thesis using sysinv_new_tsk [OF t(2)] sysinv_direct by simp
  qed
  have "svcKernelInitialize k isr c = Some (osOK, c\<lparr>krn := s6, os_initialized := True, os_running := False, osMutexId_osThreadMutex := m\<rparr>)"
    using c q t(1) m by (simp add: svcKernelInitialize_def s0_def s1_def)
  moreover have "prio s4 OS_IDLE = 255" using t(7) f1 f2 by simp
  moreover have "os_err s2 = None" using q by (auto simp: svcMessageCreate_def s1_def s0_def rt_sys_init_err split: if_splits)
  then have "os_err s4 = None" using thread_create_err [OF t(1)] by simp
  ultimately show thesis using that S6 t(3) f1 f2 by simp
qed

text \<open>\<open>svcKernelStart\<close>, when a thread is ready: the caller is the idle task again, and the first thread
  of the ready list runs when its priority is higher than that of the idle task.\<close>

lemma start_ok:
  assumes S: "sysinv s" and r: "p_lnk s OS_RDY \<noteq> NULL" and c: "krn c = s" "\<not> os_running c"
  obtains c' where "svcKernelStart c = Some (osOK, c')" "sysinv (switch_context (krn c'))" "os_running c'"
    "new_tsk (krn c') = (if prio_base s (run s) < prio s (p_lnk s OS_RDY) then p_lnk s OS_RDY else run s)"
    "os_err (krn c') = os_err s"
proof -
  obtain q ds own ts where I: "kinv s q ds" "mutexes s q own" "timers_ok s ts" "tables_ok s" using S by (rule sysinvE)
  have h: "p_lnk s OS_RDY = hd0 (q OS_RDY)" by (rule p_lnk_head [OF schedD(1) [OF kinvD(1) [OF I(1)]] is_head_RDY])
  then obtain t B where q: "q OS_RDY = t # B" "p_lnk s OS_RDY = t" using r by (cases "q OS_RDY") auto
  have rn: "run s \<noteq> NULL" by (rule kinvD(9) [OF I(1)])
  let ?v = "prio_base s (run s)"
  obtain s' where s': "tsk_prio_run ?v (set_prio_base (run s) ?v (set_prio (run s) ?v s)) = Some s'"
    "kinv (switch_context s') (if ?v < prio s t then q(OS_RDY := tl (ins_prio ((prio s)(run s := ?v)) (run s) (q OS_RDY))) else q) ds"
    "new_tsk s' = (if ?v < prio s t then t else run s)"
    by (rule tsk_prio_run_ok [OF I(1) q(1) refl]) blast
  have p: "rt_tsk_prio 0 ?v s = Some (OS_R_OK, s')" using s'(1) by (simp add: rt_tsk_prio_def)
  have b: "books s' = books s" by (rule tsk_prio_books [OF p])
  note u = unwaited_if [OF unwaited_ready(2) [OF I(1)] unwaited_refl]
  have "goes s q (Some s')" by (rule goesI [OF refl s'(2)]) (rule u)
  then have S1: "sysinv (switch_context s')" using books_step [OF I] b by (auto simp: upholds_def)
  define s2 where "s2 = (if task_id s' (run s') = 0xFF then s'\<lparr>psp := tsk_stack s' (run s') + 32\<rparr> else s')"
  have S2: "sysinv (switch_context s2)"
    by (rule sysinv_unspoken [OF S1]) (simp add: s2_def switch_context_def unspoken_def)
  have "t \<noteq> NULL" using queues_task [OF schedD(1) [OF kinvD(1) [OF I(1)]], of t OS_RDY] q(1) by (auto simp: is_task_def)
  then have n: "new_tsk s' \<noteq> NULL" using s'(3) rn by simp
  have e: "svcKernelStart c = Some (osOK, c\<lparr>krn := s2, os_running := True\<rparr>)"
    using c p n by (simp add: svcKernelStart_def s2_def Let_def)
  have "os_err s2 = os_err s" using tsk_prio_err [OF p] by (simp add: s2_def)
  then show thesis by (intro that [OF e]) (use S2 s'(3) q(2) in \<open>auto simp: s2_def\<close>)
qed

section \<open>The states that are reached\<close>

inductive kreach :: "kernel \<Rightarrow> bool" where
  boot: "boot_ok fs n (bm pt) \<Longrightarrow> pt \<noteq> ps \<Longrightarrow> kreach (rt_sys_init fs rr idle (fresh n pt ps bm si))"
| initialize: "boot_ok (kc_fifo_size k) n (bm pt) \<Longrightarrow> pt \<noteq> ps \<Longrightarrow> config_ok k (bm pt) \<Longrightarrow>
    krn c = fresh n pt ps bm si \<Longrightarrow> \<not> os_initialized c \<Longrightarrow> svcKernelInitialize k isr c = Some (r, c') \<Longrightarrow> kreach (krn c')"
| start: "kreach s \<Longrightarrow> p_lnk s OS_RDY \<noteq> NULL \<Longrightarrow> krn c = s \<Longrightarrow> \<not> os_running c \<Longrightarrow>
    svcKernelStart c = Some (r, c') \<Longrightarrow> kreach (switch_context (krn c'))"
| step: "kreach s \<Longrightarrow> kok e s \<Longrightarrow> kstep e s = Some s' \<Longrightarrow> kreach s'"

inductive_cases kreach_cases: "kreach s"

lemma kreach_ok: "kreach s \<Longrightarrow> kernel_ok s"
proof (induction rule: kreach.induct)
  case (boot fs n bm pt ps rr idle si)
  then show ?case by (simp add: kernel_ok_def rt_sys_init_inv rt_sys_init_err)
next
  case (initialize k n bm pt ps c si isr r c')
  obtain c'' where "svcKernelInitialize k isr c = Some (osOK, c'')" "sysinv (krn c'')" "os_err (krn c'') = None"
    by (rule initialize_ok [OF initialize(1-5)])
  then show ?case using initialize(6) by (simp add: kernel_ok_def)
next
  case (start s c r c')
  have s: "sysinv s" "os_err s = None" using start.IH by (simp_all add: kernel_ok_def)
  obtain c'' where "svcKernelStart c = Some (osOK, c'')" "sysinv (switch_context (krn c''))" "os_err (krn c'') = os_err s"
    by (rule start_ok [OF s(1) start.hyps(2-4)])
  then show ?case using start.hyps(5) s(2) by (simp add: kernel_ok_def)
next
  case (step s e s')
  then show ?case using kstep_keeps by blast
qed

lemma kreach_inv: "kreach s \<Longrightarrow> sysinv s"
  using kreach_ok by (simp add: kernel_ok_def)

text \<open>A run from a reached state reaches its end, and returns where its steps find room.\<close>

interpretation reached: keeper kstep kreach kok
  using kreach.step by unfold_locales

interpretation reached_room: stepper kstep kreach "\<lambda>e s. kok e s \<and> room e s"
  using kstep_returns kreach_ok kreach.step by unfold_locales blast

text \<open>What the invariant says without its lists.\<close>

lemma kinv_running:
  assumes "kinv s q ds" "is_task s t"
  shows "state s t = READY \<Longrightarrow> prio s t \<le> prio s (run s)" "state s t = RUNNING \<longleftrightarrow> t = run s"
proof -
  note k = kinvD [OF assms(1)]
  have m: "t \<noteq> run s \<Longrightarrow> t \<notin> {run s}" by simp
  show "state s t = READY \<Longrightarrow> prio s t \<le> prio s (run s)"
    using schedD(6) [OF k(1) assms(2) m] k(4,8) by (cases "t = run s") auto
  show "state s t = RUNNING \<longleftrightarrow> t = run s"
    using schedD(9) [OF k(1) assms(2) m] k(4) by (cases "t = run s") auto
qed

lemma sysinv_mutex:
  assumes "sysinv s" "cb_type s m = MUCB"
  shows "level s m \<noteq> 0 \<Longrightarrow> is_task s (owner s m)" "p_lnk s m \<noteq> NULL \<Longrightarrow> level s m \<noteq> 0"
proof -
  obtain q ds own ts where I: "kinv s q ds" "mutexes s q own" using assms(1) by (rule sysinvE)
  show "level s m \<noteq> 0 \<Longrightarrow> is_task s (owner s m)" by (rule mutexesD(4) [OF I(2) assms(2)])
  have "is_head s m" using is_sem_MUCB [OF assms(2)] by (simp add: is_head_def)
  then have "p_lnk s m = NULL" if "q m = []" using kinv_p_lnk_NULL [OF I(1)] that by simp
  then show "p_lnk s m \<noteq> NULL \<Longrightarrow> level s m \<noteq> 0" using mutexesD(5) [OF I(2) assms(2)] by blast
qed

lemma sysinv_typed:
  assumes "sysinv s"
  shows "is_task s (run s)"
    "\<forall>i<length (os_active_TCB s). os_active_TCB s ! i \<noteq> NULL \<longrightarrow>
       cb_type s (os_active_TCB s ! i) = TCB \<and> unat (task_id s (os_active_TCB s ! i)) = Suc i"
    "\<forall>h. h = OS_RDY \<or> cb_type s h \<in> {SCB, MCB, MUCB} \<longrightarrow> p_lnk s h \<noteq> NULL \<longrightarrow> is_task s (p_lnk s h)"
    "p_dlnk s OS_DLY \<noteq> NULL \<longrightarrow> is_task s (p_dlnk s OS_DLY)"
    "\<forall>x\<in>set (psq_items s). is_task s (fst x) \<or> cb_type s (fst x) \<in> {MCB, SCB}"
proof -
  obtain q ds own ts where I: "kinv s q ds" "tables_ok s" using assms by (rule sysinvE)
  note k = kinvD [OF I(1)]
  note Q = schedD(1) [OF k(1)] and D = schedD(2) [OF k(1)]
  show "is_task s (run s)" by (rule k(2))
  show "\<forall>i<length (os_active_TCB s). os_active_TCB s ! i \<noteq> NULL \<longrightarrow>
       cb_type s (os_active_TCB s ! i) = TCB \<and> unat (task_id s (os_active_TCB s ! i)) = Suc i"
  proof (intro allI impI conjI)
    fix i assume i: "i < length (os_active_TCB s)" "os_active_TCB s ! i \<noteq> NULL"
    show "cb_type s (os_active_TCB s ! i) = TCB" using k(6) nth_mem [OF i(1)] i(2) by (auto simp: tasks_ok_def is_task_def)
    show "unat (task_id s (os_active_TCB s ! i)) = Suc i" by (rule task_place(1) [OF I(2) i(1) refl i(2)])
  qed
  show "\<forall>h. h = OS_RDY \<or> cb_type s h \<in> {SCB, MCB, MUCB} \<longrightarrow> p_lnk s h \<noteq> NULL \<longrightarrow> is_task s (p_lnk s h)"
  proof (intro allI impI)
    fix h assume h: "h = OS_RDY \<or> cb_type s h \<in> {SCB, MCB, MUCB}" "p_lnk s h \<noteq> NULL"
    have "is_head s h" using h(1) by (auto simp: is_head_def is_sem_mbx_def)
    then have e: "p_lnk s h = hd0 (q h)" by (rule p_lnk_head [OF Q])
    then show "is_task s (p_lnk s h)" using h(2) queues_task [OF Q, of "hd0 (q h)" h] by (cases "q h") auto
  qed
  show "p_dlnk s OS_DLY \<noteq> NULL \<longrightarrow> is_task s (p_dlnk s OS_DLY)"
  proof
    assume n: "p_dlnk s OS_DLY \<noteq> NULL"
    have c: "chain (p_dlnk s) (p_dlnk s OS_DLY) (map fst ds) NULL" "\<forall>t\<in>fst ` set ds. is_task s t"
      using D by (simp_all add: delays_def)
    then show "is_task s (p_dlnk s OS_DLY)" using n by (cases ds) auto
  qed
  show "\<forall>x\<in>set (psq_items s). is_task s (fst x) \<or> cb_type s (fst x) \<in> {MCB, SCB}"
    using I(2) by (auto simp: tables_ok_def psq_inv_def request_ok_def)
qed

end
