(* ===== verification/Kernel_Properties.thy ===== *)
theory Kernel_Properties
  imports Kernel_Example Kernel_Start
begin

text \<open>
  The properties of the kernel's services, each with an instance at the state of
  \<open>Kernel_Example\<close>.
\<close>

section \<open>The lists\<close>

text \<open>C16: \<open>rt_put_prio\<close> inserts a task into a list by priority, behind the tasks of the same or a
  higher priority and before all others; the lists stay well linked and nothing else changes.\<close>

theorem put_prio_inserts_by_priority:
  assumes "queues s q NULL" "is_head s h" "is_task s t" "\<forall>h'. t \<notin> set (q h')"
  shows "\<exists>s'. rt_put_prio h t s = Some s' \<and>
    queues s' (q(h := takeWhile (\<lambda>x. prio s t \<le> prio s x) (q h) @ t #
      dropWhile (\<lambda>x. prio s t \<le> prio s x) (q h))) NULL \<and>
    s' = s\<lparr>p_lnk := p_lnk s', p_rlnk := p_rlnk s'\<rparr>"
proof -
  obtain s' where "rt_put_prio h t s = Some s'" "links_only s s'"
    "queues s' (q(h := ins_prio (prio s) t (q h))) NULL"
    using rt_put_prio_queues [OF queues_weaken [OF assms(1)] assms(2,3)] assms(4) by metis
  then show ?thesis unfolding ins_prio_def links_only_def by auto
qed

theorem put_prio_inserts_by_priority_witness:
  "\<exists>s'. rt_put_prio OS_RDY (CB 16) ex_kernel = Some s' \<and>
     queues s' (ex_q(OS_RDY := [CB 16, CB 32, OS_IDLE])) NULL"
  using put_prio_inserts_by_priority [OF ex_queues is_head_RDY, of "CB 16"]
  unfolding ex_task ex_q_in by (auto simp: ex_q_def)

text \<open>C17: \<open>rt_put_dly\<close> inserts a task into the delay list, a list of differences, so that the
  times of all other tasks are as before and its own time is the requested one; the list is sorted.\<close>

theorem put_dly_inserts_by_time:
  assumes "delays s ds" "is_task s t" "t \<notin> fst ` set ds" "0 < delay"
  shows "\<exists>s'. rt_put_dly t delay s = Some s' \<and>
    delays s' (takeWhile (\<lambda>x. snd x < unat delay) ds @ (t, unat delay) #
      dropWhile (\<lambda>x. snd x < unat delay) ds)"
  using rt_put_dly_delays [OF assms] unfolding ins_dly_def by metis

theorem put_dly_inserts_by_time_witness:
  "\<exists>s'. rt_put_dly (CB 32) 7 ex_kernel = Some s' \<and>
     delays s' [(CB 48, 1), (CB 96, 5), (CB 32, 7), (CB 80, 9)]"
  using put_dly_inserts_by_time [OF ex_delays, of "CB 32" 7]
  unfolding ex_task by (simp add: ex_ds_def)

section \<open>Semaphores\<close>

text \<open>C14: a token sent to a semaphore with waiting tasks goes to the first of them (the highest
  priority, first come first served): it is told that it has the token, leaves the delay list and
  preempts the sender exactly when its priority is higher; the tokens are unchanged, and the
  invariant of the scheduler holds in the next state.\<close>

theorem sem_send_wakes_first:
  assumes "kinv s q ds" "cb_type s h = SCB" "q h = t # B"
  shows "\<exists>s'. rt_sem_send h s = Some (OS_R_OK, s') \<and>
    kinv (switch_context s') (dispatched s t (q(h := B))) (rmv_dly t ds) \<and>
    new_tsk s' = (if prio s (run s) < prio s t then t else run s) \<and>
    ret0 s' = (ret0 s)(t := 1) \<and> tokens s' = tokens s"
  by (rule rt_sem_send_wake [OF assms]) (auto dest!: core_only_fields(11))

theorem sem_send_wakes_first_witness:
  "\<exists>s'. rt_sem_send (CB 256) ex_kernel = Some (OS_R_OK, s') \<and> new_tsk s' = CB 48 \<and> ret0 s' (CB 48) = 1"
  using sem_send_wakes_first [OF ex_kinv, of "CB 256" "CB 48" "[]"] by (auto simp: ex_q_def cb_types)

text \<open>C15: a task that waits for a semaphore without tokens, and does not return at once, joins the
  queue by priority, is put into the delay list unless it waits forever, and the first ready task
  runs next.\<close>

theorem sem_wait_blocks:
  assumes "kinv s q ds" "cb_type s h = SCB" "tokens s h = 0" "run s \<noteq> OS_IDLE" "timeout \<noteq> 0"
  shows "\<exists>s'. rt_sem_wait h timeout s = Some (OS_R_TMO, s') \<and>
    kinv (switch_context s') (q(h := ins_prio (prio s) (run s) (q h), OS_RDY := tl (q OS_RDY)))
      (if timeout < 0xFFFF then ins_dly (run s) (unat timeout) ds else ds) \<and>
    new_tsk s' = hd (q OS_RDY) \<and> state s' = (state s)(run s := WAIT_SEM, hd (q OS_RDY) := RUNNING)"
  by (rule rt_sem_wait_block [OF assms]) (simp add: blocked_dly_def)

theorem sem_wait_blocks_witness:
  "\<exists>s'. rt_sem_wait (CB 256) 100 ex_kernel = Some (OS_R_TMO, s') \<and> new_tsk s' = CB 32 \<and>
     state s' (CB 16) = WAIT_SEM"
  using sem_wait_blocks [OF ex_kinv, of "CB 256" 100] by (auto simp: ex_q_def cb_types)

section \<open>Mutexes\<close>

text \<open>C7: waiting for a mutex that another task owns blocks the running task in the mutex's queue
  and raises the owner's priority to at least that of the waiting task (priority inheritance); the
  lists that depend on it are sorted again and no mutex changes its owner.\<close>

theorem mut_wait_inherits_priority:
  assumes "kinv s q ds" "mutexes s q own" "cb_type s m = MUCB" "level s m \<noteq> 0" "owner s m \<noteq> run s"
    "run s \<noteq> OS_IDLE" "timeout \<noteq> 0"
  shows "\<exists>s' q'. rt_mut_wait m timeout s = Some (OS_R_TMO, s') \<and>
    kinv (switch_context s') q' (blocked_dly (run s) timeout ds) \<and> mutexes s' q' own \<and>
    state s' (run s) = WAIT_MUT \<and> set (q' m) = insert (run s) (set (q m)) \<and>
    prio s' = (prio s)(owner s m := max (prio s (owner s m)) (prio s (run s)))"
  by (rule rt_mut_wait_block [OF assms]) blast

theorem mut_wait_inherits_priority_witness:
  "\<exists>s'. rt_mut_wait (CB 368) 50 ex_kernel = Some (OS_R_TMO, s') \<and> prio s' (CB 32) = 3"
  using mut_wait_inherits_priority [OF ex_kinv ex_mutexes, of "CB 368" 50] by (auto simp: cb_types max_def)

text \<open>C8: when the owner releases a mutex it has locked once, the first waiting task becomes the
  owner and is told so; the releasing task keeps the highest of its own priority and those of the
  first tasks that wait for its other mutexes.\<close>

theorem mut_release_hands_over:
  assumes "kinv s q ds" "mutexes s q own" "cb_type s m = MUCB" "level s m = 1" "owner s m = run s"
    "q m = t # B" "run s \<noteq> OS_IDLE"
  shows "\<exists>s' q' own'. rt_mut_release m s = Some (OS_R_OK, s') \<and>
    kinv (switch_context s') q' (rmv_dly t ds) \<and> mutexes s' q' own' \<and>
    owner s' m = t \<and> level s' m = 1 \<and> ret0 s' t = 0 \<and> q' m = B \<and>
    prio s' (run s) = inherited s q (remove1 m (own (run s))) (prio_base s (run s))"
  by (rule rt_mut_release_hand_over [OF assms])
    (use MUCB_not_RDY [OF assms(1,3)] in \<open>fastforce simp del: fun_upd_apply simp add: fun_upd_same\<close>)

theorem mut_release_hands_over_witness:
  "\<exists>s'. rt_mut_release (CB 288) ex_kernel = Some (OS_R_OK, s') \<and> owner s' (CB 288) = CB 64 \<and>
     prio s' (CB 16) = 2"
  using mut_release_hands_over [OF ex_kinv ex_mutexes, of "CB 288" "CB 64" "[]"]
  by (auto simp: ex_q_def ex_own_def inherited_def cb_types)

section \<open>The kernel from its start\<close>

text \<open>C3: in every state that the kernel reaches from its start, by any sequence of services, interrupt
  handlers, ticks and post-service handling, the running task is the only one with the state RUNNING
  and no task that is ready has a higher priority.\<close>

theorem highest_priority_runs:
  assumes "kreach s" "is_task s t"
  shows "(state s t = RUNNING \<longleftrightarrow> t = run s) \<and> \<not> (state s t = READY \<and> prio s (run s) < prio s t)"
proof -
  obtain q ds where "kinv s q ds" using kreach_inv [OF assms(1)] by (rule sysinvE)
  from kinv_running [OF this assms(2)] show ?thesis by auto
qed

lemma replicate_2: "replicate 2 x = [x, x]"
  by (simp add: numeral_2_eq_2)

lemma ex_boot_start: "ex_boot = rt_sys_init 16 5 0 (fresh 2 4096 8192 ((\<lambda>_. [])(4096 := [512, 768])) 0)"
  by (simp add: ex_boot_def fresh_def replicate_2)

lemma ex_boot_reached: "kreach ex_boot"
proof -
  note ex_boot_start
  then show ?thesis using kreach.boot [of 16 2 "(\<lambda>_. [])(4096 := [512, 768])" 4096 8192 5 0 0] by (simp add: boot_ok_def)
qed

theorem highest_priority_runs_witness: "state ex_boot OS_IDLE = RUNNING \<and> run ex_boot = OS_IDLE"
  using highest_priority_runs [OF ex_boot_reached, of OS_IDLE] by (simp add: is_task_def cb_types)

text \<open>C4: in a reached state every step of the machine (the services of threads, signals, mutexes, semaphores,
  message queues and timers, those of interrupt handlers, the tick and the post-service handling) returns
  and reaches the next state when the handler finds room: a thread that ends itself has not overrun its
  stack, the queue of requests is not full when an interrupt handler calls, and the timers that end and
  the pending messages have room in their queues.  Otherwise it may stop, but only in \<open>os_error\<close>: no step
  follows a null pointer or runs forever.\<close>

theorem kernel_steps_return:
  assumes "kreach s" "kok e s"
  shows "(room e s \<longrightarrow> (\<exists>s'. kstep e s = Some s' \<and> kreach s')) \<and>
    (kstep e s = None \<longrightarrow> (\<exists>s'. handler e s = Some s' \<and> os_err s' \<noteq> None))"
proof (intro conjI impI)
  show "\<exists>s'. kstep e s = Some s' \<and> kreach s'" if "room e s"
    by (rule reached_room.step_inv) (use assms that in simp_all)
  show "\<exists>s'. handler e s = Some s' \<and> os_err s' \<noteq> None" if "kstep e s = None"
    by (rule kstep_stops [OF kreach_ok [OF assms(1)] assms(2) that])
qed

theorem kernel_steps_return_witness:
  "(\<exists>s'. kstep (ThreadCreate ex_thread 7) ex_boot = Some s' \<and> kreach s') \<and> (\<exists>s'. kstep SysTick ex_boot = Some s' \<and> kreach s')"
proof -
  have "os_timer_head ex_boot = NULL" by (rule sys_init_fields(5) [OF ex_boot_start])
  then have "ts = []" if "timers ex_boot ts" for ts using that by (cases ts) (auto simp: timers_def)
  then have "room SysTick ex_boot" by (fastforce simp: room_def timer_room_def expired_def)
  then show ?thesis using kernel_steps_return [OF ex_boot_reached, of "ThreadCreate ex_thread 7"]
      kernel_steps_return [OF ex_boot_reached, of SysTick] by (simp add: kok_def room_def)
qed

text \<open>C6: in every state that the kernel reaches, its pointers lead to control blocks of the right kind: every
  entry of the table of active tasks is a task and has the number of its place, the first element of
  the ready list, of the delay list and of the list of every object is a task, a locked mutex belongs
  to a task and only a locked one is waited for, and the requests of interrupt handlers name tasks,
  mailboxes and semaphores.\<close>

theorem control_blocks_typed:
  assumes "kreach s"
  shows "is_task s (run s) \<and>
    (\<forall>i<length (os_active_TCB s). os_active_TCB s ! i \<noteq> NULL \<longrightarrow>
       cb_type s (os_active_TCB s ! i) = TCB \<and> unat (task_id s (os_active_TCB s ! i)) = Suc i) \<and>
    (\<forall>h. h = OS_RDY \<or> cb_type s h \<in> {SCB, MCB, MUCB} \<longrightarrow> p_lnk s h \<noteq> NULL \<longrightarrow> is_task s (p_lnk s h)) \<and>
    (p_dlnk s OS_DLY \<noteq> NULL \<longrightarrow> is_task s (p_dlnk s OS_DLY)) \<and>
    (\<forall>m. cb_type s m = MUCB \<longrightarrow> (level s m \<noteq> 0 \<longrightarrow> is_task s (owner s m)) \<and> (p_lnk s m \<noteq> NULL \<longrightarrow> level s m \<noteq> 0)) \<and>
    (\<forall>x\<in>set (psq_items s). is_task s (fst x) \<or> cb_type s (fst x) \<in> {MCB, SCB})"
proof -
  note S = kreach_inv [OF assms]
  note t = sysinv_typed [OF S] and m = sysinv_mutex [OF S]
  show ?thesis by (intro conjI) (use t m in blast)+
qed

theorem control_blocks_typed_witness: "is_task ex_boot OS_IDLE"
  using control_blocks_typed [OF ex_boot_reached] by simp

text \<open>C9: a thread that is terminated leaves the table of active tasks, and each mutex that it holds goes to
  the first thread that waits for it, which is ready or runs, or becomes free; the kernel is in order
  in the next state, and has not called \<open>os_error\<close> unless the thread ends itself with an overrun stack.\<close>

theorem terminate_passes_mutexes_on:
  assumes "sysinv s" "kok (ThreadTerminate t) s" "rt_tid2ptcb s t \<noteq> NULL"
    "cb_type s m = MUCB" "level s m \<noteq> 0" "owner s m = t"
  shows "\<exists>s'. svcThreadTerminate t s = Some (osOK, s') \<and> sysinv (switch_context s') \<and> t \<notin> set (os_active_TCB s') \<and>
    (p_lnk s m = NULL \<longrightarrow> level s' m = 0) \<and>
    (p_lnk s m \<notin> {NULL, t} \<longrightarrow> level s' m = 1 \<and> owner s' m = p_lnk s m \<and> state s' (p_lnk s m) \<in> {READY, RUNNING}) \<and>
    ((t = run s \<longrightarrow> stack_intact s) \<longrightarrow> os_err s' = os_err s)"
proof -
  obtain q ds own ts where I: "kinv s q ds" "mutexes s q own" "timers_ok s ts" "tables_ok s" using assms(1) by (rule sysinvE)
  show ?thesis
    by (rule terminate_ok [OF I assms(2,3)]) (use assms(4-6) terminate_err [OF I(1,4) assms(2)] in blast)
qed

theorem terminate_passes_mutexes_on_witness:
  "\<exists>s'. svcThreadTerminate (CB 16) ex_sys = Some (osOK, s') \<and> owner s' (CB 288) = CB 64"
  using terminate_passes_mutexes_on [OF ex_sys_inv, of "CB 16" "CB 288"]
  by (auto simp: kok_def thread_ok_def rt_tid2ptcb_def addr_of_def cb_types psq_items_def psq_from_def ring_def)

text \<open>C5: the kernel starts: after \<open>svcKernelInitialize\<close> on zeroed memory the idle task runs and has the
  highest priority, 255, so that objects and threads can be created; \<open>svcKernelStart\<close> after any steps that
  return and leave a thread ready returns as well, and the first thread of the ready list runs next when
  its priority is higher than the base priority, which the running task gets back, else the running
  task goes on.\<close>

theorem kernel_starts:
  assumes "boot_ok (kc_fifo_size k) n (bm pt)" "pt \<noteq> ps" "config_ok k (bm pt)"
    and "krn c = fresh n pt ps bm si" "\<not> os_initialized c"
  shows "\<exists>c1. svcKernelInitialize k isr c = Some (osOK, c1) \<and> run (krn c1) = OS_IDLE \<and>
    prio (krn c1) OS_IDLE = 255 \<and>
    (\<forall>es s. oks kstep kok es (krn c1) \<and> runs kstep es (krn c1) = Some s \<and> p_lnk s OS_RDY \<noteq> NULL \<longrightarrow>
      (\<exists>c2. svcKernelStart (c1\<lparr>krn := s\<rparr>) = Some (osOK, c2) \<and> os_running c2 \<and> kreach (switch_context (krn c2)) \<and>
        new_tsk (krn c2) = (if prio_base s (run s) < prio s (p_lnk s OS_RDY) then p_lnk s OS_RDY else run s)))"
proof -
  obtain c1 where c1: "svcKernelInitialize k isr c = Some (osOK, c1)" "\<not> os_running c1" "run (krn c1) = OS_IDLE"
    "prio (krn c1) OS_IDLE = 255"
    by (rule initialize_ok [OF assms])
  have r: "kreach (krn c1)" by (rule kreach.initialize [OF assms c1(1)])
  have "\<exists>c2. svcKernelStart (c1\<lparr>krn := s\<rparr>) = Some (osOK, c2) \<and> os_running c2 \<and> kreach (switch_context (krn c2)) \<and>
      new_tsk (krn c2) = (if prio_base s (run s) < prio s (p_lnk s OS_RDY) then p_lnk s OS_RDY else run s)"
    if o: "oks kstep kok es (krn c1)" "runs kstep es (krn c1) = Some s" "p_lnk s OS_RDY \<noteq> NULL" for es s
  proof -
    have s: "kreach s" by (rule reached.runs_inv_Some [OF r o(1,2)])
    have k: "krn (c1\<lparr>krn := s\<rparr>) = s" "\<not> os_running (c1\<lparr>krn := s\<rparr>)" using c1(2) by simp_all
    obtain c2 where "svcKernelStart (c1\<lparr>krn := s\<rparr>) = Some (osOK, c2)" "os_running c2"
      "new_tsk (krn c2) = (if prio_base s (run s) < prio s (p_lnk s OS_RDY) then p_lnk s OS_RDY else run s)"
      by (rule start_ok [OF kreach_inv [OF s] o(3) k])
    then show ?thesis using kreach.start [OF s o(3) k] by blast
  qed
  then show ?thesis using c1 by blast
qed

text \<open>A configuration with a timer thread, and the memory before the start.\<close>

definition ex_config :: kernel_config where
  "ex_config = \<lparr>kc_fifo_size = 16, kc_rrobin = 5, kc_idle_demon = 0, kc_timer_queue = \<lparr>qd_sz = 4, qd_pool = CB 2048\<rparr>,
     kc_timer_thread = \<lparr>td_pthread = 4, td_tpriority = 2, td_stacksize = 800, td_stack_pointer = 1024\<rparr>,
     kc_thread_mutex = CB 4000, kc_thread_exit = 0x1234\<rparr>"

definition ex_off :: cmsis where
  "ex_off = \<lparr>krn = fresh 2 4096 8192 ((\<lambda>_. [])(4096 := [512, 768])) 0, os_initialized = False, os_running = False, osMutexId_osThreadMutex = NULL\<rparr>"



lemma ex_init: "\<exists>c. svcKernelInitialize ex_config False ex_off = Some (osOK, c) \<and> p_lnk (krn c) OS_RDY = CB 512 \<and>
   prio_base (krn c) OS_IDLE = 0 \<and> prio (krn c) (CB 512) = 6"
  apply (simp add: svcKernelInitialize_def ex_config_def ex_off_def fresh_def replicate_2 rt_sys_init_def Let_def
      zero_kernel_def rt_switch_req_def rt_init_robin_def init_box_def rt_init_context_def alloc_box_def rt_init_stack_def svcMessageCreate_def rt_mbx_init_def)
  apply (simp add: svcThreadCreate_def osPriorityIdle_def osPriorityRealtime_def rt_tsk_create_def
      alloc_box_def rt_init_context_def rt_init_stack_def ptr_of_def rt_get_TID_def cb_types Let_def)
  apply (simp add: rt_dispatch_def rt_put_prio_def osMutexCreate_def svcMutexCreate_def rt_mut_init_def Let_def cb_types)
  apply (simp add: put_prio_search.simps rt_mut_init_def)
  done

theorem kernel_starts_witness:
  "\<exists>c1 c2. svcKernelInitialize ex_config False ex_off = Some (osOK, c1) \<and> svcKernelStart c1 = Some (osOK, c2) \<and>
     new_tsk (krn c2) = CB 512"
proof -
  obtain c1 where c1: "svcKernelInitialize ex_config False ex_off = Some (osOK, c1)"
    "p_lnk (krn c1) OS_RDY = CB 512" "prio_base (krn c1) OS_IDLE = 0" "prio (krn c1) (CB 512) = 6" using ex_init by blast
  have "boot_ok (kc_fifo_size ex_config) 2 (((\<lambda>_. [])(4096 := [512, 768])) 4096)" "(4096 :: U32) \<noteq> 8192"
    "config_ok ex_config (((\<lambda>_. [])(4096 := [512, 768])) 4096)"
    "krn ex_off = fresh 2 4096 8192 ((\<lambda>_. [])(4096 := [512, 768])) 0" "\<not> os_initialized ex_off"
    by (auto simp: boot_ok_def config_ok_def ex_config_def ex_off_def)
  from kernel_starts [OF this, of False] show ?thesis
    using c1 by (elim exE conjE allE [of _ "[]"]) auto
qed
section \<open>Tasks, exceptions and requests\<close>

text \<open>A created task gets the first free number and is dispatched: it runs at once when its priority
  is higher than that of the running task, else it joins the ready list behind its equals.\<close>

lemma created_task_is_dispatched:
  assumes "kinv s q ds" "box_free s (mp_tcb s) = b # bs" "b \<noteq> 0" "free_addr s (CB b)" "\<not> is_sem_mbx s (CB b)"
    "NULL \<in> set (os_active_TCB s)"
  shows "\<exists>i s' s0. rt_tsk_create task ps stk arg s = Some (word_of_nat (Suc i), s') \<and>
    i < length (os_active_TCB s) \<and> os_active_TCB s ! i = NULL \<and> \<not> (\<exists>j<i. os_active_TCB s ! j = NULL) \<and>
    os_active_TCB s' = (os_active_TCB s)[i := CB b] \<and>
    prio s0 = (prio s)(CB b := create_prio ps) \<and> run s0 = run s \<and>
    kinv (switch_context s') (dispatched s0 (CB b) q) ds \<and>
    new_tsk s' = (if prio s (run s) < create_prio ps then CB b else run s)"
  by (rule rt_tsk_create_ok [OF assms]) (intro exI conjI; blast)

text \<open>When all task numbers are in use, creating a task fails and the control block that has been
  allocated for it is lost.\<close>

lemma create_without_number_leaks:
  assumes "box_free s (mp_tcb s) = b # bs" "b \<noteq> 0" "NULL \<notin> set (os_active_TCB s)"
  shows "\<exists>s'. rt_tsk_create task ps stk arg s = Some (0, s') \<and> box_free s' (mp_tcb s) = bs \<and>
    os_active_TCB s' = os_active_TCB s"
  by (rule rt_tsk_create_leaks [OF assms])

text \<open>C13: at a tick the time goes on by one, the tasks whose times are over become ready and leave the
  lists in which they wait, the round robin changes between tasks of the same priority, the timers
  count down and the first task of the ready list runs; the invariant holds in the next state, and the
  kernel has not called \<open>os_error\<close> when the requests of the timers that end find room.\<close>

theorem tick_schedules:
  assumes "kinv s q ds" "timers_ok s ts"
  shows "\<exists>s'. rt_systick s = Some s' \<and> os_time s' = os_time s + 1 \<and> new_tsk s' = hd (ticked s q ds OS_RDY) \<and>
    kinv (switch_context s') ((ticked s q ds)(OS_RDY := tl (ticked s q ds OS_RDY))) (kept ds) \<and>
    timers_ok s' (fold (rearm s) (expired ts) (kept ts)) \<and>
    (psq_wf s \<and> timer_room s \<longrightarrow> os_err s' = os_err s)"
  by (rule rt_systick_ok [OF assms]) (use systick_err [OF assms(2)] in blast)

theorem tick_schedules_witness: "\<exists>s'. rt_systick ex_kernel = Some s' \<and> new_tsk s' = CB 48"
  using tick_schedules [OF ex_kinv, of "[]"] ex_ticked by (auto simp: timers_ok_def timers_def osTimerRunning_def)

text \<open>C18: the post-service handling carries out all requests that interrupt handlers have left, in the
  order of their arrival, with the running task put back into the ready list; the queue is empty
  afterwards and the invariant holds, and the kernel has not called \<open>os_error\<close> when the mailboxes have room
  for the messages.\<close>

theorem requests_carried_out_in_order:
  assumes "kinv s q ds" "psq_wf s" "\<forall>x\<in>set (psq_items s). request_ok s x"
  shows "\<exists>s' q' ds' s2. rt_pop_req s = Some s' \<and> kinv (switch_context s') q' ds' \<and> psq_wf s' \<and>
    psq_items s' = [] \<and> prio s' = prio s \<and>
    handle_all (psq_items s) (rt_put_rdy_first (run s) (set_state (run s) READY s)) = Some s2 \<and>
    tokens s' = tokens s2 \<and> events s' = events s2 \<and> mcb_count s' = mcb_count s2 \<and> mcb_msg s' = mcb_msg s2 \<and>
    (mailbox_room s (psq_items s) \<longrightarrow> os_err s' = os_err s)"
  by (rule rt_pop_req_ok [OF assms]) (use pop_req_err [OF assms] in blast)

theorem requests_carried_out_in_order_witness:
  "\<exists>s'. rt_pop_req ex_requests = Some s' \<and> psq_items s' = []"
  using requests_carried_out_in_order [OF ex_requests_ok(1,2,4)] by blast

text \<open>A request of an interrupt handler goes to the end of the queue of requests; only a full queue
  loses it, and then the kernel stops with the error OS_ERR_FIFO_OVF.\<close>

lemma request_queue_is_fifo:
  assumes "psq_wf s"
  shows "psq_wf (rt_psq_enq p a s) \<and>
    psq_items (rt_psq_enq p a s) = (if psq_count s < psq_size s then psq_items s @ [(p, a)] else psq_items s) \<and>
    os_err (rt_psq_enq p a s) = (if psq_count s < psq_size s then os_err s else Some OS_ERR_FIFO_OVF)"
  using psq_enq_ok [OF assms] psq_enq_full [OF _ assms] assms
  by (auto simp: os_error_def psq_wf_def psq_items_def psq_from_def)

section \<open>Mailboxes, event flags and timers\<close>

text \<open>C27: receiving from a full mailbox at which a sender waits returns the oldest message and stores that
  of the first waiting sender behind the others, which is made ready: no message is lost, and they
  keep their order.\<close>

theorem receive_lets_sender_in:
  assumes "kinv s q ds" "cb_type s m = MCB" "mcb_count s m \<noteq> 0" "q m = t # B" "mcb_state s m = 2" "mbx_wf m s"
  shows "\<exists>s'. rt_mbx_wait m timeout s = Some (OS_R_OK, Some (hd (mbx_msgs m s)), s') \<and>
    kinv (switch_context s') (dispatched s t (q(m := B))) (rmv_dly t ds) \<and>
    mbx_wf m s' \<and> mbx_msgs m s' = tl (mbx_msgs m s) @ [msg s t] \<and> ret0 s' = (ret0 s)(t := 0)"
  by (rule rt_mbx_wait_sender [OF assms]) blast

theorem receive_lets_sender_in_witness:
  "\<exists>s'. rt_mbx_wait (CB 336) 0 ex_kernel = Some (OS_R_OK, Some 7, s') \<and> mbx_msgs (CB 336) s' = [8]"
  using receive_lets_sender_in [OF ex_kinv, of "CB 336" "CB 112" "[]" 0] ex_mbx_wf ex_mbx_msgs
  by (auto simp: ex_q_def cb_types)

text \<open>C28: setting the flags that a task waits for makes it ready with the flags that woke it as its result;
  it leaves the delay list and preempts the running task when its priority is higher, and the flags
  it waited for are cleared.\<close>

theorem flags_wake_task:
  assumes "kinv s q ds" "os_active_TCB s ! (unat tid - 1) = t" "is_task s t" "evt_wakes s t f"
  shows "\<exists>s'. rt_evt_set f tid s = Some s' \<and>
    kinv (switch_context s') (dispatched s t q) (rmv_dly t ds) \<and>
    new_tsk s' = (if prio s (run s) < prio s t then t else run s) \<and>
    events s' t = (events s t OR f) AND NOT (waits s t) \<and> ret0 s' t = 8 \<and>
    ret1 s' t = ucast (if state s t = WAIT_AND then waits s t else waits s t AND (events s t OR f))"
  by (rule rt_evt_set_wake [OF assms]) blast

theorem flags_wake_task_witness:
  "\<exists>s'. rt_evt_set 1 6 ex_kernel = Some s' \<and> new_tsk s' = CB 96 \<and> ret1 s' (CB 96) = 1"
  using flags_wake_task [OF ex_kinv, of 6 "CB 96" 1] by (auto simp: ex_task evt_wakes_def)

text \<open>C34: at a tick of the timers the expired ones leave the list, each periodic one goes back to the place
  of its period, and all others have one tick less; \<open>os_error\<close> is not called when the requests of the
  expired timers find room.\<close>

theorem timers_count_down:
  assumes "timers_ok s ts"
  shows "\<exists>s'. sysTimerTick s = Some s' \<and> timers_ok s' (fold (rearm s) (expired ts) (kept ts)) \<and>
    (psq_wf s \<and> timer_room s \<longrightarrow> os_err s' = os_err s)"
  by (rule sysTimerTick_timers_ok [OF assms]) (use timer_tick_err [OF assms] in blast)

theorem timers_count_down_witness:
  "\<exists>s'. sysTimerTick ex_timers = Some s' \<and> timers_ok s' [(CB 620, 2), (CB 600, 5)]"
proof -
  obtain s' where "sysTimerTick ex_timers = Some s'"
    "timers_ok s' (fold (rearm ex_timers) (expired [(CB 600, 1), (CB 620, 3)]) (kept [(CB 600, 1), (CB 620, 3)]))"
    using timers_count_down [OF ex_timers_ok] by blast
  then show ?thesis by (simp add: expired_def kept_def tick_ds_def rearm_def ins_tmr_def ex_timers_def)
qed

text \<open>Milliseconds become ticks, of one millisecond, without a change from 1 to 65534; longer times are
  cut to 65534 and only osWaitForever waits forever.\<close>

lemma ms2tick_exact:
  "unat (rt_ms2tick ms) = (if ms = osWaitForever then 65535 else min (unat ms) 65534)"
proof -
  consider "ms = 0" | "ms = osWaitForever" | "4000000 < ms" "ms \<noteq> osWaitForever" | "ms \<noteq> 0" "ms \<le> 4000000" by fastforce
  then show ?thesis
  proof cases
    case 4
    then have t: "(1000 * ms + os_clockrate - 1) div os_clockrate = ms"
      by (simp add: word_unat_eq_iff os_clockrate_def unat_div word_le_nat_alt unat_word_ariths)
    have "ms \<noteq> osWaitForever" "\<not> 4000000 < ms" using 4 by (auto simp: osWaitForever_def)
    moreover have "unat (ucast ms :: U16) = unat ms" if "\<not> 0xFFFE < ms"
      using that by (simp add: word_less_nat_alt unsigned_ucast_eq unsigned_take_bit_eq take_bit_nat_eq_self)
    ultimately show ?thesis using 4(1) by (auto simp: rt_ms2tick_def Let_def t word_less_nat_alt)
  qed (auto simp: rt_ms2tick_def osWaitForever_def word_less_nat_alt)
qed

text \<open>When the system sleeps for longer than the only delayed task, the kernel makes that task ready
  but counts one tick more at most: the rest of the time that has been slept is lost.\<close>

lemma resume_loses_time:
  assumes "sched s q [(t, k)] {}" "k \<le> unat sleep"
  shows "\<exists>s'. resume_delays sleep s = Some s' \<and> sched s' (make_ready (prio s) t q) [] {} \<and>
    os_time s' = os_time s + word_of_nat k + (if unat sleep = k then 0 else 1)"
  by (rule resume_delays_single [OF assms]) blast

section \<open>Services and memory pools\<close>

text \<open>The service that releases a semaphore never loses a token: it refuses when the count is at its
  maximum of 65535, else it counts one more, or hands the token to a waiting task.\<close>

lemma semaphore_count_never_wraps:
  assumes "kinv s q ds" "rt_id2obj h \<noteq> NULL" "cb_type s (rt_id2obj h) = SCB"
  shows "\<exists>r s'. svcSemaphoreRelease h s = Some (r, s') \<and>
    r = (if tokens s (rt_id2obj h) = 65535 then osErrorResource else osOK) \<and>
    unat (tokens s' (rt_id2obj h)) =
      (if r = osOK \<and> q (rt_id2obj h) = [] then unat (tokens s (rt_id2obj h)) + 1 else unat (tokens s (rt_id2obj h)))"
proof (cases "tokens s (rt_id2obj h) = 65535")
  case True
  then show ?thesis using assms by (simp add: svcSemaphoreRelease_def osFeature_Semaphore_def osOK_def osErrorResource_def)
next
  case False
  then have f: "uint (tokens s (rt_id2obj h)) \<noteq> osFeature_Semaphore"
    by (simp add: osFeature_Semaphore_def word_uint_eq_iff)
  show ?thesis
  proof (cases "q (rt_id2obj h)")
    case Nil
    have "unat (tokens s (rt_id2obj h)) \<noteq> 65535" using False by (simp add: word_unat_eq_iff)
    then have "unat (tokens s (rt_id2obj h) + 1) = unat (tokens s (rt_id2obj h)) + 1"
      using u16_le [of "tokens s (rt_id2obj h)"] by (subst unat_add_u16) simp_all
    then show ?thesis using rt_sem_send_store(1) [OF assms(1,3) Nil] assms f False Nil
      by (simp add: svcSemaphoreRelease_def Let_def)
  next
    case (Cons t B)
    show ?thesis
      by (rule rt_sem_send_wake [OF assms(1,3) Cons]) (use assms f False Cons in \<open>auto simp: svcSemaphoreRelease_def Let_def dest!: core_only_fields(11)\<close>)
  qed
qed

text \<open>C33: the allocator of memory words implements the lists of free blocks that the kernel is modelled
  with: it returns the same block, and the words are again a pool with the same list.\<close>

theorem pool_words_implement_lists:
  assumes "pool bm en b0 sz n m fs" "box_free s bm = map (blk b0 sz) fs"
  shows "\<exists>b s' m' fs'. alloc_box bm s = (b, s') \<and> rt_alloc_box bm m = (b, m') \<and>
    pool bm en b0 sz n m' fs' \<and> box_free s' bm = map (blk b0 sz) fs'"
  by (rule alloc_implements [OF assms]) blast

theorem pool_words_implement_lists_witness:
  "\<exists>b m'. rt_alloc_box 4096 ex_mem = (b, m') \<and>
     b = fst (alloc_box 4096 (ex_kernel\<lparr>box_free := (\<lambda>_. [])(4096 := [4108, 4116])\<rparr>))"
  using pool_words_implement_lists [OF ex_mem_pool, of "ex_kernel\<lparr>box_free := (\<lambda>_. [])(4096 := [4108, 4116])\<rparr>"]
  by (auto simp: blk_def)

text \<open>The test of \<open>rt_free_box\<close> does not find a block that is released twice: it is then given out
  twice.\<close>

lemma double_free_is_accepted:
  assumes "pool bm en b0 sz n m fs" "i < n" "i \<notin> set fs"
  shows "\<exists>m1 m2 m3 m4. rt_free_box bm (blk b0 sz i) m = (0, m1) \<and> rt_free_box bm (blk b0 sz i) m1 = (0, m2) \<and>
    rt_alloc_box bm m2 = (blk b0 sz i, m3) \<and> rt_alloc_box bm m3 = (blk b0 sz i, m4)"
  by (rule double_free_ok [OF assms])

end
