(* ===== verification/Mbed_Critical.thy ===== *)
theory Mbed_Critical
  imports Prelude
begin

text \<open>
  Critical sections and atomic operations (\<open>platform/mbed_critical.c\<close>).  Critical sections nest: a
  counter says how many are open, and the interrupt mask that was found by the outermost one is
  restored at its end.  A failed assertion never returns: it is \<open>None\<close>.

  The atomic operations have two implementations: by exclusive access, for the Cortex-M3, and in a
  critical section.  In the former, what interrupt handlers and other threads do to the variable
  between the exclusive load and the exclusive store is an argument: the store fails then, because
  the exception has cleared the monitor.  A loop is given the interferences of its turns, a list, and
  its last turn is undisturbed; with an endless interference it does not end.
\<close>

section \<open>Critical sections\<close>

record critical =
  interrupt_enable_counter :: U32
  critical_interrupts_disabled :: bool
  primask :: bool

definition core_util_are_interrupts_enabled :: "critical \<Rightarrow> bool" where
  "core_util_are_interrupts_enabled s \<longleftrightarrow> \<not> primask s"

definition core_util_critical_section_enter :: "critical \<Rightarrow> critical option" where
  "core_util_critical_section_enter s =
     (let interrupts_disabled = (\<not> core_util_are_interrupts_enabled s);
          s = s\<lparr>primask := True\<rparr>;
          s = (if interrupt_enable_counter s = 0 then s\<lparr>critical_interrupts_disabled := interrupts_disabled\<rparr> else s)
      in if \<not> interrupt_enable_counter s < 0xFFFFFFFF then None
      else if 0 < interrupt_enable_counter s \<and> \<not> interrupts_disabled then None
      else Some (s\<lparr>interrupt_enable_counter := interrupt_enable_counter s + 1\<rparr>))"

definition core_util_critical_section_exit :: "critical \<Rightarrow> critical option" where
  "core_util_critical_section_exit s =
     (if interrupt_enable_counter s \<noteq> 0
      then
        let interrupts_disabled = (\<not> core_util_are_interrupts_enabled s) in
        if \<not> interrupts_disabled then None
        else
          let s = s\<lparr>interrupt_enable_counter := interrupt_enable_counter s - 1\<rparr> in
          Some (if interrupt_enable_counter s = 0 \<and> \<not> critical_interrupts_disabled s
                then s\<lparr>primask := False\<rparr> else s)
      else Some s)"

text \<open>Sequences of the two, and the number of sections that are open at their end.\<close>

datatype critical_op = Enter | Exit

primrec critical_step :: "critical_op \<Rightarrow> critical \<Rightarrow> critical option" where
  "critical_step Enter s = core_util_critical_section_enter s"
| "critical_step Exit s = core_util_critical_section_exit s"

primrec critical_run :: "critical_op list \<Rightarrow> critical \<Rightarrow> critical option" where
  "critical_run [] s = Some s"
| "critical_run (x # xs) s = Option.bind (critical_step x s) (critical_run xs)"

fun nests :: "nat \<Rightarrow> critical_op list \<Rightarrow> nat \<Rightarrow> bool" where
  "nests d [] e \<longleftrightarrow> d = e"
| "nests d (Enter # xs) e \<longleftrightarrow> nests (Suc d) xs e"
| "nests (Suc d) (Exit # xs) e \<longleftrightarrow> nests d xs e"
| "nests 0 (Exit # xs) e \<longleftrightarrow> False"

text \<open>In a section interrupts are disabled, and outside they are as they were.\<close>

definition critical_at :: "bool \<Rightarrow> nat \<Rightarrow> critical \<Rightarrow> bool" where
  "critical_at p d s \<longleftrightarrow> unat (interrupt_enable_counter s) = d \<and>
     (if d = 0 then primask s = p else primask s \<and> critical_interrupts_disabled s = p)"

lemma critical_enter_ok:
  assumes "critical_at p d s" "d < 4294967295"
  obtains s' where "core_util_critical_section_enter s = Some s'" "critical_at p (Suc d) s'"
proof -
  have c: "interrupt_enable_counter s < 0xFFFFFFFF" using assms by (simp add: critical_at_def word_less_nat_alt)
  have z: "interrupt_enable_counter s = 0 \<longleftrightarrow> d = 0" using assms(1) by (auto simp: critical_at_def word_unat_eq_iff)
  have u: "unat (interrupt_enable_counter s + 1) = Suc d" using assms by (simp add: critical_at_def unat_add_u32)
  show thesis
    by (rule that [of "(if d = 0 then s\<lparr>critical_interrupts_disabled := p\<rparr> else s)\<lparr>primask := True, interrupt_enable_counter := interrupt_enable_counter s + 1\<rparr>"])
      (use assms(1) c z u in \<open>auto simp: core_util_critical_section_enter_def core_util_are_interrupts_enabled_def critical_at_def Let_def word_gt_0\<close>)
qed

lemma critical_exit_ok:
  assumes "critical_at p (Suc d) s"
  obtains s' where "core_util_critical_section_exit s = Some s'" "critical_at p d s'"
proof -
  have z: "interrupt_enable_counter s \<noteq> 0" using assms by (auto simp: critical_at_def)
  have u: "unat (interrupt_enable_counter s - 1) = d" using assms by (simp add: critical_at_def unat_sub_word)
  have z': "interrupt_enable_counter s - 1 = 0 \<longleftrightarrow> d = 0" using u by (metis unsigned_0 unat_eq_zero)
  show thesis
    using that assms z u z' by (auto simp: core_util_critical_section_exit_def core_util_are_interrupts_enabled_def critical_at_def Let_def)
qed

lemma critical_run_ok:
  "critical_at p d s \<Longrightarrow> nests d xs e \<Longrightarrow> d + length xs < 4294967296 \<Longrightarrow>
    \<exists>s'. critical_run xs s = Some s' \<and> critical_at p e s'"
proof (induction xs arbitrary: d s)
  case (Cons x xs)
  show ?case
  proof (cases x)
    case Enter
    obtain s' where "core_util_critical_section_enter s = Some s'" "critical_at p (Suc d) s'"
      using critical_enter_ok [OF Cons.prems(1)] Cons.prems(3) by auto
    then show ?thesis using Cons.IH [of "Suc d" s'] Cons.prems Enter by simp
  next
    case Exit
    then obtain d' where d: "d = Suc d'" using Cons.prems(2) by (cases d) auto
    obtain s' where "core_util_critical_section_exit s = Some s'" "critical_at p d' s'"
      using critical_exit_ok Cons.prems(1) d by blast
    then show ?thesis using Cons.IH [of d' s'] Cons.prems Exit d by simp
  qed
qed simp

section \<open>Atomic operations\<close>

text \<open>By exclusive access.  The results are the return value, the variable, and for the comparison
  \<open>*expectedCurrentValue\<close>.\<close>

definition atomic_cas :: "('a::len word \<Rightarrow> 'a word) option \<Rightarrow> 'a word \<Rightarrow> 'a word \<Rightarrow> 'a word \<Rightarrow>
    bool \<times> 'a word \<times> 'a word" where
  "atomic_cas disturb m expected desired =
     (if m \<noteq> expected then (False, m, m)
      else case disturb of None \<Rightarrow> (True, desired, expected) | Some f \<Rightarrow> (False, f m, expected))"

fun atomic_incr :: "('a::len word \<Rightarrow> 'a word) list \<Rightarrow> 'a word \<Rightarrow> 'a word \<Rightarrow> 'a word \<times> 'a word" where
  "atomic_incr [] m delta = (m + delta, m + delta)"
| "atomic_incr (f # fs) m delta = atomic_incr fs (f m) delta"

fun atomic_decr :: "('a::len word \<Rightarrow> 'a word) list \<Rightarrow> 'a word \<Rightarrow> 'a word \<Rightarrow> 'a word \<times> 'a word" where
  "atomic_decr [] m delta = (m - delta, m - delta)"
| "atomic_decr (f # fs) m delta = atomic_decr fs (f m) delta"

text \<open>In a critical section.\<close>

definition section_cas :: "critical \<Rightarrow> 'a::len word \<Rightarrow> 'a word \<Rightarrow> 'a word \<Rightarrow>
    ((bool \<times> 'a word \<times> 'a word) \<times> critical) option" where
  "section_cas s m expected desired = do {
     s \<leftarrow> core_util_critical_section_enter s;
     let r = (if m = expected then (True, desired, expected) else (False, m, m));
     s \<leftarrow> core_util_critical_section_exit s;
     Some (r, s)
   }"

definition section_incr :: "critical \<Rightarrow> 'a::len word \<Rightarrow> 'a word \<Rightarrow> (('a word \<times> 'a word) \<times> critical) option" where
  "section_incr s m delta = do {
     s \<leftarrow> core_util_critical_section_enter s;
     let newValue = m + delta;
     s \<leftarrow> core_util_critical_section_exit s;
     Some ((newValue, newValue), s)
   }"

definition section_decr :: "critical \<Rightarrow> 'a::len word \<Rightarrow> 'a word \<Rightarrow> (('a word \<times> 'a word) \<times> critical) option" where
  "section_decr s m delta = do {
     s \<leftarrow> core_util_critical_section_enter s;
     let newValue = m - delta;
     s \<leftarrow> core_util_critical_section_exit s;
     Some ((newValue, newValue), s)
   }"

text \<open>At the widths of the code; a pointer is a 32-bit word.\<close>

definition core_util_atomic_cas_u8 :: "(U8 \<Rightarrow> U8) option \<Rightarrow> U8 \<Rightarrow> U8 \<Rightarrow> U8 \<Rightarrow> bool \<times> U8 \<times> U8" where
  "core_util_atomic_cas_u8 = atomic_cas"

definition core_util_atomic_cas_u16 :: "(U16 \<Rightarrow> U16) option \<Rightarrow> U16 \<Rightarrow> U16 \<Rightarrow> U16 \<Rightarrow> bool \<times> U16 \<times> U16" where
  "core_util_atomic_cas_u16 = atomic_cas"

definition core_util_atomic_cas_u32 :: "(U32 \<Rightarrow> U32) option \<Rightarrow> U32 \<Rightarrow> U32 \<Rightarrow> U32 \<Rightarrow> bool \<times> U32 \<times> U32" where
  "core_util_atomic_cas_u32 = atomic_cas"

definition core_util_atomic_cas_ptr :: "(U32 \<Rightarrow> U32) option \<Rightarrow> U32 \<Rightarrow> U32 \<Rightarrow> U32 \<Rightarrow> bool \<times> U32 \<times> U32" where
  "core_util_atomic_cas_ptr = core_util_atomic_cas_u32"

definition core_util_atomic_incr_u8 :: "(U8 \<Rightarrow> U8) list \<Rightarrow> U8 \<Rightarrow> U8 \<Rightarrow> U8 \<times> U8" where
  "core_util_atomic_incr_u8 = atomic_incr"

definition core_util_atomic_incr_u16 :: "(U16 \<Rightarrow> U16) list \<Rightarrow> U16 \<Rightarrow> U16 \<Rightarrow> U16 \<times> U16" where
  "core_util_atomic_incr_u16 = atomic_incr"

definition core_util_atomic_incr_u32 :: "(U32 \<Rightarrow> U32) list \<Rightarrow> U32 \<Rightarrow> U32 \<Rightarrow> U32 \<times> U32" where
  "core_util_atomic_incr_u32 = atomic_incr"

definition core_util_atomic_incr_ptr :: "(U32 \<Rightarrow> U32) list \<Rightarrow> U32 \<Rightarrow> U32 \<Rightarrow> U32 \<times> U32" where
  "core_util_atomic_incr_ptr = core_util_atomic_incr_u32"

definition core_util_atomic_decr_u8 :: "(U8 \<Rightarrow> U8) list \<Rightarrow> U8 \<Rightarrow> U8 \<Rightarrow> U8 \<times> U8" where
  "core_util_atomic_decr_u8 = atomic_decr"

definition core_util_atomic_decr_u16 :: "(U16 \<Rightarrow> U16) list \<Rightarrow> U16 \<Rightarrow> U16 \<Rightarrow> U16 \<times> U16" where
  "core_util_atomic_decr_u16 = atomic_decr"

definition core_util_atomic_decr_u32 :: "(U32 \<Rightarrow> U32) list \<Rightarrow> U32 \<Rightarrow> U32 \<Rightarrow> U32 \<times> U32" where
  "core_util_atomic_decr_u32 = atomic_decr"

definition core_util_atomic_decr_ptr :: "(U32 \<Rightarrow> U32) list \<Rightarrow> U32 \<Rightarrow> U32 \<Rightarrow> U32 \<times> U32" where
  "core_util_atomic_decr_ptr = core_util_atomic_decr_u32"

section \<open>What the atomic operations do\<close>

text \<open>An increment is done once, after all that disturbs it: no interference is lost and none comes
  between the value that is returned and the variable.\<close>

lemma atomic_incr_after: "atomic_incr fs m delta = (fold (\<lambda>f. f) fs m + delta, fold (\<lambda>f. f) fs m + delta)"
  by (induction fs arbitrary: m) auto

lemma atomic_decr_after: "atomic_decr fs m delta = (fold (\<lambda>f. f) fs m - delta, fold (\<lambda>f. f) fs m - delta)"
  by (induction fs arbitrary: m) auto

lemma atomic_after:
  "atomic_incr fs m delta = atomic_incr [] (fold (\<lambda>f. f) fs m) delta" "atomic_decr fs m delta = atomic_decr [] (fold (\<lambda>f. f) fs m) delta"
  by (simp_all add: atomic_incr_after atomic_decr_after)

lemma atomic_decr_incr: "atomic_decr fs m delta = atomic_incr fs m (- delta)"
  by (simp add: atomic_incr_after atomic_decr_after)

lemma section_balanced:
  assumes "critical_at p d s" "d < 4294967295"
  obtains s1 s2 where "core_util_critical_section_enter s = Some s1" "critical_at p (Suc d) s1" "primask s1"
    "core_util_critical_section_exit s1 = Some s2" "critical_at p d s2"
proof -
  obtain s1 where a: "core_util_critical_section_enter s = Some s1" "critical_at p (Suc d) s1"
    by (rule critical_enter_ok [OF assms])
  obtain s2 where b: "core_util_critical_section_exit s1 = Some s2" "critical_at p d s2" by (rule critical_exit_ok [OF a(2)])
  have "primask s1" using a(2) by (simp add: critical_at_def)
  then show thesis using that a b by blast
qed

lemma section_ops_agree:
  assumes "critical_at p d s" "d < 4294967295"
  shows "\<exists>s'. section_cas s m e v = Some (atomic_cas None m e v, s') \<and> critical_at p d s'"
    "\<exists>s'. section_incr s m v = Some (atomic_incr [] m v, s') \<and> critical_at p d s'"
    "\<exists>s'. section_decr s m v = Some (atomic_decr [] m v, s') \<and> critical_at p d s'"
  by (rule section_balanced [OF assms], simp add: section_cas_def section_incr_def section_decr_def atomic_cas_def Let_def)+

lemma atomic_cas_true: "fst (atomic_cas d m e v) \<longleftrightarrow> m = e \<and> d = None"
  "fst (atomic_cas d m e v) \<Longrightarrow> fst (snd (atomic_cas d m e v)) = v"
  by (auto simp: atomic_cas_def split: option.splits)

text \<open>A comparison that fails because it was disturbed leaves the expected value as it is, although the
  variable may have changed.\<close>

lemma atomic_cas_disturbed: "atomic_cas (Some f) m m v = (False, f m, m)"
  by (simp add: atomic_cas_def)

end
