(* ===== verification/Wrap_Time.thy ===== *)
theory Wrap_Time
  imports Prelude
begin

text \<open>
  Times on a 32-bit counter that wraps around, compared by their signed difference, as the tickers and
  the event queue do.
\<close>

lemma signed_mod: "n < 4294967296 \<Longrightarrow>
    (int n + 2147483648) mod 4294967296 - 2147483648 = (if n < 2147483648 then int n else int n - 4294967296)"
proof -
  assume n: "n < 4294967296"
  have "(int n + 2147483648) mod 4294967296 = int ((n + 2147483648) mod 4294967296)" by (simp add: zmod_int)
  then show ?thesis using n by (cases "n < 2147483648") (simp_all add: le_mod_geq)
qed

lemma sint_u32: "sint (w :: U32) = (if unat w < 2147483648 then int (unat w) else int (unat w) - 4294967296)"
proof -
  have "sint w = (uint w + 2147483648) mod 4294967296 - 2147483648"
    by (simp add: sint_uint signed_take_bit_eq_take_bit_shift take_bit_eq_mod)
  also have "uint w = int (unat w)" by simp
  finally show ?thesis unfolding signed_mod [OF unat_u32] .
qed

lemma unat_sub_u32: "unat (x - y :: U32) = (if unat y \<le> unat x then unat x - unat y else 4294967296 + unat x - unat y)"
  by (simp add: unat_sub_if') arith


text \<open>Times within half of the range of the counter after a base are compared correctly, wherever the
  base is.\<close>

lemma sint_diff:
  assumes "unat (x - b) < 2147483648" "unat (y - b) < 2147483648"
  shows "sint (x - y :: U32) = int (unat (x - b)) - int (unat (y - b))"
proof -
  have "x - y = (x - b) - (y - b)" by simp
  then have "unat (x - y) = (if unat (y - b) \<le> unat (x - b) then unat (x - b) - unat (y - b)
      else 4294967296 + unat (x - b) - unat (y - b))"
    by (simp only: unat_sub_u32 [of "x - b" "y - b"])
  then show ?thesis unfolding sint_u32 using assms
    by (cases "unat (y - b) \<le> unat (x - b)") (simp_all only: if_True if_False of_nat_diff, auto simp: of_nat_diff simp del: of_nat_unat)
qed

definition after :: "U32 \<Rightarrow> U32 \<Rightarrow> nat" where
  "after b t = unat (t - b)"

definition near :: "U32 \<Rightarrow> U32 \<Rightarrow> bool" where
  "near b t \<longleftrightarrow> after b t < 2147483648"

lemma after_eq: "after b x = after b t \<longleftrightarrow> x = t"
  by (simp add: after_def word_unat_eq_iff [symmetric])

lemma near_diff: "near b t \<Longrightarrow> near b u \<Longrightarrow> sint (t - u) = int (after b t) - int (after b u)"
  using sint_diff [of t b u] by (simp add: near_def after_def)

lemma after_simps [simp]: "after b b = 0" "near b b" "after b (b + x) = unat x" "after b (x + b) = unat x"
  by (simp_all add: after_def near_def)

end
