(* ===== verification/Mbed_Ticker.thy ===== *)
theory Mbed_Ticker
  imports Mbed_Critical Wrap_Time
begin

text \<open>
  Tickers: the queue of timed events of \<open>hal/mbed_ticker_api.c\<close> on the microsecond timer of the
  target (\<open>targets/TARGET_NXP/TARGET_LPC176X/us_ticker.c\<close>), which is the only ticker interface of the
  build (\<open>hal/mbed_us_ticker_api.c\<close>).  Events are linked through \<open>next\<close> in the order of their times;
  times are compared by their signed difference, so that the order survives the wrap-around of the
  32-bit counter.  The timer interrupts when its counter equals the match register.

  The counter runs on its own: what it reads is an argument.  The event handler of the queue is an
  argument too, and may insert and remove events.  The handler of interrupts reads the counter once in
  each turn of its loop; it is given those readings, and is \<open>None\<close> when they do not suffice.
\<close>

section \<open>The timer of the target\<close>

record us_timer =
  us_ticker_inited :: bool
  tim_powered :: bool
  tim_CTCR :: U32
  tim_TCR :: U32
  tim_PR :: U32
  tim_irq_enabled :: bool
  tim_MR0 :: U32
  tim_MCR :: U32

definition us_ticker_init :: "U32 \<Rightarrow> us_timer \<Rightarrow> us_timer" where
  "us_ticker_init SystemCoreClock h =
     (if us_ticker_inited h then h
      else
        let h = h\<lparr>us_ticker_inited := True\<rparr>;
            h = h\<lparr>tim_powered := True\<rparr>;
            h = h\<lparr>tim_CTCR := 0\<rparr>;
            PCLK = SystemCoreClock div 4;
            h = h\<lparr>tim_TCR := 2\<rparr>;
            prescale = PCLK div 1000000;
            h = h\<lparr>tim_PR := prescale - 1\<rparr>;
            h = h\<lparr>tim_TCR := 1\<rparr>
        in h\<lparr>tim_irq_enabled := True\<rparr>)"

definition us_ticker_read :: "U32 \<Rightarrow> U32 \<Rightarrow> us_timer \<Rightarrow> U32 \<times> us_timer" where
  "us_ticker_read SystemCoreClock tc h =
     (let h = (if us_ticker_inited h then h else us_ticker_init SystemCoreClock h) in (tc, h))"

definition us_ticker_set_interrupt :: "U32 \<Rightarrow> us_timer \<Rightarrow> us_timer" where
  "us_ticker_set_interrupt timestamp h =
     (let h = h\<lparr>tim_MR0 := timestamp\<rparr> in h\<lparr>tim_MCR := tim_MCR h OR 1\<rparr>)"

definition us_ticker_disable_interrupt :: "us_timer \<Rightarrow> us_timer" where
  "us_ticker_disable_interrupt h = h\<lparr>tim_MCR := tim_MCR h AND NOT 1\<rparr>"

section \<open>The queue of events\<close>

record ticker =
  hw :: us_timer
  crit :: critical
  event_handler :: bool
  ev_head :: ptr
  ev_timestamp :: "ptr \<Rightarrow> U32"
  ev_id :: "ptr \<Rightarrow> U32"
  ev_next :: "ptr \<Rightarrow> ptr"

definition ticker_set_handler :: "U32 \<Rightarrow> bool \<Rightarrow> 'a ticker_scheme \<Rightarrow> 'a ticker_scheme" where
  "ticker_set_handler clk handler s =
     (let s = s\<lparr>hw := us_ticker_init clk (hw s)\<rparr> in s\<lparr>event_handler := handler\<rparr>)"

text \<open>Entering and leaving a critical section, as a step of the ticker.\<close>

definition crit_enter :: "'a ticker_scheme \<Rightarrow> 'a ticker_scheme option" where
  "crit_enter s = map_option (\<lambda>c. s\<lparr>crit := c\<rparr>) (core_util_critical_section_enter (crit s))"

definition crit_exit :: "'a ticker_scheme \<Rightarrow> 'a ticker_scheme option" where
  "crit_exit s = map_option (\<lambda>c. s\<lparr>crit := c\<rparr>) (core_util_critical_section_exit (crit s))"

partial_function (option) insert_search :: "U32 \<Rightarrow> ptr \<Rightarrow> ptr \<Rightarrow> 'a ticker_scheme \<Rightarrow> (ptr \<times> ptr) option" where
  "insert_search timestamp prev p s =
     (if p \<noteq> NULL then
        if sint (timestamp - ev_timestamp s p) < 0 then Some (prev, p)
        else insert_search timestamp p (ev_next s p) s
      else Some (prev, p))"

definition ticker_insert_event :: "ptr \<Rightarrow> U32 \<Rightarrow> U32 \<Rightarrow> 'a ticker_scheme \<Rightarrow> 'a ticker_scheme option" where
  "ticker_insert_event obj timestamp ident s = do {
     s \<leftarrow> crit_enter s;
     let s = s\<lparr>ev_timestamp := (ev_timestamp s)(obj := timestamp)\<rparr>;
     let s = s\<lparr>ev_id := (ev_id s)(obj := ident)\<rparr>;
     (prev, p) \<leftarrow> insert_search timestamp NULL (ev_head s) s;
     let s = (if prev = NULL
       then s\<lparr>ev_head := obj, hw := us_ticker_set_interrupt timestamp (hw s)\<rparr>
       else s\<lparr>ev_next := (ev_next s)(prev := obj)\<rparr>);
     let s = s\<lparr>ev_next := (ev_next s)(obj := p)\<rparr>;
     crit_exit s
   }"

partial_function (option) remove_search :: "ptr \<Rightarrow> ptr \<Rightarrow> 'a ticker_scheme \<Rightarrow> 'a ticker_scheme option" where
  "remove_search obj p s =
     (if p \<noteq> NULL then
        if ev_next s p = obj then Some (s\<lparr>ev_next := (ev_next s)(p := ev_next s obj)\<rparr>)
        else remove_search obj (ev_next s p) s
      else Some s)"

definition ticker_remove_event :: "ptr \<Rightarrow> 'a ticker_scheme \<Rightarrow> 'a ticker_scheme option" where
  "ticker_remove_event obj s = do {
     s \<leftarrow> crit_enter s;
     s \<leftarrow> (if ev_head s = obj then
         let s = s\<lparr>ev_head := ev_next s obj\<rparr> in
         Some (if ev_head s = NULL then s\<lparr>hw := us_ticker_disable_interrupt (hw s)\<rparr>
               else s\<lparr>hw := us_ticker_set_interrupt (ev_timestamp s (ev_head s)) (hw s)\<rparr>)
       else remove_search obj (ev_head s) s);
     crit_exit s
   }"

definition ticker_read :: "U32 \<Rightarrow> U32 \<Rightarrow> 'a ticker_scheme \<Rightarrow> U32 \<times> 'a ticker_scheme" where
  "ticker_read clk tc s = (let (t, h) = us_ticker_read clk tc (hw s) in (t, s\<lparr>hw := h\<rparr>))"

definition ticker_get_next_timestamp :: "'a ticker_scheme \<Rightarrow> (U32 option \<times> 'a ticker_scheme) option" where
  "ticker_get_next_timestamp s = do {
     s \<leftarrow> crit_enter s;
     let r = (if ev_head s \<noteq> NULL then Some (ev_timestamp s (ev_head s)) else None);
     s \<leftarrow> crit_exit s;
     Some (r, s)
   }"

fun ticker_irq_loop :: "U32 \<Rightarrow> (U32 \<Rightarrow> 'a ticker_scheme \<Rightarrow> 'a ticker_scheme option) \<Rightarrow> U32 list \<Rightarrow>
    'a ticker_scheme \<Rightarrow> 'a ticker_scheme option" where
  "ticker_irq_loop clk handler tcs s =
     (if ev_head s = NULL then Some (s\<lparr>hw := us_ticker_disable_interrupt (hw s)\<rparr>)
      else case tcs of
        [] \<Rightarrow> None
      | tc # tcs \<Rightarrow>
          let (now, s) = ticker_read clk tc s in
          if sint (ev_timestamp s (ev_head s) - now) \<le> 0 then
            let p = ev_head s; s = s\<lparr>ev_head := ev_next s p\<rparr> in do {
              s \<leftarrow> (if event_handler s then handler (ev_id s p) s else Some s);
              ticker_irq_loop clk handler tcs s
            }
          else Some (s\<lparr>hw := us_ticker_set_interrupt (ev_timestamp s (ev_head s)) (hw s)\<rparr>))"

declare ticker_irq_loop.simps [simp del]

text \<open>Clearing the interrupt writes to a register that reads back nothing of it.\<close>

definition ticker_irq_handler :: "U32 \<Rightarrow> (U32 \<Rightarrow> 'a ticker_scheme \<Rightarrow> 'a ticker_scheme option) \<Rightarrow> U32 list \<Rightarrow>
    'a ticker_scheme \<Rightarrow> 'a ticker_scheme option" where
  "ticker_irq_handler clk handler tcs s = ticker_irq_loop clk handler tcs s"

section \<open>Queues in order\<close>

text \<open>\<open>tqueue b s xs\<close>: the queue is \<open>xs\<close>, whose times lie within half of the range after the base \<open>b\<close>
  and are in order: the more urgent, the earlier.\<close>

definition urgency :: "U32 \<Rightarrow> 'a ticker_scheme \<Rightarrow> ptr \<Rightarrow> int" where
  "urgency b s x = - int (after b (ev_timestamp s x))"

definition tqueue :: "U32 \<Rightarrow> 'a ticker_scheme \<Rightarrow> ptr list \<Rightarrow> bool" where
  "tqueue b s xs \<longleftrightarrow> chain (ev_next s) (ev_head s) xs NULL \<and> distinct xs \<and>
     by_prio (urgency b s) xs \<and> (\<forall>x\<in>set xs. near b (ev_timestamp s x))"

text \<open>The interrupt is set to the time of the first event.\<close>

definition armed :: "'a ticker_scheme \<Rightarrow> bool" where
  "armed s \<longleftrightarrow> (if ev_head s = NULL then \<not> bit (tim_MCR (hw s)) 0
     else bit (tim_MCR (hw s)) 0 \<and> tim_MR0 (hw s) = ev_timestamp s (ev_head s))"

lemma armed_set [simp]: "tim_MR0 (us_ticker_set_interrupt t h) = t" "bit (tim_MCR (us_ticker_set_interrupt t h)) 0"
  by (simp_all add: us_ticker_set_interrupt_def Let_def bit_simps)

lemma armed_disable [simp]: "\<not> bit (tim_MCR (us_ticker_disable_interrupt h)) 0"
  by (simp add: us_ticker_disable_interrupt_def bit_simps)

lemma insert_search_ok:
  assumes "near b t" "\<forall>x\<in>set xs. near b (ev_timestamp s x)" "chain (ev_next s) p xs NULL"
  shows "insert_search t prev p s = Some
     (last (prev # takeWhile (\<lambda>x. - int (after b t) \<le> urgency b s x) xs),
      case dropWhile (\<lambda>x. - int (after b t) \<le> urgency b s x) xs of [] \<Rightarrow> NULL | x # _ \<Rightarrow> x)"
  using assms(2,3)
proof (induction xs arbitrary: p prev)
  case Nil
  then show ?case by (subst insert_search.simps) simp
next
  case (Cons x xs)
  have p: "p = x" "p \<noteq> NULL" "chain (ev_next s) (ev_next s x) xs NULL" using Cons.prems by auto
  have "near b (ev_timestamp s x)" using Cons.prems by simp
  then have d: "sint (t - ev_timestamp s x) < 0 \<longleftrightarrow> \<not> - int (after b t) \<le> urgency b s x"
    using near_diff [OF assms(1)] by (auto simp: urgency_def)
  then show ?case using Cons.IH [OF _ p(3), of x] Cons.prems(1) p(1,2) by (subst insert_search.simps) simp
qed

lemma crit_enter_exit:
  assumes "critical_at m d (crit s)" "d < 4294967295"
  obtains c where "crit_enter s = Some (s\<lparr>crit := c\<rparr>)" "critical_at m (Suc d) c"
    "\<And>t :: 'a ticker_scheme. crit t = c \<Longrightarrow> \<exists>c'. crit_exit t = Some (t\<lparr>crit := c'\<rparr>) \<and> critical_at m d c'"
proof -
  obtain c c' where "core_util_critical_section_enter (crit s) = Some c" "critical_at m (Suc d) c"
    "core_util_critical_section_exit c = Some c'" "critical_at m d c'"
    by (rule section_balanced [OF assms])
  then show thesis using that by (auto simp: crit_enter_def crit_exit_def)
qed

lemma tqueue_crit [simp]: "tqueue b (s\<lparr>crit := c\<rparr>) xs = tqueue b s xs"
  by (simp add: tqueue_def by_prio_def urgency_def)

lemma armed_crit [simp]: "armed (s\<lparr>crit := c\<rparr>) = armed s"
  by (simp add: armed_def)

lemma ticker_insert_ok:
  assumes Q: "tqueue b s xs" and x: "x \<noteq> NULL" "x \<notin> set xs" and t: "near b t"
    and c: "critical_at m d (crit s)" "d < 4294967295"
  obtains s' where "ticker_insert_event x t i s = Some s'"
    "tqueue b s' (ins_prio ((urgency b s)(x := - int (after b t))) x xs)" "critical_at m d (crit s')"
    "ev_timestamp s' = (ev_timestamp s)(x := t)" "ev_id s' = (ev_id s)(x := i)"
    "event_handler s' = event_handler s" "ticker.more s' = ticker.more s" "armed s \<Longrightarrow> armed s'"
proof -
  define P where "P = (\<lambda>y. - int (after b t) \<le> urgency b s y)"
  define A where "A = takeWhile P xs"
  define B where "B = dropWhile P xs"
  define q where "q = (case B of [] \<Rightarrow> NULL | y # _ \<Rightarrow> y)"
  have xs: "xs = A @ B" by (simp add: A_def B_def)
  have Q': "chain (ev_next s) (ev_head s) xs NULL" "distinct xs" "by_prio (urgency b s) xs"
    "\<forall>y\<in>set xs. near b (ev_timestamp s y)" using Q by (auto simp: tqueue_def)
  obtain c1 where e: "crit_enter s = Some (s\<lparr>crit := c1\<rparr>)"
    "\<And>u :: 'a ticker_scheme. crit u = c1 \<Longrightarrow> \<exists>c'. crit_exit u = Some (u\<lparr>crit := c'\<rparr>) \<and> critical_at m d c'"
    by (rule crit_enter_exit [OF c]) blast
  let ?s = "s\<lparr>crit := c1, ev_timestamp := (ev_timestamp s)(x := t), ev_id := (ev_id s)(x := i)\<rparr>"
  have u: "urgency b ?s y = urgency b s y" if "y \<in> set xs" for y using that x(2) by (auto simp: urgency_def)
  have tw: "takeWhile (\<lambda>y. - int (after b t) \<le> urgency b ?s y) xs = A" "dropWhile (\<lambda>y. - int (after b t) \<le> urgency b ?s y) xs = B"
    unfolding A_def B_def P_def using u by (auto cong: takeWhile_cong dropWhile_cong)
  have "\<forall>y\<in>set xs. near b (ev_timestamp ?s y)" using Q'(4) x(2) by auto
  then have sr: "insert_search t NULL (ev_head s) ?s = Some (last (NULL # A), q)"
    using insert_search_ok [OF t, of xs ?s "ev_head s" NULL] Q'(1) unfolding tw q_def by simp
  define s1 where "s1 = (if A = [] then ?s\<lparr>ev_head := x, hw := us_ticker_set_interrupt t (hw s), ev_next := (ev_next s)(x := q)\<rparr>
    else ?s\<lparr>ev_next := (ev_next s)(last A := x, x := q)\<rparr>)"
  have nA: "A \<noteq> [] \<Longrightarrow> last A \<noteq> NULL" using chain_NULL_notin [OF Q'(1)] by (metis Un_iff last_in_set set_append xs)
  have c1: "crit s1 = c1" by (simp add: s1_def)
  obtain c2 where c2: "crit_exit s1 = Some (s1\<lparr>crit := c2\<rparr>)" "critical_at m d c2" using e(2) [OF c1] by blast
  have ins: "ticker_insert_event x t i s = Some (s1\<lparr>crit := c2\<rparr>)"
    unfolding ticker_insert_event_def e(1) using sr nA c2(1) by (auto simp: Let_def s1_def)
  have ts: "ev_timestamp s1 = (ev_timestamp s)(x := t)" by (simp add: s1_def)
  have "chain (ev_next s1) (ev_head s1) (A @ x # B) NULL"
  proof (cases A rule: rev_cases)
    case Nil
    have "chain (ev_next s) q B NULL" using Q'(1) chain_hd [OF Q'(1)] by (simp add: xs Nil q_def)
    then show ?thesis using x by (auto simp: s1_def Nil xs)
  next
    case (snoc C c)
    show ?thesis using link_insert [of "ev_next s" "ev_head s" C c B x] Q'(1,2) x by (simp add: s1_def snoc q_def xs)
  qed
  moreover have f: "(urgency b s)(x := - int (after b t)) = urgency b s1"
    by (rule ext) (simp add: ts urgency_def)
  moreover have "takeWhile (\<lambda>y. urgency b s1 x \<le> urgency b s1 y) xs = A"
    unfolding A_def P_def by (rule takeWhile_cong) (use x(2) in \<open>auto simp: f [symmetric]\<close>)
  moreover have "dropWhile (\<lambda>y. urgency b s1 x \<le> urgency b s1 y) xs = B"
    unfolding B_def P_def by (rule dropWhile_cong) (use x(2) in \<open>auto simp: f [symmetric]\<close>)
  ultimately have ch: "chain (ev_next s1) (ev_head s1) (A @ x # B) NULL"
    and f: "(urgency b s)(x := - int (after b t)) = urgency b s1" and i: "ins_prio (urgency b s1) x xs = A @ x # B"
    by (simp_all add: ins_prio_def)
  have "by_prio (urgency b s1) xs"
    using Q'(3) by (rule subst [OF by_prio_cong, of xs, rotated]) (use x(2) f [symmetric] in auto)
  then have "by_prio (urgency b s1) (A @ x # B)" using by_prio_ins_prio [of "urgency b s1" xs x] i by simp
  then have "tqueue b s1 (ins_prio (urgency b s1) x xs)"
    using Q'(2,4) x t ch unfolding i by (auto simp: tqueue_def ts xs)
  moreover have "armed s \<Longrightarrow> armed s1"
  proof -
    assume a: "armed s"
    show "armed s1"
    proof (cases "A = []")
      case False
      then have "ev_head s \<noteq> NULL" "ev_head s \<noteq> x" using Q'(1) x by (cases xs; auto simp: xs)+
      then show ?thesis using a False by (simp add: armed_def s1_def)
    qed (use x in \<open>simp add: armed_def s1_def\<close>)
  qed
  ultimately show thesis using that [OF ins] c2(2) f by (simp add: ts) (simp add: s1_def)
qed

lemma remove_search_ok:
  "chain (ev_next s) p (C @ c # x # B) NULL \<Longrightarrow> distinct (C @ c # x # B) \<Longrightarrow>
    remove_search x p s = Some (s\<lparr>ev_next := (ev_next s)(c := ev_next s x)\<rparr>)"
proof (induction C arbitrary: p)
  case Nil
  then show ?case by (subst remove_search.simps) auto
next
  case (Cons y C)
  have "chain (ev_next s) (ev_next s y) (C @ c # x # B) NULL" "p = y" "y \<noteq> NULL" using Cons.prems(1) by auto
  moreover have "ev_next s y \<noteq> x" using calculation(1) Cons.prems(2) by (cases C) auto
  moreover have "remove_search x (ev_next s y) s = Some (s\<lparr>ev_next := (ev_next s)(c := ev_next s x)\<rparr>)"
    by (rule Cons.IH [OF calculation(1)]) (use Cons.prems(2) in simp)
  ultimately show ?case by (subst remove_search.simps) simp
qed

lemma remove_search_absent:
  "chain (ev_next s) p xs NULL \<Longrightarrow> x \<notin> set xs \<Longrightarrow> x \<noteq> NULL \<Longrightarrow> remove_search x p s = Some s"
proof (induction xs arbitrary: p)
  case (Cons y xs)
  then have "ev_next s y \<noteq> x" by (cases xs) auto
  then show ?case using Cons by (subst remove_search.simps) auto
qed (subst remove_search.simps, simp)

lemma ticker_remove_ok:
  assumes Q: "tqueue b s (A @ x # B)" and c: "critical_at m d (crit s)" "d < 4294967295"
  obtains s' where "ticker_remove_event x s = Some s'" "tqueue b s' (A @ B)" "critical_at m d (crit s')"
    "ev_timestamp s' = ev_timestamp s" "ev_id s' = ev_id s"
    "event_handler s' = event_handler s" "ticker.more s' = ticker.more s" "armed s \<Longrightarrow> armed s'"
proof -
  have Q': "chain (ev_next s) (ev_head s) (A @ x # B) NULL" "distinct (A @ x # B)" "by_prio (urgency b s) (A @ x # B)"
    "\<forall>y\<in>set (A @ x # B). near b (ev_timestamp s y)" using Q by (auto simp: tqueue_def)
  obtain c1 where e: "crit_enter s = Some (s\<lparr>crit := c1\<rparr>)"
    "\<And>u :: 'a ticker_scheme. crit u = c1 \<Longrightarrow> \<exists>c'. crit_exit u = Some (u\<lparr>crit := c'\<rparr>) \<and> critical_at m d c'"
    by (rule crit_enter_exit [OF c]) blast
  define s1 where "s1 = (if A = [] then
      (if ev_next s x = NULL then s\<lparr>crit := c1, ev_head := ev_next s x, hw := us_ticker_disable_interrupt (hw s)\<rparr>
       else s\<lparr>crit := c1, ev_head := ev_next s x, hw := us_ticker_set_interrupt (ev_timestamp s (ev_next s x)) (hw s)\<rparr>)
    else s\<lparr>crit := c1, ev_next := (ev_next s)(last A := ev_next s x)\<rparr>)"
  obtain c2 where c2: "crit_exit s1 = Some (s1\<lparr>crit := c2\<rparr>)" "critical_at m d c2" using e(2) [of s1] by (auto simp: s1_def)
  have h: "ev_head s = x \<longleftrightarrow> A = []" using Q'(1,2) by (cases A) auto
  have "remove_search x (ev_head s) (s\<lparr>crit := c1\<rparr>) = Some s1" if A: "A \<noteq> []"
  proof -
    obtain C c where "A = C @ [c]" using A by (cases A rule: rev_cases) auto
    then show ?thesis using remove_search_ok [of "s\<lparr>crit := c1\<rparr>" "ev_head s" C c x B] Q'(1,2) by (simp add: s1_def)
  qed
  then have rem: "ticker_remove_event x s = Some (s1\<lparr>crit := c2\<rparr>)"
    unfolding ticker_remove_event_def e(1) using h c2(1) by (auto simp: Let_def s1_def)
  have ts: "ev_timestamp s1 = ev_timestamp s" by (simp add: s1_def)
  then have u: "urgency b s1 = urgency b s" by (simp add: urgency_def fun_eq_iff)
  have "chain (ev_next s1) (ev_head s1) (A @ B) NULL"
  proof (cases A rule: rev_cases)
    case (snoc C c)
    then show ?thesis using link_remove [of "ev_next s" "ev_head s" C c x B] Q'(1,2) by (simp add: s1_def)
  qed (use Q'(1) in \<open>auto simp: s1_def\<close>)
  moreover have "by_prio (urgency b s1) (A @ B)" using Q'(3) by (simp add: u by_prio_def sorted_wrt_append)
  ultimately have "tqueue b s1 (A @ B)" using Q'(2,4) by (auto simp: tqueue_def ts)
  moreover have "armed s \<Longrightarrow> armed s1"
  proof -
    assume a: "armed s"
    show "armed s1"
    proof (cases "A = []")
      case False
      then have "ev_head s \<noteq> NULL" using Q'(1) by (cases A) auto
      then show ?thesis using a False by (simp add: armed_def s1_def)
    qed (simp add: armed_def s1_def)
  qed
  ultimately show thesis using that [OF rem] c2(2) ts by simp (simp add: s1_def)
qed

text \<open>Removing what is not in the queue does nothing.\<close>

lemma ticker_remove_absent:
  assumes Q: "tqueue b s xs" and x: "x \<notin> set xs" "x \<noteq> NULL" and c: "critical_at m d (crit s)" "d < 4294967295"
  obtains c' where "ticker_remove_event x s = Some (s\<lparr>crit := c'\<rparr>)" "critical_at m d c'"
proof -
  have Q': "chain (ev_next s) (ev_head s) xs NULL" using Q by (simp add: tqueue_def)
  obtain c1 where e: "crit_enter s = Some (s\<lparr>crit := c1\<rparr>)"
    "\<And>u :: 'a ticker_scheme. crit u = c1 \<Longrightarrow> \<exists>c'. crit_exit u = Some (u\<lparr>crit := c'\<rparr>) \<and> critical_at m d c'"
    by (rule crit_enter_exit [OF c]) blast
  obtain c2 where c2: "crit_exit (s\<lparr>crit := c1\<rparr>) = Some (s\<lparr>crit := c2\<rparr>)" "critical_at m d c2" using e(2) [of "s\<lparr>crit := c1\<rparr>"] by auto
  have "ev_head s \<noteq> x" using Q' x by (cases xs) auto
  moreover have "remove_search x (ev_head s) (s\<lparr>crit := c1\<rparr>) = Some (s\<lparr>crit := c1\<rparr>)"
    using remove_search_absent [of "s\<lparr>crit := c1\<rparr>" "ev_head s" xs x] Q' x by simp
  ultimately have "ticker_remove_event x s = Some (s\<lparr>crit := c2\<rparr>)"
    unfolding ticker_remove_event_def e(1) using c2(1) by (simp add: Let_def)
  then show thesis using that c2(2) by blast
qed

section \<open>The interrupt handler\<close>

text \<open>A handler that acts on the rest of the program and not on the queue, as that of a \<open>Timeout\<close> does.\<close>

definition calls :: "(U32 \<Rightarrow> 'a \<Rightarrow> 'a) \<Rightarrow> U32 \<Rightarrow> 'a ticker_scheme \<Rightarrow> 'a ticker_scheme option" where
  "calls g i s = Some (ticker.extend (ticker.truncate s) (g i (ticker.more s)))"

lemma tqueue_pop:
  assumes "tqueue b s (x # xs)"
  shows "ev_head s = x" "x \<noteq> NULL" "near b (ev_timestamp s x)" "tqueue b (s\<lparr>ev_head := ev_next s x\<rparr>) xs"
  using assms by (auto simp: tqueue_def by_prio_def urgency_def)

lemma calls_fields [simp]:
  assumes "calls g i s = Some s'"
  shows "tqueue b s' xs = tqueue b s xs" "ev_timestamp s' = ev_timestamp s" "ev_id s' = ev_id s"
    "event_handler s' = event_handler s" "ticker.more s' = g i (ticker.more s)" "crit s' = crit s"
  using assms by (auto simp: calls_def ticker.defs tqueue_def by_prio_def urgency_def)

lemma ticker_read_fields:
  assumes "ticker_read clk tc s = (now, s')"
  shows "now = tc" "tqueue b s' xs = tqueue b s xs" "ev_timestamp s' = ev_timestamp s" "ev_id s' = ev_id s" "ev_next s' = ev_next s" "ev_head s' = ev_head s"
    "event_handler s' = event_handler s" "ticker.more s' = ticker.more s" "crit s' = crit s"
  using assms by (auto simp: ticker_read_def us_ticker_read_def Let_def tqueue_def by_prio_def urgency_def)

text \<open>The handler runs the events that are due, in order, and sets the interrupt to the next.  Each
  event is compared with the reading of its turn.\<close>

lemma ticker_irq_ok:
  "tqueue b s xs \<Longrightarrow> event_handler s \<Longrightarrow> length xs \<le> length tcs \<Longrightarrow> \<forall>t\<in>set tcs. near b t \<Longrightarrow>
    \<exists>s' k. ticker_irq_loop clk (calls g) tcs s = Some s' \<and> k \<le> length xs \<and> tqueue b s' (drop k xs) \<and> armed s' \<and>
      ticker.more s' = fold g (map (ev_id s) (take k xs)) (ticker.more s) \<and> ev_timestamp s' = ev_timestamp s \<and>
      crit s' = crit s \<and> (\<forall>i<k. after b (ev_timestamp s (xs ! i)) \<le> after b (tcs ! i)) \<and>
      (k < length xs \<longrightarrow> after b (tcs ! k) < after b (ev_timestamp s (xs ! k)))"
proof (induction xs arbitrary: s tcs)
  case Nil
  then have "ev_head s = NULL" by (simp add: tqueue_def)
  then show ?case using Nil(1)
    by (intro exI [of _ "s\<lparr>hw := us_ticker_disable_interrupt (hw s)\<rparr>"] exI [of _ 0])
      (simp add: ticker_irq_loop.simps [of clk "calls g" tcs s] armed_def tqueue_def)
next
  case (Cons x xs)
  obtain tc tcs' where tcs: "tcs = tc # tcs'" using Cons.prems(3) by (cases tcs) auto
  obtain s1 where rd: "ticker_read clk tc s = (tc, s1)" by (simp add: ticker_read_def us_ticker_read_def Let_def)
  note r = ticker_read_fields [OF rd]
  have Q1: "tqueue b s1 (x # xs)" using Cons.prems(1) r(2) by simp
  note p = tqueue_pop [OF Q1]
  have d: "sint (ev_timestamp s1 x - tc) \<le> 0 \<longleftrightarrow> after b (ev_timestamp s x) \<le> after b tc"
    using near_diff [OF p(3), of tc] Cons.prems(4) r(3) by (simp add: tcs)
  have hd: "ev_head s = x" using p(1) r(6) by simp
  show ?case
  proof (cases "after b (ev_timestamp s x) \<le> after b tc")
    case True
    let ?s1 = "s1\<lparr>ev_head := ev_next s1 x\<rparr>"
    obtain s2 where s2: "calls g (ev_id s1 x) ?s1 = Some s2" unfolding calls_def by blast
    note f = calls_fields [OF s2]
    have Q2: "tqueue b s2 xs" using f(1) p(4) by simp
    have st: "ticker_irq_loop clk (calls g) tcs s = ticker_irq_loop clk (calls g) tcs' s2"
      using True d hd p(1,2) rd s2 r(7) Cons.prems(2) by (subst ticker_irq_loop.simps) (simp add: tcs Let_def)
    obtain s' k where s': "ticker_irq_loop clk (calls g) tcs' s2 = Some s'" "k \<le> length xs" "tqueue b s' (drop k xs)" "armed s'"
      "ticker.more s' = fold g (map (ev_id s2) (take k xs)) (ticker.more s2)" "ev_timestamp s' = ev_timestamp s2" "crit s' = crit s2"
      "\<forall>i<k. after b (ev_timestamp s2 (xs ! i)) \<le> after b (tcs' ! i)"
      "k < length xs \<longrightarrow> after b (tcs' ! k) < after b (ev_timestamp s2 (xs ! k))"
      using Cons.IH [OF Q2, of tcs'] Cons.prems f(4) r(7) by (auto simp: tcs)
    have "\<forall>i<Suc k. after b (ev_timestamp s ((x # xs) ! i)) \<le> after b (tcs ! i)"
      using s'(8) True f(2) r(3) by (auto simp: tcs less_Suc_eq_0_disj)
    then show ?thesis using st s' f r by (intro exI [of _ s'] exI [of _ "Suc k"]) (simp add: tcs)
  next
    case False
    let ?s' = "s1\<lparr>hw := us_ticker_set_interrupt (ev_timestamp s1 x) (hw s1)\<rparr>"
    have "ticker_irq_loop clk (calls g) tcs s = Some ?s'"
      using False d hd p(1,2) rd by (subst ticker_irq_loop.simps) (simp add: tcs Let_def)
    moreover have "tqueue b ?s' (x # xs)" using Q1 by (simp add: tqueue_def by_prio_def urgency_def)
    moreover have "armed ?s'" using p(1,2) by (simp add: armed_def)
    ultimately show ?thesis using False r by (intro exI [of _ ?s'] exI [of _ 0]) (simp add: tcs)
  qed
qed

section \<open>Periodic events\<close>

text \<open>The class \<open>Ticker\<close>: its objects are identified by their address, which is the \<open>id\<close> of their event.
  The function that is called acts on the rest of the program.\<close>

record ticker_obj = ticker +
  ticker_delay :: "U32 \<Rightarrow> U32"

definition Ticker_call :: "(U32 \<Rightarrow> 'a \<Rightarrow> 'a) \<Rightarrow> U32 \<Rightarrow> 'a ticker_obj_scheme \<Rightarrow> 'a ticker_obj_scheme option" where
  "Ticker_call g i s = Some (s\<lparr>ticker_obj.more := g i (ticker_obj.more s)\<rparr>)"

definition Ticker_handler :: "(U32 \<Rightarrow> ptr) \<Rightarrow> (U32 \<Rightarrow> 'a \<Rightarrow> 'a) \<Rightarrow> U32 \<Rightarrow> 'a ticker_obj_scheme \<Rightarrow> 'a ticker_obj_scheme option" where
  "Ticker_handler event g i s = do {
     s \<leftarrow> ticker_insert_event (event i) (ev_timestamp s (event i) + ticker_delay s i) i s;
     Ticker_call g i s
   }"

definition Ticker_setup :: "U32 \<Rightarrow> U32 \<Rightarrow> (U32 \<Rightarrow> ptr) \<Rightarrow> U32 \<Rightarrow> U32 \<Rightarrow> 'a ticker_obj_scheme \<Rightarrow> 'a ticker_obj_scheme option" where
  "Ticker_setup clk tc event i t s = do {
     s \<leftarrow> crit_enter s;
     s \<leftarrow> ticker_remove_event (event i) s;
     let s = s\<lparr>ticker_delay := (ticker_delay s)(i := t)\<rparr>;
     let (now, s) = ticker_read clk tc s;
     s \<leftarrow> ticker_insert_event (event i) (ticker_delay s i + now) i s;
     crit_exit s
   }"

lemma same_more: "ticker.more s' = ticker.more s \<Longrightarrow> ticker_delay s' = ticker_delay s \<and> ticker_obj.more s' = ticker_obj.more s"
  by (cases s; cases s') simp

lemma tqueue_base: "near b' (ev_timestamp s x) \<Longrightarrow> tqueue b s [x] \<Longrightarrow> tqueue b' s [x]"
  by (simp add: tqueue_def by_prio_def)

text \<open>One turn of a periodic event: it is put back at its own time plus the period.\<close>

lemma Ticker_handler_ok:
  assumes Q: "tqueue b s []" and e: "event i \<noteq> NULL" and c: "critical_at m d (crit s)" "d < 4294967295"
  obtains s' where "Ticker_handler event g i s = Some s'"
    "tqueue (ev_timestamp s (event i) + ticker_delay s i) s' [event i]" "critical_at m d (crit s')"
    "ev_timestamp s' = (ev_timestamp s)(event i := ev_timestamp s (event i) + ticker_delay s i)"
    "ev_id s' = (ev_id s)(event i := i)" "event_handler s' = event_handler s" "ticker_delay s' = ticker_delay s"
    "ticker_obj.more s' = g i (ticker_obj.more s)"
proof -
  let ?t = "ev_timestamp s (event i) + ticker_delay s i"
  have Q0: "tqueue ?t s []" using Q by (simp add: tqueue_def)
  obtain s1 where s1: "ticker_insert_event (event i) ?t i s = Some s1" "tqueue ?t s1 [event i]" "critical_at m d (crit s1)"
    "ev_timestamp s1 = (ev_timestamp s)(event i := ?t)" "ev_id s1 = (ev_id s)(event i := i)"
    "event_handler s1 = event_handler s" "ticker.more s1 = ticker.more s"
    by (rule ticker_insert_ok [OF Q0 e _ _ c, of ?t i]) (auto simp: ins_prio_def after_def near_def)
  let ?s = "s1\<lparr>ticker_obj.more := g i (ticker_obj.more s1)\<rparr>"
  have "Ticker_handler event g i s = Some ?s" using s1(1) by (simp add: Ticker_handler_def Ticker_call_def)
  moreover have "tqueue ?t ?s [event i]" using s1(2) by (simp add: tqueue_def by_prio_def)
  ultimately show thesis using that [of ?s] s1(3-6) same_more [OF s1(7)] by simp
qed

text \<open>A turn of the loop with one periodic event that is due, and one with an event that is not.\<close>

lemma Ticker_turn:
  assumes Q: "tqueue b s [event i]" and h: "event_handler s" "ev_id s (event i) = i" and c: "critical_at m c (crit s)" "c < 4294967295"
    and l: "now = ev_timestamp s (event i) + late" "unat late < 1073741824"
  obtains s' where "\<And>tcs. ticker_irq_loop clk (Ticker_handler event g) (now # tcs) s = ticker_irq_loop clk (Ticker_handler event g) tcs s'"
    "tqueue (ev_timestamp s' (event i)) s' [event i]" "event_handler s'" "ev_id s' (event i) = i" "critical_at m c (crit s')"
    "ev_timestamp s' (event i) = ev_timestamp s (event i) + ticker_delay s i" "ticker_delay s' = ticker_delay s"
    "ticker_obj.more s' = g i (ticker_obj.more s)"
proof -
  obtain s1 where rd: "ticker_read clk now s = (now, s1)" by (simp add: ticker_read_def us_ticker_read_def Let_def)
  note r = ticker_read_fields [OF rd]
  note m = same_more [OF r(8)]
  have Q1: "tqueue b s1 [event i]" using Q r(2) by simp
  note p = tqueue_pop [OF Q1]
  have "near (ev_timestamp s (event i)) now" using l by (simp add: near_def)
  from near_diff [OF after_simps(2) this] have d: "sint (ev_timestamp s (event i) - now) \<le> 0" by simp
  let ?s1 = "s1\<lparr>ev_head := ev_next s1 (event i)\<rparr>"
  have c1: "critical_at m c (crit ?s1)" using c(1) r(9) by simp
  obtain s' where s': "Ticker_handler event g i ?s1 = Some s'"
    "tqueue (ev_timestamp ?s1 (event i) + ticker_delay ?s1 i) s' [event i]" "critical_at m c (crit s')"
    "ev_timestamp s' = (ev_timestamp ?s1)(event i := ev_timestamp ?s1 (event i) + ticker_delay ?s1 i)"
    "ev_id s' = (ev_id ?s1)(event i := i)" "event_handler s' = event_handler ?s1" "ticker_delay s' = ticker_delay ?s1"
    "ticker_obj.more s' = g i (ticker_obj.more ?s1)"
    by (rule Ticker_handler_ok [where event = event and i = i, OF p(4,2) c1 c(2)])
  have "ticker_irq_loop clk (Ticker_handler event g) (now # tcs) s = ticker_irq_loop clk (Ticker_handler event g) tcs s'" for tcs
    using d p(1,2) rd s'(1) r(3,4,6,7) h by (subst ticker_irq_loop.simps) (simp add: Let_def)
  then show thesis using that [of s'] s' r h m by simp
qed

lemma Ticker_stop:
  assumes Q: "tqueue b s [x]" and d: "0 < sint (ev_timestamp s x - now)"
  obtains s' where "ticker_irq_loop clk h (now # tcs) s = Some s'" "tqueue b s' [x]" "armed s'" "crit s' = crit s"
    "ev_timestamp s' = ev_timestamp s" "ticker.more s' = ticker.more s"
proof -
  obtain s1 where rd: "ticker_read clk now s = (now, s1)" by (simp add: ticker_read_def us_ticker_read_def Let_def)
  note r = ticker_read_fields [OF rd]
  have Q1: "tqueue b s1 [x]" using Q r(2) by simp
  note p = tqueue_pop [OF Q1]
  let ?s' = "s1\<lparr>hw := us_ticker_set_interrupt (ev_timestamp s1 x) (hw s1)\<rparr>"
  have "ticker_irq_loop clk h (now # tcs) s = Some ?s'" using d p(1,2) rd r(3,6) by (subst ticker_irq_loop.simps) (simp add: Let_def)
  moreover have "tqueue b ?s' [x]" using Q1 by (simp add: tqueue_def by_prio_def)
  ultimately show thesis using that [of ?s'] p(1,2) r by (simp add: armed_def)
qed

text \<open>A handler that comes late calls the function once for every period that has passed, and the
  event keeps its phase.\<close>

lemma Ticker_catches_up:
  "tqueue b s [event i] \<Longrightarrow> event_handler s \<Longrightarrow> ev_id s (event i) = i \<Longrightarrow> critical_at m c (crit s) \<Longrightarrow> c < 4294967295 \<Longrightarrow>
    p = unat (ticker_delay s i) \<Longrightarrow> 0 < p \<Longrightarrow> p < 1073741824 \<Longrightarrow> now = ev_timestamp s (event i) + late \<Longrightarrow> unat late < 1073741824 \<Longrightarrow>
    \<exists>s'. ticker_irq_loop clk (Ticker_handler event g) (replicate (unat late div p + 2) now) s = Some s' \<and>
      tqueue (ev_timestamp s' (event i)) s' [event i] \<and> armed s' \<and> critical_at m c (crit s') \<and>
      ev_timestamp s' (event i) = ev_timestamp s (event i) + word_of_nat (unat late div p + 1) * ticker_delay s i \<and>
      ticker_obj.more s' = (g i ^^ (unat late div p + 1)) (ticker_obj.more s)"
proof (induction "unat late div p" arbitrary: s late b)
  case (0 late s b)
  let ?t = "ev_timestamp s (event i)"
  have z: "unat late div p = 0" "unat late < p" using 0(1,8) by (simp_all add: div_eq_0_iff)
  obtain s1 where s1: "\<And>tcs. ticker_irq_loop clk (Ticker_handler event g) (now # tcs) s = ticker_irq_loop clk (Ticker_handler event g) tcs s1"
    "tqueue (ev_timestamp s1 (event i)) s1 [event i]" "event_handler s1" "ev_id s1 (event i) = i" "critical_at m c (crit s1)"
    "ev_timestamp s1 (event i) = ?t + ticker_delay s i" "ticker_delay s1 = ticker_delay s" "ticker_obj.more s1 = g i (ticker_obj.more s)"
    by (rule Ticker_turn [where event = event and i = i and g = g and clk = clk, OF 0(2-6) 0(10,11)]) (rule that; simp)
  have n: "near ?t (?t + ticker_delay s i)" "near ?t now" using 0 by (simp_all add: near_def)
  have "uint late < uint (ticker_delay s i)" using z(2) 0(7) by (simp add: word_less_def [symmetric] word_less_nat_alt)
  then have d: "0 < sint (ev_timestamp s1 (event i) - now)" using near_diff [OF n] 0 s1(6) by simp
  obtain s' where s': "ticker_irq_loop clk (Ticker_handler event g) [now] s1 = Some s'" "tqueue (ev_timestamp s1 (event i)) s' [event i]"
    "armed s'" "crit s' = crit s1" "ev_timestamp s' = ev_timestamp s1" "ticker.more s' = ticker.more s1"
    by (rule Ticker_stop [OF s1(2) d])
  show ?case using s1 s' z(1) same_more [OF s'(6)] by (intro exI [of _ s']) (simp add: numeral_2_eq_2)
next
  case (Suc x late s b)
  let ?t = "ev_timestamp s (event i)"
  let ?d = "ticker_delay s i"
  have le: "p \<le> unat late" using Suc(2) by (metis div_less nat_less_le not_less old.nat.distinct(2))
  have u: "unat (late - ?d) = unat late - p" using le Suc.prems(6) by (simp add: unat_sub_word)
  have x: "x = unat (late - ?d) div p" using Suc(2) u le Suc.prems(7) by (simp add: le_div_geq)
  obtain s1 where s1: "\<And>tcs. ticker_irq_loop clk (Ticker_handler event g) (now # tcs) s = ticker_irq_loop clk (Ticker_handler event g) tcs s1"
    "tqueue (ev_timestamp s1 (event i)) s1 [event i]" "event_handler s1" "ev_id s1 (event i) = i" "critical_at m c (crit s1)"
    "ev_timestamp s1 (event i) = ?t + ?d" "ticker_delay s1 = ticker_delay s" "ticker_obj.more s1 = g i (ticker_obj.more s)"
    by (rule Ticker_turn [where event = event and i = i and g = g and clk = clk, OF Suc.prems(1-5) Suc.prems(9,10)]) (rule that; simp)
  have n: "now = ev_timestamp s1 (event i) + (late - ?d)" using Suc.prems(9) s1(6) by simp
  have lt: "unat (late - ?d) < 1073741824" using u Suc.prems(10) by simp
  have p: "p = unat (ticker_delay s1 i)" using Suc.prems(6) s1(7) by simp
  obtain s' where s': "ticker_irq_loop clk (Ticker_handler event g) (replicate (x + 2) now) s1 = Some s'"
    "tqueue (ev_timestamp s' (event i)) s' [event i]" "armed s'" "critical_at m c (crit s')"
    "ev_timestamp s' (event i) = ev_timestamp s1 (event i) + word_of_nat (x + 1) * ticker_delay s1 i"
    "ticker_obj.more s' = (g i ^^ (x + 1)) (ticker_obj.more s1)"
    using Suc(1) [OF x s1(2-5) Suc.prems(5) p Suc.prems(7,8) n lt] unfolding x [symmetric] by blast
  have "ticker_irq_loop clk (Ticker_handler event g) (replicate (Suc x + 2) now) s = Some s'" using s1(1) s'(1) by simp
  moreover have "ev_timestamp s' (event i) = ?t + word_of_nat (Suc x + 1) * ?d"
    using s'(5) s1(6,7) by (simp add: algebra_simps)
  moreover have "ticker_obj.more s' = (g i ^^ (Suc x + 1)) (ticker_obj.more s)"
    using s'(6) s1(8) by (simp add: funpow_swap1)
  ultimately show ?case using s'(2-4) Suc(2) by (intro exI [of _ s']) simp
qed

section \<open>Events that are late when they are inserted\<close>

text \<open>The timer interrupts when its counter equals the match register.  An event that is in the past
  when it is inserted at the head sets the register to a time that the counter has passed: the next
  match is almost a whole turn of the counter away.\<close>

definition tim_match :: "U32 \<Rightarrow> us_timer \<Rightarrow> bool" where
  "tim_match tc h \<longleftrightarrow> bit (tim_MCR h) 0 \<and> tim_MR0 h = tc"

lemma late_insert:
  assumes c: "critical_at m d (crit s)" "d < 4294967295" and e: "ev_head s = NULL" and x: "x \<noteq> NULL"
    and l: "late \<noteq> 0" "now = t + late"
  obtains s' where "ticker_insert_event x t i s = Some s'" "ev_head s' = x"
    "\<And>k. tim_match (now + k) (hw s') \<Longrightarrow> unat k = 4294967296 - unat late"
proof -
  obtain c1 where en: "crit_enter s = Some (s\<lparr>crit := c1\<rparr>)"
    "\<And>u :: 'a ticker_scheme. crit u = c1 \<Longrightarrow> \<exists>c'. crit_exit u = Some (u\<lparr>crit := c'\<rparr>) \<and> critical_at m d c'"
    by (rule crit_enter_exit [OF c]) blast
  let ?s = "s\<lparr>crit := c1, ev_timestamp := (ev_timestamp s)(x := t), ev_id := (ev_id s)(x := i), ev_head := x,
    hw := us_ticker_set_interrupt t (hw s), ev_next := (ev_next s)(x := NULL)\<rparr>"
  obtain c2 where c2: "crit_exit ?s = Some (?s\<lparr>crit := c2\<rparr>)" using en(2) [of ?s] by auto
  let ?s' = "?s\<lparr>crit := c2\<rparr>"
  have ins: "ticker_insert_event x t i s = Some ?s'"
    using en(1) c2 e by (simp add: ticker_insert_event_def insert_search.simps [of t NULL NULL] Let_def)
  have "unat k = 4294967296 - unat late" if "tim_match (now + k) (hw ?s')" for k
  proof -
    have "t + late + k = t" using that by (simp add: tim_match_def l(2))
    then have k: "k = 0 - late" by (simp add: add.assoc eq_neg_iff_add_eq_0 add.commute)
    have "0 < unat late" using l(1) by (simp add: unat_gt_0)
    then show ?thesis unfolding k unat_sub_u32 by simp
  qed
  then show thesis using that [OF ins] by simp
qed

end
