(* ===== verification/Equeue.thy ===== *)
theory Equeue
  imports Wrap_Time
begin

text \<open>
  The event queue of \<open>events/equeue/equeue.c\<close>.  Events live in a buffer, are allocated from lists of
  chunks, and wait in slots, one for each time.  A slot is a stack of events linked through
  \<open>sibling\<close>; the slots are linked through the \<open>next\<close> of their first events in the order of their
  times, and \<open>ref\<close> of an event is the place that points to it.

  Pointers to pointers are the \<open>place\<close>s below.  Functions of the platform are parameters or outputs: the
  time is an argument, what a locked region does is done as a whole, and the calls of destructors and of
  the background timer, and the signals and waits of the semaphore, are noted in a log.
\<close>

section \<open>Data\<close>

datatype place = AT_QUEUE | AT_CHUNKS | AT_NEXT ptr | AT_SIBLING ptr

text \<open>A callback is \<open>NULL\<close>, the dispatcher of simple callbacks, or a function of the user.\<close>

datatype callback = NO_CB | ECALLBACK_DISPATCH | USER_CB U32

datatype effect = Dtor U32 ptr | Update int | Signal | Wait int

record equeue =
  q_queue :: ptr
  q_tick :: U32
  q_breaks :: U32
  q_generation :: U8
  q_buffer :: U32
  q_npw2 :: U32
  q_chunks :: ptr
  slab_size :: U32
  slab_data :: U32
  bg_active :: bool
  bg_update :: bool
  q_log :: "effect list"
  e_size :: "ptr \<Rightarrow> U32"
  e_id :: "ptr \<Rightarrow> U8"
  e_generation :: "ptr \<Rightarrow> U8"
  e_next :: "ptr \<Rightarrow> ptr"
  e_sibling :: "ptr \<Rightarrow> ptr"
  e_ref :: "ptr \<Rightarrow> place"
  e_target :: "ptr \<Rightarrow> U32"
  e_period :: "ptr \<Rightarrow> U32"
  e_dtor :: "ptr \<Rightarrow> U32"
  e_cb :: "ptr \<Rightarrow> callback"
  ec_cb :: "ptr \<Rightarrow> U32"
  ec_data :: "ptr \<Rightarrow> U32"

primrec deref :: "place \<Rightarrow> equeue \<Rightarrow> ptr" where
  "deref AT_QUEUE s = q_queue s"
| "deref AT_CHUNKS s = q_chunks s"
| "deref (AT_NEXT e) s = e_next s e"
| "deref (AT_SIBLING e) s = e_sibling s e"

primrec assign :: "place \<Rightarrow> ptr \<Rightarrow> equeue \<Rightarrow> equeue" where
  "assign AT_QUEUE v s = s\<lparr>q_queue := v\<rparr>"
| "assign AT_CHUNKS v s = s\<lparr>q_chunks := v\<rparr>"
| "assign (AT_NEXT e) v s = s\<lparr>e_next := (e_next s)(e := v)\<rparr>"
| "assign (AT_SIBLING e) v s = s\<lparr>e_sibling := (e_sibling s)(e := v)\<rparr>"

definition emit :: "effect \<Rightarrow> equeue \<Rightarrow> equeue" where
  "emit x s = s\<lparr>q_log := q_log s @ [x]\<rparr>"

text \<open>Addresses: the header of an event has 36 bytes, and its data follow.\<close>

definition sizeof_event :: U32 where "sizeof_event = 36"

primrec address :: "ptr \<Rightarrow> U32" where
  "address NULL = 0"
| "address OS_RDY = 0"
| "address OS_DLY = 0"
| "address OS_IDLE = 0"
| "address (CB a) = a"

definition pointer :: "U32 \<Rightarrow> ptr" where
  "pointer a = (if a = 0 then NULL else CB a)"

section \<open>Times\<close>

definition equeue_tickdiff :: "U32 \<Rightarrow> U32 \<Rightarrow> int" where
  "equeue_tickdiff a b = sint (a - b)"

definition equeue_clampdiff :: "U32 \<Rightarrow> U32 \<Rightarrow> U32" where
  "equeue_clampdiff a b = (let diff = a - b in NOT (signed_drop_bit 31 diff) AND diff)"

definition equeue_incid :: "ptr \<Rightarrow> equeue \<Rightarrow> equeue" where
  "equeue_incid e s =
     (let s = s\<lparr>e_id := (e_id s)(e := e_id s e + 1)\<rparr> in
      if push_bit (unat (q_npw2 s)) (ucast (e_id s e) :: U32) = 0 then s\<lparr>e_id := (e_id s)(e := 1)\<rparr> else s)"

section \<open>Creation\<close>

function npw2_loop :: "U32 \<Rightarrow> U32 \<Rightarrow> U32" where
  "npw2_loop s n = (if s = 0 then n else npw2_loop (drop_bit 1 s) (n + 1))"
  by pat_completeness auto
termination
  by (relation "measure (\<lambda>(s, n). unat s)") (auto simp: drop_bit_Suc unat_div unat_gt_0)

declare npw2_loop.simps [simp del]

definition equeue_create_inplace :: "U32 \<Rightarrow> U32 \<Rightarrow> U32 \<Rightarrow> equeue \<Rightarrow> equeue" where
  "equeue_create_inplace now sz buffer s =
     s\<lparr>q_buffer := buffer, q_npw2 := npw2_loop sz 0, q_chunks := NULL, slab_size := sz, slab_data := buffer,
       q_queue := NULL, q_tick := now, q_generation := 0, q_breaks := 0, bg_active := False, bg_update := False\<rparr>"

section \<open>Memory\<close>

partial_function (option) chunk_search :: "U32 \<Rightarrow> place \<Rightarrow> equeue \<Rightarrow> place option option" where
  "chunk_search sz p s =
     (if deref p s \<noteq> NULL then
        if sz \<le> e_size s (deref p s) then Some (Some p)
        else chunk_search sz (AT_NEXT (deref p s)) s
      else Some None)"

definition equeue_mem_alloc :: "U32 \<Rightarrow> equeue \<Rightarrow> (ptr \<times> equeue) option" where
  "equeue_mem_alloc sz s =
     (let sz = sz + sizeof_event;
          sz = (sz + 4 - 1) AND NOT (4 - 1)
      in do {
        r \<leftarrow> chunk_search sz AT_CHUNKS s;
        case r of
          Some p \<Rightarrow>
            let e = deref p s in
            if e_sibling s e \<noteq> NULL then
              let s = assign p (e_sibling s e) s;
                  s = s\<lparr>e_next := (e_next s)(deref p s := e_next s e)\<rparr>
              in Some (e, s)
            else Some (e, assign p (e_next s e) s)
        | None \<Rightarrow>
            if sz \<le> slab_size s then
              let e = pointer (slab_data s);
                  s = s\<lparr>slab_data := slab_data s + sz\<rparr>;
                  s = s\<lparr>slab_size := slab_size s - sz\<rparr>;
                  s = s\<lparr>e_size := (e_size s)(e := sz)\<rparr>
              in Some (e, s\<lparr>e_id := (e_id s)(e := 1)\<rparr>)
            else Some (NULL, s)
      })"

partial_function (option) dealloc_search :: "U32 \<Rightarrow> place \<Rightarrow> equeue \<Rightarrow> place option" where
  "dealloc_search sz p s =
     (if deref p s \<noteq> NULL \<and> e_size s (deref p s) < sz then dealloc_search sz (AT_NEXT (deref p s)) s
      else Some p)"

definition equeue_mem_dealloc :: "ptr \<Rightarrow> equeue \<Rightarrow> equeue option" where
  "equeue_mem_dealloc e s = do {
     p \<leftarrow> dealloc_search (e_size s e) AT_CHUNKS s;
     let s = (if deref p s \<noteq> NULL \<and> e_size s (deref p s) = e_size s e then
         let s' = s\<lparr>e_sibling := (e_sibling s)(e := deref p s)\<rparr> in
         s'\<lparr>e_next := (e_next s')(e := e_next s' (deref p s))\<rparr>
       else
         let s' = s\<lparr>e_sibling := (e_sibling s)(e := NULL)\<rparr> in
         s'\<lparr>e_next := (e_next s')(e := deref p s)\<rparr>);
     Some (assign p e s)
   }"

text \<open>The user has the address of the data; the operations below take the event, which lies before it.\<close>

definition equeue_alloc :: "U32 \<Rightarrow> equeue \<Rightarrow> (ptr \<times> equeue) option" where
  "equeue_alloc sz s = do {
     (e, s) \<leftarrow> equeue_mem_alloc sz s;
     if e = NULL then Some (NULL, s)
     else
       let s = s\<lparr>e_target := (e_target s)(e := 0)\<rparr>;
           s = s\<lparr>e_period := (e_period s)(e := - 1)\<rparr>;
           s = s\<lparr>e_dtor := (e_dtor s)(e := 0)\<rparr>
       in Some (e, s)
   }"

definition equeue_dealloc :: "ptr \<Rightarrow> equeue \<Rightarrow> equeue option" where
  "equeue_dealloc e s =
     (let s = (if e_dtor s e \<noteq> 0 then emit (Dtor (e_dtor s e) e) s else s) in equeue_mem_dealloc e s)"

section \<open>Scheduling\<close>

partial_function (option) find_slot :: "U32 \<Rightarrow> place \<Rightarrow> equeue \<Rightarrow> place option" where
  "find_slot target p s =
     (if deref p s \<noteq> NULL \<and> equeue_tickdiff (e_target s (deref p s)) target < 0
      then find_slot target (AT_NEXT (deref p s)) s else Some p)"

definition set_ref :: "ptr \<Rightarrow> place \<Rightarrow> equeue \<Rightarrow> equeue" where
  "set_ref e p s = s\<lparr>e_ref := (e_ref s)(e := p)\<rparr>"

text \<open>The event is put at the head of its slot, or into a new slot.\<close>

definition link_event :: "place \<Rightarrow> ptr \<Rightarrow> equeue \<Rightarrow> equeue" where
  "link_event p e s =
     (let s = (if deref p s \<noteq> NULL \<and> e_target s (deref p s) = e_target s e then
          let s = s\<lparr>e_next := (e_next s)(e := e_next s (deref p s))\<rparr>;
              s = (if e_next s e \<noteq> NULL then set_ref (e_next s e) (AT_NEXT e) s else s);
              s = s\<lparr>e_sibling := (e_sibling s)(e := deref p s)\<rparr>
          in set_ref (e_sibling s e) (AT_SIBLING e) s
        else
          let s = s\<lparr>e_next := (e_next s)(e := deref p s)\<rparr>;
              s = (if e_next s e \<noteq> NULL then set_ref (e_next s e) (AT_NEXT e) s else s)
          in s\<lparr>e_sibling := (e_sibling s)(e := NULL)\<rparr>);
        s = assign p e s
      in set_ref e p s)"

definition notify_timer :: "ptr \<Rightarrow> U32 \<Rightarrow> equeue \<Rightarrow> equeue" where
  "notify_timer e tick s =
     (if (bg_update s \<and> bg_active s) \<and> (q_queue s = e \<and> e_sibling s e = NULL)
      then emit (Update (sint (equeue_clampdiff (e_target s e) tick))) s else s)"

definition equeue_enqueue :: "ptr \<Rightarrow> U32 \<Rightarrow> equeue \<Rightarrow> (U32 \<times> equeue) option" where
  "equeue_enqueue e tick s =
     (let i = push_bit (unat (q_npw2 s)) (ucast (e_id s e)) OR (address e - q_buffer s);
          s = s\<lparr>e_target := (e_target s)(e := tick + equeue_clampdiff (e_target s e) tick)\<rparr>;
          s = s\<lparr>e_generation := (e_generation s)(e := q_generation s)\<rparr>
      in do {
        p \<leftarrow> find_slot (e_target s e) AT_QUEUE s;
        Some (i, notify_timer e tick (link_event p e s))
      })"

definition unlink_event :: "ptr \<Rightarrow> equeue \<Rightarrow> equeue" where
  "unlink_event e s =
     (if e_sibling s e \<noteq> NULL then
        let s = s\<lparr>e_next := (e_next s)(e_sibling s e := e_next s e)\<rparr>;
            s = (if e_next s (e_sibling s e) \<noteq> NULL
                 then set_ref (e_next s (e_sibling s e)) (AT_NEXT (e_sibling s e)) s else s);
            s = assign (e_ref s e) (e_sibling s e) s
        in set_ref (e_sibling s e) (e_ref s e) s
      else
        let s = assign (e_ref s e) (e_next s e) s
        in if e_next s e \<noteq> NULL then set_ref (e_next s e) (e_ref s e) s else s)"

definition equeue_unqueue :: "U32 \<Rightarrow> equeue \<Rightarrow> ptr \<times> equeue" where
  "equeue_unqueue i s =
     (let e = pointer (q_buffer s + (i AND (push_bit (unat (q_npw2 s)) 1 - 1))) in
      if int (unat (e_id s e)) \<noteq> drop_bit (unat (q_npw2 s)) (sint i) then (NULL, s)
      else
        let s = s\<lparr>e_cb := (e_cb s)(e := NO_CB)\<rparr>;
            s = s\<lparr>e_period := (e_period s)(e := - 1)\<rparr>;
            diff = equeue_tickdiff (e_target s e) (q_tick s)
        in
        if diff < 0 \<or> diff = 0 \<and> e_generation s e \<noteq> q_generation s then (NULL, s)
        else (e, equeue_incid e (unlink_event e s)))"

text \<open>The place where the expired events end: \<open>None\<close> is the local variable \<open>head\<close>.\<close>

partial_function (option) expired_end :: "U32 \<Rightarrow> ptr option \<Rightarrow> ptr \<Rightarrow> equeue \<Rightarrow> (ptr option \<times> ptr) option" where
  "expired_end target p e s =
     (if e \<noteq> NULL \<and> equeue_tickdiff (e_target s e) target \<le> 0
      then expired_end target (Some e) (e_next s e) s else Some (p, e))"

partial_function (option) reverse_slot :: "ptr \<Rightarrow> ptr \<Rightarrow> equeue \<Rightarrow> (ptr \<times> equeue) option" where
  "reverse_slot prev e s =
     (if e \<noteq> NULL then reverse_slot e (e_sibling s e) (s\<lparr>e_next := (e_next s)(e := prev)\<rparr>)
      else Some (prev, s))"

partial_function (option) flatten :: "ptr \<Rightarrow> ptr option \<Rightarrow> ptr \<Rightarrow> equeue \<Rightarrow> (ptr \<times> equeue) option" where
  "flatten head tail ess s =
     (if ess = NULL then Some (head, s)
      else
        let es = ess; ess = e_next s es in do {
          (prev, s) \<leftarrow> reverse_slot NULL es s;
          case tail of
            None \<Rightarrow> flatten prev (Some es) ess s
          | Some e \<Rightarrow> flatten head (Some es) ess (s\<lparr>e_next := (e_next s)(e := prev)\<rparr>)
        })"

definition equeue_dequeue :: "U32 \<Rightarrow> equeue \<Rightarrow> (ptr \<times> equeue) option" where
  "equeue_dequeue target s =
     (let s = s\<lparr>q_generation := q_generation s + 1\<rparr>;
          s = (if equeue_tickdiff (q_tick s) target \<le> 0 then s\<lparr>q_tick := target\<rparr> else s);
          head = q_queue s
      in do {
        (p, rest) \<leftarrow> expired_end target None head s;
        let s = s\<lparr>q_queue := rest\<rparr>;
        let s = (if q_queue s \<noteq> NULL then set_ref (q_queue s) AT_QUEUE s else s);
        let (head, s) = (case p of None \<Rightarrow> (NULL, s) | Some e \<Rightarrow> (head, s\<lparr>e_next := (e_next s)(e := NULL)\<rparr>));
        flatten head None head s
      })"

definition equeue_post :: "U32 \<Rightarrow> callback \<Rightarrow> ptr \<Rightarrow> equeue \<Rightarrow> (U32 \<times> equeue) option" where
  "equeue_post tick cb e s =
     (let s = s\<lparr>e_cb := (e_cb s)(e := cb)\<rparr>;
          s = s\<lparr>e_target := (e_target s)(e := tick + e_target s e)\<rparr>
      in do {
        (i, s) \<leftarrow> equeue_enqueue e tick s;
        Some (i, emit Signal s)
      })"

definition equeue_cancel :: "U32 \<Rightarrow> equeue \<Rightarrow> equeue option" where
  "equeue_cancel i s =
     (if i = 0 then Some s
      else let (e, s) = equeue_unqueue i s in if e \<noteq> NULL then equeue_dealloc e s else Some s)"

definition equeue_break :: "equeue \<Rightarrow> equeue" where
  "equeue_break s = (let s = s\<lparr>q_breaks := q_breaks s + 1\<rparr> in emit Signal s)"

definition equeue_event_delay :: "ptr \<Rightarrow> U32 \<Rightarrow> equeue \<Rightarrow> equeue" where
  "equeue_event_delay e ms s = s\<lparr>e_target := (e_target s)(e := ms)\<rparr>"

definition equeue_event_period :: "ptr \<Rightarrow> U32 \<Rightarrow> equeue \<Rightarrow> equeue" where
  "equeue_event_period e ms s = s\<lparr>e_period := (e_period s)(e := ms)\<rparr>"

definition equeue_event_dtor :: "ptr \<Rightarrow> U32 \<Rightarrow> equeue \<Rightarrow> equeue" where
  "equeue_event_dtor e dtor s = s\<lparr>e_dtor := (e_dtor s)(e := dtor)\<rparr>"

text \<open>Simple callbacks: their data are the function and its argument, 8 bytes.\<close>

definition set_ecallback :: "ptr \<Rightarrow> U32 \<Rightarrow> U32 \<Rightarrow> equeue \<Rightarrow> equeue" where
  "set_ecallback e cb data s = s\<lparr>ec_cb := (ec_cb s)(e := cb), ec_data := (ec_data s)(e := data)\<rparr>"

definition equeue_call :: "U32 \<Rightarrow> U32 \<Rightarrow> U32 \<Rightarrow> equeue \<Rightarrow> (U32 \<times> equeue) option" where
  "equeue_call tick cb data s = do {
     (e, s) \<leftarrow> equeue_alloc 8 s;
     if e = NULL then Some (0, s)
     else equeue_post tick ECALLBACK_DISPATCH e (set_ecallback e cb data s)
   }"

definition equeue_call_in :: "U32 \<Rightarrow> U32 \<Rightarrow> U32 \<Rightarrow> U32 \<Rightarrow> equeue \<Rightarrow> (U32 \<times> equeue) option" where
  "equeue_call_in tick ms cb data s = do {
     (e, s) \<leftarrow> equeue_alloc 8 s;
     if e = NULL then Some (0, s)
     else
       let s = equeue_event_delay e ms s
       in equeue_post tick ECALLBACK_DISPATCH e (set_ecallback e cb data s)
   }"

definition equeue_call_every :: "U32 \<Rightarrow> U32 \<Rightarrow> U32 \<Rightarrow> U32 \<Rightarrow> equeue \<Rightarrow> (U32 \<times> equeue) option" where
  "equeue_call_every tick ms cb data s = do {
     (e, s) \<leftarrow> equeue_alloc 8 s;
     if e = NULL then Some (0, s)
     else
       let s = equeue_event_delay e ms s;
           s = equeue_event_period e ms s
       in equeue_post tick ECALLBACK_DISPATCH e (set_ecallback e cb data s)
   }"

definition equeue_background :: "bool \<Rightarrow> U32 \<Rightarrow> equeue \<Rightarrow> equeue" where
  "equeue_background update tick s =
     (let s = (if bg_update s then emit (Update (- 1)) s else s);
          s = s\<lparr>bg_update := update\<rparr>;
          s = (if bg_update s \<and> q_queue s \<noteq> NULL
               then emit (Update (sint (equeue_clampdiff (e_target s (q_queue s)) tick))) s else s)
      in s\<lparr>bg_active := True\<rparr>)"

section \<open>Dispatching\<close>

text \<open>What the user's functions do is a parameter: a function, its argument and the state before.\<close>

type_synonym user = "U32 \<Rightarrow> U32 \<Rightarrow> equeue \<Rightarrow> equeue option"

definition run_callback :: "user \<Rightarrow> ptr \<Rightarrow> equeue \<Rightarrow> equeue option" where
  "run_callback user e s = (case e_cb s e of
       NO_CB \<Rightarrow> Some s
     | ECALLBACK_DISPATCH \<Rightarrow> user (ec_cb s e) (ec_data s e) s
     | USER_CB f \<Rightarrow> user f (address e + sizeof_event) s)"

text \<open>One event that has been dequeued; the time is read only for a periodic one.\<close>

definition dispatch_event :: "user \<Rightarrow> U32 \<Rightarrow> ptr \<Rightarrow> equeue \<Rightarrow> equeue option" where
  "dispatch_event user tick e s = do {
     s \<leftarrow> run_callback user e s;
     if 0 \<le> sint (e_period s e) then
       let s = s\<lparr>e_target := (e_target s)(e := e_target s e + e_period s e)\<rparr> in
       map_option snd (equeue_enqueue e tick s)
     else equeue_dealloc e (equeue_incid e s)
   }"

text \<open>The time of each event's turn comes from a list.\<close>

fun dispatch_events :: "user \<Rightarrow> U32 list \<Rightarrow> ptr \<Rightarrow> equeue \<Rightarrow> equeue option" where
  "dispatch_events user ticks es s =
     (if es = NULL then Some s
      else case ticks of
        [] \<Rightarrow> None
      | tick # ticks \<Rightarrow>
          let e = es; es = e_next s e in Option.bind (dispatch_event user tick e s) (dispatch_events user ticks es))"

declare dispatch_events.simps [simp del]

text \<open>A round of the dispatcher: the times of its events' turns, the time after them, what other threads
  and interrupt handlers do while it waits, and the time when it goes on.\<close>

record round =
  turn_ticks :: "U32 list"
  tick_done :: U32
  during_wait :: "equeue \<Rightarrow> equeue"
  tick_next :: U32

fun dispatch_rounds :: "user \<Rightarrow> U32 \<Rightarrow> U32 \<Rightarrow> round list \<Rightarrow> U32 \<Rightarrow> equeue \<Rightarrow> equeue option" where
  "dispatch_rounds user ms timeout [] tick s = None"
| "dispatch_rounds user ms timeout (r # rs) tick s = do {
     (es, s) \<leftarrow> equeue_dequeue tick s;
     s \<leftarrow> dispatch_events user (turn_ticks r) es s;
     let tick = tick_done r;
     let deadline = (if 0 \<le> sint ms then equeue_tickdiff timeout tick else - 1);
     if 0 \<le> sint ms \<and> deadline \<le> 0 then
       Some (if bg_update s then
           let s = (if q_queue s \<noteq> NULL
             then emit (Update (sint (equeue_clampdiff (e_target s (q_queue s)) tick))) s else s)
           in s\<lparr>bg_active := True\<rparr>
         else s)
     else
       let deadline = (if q_queue s \<noteq> NULL then
             let diff = equeue_clampdiff (e_target s (q_queue s)) tick in
             if diff < word_of_int deadline then sint diff else deadline
           else deadline);
           s = emit (Wait deadline) s;
           s = during_wait r s
       in if 0 < q_breaks s then Some (s\<lparr>q_breaks := q_breaks s - 1\<rparr>)
          else dispatch_rounds user ms timeout rs (tick_next r) s
   }"

definition equeue_dispatch :: "user \<Rightarrow> U32 \<Rightarrow> round list \<Rightarrow> U32 \<Rightarrow> equeue \<Rightarrow> equeue option" where
  "equeue_dispatch user ms rs tick s = dispatch_rounds user ms (tick + ms) rs tick (s\<lparr>bg_active := False\<rparr>)"

text \<open>Destroying the queue: the loop over the slots does not use its variable in the inner loop.\<close>

partial_function (option) destroy_slot :: "ptr \<Rightarrow> equeue \<Rightarrow> equeue option" where
  "destroy_slot e s =
     (if e = NULL then Some s
      else let s = (if e_dtor s e \<noteq> 0 then emit (Dtor (e_dtor s e) e) s else s) in destroy_slot (e_sibling s e) s)"

partial_function (option) destroy_slots :: "ptr \<Rightarrow> equeue \<Rightarrow> equeue option" where
  "destroy_slots es s =
     (if es = NULL then Some s
      else Option.bind (destroy_slot (q_queue s) s) (\<lambda>s. destroy_slots (e_next s es) s))"

declare chunk_search.simps [code] dealloc_search.simps [code] find_slot.simps [code] expired_end.simps [code]
  reverse_slot.simps [code] flatten.simps [code] destroy_slot.simps [code] destroy_slots.simps [code]

definition equeue_destroy :: "equeue \<Rightarrow> equeue option" where
  "equeue_destroy s = do {
     s \<leftarrow> destroy_slots (q_queue s) s;
     Some (if bg_update s then emit (Update (- 1)) s else s)
   }"

end
