(* ===== verification/Equeue_Order.thy ===== *)
theory Equeue_Order
  imports Equeue
begin

text \<open>
  The order of the event queue: the slots as a list of events by time, first come first served among the
  events of the same time.  Posting is an insertion into that list, and the expired events are a prefix
  of it.
\<close>

lemma signed_drop_31: "signed_drop_bit 31 (w :: U32) = (if sint w < 0 then - 1 else 0)"
proof (rule bit_word_eqI)
  fix m assume "m < LENGTH(32)"
  then show "bit (signed_drop_bit 31 w) m = bit (if sint w < 0 then - 1 else 0 :: U32) m"
    using bit_last_iff [of w] by (cases "m = 0") (simp_all add: bit_signed_drop_bit_iff bit_simps)
qed

lemma clampdiff_eq: "equeue_clampdiff a b = (if sint (a - b) < 0 then 0 else a - b)"
  by (simp add: equeue_clampdiff_def signed_drop_31)

text \<open>The time of an event that is enqueued: not before the present.\<close>

definition clamped :: "U32 \<Rightarrow> U32 \<Rightarrow> U32" where
  "clamped target tick = (if sint (target - tick) < 0 then tick else target)"

lemma target_eq: "tick + equeue_clampdiff target tick = clamped target tick"
  by (simp add: clampdiff_eq clamped_def)

section \<open>Slots\<close>

definition slot :: "equeue \<Rightarrow> ptr list \<Rightarrow> bool" where
  "slot s sl \<longleftrightarrow> sl \<noteq> [] \<and> chain (e_sibling s) (hd sl) sl NULL \<and> (\<forall>x\<in>set sl. e_target s x = e_target s (hd sl))"

definition slot_time :: "U32 \<Rightarrow> equeue \<Rightarrow> ptr list \<Rightarrow> nat" where
  "slot_time b s sl = after b (e_target s (hd sl))"

definition slots :: "U32 \<Rightarrow> equeue \<Rightarrow> ptr list list \<Rightarrow> bool" where
  "slots b s sls \<longleftrightarrow> chain (e_next s) (q_queue s) (map hd sls) NULL \<and> (\<forall>sl\<in>set sls. slot s sl) \<and>
     distinct (concat sls) \<and> sorted_wrt (\<lambda>x y. slot_time b s x < slot_time b s y) sls \<and>
     (\<forall>x\<in>set (concat sls). near b (e_target s x))"

text \<open>The events in the order in which they are dispatched.\<close>

definition order :: "ptr list list \<Rightarrow> ptr list" where
  "order sls = concat (map rev sls)"

lemma order_simps [simp]: "order [] = []" "order (sl # sls) = rev sl @ order sls" "order (A @ B) = order A @ order B"
  "set (order sls) = set (concat sls)"
  by (auto simp: order_def)

lemma slot_hd: "slot s sl \<Longrightarrow> hd sl \<in> set sl \<and> hd sl \<noteq> NULL"
  using chain_NULL_notin [of "e_sibling s" "hd sl" sl NULL] hd_in_set [of sl] by (auto simp: slot_def)

lemma slot_cong:
  assumes "slot s sl" "\<And>x. x \<in> set sl \<Longrightarrow> e_target s' x = e_target s x \<and> e_sibling s' x = e_sibling s x"
  shows "slot s' sl"
proof -
  have "chain (e_sibling s') (hd sl) sl NULL"
    using assms chain_cong [of sl "e_sibling s" "e_sibling s'"] unfolding slot_def by metis
  moreover have "e_target s' x = e_target s' (hd sl)" if "x \<in> set sl" for x
    using assms(2) [OF that] assms(2) [of "hd sl"] slot_hd [OF assms(1)] that assms(1) unfolding slot_def by metis
  ultimately show ?thesis using assms(1) unfolding slot_def by blast
qed

lemma slot_target: "slot s sl \<Longrightarrow> x \<in> set sl \<Longrightarrow> after b (e_target s x) = slot_time b s sl"
  unfolding slot_def slot_time_def by metis

lemma slots_Cons: "slots b s (sl # sls) \<Longrightarrow> slot s sl \<and> q_queue s = hd sl \<and> near b (e_target s (hd sl))"
  using slot_hd by (fastforce simp: slots_def)

text \<open>The place where a slot of a given time belongs.\<close>

definition end_of :: "ptr list list \<Rightarrow> place" where
  "end_of A = (if A = [] then AT_QUEUE else AT_NEXT (hd (last A)))"

lemma find_slot_ok:
  assumes "near b t"
  shows "chain (e_next s) (deref p s) (map hd B) NULL \<Longrightarrow> \<forall>sl\<in>set B. slot s sl \<and> near b (e_target s (hd sl)) \<Longrightarrow>
    find_slot t p s = Some (case rev (takeWhile (\<lambda>sl. slot_time b s sl < after b t) B) of [] \<Rightarrow> p | sl # _ \<Rightarrow> AT_NEXT (hd sl))"
proof (induction B arbitrary: p)
  case Nil
  then show ?case by (subst find_slot.simps) simp
next
  case (Cons sl B)
  have c: "deref p s = hd sl" "hd sl \<noteq> NULL" "chain (e_next s) (deref (AT_NEXT (hd sl)) s) (map hd B) NULL" using Cons.prems by auto
  have n: "near b (e_target s (hd sl))" using Cons.prems by simp
  have d: "equeue_tickdiff (e_target s (hd sl)) t < 0 \<longleftrightarrow> slot_time b s sl < after b t"
    using near_diff [OF n assms] by (simp add: equeue_tickdiff_def slot_time_def)
  show ?case
  proof (cases "slot_time b s sl < after b t")
    case True
    have "find_slot t p s = find_slot t (AT_NEXT (hd sl)) s" using c d True by (subst find_slot.simps) simp
    also have "\<dots> = Some (case rev (takeWhile (\<lambda>sl. slot_time b s sl < after b t) B) of [] \<Rightarrow> AT_NEXT (hd sl) | sl # _ \<Rightarrow> AT_NEXT (hd sl))"
      by (rule Cons.IH [OF c(3)]) (use Cons.prems in simp)
    finally show ?thesis using True by (auto split: list.split)
  next
    case False
    then show ?thesis using c d by (subst find_slot.simps) simp
  qed
qed

lemma heads_distinct: "sorted_wrt (\<lambda>x y. slot_time b s x < slot_time b s y) sls \<Longrightarrow> distinct (map hd sls)"
proof -
  assume "sorted_wrt (\<lambda>x y. slot_time b s x < slot_time b s y) sls"
  then have "distinct (map (slot_time b s) sls)" by (simp add: sorted_wrt_map [symmetric] strict_sorted_iff)
  then have "inj_on (slot_time b s) (set sls)" "distinct sls" by (simp_all add: distinct_map)
  then show ?thesis by (auto simp: distinct_map inj_on_def slot_time_def)
qed

lemma rev_cases_hd: "(case rev A of [] \<Rightarrow> p | sl # _ \<Rightarrow> f sl) = (if A = [] then p else f (last A))"
  by (cases A rule: rev_cases) auto

text \<open>Linking a slot in: \<open>e\<close> takes the place of what came behind the slots \<open>A\<close>.\<close>

lemma assign_end:
  assumes "chain (e_next s) (q_queue s) (map hd A @ R) NULL" "distinct (map hd A)" "\<forall>sl\<in>set A. e \<noteq> hd sl"
    "chain (e_next s) (e_next s e) R' NULL" "e \<noteq> NULL" "\<forall>sl\<in>set A. hd sl \<notin> set R'" "e \<notin> set R'"
  shows "chain (e_next (assign (end_of A) e s)) (q_queue (assign (end_of A) e s)) (map hd A @ e # R') NULL"
proof (cases A rule: rev_cases)
  case Nil
  then show ?thesis using assms by (simp add: end_of_def)
next
  case (snoc C c)
  have e: "chain (e_next s) e (e # R') NULL" using assms(4,5) by simp
  have "chain ((e_next s)(hd c := e)) (q_queue s) (map hd C @ hd c # e # R') NULL"
    by (rule chain_splice [of "e_next s" "q_queue s" "map hd C" "hd c" R]) (use assms e snoc in auto)
  then show ?thesis using snoc by (simp add: end_of_def)
qed

text \<open>What the scheduling functions do not change.\<close>

definition fixed :: "equeue \<Rightarrow> _" where
  "fixed s = (q_tick s, q_breaks s, q_generation s, q_buffer s, q_npw2 s, q_chunks s, slab_size s, slab_data s,
     bg_active s, bg_update s, e_size s, e_id s, e_period s, e_dtor s, e_cb s, ec_cb s, ec_data s)"

lemma fixed_steps [simp]:
  "fixed (set_ref e p s) = fixed s" "fixed (emit x s) = fixed s" "fixed (notify_timer e tick s) = fixed s"
  "fixed (s\<lparr>q_queue := q\<rparr>) = fixed s" "fixed (s\<lparr>e_next := nx\<rparr>) = fixed s" "fixed (s\<lparr>e_sibling := sb\<rparr>) = fixed s"
  "fixed (s\<lparr>e_target := tg\<rparr>) = fixed s" "fixed (s\<lparr>e_generation := gn\<rparr>) = fixed s"
  by (simp_all add: fixed_def set_ref_def emit_def notify_timer_def)

lemma fixed_assign [simp]: "p \<noteq> AT_CHUNKS \<Longrightarrow> fixed (assign p v s) = fixed s"
  by (cases p) (simp_all add: fixed_def)

lemma tw_split: "\<forall>x\<in>set xs. P x \<Longrightarrow> \<forall>y\<in>set ys. \<not> P y \<Longrightarrow> takeWhile P (xs @ ys) = xs \<and> dropWhile P (xs @ ys) = ys"
  by (cases ys) (auto simp: takeWhile_append2 dropWhile_append2)

lemma end_of_cases: "end_of A = AT_QUEUE \<and> A = [] \<or> (\<exists>C c. A = C @ [c] \<and> end_of A = AT_NEXT (hd c))"
  by (cases A rule: rev_cases) (auto simp: end_of_def)

lemma deref_end:
  assumes "chain (e_next s) (q_queue s) (map hd (A @ B)) NULL"
  shows "deref (end_of A) s = (case B of [] \<Rightarrow> NULL | sl # _ \<Rightarrow> hd sl)" "chain (e_next s) (deref (end_of A) s) (map hd B) NULL"
  using assms end_of_cases [of A] by (auto simp: chain_append split: list.splits)

lemma sorted_split:
  assumes "sorted_wrt (\<lambda>x y. f x < (f y :: nat)) sls" "A = takeWhile (\<lambda>x. f x < t) sls" "B = dropWhile (\<lambda>x. f x < t) sls"
  shows "sls = A @ B" "\<forall>x\<in>set A. f x < t" "\<forall>x\<in>set B. t \<le> f x" "B = sl # C \<Longrightarrow> x \<in> set C \<Longrightarrow> f sl < f x"
    "sorted_wrt (\<lambda>x y. f x < f y) A" "sorted_wrt (\<lambda>x y. f x < f y) B"
proof -
  show e: "sls = A @ B" by (simp add: assms)
  show "\<forall>x\<in>set A. f x < t" by (auto simp: assms dest: set_takeWhileD)
  show s: "sorted_wrt (\<lambda>x y. f x < f y) A" "sorted_wrt (\<lambda>x y. f x < f y) B" using assms(1) by (auto simp: e sorted_wrt_append)
  show l: "B = sl # C \<Longrightarrow> x \<in> set C \<Longrightarrow> f sl < f x" for sl C x using s(2) by simp
  show "\<forall>x\<in>set B. t \<le> f x"
  proof (cases B)
    case (Cons sl C)
    then have "t \<le> f sl" using hd_dropWhile [of "\<lambda>x. f x < t" sls] by (simp add: assms(3) [symmetric] not_less)
    then show ?thesis using l [OF Cons] by (auto simp: Cons intro: less_imp_le order.trans)
  qed simp
qed

text \<open>Assignments and references, field by field.\<close>

lemma set_ref_fields [simp]:
  "q_queue (set_ref e p s) = q_queue s" "q_chunks (set_ref e p s) = q_chunks s" "e_next (set_ref e p s) = e_next s"
  "e_sibling (set_ref e p s) = e_sibling s" "e_target (set_ref e p s) = e_target s" "e_generation (set_ref e p s) = e_generation s"
  "e_ref (set_ref e p s) = (e_ref s)(e := p)" "q_log (set_ref e p s) = q_log s" "deref q (set_ref e p s) = deref q s"
  by (simp_all add: set_ref_def) (cases q; simp)

lemma assign_fields [simp]:
  "q_queue (assign p v s) = (if p = AT_QUEUE then v else q_queue s)"
  "e_next (assign p v s) = (case p of AT_NEXT c \<Rightarrow> (e_next s)(c := v) | _ \<Rightarrow> e_next s)"
  "e_sibling (assign p v s) = (case p of AT_SIBLING c \<Rightarrow> (e_sibling s)(c := v) | _ \<Rightarrow> e_sibling s)"
  "e_target (assign p v s) = e_target s" "e_generation (assign p v s) = e_generation s"
  "e_ref (assign p v s) = e_ref s" "q_log (assign p v s) = q_log s"
  by (cases p; simp)+

lemma notify_timer_fields [simp]:
  "q_queue (notify_timer e tick s) = q_queue s" "e_next (notify_timer e tick s) = e_next s"
  "e_sibling (notify_timer e tick s) = e_sibling s" "e_target (notify_timer e tick s) = e_target s"
  "e_generation (notify_timer e tick s) = e_generation s" "e_ref (notify_timer e tick s) = e_ref s"
  by (simp_all add: notify_timer_def emit_def)

lemma link_event_fields:
  assumes "p = AT_QUEUE \<or> (\<exists>c. p = AT_NEXT c \<and> c \<noteq> e)" "d = deref p s" "d \<noteq> e"
    "b \<longleftrightarrow> d \<noteq> NULL \<and> e_target s d = e_target s e" "nx = (if b then e_next s d else d)" "sb = (if b then d else NULL)"
  shows "q_queue (link_event p e s) = (if p = AT_QUEUE then e else q_queue s)"
    "e_next (link_event p e s) = (case p of AT_NEXT c \<Rightarrow> (e_next s)(e := nx, c := e) | _ \<Rightarrow> (e_next s)(e := nx))"
    "e_sibling (link_event p e s) = (e_sibling s)(e := sb)" "e_target (link_event p e s) = e_target s"
    "e_generation (link_event p e s) = e_generation s" "fixed (link_event p e s) = fixed s" "e_ref (link_event p e s) e = p"
    "b \<Longrightarrow> e_ref (link_event p e s) d = AT_SIBLING e"
  using assms by (auto simp: link_event_def Let_def)


lemma enqueue_state:
  assumes S: "slots b s sls" and e: "e \<noteq> NULL" "e \<notin> set (concat sls)" and t: "t = clamped (e_target s e) tick" "near b t"
    and A: "A = takeWhile (\<lambda>sl. slot_time b s sl < after b t) sls" and B: "B = dropWhile (\<lambda>sl. slot_time b s sl < after b t) sls"
    and d: "d = (case B of [] \<Rightarrow> NULL | sl # _ \<Rightarrow> hd sl)"
    and j: "j \<longleftrightarrow> d \<noteq> NULL \<and> e_target s d = t" and v: "nx = (if j then e_next s d else d)" "sb = (if j then d else NULL)"
    and s1: "s1 = s\<lparr>e_next := (e_next s)(e := nx)\<rparr>"
  obtains s' where
    "equeue_enqueue e tick s = Some (push_bit (unat (q_npw2 s)) (ucast (e_id s e)) OR (address e - q_buffer s), s')"
    "q_queue s' = q_queue (assign (end_of A) e s1)" "e_next s' = e_next (assign (end_of A) e s1)"
    "e_sibling s' = (e_sibling s)(e := sb)" "e_target s' = (e_target s)(e := t)"
    "e_generation s' = (e_generation s)(e := q_generation s)" "fixed s' = fixed s" "e_ref s' e = end_of A"
    "j \<Longrightarrow> e_ref s' d = AT_SIBLING e"
proof -
  let ?s0 = "s\<lparr>e_target := (e_target s)(e := t), e_generation := (e_generation s)(e := q_generation s)\<rparr>"
  have hd: "hd sl \<noteq> e \<and> slot ?s0 sl \<and> near b (e_target ?s0 (hd sl)) \<and> slot_time b ?s0 sl = slot_time b s sl" if "sl \<in> set sls" for sl
  proof -
    have n: "\<forall>x\<in>set (concat sls). near b (e_target s x)" and sl: "slot s sl" using S that unfolding slots_def by blast+
    have h: "hd sl \<in> set sl" using slot_hd [OF sl] by blast
    have m: "set sl \<subseteq> set (concat sls)" using that by auto
    have ne: "e \<notin> set sl" using m e(2) by blast
    have "hd sl \<noteq> e" "near b (e_target s (hd sl))" using n h m ne by blast+
    moreover have "slot ?s0 sl" by (rule slot_cong [OF sl]) (use ne in auto)
    ultimately show ?thesis by (simp add: slot_time_def)
  qed
  have c: "chain (e_next ?s0) (deref AT_QUEUE ?s0) (map hd sls) NULL" using S by (simp add: slots_def)
  have tw: "takeWhile (\<lambda>sl. slot_time b ?s0 sl < after b t) sls = A" unfolding A by (rule takeWhile_cong) (use hd in auto)
  have f: "find_slot t AT_QUEUE ?s0 = Some (end_of A)"
    using find_slot_ok [OF t(2) c] hd unfolding tw rev_cases_hd end_of_def by metis
  have AB: "sls = A @ B" by (simp add: A B)
  have dd: "d = deref (end_of A) ?s0" unfolding d using deref_end(1) [of ?s0 A B] c by (simp add: AB)
  have p: "end_of A = AT_QUEUE \<or> (\<exists>c. end_of A = AT_NEXT c \<and> c \<noteq> e)" using end_of_cases [of A] hd by (auto simp: AB)
  have de: "d \<noteq> e" unfolding d using hd e(1) by (auto simp: AB split: list.split)
  have j0: "j \<longleftrightarrow> d \<noteq> NULL \<and> e_target ?s0 d = e_target ?s0 e" "nx = (if j then e_next ?s0 d else d)" using de j v(1) by auto
  note lf = link_event_fields [OF p dd de j0 v(2)]
  have eq: "equeue_enqueue e tick s =
      Some (push_bit (unat (q_npw2 s)) (ucast (e_id s e)) OR (address e - q_buffer s), notify_timer e tick (link_event (end_of A) e ?s0))"
    using f by (simp add: equeue_enqueue_def target_eq t(1) [symmetric])
  show thesis by (rule that [OF eq]) (use lf p s1 in \<open>auto split: place.splits\<close>)
qed


text \<open>Posting is the insertion by time, behind the events of the same time.\<close>

definition urgent :: "U32 \<Rightarrow> equeue \<Rightarrow> ptr \<Rightarrow> int" where
  "urgent b s x = - int (after b (e_target s x))"

definition put_slot :: "U32 \<Rightarrow> equeue \<Rightarrow> U32 \<Rightarrow> ptr \<Rightarrow> ptr list list \<Rightarrow> ptr list list" where
  "put_slot b s t e sls =
     (let A = takeWhile (\<lambda>sl. slot_time b s sl < after b t) sls; B = dropWhile (\<lambda>sl. slot_time b s sl < after b t) sls
      in if B \<noteq> [] \<and> slot_time b s (hd B) = after b t then A @ (e # hd B) # tl B else A @ [e] # B)"

lemma enqueue_slots:
  assumes S: "slots b s sls" and e: "e \<noteq> NULL" "e \<notin> set (concat sls)" and t: "t = clamped (e_target s e) tick" "near b t"
  obtains s' sls' where
    "equeue_enqueue e tick s = Some (push_bit (unat (q_npw2 s)) (ucast (e_id s e)) OR (address e - q_buffer s), s')"
    "slots b s' sls'" "order sls' = ins_prio (urgent b s') e (order sls)" "e_target s' = (e_target s)(e := t)"
    "e_generation s' = (e_generation s)(e := q_generation s)" "fixed s' = fixed s"
    "\<exists>A sl B. sls' = A @ (e # sl) # B \<and> e_ref s' e = end_of A" "sls' = put_slot b s t e sls"
proof -
  define A where "A = takeWhile (\<lambda>sl. slot_time b s sl < after b t) sls"
  define B where "B = dropWhile (\<lambda>sl. slot_time b s sl < after b t) sls"
  define d where "d = (case B of [] \<Rightarrow> NULL | sl # _ \<Rightarrow> hd sl)"
  define j where "j \<longleftrightarrow> d \<noteq> NULL \<and> e_target s d = t"
  define nx where "nx = (if j then e_next s d else d)"
  define sb where "sb = (if j then d else NULL)"
  define s1 where "s1 = s\<lparr>e_next := (e_next s)(e := nx)\<rparr>"
  obtain s' where s': "equeue_enqueue e tick s = Some (push_bit (unat (q_npw2 s)) (ucast (e_id s e)) OR (address e - q_buffer s), s')"
    "q_queue s' = q_queue (assign (end_of A) e s1)" "e_next s' = e_next (assign (end_of A) e s1)"
    "e_sibling s' = (e_sibling s)(e := sb)" "e_target s' = (e_target s)(e := t)"
    "e_generation s' = (e_generation s)(e := q_generation s)" "fixed s' = fixed s" "e_ref s' e = end_of A"
    by (rule enqueue_state [OF S e t A_def B_def d_def j_def nx_def sb_def s1_def])
  have S': "chain (e_next s) (q_queue s) (map hd sls) NULL" "\<forall>sl\<in>set sls. slot s sl" "distinct (concat sls)"
    "sorted_wrt (\<lambda>x y. slot_time b s x < slot_time b s y) sls" "\<forall>x\<in>set (concat sls). near b (e_target s x)"
    using S unfolding slots_def by blast+
  note sp = sorted_split [OF S'(4) A_def B_def]
  have old: "slot s' sl \<and> slot_time b s' sl = slot_time b s sl \<and> hd sl \<noteq> e \<and> hd sl \<in> set sl \<and> e \<notin> set sl" if "sl \<in> set sls" for sl
  proof -
    have sl: "slot s sl" "e \<notin> set sl" using S'(2) that e(2) by auto
    have "slot s' sl" by (rule slot_cong [OF sl(1)]) (use sl(2) s'(4,5) in auto)
    moreover have "hd sl \<in> set sl" using slot_hd [OF sl(1)] by blast
    ultimately show ?thesis using sl(2) s'(5) by (auto simp: slot_time_def)
  qed
  have dist: "hd x \<noteq> hd y" if "x \<in> set A" "y \<in> set B" for x y
    using sp(2,3) that unfolding slot_time_def by fastforce
  have times: "after b (e_target s' x) = slot_time b s sl" if "sl \<in> set sls" "x \<in> set sl" for x sl
    using slot_target [of s' sl x b] old [OF that(1)] that(2) by auto
  have te: "after b (e_target s' e) = after b t" by (simp add: s'(5))
  define R where "R = (if j then tl B else B)"
  have chR: "chain (e_next s) nx (map hd R) NULL"
  proof (cases B)
    case Nil
    then show ?thesis by (simp add: R_def nx_def j_def d_def)
  next
    case (Cons sl C)
    have c0: "chain (e_next s) (q_queue s) (map hd (A @ B)) NULL" using S'(1) sp(1) by simp
    have "chain (e_next s) d (map hd B) NULL" using deref_end(2) [OF c0] unfolding deref_end(1) [OF c0] d_def .
    then show ?thesis by (simp add: R_def nx_def Cons d_def)
  qed
  define N where "N = (if j then e # hd B else [e])"
  have Bj: "B = hd B # R \<and> slot_time b s (hd B) = after b t \<and> d = hd (hd B) \<and> e_target s (hd (hd B)) = t" if j
    using that by (cases B) (auto simp: j_def d_def R_def slot_time_def)
  have RB: "set R \<subseteq> set B" by (cases B) (auto simp: R_def)
  have RS: "set A \<subseteq> set sls" "set R \<subseteq> set sls" "set B \<subseteq> set sls" using RB sp(1) by auto
  have late: "after b t < slot_time b s sl" if "sl \<in> set R" for sl
  proof (cases B)
    case Nil
    then show ?thesis using that RB by simp
  next
    case (Cons x C)
    have "after b t \<le> slot_time b s x" using sp(3) Cons by simp
    moreover have "\<not> j \<Longrightarrow> slot_time b s x \<noteq> after b t"
      using slot_hd [of s x] S'(2) RS(3) by (auto simp: Cons j_def d_def slot_time_def after_eq)
    ultimately show ?thesis using that sp(4) [OF Cons] Bj by (fastforce simp: R_def Cons split: if_splits)
  qed
  have "chain (e_next (assign (end_of A) e s1)) (q_queue (assign (end_of A) e s1)) (map hd A @ e # map hd R) NULL"
  proof (rule assign_end)
    have "e \<notin> set (map hd sls)" using old by fastforce
    then have "chain (e_next s1) (q_queue s1) (map hd sls) NULL" using S'(1) by (simp add: s1_def)
    then show "chain (e_next s1) (q_queue s1) (map hd A @ map hd B) NULL" using sp(1) by simp
    show "distinct (map hd A)" by (rule heads_distinct [OF sp(5)])
    show "\<forall>sl\<in>set A. e \<noteq> hd sl" using old RS by auto
    have "e \<notin> set (map hd R)" using old RS by auto
    then show "chain (e_next s1) (e_next s1 e) (map hd R) NULL" "e \<notin> set (map hd R)" using chR by (simp_all add: s1_def)
    show "e \<noteq> NULL" by (rule e(1))
    show "\<forall>sl\<in>set A. hd sl \<notin> set (map hd R)" using dist RB by force
  qed
  moreover have hN: "hd N = e" by (simp add: N_def)
  ultimately have ch: "chain (e_next s') (q_queue s') (map hd (A @ N # R)) NULL" by (simp add: s'(2,3))
  have sN: "slot s' N"
  proof (cases j)
    case True
    then have B: "B = hd B # R" "d = hd (hd B)" "e_target s (hd (hd B)) = t" using Bj by auto
    have m: "hd B \<in> set sls" using B(1) RS(3) by (metis list.set_intros(1) subsetD)
    have o: "slot s' (hd B)" "e \<notin> set (hd B)" using old [OF m] by auto
    have "chain (e_sibling s') (e_sibling s' e) (hd B) NULL" using o(1) True by (simp add: slot_def s'(4) sb_def B(2) [symmetric])
    moreover have "e_target s' x = t" if "x \<in> set (hd B)" for x
      using o that B(3) S'(2) m unfolding slot_def by (metis fun_upd_apply s'(5))
    ultimately show ?thesis using e(1) True by (auto simp: slot_def N_def s'(5))
  next
    case False
    then show ?thesis using e(1) by (simp add: slot_def N_def s'(4) sb_def)
  qed
  have tN: "slot_time b s' N = after b t" using te hN by (simp add: slot_time_def)
  have flat: "mset (concat (A @ N # R)) = add_mset e (mset (concat sls))"
    unfolding sp(1) using Bj by (cases j) (auto simp: N_def R_def, metis concat.simps(2) mset_append union_assoc)
  have cc: "set (concat (A @ N # R)) = insert e (set (concat sls))" using flat by (metis set_mset_add_mset_insert set_mset_mset)
  have dc: "distinct (concat (A @ N # R))"
    using mset_eq_imp_distinct_iff [of "concat (A @ N # R)" "e # concat sls"] flat S'(3) e(2) by simp
  have so: "sorted_wrt (\<lambda>x y. slot_time b s' x < slot_time b s' y) (A @ N # R)"
  proof -
    have "sorted_wrt (\<lambda>x y. slot_time b s x < slot_time b s y) R" using sp(6) by (cases B) (auto simp: R_def)
    then have "sorted_wrt (\<lambda>x y. slot_time b s' x < slot_time b s' y) A" "sorted_wrt (\<lambda>x y. slot_time b s' x < slot_time b s' y) R"
      using sp(5) old RS by (auto intro: sorted_wrt_mono_rel [rotated] simp: subset_iff)
    then show ?thesis using sp(2) late old RS unfolding sorted_wrt_append sorted_wrt.simps
      by (auto simp: tN subset_iff intro: less_trans)
  qed
  have "\<forall>sl\<in>set (A @ N # R). slot s' sl" using sN old RS by auto
  moreover have "\<forall>x\<in>set (concat (A @ N # R)). near b (e_target s' x)" unfolding cc using S'(5) t(2) e(2) by (simp add: s'(5))
  ultimately have "slots b s' (A @ N # R)" unfolding slots_def using ch dc so by blast
  moreover have "order (A @ N # R) = ins_prio (urgent b s') e (order sls)"
  proof -
    define L where "L = order A @ (if j then rev (hd B) else [])"
    have o: "order sls = L @ order R" unfolding sp(1) using Bj by (cases j) (auto simp: L_def R_def, metis order_simps(2))
    have l1: "urgent b s' e \<le> urgent b s' x" if x: "x \<in> set L" for x
    proof -
      consider sl where "sl \<in> set A" "x \<in> set sl" | "j" "x \<in> set (hd B)"
        using x by (cases j) (auto simp: L_def split: if_splits)
      then show ?thesis
      proof cases
        case 1
        then show ?thesis using times [of sl x] sp(2) subsetD [OF RS(1)] te by (fastforce simp: urgent_def)
      next
        case 2
        then have "hd B \<in> set sls" using Bj RS(3) by (metis list.set_intros(1) subsetD)
        then show ?thesis using times [of "hd B" x] 2 Bj te by (simp add: urgent_def)
      qed
    qed
    have l2: "\<not> urgent b s' e \<le> urgent b s' x" if x: "x \<in> set (order R)" for x
    proof -
      obtain sl where "sl \<in> set R" "x \<in> set sl" using x by auto
      then show ?thesis using times [of sl x] late [of sl] subsetD [OF RS(2)] te by (fastforce simp: urgent_def)
    qed
    have "takeWhile (\<lambda>x. urgent b s' e \<le> urgent b s' x) (L @ order R) = L \<and>
      dropWhile (\<lambda>x. urgent b s' e \<le> urgent b s' x) (L @ order R) = order R"
      by (rule tw_split) (use l1 l2 in blast)+
    moreover have "order (A @ N # R) = L @ e # order R" by (simp add: L_def N_def)
    ultimately show ?thesis unfolding ins_prio_def o by simp
  qed
  moreover have "\<exists>A' sl B'. A @ N # R = A' @ (e # sl) # B' \<and> e_ref s' e = end_of A'" using s'(8) by (auto simp: N_def)
  moreover have "A @ N # R = put_slot b s t e sls"
  proof -
    have "j \<longleftrightarrow> B \<noteq> [] \<and> slot_time b s (hd B) = after b t"
      using slot_hd S'(2) RS(3) by (cases B) (auto simp: j_def d_def slot_time_def after_eq)
    then show ?thesis unfolding put_slot_def A_def [symmetric] B_def [symmetric] Let_def by (simp add: N_def R_def)
  qed
  ultimately show thesis using that [OF s'(1) _ _ s'(5-7)] by blast
qed


section \<open>Taking the expired events\<close>

lemma expired_end_ok:
  assumes "near b t"
  shows "chain (e_next s) p (map hd B) NULL \<Longrightarrow> \<forall>sl\<in>set B. near b (e_target s (hd sl)) \<Longrightarrow>
    expired_end t q p s = Some (case rev (takeWhile (\<lambda>sl. slot_time b s sl \<le> after b t) B) of [] \<Rightarrow> q | sl # _ \<Rightarrow> Some (hd sl),
      case dropWhile (\<lambda>sl. slot_time b s sl \<le> after b t) B of [] \<Rightarrow> NULL | sl # _ \<Rightarrow> hd sl)"
proof (induction B arbitrary: p q)
  case Nil
  then show ?case by (subst expired_end.simps) simp
next
  case (Cons sl B)
  have c: "p = hd sl" "hd sl \<noteq> NULL" "chain (e_next s) (e_next s (hd sl)) (map hd B) NULL" using Cons.prems by auto
  have n: "near b (e_target s (hd sl))" using Cons.prems by simp
  have d: "equeue_tickdiff (e_target s (hd sl)) t \<le> 0 \<longleftrightarrow> slot_time b s sl \<le> after b t"
    using near_diff [OF n assms] by (simp add: equeue_tickdiff_def slot_time_def)
  show ?case
  proof (cases "slot_time b s sl \<le> after b t")
    case True
    have "expired_end t q p s = expired_end t (Some (hd sl)) (e_next s (hd sl)) s" using c d True by (subst expired_end.simps) simp
    then show ?thesis using Cons.IH [OF c(3), of "Some (hd sl)"] Cons.prems True by (auto split: list.split)
  next
    case False
    then show ?thesis using c d by (subst expired_end.simps) simp
  qed
qed

text \<open>Reversing a slot, and linking the slots together.\<close>

lemma reverse_slot_ok:
  "chain (e_sibling s) e sl NULL \<Longrightarrow> distinct sl \<Longrightarrow> set sl \<inter> set P = {} \<Longrightarrow> chain (e_next s) prev P NULL \<Longrightarrow>
    \<exists>h nx. reverse_slot prev e s = Some (h, s\<lparr>e_next := nx\<rparr>) \<and> chain nx h (rev sl @ P) NULL \<and>
      (\<forall>x. x \<notin> set sl \<longrightarrow> nx x = e_next s x)"
proof (induction sl arbitrary: e prev s P)
  case Nil
  then show ?case by (intro exI [of _ prev] exI [of _ "e_next s"]) (subst reverse_slot.simps, simp)
next
  case (Cons x sl)
  let ?s = "s\<lparr>e_next := (e_next s)(x := prev)\<rparr>"
  have x: "e = x" "x \<noteq> NULL" "chain (e_sibling ?s) (e_sibling ?s x) sl NULL" using Cons.prems by auto
  have c: "chain (e_next ?s) x (x # P) NULL" and d: "distinct sl" and i: "set sl \<inter> set (x # P) = {}" using Cons.prems by auto
  obtain h nx where "reverse_slot x (e_sibling ?s x) ?s = Some (h, ?s\<lparr>e_next := nx\<rparr>)" "chain nx h (rev sl @ x # P) NULL"
    "\<forall>y. y \<notin> set sl \<longrightarrow> nx y = e_next ?s y"
    using Cons.IH [OF x(3) d i c] by blast
  then show ?case using x by (intro exI [of _ h] exI [of _ nx]) (subst reverse_slot.simps, simp)
qed

lemma flatten_ok:
  "chain (e_next s) ess (map hd S) NULL \<Longrightarrow> \<forall>sl\<in>set S. slot s sl \<Longrightarrow> distinct (Z @ concat S) \<Longrightarrow>
    (if Z = [] then tail = None \<and> (S = [] \<longrightarrow> head = NULL) else tail = Some (last Z) \<and> chain (e_next s) head Z NULL) \<Longrightarrow>
    \<exists>h nx. flatten head tail ess s = Some (h, s\<lparr>e_next := nx\<rparr>) \<and> chain nx h (Z @ order S) NULL \<and>
      (\<forall>x. x \<notin> set Z \<union> set (concat S) \<longrightarrow> nx x = e_next s x)"
proof (induction S arbitrary: s ess Z tail head)
  case Nil
  then show ?case by (intro exI [of _ head] exI [of _ "e_next s"]) (subst flatten.simps, auto split: if_splits)
next
  case (Cons sl S)
  have e: "ess = hd sl" "hd sl \<noteq> NULL" "chain (e_next s) (e_next s (hd sl)) (map hd S) NULL" using Cons.prems by auto
  have sl: "slot s sl" "distinct sl" "set sl \<inter> set Z = {}" "set sl \<inter> set (concat S) = {}" "set Z \<inter> set (concat S) = {}" using Cons.prems by auto
  have ne: "sl \<noteq> []" "chain (e_sibling s) (hd sl) sl NULL" using sl(1) by (auto simp: slot_def)
  obtain h nx where r: "reverse_slot NULL (hd sl) s = Some (h, s\<lparr>e_next := nx\<rparr>)" "chain nx h (rev sl) NULL"
    "\<forall>x. x \<notin> set sl \<longrightarrow> nx x = e_next s x"
    using reverse_slot_ok [OF ne(2) sl(2), of "[]" NULL] by auto
  have hS: "set (map hd S) \<subseteq> set (concat S)" using Cons.prems(2) slot_hd by fastforce
  define head' where "head' = (if Z = [] then h else head)"
  define nx' where "nx' = (if Z = [] then nx else nx(last Z := h))"
  let ?s = "s\<lparr>e_next := nx'\<rparr>"
  have st: "flatten head tail ess s = flatten head' (Some (hd sl)) (e_next s (hd sl)) ?s"
    using Cons.prems(4) e(1,2) r(1) by (subst flatten.simps) (auto simp: Let_def head'_def nx'_def split: if_splits)
  have out: "nx' x = e_next s x" if "x \<notin> set Z \<union> set sl" for x using that r(3) last_in_set [of Z] by (auto simp: nx'_def)
  have "chain nx' (e_next s (hd sl)) (map hd S) NULL"
    using e(3) chain_cong [of "map hd S" nx' "e_next s"] out hS sl(4,5) by blast
  moreover have "\<forall>sl\<in>set S. slot ?s sl" using Cons.prems(2) by (auto intro: slot_cong)
  moreover have "distinct ((Z @ rev sl) @ concat S)" using Cons.prems(3) by auto
  moreover have "chain nx' head' (Z @ rev sl) NULL"
  proof (cases Z rule: rev_cases)
    case Nil
    then show ?thesis using r(2) by (simp add: nx'_def head'_def)
  next
    case (snoc Y z)
    have "chain nx head (Y @ z # []) NULL"
      using Cons.prems(4) chain_cong [of Z nx "e_next s"] r(3) sl(3) snoc by auto
    from chain_splice [OF this _ r(2)] show ?thesis using sl(3) Cons.prems(3) snoc by (simp add: nx'_def head'_def)
  qed
  moreover have "last (Z @ rev sl) = hd sl" using ne(1) by (simp add: last_rev)
  ultimately obtain h' nx'' where "flatten head' (Some (hd sl)) (e_next s (hd sl)) ?s = Some (h', ?s\<lparr>e_next := nx''\<rparr>)"
    "chain nx'' h' ((Z @ rev sl) @ order S) NULL" "\<forall>x. x \<notin> set (Z @ rev sl) \<union> set (concat S) \<longrightarrow> nx'' x = nx' x"
    using Cons.IH [of ?s "e_next s (hd sl)" "Z @ rev sl" "Some (hd sl)" head'] ne(1) by auto
  then show ?case using st out by (intro exI [of _ h'] exI [of _ nx'']) auto
qed


text \<open>The slots that remain when others are unlinked.\<close>

lemma slots_intro:
  assumes S: "\<forall>sl\<in>set sls. slot s sl" "distinct (concat sls)" "sorted_wrt (\<lambda>x y. slot_time b s x < slot_time b s y) sls"
      "\<forall>x\<in>set (concat sls). near b (e_target s x)"
    and "\<And>x. x \<in> set (concat sls) \<Longrightarrow> e_target s' x = e_target s x \<and> e_sibling s' x = e_sibling s x"
    "chain (e_next s') (q_queue s') (map hd sls) NULL"
  shows "slots b s' sls"
proof -
  have sl: "slot s' sl \<and> slot_time b s' sl = slot_time b s sl" if "sl \<in> set sls" for sl
  proof -
    have "set sl \<subseteq> set (concat sls)" using that by auto
    moreover have "slot s sl" using S(1) that by blast
    ultimately show ?thesis using slot_cong [of s sl s'] slot_hd [of s sl] assms(5) unfolding slot_time_def by (metis subsetD)
  qed
  have "sorted_wrt (\<lambda>x y. slot_time b s' x < slot_time b s' y) sls" by (rule sorted_wrt_mono_rel [OF _ S(3)]) (simp add: sl)
  moreover have "\<forall>x\<in>set (concat sls). near b (e_target s' x)" using S(4) assms(5) by metis
  ultimately show ?thesis unfolding slots_def using assms(6) S(2) sl by blast
qed

definition due :: "U32 \<Rightarrow> U32 \<Rightarrow> equeue \<Rightarrow> ptr \<Rightarrow> bool" where
  "due b t s x \<longleftrightarrow> after b (e_target s x) \<le> after b t"

lemma dequeue_slots:
  assumes S: "slots b s sls" and t: "near b t"
  obtains h s' sls' where "equeue_dequeue t s = Some (h, s')"
    "chain (e_next s') h (takeWhile (due b t s) (order sls)) NULL" "slots b s' sls'" "order sls' = dropWhile (due b t s) (order sls)"
    "s' = s\<lparr>q_generation := q_generation s + 1, q_tick := if equeue_tickdiff (q_tick s) t \<le> 0 then t else q_tick s,
      q_queue := q_queue s', e_next := e_next s', e_ref := e_ref s'\<rparr>"
proof -
  define E where "E = takeWhile (\<lambda>sl. slot_time b s sl \<le> after b t) sls"
  define R where "R = dropWhile (\<lambda>sl. slot_time b s sl \<le> after b t) sls"
  define s1 where "s1 = s\<lparr>q_generation := q_generation s + 1, q_tick := if equeue_tickdiff (q_tick s) t \<le> 0 then t else q_tick s\<rparr>"
  have ER: "sls = E @ R" by (simp add: E_def R_def)
  have S': "chain (e_next s) (q_queue s) (map hd (E @ R)) NULL" "\<forall>sl\<in>set sls. slot s sl" "distinct (concat sls)"
    "sorted_wrt (\<lambda>x y. slot_time b s x < slot_time b s y) sls" "\<forall>x\<in>set (concat sls). near b (e_target s x)"
    using S unfolding slots_def ER by blast+
  define rest where "rest = (case R of [] \<Rightarrow> NULL | sl # _ \<Rightarrow> hd sl)"
  define p where "p = (case rev E of [] \<Rightarrow> None | sl # _ \<Rightarrow> Some (hd sl))"
  have hm: "hd sl \<in> set (concat sls)" if "sl \<in> set sls" for sl using slot_hd S'(2) that by fastforce
  have n: "\<forall>sl\<in>set sls. near b (e_target s1 (hd sl))" using S'(5) hm by (simp add: s1_def del: set_concat)
  have st: "slot_time b s1 = slot_time b s" by (simp add: s1_def slot_time_def fun_eq_iff)
  have c0: "chain (e_next s1) (q_queue s) (map hd sls) NULL" using S'(1) by (simp add: s1_def ER)
  have ee: "expired_end t None (q_queue s) s1 = Some (p, rest)"
    using expired_end_ok [OF t c0 n, of None] unfolding st E_def [symmetric] R_def [symmetric] p_def rest_def .
  define rf where "rf = (if rest \<noteq> NULL then (e_ref s)(rest := AT_QUEUE) else e_ref s)"
  define nx where "nx = (if E = [] then e_next s else (e_next s)(hd (last E) := NULL))"
  define head where "head = (if E = [] then NULL else q_queue s)"
  define s3 where "s3 = s1\<lparr>q_queue := rest, e_ref := rf, e_next := nx\<rparr>"
  have eq: "equeue_dequeue t s = flatten head None head s3"
    using ee by (cases E rule: rev_cases)
      (auto simp: equeue_dequeue_def Let_def s1_def s3_def rf_def nx_def head_def p_def set_ref_def)
  have inE: "set E \<subseteq> set sls" "set R \<subseteq> set sls" by (auto simp: ER)
  have dj: "set (concat E) \<inter> set (concat R) = {}" "distinct (concat E)" using S'(3) by (auto simp: ER)
  have hR: "hd sl \<in> set (concat R)" if "sl \<in> set R" for sl using slot_hd S'(2) that inE(2) by fastforce
  have hE: "hd sl \<in> set (concat E)" if "sl \<in> set E" for sl using slot_hd S'(2) that inE(1) by fastforce
  have cE: "chain nx head (map hd E) NULL"
  proof (cases E rule: rev_cases)
    case Nil
    then show ?thesis by (simp add: head_def)
  next
    case (snoc C c)
    have "distinct (map hd E)" by (rule heads_distinct [of b s]) (use S'(4) in \<open>simp add: ER sorted_wrt_append\<close>)
    moreover have "chain (e_next s) (q_queue s) (map hd C @ hd c # map hd R) NULL" using S'(1) by (simp add: snoc)
    ultimately show ?thesis
      using chain_splice [of "e_next s" "q_queue s" "map hd C" "hd c" "map hd R" NULL "[]"] by (simp add: snoc nx_def head_def)
  qed
  have cR: "chain nx rest (map hd R) NULL"
  proof -
    have "chain (e_next s) rest (map hd R) NULL"
      using deref_end(2) [OF S'(1)] unfolding deref_end(1) [OF S'(1)] rest_def .
    moreover have "nx x = e_next s x" if "x \<in> set (map hd R)" for x
    proof -
      have "x \<in> set (concat R)" using that hR by (auto simp del: set_concat)
      moreover have "E \<noteq> [] \<Longrightarrow> hd (last E) \<in> set (concat E)" using hE last_in_set by blast
      ultimately show ?thesis using dj(1) by (auto simp: nx_def simp del: set_concat)
    qed
    ultimately show ?thesis using chain_cong [of "map hd R" nx "e_next s"] by blast
  qed
  have "\<forall>sl\<in>set E. slot s3 sl" 
    using S'(2) inE(1) slot_cong [of s _ s3] by (fastforce simp: s3_def s1_def)
  then obtain h nx' where f: "flatten head None head s3 = Some (h, s3\<lparr>e_next := nx'\<rparr>)" "chain nx' h (order E) NULL"
    "\<forall>x. x \<notin> set (concat E) \<longrightarrow> nx' x = nx x"
    using flatten_ok [of s3 head E "[]" None head] cE dj(2) by (auto simp: s3_def head_def)
  have cR': "chain nx' rest (map hd R) NULL"
    using cR chain_cong [of "map hd R" nx' nx] f(3) hR dj(1) by (metis (no_types, lifting) disjoint_iff imageE list.set_map)
  have R: "slots b (s3\<lparr>e_next := nx'\<rparr>) R"
    by (rule slots_intro [of _ s]) (use S' cR' in \<open>simp_all add: ER sorted_wrt_append s3_def s1_def\<close>)
  have l: "\<forall>sl\<in>set E. slot_time b s sl \<le> after b t" by (auto simp: E_def dest: set_takeWhileD)
  have g: "\<forall>sl\<in>set R. after b t < slot_time b s sl"
  proof (cases R)
    case (Cons sl C)
    then have "after b t < slot_time b s sl" using hd_dropWhile [of "\<lambda>sl. slot_time b s sl \<le> after b t" sls] by (simp add: R_def [symmetric] not_le)
    moreover have "sorted_wrt (\<lambda>x y. slot_time b s x < slot_time b s y) (sl # C)" using S'(4) by (simp add: ER Cons sorted_wrt_append)
    ultimately show ?thesis by (auto simp: Cons intro: less_trans)
  qed simp
  have td: "after b (e_target s x) = slot_time b s sl" if "sl \<in> set sls" "x \<in> set sl" for x sl
    using slot_target S'(2) that by blast
  have "takeWhile (due b t s) (order E @ order R) = order E \<and> dropWhile (due b t s) (order E @ order R) = order R"
  proof (rule tw_split)
    show "\<forall>x\<in>set (order E). due b t s x" using td l inE(1) by (fastforce simp: due_def)
    show "\<forall>x\<in>set (order R). \<not> due b t s x" using td g inE(2) by (fastforce simp: due_def)
  qed
  then have tw: "takeWhile (due b t s) (order sls) = order E" "dropWhile (due b t s) (order sls) = order R" by (simp_all add: ER)
  show thesis
    by (rule that [of h "s3\<lparr>e_next := nx'\<rparr>" R]) (use eq f R tw in \<open>simp_all add: s3_def s1_def\<close>)
qed


section \<open>Identifiers\<close>

text \<open>An identifier holds the local id of the event and its offset in the buffer.\<close>

definition encode :: "nat \<Rightarrow> U8 \<Rightarrow> U32 \<Rightarrow> U32" where
  "encode n i off = push_bit n (ucast i) OR off"

lemma take_bit_offset: "unat (off :: U32) < 2 ^ n \<Longrightarrow> take_bit n off = off"
  by (simp add: word_unat_eq_iff unsigned_take_bit_eq take_bit_nat_eq_self_iff)

lemma encode_offset:
  assumes "unat off < 2 ^ n"
  shows "encode n i off AND (push_bit n 1 - 1) = off"
proof -
  have m: "push_bit n 1 - 1 = (mask n :: U32)" by (simp add: mask_eq_exp_minus_1 push_bit_eq_mult)
  have t: "bit off k \<Longrightarrow> k < n" for k using take_bit_offset [OF assms] by (metis bit_take_bit_iff)
  show ?thesis unfolding m encode_def by (rule bit_word_eqI) (use t in \<open>auto simp: bit_simps\<close>)
qed

lemma encode_unat:
  assumes "n \<le> 23" "unat off < 2 ^ n"
  shows "unat (encode n i off) = unat i * 2 ^ n + unat off" "unat (encode n i off) < 2147483648"
proof -
  have t: "bit off k \<Longrightarrow> k < n" for k using take_bit_offset [OF assms(2)] by (metis bit_take_bit_iff)
  have "push_bit n (ucast i :: U32) AND off = 0" by (rule bit_word_eqI) (auto simp: bit_simps dest: t)
  then have e: "encode n i off = push_bit n (ucast i) + off" unfolding encode_def by (rule disjunctive_add_eq_or [symmetric])
  have p: "(2 :: nat) ^ n \<le> 8388608" using power_increasing [OF assms(1), of "2 :: nat"] by simp
  have "unat i \<le> 255" using unat_u8 [of i] by linarith
  then have b: "unat i * 2 ^ n \<le> 255 * 8388608" by (rule mult_le_mono) (rule p)
  have u: "unat (push_bit n (ucast i :: U32)) = unat i * 2 ^ n"
    unfolding unsigned_push_bit_eq using b by (simp add: push_bit_eq_mult take_bit_nat_eq_self_iff)
  show "unat (encode n i off) = unat i * 2 ^ n + unat off" unfolding e using u b assms(2) p by (subst unat_add_u32) auto
  then show "unat (encode n i off) < 2147483648" using b assms(2) p by simp
qed

lemma encode_id:
  assumes "n \<le> 23" "unat off < 2 ^ n"
  shows "drop_bit n (sint (encode n i off)) = int (unat i)"
proof -
  have "sint (encode n i off) = int (unat i * 2 ^ n + unat off)" using encode_unat [OF assms] by (simp add: sint_u32)
  then have "drop_bit n (sint (encode n i off)) = int ((unat i * 2 ^ n + unat off) div 2 ^ n)"
    by (simp only: drop_bit_eq_div of_nat_div of_nat_power of_nat_numeral)
  also have "(unat i * 2 ^ n + unat off) div 2 ^ n = unat i" using assms(2) by simp
  finally show ?thesis .
qed

text \<open>The event of an identifier, and whether it still is the event that it was given for.\<close>

definition event_of :: "equeue \<Rightarrow> U32 \<Rightarrow> ptr" where
  "event_of s i = pointer (q_buffer s + (i AND (push_bit (unat (q_npw2 s)) 1 - 1)))"

definition in_buffer :: "equeue \<Rightarrow> ptr \<Rightarrow> bool" where
  "in_buffer s e \<longleftrightarrow> e \<noteq> NULL \<and> e = pointer (address e) \<and> unat (q_npw2 s) \<le> 23 \<and>
     unat (address e - q_buffer s) < 2 ^ unat (q_npw2 s)"

lemma id_of_event:
  assumes "in_buffer s e" "i = encode (unat (q_npw2 s)) k (address e - q_buffer s)"
  shows "event_of s i = e" "int (unat (e_id s e)) = drop_bit (unat (q_npw2 s)) (sint i) \<longleftrightarrow> e_id s e = k"
proof -
  have b: "unat (q_npw2 s) \<le> 23" "unat (address e - q_buffer s) < 2 ^ unat (q_npw2 s)" "e = pointer (address e)"
    using assms(1) unfolding in_buffer_def by blast+
  show "event_of s i = e" unfolding event_of_def assms(2) encode_offset [OF b(2)] using b(3) by simp
  show "int (unat (e_id s e)) = drop_bit (unat (q_npw2 s)) (sint i) \<longleftrightarrow> e_id s e = k"
    unfolding assms(2) encode_id [OF b(1,2)] by (simp only: of_nat_eq_iff word_unat_eq_iff)
qed

text \<open>A stale identifier is refused and changes nothing.\<close>

lemma cancel_stale:
  assumes "in_buffer s e" "i = encode (unat (q_npw2 s)) k (address e - q_buffer s)" "e_id s e \<noteq> k"
  shows "equeue_cancel i s = Some s"
proof -
  have "equeue_unqueue i s = (NULL, s)"
    unfolding equeue_unqueue_def event_of_def [symmetric] Let_def using id_of_event [OF assms(1,2)] assms(3) by simp
  then show ?thesis by (simp add: equeue_cancel_def)
qed


text \<open>A local id that is counted up is another one.\<close>

lemma incid_eq: "unat (q_npw2 s) \<le> 23 \<Longrightarrow> e_id (equeue_incid e s) = (e_id s)(e := if e_id s e = - 1 then 1 else e_id s e + 1)"
proof -
  assume n: "unat (q_npw2 s) \<le> 23"
  have "push_bit (unat (q_npw2 s)) (ucast x :: U32) = 0 \<longleftrightarrow> x = 0" for x :: U8
    using encode_unat(1) [OF n, of 0 x] by (auto simp: encode_def word_unat_eq_iff)
  moreover have "e_id s e + 1 = 0 \<longleftrightarrow> e_id s e = - 1" by (simp add: eq_neg_iff_add_eq_0)
  ultimately show ?thesis by (simp add: equeue_incid_def Let_def)
qed

lemma incid_changes: "unat (q_npw2 s) \<le> 23 \<Longrightarrow> e_id (equeue_incid e s) e \<noteq> e_id s e"
  by (simp add: incid_eq)

section \<open>Cancelling\<close>

text \<open>The first event of a slot is taken out, when its reference is right.\<close>

lemma unlink_event_fields:
  assumes "e_ref s e = AT_QUEUE \<or> (\<exists>c. e_ref s e = AT_NEXT c)"
  shows "e_sibling (unlink_event e s) = e_sibling s" "e_target (unlink_event e s) = e_target s" "fixed (unlink_event e s) = fixed s"
    "e_sibling s e = NULL \<Longrightarrow> q_queue (unlink_event e s) = q_queue (assign (e_ref s e) (e_next s e) s)"
    "e_sibling s e = NULL \<Longrightarrow> e_next (unlink_event e s) = e_next (assign (e_ref s e) (e_next s e) s)"
    "e_sibling s e = y \<Longrightarrow> y \<noteq> NULL \<Longrightarrow> e_next s e \<noteq> e \<Longrightarrow> s1 = s\<lparr>e_next := (e_next s)(y := e_next s e)\<rparr> \<Longrightarrow>
      q_queue (unlink_event e s) = q_queue (assign (e_ref s e) y s1) \<and> e_next (unlink_event e s) = e_next (assign (e_ref s e) y s1)"
  using assms by (auto simp: unlink_event_def Let_def)

lemma unlink_head:
  assumes S: "slots b s (A @ (e # sl) # B)" and r: "e_ref s e = end_of A"
  shows "slots b (unlink_event e s) (A @ (if sl = [] then B else sl # B))"
    "order (A @ (if sl = [] then B else sl # B)) = remove1 e (order (A @ (e # sl) # B))"
    "e_target (unlink_event e s) = e_target s"
proof -
  let ?s = "unlink_event e s"
  have S': "chain (e_next s) (q_queue s) (map hd A @ e # map hd B) NULL" "\<forall>x\<in>set (A @ (e # sl) # B). slot s x"
    "distinct (concat (A @ (e # sl) # B))" "sorted_wrt (\<lambda>x y. slot_time b s x < slot_time b s y) (A @ (e # sl) # B)"
    "\<forall>x\<in>set (concat (A @ (e # sl) # B)). near b (e_target s x)" using S by (simp_all add: slots_def)
  note hd = heads_distinct [OF S'(4)]
  have r': "e_ref s e = AT_QUEUE \<or> (\<exists>c. e_ref s e = AT_NEXT c)" using r end_of_cases [of A] by auto
  note f = unlink_event_fields [OF r']
  have c: "chain (e_next s) (e_next s e) (map hd B) NULL" "e \<noteq> NULL" using S'(1) by (auto simp: chain_append)
  have eB: "e \<notin> set (map hd B)" "distinct (map hd A)" "\<forall>x\<in>set A. e \<noteq> hd x" "\<forall>x\<in>set A. hd x \<notin> set (map hd B)" using hd by auto
  have en: "e_next s e \<noteq> e" using c eB(1) by (cases B) auto
  show "order (A @ (if sl = [] then B else sl # B)) = remove1 e (order (A @ (e # sl) # B))"
    using S'(3) by (auto simp: remove1_append)
  show "e_target ?s = e_target s" by (rule f(2))
  have sib: "chain (e_sibling s) (e_sibling s e) sl NULL" using S'(2) by (simp add: slot_def)
  show "slots b ?s (A @ (if sl = [] then B else sl # B))"
  proof (cases sl)
    case Nil
    have ch: "chain (e_next ?s) (q_queue ?s) (map hd A @ map hd B) NULL"
    proof (cases A rule: rev_cases)
      case Nil
      then show ?thesis using f(4,5) sib \<open>sl = []\<close> c(1) r by (simp add: end_of_def)
    next
      case (snoc C x)
      have "chain ((e_next s)(hd x := e_next s e)) (q_queue s) (map hd C @ hd x # map hd B) NULL"
        by (rule chain_splice [of _ _ _ _ "e # map hd B"]) (use S'(1) c eB in \<open>auto simp: snoc\<close>)
      then show ?thesis using f(4,5) sib \<open>sl = []\<close> r by (simp add: end_of_def snoc)
    qed
    show ?thesis
      by (rule slots_intro [of _ s]) (use S' f(1,2) ch Nil in \<open>auto simp: sorted_wrt_append\<close>)
  next
    case (Cons y ys)
    let ?s1 = "s\<lparr>e_next := (e_next s)(y := e_next s e)\<rparr>"
    have y: "e_sibling s e = y" "y \<noteq> NULL" using sib Cons by auto
    have "hd x \<in> set x" if "x \<in> set A \<union> set B" for x using slot_hd S'(2) that by fastforce
    then have yn: "y \<notin> set (map hd A)" "y \<notin> set (map hd B)" using S'(3) by (fastforce simp: Cons)+
    have ya: "y \<notin> set (map hd A @ e # map hd B)" using yn S'(3) Cons by auto
    have ch: "chain (e_next (assign (end_of A) y ?s1)) (q_queue (assign (end_of A) y ?s1)) (map hd A @ y # map hd B) NULL"
    proof (rule assign_end)
      show "chain (e_next ?s1) (q_queue ?s1) (map hd A @ e # map hd B) NULL"
        using S'(1) chain_upd_other [OF ya] by simp
    qed (use c eB yn y in auto)
    have "slot s (e # y # ys)" using S'(2) Cons by simp
    then have tg: "e_target s x = e_target s e" if "x \<in> set (y # ys)" for x using that unfolding slot_def by fastforce
    have ss: "slot s (y # ys)" "slot_time b s (y # ys) = slot_time b s (e # y # ys)"
      using sib tg tg [of y] y by (simp_all add: slot_def slot_time_def Cons)
    show ?thesis
      by (rule slots_intro [of _ s]) (use S' f(1,2) f(6) [OF y en refl] ch Cons ss r in \<open>auto simp: sorted_wrt_append\<close>)
  qed
qed


text \<open>An event that has just been posted is taken out again by its identifier.\<close>

lemma fixed_fields:
  assumes "fixed s' = fixed s"
  shows "q_tick s' = q_tick s" "q_generation s' = q_generation s" "q_npw2 s' = q_npw2 s" "q_buffer s' = q_buffer s"
    "q_chunks s' = q_chunks s" "e_id s' = e_id s" "e_period s' = e_period s" "e_cb s' = e_cb s" "e_size s' = e_size s"
  using assms by (auto simp: fixed_def)

lemma slots_fields [simp]:
  "slots b (s\<lparr>e_cb := c\<rparr>) sls = slots b s sls" "slots b (s\<lparr>e_period := p\<rparr>) sls = slots b s sls"
  "slots b (equeue_incid e s) sls = slots b s sls"
  by (simp_all add: slots_def slot_def slot_time_def equeue_incid_def Let_def)

lemma remove1_ins_prio: "x \<notin> set xs \<Longrightarrow> remove1 x (ins_prio pr x xs) = xs"
  by (auto simp: ins_prio_def remove1_append dest: set_takeWhileD)

lemma enqueue_unqueue:
  assumes S: "slots b s sls" and e: "in_buffer s e" "e \<notin> set (concat sls)" and t: "t = clamped (e_target s e) tick" "near b t"
    and q: "near b (q_tick s)" "after b (q_tick s) \<le> after b t"
  obtains i s1 s2 sls' where "equeue_enqueue e tick s = Some (i, s1)" "equeue_unqueue i s1 = (e, s2)"
    "slots b s2 sls'" "order sls' = order sls" "equeue_cancel i s2 = Some s2"
proof -
  have e0: "e \<noteq> NULL" using e(1) by (simp add: in_buffer_def)
  obtain s1 sls1 A sl B where s1: "equeue_enqueue e tick s = Some (encode (unat (q_npw2 s)) (e_id s e) (address e - q_buffer s), s1)"
    "slots b s1 sls1" "order sls1 = ins_prio (urgent b s1) e (order sls)" "e_target s1 = (e_target s)(e := t)"
    "e_generation s1 = (e_generation s)(e := q_generation s)" "fixed s1 = fixed s" "sls1 = A @ (e # sl) # B" "e_ref s1 e = end_of A"
    using enqueue_slots [OF S e0 e(2) t] unfolding encode_def by metis
  note f = fixed_fields [OF s1(6)]
  let ?i = "encode (unat (q_npw2 s)) (e_id s e) (address e - q_buffer s)"
  let ?s = "s1\<lparr>e_cb := (e_cb s1)(e := NO_CB), e_period := (e_period s1)(e := - 1)\<rparr>"
  have b1: "in_buffer s1 e" using e(1) f by (simp add: in_buffer_def)
  have i: "?i = encode (unat (q_npw2 s1)) (e_id s e) (address e - q_buffer s1)" using f by simp
  note id = id_of_event [OF b1 i]
  have d: "equeue_tickdiff t (q_tick s) = int (after b t) - int (after b (q_tick s))"
    unfolding equeue_tickdiff_def by (rule near_diff [OF t(2) q(1)])
  have u: "equeue_unqueue ?i s1 = (e, equeue_incid e (unlink_event e ?s))"
    unfolding equeue_unqueue_def event_of_def [symmetric] Let_def using id f s1(4,5) d q(2) by auto
  have S1: "slots b ?s (A @ (e # sl) # B)" and r: "e_ref ?s e = end_of A" using s1(2,7,8) by simp_all
  note un = unlink_head [OF S1 r]
  have "order (A @ (if sl = [] then B else sl # B)) = order sls"
    unfolding un(2) s1(7) [symmetric] s1(3) by (rule remove1_ins_prio) (use e(2) in simp)
  moreover have "equeue_cancel ?i (equeue_incid e (unlink_event e ?s)) = Some (equeue_incid e (unlink_event e ?s))"
  proof (rule cancel_stale)
    have "e_ref ?s e = AT_QUEUE \<or> (\<exists>c. e_ref ?s e = AT_NEXT c)" using r end_of_cases [of A] by auto
    from fixed_fields [OF unlink_event_fields(3) [OF this]]
    have g: "q_npw2 (unlink_event e ?s) = q_npw2 s" "q_buffer (unlink_event e ?s) = q_buffer s" "e_id (unlink_event e ?s) = e_id s"
      using f by simp_all
    show "in_buffer (equeue_incid e (unlink_event e ?s)) e"
      using e(1) g by (simp add: in_buffer_def equeue_incid_def Let_def)
    show "?i = encode (unat (q_npw2 (equeue_incid e (unlink_event e ?s)))) (e_id s e) (address e - q_buffer (equeue_incid e (unlink_event e ?s)))"
      using g by (simp add: equeue_incid_def Let_def)
    show "e_id (equeue_incid e (unlink_event e ?s)) e \<noteq> e_id s e"
      using incid_changes [of "unlink_event e ?s" e] g e(1) by (simp add: in_buffer_def)
  qed
  ultimately show thesis using that [OF s1(1) u] un(1) by simp
qed


section \<open>Creation and destruction\<close>

lemma create_slots: "slots b (equeue_create_inplace now sz buffer s) []"
  by (simp add: slots_def equeue_create_inplace_def)

text \<open>The number of bits of the size of the buffer: every offset has fewer.\<close>

lemma npw2_loop_ok: "unat sz < 2 ^ j \<Longrightarrow> unat n + j \<le> 1000 \<Longrightarrow>
    unat n \<le> unat (npw2_loop sz n) \<and> unat (npw2_loop sz n) \<le> unat n + j \<and> unat sz < 2 ^ (unat (npw2_loop sz n) - unat n)"
proof (induction j arbitrary: sz n)
  case 0
  then have "sz = 0" by (simp add: word_unat_eq_iff)
  then show ?case by (simp add: npw2_loop.simps)
next
  case (Suc j)
  show ?case
  proof (cases "sz = 0")
    case False
    have d: "unat (drop_bit 1 sz) = unat sz div 2" by (simp add: drop_bit_Suc unat_div)
    have n: "unat (n + 1) = unat n + 1" using Suc.prems(2) by (subst unat_add_u32) auto
    have r: "npw2_loop sz n = npw2_loop (drop_bit 1 sz) (n + 1)" using False by (subst npw2_loop.simps) simp
    have "unat (drop_bit 1 sz) < 2 ^ j" using Suc.prems(1) unfolding d by simp
    from Suc.IH [OF this, of "n + 1"] have ih: "unat n + 1 \<le> unat (npw2_loop sz n)" "unat (npw2_loop sz n) \<le> unat n + Suc j"
      "unat sz div 2 < 2 ^ (unat (npw2_loop sz n) - (unat n + 1))" using Suc.prems(2) unfolding r [symmetric] n d by auto
    have "unat (npw2_loop sz n) - unat n = Suc (unat (npw2_loop sz n) - (unat n + 1))" using ih(1) by simp
    then have "unat sz < 2 ^ (unat (npw2_loop sz n) - unat n)" using ih(3) by simp
    then show ?thesis using ih by simp
  qed (simp add: npw2_loop.simps)
qed

text \<open>Every place in a buffer of less than 8 MB has an offset that fits beside the local id.\<close>

lemma create_in_buffer:
  assumes "unat sz < 8388608" "s = equeue_create_inplace now sz buffer s0" "a \<noteq> 0" "unat (a - buffer) < unat sz"
  shows "in_buffer s (CB a)"
proof -
  have "unat sz < 2 ^ 23" using assms(1) by simp
  from npw2_loop_ok [OF this, of 0] show ?thesis
    using assms by (simp add: in_buffer_def equeue_create_inplace_def pointer_def)
qed

definition dtors :: "equeue \<Rightarrow> ptr list \<Rightarrow> effect list" where
  "dtors s sl = map (\<lambda>e. Dtor (e_dtor s e) e) (filter (\<lambda>e. e_dtor s e \<noteq> 0) sl)"

lemma destroy_slot_ok:
  "chain (e_sibling s) e sl NULL \<Longrightarrow> destroy_slot e s = Some (s\<lparr>q_log := q_log s @ dtors s sl\<rparr>)"
proof (induction sl arbitrary: e s)
  case Nil
  then show ?case by (subst destroy_slot.simps) (simp add: dtors_def)
next
  case (Cons x sl)
  let ?s = "if e_dtor s x \<noteq> 0 then emit (Dtor (e_dtor s x) x) s else s"
  have c: "e = x" "x \<noteq> NULL" "chain (e_sibling ?s) (e_sibling ?s x) sl NULL" using Cons.prems by (auto simp: emit_def)
  have "destroy_slot e s = destroy_slot (e_sibling ?s x) ?s" using c(1,2) by (subst destroy_slot.simps) (simp add: Let_def)
  then show ?case unfolding Cons.IH [OF c(3)] by (simp add: dtors_def emit_def)
qed

text \<open>The destructors of the first slot are called once for each slot, and no others.\<close>

lemma destroy_slots_ok:
  "chain (e_next s) es hs NULL \<Longrightarrow> chain (e_sibling s) (q_queue s) sl NULL \<Longrightarrow>
    destroy_slots es s = Some (s\<lparr>q_log := q_log s @ concat (replicate (length hs) (dtors s sl))\<rparr>)"
proof (induction hs arbitrary: es s)
  case Nil
  then show ?case by (subst destroy_slots.simps) simp
next
  case (Cons h hs)
  let ?s = "s\<lparr>q_log := q_log s @ dtors s sl\<rparr>"
  have c: "es = h" "h \<noteq> NULL" "chain (e_next ?s) (e_next ?s h) hs NULL" "chain (e_sibling ?s) (q_queue ?s) sl NULL" using Cons.prems by auto
  have "destroy_slots es s = destroy_slots (e_next ?s h) ?s"
    using c(1,2) destroy_slot_ok [OF Cons.prems(2)] by (subst destroy_slots.simps) simp
  then show ?case unfolding Cons.IH [OF c(3,4)] by (simp add: dtors_def)
qed

lemma destroy_ok:
  assumes "slots b s (sl # sls)" "\<not> bg_update s"
  shows "equeue_destroy s = Some (s\<lparr>q_log := q_log s @ concat (replicate (Suc (length sls)) (dtors s sl))\<rparr>)"
proof -
  have "chain (e_next s) (q_queue s) (map hd (sl # sls)) NULL" using assms(1) unfolding slots_def by blast
  moreover have "chain (e_sibling s) (q_queue s) sl NULL" using slots_Cons [OF assms(1)] unfolding slot_def by metis
  ultimately have "destroy_slots (q_queue s) s = Some (s\<lparr>q_log := q_log s @ concat (replicate (length (map hd (sl # sls))) (dtors s sl))\<rparr>)"
    by (rule destroy_slots_ok)
  then show ?thesis using assms(2) by (simp add: equeue_destroy_def)
qed


section \<open>Cancelling an event that is not the first of its slot\<close>

text \<open>The link \<open>next\<close> of an event is not cleared when another event is put before it into its slot.  When
  such an event is cancelled and is the last of its slot, the event of a later slot becomes the sibling
  of the one before.\<close>

lemma cancel_second:
  assumes S: "slots b s ([z] # B)" and e: "in_buffer s e" "e \<notin> set (concat ([z] # B))"
    and y: "y \<noteq> NULL" "y \<noteq> e" "y \<notin> set (concat ([z] # B))"
    and t: "t = clamped (e_target s e) tick" "t = clamped (e_target s y) tick" "near b t"
    and z: "after b t < after b (e_target s z)" and q: "near b (q_tick s)" "after b (q_tick s) \<le> after b t"
  obtains i s1 i2 s2 s3 where "equeue_enqueue e tick s = Some (i, s1)" "equeue_enqueue y tick s1 = Some (i2, s2)"
    "equeue_unqueue i s2 = (e, s3)" "e_sibling s3 y = z" "e_next s3 y = z" "q_queue s3 = y" "e_sibling s3 z = NULL"
    "e_target s3 y = t" "e_target s3 z = e_target s z" "q_tick s3 = q_tick s" "y \<noteq> z" "z \<noteq> NULL"
proof -
  have e0: "e \<noteq> NULL" using e(1) by (simp add: in_buffer_def)
  have zz: "e \<noteq> z" "y \<noteq> z" using e(2) y(3) by auto
  have sz: "slot s [z]" using slots_Cons [OF S] by blast
  then have z0: "z \<noteq> NULL" "e_sibling s z = NULL" by (auto simp: slot_def)
  have st: "\<not> slot_time b s [z] < after b t" using z by (simp add: slot_time_def)
  have zt: "e_target s z \<noteq> t" using z by auto
  obtain s1 where s1: "equeue_enqueue e tick s = Some (push_bit (unat (q_npw2 s)) (ucast (e_id s e)) OR (address e - q_buffer s), s1)"
    "q_queue s1 = e" "e_next s1 = (e_next s)(e := z)" "e_sibling s1 = (e_sibling s)(e := NULL)" "e_target s1 = (e_target s)(e := t)"
    "e_generation s1 = (e_generation s)(e := q_generation s)" "fixed s1 = fixed s"
    by (rule enqueue_state [OF S e0 e(2) t(1,3) refl refl refl refl refl refl refl]) (use st zt z0 in \<open>simp add: end_of_def\<close>)
  have "put_slot b s t e ([z] # B) = [e] # [z] # B" using st zt by (simp add: put_slot_def slot_time_def after_eq)
  moreover obtain s1' sls' where "equeue_enqueue e tick s = Some (push_bit (unat (q_npw2 s)) (ucast (e_id s e)) OR (address e - q_buffer s), s1')"
    "slots b s1' sls'" "sls' = put_slot b s t e ([z] # B)"
    by (rule enqueue_slots [OF S e0 e(2) t(1,3)])
  ultimately have S1: "slots b s1 ([e] # [z] # B)" using s1(1) by simp
  have y1: "y \<notin> set (concat ([e] # [z] # B))" "t = clamped (e_target s1 y) tick" "e_target s1 e = t" using y t(2) s1(5) by auto
  have st1: "\<not> slot_time b s1 [e] < after b t" using y1(3) by (simp add: slot_time_def)
  obtain s2 where s2: "equeue_enqueue y tick s1 = Some (push_bit (unat (q_npw2 s1)) (ucast (e_id s1 y)) OR (address y - q_buffer s1), s2)"
    "q_queue s2 = y" "e_next s2 = (e_next s1)(y := z)" "e_sibling s2 = (e_sibling s1)(y := e)" "e_target s2 = (e_target s1)(y := t)"
    "fixed s2 = fixed s1" "e_generation s2 = (e_generation s1)(y := q_generation s1)" "e_ref s2 e = AT_SIBLING y"
    by (rule enqueue_state [OF S1 y(1) y1(1,2) t(3) refl refl refl refl refl refl refl]) (use st1 y1(3) e0 s1(3) in \<open>simp add: end_of_def\<close>)
  let ?i = "encode (unat (q_npw2 s)) (e_id s e) (address e - q_buffer s)"
  have fx: "fixed s2 = fixed s" using s1(7) s2(6) by simp
  note f = fixed_fields [OF fx]
  have b2: "in_buffer s2 e" using e(1) f by (simp add: in_buffer_def)
  have i: "?i = encode (unat (q_npw2 s2)) (e_id s e) (address e - q_buffer s2)" using f by simp
  note id = id_of_event [OF b2 i]
  let ?s = "s2\<lparr>e_cb := (e_cb s2)(e := NO_CB), e_period := (e_period s2)(e := - 1)\<rparr>"
  have d: "equeue_tickdiff t (q_tick s) = int (after b t) - int (after b (q_tick s))"
    unfolding equeue_tickdiff_def by (rule near_diff [OF t(3) q(1)])
  have v: "e_target s2 e = t" "e_generation s2 e = q_generation s2" "e_sibling s2 e = NULL" "e_next s2 e = z"
    using s1 s2 y(2) f(2) fixed_fields(2) [OF s1(7)] by simp_all
  have u: "equeue_unqueue ?i s2 = (e, equeue_incid e (unlink_event e ?s))"
    unfolding equeue_unqueue_def event_of_def [symmetric] Let_def using id f(1,6) v(1,2) d q(2) by auto
  have w: "e_sibling (unlink_event e ?s) = (e_sibling s2)(y := z)" "e_next (unlink_event e ?s) = e_next s2"
    "q_queue (unlink_event e ?s) = y" "e_target (unlink_event e ?s) = e_target s2" "q_tick (unlink_event e ?s) = q_tick s"
    using v(3,4) s2(2,8) f(1) z0 by (simp_all add: unlink_event_def Let_def set_ref_def)
  show thesis
    by (rule that [OF s1(1) s2(1) u [unfolded encode_def]])
      (use w s1 s2 z0 zz y(2) in \<open>simp_all add: equeue_incid_def Let_def\<close>)
qed

text \<open>Dequeuing then returns the later event first, and keeps it in the queue.\<close>

lemma dequeue_merged:
  assumes "q_queue s = y" "y \<noteq> NULL" "z \<noteq> NULL" "y \<noteq> z" "e_sibling s y = z" "e_next s y = z" "e_sibling s z = NULL"
    "e_target s y = t" "near b t" "near b (e_target s z)" "after b t < after b (e_target s z)"
  shows "\<exists>s'. equeue_dequeue t s = Some (z, s') \<and> e_next s' z = y \<and> e_next s' y = NULL \<and> q_queue s' = z"
proof -
  define s1 where "s1 = (if equeue_tickdiff (q_tick s) t \<le> 0 then s\<lparr>q_generation := q_generation s + 1, q_tick := t\<rparr>
    else s\<lparr>q_generation := q_generation s + 1\<rparr>)"
  have f: "q_queue s1 = y" "e_next s1 = e_next s" "e_sibling s1 = e_sibling s" "e_target s1 = e_target s" using assms(1) by (simp_all add: s1_def)
  have z: "\<not> equeue_tickdiff (e_target s z) t \<le> 0" using near_diff [OF assms(10,9)] assms(11) by (simp add: equeue_tickdiff_def)
  have y: "equeue_tickdiff (e_target s y) t \<le> 0" by (simp add: equeue_tickdiff_def assms(8))
  have e: "expired_end t None y s1 = Some (Some y, z)"
    using f z y assms(2-4,6) by (subst expired_end.simps, simp, subst expired_end.simps, simp)
  let ?s2 = "s1\<lparr>q_queue := z, e_ref := (e_ref s1)(z := AT_QUEUE), e_next := (e_next s)(y := NULL)\<rparr>"
  have "chain (e_sibling ?s2) y [y, z] NULL" "distinct [y, z]" "set [y, z] \<inter> set [] = {}" "chain (e_next ?s2) NULL [] NULL"
    using f assms by simp_all
  from reverse_slot_ok [OF this] obtain h nx where r: "reverse_slot NULL y ?s2 = Some (h, ?s2\<lparr>e_next := nx\<rparr>)"
    "chain nx h (rev [y, z] @ []) NULL" by blast
  have "equeue_dequeue t s = flatten y None y ?s2"
    using e f assms(1,3) by (simp add: equeue_dequeue_def Let_def s1_def set_ref_def)
  also have "\<dots> = flatten h (Some y) NULL (?s2\<lparr>e_next := nx\<rparr>)" using r(1) assms(2) by (subst flatten.simps) (simp add: Let_def)
  also have "\<dots> = Some (h, ?s2\<lparr>e_next := nx\<rparr>)" by (subst flatten.simps) simp
  finally show ?thesis using r(2) by auto
qed

end
