(* ===== verification/Rtx_Memory.thy ===== *)
theory Rtx_Memory
  imports Stepper
begin

text \<open>
  The allocator of \<open>rt_Memory.c\<close>.  A pool is a list of blocks in the order of their addresses, each with
  a header \<open>MEMP\<close> (\<open>next\<close> and \<open>len\<close>, at the offsets 0 and 4; \<open>len\<close> includes the header) and linked to the
  next; the word at its end is the end marker.  What lies between two blocks is free.  Allocation takes
  the first hole that is large enough, and the first block stays in the list, with length 0, when it
  is free.  Addresses are multiples of 4, so that the words of \<open>memory\<close> do not overlap.
\<close>

section \<open>The code\<close>

definition MEMP_size :: U32 where "MEMP_size = 8"

definition rt_init_mem :: "U32 \<Rightarrow> U32 \<Rightarrow> memory \<Rightarrow> U32 \<times> memory" where
  "rt_init_mem p sz m =
     (if p = 0 \<or> sz < MEMP_size then (1, m)
      else
        let m = m(p := p + sz - 4);
            m = m(m p := 0);
            m = m(p + 4 := 0)
        in (0, m))"

text \<open>The search loops: \<open>None\<close> for the result is that there is no such block.\<close>

partial_function (option) mem_search :: "U32 \<Rightarrow> U32 \<Rightarrow> memory \<Rightarrow> U32 option option" where
  "mem_search sz p_search m =
     (let hole_size = m p_search - p_search - m (p_search + 4) in
      if sz \<le> hole_size then Some (Some p_search)
      else let p_search = m p_search in
        if m p_search = 0 then Some None else mem_search sz p_search m)"

definition rt_alloc_mem :: "U32 \<Rightarrow> U32 \<Rightarrow> memory \<Rightarrow> (U32 \<times> memory) option" where
  "rt_alloc_mem pl sz m =
     (if pl = 0 \<or> sz = 0 then Some (0, m)
      else do {
        let sz = sz + MEMP_size;
        let sz = (sz + 3) AND NOT 3;
        r \<leftarrow> mem_search sz pl m;
        Some (case r of
          None \<Rightarrow> (0, m)
        | Some p_search \<Rightarrow>
            if m (p_search + 4) = 0 then (p_search + MEMP_size, m(p_search + 4 := sz))
            else
              let p_new = p_search + m (p_search + 4);
                  m = m(p_new := m p_search);
                  m = m(p_new + 4 := sz);
                  m = m(p_search := p_new)
              in (p_new + MEMP_size, m))
      })"

partial_function (option) mem_find :: "U32 \<Rightarrow> U32 \<Rightarrow> U32 \<Rightarrow> memory \<Rightarrow> (U32 \<times> U32) option option" where
  "mem_find p_return p_prev p_search m =
     (if p_search \<noteq> p_return
      then let p_prev = p_search; p_search = m p_search in
        if p_search = 0 then Some None else mem_find p_return p_prev p_search m
      else Some (Some (p_prev, p_search)))"

definition rt_free_mem :: "U32 \<Rightarrow> U32 \<Rightarrow> memory \<Rightarrow> (U32 \<times> memory) option" where
  "rt_free_mem pl mem m =
     (if pl = 0 \<or> mem = 0 then Some (1, m)
      else do {
        r \<leftarrow> mem_find (mem - MEMP_size) 0 pl m;
        Some (case r of
          None \<Rightarrow> (1, m)
        | Some (p_prev, p_search) \<Rightarrow>
            if p_prev = 0 then (0, m(p_search + 4 := 0)) else (0, m(p_prev := m p_search)))
      })"

section \<open>Pools\<close>

primrec nodes :: "memory \<Rightarrow> U32 \<Rightarrow> U32 \<Rightarrow> (U32 \<times> U32) list \<Rightarrow> bool" where
  "nodes m en p [] \<longleftrightarrow> p = en \<and> m en = 0"
| "nodes m en p (x # xs) \<longleftrightarrow> p = fst x \<and> m (p + 4) = snd x \<and>
     unat p + max 8 (unat (snd x)) \<le> unat (m p) \<and> 4 dvd unat p \<and> 4 dvd unat (snd x) \<and> nodes m en (m p) xs"

definition heap_pool :: "U32 \<Rightarrow> U32 \<Rightarrow> memory \<Rightarrow> (U32 \<times> U32) list \<Rightarrow> bool" where
  "heap_pool pl en m xs \<longleftrightarrow> pl \<noteq> 0 \<and> xs \<noteq> [] \<and> nodes m en pl xs \<and>
     (\<forall>x\<in>set xs. snd x = 0 \<or> 8 \<le> unat (snd x)) \<and> (\<forall>x\<in>set (tl xs). snd x \<noteq> 0)"

text \<open>The free bytes behind a block.\<close>

definition hole :: "memory \<Rightarrow> U32 \<times> U32 \<Rightarrow> nat" where
  "hole m x = unat (m (fst x)) - unat (fst x) - unat (snd x)"

lemma nodes_le: "nodes m en p xs \<Longrightarrow> unat p \<le> unat en \<and> (\<forall>x\<in>set xs. unat p \<le> unat (fst x) \<and> unat (fst x) + 8 \<le> unat en)"
  by (induction xs arbitrary: p) fastforce+

lemma u32_add: "unat (a :: U32) + k \<le> unat (b :: U32) \<Longrightarrow> k < 4294967296 \<Longrightarrow> unat (a + word_of_nat k) = unat a + k"
  using u32_le [of b] by (simp add: unat_word_ariths unsigned_of_nat take_bit_eq_mod)

lemma node_word:
  assumes "nodes m en p (x # xs)"
  shows "unat (p + 4) = unat p + 4" "p \<noteq> m p" "p + 4 \<noteq> m p" "hole m x = unat (m p - p - m (p + 4))"
proof -
  have l: "unat p + max 8 (unat (snd x)) \<le> unat (m p)" "p = fst x" "m (p + 4) = snd x" using assms by auto
  show u: "unat (p + 4) = unat p + 4" using l(1) u32_add [of p 4 "m p"] by simp
  show "p \<noteq> m p" "p + 4 \<noteq> m p" using l(1) u by (auto simp: word_unat_eq_iff)
  show "hole m x = unat (m p - p - m (p + 4))" using l by (simp add: hole_def unat_sub_word)
qed

lemma nodes_cong:
  assumes "nodes m en p xs" "\<And>a. unat p \<le> unat a \<Longrightarrow> unat a \<le> unat en \<Longrightarrow> m' a = m a"
  shows "nodes m' en p xs"
  using assms
proof (induction xs arbitrary: p)
  case (Cons x xs)
  have n: "nodes m en (m p) xs" "unat p + 8 \<le> unat (m p)" using Cons.prems(1) by auto
  have le: "unat (m p) \<le> unat en" using nodes_le [OF n(1)] by simp
  have "m' p = m p" "m' (p + 4) = m (p + 4)"
    using Cons.prems(2) [of p] Cons.prems(2) [of "p + 4"] node_word(1) [OF Cons.prems(1)] n(2) le by auto
  moreover have "nodes m' en (m p) xs" using n le by (intro Cons.IH Cons.prems(2)) auto
  ultimately show ?case using Cons.prems(1) by auto
qed auto


text \<open>A longer prefix of the addresses is left alone.\<close>

lemma nodes_end: "nodes m en p xs \<Longrightarrow> xs \<noteq> [] \<Longrightarrow> p \<noteq> en \<and> m p \<noteq> p"
  using nodes_le [of m en p xs] by (cases xs) (fastforce simp: word_unat_eq_iff)+

lemma nodes_next_0: "nodes m en p xs \<Longrightarrow> unat p \<noteq> 0 \<Longrightarrow> m p = 0 \<longleftrightarrow> xs = []"
  by (cases xs) auto

text \<open>The search finds the first block with a hole that is large enough.\<close>

lemma mem_search_ok:
  "nodes m en p xs \<Longrightarrow> p \<noteq> 0 \<Longrightarrow> xs \<noteq> [] \<Longrightarrow> mem_search sz p m = Some (case find (\<lambda>x. unat sz \<le> hole m x) xs of
     None \<Rightarrow> None | Some x \<Rightarrow> Some (fst x))"
proof (induction xs arbitrary: p)
  case (Cons x xs)
  have h: "sz \<le> m p - p - m (p + 4) \<longleftrightarrow> unat sz \<le> hole m x" using node_word(4) [OF Cons.prems(1)] by (simp add: word_le_nat_alt)
  have n: "nodes m en (m p) xs" "p = fst x" "m p \<noteq> 0" using Cons.prems(1) by auto
  show ?case
  proof (cases "unat sz \<le> hole m x")
    case True
    then show ?thesis using h n(2) by (subst mem_search.simps) (simp add: Let_def)
  next
    case False
    have z: "m (m p) = 0 \<longleftrightarrow> xs = []" using nodes_next_0 [OF n(1)] n(3) by (simp add: word_unat_eq_iff)
    show ?thesis
    proof (cases "xs = []")
      case True
      then show ?thesis using False h z by (subst mem_search.simps) (simp add: Let_def)
    next
      case xs: False
      have "mem_search sz p m = mem_search sz (m p) m" using False h z xs by (subst mem_search.simps) (simp add: Let_def)
      then show ?thesis using Cons.IH [OF n(1) n(3) xs] False by simp
    qed
  qed
qed simp

text \<open>The blocks of a pool lie one behind the other.\<close>

lemma nodes_before: "nodes m en p (A @ x # B) \<Longrightarrow> unat p \<le> unat (fst x) \<and> (A \<noteq> [] \<longrightarrow> unat p + 8 \<le> unat (fst x)) \<and> nodes m en (fst x) (x # B)"
proof (induction A arbitrary: p)
  case (Cons y A)
  have "nodes m en (m p) (A @ x # B)" "unat p + 8 \<le> unat (m p)" using Cons.prems by auto
  then show ?case using Cons.IH by fastforce
qed auto

lemma nodes_insert:
  assumes "nodes m en p (A @ (a, l) # B)" "8 \<le> unat l" "unat sz \<le> hole m (a, l)" "8 \<le> unat sz" "4 dvd unat sz"
  shows "nodes (m(a + l := m a, a + l + 4 := sz, a := a + l)) en p (A @ (a, l) # (a + l, sz) # B)"
  using assms(1)
proof (induction A arbitrary: p)
  case Nil
  define m' where "m' = m(a + l := m a, a + l + 4 := sz, a := a + l)"
  have n: "p = a" "m (a + 4) = l" "unat a + unat l \<le> unat (m a)" "4 dvd unat a" "4 dvd unat l" "nodes m en (m a) B"
    using Nil by auto
  have u: "unat (a + l) = unat a + unat l" using u32_add [of a "unat l" "m a"] n(3) by simp
  have e: "unat a + unat l + unat sz \<le> unat (m a)" using assms(3,4) by (simp add: hole_def)
  have u4: "unat (a + l + 4) = unat a + unat l + 4" using u32_add [of "a + l" 4 "m a"] e assms(4) u by simp
  have ua: "unat (a + 4) = unat a + 4" using node_word(1) [of m en p "(a, l)" B] Nil n(1) by simp
  have d: "a \<noteq> a + l" "a \<noteq> a + l + 4" "a + 4 \<noteq> a + l" "a + 4 \<noteq> a + l + 4" "a + l \<noteq> a + l + 4" "a + 4 \<noteq> a"
    using u u4 ua assms(2) by (auto simp: word_unat_eq_iff)
  have "nodes m' en (m a) B" unfolding m'_def by (rule nodes_cong [OF n(6)]) (use u u4 e assms(4) in auto)
  moreover have "m' a = a + l" "m' (a + l) = m a" "m' (a + 4) = l" "m' (a + l + 4) = sz"
    using d n(2) unfolding m'_def fun_upd_apply by simp_all
  moreover have "4 dvd unat (a + l)" using n(4,5) u by simp
  ultimately have "nodes m' en p ([] @ (a, l) # (a + l, sz) # B)" using n u e assms by (simp add: max_def)
  then show ?case unfolding m'_def .
next
  case (Cons y A)
  have n: "nodes m en (m p) (A @ (a, l) # B)" "unat p + 8 \<le> unat (m p)" using Cons.prems by auto
  have x: "nodes m en a ((a, l) # B)" using nodes_before [OF n(1)] by simp
  have le: "unat (m p) \<le> unat a" using nodes_before [OF n(1)] by simp
  have u: "unat (p + 4) = unat p + 4" using u32_add [of p 4 "m p"] n(2) by simp
  have e: "unat a + unat l + unat sz \<le> unat (m a)" using assms(3,4) by (simp add: hole_def)
  have ul: "unat (a + l) = unat a + unat l" using u32_add [of a "unat l" "m a"] e by simp
  have u4: "unat (a + l + 4) = unat a + unat l + 4" using u32_add [of "a + l" 4 "m a"] e assms(4) ul by simp
  have "p \<notin> {a, a + l, a + l + 4}" "p + 4 \<notin> {a, a + l, a + l + 4}" using u ul u4 le n(2) by (auto simp: word_unat_eq_iff)
  then show ?case using Cons.IH [OF n(1)] Cons.prems by auto
qed

lemma nodes_remove:
  assumes "nodes m en p (A @ (a, l) # (b, k) # B)"
  shows "nodes (m(a := m b)) en p (A @ (a, l) # B)"
  using assms
proof (induction A arbitrary: p)
  case Nil
  have n: "p = a" "m a = b" "unat a + max 8 (unat l) \<le> unat b" "unat b + max 8 (unat k) \<le> unat (m b)" "nodes m en (m b) B" "a + 4 \<noteq> a"
    using Nil by auto
  define m' where "m' = m(a := m b)"
  have "nodes m' en (m b) B" unfolding m'_def by (rule nodes_cong [OF n(5)]) (use n in auto)
  moreover have "m' a = m b" "m' (a + 4) = m (a + 4)" using n(6) by (simp_all add: m'_def)
  ultimately have "nodes m' en p ([] @ (a, l) # B)" using Nil n by auto
  then show ?case unfolding m'_def .
next
  case (Cons y A)
  have n: "nodes m en (m p) (A @ (a, l) # (b, k) # B)" "unat p + 8 \<le> unat (m p)" using Cons.prems by auto
  have le: "unat (m p) \<le> unat a" using nodes_before [OF n(1)] by simp
  have "unat (p + 4) = unat p + 4" using u32_add [of p 4 "m p"] n(2) by simp
  then have "p \<noteq> a" "p + 4 \<noteq> a" using le n(2) by (auto simp: word_unat_eq_iff)
  then show ?case using Cons.IH [OF n(1)] Cons.prems by auto
qed

lemma nodes_set_len:
  assumes "nodes m en p ((p, l) # B)" "unat p + max 8 (unat k) \<le> unat (m p)" "4 dvd unat k"
  shows "nodes (m(p + 4 := k)) en p ((p, k) # B)"
proof -
  have n: "nodes m en (m p) B" "unat p + 8 \<le> unat (m p)" using assms(1) by auto
  have u: "unat (p + 4) = unat p + 4" using node_word(1) [OF assms(1)] .
  have "nodes (m(p + 4 := k)) en (m p) B" by (rule nodes_cong [OF n(1)]) (use u n(2) in auto)
  then show ?thesis using assms by auto
qed


section \<open>Allocating and releasing\<close>

text \<open>The blocks that are allocated: all but an empty first one.\<close>

definition live :: "(U32 \<times> U32) list \<Rightarrow> (U32 \<times> U32) set" where
  "live xs = {x \<in> set xs. snd x \<noteq> 0}"

lemma find_split: "find P xs = Some x \<Longrightarrow> \<exists>A B. xs = A @ x # B \<and> P x \<and> \<not> (\<exists>y\<in>set A. P y)"
proof (induction xs)
  case (Cons y xs)
  show ?case
  proof (cases "P y")
    case True
    then show ?thesis using Cons.prems by (intro exI [of _ "[]"] exI [of _ xs]) auto
  next
    case False
    then obtain A B where "xs = A @ x # B" "P x" "\<not> (\<exists>y\<in>set A. P y)" using Cons by auto
    then show ?thesis using False by (intro exI [of _ "y # A"] exI [of _ B]) simp
  qed
qed simp

lemma nodes_later: "nodes m en p (x # xs) \<Longrightarrow> y \<in> set xs \<Longrightarrow> unat p + max 8 (unat (snd x)) \<le> unat (fst y)"
  using nodes_le [of m en "m p" xs] by fastforce

lemma heap_pool_split:
  assumes P: "heap_pool pl en m (A @ (a, l) # B)"
  shows "nodes m en a ((a, l) # B)" "a \<noteq> 0" "l = 0 \<Longrightarrow> A = []" "l \<noteq> 0 \<Longrightarrow> 8 \<le> unat l"
    "\<And>y. y \<in> set A \<Longrightarrow> unat (fst y) + max 8 (unat (snd y)) \<le> unat a"
proof -
  have n: "nodes m en pl (A @ (a, l) # B)" "pl \<noteq> 0" using P by (auto simp: heap_pool_def)
  show "nodes m en a ((a, l) # B)" using nodes_before [OF n(1)] by simp
  show "a \<noteq> 0" using nodes_before [OF n(1)] n(2) by (cases A) (auto simp: word_unat_eq_iff)
  show "l = 0 \<Longrightarrow> A = []" using P by (cases A) (auto simp: heap_pool_def)
  show "l \<noteq> 0 \<Longrightarrow> 8 \<le> unat l" using P by (auto simp: heap_pool_def)
  show "unat (fst y) + max 8 (unat (snd y)) \<le> unat a" if "y \<in> set A" for y
  proof -
    obtain C D where "A = C @ y # D" using split_list [OF \<open>y \<in> set A\<close>] by blast
    then have "nodes m en (fst y) (y # D @ (a, l) # B)" using nodes_before [of m en pl C y "D @ (a, l) # B"] n(1) by simp
    from nodes_later [OF this, of "(a, l)"] show ?thesis by simp
  qed
qed

text \<open>Sizes with the header, in words.\<close>

definition block_len :: "U32 \<Rightarrow> U32" where
  "block_len sz = (sz + MEMP_size + 3) AND NOT 3"

lemma and_not_3: "unat (x AND NOT 3 :: U32) = unat x div 4 * 4"
proof -
  have "(x AND 3) + (x AND NOT 3) = (x AND 3) OR (x AND NOT 3)"
    by (rule disjunctive_add_eq_or) (simp add: and.left_commute and.assoc)
  also have "\<dots> = x" using bit.conj_disj_distrib [of x 3 "NOT 3"] by (simp only: bit.disj_cancel_right and.right_neutral)
  finally have e: "x AND NOT 3 = x - (x AND 3)" by (simp add: eq_diff_eq add.commute)
  have "x AND 3 = take_bit 2 x" by (simp add: take_bit_eq_mask mask_eq_exp_minus_1)
  moreover have "unat (take_bit 2 x) = unat x mod 4" by (simp add: unat_mod take_bit_eq_mod)
  ultimately have "unat (x AND 3) = unat x mod 4" by (simp only:)
  then show ?thesis unfolding e by (simp add: unat_sub_word minus_mod_eq_div_mult)
qed

lemma block_len_ok:
  assumes "sz \<noteq> 0" "unat sz \<le> 4294967284"
  shows "unat (block_len sz) = (unat sz + 11) div 4 * 4" "unat sz + 8 \<le> unat (block_len sz)" "12 \<le> unat (block_len sz)"
    "4 dvd unat (block_len sz)"
proof -
  have "unat (sz + 11) = unat sz + 11" using assms(2) by (simp add: unat_word_ariths)
  moreover have "sz + 8 + 3 = sz + 11" by simp
  ultimately show u: "unat (block_len sz) = (unat sz + 11) div 4 * 4" by (simp only: block_len_def MEMP_size_def and_not_3)
  have "0 < unat sz" using assms(1) by (simp add: unat_gt_0)
  then show "unat sz + 8 \<le> unat (block_len sz)" "12 \<le> unat (block_len sz)" "4 dvd unat (block_len sz)" unfolding u by auto
qed


lemma rt_alloc_mem_eq: "pl \<noteq> 0 \<Longrightarrow> sz \<noteq> 0 \<Longrightarrow> mem_search (block_len sz) pl m = Some r \<Longrightarrow> rt_alloc_mem pl sz m = Some (case r of
     None \<Rightarrow> (0, m)
   | Some p \<Rightarrow> if m (p + 4) = 0 then (p + 8, m(p + 4 := block_len sz))
       else (p + m (p + 4) + 8, m(p + m (p + 4) := m p, p + m (p + 4) + 4 := block_len sz, p := p + m (p + 4))))"
  unfolding rt_alloc_mem_def Let_def block_len_def [symmetric] by (auto simp: MEMP_size_def split: option.split)

text \<open>Allocation: the blocks that were allocated stay, and a new one of the rounded size joins them.\<close>

lemma alloc_found:
  assumes P: "heap_pool pl en m xs" and z: "sz \<noteq> 0" "unat sz \<le> 4294967284"
    and f: "find (\<lambda>x. unat (block_len sz) \<le> hole m x) xs = Some x"
  obtains a m' xs' where "rt_alloc_mem pl sz m = Some (a + 8, m')" "heap_pool pl en m' xs'"
    "live xs' = insert (a, block_len sz) (live xs)" "(a, block_len sz) \<notin> live xs" "a \<noteq> 0"
    "\<And>b. (\<And>y. y \<in> set xs \<Longrightarrow> b \<noteq> fst y \<and> b \<noteq> fst y + 4) \<Longrightarrow> b \<noteq> a \<Longrightarrow> b \<noteq> a + 4 \<Longrightarrow> m' b = m b"
proof -
  obtain A B where xs: "xs = A @ x # B" and h: "unat (block_len sz) \<le> hole m x" using find_split [OF f] by blast
  obtain a l where x: "x = (a, l)" by (cases x)
  note b = block_len_ok [OF z]
  note P' = P [unfolded xs x]
  note sp = heap_pool_split [OF P']
  have n: "nodes m en pl (A @ (a, l) # B)" "pl \<noteq> 0" using P' by (auto simp: heap_pool_def)
  have ml: "m (a + 4) = l" "unat a + max 8 (unat l) \<le> unat (m a)" "unat a + unat l + unat (block_len sz) \<le> unat (m a)"
    using sp(1) h b(3) by (auto simp: x hole_def)
  have s: "mem_search (block_len sz) pl m = Some (Some a)"
    using mem_search_ok [of m en pl xs "block_len sz"] n f by (simp add: xs x)
  have u4: "unat (a + 4) = unat a + 4" using u32_add [of a 4 "m a"] ml(2) by simp
  show thesis
  proof (cases "l = 0")
    case True
    then have A: "A = []" "pl = a" using sp(3) n(1) by auto
    have N: "nodes (m(a + 4 := block_len sz)) en a ((a, block_len sz) # B)"
      using nodes_set_len [OF sp(1), of "block_len sz"] ml(3) b(3,4) True by (simp add: max_def)
    have "(a, block_len sz) \<notin> set B" using nodes_later [OF sp(1), of "(a, block_len sz)"] by auto
    moreover have "block_len sz \<noteq> 0" using b(3) by auto
    ultimately have L: "live ((a, block_len sz) # B) = insert (a, block_len sz) (live xs)" "(a, block_len sz) \<notin> live xs"
      using True b(3) A by (auto simp: live_def xs x)
    have "heap_pool pl en (m(a + 4 := block_len sz)) ((a, block_len sz) # B)" using N P' A b(3) by (auto simp: heap_pool_def)
    moreover have "rt_alloc_mem pl sz m = Some (a + 8, m(a + 4 := block_len sz))"
      using rt_alloc_mem_eq [OF n(2) z(1) s] ml(1) True by simp
    ultimately show thesis using that [of a "m(a + 4 := block_len sz)" "(a, block_len sz) # B"] L sp(2) xs x by simp
  next
    case False
    let ?m = "m(a + l := m a, a + l + 4 := block_len sz, a := a + l)"
    let ?xs = "A @ (a, l) # (a + l, block_len sz) # B"
    have l8: "8 \<le> unat l" using sp(4) False by simp
    have N: "nodes ?m en pl ?xs" by (rule nodes_insert [OF n(1) l8]) (use h b x in auto)
    have H: "heap_pool pl en ?m ?xs"
      using P' N b(3) False by (cases A) (auto simp: heap_pool_def)
    have u: "unat (a + l) = unat a + unat l" using u32_add [of a "unat l" "m a"] ml(2) by simp
    have nB: "fst y \<noteq> a + l" if "y \<in> set B" for y
      using nodes_later [OF sp(1) that] nodes_le [of m en "m a" B] sp(1) that ml(3) u b(3) by (fastforce simp: word_unat_eq_iff)
    have nA: "fst y \<noteq> a + l" if "y \<in> set A" for y
      using sp(5) [OF that] u l8 by (auto simp: word_unat_eq_iff)
    have "a + l \<noteq> a" using False by simp
    then have "(a + l, block_len sz) \<notin> set xs" using nA nB by (force simp: xs x)
    moreover have "block_len sz \<noteq> 0" using b(3) by auto
    ultimately have L: "live ?xs = insert (a + l, block_len sz) (live xs)" "(a + l, block_len sz) \<notin> live xs"
      by (auto simp: live_def xs x)
    have "rt_alloc_mem pl sz m = Some (a + l + 8, ?m)" using rt_alloc_mem_eq [OF n(2) z(1) s] ml(1) False by simp
    moreover have "a + l \<noteq> 0" using u l8 by (auto simp: word_unat_eq_iff)
    moreover have "?m c = m c" if "\<And>y. y \<in> set xs \<Longrightarrow> c \<noteq> fst y \<and> c \<noteq> fst y + 4" "c \<noteq> a + l" "c \<noteq> a + l + 4" for c
      using that(1) [of "(a, l)"] that(2,3) by (simp add: xs x)
    ultimately show thesis using that [OF _ H L] by blast
  qed
qed

lemma alloc_none:
  assumes P: "heap_pool pl en m xs" and z: "sz \<noteq> 0" and f: "\<And>x. x \<in> set xs \<Longrightarrow> hole m x < unat (block_len sz)"
  shows "rt_alloc_mem pl sz m = Some (0, m)"
proof -
  have "find (\<lambda>x. unat (block_len sz) \<le> hole m x) xs = None" using f by (auto simp: find_None_iff not_le)
  then have "mem_search (block_len sz) pl m = Some None" using mem_search_ok [of m en pl xs "block_len sz"] P by (simp add: heap_pool_def)
  then show ?thesis using rt_alloc_mem_eq [of pl sz m] P z by (simp add: heap_pool_def)
qed

text \<open>Allocated blocks do not overlap, and lie in the pool.\<close>

lemma live_disjoint:
  assumes P: "heap_pool pl en m xs" and x: "x \<in> live xs" and y: "y \<in> live xs" and ne: "x \<noteq> y"
  shows "unat (fst x) + unat (snd x) \<le> unat (fst y) \<or> unat (fst y) + unat (snd y) \<le> unat (fst x)"
proof -
  have "x \<in> set xs" "y \<in> set xs" using x y by (auto simp: live_def)
  then obtain A B where xs: "xs = A @ x # B" using split_list by fast
  note sp = heap_pool_split [of pl en m A "fst x" "snd x" B, unfolded prod.collapse, OF P [unfolded xs]]
  from \<open>y \<in> set xs\<close> ne consider "y \<in> set A" | "y \<in> set B" by (auto simp: xs)
  then show ?thesis
  proof cases
    case 1
    then show ?thesis using sp(5) by fastforce
  next
    case 2
    then show ?thesis using nodes_later [OF sp(1)] by fastforce
  qed
qed

text \<open>Releasing: the search stops at the block, with its predecessor (0 for the first block).\<close>

lemma nodes_fst_ne: "nodes m en p (A @ (a, l) # B) \<Longrightarrow> A \<noteq> [] \<Longrightarrow> p \<noteq> a"
  using nodes_before [of m en p A "(a, l)" B] by auto

lemma mem_find_ok:
  "nodes m en p (A @ (a, l) # B) \<Longrightarrow> p \<noteq> 0 \<Longrightarrow>
    mem_find a q p m = Some (Some (if A = [] then q else fst (last A), a))"
proof (induction A arbitrary: p q)
  case Nil
  then show ?case by (subst mem_find.simps) simp
next
  case (Cons y A)
  have n: "nodes m en (m p) (A @ (a, l) # B)" "m p \<noteq> 0" "p = fst y" using Cons.prems by auto
  have "p \<noteq> a" using nodes_fst_ne [OF Cons.prems(1)] by simp
  then have "mem_find a q p m = mem_find a p (m p) m" using n(2) by (subst mem_find.simps) (simp add: Let_def)
  then show ?case using Cons.IH [OF n(1,2)] n(3) by simp
qed

lemma mem_find_none:
  "nodes m en p xs \<Longrightarrow> p \<noteq> 0 \<Longrightarrow> a \<notin> fst ` set xs \<Longrightarrow> a \<noteq> en \<Longrightarrow> mem_find a q p m = Some None"
proof (induction xs arbitrary: p q)
  case Nil
  then show ?case by (subst mem_find.simps) (simp add: Let_def)
next
  case (Cons x xs)
  have n: "nodes m en (m p) xs" "m p \<noteq> 0" "p \<noteq> a" using Cons.prems by auto
  have "mem_find a q p m = mem_find a p (m p) m" using n(2,3) by (subst mem_find.simps) (simp add: Let_def)
  then show ?case using Cons.IH [OF n(1,2)] Cons.prems by simp
qed

lemma rt_free_mem_eq: "pl \<noteq> 0 \<Longrightarrow> mem_find a 0 pl m = Some r \<Longrightarrow> a + 8 \<noteq> 0 \<Longrightarrow> rt_free_mem pl (a + 8) m = Some (case r of
     None \<Rightarrow> (1, m)
   | Some (p, s) \<Rightarrow> if p = 0 then (0, m(s + 4 := 0)) else (0, m(p := m s)))"
  unfolding rt_free_mem_def MEMP_size_def by (auto split: option.split)

lemma free_found:
  assumes P: "heap_pool pl en m xs" and x: "(a, l) \<in> live xs" and a8: "a + 8 \<noteq> 0"
  obtains m' xs' where "rt_free_mem pl (a + 8) m = Some (0, m')" "heap_pool pl en m' xs'"
    "live xs' = live xs - {(a, l)}"
    "\<And>b. (\<And>y. y \<in> set xs \<Longrightarrow> b \<noteq> fst y \<and> b \<noteq> fst y + 4) \<Longrightarrow> m' b = m b"
proof -
  have l: "l \<noteq> 0" and "(a, l) \<in> set xs" using x by (auto simp: live_def)
  then obtain A B where xs: "xs = A @ (a, l) # B" using split_list by fast
  note P' = P [unfolded xs]
  note sp = heap_pool_split [OF P']
  have n: "nodes m en pl (A @ (a, l) # B)" "pl \<noteq> 0" using P' by (auto simp: heap_pool_def)
  note f = rt_free_mem_eq [OF n(2) mem_find_ok [OF n] a8]
  have nB: "fst y \<noteq> a" if "y \<in> set B" for y using nodes_later [OF sp(1) that] by auto
  have nA: "fst y \<noteq> a" if "y \<in> set A" for y using sp(5) [OF that] by auto
  show thesis
  proof (cases A rule: rev_cases)
    case Nil
    have N: "nodes (m(a + 4 := 0)) en a ((a, 0) # B)" using nodes_set_len [OF sp(1), of 0] sp(1) by auto
    have H: "heap_pool pl en (m(a + 4 := 0)) ((a, 0) # B)" using N P' Nil by (auto simp: heap_pool_def)
    have L: "live ((a, 0) # B) = live xs - {(a, l)}" using nB by (force simp: live_def xs Nil)
    have "rt_free_mem pl (a + 8) m = Some (0, m(a + 4 := 0))" using f Nil by simp
    then show thesis by (rule that [OF _ H L]) (use xs in force)
  next
    case (snoc C c)
    obtain b k where c: "c = (b, k)" by (cases c)
    have nb: "nodes m en pl (C @ (b, k) # (a, l) # B)" using n(1) by (simp add: snoc c)
    have H: "heap_pool pl en (m(b := m a)) (C @ (b, k) # B)"
      using nodes_remove [OF nb] P' by (cases C) (auto simp: heap_pool_def snoc c)
    have "b \<noteq> 0" using nodes_before [OF nb] n(2) by (cases C) (auto simp: word_unat_eq_iff)
    then have "rt_free_mem pl (a + 8) m = Some (0, m(b := m a))" using f by (simp add: snoc c)
    moreover have L: "live (C @ (b, k) # B) = live xs - {(a, l)}" using nA nB by (force simp: live_def xs snoc c)
    ultimately show thesis by (intro that [OF _ H L]) (use xs snoc c in force)+
  qed
qed

text \<open>An address that is no block and not the end marker is refused; the end marker is not, and losing it
  breaks the pool.\<close>

lemma free_not_found:
  assumes "heap_pool pl en m xs" "a \<notin> fst ` set xs" "a \<noteq> en"
  shows "rt_free_mem pl (a + 8) m = Some (1, m)"
proof (cases "a + 8 = 0")
  case True
  then show ?thesis by (simp add: rt_free_mem_def)
next
  case False
  then show ?thesis using rt_free_mem_eq [of pl a m] mem_find_none [of m en pl xs a 0] assms by (auto simp: heap_pool_def)
qed

text \<open>The boundaries of the arithmetic: a request so large that the header does not fit into a word is
  granted with a small block, and the address behind the end marker is accepted for release, which
  then leaves a block without a successor.\<close>

lemma alloc_wraps:
  assumes P: "heap_pool pl en m ((a, 0) # B)" and h: "4294967285 \<le> unat sz" and g: "8 \<le> hole m (a, 0)"
  shows "rt_alloc_mem pl sz m = Some (a + 8, m(a + 4 := block_len sz)) \<and> unat (block_len sz) \<le> 8"
proof -
  have n: "nodes m en pl ((a, 0) # B)" "pl = a" using P by (auto simp: heap_pool_def)
  have "unat (sz + MEMP_size + 3) = unat sz + 11 - 4294967296"
    using h u32_le [of sz] by (simp add: MEMP_size_def unat_word_ariths mod_if)
  then have b: "unat (block_len sz) \<le> 8" unfolding block_len_def and_not_3 using u32_le [of sz] by simp
  have "sz \<noteq> 0" "m (a + 4) = 0" using h n by auto
  moreover have "mem_search (block_len sz) pl m = Some (Some a)"
    using mem_search_ok [OF n(1), of "block_len sz"] P b g by (auto simp: heap_pool_def)
  ultimately show ?thesis using rt_alloc_mem_eq [of pl sz m "Some a"] P b by (auto simp: heap_pool_def)
qed

section \<open>A new pool, and the memory of the blocks\<close>

lemma pool_end_unat:
  assumes "12 \<le> unat sz" "unat p + unat sz \<le> 4294967296"
  shows "unat (p + sz - 4 :: U32) = unat p + unat sz - 4"
proof -
  have e: "p + sz - 4 = p + (sz - 4)" by simp
  have "unat (sz - 4) = unat sz - 4" using assms(1) unat_sub [of 4 sz] by (simp add: word_le_nat_alt)
  then show ?thesis unfolding e using assms by (simp add: unat_word_ariths(1))
qed

lemma rt_init_mem_ok:
  assumes "p \<noteq> 0" "12 \<le> unat sz" "unat p + unat sz \<le> 4294967296" "4 dvd unat p" "4 dvd unat sz"
  obtains m' where "rt_init_mem p sz m = (0, m')" "heap_pool p (p + sz - 4) m' [(p, 0)]" "live [(p, 0)] = {}"
proof -
  note u = pool_end_unat [OF assms(2,3)]
  have u4: "unat (p + 4) = unat p + 4" using assms(2,3) by (simp add: unat_word_ariths)
  have d: "p + sz - 4 \<noteq> p" "p + sz - 4 \<noteq> p + 4" using u u4 assms(2) by (auto simp: word_unat_eq_iff)
  have d4: "p + 4 \<noteq> p" using u4 by (auto simp: word_unat_eq_iff)
  let ?m = "m(p := p + sz - 4, p + sz - 4 := 0, p + 4 := 0)"
  have "rt_init_mem p sz m = (0, ?m)" using assms(1,2) by (simp add: rt_init_mem_def MEMP_size_def word_less_nat_alt Let_def)
  moreover have "heap_pool p (p + sz - 4) ?m [(p, 0)]"
    using assms u d d4 by (simp add: heap_pool_def) 
  ultimately show thesis using that by (simp add: live_def)
qed

text \<open>Writing into an allocated block does not touch the pool.\<close>

lemma write_payload:
  assumes P: "heap_pool pl en m xs" and x: "(a, l) \<in> live xs" and b: "unat a + 8 \<le> unat b" "unat b + 4 \<le> unat a + unat l"
    and b4: "4 dvd unat b"
  shows "heap_pool pl en (m(b := v)) xs"
proof -
  have "(a, l) \<in> set xs" using x by (auto simp: live_def)
  then obtain A B where xs: "xs = A @ (a, l) # B" using split_list by fast
  have "nodes m en pl (A @ (a, l) # B)" using P by (simp add: heap_pool_def xs)
  then have "nodes (m(b := v)) en pl (A @ (a, l) # B)"
  proof (induction A arbitrary: pl)
    case Nil
    have n: "pl = a" "m (a + 4) = l" "unat a + max 8 (unat l) \<le> unat (m a)" "nodes m en (m a) B" using Nil by auto
    define m' where "m' = m(b := v)"
    have u4: "unat (a + 4) = unat a + 4" using node_word(1) [of m en pl "(a, l)" B] Nil n(1) by simp
    have "nodes m' en (m a) B" unfolding m'_def by (rule nodes_cong [OF n(4)]) (use n(3) b in auto)
    moreover have "m' a = m a" "m' (a + 4) = m (a + 4)" using b(1) u4 by (auto simp: m'_def)
    ultimately have "nodes m' en pl ([] @ (a, l) # B)" using Nil n(1) by simp
    then show ?case unfolding m'_def .
  next
    case (Cons y A)
    have n: "nodes m en (m pl) (A @ (a, l) # B)" "unat pl + 8 \<le> unat (m pl)" using Cons.prems by auto
    have le: "unat (m pl) \<le> unat a" using nodes_before [OF n(1)] by simp
    have "unat (pl + 4) = unat pl + 4" using u32_add [of pl 4 "m pl"] n(2) by simp
    then have "pl \<noteq> b" "pl + 4 \<noteq> b" using le n(2) b(1) by (auto simp: word_unat_eq_iff)
    then show ?case using Cons.IH [OF n(1)] Cons.prems by auto
  qed
  then show ?thesis using P by (simp add: heap_pool_def xs)
qed

section \<open>Clients of a pool\<close>

text \<open>What a client does: it allocates, releases what it holds, and writes into what it holds.  The map
  says what it holds: the requested size of each block, at the address it was given.\<close>

datatype heap_ev = Alloc U32 | Free U32 | Write U32 U32

fun heap_step :: "U32 \<Rightarrow> heap_ev \<Rightarrow> memory \<times> (U32 \<rightharpoonup> U32) \<Rightarrow> (memory \<times> (U32 \<rightharpoonup> U32)) option" where
  "heap_step pl (Alloc sz) (m, L) =
     map_option (\<lambda>(p, m). (m, if p = 0 then L else L(p \<mapsto> sz))) (rt_alloc_mem pl sz m)"
| "heap_step pl (Free p) (m, L) =
     map_option (\<lambda>(r, m). (m, if r = 0 then L(p := None) else L)) (rt_free_mem pl p m)"
| "heap_step pl (Write b v) (m, L) = Some (m(b := v), L)"

definition holds :: "(U32 \<rightharpoonup> U32) \<Rightarrow> U32 \<Rightarrow> bool" where
  "holds L b \<longleftrightarrow> (\<exists>p z. L p = Some z \<and> unat p \<le> unat b \<and> unat b + 4 \<le> unat p + unat z)"

fun heap_ok :: "heap_ev \<Rightarrow> memory \<times> (U32 \<rightharpoonup> U32) \<Rightarrow> bool" where
  "heap_ok (Alloc sz) (m, L) \<longleftrightarrow> unat sz \<le> 4294967284"
| "heap_ok (Free p) (m, L) \<longleftrightarrow> p \<in> dom L"
| "heap_ok (Write b v) (m, L) \<longleftrightarrow> 4 dvd unat b \<and> holds L b"

text \<open>What is held is what is allocated.\<close>

definition held :: "(U32 \<rightharpoonup> U32) \<Rightarrow> (U32 \<times> U32) set \<Rightarrow> bool" where
  "held L A \<longleftrightarrow> dom L = (\<lambda>x. fst x + 8) ` A \<and> (\<forall>x\<in>A. \<exists>z. L (fst x + 8) = Some z \<and> unat z + 8 \<le> unat (snd x))"

fun heap_inv :: "U32 \<Rightarrow> U32 \<Rightarrow> memory \<times> (U32 \<rightharpoonup> U32) \<Rightarrow> bool" where
  "heap_inv pl en (m, L) \<longleftrightarrow> (\<exists>xs. heap_pool pl en m xs \<and> held L (live xs))"

lemma live_bounds:
  assumes P: "heap_pool pl en m xs" and x: "(a, l) \<in> live xs"
  shows "unat (a + 8) = unat a + 8" "unat pl \<le> unat a" "unat a + unat l \<le> unat en" "8 \<le> unat l" "4 dvd unat a"
proof -
  have "(a, l) \<in> set xs" "l \<noteq> 0" using x by (auto simp: live_def)
  then obtain A B where xs: "xs = A @ (a, l) # B" using split_list by fast
  note sp = heap_pool_split [OF P [unfolded xs]]
  have n: "unat a + max 8 (unat l) \<le> unat (m a)" "nodes m en (m a) B" "4 dvd unat a" using sp(1) by auto
  have "unat (m a) \<le> unat en" using nodes_le [OF n(2)] by simp
  then show "unat (a + 8) = unat a + 8" "unat a + unat l \<le> unat en" "8 \<le> unat l" "4 dvd unat a"
    using n(1,3) sp(4) \<open>l \<noteq> 0\<close> u32_add [of a 8 "m a"] by auto
  show "unat pl \<le> unat a" using nodes_before [of m en pl A "(a, l)" B] P by (simp add: heap_pool_def xs)
qed

lemma live_inj: "heap_pool pl en m xs \<Longrightarrow> inj_on (\<lambda>x. fst x + 8) (live xs)"
proof (rule inj_onI)
  fix x y assume P: "heap_pool pl en m xs" and x: "x \<in> live xs" and y: "y \<in> live xs" and e: "fst x + 8 = fst y + 8"
  show "x = y"
  proof (rule ccontr)
    assume "x \<noteq> y"
    then have "unat (fst x) + unat (snd x) \<le> unat (fst y) \<or> unat (fst y) + unat (snd y) \<le> unat (fst x)"
      by (rule live_disjoint [OF P x y])
    then show False using e live_bounds(4) [OF P, of "fst x" "snd x", unfolded prod.collapse] live_bounds(4) [OF P, of "fst y" "snd y", unfolded prod.collapse] x y by simp
  qed
qed

lemma held_insert:
  assumes "held L A" "unat z + 8 \<le> unat l" "inj_on (\<lambda>x. fst x + 8) (insert (a, l) A)" "(a, l) \<notin> A"
  shows "held (L(a + 8 \<mapsto> z)) (insert (a, l) A)"
proof -
  have ne: "fst x + 8 \<noteq> a + 8" if "x \<in> A" for x using inj_onD [OF assms(3), of x "(a, l)"] that assms(4) by auto
  then show ?thesis using assms(1,2) unfolding held_def by (auto simp: fun_upd_apply)
qed

lemma held_remove:
  assumes "held L A" "inj_on (\<lambda>x. fst x + 8) A" "(a, l) \<in> A"
  shows "held (L(a + 8 := None)) (A - {(a, l)})"
proof -
  have ne: "fst x + 8 \<noteq> a + 8" if "x \<in> A - {(a, l)}" for x using inj_onD [OF assms(2), of x "(a, l)"] that assms(3) by auto
  then have "(\<lambda>x. fst x + 8) ` (A - {(a, l)}) = (\<lambda>x. fst x + 8) ` A - {a + 8}" using assms(3) by force
  then show ?thesis using assms(1) ne unfolding held_def by (auto simp: fun_upd_apply)
qed

lemma held_get:
  assumes "held L A" "L p = Some z"
  obtains a l where "(a, l) \<in> A" "p = a + 8" "unat z + 8 \<le> unat l"
proof -
  have "p \<in> (\<lambda>x. fst x + 8) ` A" using assms unfolding held_def by blast
  then obtain x where x: "x \<in> A" "p = fst x + 8" by blast
  then obtain z' where "L (fst x + 8) = Some z'" "unat z' + 8 \<le> unat (snd x)" using assms(1) unfolding held_def by blast
  then show thesis using that [of "fst x" "snd x"] x assms(2) by simp
qed

lemma heap_step_inv: "heap_inv pl en s \<Longrightarrow> heap_ok e s \<Longrightarrow> \<exists>s'. heap_step pl e s = Some s' \<and> heap_inv pl en s'"
proof (induction pl e s rule: heap_step.induct)
  case (1 pl sz m L)
  obtain xs where P: "heap_pool pl en m xs" and H: "held L (live xs)" using 1 by auto
  consider "sz = 0" | "sz \<noteq> 0" "\<And>x. x \<in> set xs \<Longrightarrow> hole m x < unat (block_len sz)"
    | x where "sz \<noteq> 0" "find (\<lambda>x. unat (block_len sz) \<le> hole m x) xs = Some x"
    by (cases "find (\<lambda>x. unat (block_len sz) \<le> hole m x) xs") (auto simp: find_None_iff not_le)
  then show ?case
  proof cases
    case 1
    then show ?thesis using P H by (auto simp: rt_alloc_mem_def)
  next
    case 2
    then show ?thesis using P H alloc_none [OF P 2(1)] by auto
  next
    case 3
    obtain a m' xs' where a: "rt_alloc_mem pl sz m = Some (a + 8, m')" "heap_pool pl en m' xs'"
      "live xs' = insert (a, block_len sz) (live xs)" "(a, block_len sz) \<notin> live xs"
      using alloc_found [OF P 3(1) _ 3(2)] 1 by (metis heap_ok.simps(1))
    have "a + 8 \<noteq> 0" using live_bounds(1) [OF a(2), of a "block_len sz"] a(3) by auto
    moreover have "held (L(a + 8 \<mapsto> sz)) (live xs')"
      unfolding a(3) using block_len_ok(2) [OF 3(1)] 1 live_inj [OF a(2)] a(3,4) by (intro held_insert [OF H]) auto
    ultimately show ?thesis using a(1,2) by auto
  qed
next
  case (2 pl p m L)
  obtain xs where P: "heap_pool pl en m xs" and H: "held L (live xs)" using 2 by auto
  obtain z where "L p = Some z" using 2 by auto
  then obtain a l where x: "(a, l) \<in> live xs" "p = a + 8" using held_get [OF H] by metis
  have "a + 8 \<noteq> 0" using live_bounds(1) [OF P x(1)] by auto
  then obtain m' xs' where f: "rt_free_mem pl (a + 8) m = Some (0, m')" "heap_pool pl en m' xs'" "live xs' = live xs - {(a, l)}"
    using free_found [OF P x(1)] by metis
  then show ?case using held_remove [OF H live_inj [OF P] x(1)] x(2) by auto
next
  case (3 pl b v m L)
  obtain xs where P: "heap_pool pl en m xs" and H: "held L (live xs)" using 3 by auto
  obtain p z where p: "L p = Some z" "unat p \<le> unat b" "unat b + 4 \<le> unat p + unat z" and b4: "4 dvd unat b"
    using 3 by (auto simp: holds_def)
  obtain a l where x: "(a, l) \<in> live xs" "p = a + 8" and "unat z + 8 \<le> unat l" by (rule held_get [OF H p(1)])
  then have "unat a + 8 \<le> unat b" "unat b + 4 \<le> unat a + unat l" using p live_bounds(1) [OF P x(1)] x(2) by auto
  from write_payload [OF P x(1) this b4] show ?case using H by auto
qed

interpretation heap: stepper "heap_step pl" "heap_inv pl en" heap_ok
  using heap_step_inv by unfold_locales blast

text \<open>What is held lies in the pool, is aligned, and does not overlap.\<close>

lemma heap_inv_disjoint:
  assumes I: "heap_inv pl en (m, L)" and p: "L p = Some z"
  shows "unat pl + 8 \<le> unat p" "unat p + unat z \<le> unat en" "4 dvd unat p"
    "L q = Some w \<Longrightarrow> p \<noteq> q \<Longrightarrow> unat p + unat z + 8 \<le> unat q \<or> unat q + unat w + 8 \<le> unat p"
proof -
  obtain xs where P: "heap_pool pl en m xs" and H: "held L (live xs)" using I by auto
  obtain a l where x: "(a, l) \<in> live xs" "p = a + 8" "unat z + 8 \<le> unat l" by (rule held_get [OF H p])
  note b = live_bounds [OF P x(1)]
  show "unat pl + 8 \<le> unat p" "unat p + unat z \<le> unat en" "4 dvd unat p" using b x by auto
  assume q: "L q = Some w" and ne: "p \<noteq> q"
  obtain c k where y: "(c, k) \<in> live xs" "q = c + 8" "unat w + 8 \<le> unat k" by (rule held_get [OF H q])
  show "unat p + unat z + 8 \<le> unat q \<or> unat q + unat w + 8 \<le> unat p"
    using live_disjoint [OF P x(1) y(1)] live_bounds(1) [OF P y(1)] b(1) x y ne by auto
qed

end
