(* ===== verification/Gpio_Irq.thy ===== *)
theory Gpio_Irq
  imports Mbed_Critical
begin

text \<open>
  Interrupts of the input pins: \<open>targets/TARGET_NXP/TARGET_LPC176X/gpio_irq_api.c\<close> on the registers of the
  interrupt controller of the pins, and the class \<open>InterruptIn\<close> (\<open>drivers/InterruptIn.cpp\<close>) on top of it.
  Writing a one to \<open>IO0IntClr\<close> or \<open>IO2IntClr\<close> clears that bit in both status registers of the port.

  A function is known by its address, and what the functions do is a parameter.  The state is a record
  that is extended by the rest of the system.  The pin itself (\<open>gpio_init_in\<close>, \<open>gpio_read\<close>) is left out.
\<close>

section \<open>Data\<close>

datatype gpio_irq_event = IRQ_NONE | IRQ_RISE | IRQ_FALL

record gpio_irq_t =
  irq_port :: U32
  irq_pin :: U32
  irq_ch :: U32

text \<open>A callback of an \<open>InterruptIn\<close>: \<open>donothing\<close> or a function.\<close>

datatype callback_fn = Donothing | Func U32

record gpio =
  channel_ids :: "U32 list"
  irq_handler :: U32
  IO0IntStatR :: U32
  IO0IntStatF :: U32
  IO0IntEnR :: U32
  IO0IntEnF :: U32
  IO2IntStatR :: U32
  IO2IntStatF :: U32
  IO2IntEnR :: U32
  IO2IntEnF :: U32
  EINT3_vector :: bool        \<comment> \<open>\<open>handle_interrupt_in\<close> is installed\<close>
  EINT3_enabled :: bool
  gpio_crit :: critical
  \<comment> \<open>members of the objects \<open>InterruptIn\<close> by their addresses\<close>
  ii_irq :: "U32 \<Rightarrow> gpio_irq_t"
  ii_rise :: "U32 \<Rightarrow> callback_fn"
  ii_fall :: "U32 \<Rightarrow> callback_fn"

definition CHANNEL_NUM :: nat where "CHANNEL_NUM = 48"

definition LPC_GPIO0_BASE :: U32 where "LPC_GPIO0_BASE = 0x2009C000"
definition LPC_GPIO2_BASE :: U32 where "LPC_GPIO2_BASE = 0x2009C040"
definition NC :: U32 where "NC = 0xFFFFFFFF"

lemmas gpio_consts = LPC_GPIO0_BASE_def LPC_GPIO2_BASE_def NC_def

definition write_IO0IntClr :: "U32 \<Rightarrow> 'a gpio_scheme \<Rightarrow> 'a gpio_scheme" where
  "write_IO0IntClr v s = s\<lparr>IO0IntStatR := IO0IntStatR s AND NOT v, IO0IntStatF := IO0IntStatF s AND NOT v\<rparr>"

definition write_IO2IntClr :: "U32 \<Rightarrow> 'a gpio_scheme \<Rightarrow> 'a gpio_scheme" where
  "write_IO2IntClr v s = s\<lparr>IO2IntStatR := IO2IntStatR s AND NOT v, IO2IntStatF := IO2IntStatF s AND NOT v\<rparr>"

section \<open>The interrupt handler\<close>

text \<open>\<open>__CLZ\<close>: the zeros before the first one.\<close>

definition clz :: "U32 \<Rightarrow> nat" where
  "clz w = length (takeWhile (\<lambda>i. \<not> bit w i) (rev [0..<32]))"

text \<open>The bits of a word, from the highest to the lowest.\<close>

definition bits_desc :: "U32 \<Rightarrow> nat list" where
  "bits_desc w = filter (bit w) (rev [0..<32])"

lemma sub_set_bit:
  assumes "bit (w :: U32) b"
  shows "w - 2 ^ b = w AND NOT (2 ^ b)"
proof -
  have "w = (w AND NOT (2 ^ b)) OR 2 ^ b"
    by (rule bit_word_eqI) (use assms in \<open>auto simp: bit_simps\<close>)
  also have "\<dots> = (w AND NOT (2 ^ b)) + 2 ^ b"
    by (rule disjunctive_add_eq_or [symmetric]) (rule bit_word_eqI, auto simp: bit_simps)
  finally show ?thesis by (simp add: algebra_simps)
qed

lemma first_bit:
  assumes "w \<noteq> 0"
  shows "bit w (31 - clz w)" "31 - clz w < 32" "bits_desc w = (31 - clz w) # bits_desc (w - 2 ^ (31 - clz w))"
proof -
  let ?P = "\<lambda>i. \<not> bit w i" and ?l = "rev [0..<32]"
  obtain n where n: "bit w n" using assms by (auto simp: bit_eq_iff)
  then have "n < 32" using bit_imp_le_length [of w n] by simp
  then have "dropWhile ?P ?l \<noteq> []" using n by (auto simp: dropWhile_eq_Nil_conv)
  then obtain b r where r: "dropWhile ?P ?l = b # r" by (cases "dropWhile ?P ?l") auto
  have b: "bit w b" using hd_dropWhile [of ?P ?l] r by auto
  define tw where "tw = takeWhile ?P ?l"
  have l: "?l = tw @ b # r" using takeWhile_dropWhile_id [of ?P ?l] r by (simp add: tw_def)
  have tw: "\<forall>i\<in>set tw. \<not> bit w i" by (auto simp: tw_def dest: set_takeWhileD)
  have c: "clz w < 32" using arg_cong [OF l, of length] by (simp add: clz_def tw_def)
  have "?l ! clz w = b" using arg_cong [OF l, of "\<lambda>x. x ! clz w"] by (simp add: clz_def tw_def nth_append)
  then have e: "31 - clz w = b" using c by (simp add: rev_nth)
  show "bit w (31 - clz w)" "31 - clz w < 32" using b e by simp_all
  have "distinct ?l" by simp
  then have d: "b \<notin> set r" unfolding l by simp
  have w': "bit (w - 2 ^ b) i \<longleftrightarrow> bit w i \<and> i \<noteq> b" for i
    unfolding sub_set_bit [OF b] using bit_imp_le_length [of w i] by (auto simp: bit_simps)
  have "filter (bit v) tw = []" if "v \<in> {w, w - 2 ^ b}" for v using tw that by (auto simp: filter_empty_conv w')
  moreover have "filter (bit (w - 2 ^ b)) r = filter (bit w) r" by (rule filter_cong) (use d in \<open>auto simp: w'\<close>)
  ultimately show "bits_desc w = (31 - clz w) # bits_desc (w - 2 ^ (31 - clz w))"
    unfolding bits_desc_def l e using b w' by simp
qed

lemma sub_bit_less: "w \<noteq> 0 \<Longrightarrow> unat (w - 2 ^ (31 - clz w)) < unat (w :: U32)"
proof -
  assume w: "w \<noteq> 0"
  let ?m = "2 ^ (31 - clz w) :: U32"
  have "w - ?m \<le> w" unfolding sub_set_bit [OF first_bit(1) [OF w]] by (rule word_and_le2)
  moreover have "?m \<noteq> 0" using first_bit(2) [OF w] by simp
  then have "w - ?m \<noteq> w" by (metis add_0 diff_add_cancel add.commute diff_eq_eq)
  ultimately have "w - ?m < w" by (simp add: order.strict_iff_order)
  then show ?thesis by (simp only: word_less_nat_alt)
qed

text \<open>The loops of the handler over the pending bits of a port.\<close>

type_synonym 'a irq_code = "U32 \<Rightarrow> U32 \<Rightarrow> gpio_irq_event \<Rightarrow> 'a gpio_scheme \<Rightarrow> 'a gpio_scheme"

function irq_loop0 :: "'a irq_code \<Rightarrow> gpio_irq_event \<Rightarrow> U32 \<Rightarrow> 'a gpio_scheme \<Rightarrow> 'a gpio_scheme" where
  "irq_loop0 code ev pending s =
     (if 0 < pending then
        let bitloc = 31 - clz pending;
            s = (if channel_ids s ! bitloc \<noteq> 0 then code (irq_handler s) (channel_ids s ! bitloc) ev s else s);
            s = write_IO0IntClr (push_bit bitloc 1) s
        in irq_loop0 code ev (pending - push_bit bitloc 1) s
      else s)"
  by pat_completeness auto
termination
  by (relation "measure (\<lambda>(code, ev, pending, s). unat pending)") (auto simp: sub_bit_less word_gt_0)

function irq_loop2 :: "'a irq_code \<Rightarrow> gpio_irq_event \<Rightarrow> U32 \<Rightarrow> 'a gpio_scheme \<Rightarrow> 'a gpio_scheme" where
  "irq_loop2 code ev pending s =
     (if 0 < pending then
        let bitloc = 31 - clz pending;
            s = (if bitloc < 16 then
                if channel_ids s ! (bitloc + 32) \<noteq> 0
                then code (irq_handler s) (channel_ids s ! (bitloc + 32)) ev s else s
              else s);
            s = write_IO2IntClr (push_bit bitloc 1) s
        in irq_loop2 code ev (pending - push_bit bitloc 1) s
      else s)"
  by pat_completeness auto
termination
  by (relation "measure (\<lambda>(code, ev, pending, s). unat pending)") (auto simp: sub_bit_less word_gt_0)

declare irq_loop0.simps [simp del] irq_loop2.simps [simp del]

definition handle_interrupt_in :: "'a irq_code \<Rightarrow> 'a gpio_scheme \<Rightarrow> 'a gpio_scheme" where
  "handle_interrupt_in code s =
     (let rise0 = IO0IntStatR s; fall0 = IO0IntStatF s; rise2 = IO2IntStatR s; fall2 = IO2IntStatF s;
          s = irq_loop0 code IRQ_RISE rise0 s;
          s = irq_loop0 code IRQ_FALL fall0 s;
          s = irq_loop2 code IRQ_RISE rise2 s
      in irq_loop2 code IRQ_FALL fall2 s)"

section \<open>Pins\<close>

definition gpio_irq_init :: "gpio_irq_t \<Rightarrow> U32 \<Rightarrow> U32 \<Rightarrow> U32 \<Rightarrow> 'a gpio_scheme \<Rightarrow> (int \<times> gpio_irq_t \<times> 'a gpio_scheme) option" where
  "gpio_irq_init obj pin handler i s =
     (if pin = NC then Some (- 1, obj, s)
      else
        let s = s\<lparr>irq_handler := handler\<rparr>;
            obj = obj\<lparr>irq_port := pin AND NOT 0x1F\<rparr>;
            obj = obj\<lparr>irq_pin := pin AND 0x1F\<rparr>
        in if irq_port obj \<noteq> LPC_GPIO0_BASE \<and> irq_port obj \<noteq> LPC_GPIO2_BASE then None
        else
          let index = (if irq_port obj = LPC_GPIO0_BASE then irq_pin obj else irq_pin obj + 32);
              s = s\<lparr>channel_ids := (channel_ids s)[unat index := i]\<rparr>;
              obj = obj\<lparr>irq_ch := index\<rparr>
          in Some (0, obj, s\<lparr>EINT3_vector := True, EINT3_enabled := True\<rparr>))"

definition gpio_irq_free :: "gpio_irq_t \<Rightarrow> 'a gpio_scheme \<Rightarrow> 'a gpio_scheme" where
  "gpio_irq_free obj s = s\<lparr>channel_ids := (channel_ids s)[unat (irq_ch obj) := 0]\<rparr>"

definition gpio_irq_set :: "gpio_irq_t \<Rightarrow> gpio_irq_event \<Rightarrow> bool \<Rightarrow> 'a gpio_scheme \<Rightarrow> 'a gpio_scheme" where
  "gpio_irq_set obj event enable s =
     (let m = push_bit (unat (irq_pin obj)) 1; port = irq_port obj;
          s = (if port = LPC_GPIO0_BASE then write_IO0IntClr m s
               else if port = LPC_GPIO2_BASE then write_IO2IntClr m s else s)
      in if event = IRQ_RISE then
        if port = LPC_GPIO0_BASE
        then s\<lparr>IO0IntEnR := if enable then IO0IntEnR s OR m else IO0IntEnR s AND NOT m\<rparr>
        else if port = LPC_GPIO2_BASE
        then s\<lparr>IO2IntEnR := if enable then IO2IntEnR s OR m else IO2IntEnR s AND NOT m\<rparr>
        else s
      else
        if port = LPC_GPIO0_BASE
        then s\<lparr>IO0IntEnF := if enable then IO0IntEnF s OR m else IO0IntEnF s AND NOT m\<rparr>
        else if port = LPC_GPIO2_BASE
        then s\<lparr>IO2IntEnF := if enable then IO2IntEnF s OR m else IO2IntEnF s AND NOT m\<rparr>
        else s)"

definition gpio_irq_enable :: "gpio_irq_t \<Rightarrow> 'a gpio_scheme \<Rightarrow> 'a gpio_scheme" where
  "gpio_irq_enable obj s = s\<lparr>EINT3_enabled := True\<rparr>"

definition gpio_irq_disable :: "gpio_irq_t \<Rightarrow> 'a gpio_scheme \<Rightarrow> 'a gpio_scheme" where
  "gpio_irq_disable obj s = s\<lparr>EINT3_enabled := False\<rparr>"

section \<open>\<open>InterruptIn\<close>\<close>

text \<open>\<open>this\<close> is the address of the object, which is its identifier; \<open>handler\<close> is the address of
  \<open>InterruptIn::_irq_handler\<close>, the only handler of the system.\<close>

definition InterruptIn :: "U32 \<Rightarrow> U32 \<Rightarrow> U32 \<Rightarrow> 'a gpio_scheme \<Rightarrow> 'a gpio_scheme option" where
  "InterruptIn handler this pin s =
     (let s = s\<lparr>ii_rise := (ii_rise s)(this := Donothing)\<rparr>;
          s = s\<lparr>ii_fall := (ii_fall s)(this := Donothing)\<rparr>
      in do {
        (_, obj, s) \<leftarrow> gpio_irq_init (ii_irq s this) pin handler this s;
        Some (s\<lparr>ii_irq := (ii_irq s)(this := obj)\<rparr>)
      })"

definition InterruptIn_destroy :: "U32 \<Rightarrow> 'a gpio_scheme \<Rightarrow> 'a gpio_scheme" where
  "InterruptIn_destroy this s = gpio_irq_free (ii_irq s this) s"

definition gpio_crit_enter :: "'a gpio_scheme \<Rightarrow> 'a gpio_scheme option" where
  "gpio_crit_enter s = map_option (\<lambda>c. s\<lparr>gpio_crit := c\<rparr>) (core_util_critical_section_enter (gpio_crit s))"

definition gpio_crit_exit :: "'a gpio_scheme \<Rightarrow> 'a gpio_scheme option" where
  "gpio_crit_exit s = map_option (\<lambda>c. s\<lparr>gpio_crit := c\<rparr>) (core_util_critical_section_exit (gpio_crit s))"

definition InterruptIn_rise :: "U32 \<Rightarrow> U32 option \<Rightarrow> 'a gpio_scheme \<Rightarrow> 'a gpio_scheme option" where
  "InterruptIn_rise this func s = do {
     s \<leftarrow> gpio_crit_enter s;
     let s = (case func of
         Some f \<Rightarrow> gpio_irq_set (ii_irq s this) IRQ_RISE True (s\<lparr>ii_rise := (ii_rise s)(this := Func f)\<rparr>)
       | None \<Rightarrow> gpio_irq_set (ii_irq s this) IRQ_RISE False (s\<lparr>ii_rise := (ii_rise s)(this := Donothing)\<rparr>));
     gpio_crit_exit s
   }"

definition InterruptIn_fall :: "U32 \<Rightarrow> U32 option \<Rightarrow> 'a gpio_scheme \<Rightarrow> 'a gpio_scheme option" where
  "InterruptIn_fall this func s = do {
     s \<leftarrow> gpio_crit_enter s;
     let s = (case func of
         Some f \<Rightarrow> gpio_irq_set (ii_irq s this) IRQ_FALL True (s\<lparr>ii_fall := (ii_fall s)(this := Func f)\<rparr>)
       | None \<Rightarrow> gpio_irq_set (ii_irq s this) IRQ_FALL False (s\<lparr>ii_fall := (ii_fall s)(this := Donothing)\<rparr>));
     gpio_crit_exit s
   }"

definition InterruptIn_enable_irq :: "U32 \<Rightarrow> 'a gpio_scheme \<Rightarrow> 'a gpio_scheme option" where
  "InterruptIn_enable_irq this s = do { s \<leftarrow> gpio_crit_enter s; gpio_crit_exit (gpio_irq_enable (ii_irq s this) s) }"

definition InterruptIn_disable_irq :: "U32 \<Rightarrow> 'a gpio_scheme \<Rightarrow> 'a gpio_scheme option" where
  "InterruptIn_disable_irq this s = do { s \<leftarrow> gpio_crit_enter s; gpio_crit_exit (gpio_irq_disable (ii_irq s this) s) }"

text \<open>What the functions do is the parameter \<open>fn\<close>.\<close>

definition call_fn :: "(U32 \<Rightarrow> 's \<Rightarrow> 's) \<Rightarrow> callback_fn \<Rightarrow> 's \<Rightarrow> 's" where
  "call_fn fn c s = (case c of Donothing \<Rightarrow> s | Func f \<Rightarrow> fn f s)"

definition InterruptIn_irq_handler :: "(U32 \<Rightarrow> 'a gpio_scheme \<Rightarrow> 'a gpio_scheme) \<Rightarrow> 'a irq_code" where
  "InterruptIn_irq_handler fn h i event s = (case event of
       IRQ_RISE \<Rightarrow> call_fn fn (ii_rise s i) s
     | IRQ_FALL \<Rightarrow> call_fn fn (ii_fall s i) s
     | IRQ_NONE \<Rightarrow> s)"

section \<open>What is delivered\<close>

text \<open>The calls of the handler for the pending bits of a port, whose identifiers start at \<open>k\<close>.\<close>

definition calls_of :: "U32 list \<Rightarrow> nat \<Rightarrow> nat \<Rightarrow> gpio_irq_event \<Rightarrow> U32 \<Rightarrow> (U32 \<times> gpio_irq_event) list" where
  "calls_of ids k n ev w = map (\<lambda>b. (ids ! (b + k), ev)) (filter (\<lambda>b. b < n \<and> ids ! (b + k) \<noteq> 0) (bits_desc w))"

definition deliveries :: "'a gpio_scheme \<Rightarrow> (U32 \<times> gpio_irq_event) list" where
  "deliveries s =
     calls_of (channel_ids s) 0 32 IRQ_RISE (IO0IntStatR s) @ calls_of (channel_ids s) 0 32 IRQ_FALL (IO0IntStatF s) @
     calls_of (channel_ids s) 32 16 IRQ_RISE (IO2IntStatR s) @ calls_of (channel_ids s) 32 16 IRQ_FALL (IO2IntStatF s)"

text \<open>The contract between the handler of the interrupt and what it calls: the registers and the table
  stay as they are, and the effect on a part \<open>view\<close> of the state is \<open>eff\<close>.\<close>

definition registers :: "'a gpio_scheme \<Rightarrow> _" where
  "registers s = (channel_ids s, irq_handler s, IO0IntStatR s, IO0IntStatF s, IO2IntStatR s, IO2IntStatF s)"

locale irq_client =
  fixes code :: "'a irq_code" and view :: "'a gpio_scheme \<Rightarrow> 'v" and eff :: "U32 \<Rightarrow> U32 \<Rightarrow> gpio_irq_event \<Rightarrow> 'v \<Rightarrow> 'v"
  assumes keeps: "registers (code h i ev s) = registers s"
    and effect: "view (code h i ev s) = eff h i ev (view s)"
    and clear: "view (write_IO0IntClr v s) = view s" "view (write_IO2IntClr v s) = view s"
begin

definition after_calls :: "U32 \<Rightarrow> (U32 \<times> gpio_irq_event) list \<Rightarrow> 'v \<Rightarrow> 'v" where
  "after_calls h cs v = fold (\<lambda>(i, ev). eff h i ev) cs v"

lemma after_calls_simps [simp]:
  "after_calls h [] v = v" "after_calls h ((i, ev) # cs) v = after_calls h cs (eff h i ev v)"
  "after_calls h (cs @ ds) v = after_calls h ds (after_calls h cs v)"
  by (simp_all add: after_calls_def)

lemma code_fields:
  "channel_ids (code h i ev s) = channel_ids s" "irq_handler (code h i ev s) = irq_handler s"
  "IO0IntStatR (code h i ev s) = IO0IntStatR s" "IO0IntStatF (code h i ev s) = IO0IntStatF s"
  "IO2IntStatR (code h i ev s) = IO2IntStatR s" "IO2IntStatF (code h i ev s) = IO2IntStatF s"
  using keeps [of h i ev s] by (simp_all add: registers_def)

end

lemma clear_fields [simp]:
  "channel_ids (write_IO0IntClr v s) = channel_ids s" "irq_handler (write_IO0IntClr v s) = irq_handler s"
  "IO0IntStatR (write_IO0IntClr v s) = IO0IntStatR s AND NOT v" "IO0IntStatF (write_IO0IntClr v s) = IO0IntStatF s AND NOT v"
  "IO2IntStatR (write_IO0IntClr v s) = IO2IntStatR s" "IO2IntStatF (write_IO0IntClr v s) = IO2IntStatF s"
  "channel_ids (write_IO2IntClr v s) = channel_ids s" "irq_handler (write_IO2IntClr v s) = irq_handler s"
  "IO2IntStatR (write_IO2IntClr v s) = IO2IntStatR s AND NOT v" "IO2IntStatF (write_IO2IntClr v s) = IO2IntStatF s AND NOT v"
  "IO0IntStatR (write_IO2IntClr v s) = IO0IntStatR s" "IO0IntStatF (write_IO2IntClr v s) = IO0IntStatF s"
  by (simp_all add: write_IO0IntClr_def write_IO2IntClr_def)

lemma bits_desc_0 [simp]: "bits_desc 0 = []"
  by (simp add: bits_desc_def)

lemma and_not_both: "(x AND NOT y) AND NOT x = (0 :: U32)"
  by (rule bit_word_eqI) (auto simp: bit_simps)

lemma and_not_rest:
  assumes "(w :: U32) \<noteq> 0"
  shows "(x AND NOT (2 ^ (31 - clz w))) AND NOT (w - 2 ^ (31 - clz w)) = x AND NOT w"
  unfolding sub_set_bit [OF first_bit(1) [OF assms]]
  by (rule bit_word_eqI) (use first_bit(1) [OF assms] in \<open>auto simp: bit_simps\<close>)

context irq_client
begin

text \<open>A loop clears the bits that it is given in both status registers, and calls the handler once for
  each of them that belongs to a channel in use.\<close>

lemma loop0_ok:
  "channel_ids (irq_loop0 code ev w s) = channel_ids s \<and> irq_handler (irq_loop0 code ev w s) = irq_handler s \<and>
   IO0IntStatR (irq_loop0 code ev w s) = IO0IntStatR s AND NOT w \<and> IO0IntStatF (irq_loop0 code ev w s) = IO0IntStatF s AND NOT w \<and>
   IO2IntStatR (irq_loop0 code ev w s) = IO2IntStatR s \<and> IO2IntStatF (irq_loop0 code ev w s) = IO2IntStatF s \<and>
   view (irq_loop0 code ev w s) = after_calls (irq_handler s) (calls_of (channel_ids s) 0 32 ev w) (view s)"
proof (induction "unat w" arbitrary: w s rule: less_induct)
  case less
  show ?case
  proof (cases "w = 0")
    case True
    then show ?thesis by (simp add: irq_loop0.simps [of code ev 0 s] calls_of_def)
  next
    case False
    let ?b = "31 - clz w"
    define s1 where "s1 = (if channel_ids s ! ?b \<noteq> 0 then code (irq_handler s) (channel_ids s ! ?b) ev s else s)"
    have e: "irq_loop0 code ev w s = irq_loop0 code ev (w - 2 ^ ?b) (write_IO0IntClr (2 ^ ?b) s1)"
      using False by (simp add: irq_loop0.simps [of code ev w s] s1_def Let_def word_gt_0)
    have f: "channel_ids s1 = channel_ids s" "irq_handler s1 = irq_handler s" "IO0IntStatR s1 = IO0IntStatR s"
      "IO0IntStatF s1 = IO0IntStatF s" "IO2IntStatR s1 = IO2IntStatR s" "IO2IntStatF s1 = IO2IntStatF s"
      by (simp_all add: s1_def code_fields)
    have v: "after_calls (irq_handler s) (calls_of (channel_ids s) 0 32 ev w) (view s) =
        after_calls (irq_handler s) (calls_of (channel_ids s) 0 32 ev (w - 2 ^ ?b)) (view s1)"
      using first_bit(2) [OF False] by (simp add: calls_of_def first_bit(3) [OF False] s1_def effect)
    show ?thesis
      using less [OF sub_bit_less [OF False], of "write_IO0IntClr (2 ^ ?b) s1"] unfolding e v
      by (simp add: f clear and_not_rest [OF False])
  qed
qed

lemma loop2_ok:
  "channel_ids (irq_loop2 code ev w s) = channel_ids s \<and> irq_handler (irq_loop2 code ev w s) = irq_handler s \<and>
   IO2IntStatR (irq_loop2 code ev w s) = IO2IntStatR s AND NOT w \<and> IO2IntStatF (irq_loop2 code ev w s) = IO2IntStatF s AND NOT w \<and>
   IO0IntStatR (irq_loop2 code ev w s) = IO0IntStatR s \<and> IO0IntStatF (irq_loop2 code ev w s) = IO0IntStatF s \<and>
   view (irq_loop2 code ev w s) = after_calls (irq_handler s) (calls_of (channel_ids s) 32 16 ev w) (view s)"
proof (induction "unat w" arbitrary: w s rule: less_induct)
  case less
  show ?case
  proof (cases "w = 0")
    case True
    then show ?thesis by (simp add: irq_loop2.simps [of code ev 0 s] calls_of_def)
  next
    case False
    let ?b = "31 - clz w"
    define s1 where "s1 = (if ?b < 16 \<and> channel_ids s ! (?b + 32) \<noteq> 0
      then code (irq_handler s) (channel_ids s ! (?b + 32)) ev s else s)"
    have e: "irq_loop2 code ev w s = irq_loop2 code ev (w - 2 ^ ?b) (write_IO2IntClr (2 ^ ?b) s1)"
      using False by (simp add: irq_loop2.simps [of code ev w s] s1_def Let_def word_gt_0)
    have f: "channel_ids s1 = channel_ids s" "irq_handler s1 = irq_handler s" "IO0IntStatR s1 = IO0IntStatR s"
      "IO0IntStatF s1 = IO0IntStatF s" "IO2IntStatR s1 = IO2IntStatR s" "IO2IntStatF s1 = IO2IntStatF s"
      by (simp_all add: s1_def code_fields)
    have v: "after_calls (irq_handler s) (calls_of (channel_ids s) 32 16 ev w) (view s) =
        after_calls (irq_handler s) (calls_of (channel_ids s) 32 16 ev (w - 2 ^ ?b)) (view s1)"
      by (simp add: calls_of_def first_bit(3) [OF False] s1_def effect)
    show ?thesis
      using less [OF sub_bit_less [OF False], of "write_IO2IntClr (2 ^ ?b) s1"] unfolding e v
      by (simp add: f clear and_not_rest [OF False])
  qed
qed

theorem handle_ok:
  "view (handle_interrupt_in code s) = after_calls (irq_handler s) (deliveries s) (view s)"
  "IO0IntStatR (handle_interrupt_in code s) = 0" "IO0IntStatF (handle_interrupt_in code s) = 0"
  "IO2IntStatR (handle_interrupt_in code s) = 0" "IO2IntStatF (handle_interrupt_in code s) = 0"
  "channel_ids (handle_interrupt_in code s) = channel_ids s"
  by (simp_all add: handle_interrupt_in_def Let_def loop0_ok loop2_ok deliveries_def and_not_both)

end

section \<open>The functions that are attached\<close>

text \<open>The contract of the functions that interrupts call: they do not touch the pins, and have the effect
  \<open>act\<close> on the part \<open>view\<close> of the rest of the system.\<close>

definition attached :: "'a gpio_scheme \<Rightarrow> U32 \<times> gpio_irq_event \<Rightarrow> callback_fn" where
  "attached s x = (case snd x of IRQ_RISE \<Rightarrow> ii_rise s (fst x) | IRQ_FALL \<Rightarrow> ii_fall s (fst x) | IRQ_NONE \<Rightarrow> Donothing)"

locale irq_functions =
  fixes fn :: "U32 \<Rightarrow> 'a gpio_scheme \<Rightarrow> 'a gpio_scheme" and view :: "'a gpio_scheme \<Rightarrow> 'v" and act :: "U32 \<Rightarrow> 'v \<Rightarrow> 'v"
  assumes own: "gpio.truncate (fn f s) = gpio.truncate s"
    and effect: "view (fn f s) = act f (view s)"
    and clear: "view (write_IO0IntClr v s) = view s" "view (write_IO2IntClr v s) = view s"
begin

lemma fn_fields:
  "channel_ids (fn f s) = channel_ids s" "irq_handler (fn f s) = irq_handler s" "ii_rise (fn f s) = ii_rise s"
  "ii_fall (fn f s) = ii_fall s" "IO0IntStatR (fn f s) = IO0IntStatR s" "IO0IntStatF (fn f s) = IO0IntStatF s"
  "IO2IntStatR (fn f s) = IO2IntStatR s" "IO2IntStatF (fn f s) = IO2IntStatF s"
  using own [of f s] by (simp_all add: gpio.truncate_def)

end

sublocale irq_functions \<subseteq> client: irq_client "InterruptIn_irq_handler fn" "\<lambda>s. (ii_rise s, ii_fall s, view s)"
  "\<lambda>h i ev (r, f, v). (r, f, case ev of IRQ_RISE \<Rightarrow> call_fn act (r i) v | IRQ_FALL \<Rightarrow> call_fn act (f i) v | IRQ_NONE \<Rightarrow> v)"
proof
  fix h i ev s
  show "registers (InterruptIn_irq_handler fn h i ev s) = registers s"
    by (simp add: registers_def InterruptIn_irq_handler_def call_fn_def fn_fields split: gpio_irq_event.split callback_fn.split)
  show "(ii_rise (InterruptIn_irq_handler fn h i ev s), ii_fall (InterruptIn_irq_handler fn h i ev s), view (InterruptIn_irq_handler fn h i ev s)) =
      (case (ii_rise s, ii_fall s, view s) of (r, f, v) \<Rightarrow>
        (r, f, case ev of IRQ_RISE \<Rightarrow> call_fn act (r i) v | IRQ_FALL \<Rightarrow> call_fn act (f i) v | IRQ_NONE \<Rightarrow> v))"
    by (simp add: InterruptIn_irq_handler_def call_fn_def fn_fields effect split: gpio_irq_event.split callback_fn.split)
qed (simp_all add: clear, simp_all add: write_IO0IntClr_def write_IO2IntClr_def)

context irq_functions
begin

text \<open>Every function that is attached to a pending edge is called once, in the order of \<open>deliveries\<close>.\<close>

theorem attached_called:
  "view (handle_interrupt_in (InterruptIn_irq_handler fn) s) = fold (\<lambda>x. call_fn act (attached s x)) (deliveries s) (view s)"
proof -
  let ?e = "\<lambda>x. case x of (i, ev) \<Rightarrow> \<lambda>(r, f, v). (r, f, case ev of IRQ_RISE \<Rightarrow> call_fn act (r i) v | IRQ_FALL \<Rightarrow> call_fn act (f i) v | IRQ_NONE \<Rightarrow> v)"
  have "fold ?e xs (ii_rise s, ii_fall s, v) = (ii_rise s, ii_fall s, fold (\<lambda>x. call_fn act (attached s x)) xs v)" for xs v
  proof (induction xs arbitrary: v)
    case (Cons x xs)
    then show ?case by (cases x; cases "snd x") (simp_all add: attached_def call_fn_def)
  qed simp
  then show ?thesis using client.handle_ok(1) [of s] by (simp add: client.after_calls_def)
qed

end

text \<open>The calls for a port, bit by bit.\<close>

lemma fold_calls_of:
  "fold g (calls_of ids k n ev w) v =
   fold (\<lambda>b v. if bit w b \<and> b < n \<and> ids ! (b + k) \<noteq> 0 then g (ids ! (b + k), ev) v else v) (rev [0..<32]) v"
proof -
  have "fold g (map (\<lambda>b. (ids ! (b + k), ev)) (filter (\<lambda>b. b < n \<and> ids ! (b + k) \<noteq> 0) (filter (bit w) xs))) v =
      fold (\<lambda>b v. if bit w b \<and> b < n \<and> ids ! (b + k) \<noteq> 0 then g (ids ! (b + k), ev) v else v) xs v" for xs
    by (induction xs arbitrary: v) auto
  then show ?thesis unfolding calls_of_def bits_desc_def .
qed

end
