(* ===== verification/Mbed_Properties.thy ===== *)
theory Mbed_Properties
  imports Mbed_Critical Mbed_Ticker Equeue_Order Rtx_Memory Gpio_Irq
begin

text \<open>
  The properties of the platform layer: critical sections and atomic operations, the allocator of the
  kernel, tickers and the event queue, each with an instance.
\<close>

section \<open>Critical sections\<close>

text \<open>C35: critical sections nest: after any sequence of entries and exits that never leaves a section
  that is not open, interrupts are disabled exactly when a section is open, and else as they were at the
  start; none of the assertions fails.\<close>

theorem critical_sections_nest:
  assumes "interrupt_enable_counter s = 0" "nests 0 xs d" "length xs < 4294967296"
  shows "\<exists>s'. critical_run xs s = Some s' \<and> unat (interrupt_enable_counter s') = d \<and>
    primask s' = (0 < d \<or> primask s)"
proof -
  have "critical_at (primask s) 0 s" using assms(1) by (simp add: critical_at_def)
  then obtain s' where "critical_run xs s = Some s'" "critical_at (primask s) d s'"
    using critical_run_ok [of "primask s" 0 s xs d] assms(2,3) by auto
  then show ?thesis by (auto simp: critical_at_def split: if_splits)
qed

theorem critical_sections_nest_witness:
  "\<exists>s'. critical_run [Enter, Enter, Exit] \<lparr>interrupt_enable_counter = 0, critical_interrupts_disabled = False, primask = False\<rparr> = Some s' \<and>
     unat (interrupt_enable_counter s') = 1 \<and> primask s'"
  using critical_sections_nest [of "\<lparr>interrupt_enable_counter = 0, critical_interrupts_disabled = False, primask = False\<rparr>" "[Enter, Enter, Exit]" 1]
  by simp

text \<open>C36: where the two implementations of the atomic operations agree: the compare and swap by exclusive
  access returns and leaves what that in a critical section does when nothing disturbs it; the increment
  and the decrement do so on what any disturbances have left in the variable.  A compare and swap that is
  disturbed differs: it reports a failure, without a store, although it has read the expected value.\<close>

theorem atomic_variants_agree:
  assumes "critical_at p d s" "d < 4294967295"
  shows "(\<exists>s'. section_cas s m e v = Some (core_util_atomic_cas_u32 None m e v, s') \<and> critical_at p d s') \<and>
    (\<exists>s'. section_incr s (fold (\<lambda>f. f) fs m) v = Some (core_util_atomic_incr_u32 fs m v, s') \<and> critical_at p d s') \<and>
    (\<exists>s'. section_decr s (fold (\<lambda>f. f) fs m) v = Some (core_util_atomic_decr_u32 fs m v, s') \<and> critical_at p d s') \<and>
    (\<forall>f. core_util_atomic_cas_u32 (Some f) e e v = (False, f e, e))"
  unfolding core_util_atomic_cas_u32_def core_util_atomic_incr_u32_def core_util_atomic_decr_u32_def
    atomic_after [of fs m] by (intro conjI allI section_ops_agree [OF assms] atomic_cas_disturbed)

theorem atomic_variants_agree_witness:
  "\<exists>s'. section_incr \<lparr>interrupt_enable_counter = 0, critical_interrupts_disabled = False, primask = False\<rparr> (fold (\<lambda>f. f) [\<lambda>x. x + 1] 4) 2 =
     Some (core_util_atomic_incr_u32 [\<lambda>x. x + 1] 4 2, s')"
  using atomic_variants_agree [of False 0 "\<lparr>interrupt_enable_counter = 0, critical_interrupts_disabled = False, primask = False\<rparr>" 4 0 2 "[\<lambda>x. x + 1]"]
  by (auto simp: critical_at_def)

section \<open>The allocator of the kernel\<close>

text \<open>C19: whatever sequence of allocations, releases of held blocks and writes into held blocks a client
  makes on a new pool, with sizes of at most 4294967284 bytes, every call returns, and the blocks that it
  holds lie in the pool behind a header, are aligned and do not overlap.  A larger size wraps around when
  the header is added, and the block that is granted is shorter than what was asked for.\<close>

theorem heap_blocks_disjoint:
  assumes "pl \<noteq> 0" "12 \<le> unat sz" "unat pl + unat sz \<le> 4294967296" "4 dvd unat pl" "4 dvd unat sz"
    and "oks (heap_step pl) heap_ok es (snd (rt_init_mem pl sz m), Map.empty)"
  shows "\<exists>m' L. runs (heap_step pl) es (snd (rt_init_mem pl sz m), Map.empty) = Some (m', L) \<and>
    (\<forall>p z. L p = Some z \<longrightarrow> unat pl + 8 \<le> unat p \<and> unat p + unat z + 4 \<le> unat pl + unat sz \<and> 4 dvd unat p \<and>
      (\<forall>q w. L q = Some w \<longrightarrow> p = q \<or> unat p + unat z + 8 \<le> unat q \<or> unat q + unat w + 8 \<le> unat p))"
proof -
  obtain m0 where i: "rt_init_mem pl sz m = (0, m0)" "heap_pool pl (pl + sz - 4) m0 [(pl, 0)]" "live [(pl, 0)] = {}"
    by (rule rt_init_mem_ok [OF assms(1-5)])
  have "heap_inv pl (pl + sz - 4) (m0, Map.empty)" using i(2,3) by (auto simp: held_def intro!: exI [of _ "[(pl, 0)]"])
  then obtain m' L where r: "runs (heap_step pl) es (m0, Map.empty) = Some (m', L)" "heap_inv pl (pl + sz - 4) (m', L)"
    using heap.runs_inv [of pl "pl + sz - 4" "(m0, Map.empty)" es] assms(6) i(1) by auto
  have "unat (pl + sz - 4) + 4 = unat pl + unat sz" using pool_end_unat [OF assms(2,3)] assms(2) by simp
  then have en: "unat p + unat z + 4 \<le> unat pl + unat sz" if "L p = Some z" for p z
    using heap_inv_disjoint(2) [OF r(2) that] by simp
  show ?thesis
    by (intro exI [of _ m'] exI [of _ L] conjI allI impI)
      (use r(1) i(1) en heap_inv_disjoint [OF r(2)] in \<open>simp, blast+\<close>)
qed


theorem heap_blocks_disjoint_witness:
  "\<exists>m L. runs (heap_step 4096) [Alloc 5, Alloc 9, Alloc 100] (snd (rt_init_mem 4096 64 (\<lambda>a. 0)), Map.empty) = Some (m, L) \<and>
     (\<forall>p z. L p = Some z \<longrightarrow> 4104 \<le> unat p \<and> unat p + unat z \<le> 4156)"
proof -
  have ok: "oks (heap_step 4096) heap_ok [Alloc 5, Alloc 9, Alloc 100] s" for s
    by (cases s) auto
  show ?thesis using heap_blocks_disjoint [of 4096 64 "[Alloc 5, Alloc 9, Alloc 100]" "\<lambda>a. 0", OF _ _ _ _ _ ok] by fastforce
qed

section \<open>Tickers\<close>

text \<open>C24: an event that is inserted comes before those of later times and behind all others, whatever the
  counter reads; the interrupt stays set to the first event, and the critical section is left.\<close>

theorem ticker_insert_in_order:
  assumes "tqueue b s xs" "x \<noteq> NULL" "x \<notin> set xs" "near b t" "critical_at m d (crit s)" "d < 4294967295" "armed s"
  shows "\<exists>s'. ticker_insert_event x t i s = Some s' \<and> armed s' \<and> critical_at m d (crit s') \<and>
    ev_timestamp s' = (ev_timestamp s)(x := t) \<and>
    tqueue b s' (takeWhile (\<lambda>y. after b (ev_timestamp s y) \<le> after b t) xs @ x #
      dropWhile (\<lambda>y. after b (ev_timestamp s y) \<le> after b t) xs)"
proof -
  obtain s' where s': "ticker_insert_event x t i s = Some s'"
    "tqueue b s' (ins_prio ((urgency b s)(x := - int (after b t))) x xs)" "critical_at m d (crit s')"
    "ev_timestamp s' = (ev_timestamp s)(x := t)" "armed s'"
    by (rule ticker_insert_ok [where i = i, OF assms(1-6)]) (rule that, simp_all add: assms(7))
  have "takeWhile (\<lambda>y. ((urgency b s)(x := - int (after b t))) x \<le> ((urgency b s)(x := - int (after b t))) y) xs =
      takeWhile (\<lambda>y. after b (ev_timestamp s y) \<le> after b t) xs"
    by (rule takeWhile_cong) (use assms(3) in \<open>auto simp: urgency_def\<close>)
  moreover have "dropWhile (\<lambda>y. ((urgency b s)(x := - int (after b t))) x \<le> ((urgency b s)(x := - int (after b t))) y) xs =
      dropWhile (\<lambda>y. after b (ev_timestamp s y) \<le> after b t) xs"
    by (rule dropWhile_cong) (use assms(3) in \<open>auto simp: urgency_def\<close>)
  ultimately show ?thesis using s' assms(7) unfolding ins_prio_def by metis
qed

text \<open>A queue with the events 1 and 2 of the times \<open>0xFFFFFFF0\<close> and 16, on both sides of the wrap-around.\<close>

definition ex_ticker :: ticker where
  "ex_ticker = \<lparr>hw = \<lparr>us_ticker_inited = True, tim_powered = True, tim_CTCR = 0, tim_TCR = 1, tim_PR = 23,
     tim_irq_enabled = True, tim_MR0 = 0xFFFFFFF0, tim_MCR = 1\<rparr>,
   crit = \<lparr>interrupt_enable_counter = 0, critical_interrupts_disabled = False, primask = False\<rparr>, event_handler = True,
   ev_head = CB 4, ev_timestamp = (\<lambda>x. if x = CB 4 then 0xFFFFFFF0 else 16), ev_id = (\<lambda>x. if x = CB 4 then 1 else 2),
   ev_next = (\<lambda>x. if x = CB 4 then CB 8 else NULL)\<rparr>"

lemma ex_tqueue: "tqueue 0xFFFFFF00 ex_ticker [CB 4, CB 8]" "armed ex_ticker" "critical_at False 0 (crit ex_ticker)"
  by (simp_all add: tqueue_def ex_ticker_def by_prio_def urgency_def near_def after_def armed_def critical_at_def)

theorem ticker_insert_in_order_witness:
  "\<exists>s'. ticker_insert_event (CB 12) 3 7 ex_ticker = Some s' \<and> tqueue 0xFFFFFF00 s' [CB 4, CB 12, CB 8]"
  using ticker_insert_in_order [OF ex_tqueue(1) _ _ _ ex_tqueue(3) _ ex_tqueue(2), of "CB 12" 3 7]
  by (auto simp: near_def after_def ex_ticker_def)

text \<open>C25: the interrupt handler calls the handlers of the events that are due, once each and in order, and
  no others; it leaves the rest in the queue and sets the interrupt to the next one, or disables it.  Each
  event is compared with the counter as it reads in its turn.\<close>

theorem ticker_irq_runs_due:
  assumes "tqueue b s xs" "event_handler s" "length xs \<le> length tcs" "\<forall>t\<in>set tcs. near b t"
  shows "\<exists>s' k. ticker_irq_handler clk (calls g) tcs s = Some s' \<and> k \<le> length xs \<and> tqueue b s' (drop k xs) \<and> armed s' \<and>
    ticker.more s' = fold g (map (ev_id s) (take k xs)) (ticker.more s) \<and>
    (\<forall>i<k. after b (ev_timestamp s (xs ! i)) \<le> after b (tcs ! i)) \<and>
    (k < length xs \<longrightarrow> after b (tcs ! k) < after b (ev_timestamp s (xs ! k)))"
  unfolding ticker_irq_handler_def using ticker_irq_ok [OF assms] by metis


lemma ex_extend: "tqueue b (ticker.extend s x) xs = tqueue b s xs" "event_handler (ticker.extend s x) = event_handler s"
  "ev_timestamp (ticker.extend s x) = ev_timestamp s" "ev_id (ticker.extend s x) = ev_id s" "ticker.more (ticker.extend s x) = x"
  by (simp_all add: ticker.defs tqueue_def by_prio_def urgency_def)

lemma ex_ticker_handler: "event_handler ex_ticker = True"
  by (simp add: ex_ticker_def)

lemma ex_late: "\<not> (0 < length [CB 4, CB 8] \<longrightarrow> after 0xFFFFFF00 ([0, 20] ! 0) < after 0xFFFFFF00 (ev_timestamp ex_ticker ([CB 4, CB 8] ! 0)))"
  "\<not> (1 < length [CB 4, CB 8] \<longrightarrow> after 0xFFFFFF00 ([0, 20] ! 1) < after 0xFFFFFF00 (ev_timestamp ex_ticker ([CB 4, CB 8] ! 1)))"
  by (simp_all add: ex_ticker_def after_def)

theorem ticker_irq_runs_due_witness:
  "\<exists>s'. ticker_irq_handler 96000000 (calls (\<lambda>i xs. xs @ [i])) [0, 20] (ticker.extend ex_ticker []) = Some s' \<and>
     ticker.more s' = [1, 2] \<and> tqueue 0xFFFFFF00 s' []"
proof -
  have near: "\<forall>t\<in>set [0, 20]. near 0xFFFFFF00 t" by (simp add: near_def after_def)
  obtain s' k where s': "ticker_irq_handler 96000000 (calls (\<lambda>i xs. xs @ [i])) [0, 20] (ticker.extend ex_ticker []) = Some s'"
    "k \<le> length [CB 4, CB 8]" "tqueue 0xFFFFFF00 s' (drop k [CB 4, CB 8])"
    "ticker.more s' = fold (\<lambda>i xs. xs @ [i]) (map (ev_id ex_ticker) (take k [CB 4, CB 8])) []"
    "k < length [CB 4, CB 8] \<longrightarrow> after 0xFFFFFF00 ([0, 20] ! k) < after 0xFFFFFF00 (ev_timestamp ex_ticker ([CB 4, CB 8] ! k))"
    using ticker_irq_runs_due [where s = "ticker.extend ex_ticker []" and b = "0xFFFFFF00" and xs = "[CB 4, CB 8]" and tcs = "[0, 20]"
        and clk = 96000000 and g = "\<lambda>i xs. xs @ [i]", unfolded ex_extend, OF ex_tqueue(1) _ _ near]
    by (auto simp only: ex_ticker_handler list.size One_nat_def)
  have "k \<noteq> 0" "k \<noteq> 1" using s'(5) by (metis ex_late)+
  then have "k = 2" using s'(2) by simp
  then show ?thesis using s' by (auto simp: ex_ticker_def)
qed

text \<open>C26: a periodic event keeps its phase: an interrupt handler that comes late by any time calls the function
  once for every period that has passed, and sets the event to the next multiple of the period after its
  original time.\<close>

theorem ticker_keeps_phase:
  assumes "tqueue b s [event i]" "event_handler s" "ev_id s (event i) = i" "critical_at m c (crit s)" "c < 4294967295"
    and "p = unat (ticker_delay s i)" "0 < p" "p < 1073741824" "now = ev_timestamp s (event i) + late" "unat late < 1073741824"
  shows "\<exists>s'. ticker_irq_handler clk (Ticker_handler event g) (replicate (unat late div p + 2) now) s = Some s' \<and>
    ev_timestamp s' (event i) = ev_timestamp s (event i) + word_of_nat (unat late div p + 1) * ticker_delay s i \<and>
    ticker_obj.more s' = (g i ^^ (unat late div p + 1)) (ticker_obj.more s) \<and> armed s' \<and> critical_at m c (crit s')"
  unfolding ticker_irq_handler_def using Ticker_catches_up [where event = event and i = i, OF assms] by metis

definition ex_periodic :: "nat ticker_obj_scheme" where
  "ex_periodic = \<lparr>hw = hw ex_ticker, crit = crit ex_ticker, event_handler = True, ev_head = CB 4,
   ev_timestamp = (\<lambda>x. 0xFFFFFFF0), ev_id = (\<lambda>x. 1), ev_next = (\<lambda>x. NULL), ticker_delay = (\<lambda>i. 10), \<dots> = 0\<rparr>"

lemma ex_per: "event_handler ex_periodic = True" "ev_id ex_periodic x = 1" "ticker_delay ex_periodic j = 10"
  "ev_timestamp ex_periodic x = 0xFFFFFFF0" "ticker_obj.more ex_periodic = 0"
  "tqueue 0xFFFFFFF0 ex_periodic [CB 4]" "critical_at False 0 (crit ex_periodic)"
  using ex_tqueue(3) by (simp_all add: ex_periodic_def tqueue_def by_prio_def near_def after_def)

lemma replicate_5: "replicate 5 x = [x, x, x, x, x]"
  by (simp add: numeral_eq_Suc)

lemma ex_turns: "replicate (unat (31 :: U32) div unat (10 :: U32) + 2) (15 :: U32) = [15, 15, 15, 15, 15]"
  "unat (31 :: U32) div unat (10 :: U32) + 1 = 4"
proof -
  have "unat (31 :: U32) div unat (10 :: U32) + 2 = 5" by simp
  then show "replicate (unat (31 :: U32) div unat (10 :: U32) + 2) (15 :: U32) = [15, 15, 15, 15, 15]" by (simp only: replicate_5)
qed simp

theorem ticker_keeps_phase_witness:
  "\<exists>s'. ticker_irq_handler 96000000 (Ticker_handler (\<lambda>i. CB 4) (\<lambda>i. Suc)) [15, 15, 15, 15, 15] ex_periodic = Some s' \<and>
     ev_timestamp s' (CB 4) = 24 \<and> ticker_obj.more s' = 4"
proof -
  obtain s' where "ticker_irq_handler 96000000 (Ticker_handler (\<lambda>i. CB 4) (\<lambda>i. Suc)) [15, 15, 15, 15, 15] ex_periodic = Some s'"
    "ev_timestamp s' (CB 4) = 0xFFFFFFF0 + word_of_nat 4 * 10" "ticker_obj.more s' = (Suc ^^ 4) 0"
    using ticker_keeps_phase [where b = "0xFFFFFFF0" and s = ex_periodic and event = "\<lambda>i. CB 4" and i = 1 and m = False and c = 0
        and p = "unat (10 :: U32)" and now = 15 and late = 31 and clk = 96000000 and g = "\<lambda>i. Suc", unfolded ex_per ex_turns] ex_per(6,7) by auto
  then show ?thesis by (intro exI [of _ s']) simp
qed


section \<open>The event queue\<close>

text \<open>C20: posting an event is the insertion of the event into the list of the pending events in the order
  in which they will run: behind the events of the same or an earlier time and before the later ones; its
  time is not before the present.  The slots implement that list.\<close>

theorem post_inserts_by_time:
  assumes "slots b s sls" "e \<noteq> NULL" "e \<notin> set (order sls)" "near b (clamped (e_target s e) tick)"
  shows "\<exists>i s' sls'. equeue_enqueue e tick s = Some (i, s') \<and> slots b s' sls' \<and>
    e_target s' = (e_target s)(e := clamped (e_target s e) tick) \<and>
    order sls' = takeWhile (\<lambda>x. after b (e_target s x) \<le> after b (e_target s' e)) (order sls) @ e #
      dropWhile (\<lambda>x. after b (e_target s x) \<le> after b (e_target s' e)) (order sls)"
proof -
  have e: "e \<notin> set (concat sls)" using assms(3) by (simp only: order_simps(4)) simp
  obtain s' sls' where s': "equeue_enqueue e tick s = Some (push_bit (unat (q_npw2 s)) (ucast (e_id s e)) OR (address e - q_buffer s), s')"
    "slots b s' sls'" "order sls' = ins_prio (urgent b s') e (order sls)" "e_target s' = (e_target s)(e := clamped (e_target s e) tick)"
    by (rule enqueue_slots [OF assms(1,2) e refl assms(4)])
  have "takeWhile (\<lambda>x. urgent b s' e \<le> urgent b s' x) (order sls) = takeWhile (\<lambda>x. after b (e_target s x) \<le> after b (e_target s' e)) (order sls)"
    by (rule takeWhile_cong) (use assms(3) s'(4) in \<open>auto simp: urgent_def\<close>)
  moreover have "dropWhile (\<lambda>x. urgent b s' e \<le> urgent b s' x) (order sls) = dropWhile (\<lambda>x. after b (e_target s x) \<le> after b (e_target s' e)) (order sls)"
    by (rule dropWhile_cong) (use assms(3) s'(4) in \<open>auto simp: urgent_def\<close>)
  ultimately show ?thesis using s' unfolding ins_prio_def by metis
qed

text \<open>A queue at the time 5 with two events of the time 10 and one of the time 20.\<close>

definition ex_equeue :: equeue where
  "ex_equeue = \<lparr>q_queue = CB 0x1058, q_tick = 5, q_breaks = 0, q_generation = 3, q_buffer = 0x1000, q_npw2 = 11,
   q_chunks = NULL, slab_size = 0, slab_data = 0, bg_active = False, bg_update = False, q_log = [], e_size = (\<lambda>x. 44),
   e_id = (\<lambda>x. 1), e_generation = (\<lambda>x. 3), e_next = (\<lambda>x. if x = CB 0x1058 then CB 0x1000 else NULL),
   e_sibling = (\<lambda>x. if x = CB 0x1058 then CB 0x102C else NULL), e_ref = (\<lambda>x. AT_QUEUE),
   e_target = (\<lambda>x. if x = CB 0x1000 then 20 else 10), e_period = (\<lambda>x. - 1), e_dtor = (\<lambda>x. ucast (address x)), e_cb = (\<lambda>x. USER_CB 8),
   ec_cb = (\<lambda>x. 0), ec_data = (\<lambda>x. 0)\<rparr>"

lemma ex_slots: "slots 0 ex_equeue [[CB 0x1058, CB 0x102C], [CB 0x1000]]"
  by (simp add: slots_def slot_def slot_time_def near_def after_def ex_equeue_def)

theorem post_inserts_by_time_witness:
  "\<exists>i s' sls'. equeue_enqueue (CB 0x1084) 6 ex_equeue = Some (i, s') \<and> slots 0 s' sls' \<and>
     order sls' = [CB 0x102C, CB 0x1058, CB 0x1084, CB 0x1000]"
  using post_inserts_by_time [OF ex_slots, of "CB 0x1084" 6] by (auto simp: clamped_def near_def after_def ex_equeue_def)

text \<open>C21: the events that are taken out at a time are exactly those that are due, in the order of their times
  and first come first served among equals, each once; the others stay in the queue in their order.\<close>

theorem dequeue_takes_due:
  assumes "slots b s sls" "near b now"
  shows "\<exists>h s' sls'. equeue_dequeue now s = Some (h, s') \<and>
    chain (e_next s') h (takeWhile (\<lambda>x. after b (e_target s x) \<le> after b now) (order sls)) NULL \<and>
    slots b s' sls' \<and> order sls' = dropWhile (\<lambda>x. after b (e_target s x) \<le> after b now) (order sls) \<and>
    q_generation s' = q_generation s + 1 \<and> e_target s' = e_target s \<and> e_cb s' = e_cb s"
proof -
  obtain h s' sls' where s': "equeue_dequeue now s = Some (h, s')"
    "chain (e_next s') h (takeWhile (due b now s) (order sls)) NULL" "slots b s' sls'" "order sls' = dropWhile (due b now s) (order sls)"
    "s' = s\<lparr>q_generation := q_generation s + 1, q_tick := if equeue_tickdiff (q_tick s) now \<le> 0 then now else q_tick s,
      q_queue := q_queue s', e_next := e_next s', e_ref := e_ref s'\<rparr>"
    by (rule dequeue_slots [OF assms])
  have "q_generation s' = q_generation s + 1 \<and> e_target s' = e_target s \<and> e_cb s' = e_cb s"
    by (subst (1 2 3) s'(5)) simp
  then show ?thesis using s'(1-4) unfolding due_def [abs_def] by blast
qed

theorem dequeue_takes_due_witness:
  "\<exists>h s'. equeue_dequeue 12 ex_equeue = Some (h, s') \<and> chain (e_next s') h [CB 0x102C, CB 0x1058] NULL \<and>
     (\<exists>sls'. slots 0 s' sls' \<and> order sls' = [CB 0x1000])"
  using dequeue_takes_due [OF ex_slots, of 12] by (auto simp: near_def after_def ex_equeue_def)

text \<open>C22: an event that has been posted is taken out again by its identifier: the pending events are those
  from before in the same order, and the identifier is not valid any more.\<close>

theorem cancel_undoes_post:
  assumes "slots b s sls" "in_buffer s e" "e \<notin> set (order sls)" "near b (clamped (e_target s e) tick)"
    and "near b (q_tick s)" "after b (q_tick s) \<le> after b (clamped (e_target s e) tick)"
  shows "\<exists>i s1 s2 sls'. equeue_enqueue e tick s = Some (i, s1) \<and> equeue_unqueue i s1 = (e, s2) \<and>
    slots b s2 sls' \<and> order sls' = order sls \<and> equeue_cancel i s2 = Some s2"
proof -
  have e: "e \<notin> set (concat sls)" using assms(3) by (simp only: order_simps(4)) simp
  show ?thesis using enqueue_unqueue [OF assms(1,2) e refl assms(4-6)] by metis
qed

theorem cancel_undoes_post_witness:
  "\<exists>i s1 s2 sls'. equeue_enqueue (CB 0x1084) 6 ex_equeue = Some (i, s1) \<and> equeue_unqueue i s1 = (CB 0x1084, s2) \<and>
     slots 0 s2 sls' \<and> order sls' = [CB 0x102C, CB 0x1058, CB 0x1000]"
  using cancel_undoes_post [OF ex_slots, of "CB 0x1084" 6]
  by (auto simp: in_buffer_def pointer_def clamped_def near_def after_def ex_equeue_def)

text \<open>C23: when the first of two events of the same time is cancelled while an event of a later time is the
  next in the queue, the dispatcher takes the later event out with the other one, before its time and in
  front of it, and keeps it in the queue as well.\<close>

theorem cancel_runs_later_event_early:
  assumes "slots b s ([z] # sls)" "in_buffer s e" "e \<notin> set (order ([z] # sls))" "y \<noteq> NULL" "y \<noteq> e" "y \<notin> set (order ([z] # sls))"
    and "clamped (e_target s e) tick = t" "clamped (e_target s y) tick = t" "near b t" "after b t < after b (e_target s z)"
    and "near b (q_tick s)" "after b (q_tick s) \<le> after b t"
  shows "\<exists>i j s1 s2 s3 s4. equeue_enqueue e tick s = Some (i, s1) \<and> equeue_enqueue y tick s1 = Some (j, s2) \<and>
    equeue_unqueue i s2 = (e, s3) \<and> equeue_dequeue t s3 = Some (z, s4) \<and> e_next s4 z = y \<and> q_queue s4 = z"
proof -
  have n: "e \<notin> set (concat ([z] # sls))" "y \<notin> set (concat ([z] # sls))" using assms(3,6) by (simp_all add: order_simps)
  obtain i s1 i2 s2 s3 where c: "equeue_enqueue e tick s = Some (i, s1)" "equeue_enqueue y tick s1 = Some (i2, s2)"
    "equeue_unqueue i s2 = (e, s3)" "e_sibling s3 y = z" "e_next s3 y = z" "q_queue s3 = y" "e_sibling s3 z = NULL"
    "e_target s3 y = t" "e_target s3 z = e_target s z" "y \<noteq> z" "z \<noteq> NULL"
    by (rule cancel_second [OF assms(1,2) n(1) assms(4,5) n(2) assms(7) [symmetric] assms(8) [symmetric] assms(9-12)])
  have "near b (e_target s3 z)" using slots_Cons [OF assms(1)] c(9) by simp
  then obtain s4 where "equeue_dequeue t s3 = Some (z, s4)" "e_next s4 z = y" "q_queue s4 = z"
    using dequeue_merged [OF c(6) assms(4) c(11) c(10) c(4,5,7,8) assms(9)] assms(10) c(9) by auto
  then show ?thesis using c(1-3) by blast
qed

lemma ex_slots_1: "slots 0 (ex_equeue\<lparr>q_queue := CB 0x1000\<rparr>) [[CB 0x1000]]"
  by (simp add: slots_def slot_def slot_time_def near_def after_def ex_equeue_def)

theorem cancel_runs_later_event_early_witness:
  "\<exists>i j s1 s2 s3 s4. equeue_enqueue (CB 0x102C) 6 (ex_equeue\<lparr>q_queue := CB 0x1000\<rparr>) = Some (i, s1) \<and>
     equeue_enqueue (CB 0x1058) 6 s1 = Some (j, s2) \<and> equeue_unqueue i s2 = (CB 0x102C, s3) \<and>
     equeue_dequeue 10 s3 = Some (CB 0x1000, s4) \<and> e_next s4 (CB 0x1000) = CB 0x1058 \<and> q_queue s4 = CB 0x1000"
  by (rule cancel_runs_later_event_early [OF ex_slots_1])
    (simp_all add: in_buffer_def pointer_def clamped_def near_def after_def ex_equeue_def)

end
