(* ===== verification/Ams_State.thy ===== *)
theory Ams_State
  imports Prelude
begin

text \<open>
  The state of the accumulator management system's controllers (\<open>controller/\<close>): the state of the
  state machine (\<open>StateController\<close>), of the two contactors (\<open>ContactorController\<close>) and of the
  outputs of \<open>BMSController\<close>, and the levels of the input pins that the status functions read
  (\<open>BMSController\<close>, \<open>InsulationMonitoringDevice\<close>, \<open>StackPlausibility\<close>).

  Every handler reads an input pin at most once, so the levels that it reads, at whatever times, are
  one record of inputs.  A running \<open>RtosTimer\<close> holds the milliseconds until it expires; when it
  expires its callback is posted to the timer thread, which runs it later.
\<close>

section \<open>States and events\<close>

datatype scs = scsNonResettableLatchingError | scsLatchingError | scsInitialising
  | scsWaitingForInternalSafety | scsWaitingForTractiveLoop | scsWaitingForShutdownCircuit
  | scsWaitingForPrechargeActivation | scsStartedPrecharge | scsPrechargeMinimumTimeExceeded
  | scsTractiveSystemRaceReady

datatype sce = sceCANBusIntegrityError | sceStackPlausibilityError | sceHardwareOvercurrentError
  | sceInsulationMonitoringDeviceError | sceBatteryManagementSystemError
  | sceContactorHardwareFaultError | sceContactorSequenceError
  | sceDriverEnablesTractiveSystem | sceDriverDeactivatesTractiveSystem

datatype hvc = hvcInitialising | hvcLatchingMechanicalError | hvcAllOpen | hvcPrecharge
  | hvcHighCurrentRun

text \<open>The numbers of the states; the code compares states by them and takes the coils from the bits
  of the contactor state.\<close>

definition HVC_MASK_PRECHARGE :: U32 where "HVC_MASK_PRECHARGE = push_bit 2 1"
definition HVC_MASK_RUN :: U32 where "HVC_MASK_RUN = push_bit 3 1"

primrec scs_val :: "scs \<Rightarrow> nat" where
  "scs_val scsNonResettableLatchingError = 0"
| "scs_val scsLatchingError = 1"
| "scs_val scsInitialising = 2"
| "scs_val scsWaitingForInternalSafety = 3"
| "scs_val scsWaitingForTractiveLoop = 4"
| "scs_val scsWaitingForShutdownCircuit = 5"
| "scs_val scsWaitingForPrechargeActivation = 6"
| "scs_val scsStartedPrecharge = 7"
| "scs_val scsPrechargeMinimumTimeExceeded = 8"
| "scs_val scsTractiveSystemRaceReady = 9"

primrec hvc_val :: "hvc \<Rightarrow> U32" where
  "hvc_val hvcInitialising = 0"
| "hvc_val hvcLatchingMechanicalError = 1"
| "hvc_val hvcAllOpen = 2"
| "hvc_val hvcPrecharge = HVC_MASK_PRECHARGE"
| "hvc_val hvcHighCurrentRun = (HVC_MASK_PRECHARGE OR HVC_MASK_RUN)"

lemma hvc_masks [simp]: "HVC_MASK_PRECHARGE = 4" "HVC_MASK_RUN = 8"
  by (simp_all add: HVC_MASK_PRECHARGE_def HVC_MASK_RUN_def push_bit_eq_mult)

lemma hvc_run_mask [simp]: "(4 :: U32) OR 8 = 12"
  by simp

instantiation scs :: linorder
begin

definition less_eq_scs :: "scs \<Rightarrow> scs \<Rightarrow> bool" where
  "less_eq_scs a b \<longleftrightarrow> scs_val a \<le> scs_val b"

definition less_scs :: "scs \<Rightarrow> scs \<Rightarrow> bool" where
  "less_scs a b \<longleftrightarrow> scs_val a < scs_val b"

instance
proof
  fix x y z :: scs
  show "x < y \<longleftrightarrow> x \<le> y \<and> \<not> y \<le> x" by (auto simp: less_eq_scs_def less_scs_def)
  show "x \<le> x" "x \<le> y \<or> y \<le> x" by (auto simp: less_eq_scs_def)
  show "x \<le> y \<Longrightarrow> y \<le> z \<Longrightarrow> x \<le> z" by (simp add: less_eq_scs_def)
  show "x \<le> y \<Longrightarrow> y \<le> x \<Longrightarrow> x = y" by (cases x; cases y; simp add: less_eq_scs_def)
qed

end

instantiation hvc :: linorder
begin

definition less_eq_hvc :: "hvc \<Rightarrow> hvc \<Rightarrow> bool" where
  "less_eq_hvc a b \<longleftrightarrow> hvc_val a \<le> hvc_val b"

definition less_hvc :: "hvc \<Rightarrow> hvc \<Rightarrow> bool" where
  "less_hvc a b \<longleftrightarrow> hvc_val a < hvc_val b"

instance
proof
  fix x y z :: hvc
  show "x < y \<longleftrightarrow> x \<le> y \<and> \<not> y \<le> x" by (auto simp: less_eq_hvc_def less_hvc_def)
  show "x \<le> x" "x \<le> y \<or> y \<le> x" by (auto simp: less_eq_hvc_def)
  show "x \<le> y \<Longrightarrow> y \<le> z \<Longrightarrow> x \<le> z" by (simp add: less_eq_hvc_def)
  show "x \<le> y \<Longrightarrow> y \<le> x \<Longrightarrow> x = y" by (cases x; cases y; simp add: less_eq_hvc_def word_le_nat_alt)
qed

end

lemmas state_order = less_eq_scs_def less_scs_def less_eq_hvc_def less_hvc_def
  word_le_nat_alt word_less_nat_alt

section \<open>Inputs and outputs\<close>

text \<open>The levels of the input pins.\<close>

record inputs =
  bmsOk :: bool
  imd_signal :: bool
  battery_undervoltage :: bool
  battery_overvoltage :: bool
  service_disconnects :: bool
  precharge_oor :: bool
  precharge_99 :: bool
  contactor_power :: bool
  precharge_contactor_feedback :: bool
  run_contactor_feedback :: bool

text \<open>The state of the controllers; \<open>signal\<close> is the pending \<open>SIGNAL_STATE_CONTROLLER_INTERRUPT\<close>,
  \<open>pc_timer_due\<close>, \<open>pc_error_due\<close> and \<open>run_error_due\<close> count the callbacks of the timers that are
  posted to the timer thread and have not run, and
  \<open>can_event\<close> is the event that the CAN thread is about to notify.\<close>

record ams =
  sc_state :: scs
  tractive_power_enable_bit :: bool
  signal :: bool
  precharge_timer :: "nat option"
  pc_timer_due :: nat
  can_event :: "sce option"
  hvc_state :: hvc
  precharge_contactor_coil :: bool
  run_contactor_coil :: bool
  precharge_error_timer :: "nat option"
  pc_error_due :: nat
  precharge_fireonce :: bool
  precharge_hardware_error :: bool
  run_error_timer :: "nat option"
  run_error_due :: nat
  run_fireonce :: bool
  run_hardware_error :: bool
  amsOk :: bool
  performConversions :: bool

section \<open>The status functions\<close>

definition bms_status :: "inputs \<Rightarrow> bool" where "bms_status i = bmsOk i"
definition imd_status :: "inputs \<Rightarrow> bool" where "imd_status i = (\<not> imd_signal i)"
definition undervoltage_status :: "inputs \<Rightarrow> bool" where "undervoltage_status i = battery_undervoltage i"
definition overvoltage_status :: "inputs \<Rightarrow> bool" where "overvoltage_status i = battery_overvoltage i"
definition disconnects_status :: "inputs \<Rightarrow> bool" where "disconnects_status i = (\<not> service_disconnects i)"
definition precharge_oor_status :: "inputs \<Rightarrow> bool" where "precharge_oor_status i = precharge_oor i"
definition precharge_99_status :: "inputs \<Rightarrow> bool" where "precharge_99_status i = precharge_99 i"
definition contactor_power_status :: "inputs \<Rightarrow> bool" where
  "contactor_power_status i = (\<not> contactor_power i)"

text \<open>The tests of the voltages are commented out in the code.\<close>

definition is_plausible :: "inputs \<Rightarrow> bool" where "is_plausible i = True"

definition pc_coil_status :: "ams \<Rightarrow> bool" where "pc_coil_status s = precharge_contactor_coil s"
definition pc_feedback_status :: "inputs \<Rightarrow> bool" where
  "pc_feedback_status i = precharge_contactor_feedback i"
definition pc_hwerr_status :: "ams \<Rightarrow> bool" where "pc_hwerr_status s = precharge_hardware_error s"
definition run_coil_status :: "ams \<Rightarrow> bool" where "run_coil_status s = run_contactor_coil s"
definition run_feedback_status :: "inputs \<Rightarrow> bool" where
  "run_feedback_status i = run_contactor_feedback i"
definition run_hwerr_status :: "ams \<Rightarrow> bool" where "run_hwerr_status s = run_hardware_error s"

lemmas status_defs = bms_status_def imd_status_def undervoltage_status_def overvoltage_status_def
  disconnects_status_def precharge_oor_status_def precharge_99_status_def contactor_power_status_def
  is_plausible_def

definition bms_initialise :: "ams \<Rightarrow> ams" where
  "bms_initialise s = s\<lparr>amsOk := False, performConversions := True\<rparr>"

definition set_conversions_enable :: "bool \<Rightarrow> ams \<Rightarrow> ams" where
  "set_conversions_enable en s = s\<lparr>performConversions := en\<rparr>"

definition bms_procedure :: "inputs \<Rightarrow> ams \<Rightarrow> ams" where
  "bms_procedure i s = s\<lparr>amsOk := bms_status i\<rparr>"

text \<open>The memory before \<open>main\<close>: the initialisers of the static members.  The second argument of
  \<open>DigitalOut amsOk\<close> is its initial value, for which the code passes the number 3 of \<open>PullDown\<close>.\<close>

definition ams_static :: ams where
  "ams_static = \<lparr>sc_state = scsInitialising, tractive_power_enable_bit = False, signal = False,
     precharge_timer = None, pc_timer_due = 0, can_event = None,
     hvc_state = hvcInitialising, precharge_contactor_coil = False, run_contactor_coil = False,
     precharge_error_timer = None, pc_error_due = 0, precharge_fireonce = False, precharge_hardware_error = False,
     run_error_timer = None, run_error_due = 0, run_fireonce = False, run_hardware_error = False,
     amsOk = True, performConversions = False\<rparr>"

end
