(* ===== verification/Ams_Steps.thy ===== *)
theory Ams_Steps
  imports Ams_Control Stepper
begin

text \<open>
  The controllers as a state machine: the steps of the threads, timers and of the CAN receiver, the
  states that can be reached, and what holds in all of them.
\<close>

section \<open>How the calls end\<close>

lemma push_check_eqs:
  "push_check hvcAllOpen s = (if hvcAllOpen \<le> hvc_state s then (False, s\<lparr>hvc_state := hvcAllOpen\<rparr>) else (True, s))"
  "push_check hvcPrecharge s = (if hvc_state s = hvcAllOpen then (False, s\<lparr>hvc_state := hvcPrecharge\<rparr>) else (True, s))"
  "push_check hvcHighCurrentRun s =
     (if hvc_state s = hvcPrecharge then (False, s\<lparr>hvc_state := hvcHighCurrentRun\<rparr>) else (True, s))"
  by (simp_all add: push_check_def)

lemma sync_coils_fields [simp]:
  "sc_state (sync_coils s) = sc_state s" "hvc_state (sync_coils s) = hvc_state s"
  "tractive_power_enable_bit (sync_coils s) = tractive_power_enable_bit s"
  "signal (sync_coils s) = signal s" "precharge_timer (sync_coils s) = precharge_timer s"
  "pc_timer_due (sync_coils s) = pc_timer_due s" "can_event (sync_coils s) = can_event s"
  "amsOk (sync_coils s) = amsOk s" "performConversions (sync_coils s) = performConversions s"
  "precharge_contactor_coil (sync_coils s) \<longleftrightarrow> hvc_state s \<in> {hvcPrecharge, hvcHighCurrentRun}"
  "run_contactor_coil (sync_coils s) \<longleftrightarrow> hvc_state s = hvcHighCurrentRun"
  by (cases "hvc_state s"; simp add: sync_coils_def Let_def)+

text \<open>When the contactors are initialised, opening them never fails and needs no further call.\<close>

lemma push_open:
  "hvcAllOpen \<le> hvc_state s \<Longrightarrow> push_state (Suc n) hvcAllOpen s = Some (sync_coils (s\<lparr>hvc_state := hvcAllOpen\<rparr>))"
  by (simp add: push_check_eqs)

lemma transition_open:
  assumes "hvcAllOpen \<le> hvc_state s" "new \<notin> {scsStartedPrecharge, scsPrechargeMinimumTimeExceeded, scsTractiveSystemRaceReady}"
  shows "transition_state (Suc (Suc n)) new s =
    Some ((sync_coils (s\<lparr>hvc_state := hvcAllOpen\<rparr>))\<lparr>precharge_timer := None, sc_state := new\<rparr>)"
  using assms push_open [of s n] by (cases new) (simp_all add: transition_state.simps(2))

lemma transition_precharge:
  assumes "hvc_state s = hvcAllOpen"
  shows "transition_state (Suc (Suc n)) scsStartedPrecharge s =
    Some ((sync_coils (s\<lparr>hvc_state := hvcPrecharge\<rparr>))\<lparr>precharge_timer := Some 5000, sc_state := scsStartedPrecharge\<rparr>)"
  using assms by (simp add: push_check_eqs)

lemma transition_run:
  assumes "hvc_state s = hvcPrecharge"
  shows "transition_state (Suc (Suc n)) scsTractiveSystemRaceReady s =
    Some ((sync_coils (s\<lparr>hvc_state := hvcHighCurrentRun\<rparr>))\<lparr>sc_state := scsTractiveSystemRaceReady\<rparr>)"
  using assms by (simp add: push_check_eqs)

text \<open>A run request from the open state, by a state machine that is not beyond the internal checks,
  is a sequence error that only sets the signal.\<close>

lemma transition_run_refused:
  assumes "hvc_state s = hvcAllOpen" "sc_state s \<le> scsWaitingForInternalSafety"
  shows "transition_state (Suc (Suc (Suc n))) scsTractiveSystemRaceReady s =
    Some ((sync_coils (s\<lparr>signal := True\<rparr>))\<lparr>sc_state := scsTractiveSystemRaceReady\<rparr>)"
  using assms(1) leD [OF assms(2)] by (simp add: push_check_eqs)

text \<open>Without a latched mechanical error the calls end after at most three levels; with one, a
  transition to an open state from a state beyond the internal checks never ends.\<close>

lemma transition_diverges:
  "hvc_state s < hvcAllOpen \<Longrightarrow> scsWaitingForInternalSafety < sc_state s \<Longrightarrow>
    new \<notin> {scsStartedPrecharge, scsPrechargeMinimumTimeExceeded, scsTractiveSystemRaceReady} \<Longrightarrow>
    transition_state n new s = None"
  "hvc_state s < hvcAllOpen \<Longrightarrow> scsWaitingForInternalSafety < sc_state s \<Longrightarrow> push_state n hvcAllOpen s = None"
  "hvc_state s < hvcAllOpen \<Longrightarrow> scsWaitingForInternalSafety < sc_state s \<Longrightarrow>
    notify_event n sceContactorSequenceError s = None"
proof (induction n arbitrary: new)
  case (Suc n)
  { case 1 then show ?case using Suc(2) by (cases new) simp_all }
  { case 2 then show ?case using Suc(3) by (simp add: push_check_eqs not_le) }
  { case 3 then show ?case using Suc(1) [of scsWaitingForInternalSafety] by simp }
qed simp_all

section \<open>The steps\<close>

datatype ams_ev = Process inputs | Elapse nat | PrechargeCallback | PrechargeToggle | RunToggle
  | CanCommand bool | CanNotify | Notify sce | BmsProcedure inputs

text \<open>Time passes: a timer that expires is stopped and its callback posted.\<close>

definition elapse :: "nat \<Rightarrow> nat option \<Rightarrow> nat \<Rightarrow> nat option \<times> nat" where
  "elapse ms tmr due =
     (case tmr of None \<Rightarrow> (None, due)
      | Some k \<Rightarrow> if k \<le> ms then (None, Suc due) else (Some (k - ms), due))"

fun ams_step :: "nat \<Rightarrow> ams_ev \<Rightarrow> ams \<Rightarrow> ams option" where
  "ams_step n (Process i) s = state_machine_process_step n i (s\<lparr>signal := False\<rparr>)"
| "ams_step n (Elapse ms) s =
     (let (t, d) = elapse ms (precharge_timer s) (pc_timer_due s);
          (t1, d1) = elapse ms (precharge_error_timer s) (pc_error_due s);
          (t2, d2) = elapse ms (run_error_timer s) (run_error_due s)
      in Some (s\<lparr>precharge_timer := t, pc_timer_due := d, precharge_error_timer := t1, pc_error_due := d1,
           run_error_timer := t2, run_error_due := d2\<rparr>))"
| "ams_step n PrechargeCallback s =
     (if pc_timer_due s = 0 then Some s
      else precharge_timer_fire n (s\<lparr>pc_timer_due := pc_timer_due s - 1\<rparr>))"
| "ams_step n PrechargeToggle s =
     (if pc_error_due s = 0 then Some s
      else Some (precharge_toggle_cb (s\<lparr>pc_error_due := pc_error_due s - 1\<rparr>)))"
| "ams_step n RunToggle s =
     (if run_error_due s = 0 then Some s
      else Some (run_toggle_cb (s\<lparr>run_error_due := run_error_due s - 1\<rparr>)))"
| "ams_step n (CanCommand en) s =
     (if can_event s \<noteq> None then Some s else Some (push_tractive_enable en s))"
| "ams_step n CanNotify s =
     (case can_event s of None \<Rightarrow> Some s | Some e \<Rightarrow> notify_event n e (s\<lparr>can_event := None\<rparr>))"
| "ams_step n (Notify e) s = notify_event n e s"
| "ams_step n (BmsProcedure i) s = Some (bms_procedure i s)"


section \<open>The invariant\<close>

text \<open>The coils follow the contactor state, the contactors are in precharge exactly while the state
  machine is precharging, and only a race-ready state machine has the run contactor closed.\<close>

definition ams_inv :: "ams \<Rightarrow> bool" where
  "ams_inv s \<longleftrightarrow>
     hvc_state s \<in> {hvcAllOpen, hvcPrecharge, hvcHighCurrentRun} \<and>
     (precharge_contactor_coil s \<longleftrightarrow> hvc_state s \<in> {hvcPrecharge, hvcHighCurrentRun}) \<and>
     (run_contactor_coil s \<longleftrightarrow> hvc_state s = hvcHighCurrentRun) \<and>
     (hvc_state s = hvcPrecharge \<longleftrightarrow> sc_state s \<in> {scsStartedPrecharge, scsPrechargeMinimumTimeExceeded}) \<and>
     (hvc_state s = hvcHighCurrentRun \<longrightarrow> sc_state s = scsTractiveSystemRaceReady) \<and>
     sc_state s \<notin> {scsNonResettableLatchingError, scsInitialising}"

lemma ams_inv_open: "ams_inv s \<Longrightarrow> hvcAllOpen \<le> hvc_state s"
  by (auto simp: ams_inv_def state_order)

lemma ams_inv_upd [simp]:
  "ams_inv (s\<lparr>signal := a\<rparr>) = ams_inv s" "ams_inv (s\<lparr>precharge_timer := b\<rparr>) = ams_inv s"
  "ams_inv (s\<lparr>pc_timer_due := c\<rparr>) = ams_inv s" "ams_inv (s\<lparr>can_event := d\<rparr>) = ams_inv s"
  "ams_inv (s\<lparr>pc_error_due := c\<rparr>) = ams_inv s" "ams_inv (s\<lparr>run_error_due := c\<rparr>) = ams_inv s"
  "ams_inv (s\<lparr>precharge_fireonce := a\<rparr>) = ams_inv s" "ams_inv (s\<lparr>run_fireonce := a\<rparr>) = ams_inv s"
  "ams_inv (s\<lparr>precharge_error_timer := b\<rparr>) = ams_inv s" "ams_inv (s\<lparr>run_error_timer := b\<rparr>) = ams_inv s"
  "ams_inv (s\<lparr>tractive_power_enable_bit := a\<rparr>) = ams_inv s" "ams_inv (s\<lparr>amsOk := a\<rparr>) = ams_inv s"
  by (simp_all add: ams_inv_def)

text \<open>The result of a transition to an open state.\<close>

definition opened :: "scs \<Rightarrow> ams \<Rightarrow> ams" where
  "opened new s = (sync_coils (s\<lparr>hvc_state := hvcAllOpen\<rparr>))\<lparr>precharge_timer := None, sc_state := new\<rparr>"

lemma opened_fields [simp]:
  "sc_state (opened new s) = new" "hvc_state (opened new s) = hvcAllOpen"
  "\<not> precharge_contactor_coil (opened new s)" "\<not> run_contactor_coil (opened new s)"
  "precharge_timer (opened new s) = None" "tractive_power_enable_bit (opened new s) = tractive_power_enable_bit s"
  by (simp_all add: opened_def)

abbreviation open_states :: "scs set" where
  "open_states \<equiv> {scsLatchingError, scsWaitingForInternalSafety, scsWaitingForTractiveLoop,
     scsWaitingForShutdownCircuit, scsWaitingForPrechargeActivation}"

lemma opened_inv: "new \<in> open_states \<Longrightarrow> ams_inv (opened new s)"
  by (auto simp: ams_inv_def)

lemma transition_opened:
  "ams_inv s \<Longrightarrow> new \<in> open_states \<Longrightarrow> transition_state (Suc (Suc n)) new s = Some (opened new s)"
  unfolding opened_def by (rule transition_open [OF ams_inv_open]) auto

lemma notify_ok:
  assumes "ams_inv s"
  shows "notify_event (Suc (Suc (Suc n))) e s = Some (
     (if (e = sceDriverDeactivatesTractiveSystem \<and> (sc_state s = scsLatchingError \<or> scsWaitingForInternalSafety \<le> sc_state s)) \<or>
         (e \<noteq> sceDriverDeactivatesTractiveSystem \<and> e \<noteq> sceDriverEnablesTractiveSystem \<and> scsWaitingForInternalSafety < sc_state s)
      then opened scsWaitingForInternalSafety s else s)\<lparr>signal := True\<rparr>)"
  using transition_opened [OF assms, of scsWaitingForInternalSafety n]
  by (cases e) (simp_all add: notify_event.simps(2) del: transition_state.simps)

lemma waiting_ok:
  assumes "ams_inv s"
  shows "process_waiting_states (Suc (Suc n)) i s = Some (
    if \<not> bms_status i then (False, opened scsWaitingForInternalSafety s)
    else if \<not> imd_status i \<or> \<not> disconnects_status i then (False, opened scsWaitingForTractiveLoop s)
    else if \<not> contactor_power_status i then (False, opened scsWaitingForShutdownCircuit s)
    else (True, s))"
  using transition_opened [OF assms] by (simp add: process_waiting_states_def is_plausible_def del: transition_state.simps)

definition inputs_ok :: "inputs \<Rightarrow> bool" where
  "inputs_ok i \<longleftrightarrow> bms_status i \<and> imd_status i \<and> disconnects_status i \<and> contactor_power_status i"

lemma activated_ok:
  assumes "ams_inv s"
  shows "process_activated_states (Suc (Suc n)) i s =
    Some (if inputs_ok i then (True, s) else (False, opened scsLatchingError s))"
  using transition_opened [OF assms]
  by (simp add: process_activated_states_def is_plausible_def inputs_ok_def del: transition_state.simps)


section \<open>One step of the state machine\<close>

definition started :: "ams \<Rightarrow> ams" where
  "started s = (sync_coils (s\<lparr>hvc_state := hvcPrecharge\<rparr>))\<lparr>precharge_timer := Some 5000,
     sc_state := scsStartedPrecharge\<rparr>"

definition running :: "ams \<Rightarrow> ams" where
  "running s = (sync_coils (s\<lparr>hvc_state := hvcHighCurrentRun\<rparr>))\<lparr>sc_state := scsTractiveSystemRaceReady\<rparr>"

definition refused :: "ams \<Rightarrow> ams" where
  "refused s = (sync_coils (s\<lparr>signal := True\<rparr>))\<lparr>sc_state := scsTractiveSystemRaceReady\<rparr>"

definition stepped :: "inputs \<Rightarrow> ams \<Rightarrow> ams" where
  "stepped i s =
     (let waited = (if \<not> bms_status i then opened scsWaitingForInternalSafety s
          else if \<not> imd_status i \<or> \<not> disconnects_status i then opened scsWaitingForTractiveLoop s
          else opened scsWaitingForShutdownCircuit s)
      in case sc_state s of
           scsWaitingForPrechargeActivation \<Rightarrow>
             if \<not> inputs_ok i then waited else if tractive_power_enable_bit s then started s else s
         | scsStartedPrecharge \<Rightarrow> if inputs_ok i then s else opened scsLatchingError s
         | scsTractiveSystemRaceReady \<Rightarrow> if inputs_ok i then s else opened scsLatchingError s
         | scsPrechargeMinimumTimeExceeded \<Rightarrow>
             if precharge_99_status i \<and> precharge_oor_status i
             then if inputs_ok i then running s else refused (opened scsLatchingError s)
             else opened scsLatchingError (if inputs_ok i then s else opened scsLatchingError s)
         | scsLatchingError \<Rightarrow> s
         | _ \<Rightarrow>
             if tractive_power_enable_bit s
             then opened scsLatchingError (if inputs_ok i then s else waited)
             else if inputs_ok i then opened scsWaitingForPrechargeActivation s else waited)"

lemma process_step_ok:
  assumes I: "ams_inv s"
  shows "state_machine_process_step (Suc (Suc (Suc n))) i s = Some (stepped i s)"
proof -
  let ?n = "Suc (Suc (Suc n))"
  have op: "transition_state ?n new s' = Some (opened new s')" if "new \<in> open_states" "ams_inv s'" for new s'
    by (rule transition_opened [OF that(2,1)])
  have ow: "ams_inv (opened new s)" if "new \<in> open_states" for new by (rule opened_inv [OF that])
  note W = waiting_ok [OF I, of "Suc n" i] and A = activated_ok [OF I, of "Suc n" i]
  show ?thesis
  proof (cases "sc_state s")
    case scsPrechargeMinimumTimeExceeded
    then have h: "hvc_state s = hvcPrecharge" using I by (auto simp: ams_inv_def)
    have run: "transition_state ?n scsTractiveSystemRaceReady s = Some (running s)"
      unfolding running_def by (rule transition_run [OF h])
    have ref: "transition_state ?n scsTractiveSystemRaceReady (opened scsLatchingError s) =
        Some (refused (opened scsLatchingError s))"
      unfolding refused_def by (rule transition_run_refused) (simp_all add: state_order)
    show ?thesis
      using scsPrechargeMinimumTimeExceeded run ref op [of scsLatchingError] I ow [of scsLatchingError]
      by (simp add: state_machine_process_step_def stepped_def A del: transition_state.simps)
  next
    case scsWaitingForPrechargeActivation
    then have h: "hvc_state s = hvcAllOpen" using I by (auto simp: ams_inv_def)
    have "transition_state ?n scsStartedPrecharge s = Some (started s)"
      unfolding started_def by (rule transition_precharge [OF h])
    then show ?thesis using scsWaitingForPrechargeActivation
      by (simp add: state_machine_process_step_def stepped_def W inputs_ok_def del: transition_state.simps)
  next
    case scsInitialising
    then show ?thesis using I by (simp add: ams_inv_def)
  next
    case scsNonResettableLatchingError
    then show ?thesis using I by (simp add: ams_inv_def)
  qed (use op ow I in \<open>simp_all add: state_machine_process_step_def stepped_def W A inputs_ok_def
      process_error_states_def del: transition_state.simps\<close>)
qed

lemma started_fields [simp]:
  "sc_state (started s) = scsStartedPrecharge" "hvc_state (started s) = hvcPrecharge"
  "precharge_contactor_coil (started s)" "\<not> run_contactor_coil (started s)"
  "precharge_timer (started s) = Some 5000"
  by (simp_all add: started_def)

lemma running_fields [simp]:
  "sc_state (running s) = scsTractiveSystemRaceReady" "hvc_state (running s) = hvcHighCurrentRun"
  "precharge_contactor_coil (running s)" "run_contactor_coil (running s)"
  by (simp_all add: running_def)

lemma refused_fields [simp]:
  "sc_state (refused s) = scsTractiveSystemRaceReady" "hvc_state (refused s) = hvc_state s"
  "precharge_contactor_coil (refused s) \<longleftrightarrow> hvc_state s \<in> {hvcPrecharge, hvcHighCurrentRun}"
  "run_contactor_coil (refused s) \<longleftrightarrow> hvc_state s = hvcHighCurrentRun"
  by (simp_all add: refused_def)

lemma stepped_inv: "ams_inv s \<Longrightarrow> ams_inv (stepped i s)"
  by (cases "sc_state s") (auto simp: stepped_def ams_inv_def Let_def)

text \<open>Any failing input opens both contactors.\<close>

lemma stepped_fail: "ams_inv s \<Longrightarrow> \<not> inputs_ok i \<Longrightarrow>
    \<not> precharge_contactor_coil (stepped i s) \<and> \<not> run_contactor_coil (stepped i s)"
  by (cases "sc_state s") (auto simp: stepped_def ams_inv_def Let_def)

lemma stepped_run:
  "ams_inv s \<Longrightarrow> run_contactor_coil (stepped i s) \<Longrightarrow> run_contactor_coil s \<or>
    (sc_state s = scsPrechargeMinimumTimeExceeded \<and> precharge_contactor_coil s \<and> inputs_ok i \<and>
     precharge_99_status i \<and> precharge_oor_status i)"
  by (cases "sc_state s") (auto simp: stepped_def ams_inv_def Let_def split: if_splits)

lemma stepped_precharge:
  "ams_inv s \<Longrightarrow> precharge_contactor_coil (stepped i s) \<Longrightarrow> precharge_contactor_coil s \<or>
    (sc_state s = scsWaitingForPrechargeActivation \<and> inputs_ok i \<and> tractive_power_enable_bit s)"
  by (cases "sc_state s") (auto simp: stepped_def ams_inv_def Let_def split: if_splits)

lemma stepped_latched: "sc_state s = scsLatchingError \<Longrightarrow> stepped i s = s"
  by (simp add: stepped_def)


section \<open>Every step, and the states that can be reached\<close>

text \<open>Four levels of calls are enough for every step.\<close>

abbreviation fuel :: nat where "fuel \<equiv> 4"

lemma fuel_Suc: "fuel = Suc (Suc (Suc (Suc 0)))"
  by simp

definition fired :: "ams \<Rightarrow> ams" where
  "fired s = (if sc_state s = scsStartedPrecharge then s\<lparr>sc_state := scsPrechargeMinimumTimeExceeded\<rparr> else s)"

lemma precharge_timer_fire_eq: "precharge_timer_fire (Suc n) s = Some (fired s)"
  by (simp add: precharge_timer_fire_def fired_def)

definition resets :: "sce \<Rightarrow> scs \<Rightarrow> bool" where
  "resets e st \<longleftrightarrow>
     (e = sceDriverDeactivatesTractiveSystem \<and> (st = scsLatchingError \<or> scsWaitingForInternalSafety \<le> st)) \<or>
     (e \<noteq> sceDriverDeactivatesTractiveSystem \<and> e \<noteq> sceDriverEnablesTractiveSystem \<and> scsWaitingForInternalSafety < st)"

definition notified :: "sce \<Rightarrow> ams \<Rightarrow> ams" where
  "notified e s = (if resets e (sc_state s) then opened scsWaitingForInternalSafety s else s)\<lparr>signal := True\<rparr>"

lemma notify_eq: "ams_inv s \<Longrightarrow> notify_event (Suc (Suc (Suc n))) e s = Some (notified e s)"
  using notify_ok [of s n e] by (simp add: notified_def resets_def)

fun ams_next :: "ams_ev \<Rightarrow> ams \<Rightarrow> ams" where
  "ams_next (Process i) s = stepped i (s\<lparr>signal := False\<rparr>)"
| "ams_next PrechargeCallback s =
     (if pc_timer_due s = 0 then s else fired (s\<lparr>pc_timer_due := pc_timer_due s - 1\<rparr>))"
| "ams_next CanNotify s = (case can_event s of None \<Rightarrow> s | Some e \<Rightarrow> notified e (s\<lparr>can_event := None\<rparr>))"
| "ams_next (Notify e) s = notified e s"
| "ams_next ev s = the (ams_step 0 ev s)"

lemma ams_step_next: "ams_inv s \<Longrightarrow> ams_step fuel ev s = Some (ams_next ev s)"
proof (cases ev)
  case (Process i)
  assume "ams_inv s"
  then show ?thesis using process_step_ok [of "s\<lparr>signal := False\<rparr>" 1 i] Process
    by (simp add: fuel_Suc del: One_nat_def)
next
  case (Notify e)
  assume "ams_inv s"
  then show ?thesis using notify_eq [of s 1 e] Notify by (simp add: fuel_Suc)
next
  case CanNotify
  assume "ams_inv s"
  then show ?thesis using notify_eq [of "s\<lparr>can_event := None\<rparr>" 1] CanNotify
    by (simp add: fuel_Suc split: option.split)
next
  case PrechargeCallback
  then show ?thesis by (simp add: fuel_Suc precharge_timer_fire_eq)
qed (simp_all add: Let_def split: prod.split)

lemma notified_inv: "ams_inv s \<Longrightarrow> ams_inv (notified e s)"
  by (simp add: notified_def opened_inv)

lemma fired_inv: "ams_inv s \<Longrightarrow> ams_inv (fired s)"
  by (auto simp: fired_def ams_inv_def)

lemma ams_next_inv: "ams_inv s \<Longrightarrow> ams_inv (ams_next ev s)"
proof (cases ev)
  case (Process i)
  assume "ams_inv s"
  then show ?thesis using stepped_inv [of "s\<lparr>signal := False\<rparr>" i] Process by simp
qed (auto simp: notified_inv fired_inv Let_def push_tractive_enable_def precharge_toggle_cb_def run_toggle_cb_def
    cc_procedure_def bms_procedure_def split: prod.split option.split)

inductive ams_reach :: "ams \<Rightarrow> bool" where
  start: "ams_main fuel = Some s \<Longrightarrow> ams_reach s"
| step: "ams_reach s \<Longrightarrow> ams_step fuel ev s = Some s' \<Longrightarrow> ams_reach s'"

inductive_cases ams_reach_cases: "ams_reach s"

lemma ams_main_eq: "ams_main (Suc (Suc (Suc n))) = Some (ams_static\<lparr>sc_state := scsWaitingForInternalSafety,
    hvc_state := hvcAllOpen, amsOk := False, performConversions := True\<rparr>)"
  by (simp add: ams_main_def sc_create_def sc_initialise_def push_check_eqs ams_static_def bms_initialise_def
      cc_initialise_def sync_coils_def Let_def state_order)

lemma ams_reach_inv: "ams_reach s \<Longrightarrow> ams_inv s"
proof (induction rule: ams_reach.induct)
  case (start s)
  then show ?case using ams_main_eq [of 1] by (auto simp: fuel_Suc ams_inv_def ams_static_def)
next
  case (step s ev s')
  then show ?case using ams_step_next ams_next_inv by (metis option.inject)
qed

abbreviation ams_run :: "ams_ev list \<Rightarrow> ams \<Rightarrow> ams option" where
  "ams_run \<equiv> runs (ams_step fuel)"

text \<open>The controllers keep their contract at every event, whatever its time.\<close>

interpretation controllers: stepper "ams_step fuel" ams_inv "\<lambda>_ _. True"
  by unfold_locales (simp add: ams_step_next ams_next_inv)

lemma controllers_oks [simp]: "oks step (\<lambda>_ _. True) es s"
  by (induction es arbitrary: s) simp_all

lemma ams_run_next: "ams_inv s \<Longrightarrow> ams_run es s = Some (fold ams_next es s)"
  by (induction es arbitrary: s) (simp_all add: ams_step_next ams_next_inv)

lemma ams_run_reach: "ams_reach s \<Longrightarrow> ams_run es s = Some s' \<Longrightarrow> ams_reach s'"
  by (induction es arbitrary: s) (auto simp: bind_eq_Some_conv intro: ams_reach.step)

section \<open>The duration of the precharge\<close>

fun elapsed :: "ams_ev list \<Rightarrow> nat" where
  "elapsed [] = 0"
| "elapsed (Elapse ms # es) = ms + elapsed es"
| "elapsed (_ # es) = elapsed es"

text \<open>While less time than \<open>d\<close> has passed: the timer has at least the rest of \<open>d\<close> to run, no callback
  is under way, and the state machine has not come past the start of the precharge.\<close>

definition too_early :: "nat \<Rightarrow> ams \<Rightarrow> bool" where
  "too_early d s \<longleftrightarrow> ams_inv s \<and> sc_state s \<notin> {scsPrechargeMinimumTimeExceeded, scsTractiveSystemRaceReady} \<and>
     pc_timer_due s = 0 \<and> (\<forall>k. precharge_timer s = Some k \<longrightarrow> d \<le> k)"

lemma stepped_timer:
  "pc_timer_due (stepped i s) = pc_timer_due s"
  "precharge_timer (stepped i s) \<in> {None, precharge_timer s, Some 5000}"
  by (cases "sc_state s"; simp add: stepped_def opened_def started_def running_def refused_def Let_def)+

lemma stepped_state: "sc_state s \<notin> {scsPrechargeMinimumTimeExceeded, scsTractiveSystemRaceReady} \<Longrightarrow>
    sc_state (stepped i s) \<notin> {scsPrechargeMinimumTimeExceeded, scsTractiveSystemRaceReady} \<or> \<not> ams_inv s"
  by (cases "sc_state s") (auto simp: stepped_def ams_inv_def Let_def)

lemma too_early_next:
  assumes "too_early d s" "d \<le> 5000" "\<And>ms. ev \<noteq> Elapse ms"
  shows "too_early d (ams_next ev s)"
proof -
  have I: "ams_inv (ams_next ev s)" using assms ams_next_inv by (simp add: too_early_def)
  show ?thesis
  proof (cases ev)
    case (Process i)
    then show ?thesis using I assms stepped_state [of "s\<lparr>signal := False\<rparr>" i] stepped_timer [of i "s\<lparr>signal := False\<rparr>"]
      by (auto simp: too_early_def)
  qed (use I assms in \<open>auto simp: too_early_def notified_def opened_def push_tractive_enable_def Let_def
     precharge_toggle_cb_def run_toggle_cb_def cc_procedure_def bms_procedure_def split: option.splits\<close>)
qed

lemma too_early_elapse: "too_early d s \<Longrightarrow> ms < d \<Longrightarrow> too_early (d - ms) (ams_next (Elapse ms) s)"
  using ams_next_inv [of s "Elapse ms"]
  by (auto simp: too_early_def elapse_def Let_def split: option.splits if_splits prod.splits)

lemma too_early_run: "too_early d s \<Longrightarrow> d \<le> 5000 \<Longrightarrow> elapsed es < d \<Longrightarrow> too_early (d - elapsed es) (fold ams_next es s)"
proof (induction es arbitrary: d s)
  case (Cons e es)
  show ?case
  proof (cases "\<exists>ms. e = Elapse ms")
    case True
    then obtain ms where e: "e = Elapse ms" by blast
    have "too_early (d - ms) (ams_next e s)" using too_early_elapse Cons.prems e by simp
    from Cons.IH [OF this] Cons.prems e show ?thesis by simp
  next
    case False
    then have "elapsed (e # es) = elapsed es" by (cases e) auto
    then show ?thesis using Cons.IH [OF too_early_next [OF Cons.prems(1,2)]] Cons.prems False by simp
  qed
qed simp

end
