(* ===== verification/Can_Driver.thy ===== *)
theory Can_Driver
  imports Prelude
begin

text \<open>
  The CAN driver of the LPC1768 (\<open>can_api.c\<close>) and its messages (\<open>can_helper.h\<close>, \<open>CAN.h\<close>): the
  registers of one controller are a record, a register is a 32-bit word, and the hardware is what
  the registers are given as.  The bytes of memory that the code reads before it has written them are
  an argument \<open>mem\<close>.  A copy past the end of an array is \<open>None\<close>.
\<close>

section \<open>Messages\<close>

datatype CANFormat = CANStandard | CANExtended | CANAny
datatype CANType = CANData | CANRemote

primrec CANFormat_val :: "CANFormat \<Rightarrow> U32" where
  "CANFormat_val CANStandard = 0" | "CANFormat_val CANExtended = 1" | "CANFormat_val CANAny = 2"

primrec CANType_val :: "CANType \<Rightarrow> U32" where
  "CANType_val CANData = 0" | "CANType_val CANRemote = 1"

text \<open>The eight bytes of \<open>data\<close> are a list.\<close>

record CAN_Message =
  msg_id :: U32
  msg_data :: "U8 list"
  msg_len :: U8
  msg_format :: CANFormat
  msg_type :: CANType

definition memcpy :: "'a list \<Rightarrow> 'a list \<Rightarrow> nat \<Rightarrow> 'a list option" where
  "memcpy dst src n =
     (if n \<le> length dst \<and> n \<le> length src then Some (take n src @ drop n dst) else None)"

text \<open>The constructors of \<open>CANMessage\<close>.\<close>

definition CANMessage_empty :: CAN_Message where
  "CANMessage_empty = \<lparr>msg_id = 0, msg_data = replicate 8 0, msg_len = 8, msg_format = CANStandard,
     msg_type = CANData\<rparr>"

definition CANMessage :: "U8 list \<Rightarrow> U32 \<Rightarrow> U8 list \<Rightarrow> U8 \<Rightarrow> CANType \<Rightarrow> CANFormat \<Rightarrow> CAN_Message option" where
  "CANMessage mem i bytes n ty fm = do {
     d \<leftarrow> memcpy mem bytes (unat n);
     Some \<lparr>msg_id = i, msg_data = d, msg_len = n AND 0xF, msg_format = fm, msg_type = ty\<rparr>
   }"

definition CANMessage_remote :: "U32 \<Rightarrow> CANFormat \<Rightarrow> CAN_Message" where
  "CANMessage_remote i fm = \<lparr>msg_id = i, msg_data = replicate 8 0, msg_len = 0, msg_format = fm,
     msg_type = CANRemote\<rparr>"

section \<open>The registers\<close>

record LPC_CAN =
  MOD :: U32
  CMR :: U32
  GSR :: U32
  ICR :: U32
  IER :: U32
  BTR :: U32
  SR :: U32
  RFS :: U32
  RID :: U32
  RDA :: U32
  RDB :: U32
  TFI :: "nat \<Rightarrow> U32"
  TID :: "nat \<Rightarrow> U32"
  TDA :: "nat \<Rightarrow> U32"
  TDB :: "nat \<Rightarrow> U32"

datatype CanIrqType = IRQ_RX | IRQ_TX | IRQ_ERROR | IRQ_OVERRUN | IRQ_WAKEUP | IRQ_PASSIVE | IRQ_ARB
  | IRQ_BUS | IRQ_READY
datatype CanMode = MODE_RESET | MODE_NORMAL | MODE_SILENT | MODE_TEST_LOCAL | MODE_TEST_GLOBAL
  | MODE_TEST_SILENT

definition can_disable :: "LPC_CAN \<Rightarrow> U32 \<times> LPC_CAN" where
  "can_disable d = (let sm = MOD d in (sm, d\<lparr>MOD := MOD d OR 1\<rparr>))"

definition can_enable :: "LPC_CAN \<Rightarrow> LPC_CAN" where
  "can_enable d = (if MOD d AND 1 \<noteq> 0 then d\<lparr>MOD := MOD d AND NOT 1\<rparr> else d)"

definition can_reset :: "LPC_CAN \<Rightarrow> LPC_CAN" where
  "can_reset d = (snd (can_disable d))\<lparr>GSR := 0\<rparr>"

definition can_mode :: "CanMode \<Rightarrow> LPC_CAN \<Rightarrow> bool \<times> LPC_CAN" where
  "can_mode mode d =
     (case mode of
        MODE_RESET \<Rightarrow> let d = can_reset d in (True, d\<lparr>MOD := MOD d AND NOT 0x06\<rparr>)
      | MODE_NORMAL \<Rightarrow>
          let d = snd (can_disable d);
              d = d\<lparr>MOD := MOD d AND NOT 0x06\<rparr>
          in (True, can_enable d)
      | MODE_SILENT \<Rightarrow>
          let d = snd (can_disable d);
              d = d\<lparr>MOD := MOD d OR 0x02\<rparr>;
              d = d\<lparr>MOD := MOD d AND NOT 0x04\<rparr>
          in (True, can_enable d)
      | MODE_TEST_LOCAL \<Rightarrow>
          let d = snd (can_disable d);
              d = d\<lparr>MOD := MOD d OR 0x04\<rparr>;
              d = d\<lparr>MOD := MOD d AND NOT 0x02\<rparr>
          in (True, can_enable d)
      | _ \<Rightarrow> (False, d))"

definition can_monitor :: "bool \<Rightarrow> LPC_CAN \<Rightarrow> LPC_CAN" where
  "can_monitor silent d =
     (let (mod_mask, d) = can_disable d;
          d = (if silent then d\<lparr>MOD := MOD d OR push_bit 1 1\<rparr> else d\<lparr>MOD := MOD d AND NOT (push_bit 1 1)\<rparr>)
      in if mod_mask AND 1 = 0 then can_enable d else d)"

definition can_rderror :: "LPC_CAN \<Rightarrow> U8" where
  "can_rderror d = ucast (drop_bit 16 (GSR d) AND 0xFF)"

definition can_tderror :: "LPC_CAN \<Rightarrow> U8" where
  "can_tderror d = ucast (drop_bit 24 (GSR d) AND 0xFF)"

section \<open>Interrupts\<close>

text \<open>The identifiers of the two controllers' handlers, the mask \<open>PCONP\<close> of the powered
  peripherals, and whether the interrupt is enabled.\<close>

record can_irqs =
  can_irq_ids :: "nat \<Rightarrow> U32"
  can_dev :: "nat \<Rightarrow> LPC_CAN"
  PCONP :: U32
  nvic :: bool

definition irq_of :: "nat \<Rightarrow> CanIrqType option" where
  "irq_of i = (if i < 9 then Some ([IRQ_RX, IRQ_TX, IRQ_ERROR, IRQ_OVERRUN, IRQ_WAKEUP, IRQ_PASSIVE, IRQ_ARB,
     IRQ_BUS, IRQ_READY] ! i) else None)"

text \<open>The calls of the handler, in order.\<close>

definition can_irq :: "U32 \<Rightarrow> nat \<Rightarrow> can_irqs \<Rightarrow> (U32 \<times> CanIrqType) list" where
  "can_irq icr index s =
     concat (map (\<lambda>i. if can_irq_ids s index \<noteq> 0 \<and> icr AND push_bit i 1 \<noteq> 0
        then case irq_of i of Some t \<Rightarrow> [(can_irq_ids s index, t)] | None \<Rightarrow> [] else []) [0..<8])"

definition can_irq_n :: "can_irqs \<Rightarrow> (U32 \<times> CanIrqType) list" where
  "can_irq_n s =
     (if PCONP s AND push_bit 13 1 \<noteq> 0 then can_irq (ICR (can_dev s 0) AND 0x1FF) 0 s else []) @
     (if PCONP s AND push_bit 14 1 \<noteq> 0 then can_irq (ICR (can_dev s 1) AND 0x1FF) 1 s else [])"

definition can_irq_init :: "nat \<Rightarrow> U32 \<Rightarrow> can_irqs \<Rightarrow> can_irqs" where
  "can_irq_init index i s = s\<lparr>can_irq_ids := (can_irq_ids s)(index := i)\<rparr>"

definition upd_dev :: "nat \<Rightarrow> (LPC_CAN \<Rightarrow> LPC_CAN) \<Rightarrow> can_irqs \<Rightarrow> can_irqs" where
  "upd_dev index f s = s\<lparr>can_dev := (can_dev s)(index := f (can_dev s index))\<rparr>"

definition can_irq_free :: "nat \<Rightarrow> can_irqs \<Rightarrow> can_irqs" where
  "can_irq_free index s =
     (let s = upd_dev index (\<lambda>d. d\<lparr>IER := IER d AND NOT 1\<rparr>) s;
          s = s\<lparr>can_irq_ids := (can_irq_ids s)(index := 0)\<rparr>
      in if can_irq_ids s 0 = 0 \<and> can_irq_ids s 1 = 0 then s\<lparr>nvic := False\<rparr> else s)"

primrec irq_bit :: "CanIrqType \<Rightarrow> nat" where
  "irq_bit IRQ_RX = 0" | "irq_bit IRQ_TX = 1" | "irq_bit IRQ_ERROR = 2" | "irq_bit IRQ_OVERRUN = 3"
| "irq_bit IRQ_WAKEUP = 4" | "irq_bit IRQ_PASSIVE = 5" | "irq_bit IRQ_ARB = 6" | "irq_bit IRQ_BUS = 7"
| "irq_bit IRQ_READY = 8"

definition can_irq_set :: "nat \<Rightarrow> CanIrqType \<Rightarrow> bool \<Rightarrow> can_irqs \<Rightarrow> can_irqs" where
  "can_irq_set index type enable s =
     (let ier = push_bit (irq_bit type) 1;
          s = upd_dev index (\<lambda>d. d\<lparr>MOD := MOD d OR 1\<rparr>) s;
          s = (if \<not> enable then upd_dev index (\<lambda>d. d\<lparr>IER := IER d AND NOT ier\<rparr>) s
               else upd_dev index (\<lambda>d. d\<lparr>IER := IER d OR ier\<rparr>) s);
          s = upd_dev index (\<lambda>d. d\<lparr>MOD := MOD d AND NOT 1\<rparr>) s
      in if (PCONP s AND push_bit 13 1 \<noteq> 0 \<and> IER (can_dev s 0) \<noteq> 0) \<or>
            (PCONP s AND push_bit 14 1 \<noteq> 0 \<and> IER (can_dev s 1) \<noteq> 0)
         then s\<lparr>nvic := True\<rparr> else s\<lparr>nvic := False\<rparr>)"

section \<open>The bit timing\<close>

definition can_pclk :: "nat \<Rightarrow> U32 \<Rightarrow> U32" where
  "can_pclk index pclksel0 =
     (let value = (if index = 0 then drop_bit 26 (pclksel0 AND push_bit 26 3)
                   else drop_bit 28 (pclksel0 AND push_bit 28 3))
      in if value = 1 then 1 else if value = 2 then 2 else if value = 3 then 6 else 4)"

definition timing_pts :: "(U32 \<times> U32) list" where
  "timing_pts = [(0x0, 0x0), (0x1, 0x0), (0x2, 0x0), (0x3, 0x0), (0x3, 0x1), (0x4, 0x1), (0x5, 0x1), (0x6, 0x1),
     (0x6, 0x2), (0x7, 0x2), (0x8, 0x2), (0x9, 0x2), (0x9, 0x3), (0xA, 0x3), (0xB, 0x3), (0xC, 0x3), (0xD, 0x3),
     (0xD, 0x4), (0xE, 0x4), (0xF, 0x4), (0xF, 0x5), (0xF, 0x6), (0xF, 0x7)]"

text \<open>The inner loop: the largest \<open>bits\<close>, from 22 down to 1, that fits.\<close>

fun speed_bits :: "nat \<Rightarrow> U16 \<Rightarrow> U32 \<Rightarrow> nat option" where
  "speed_bits 0 brp bitwidth = None"
| "speed_bits (Suc b) brp bitwidth =
     (let calcbit = (word_of_nat (Suc b) + 3) * (ucast brp + 1) :: U32
      in if calcbit = bitwidth then Some (Suc b) else speed_bits b brp bitwidth)"

text \<open>The outer loop.  The prescaler is 16 bits wide and wraps, so that the loop may run forever; then
  it is \<open>None\<close>.  \<open>Some None\<close> means that no timing fits.\<close>

partial_function (option) speed_loop :: "U16 \<Rightarrow> U32 \<Rightarrow> (nat \<times> U16) option option" where
  "speed_loop brp bitwidth =
     (if ucast brp < bitwidth div 4
      then let brp = brp + 1 in
           case speed_bits 22 brp bitwidth of
             Some bits \<Rightarrow> Some (Some (bits, brp))
           | None \<Rightarrow> speed_loop brp bitwidth
      else Some None)"

definition can_speed :: "U32 \<Rightarrow> U32 \<Rightarrow> U32 \<Rightarrow> U8 \<Rightarrow> U32 option" where
  "can_speed sclk pclk cclk psjw =
     (let bitwidth = sclk div (pclk * cclk);
          brp = ucast (bitwidth div 0x18)
      in case speed_loop brp bitwidth of
           None \<Rightarrow> None
         | Some None \<Rightarrow> Some 0xFFFFFFFF
         | Some (Some (bits, brp)) \<Rightarrow>
             Some ((push_bit 20 (snd (timing_pts ! bits)) AND 0x00700000) OR
                   (push_bit 16 (fst (timing_pts ! bits)) AND 0x000F0000) OR
                   (push_bit 14 (ucast psjw) AND 0x0000C000) OR
                   (push_bit 0 (ucast brp) AND 0x000003FF)))"

definition can_frequency :: "nat \<Rightarrow> U32 \<Rightarrow> U32 \<Rightarrow> U32 \<Rightarrow> LPC_CAN \<Rightarrow> (bool \<times> LPC_CAN) option" where
  "can_frequency index SystemCoreClock pclksel0 f d =
     (let pclk = can_pclk index pclksel0 in do {
        btr \<leftarrow> can_speed SystemCoreClock pclk f 1;
        Some (if 0 < sint btr
              then let (modmask, d) = can_disable d;
                       d = d\<lparr>BTR := btr\<rparr>;
                       d = d\<lparr>MOD := modmask\<rparr>
                   in (True, d)
              else (False, d))
      })"

section \<open>Sending and receiving\<close>

text \<open>A word of four bytes, the first the lowest, as the packed frame is read.\<close>

definition word_le :: "U8 list \<Rightarrow> U32" where
  "word_le bs = ucast (bs ! 0) OR push_bit 8 (ucast (bs ! 1)) OR push_bit 16 (ucast (bs ! 2)) OR push_bit 24 (ucast (bs ! 3))"

definition bytes_le :: "U32 \<Rightarrow> U8 list" where
  "bytes_le w = [ucast w, ucast (drop_bit 8 w), ucast (drop_bit 16 w), ucast (drop_bit 24 w)]"

text \<open>The first word of \<open>CANMsg\<close>: \<open>dlc\<close> in bits 16 to 19, \<open>rtr\<close> in bit 30, \<open>type\<close> in bit 31; a member of
  one bit takes the lowest bit of what is stored.\<close>

definition frame_info :: "U32 \<Rightarrow> CAN_Message \<Rightarrow> U32" where
  "frame_info junk msg =
     (junk AND 0x3FF0FFFF) OR push_bit 16 (ucast (msg_len msg AND 0xF)) OR
     push_bit 30 (CANType_val (msg_type msg) AND 1) OR push_bit 31 (CANFormat_val (msg_format msg) AND 1)"

definition put_tx :: "nat \<Rightarrow> U32 list \<Rightarrow> U32 \<Rightarrow> LPC_CAN \<Rightarrow> LPC_CAN" where
  "put_tx k buf cmd d =
     d\<lparr>TFI := (TFI d)(k := buf ! 0 AND 0xC00F0000), TID := (TID d)(k := buf ! 1),
       TDA := (TDA d)(k := buf ! 2), TDB := (TDB d)(k := buf ! 3), CMR := cmd\<rparr>"

definition can_write :: "U32 \<Rightarrow> U8 list \<Rightarrow> CAN_Message \<Rightarrow> bool \<Rightarrow> LPC_CAN \<Rightarrow> (bool \<times> LPC_CAN) option" where
  "can_write junk mem msg cc d =
     (let d = can_enable d in do {
        data \<leftarrow> memcpy mem (msg_data msg) (unat (msg_len msg));
        let buf = [frame_info junk msg, msg_id msg, word_le (take 4 data), word_le (drop 4 data)];
        let CANStatus = SR d;
        let cc = (cc \<or> MOD d AND 0x04 \<noteq> 0);
        Some (if CANStatus AND 0x00000004 \<noteq> 0 then (True, put_tx 1 buf (if cc then 0x30 else 0x21) d)
              else if CANStatus AND 0x00000400 \<noteq> 0 then (True, put_tx 2 buf (if cc then 0x50 else 0x41) d)
              else if CANStatus AND 0x00040000 \<noteq> 0 then (True, put_tx 3 buf (if cc then 0x90 else 0x81) d)
              else (False, d))
      })"

definition can_read :: "CAN_Message \<Rightarrow> LPC_CAN \<Rightarrow> (bool \<times> CAN_Message \<times> LPC_CAN) option" where
  "can_read msg d =
     (let d = can_enable d in
      if GSR d AND 0x1 \<noteq> 0
      then let dlc = drop_bit 16 (RFS d) AND 0xF;
               xdata = bytes_le (RDA d) @ bytes_le (RDB d);
               d = d\<lparr>CMR := 0x04\<rparr>
           in do {
             data \<leftarrow> memcpy (msg_data msg) xdata (unat dlc);
             Some (True, \<lparr>msg_id = RID d, msg_data = data, msg_len = ucast dlc,
               msg_format = (if bit (RFS d) 31 then CANExtended else CANStandard),
               msg_type = (if bit (RFS d) 30 then CANRemote else CANData)\<rparr>, d)
           }
      else Some (False, msg, d))"

section \<open>The timing that is chosen\<close>

lemma timing_pts_sum:
  "b < 23 \<Longrightarrow> unat (fst (timing_pts ! b)) + unat (snd (timing_pts ! b)) = b \<and>
    unat (fst (timing_pts ! b)) < 16 \<and> unat (snd (timing_pts ! b)) < 8"
proof -
  have "\<forall>b \<in> set [0..<23]. unat (fst (timing_pts ! b)) + unat (snd (timing_pts ! b)) = b \<and>
      unat (fst (timing_pts ! b)) < 16 \<and> unat (snd (timing_pts ! b)) < 8"
    unfolding timing_pts_def by (simp add: upt_rec)
  then show "b < 23 \<Longrightarrow> ?thesis" by simp
qed

lemma calcbit: "b < 23 \<Longrightarrow> unat ((word_of_nat b + 3) * (ucast (brp :: U16) + 1) :: U32) = (b + 3) * (unat brp + 1)"
proof -
  assume b: "b < 23"
  have 1: "unat (word_of_nat b + 3 :: U32) = b + 3" using b by (simp add: unat_word_ariths unat_of_nat)
  have u: "unat brp \<le> 65535" by (rule u16_le)
  have 2: "unat (ucast brp + 1 :: U32) = unat brp + 1" using u by (simp add: unat_word_ariths)
  have "(b + 3) * (unat brp + 1) \<le> 25 * 65536" using b u by (intro mult_le_mono) auto
  then show ?thesis unfolding unat_word_ariths(2) 1 2 by simp
qed

lemma speed_bits_ok: "b < 23 \<Longrightarrow> speed_bits b brp w = Some c \<Longrightarrow> 1 \<le> c \<and> c < 23 \<and> (c + 3) * (unat brp + 1) = unat w"
proof (induction b)
  case (Suc b)
  then show ?case using calcbit [of "Suc b" brp] by (auto simp: Let_def split: if_splits simp del: of_nat_Suc)
qed simp

lemma speed_bits_fail: "b < 23 \<Longrightarrow> speed_bits b brp w = None \<Longrightarrow> 1 \<le> c \<Longrightarrow> c \<le> b \<Longrightarrow> (c + 3) * (unat brp + 1) \<noteq> unat w"
proof (induction b)
  case (Suc b)
  have "speed_bits b brp w = None" "(Suc b + 3) * (unat brp + 1) \<noteq> unat w"
    using Suc.prems(1,2) calcbit [of "Suc b" brp]
    by (auto simp: Let_def word_unat_eq_iff split: if_splits simp del: of_nat_Suc)
  then show ?case using Suc.IH Suc.prems by (cases "c = Suc b") simp_all
qed simp

text \<open>The loop finds the first prescaler above \<open>brp\<close> that divides the bit time into 4 to 25 quanta; it is at
  most a quarter of the bit time.\<close>

definition timing_at :: "nat \<Rightarrow> nat \<Rightarrow> bool" where
  "timing_at w p \<longleftrightarrow> (\<exists>k. 4 \<le> k \<and> k \<le> 25 \<and> k * (p + 1) = w)"

lemma timing_at_bits: "timing_at w p \<longleftrightarrow> (\<exists>c. 1 \<le> c \<and> c \<le> 22 \<and> (c + 3) * (p + 1) = w)"
proof
  assume "timing_at w p"
  then obtain k where "4 \<le> k" "k \<le> 25" "k * (p + 1) = w" by (auto simp: timing_at_def)
  then show "\<exists>c. 1 \<le> c \<and> c \<le> 22 \<and> (c + 3) * (p + 1) = w" by (intro exI [of _ "k - 3"]) auto
next
  assume "\<exists>c. 1 \<le> c \<and> c \<le> 22 \<and> (c + 3) * (p + 1) = w"
  then obtain c where "1 \<le> c" "c \<le> 22" "(c + 3) * (p + 1) = w" by blast
  then show "timing_at w p" unfolding timing_at_def by (intro exI [of _ "c + 3"]) auto
qed

lemma timing_at_le: "timing_at w p \<Longrightarrow> p < w div 4"
proof -
  assume "timing_at w p"
  then obtain k where k: "4 \<le> k" "k * (p + 1) = w" by (auto simp: timing_at_def)
  then have "4 * (p + 1) \<le> w" by (metis mult_le_mono1)
  then show ?thesis using div_le_mono [of "4 * (p + 1)" w 4] by simp
qed

definition speed_found :: "nat \<Rightarrow> nat \<Rightarrow> (nat \<times> U16) option \<Rightarrow> bool" where
  "speed_found n w r \<longleftrightarrow> (case r of None \<Rightarrow> \<forall>p>n. \<not> timing_at w p
     | Some (b, p) \<Rightarrow> 1 \<le> b \<and> b < 23 \<and> (b + 3) * (unat p + 1) = w \<and> unat p \<le> w div 4 \<and> n < unat p \<and>
         (\<forall>p'. n < p' \<and> p' < unat p \<longrightarrow> \<not> timing_at w p'))"

lemma speed_found_Suc:
  assumes "speed_found (Suc n) w r" "\<not> timing_at w (Suc n)"
  shows "speed_found n w r"
proof -
  have n: "Suc n < p" if "n < p" "timing_at w p" for p using assms(2) that by (cases "p = Suc n") auto
  show ?thesis
  proof (cases r)
    case None
    then show ?thesis using assms(1) n by (auto simp: speed_found_def)
  next
    case (Some x)
    obtain b p where "x = (b, p)" by (cases x)
    then show ?thesis using assms(1) n Some unfolding speed_found_def by (simp, blast)
  qed
qed

lemma speed_loop_ok:
  assumes "unat w < 262144"
  shows "\<exists>r. speed_loop brp w = Some r \<and> speed_found (unat brp) (unat w) r"
proof (induction "unat w div 4 - unat brp" arbitrary: brp rule: less_induct)
  case less
  show ?case
  proof (cases "unat brp < unat w div 4")
    case True
    then have i: "unat (brp + 1) = Suc (unat brp)" using assms(1) by (simp add: unat_word_ariths)
    have lt: "(ucast brp :: U32) < w div 4" using True by (simp add: word_less_nat_alt unat_div)
    show ?thesis
    proof (cases "speed_bits 22 (brp + 1) w")
      case None
      then have e: "speed_loop brp w = speed_loop (brp + 1) w" using lt by (simp add: speed_loop.simps [of brp])
      have n: "\<not> timing_at (unat w) (Suc (unat brp))" using speed_bits_fail [OF _ None] unfolding timing_at_bits i by auto
      have "\<exists>r. speed_loop (brp + 1) w = Some r \<and> speed_found (unat (brp + 1)) (unat w) r"
        by (rule less) (use True i in simp)
      then show ?thesis unfolding e i using speed_found_Suc n by blast
    next
      case (Some b)
      then show ?thesis using lt True i speed_bits_ok [OF _ Some]
        by (auto simp: speed_loop.simps [of brp] speed_found_def)
    qed
  next
    case False
    then have "\<not> (ucast brp :: U32) < w div 4" by (simp add: word_less_nat_alt unat_div)
    then show ?thesis using False timing_at_le by (fastforce simp add: speed_loop.simps [of brp] speed_found_def)
  qed
qed

text \<open>A bit time that no prescaler can reach keeps the loop running.\<close>

lemma speed_bits_none: "b < 23 \<Longrightarrow> 1638400 < unat w \<Longrightarrow> speed_bits b brp w = None"
proof (induction b)
  case (Suc b)
  have "(Suc b + 3) * (unat brp + 1) \<le> 25 * 65536"
    using Suc.prems(1) u16_le [of brp] by (intro mult_le_mono) auto
  then have "unat ((word_of_nat (Suc b) + 3) * (ucast brp + 1) :: U32) \<noteq> unat w"
    using calcbit [of "Suc b" brp] Suc.prems by simp
  then show ?case using Suc by (auto simp: Let_def simp del: of_nat_Suc)
qed simp

lemma speed_loop_runs:
  assumes "1638400 < unat w"
  shows "speed_loop brp w = None"
proof -
  have "False" if "speed_loop brp w = Some y" for y
    using that assms
  proof (induction rule: speed_loop.raw_induct [rotated 1, consumes 1, case_names 1])
    case (1 loop brp w y)
    have "(ucast brp :: U32) < w div 4" using 1(3) u16_le [of brp] by (simp add: word_less_nat_alt unat_div)
    then show ?case using 1 speed_bits_none [of 22 w "brp + 1"] by simp
  qed
  then show ?thesis by (cases "speed_loop brp w") auto
qed

text \<open>The fields of the register.\<close>

lemma masks: "(0x7 :: U32) = mask 3" "(0xF :: U32) = mask 4" "(0x3FF :: U32) = mask 10"
  "(0x700000 :: U32) = push_bit 20 (mask 3)" "(0xF0000 :: U32) = push_bit 16 (mask 4)"
  "(0xC000 :: U32) = push_bit 14 (mask 2)"
  by (simp_all add: mask_eq_exp_minus_1 push_bit_eq_mult)

definition btr_word :: "U32 \<Rightarrow> U32 \<Rightarrow> U32 \<Rightarrow> U32 \<Rightarrow> U32" where
  "btr_word b a j p = (push_bit 20 b AND 0x00700000) OR (push_bit 16 a AND 0x000F0000) OR
     (push_bit 14 j AND 0x0000C000) OR (push_bit 0 p AND 0x000003FF)"

lemma btr_fields:
  "drop_bit 20 (btr_word b a j p) AND 0x7 = b AND 0x7"
  "drop_bit 16 (btr_word b a j p) AND 0xF = a AND 0xF"
  "btr_word b a j p AND 0x3FF = p AND 0x3FF"
  unfolding btr_word_def masks
  by (rule bit_word_eqI; auto simp: bit_simps)+

lemma unat_and_mask: "unat (w AND mask n :: 'a::len word) = unat w mod 2 ^ n"
  unfolding take_bit_eq_mask [symmetric] unsigned_take_bit_eq by (rule take_bit_eq_mod)

lemma btr_values:
  "unat (drop_bit 20 (btr_word b a j p) AND 0x7) = unat b mod 8"
  "unat (drop_bit 16 (btr_word b a j p) AND 0xF) = unat a mod 16"
  "unat (btr_word b a j p AND 0x3FF) = unat p mod 1024"
  unfolding btr_fields unfolding masks(1-3) unat_and_mask by simp_all

text \<open>What is programmed: the bit time is \<open>(1 + TSEG1 + 1 + TSEG2 + 1)\<close> quanta of \<open>BRP + 1\<close> cycles.\<close>

definition bit_time :: "U32 \<Rightarrow> nat" where
  "bit_time btr = (unat (drop_bit 16 btr AND 0xF) + unat (drop_bit 20 btr AND 0x7) + 3) * (unat (btr AND 0x3FF) + 1)"

lemma btr_not_error: "btr_word b a j p \<noteq> 0xFFFFFFFF"
proof -
  have "\<not> bit (btr_word b a j p) 31" unfolding btr_word_def masks by (simp add: bit_simps)
  moreover have "bit (0xFFFFFFFF :: U32) 31" by simp
  ultimately show ?thesis by metis
qed

lemma can_speed_ok:
  assumes "unat (sclk div (pclk * cclk)) < 4096"
  shows "\<exists>btr. can_speed sclk pclk cclk psjw = Some btr \<and>
    (if \<exists>p>unat (sclk div (pclk * cclk)) div 24. timing_at (unat (sclk div (pclk * cclk))) p
     then btr \<noteq> 0xFFFFFFFF \<and> bit_time btr = unat (sclk div (pclk * cclk)) \<and>
       unat (btr AND 0x3FF) = (LEAST p. unat (sclk div (pclk * cclk)) div 24 < p \<and> timing_at (unat (sclk div (pclk * cclk))) p)
     else btr = 0xFFFFFFFF)"
proof -
  define w where "w = sclk div (pclk * cclk)"
  have lt: "unat w < 4096" using assms by (simp add: w_def)
  have b0: "unat (ucast (w div 0x18) :: U16) = unat w div 24" using lt by (simp add: unat_ucast_32_16 unat_div)
  obtain r where r: "speed_loop (ucast (w div 0x18)) w = Some r" and ok: "speed_found (unat w div 24) (unat w) r"
    using speed_loop_ok [of w "ucast (w div 0x18)"] lt unfolding b0 by auto
  show ?thesis unfolding w_def [symmetric]
  proof (cases r)
    case None
    then show "\<exists>btr. can_speed sclk pclk cclk psjw = Some btr \<and> (if \<exists>p>unat w div 24. timing_at (unat w) p
     then btr \<noteq> 0xFFFFFFFF \<and> bit_time btr = unat w \<and> unat (btr AND 0x3FF) = (LEAST p. unat w div 24 < p \<and> timing_at (unat w) p)
     else btr = 0xFFFFFFFF)" using r ok by (simp add: can_speed_def speed_found_def Let_def flip: w_def)
  next
    case (Some bp)
    obtain b p where bp: "r = Some (b, p)" using Some by (cases bp) simp
    then have k: "1 \<le> b" "b < 23" "(b + 3) * (unat p + 1) = unat w" "unat p \<le> unat w div 4" "unat w div 24 < unat p"
      "\<And>p'. unat w div 24 < p' \<Longrightarrow> p' < unat p \<Longrightarrow> \<not> timing_at (unat w) p'" using ok by (auto simp: speed_found_def)
    have p: "unat p mod 1024 = unat p" using k(4) lt by simp
    have t: "timing_at (unat w) (unat p)" unfolding timing_at_bits using k(1-3) by (intro exI [of _ b]) simp
    let ?btr = "btr_word (snd (timing_pts ! b)) (fst (timing_pts ! b)) (ucast psjw) (ucast p)"
    have "can_speed sclk pclk cclk psjw = Some ?btr"
      using r bp by (simp add: can_speed_def Let_def btr_word_def flip: w_def)
    moreover have "bit_time ?btr = unat w" "unat (?btr AND 0x3FF) = unat p"
      using k(3) timing_pts_sum [OF k(2)] unfolding bit_time_def by (auto simp: btr_values p add.commute)
    moreover have "(LEAST p. unat w div 24 < p \<and> timing_at (unat w) p) = unat p"
      by (rule Least_equality) (use k(5,6) t in \<open>auto simp: not_less [symmetric]\<close>)
    ultimately show "\<exists>btr. can_speed sclk pclk cclk psjw = Some btr \<and> (if \<exists>p>unat w div 24. timing_at (unat w) p
     then btr \<noteq> 0xFFFFFFFF \<and> bit_time btr = unat w \<and> unat (btr AND 0x3FF) = (LEAST p. unat w div 24 < p \<and> timing_at (unat w) p)
     else btr = 0xFFFFFFFF)" using t k(5) btr_not_error by auto
  qed
qed

lemma can_speed_runs: "1638400 < unat (sclk div (pclk * cclk)) \<Longrightarrow> can_speed sclk pclk cclk psjw = None"
  by (simp add: can_speed_def Let_def speed_loop_runs)

section \<open>What is sent is read\<close>

lemma length_memcpy: "memcpy dst src n = Some d \<Longrightarrow> length d = length dst"
  by (auto simp: memcpy_def split: if_splits)

lemma bit_U8: "8 \<le> m \<Longrightarrow> \<not> bit (x :: U8) m"
  using bit_imp_le_length [of x m] by auto

lemma bytes_word_le: "length bs = 4 \<Longrightarrow> bytes_le (word_le bs) = bs"
proof -
  assume "length bs = 4"
  then obtain a b c d where bs: "bs = [a, b, c, d]"
    by (auto simp: numeral_eq_Suc length_Suc_conv)
  show ?thesis
    unfolding bs bytes_le_def word_le_def
    by (auto intro!: bit_word_eqI simp: bit_simps bit_U8)
qed

text \<open>A frame in transmit buffer \<open>k\<close> arrives in the receive registers: the length, the type and the format of
  the frame, its identifier, and as many bytes as the length says.  The other bits and bytes of the
  registers are not sent.\<close>

definition arrives :: "nat \<Rightarrow> LPC_CAN \<Rightarrow> LPC_CAN \<Rightarrow> bool" where
  "arrives k tx rx \<longleftrightarrow> GSR rx AND 1 \<noteq> 0 \<and> RFS rx AND 0xC00F0000 = TFI tx k AND 0xC00F0000 \<and> RID rx = TID tx k \<and>
     (let n = unat (drop_bit 16 (TFI tx k) AND 0xF)
      in take n (bytes_le (RDA rx) @ bytes_le (RDB rx)) = take n (bytes_le (TDA tx k) @ bytes_le (TDB tx k)))"

lemma frame_mask:
  assumes "x AND 0xC00F0000 = (y :: U32) AND 0xC00F0000"
  shows "drop_bit 16 x AND 0xF = drop_bit 16 y AND 0xF" "bit x 30 = bit y 30" "bit x 31 = bit y 31"
proof -
  have m: "(0xC00F0000 :: U32) = push_bit 30 (mask 2) OR push_bit 16 (mask 4)" "(0xF :: U32) = mask 4"
    by (simp_all add: mask_eq_exp_minus_1 push_bit_eq_mult)
  have b: "bit x i = bit y i" if "bit (0xC00F0000 :: U32) i" for i
    using arg_cong [OF assms, of "\<lambda>w. bit w i"] that by (simp add: bit_and_iff)
  have "bit x (16 + i) = bit y (16 + i)" if "i < 4" for i
    by (rule b) (use that in \<open>simp only: m, auto simp: bit_simps\<close>)
  then show "drop_bit 16 x AND 0xF = drop_bit 16 y AND 0xF"
    unfolding m by (intro bit_word_eqI) (auto simp: bit_simps)
  show "bit x 30 = bit y 30" "bit x 31 = bit y 31" by (rule b, simp only: m, simp add: bit_simps)+
qed

lemma frame_fields:
  "drop_bit 16 (frame_info junk m AND 0xC00F0000) AND 0xF = ucast (msg_len m AND 0xF)"
  "bit (frame_info junk m AND 0xC00F0000) 30 \<longleftrightarrow> odd (CANType_val (msg_type m))"
  "bit (frame_info junk m AND 0xC00F0000) 31 \<longleftrightarrow> odd (CANFormat_val (msg_format m))"
proof -
  have m: "(0xC00F0000 :: U32) = push_bit 30 (mask 2) OR push_bit 16 (mask 4)" "(0x3FF0FFFF :: U32) = NOT 0xC00F0000"
    "(0xF :: U8) = mask 4" "(0xF :: U32) = mask 4" "(1 :: U32) = mask 1"
    by (simp_all add: mask_eq_exp_minus_1 push_bit_eq_mult)
  show "drop_bit 16 (frame_info junk m AND 0xC00F0000) AND 0xF = ucast (msg_len m AND 0xF)"
    unfolding frame_info_def m by (rule bit_word_eqI) (auto simp: bit_simps)
  show "bit (frame_info junk m AND 0xC00F0000) 30 \<longleftrightarrow> odd (CANType_val (msg_type m))"
    unfolding frame_info_def m by (auto simp: bit_simps bit_0 even_mask_iff)
  show "bit (frame_info junk m AND 0xC00F0000) 31 \<longleftrightarrow> odd (CANFormat_val (msg_format m))"
    unfolding frame_info_def m by (auto simp: bit_simps bit_0 even_mask_iff)
qed

text \<open>The buffer that is used: the first that is free.\<close>

definition tx_buffer :: "LPC_CAN \<Rightarrow> nat option" where
  "tx_buffer d = (if SR d AND 0x00000004 \<noteq> 0 then Some 1 else if SR d AND 0x00000400 \<noteq> 0 then Some 2
     else if SR d AND 0x00040000 \<noteq> 0 then Some 3 else None)"

lemma can_enable_fields [simp]:
  "SR (can_enable d) = SR d" "GSR (can_enable d) = GSR d" "RFS (can_enable d) = RFS d" "RID (can_enable d) = RID d"
  "RDA (can_enable d) = RDA d" "RDB (can_enable d) = RDB d"
  by (simp_all add: can_enable_def)

lemma can_write_ok:
  assumes "length mem = 8" "length (msg_data m) = 8" "unat (msg_len m) \<le> 8"
  shows "\<exists>d'. can_write junk mem m cc d = Some (tx_buffer d \<noteq> None, d') \<and>
    (\<forall>k. tx_buffer d = Some k \<longrightarrow> TFI d' k = frame_info junk m AND 0xC00F0000 \<and> TID d' k = msg_id m \<and>
      bytes_le (TDA d' k) @ bytes_le (TDB d' k) = take (unat (msg_len m)) (msg_data m) @ drop (unat (msg_len m)) mem)"
proof -
  let ?data = "take (unat (msg_len m)) (msg_data m) @ drop (unat (msg_len m)) mem"
  have "length ?data = 8" using assms by simp
  then have "bytes_le (word_le (take 4 ?data)) @ bytes_le (word_le (drop 4 ?data)) = ?data"
    using bytes_word_le [of "take 4 ?data"] bytes_word_le [of "drop 4 ?data"] append_take_drop_id [of 4 ?data] by simp
  then show ?thesis
    using assms by (simp add: can_write_def memcpy_def tx_buffer_def put_tx_def Let_def)
qed

lemma can_read_ok:
  assumes "GSR rx AND 1 \<noteq> 0" "length (msg_data msg0) = 8"
  shows "can_read msg0 rx =
    (let dlc = drop_bit 16 (RFS rx) AND 0xF in
     if unat dlc \<le> 8
     then Some (True, \<lparr>msg_id = RID rx,
       msg_data = take (unat dlc) (bytes_le (RDA rx) @ bytes_le (RDB rx)) @ drop (unat dlc) (msg_data msg0),
       msg_len = ucast dlc, msg_format = (if bit (RFS rx) 31 then CANExtended else CANStandard),
       msg_type = (if bit (RFS rx) 30 then CANRemote else CANData)\<rparr>, (can_enable rx)\<lparr>CMR := 0x04\<rparr>)
     else None)"
  using assms by (simp add: can_read_def Let_def memcpy_def bytes_le_def del: drop_append take_append)

lemma unat_ucast_low: "unat (n :: U8) < 16 \<Longrightarrow> unat (ucast (n AND 0xF) :: U32) = unat n"
proof -
  assume "unat n < 16"
  then have "unat (n AND mask 4) = unat n" unfolding unat_and_mask by simp
  moreover have "(0xF :: U8) = mask 4" by (simp add: mask_eq_exp_minus_1)
  ultimately show ?thesis by simp
qed

text \<open>What is written to a free buffer is what the receiver reads.\<close>

lemma can_write_read:
  assumes "length mem = 8" "length (msg_data m) = 8" "unat (msg_len m) \<le> 8" "msg_format m \<noteq> CANAny"
    "tx_buffer d = Some k" "length (msg_data msg0) = 8"
  shows "\<exists>d'. can_write junk mem m cc d = Some (True, d') \<and> (\<forall>rx. arrives k d' rx \<longrightarrow>
    can_read msg0 rx = Some (True, m\<lparr>msg_data := take (unat (msg_len m)) (msg_data m) @
      drop (unat (msg_len m)) (msg_data msg0)\<rparr>, (can_enable rx)\<lparr>CMR := 0x04\<rparr>))"
proof -
  obtain d' where w: "can_write junk mem m cc d = Some (True, d')"
    and f: "TFI d' k = frame_info junk m AND 0xC00F0000" "TID d' k = msg_id m"
      "bytes_le (TDA d' k) @ bytes_le (TDB d' k) = take (unat (msg_len m)) (msg_data m) @ drop (unat (msg_len m)) mem"
    using can_write_ok [OF assms(1-3), of junk cc d] assms(5) by auto
  have n: "unat (ucast (msg_len m AND 0xF) :: U32) = unat (msg_len m)"
    using unat_ucast_low [of "msg_len m"] assms(3) by simp
  have l: "ucast (ucast (msg_len m AND 0xF) :: U32) = msg_len m"
    using n by (metis unat_ucast_32_8 mod_less unat_u8 word_unat_eq_iff)
  have c: "can_read msg0 rx = Some (True, m\<lparr>msg_data := take (unat (msg_len m)) (msg_data m) @
      drop (unat (msg_len m)) (msg_data msg0)\<rparr>, (can_enable rx)\<lparr>CMR := 0x04\<rparr>)" if a: "arrives k d' rx" for rx
  proof -
    note g = frame_fields [of junk m] and q = frame_mask [of "RFS rx" "TFI d' k"]
    have e: "RFS rx AND 0xC00F0000 = TFI d' k AND 0xC00F0000" using a by (simp add: arrives_def)
    have n8: "unat (drop_bit 16 (TFI d' k) AND 0xF) = unat (msg_len m)" unfolding f(1) g(1) by (rule n)
    have r: "GSR rx AND 1 \<noteq> 0" "RID rx = msg_id m" "drop_bit 16 (RFS rx) AND 0xF = ucast (msg_len m AND 0xF)"
      "bit (RFS rx) 30 \<longleftrightarrow> odd (CANType_val (msg_type m))" "bit (RFS rx) 31 \<longleftrightarrow> odd (CANFormat_val (msg_format m))"
      using a q [OF e] unfolding f(1) g by (simp_all add: arrives_def f(2))
    have "take (unat (msg_len m)) (bytes_le (RDA rx) @ bytes_le (RDB rx)) =
        take (unat (msg_len m)) (take (unat (msg_len m)) (msg_data m) @ drop (unat (msg_len m)) mem)"
      using a unfolding arrives_def Let_def n8 f(3) by blast
    then have t: "take (unat (msg_len m)) (bytes_le (RDA rx) @ bytes_le (RDB rx)) = take (unat (msg_len m)) (msg_data m)"
      using assms(2,3) by simp
    have ty: "(if odd (CANType_val (msg_type m)) then CANRemote else CANData) = msg_type m"
      by (cases "msg_type m") simp_all
    have fm: "(if odd (CANFormat_val (msg_format m)) then CANExtended else CANStandard) = msg_format m"
      using assms(4) by (cases "msg_format m") simp_all
    show ?thesis
      using can_read_ok [OF r(1) assms(6)] assms(2,3)
      unfolding r(2-5) n l ty fm t Let_def by simp
  qed
  show ?thesis using w c by blast
qed

end
