(* ===== verification/Ams_Can.thy ===== *)
theory Ams_Can
  imports Ams_Steps Fifo Can_Driver
begin

text \<open>
  The messages of the controllers on the CAN bus (\<open>dispatcher/\<close>, \<open>service/\<close>, \<open>net/\<close>): what is sent,
  byte by byte, and how received messages reach the state machine.  The bytes that the packed unions
  leave uninitialised are an argument \<open>junk\<close>, those of the message an argument \<open>mem\<close>.
\<close>

section \<open>Messages\<close>

definition CANID_AMS_HEARTBEAT :: U32 where "CANID_AMS_HEARTBEAT = 0x200"
definition CANID_AMS_STATUS :: U32 where "CANID_AMS_STATUS = 0x201"
definition CANID_AMS_CONTACTOR_INFO :: U32 where "CANID_AMS_CONTACTOR_INFO = 0x204"
definition CANID_AMS_COMMAND_MESSAGE :: U32 where "CANID_AMS_COMMAND_MESSAGE = 0x20C"

text \<open>A little-endian 16-bit member of a packed structure.\<close>

definition bytes16 :: "U16 \<Rightarrow> U8 list" where
  "bytes16 w = [ucast w, ucast (drop_bit 8 w)]"

definition get16 :: "U8 list \<Rightarrow> U16" where
  "get16 bs = ucast (bs ! 0) OR push_bit 8 (ucast (bs ! 1))"

lemma get16_bytes16: "get16 (bytes16 w @ bs) = w"
proof (rule bit_word_eqI)
  fix n assume n: "n < LENGTH(16)"
  show "bit (get16 (bytes16 w @ bs)) n = bit w n"
    using n by (cases "n < 8") (auto simp: get16_def bytes16_def bit_or_iff bit_push_bit_iff bit_drop_bit_eq
        bit_unsigned_iff bit_take_bit_iff dest: bit_imp_le_length)
qed

section \<open>The status message\<close>

definition STATUS_ERROR_INSULATION_FAULT :: U16 where "STATUS_ERROR_INSULATION_FAULT = push_bit 0 1"
definition STATUS_ERROR_AMS :: U16 where "STATUS_ERROR_AMS = push_bit 1 1"
definition STATUS_ERROR_STACK_UNDERVOLTAGE :: U16 where "STATUS_ERROR_STACK_UNDERVOLTAGE = push_bit 2 1"
definition STATUS_ERROR_STACK_OVERVOLTAGE :: U16 where "STATUS_ERROR_STACK_OVERVOLTAGE = push_bit 3 1"
definition STATUS_ERROR_SERVICE_DISCONNECTS :: U16 where "STATUS_ERROR_SERVICE_DISCONNECTS = push_bit 4 1"
definition STATUS_ERROR_HARDWARE_OVERCURRENT :: U16 where "STATUS_ERROR_HARDWARE_OVERCURRENT = push_bit 5 1"
definition STATUS_BMS_CELL_OVERVOLTAGE :: U16 where "STATUS_BMS_CELL_OVERVOLTAGE = push_bit 7 1"
definition STATUS_BMS_CELL_UNDERVOLTAGE :: U16 where "STATUS_BMS_CELL_UNDERVOLTAGE = push_bit 8 1"
definition STATUS_BMS_CELL_OVERTEMP :: U16 where "STATUS_BMS_CELL_OVERTEMP = push_bit 9 1"
definition STATUS_BMS_CELL_UNDERTEMP :: U16 where "STATUS_BMS_CELL_UNDERTEMP = push_bit 10 1"
definition STATUS_BMS_CELL_OPEN_CIRCUIT :: U16 where "STATUS_BMS_CELL_OPEN_CIRCUIT = push_bit 11 1"
definition STATUS_INFO_PRECHARGE_OUTOFRANGE :: U16 where "STATUS_INFO_PRECHARGE_OUTOFRANGE = push_bit 12 1"
definition STATUS_INFO_PRECHARGE_99 :: U16 where "STATUS_INFO_PRECHARGE_99 = push_bit 13 1"
definition STATUS_INFO_AIR_POWER_AVAILABLE :: U16 where "STATUS_INFO_AIR_POWER_AVAILABLE = push_bit 14 1"

lemmas status_bits = STATUS_ERROR_INSULATION_FAULT_def STATUS_ERROR_AMS_def STATUS_ERROR_STACK_UNDERVOLTAGE_def
  STATUS_ERROR_STACK_OVERVOLTAGE_def STATUS_ERROR_SERVICE_DISCONNECTS_def STATUS_ERROR_HARDWARE_OVERCURRENT_def
  STATUS_BMS_CELL_OVERVOLTAGE_def STATUS_BMS_CELL_UNDERVOLTAGE_def STATUS_BMS_CELL_OVERTEMP_def
  STATUS_BMS_CELL_UNDERTEMP_def STATUS_BMS_CELL_OPEN_CIRCUIT_def STATUS_INFO_PRECHARGE_OUTOFRANGE_def
  STATUS_INFO_PRECHARGE_99_def STATUS_INFO_AIR_POWER_AVAILABLE_def

definition set_if :: "bool \<Rightarrow> U16 \<Rightarrow> U16 \<Rightarrow> U16" where
  "set_if b bits m = (if b then m OR bits else m)"

definition bms_bits :: U16 where
  "bms_bits = STATUS_BMS_CELL_OVERVOLTAGE OR STATUS_BMS_CELL_UNDERVOLTAGE OR STATUS_BMS_CELL_UNDERTEMP OR
     STATUS_BMS_CELL_OVERTEMP OR STATUS_BMS_CELL_OPEN_CIRCUIT"

definition ams_bits :: U16 where
  "ams_bits = STATUS_ERROR_STACK_UNDERVOLTAGE OR STATUS_ERROR_STACK_OVERVOLTAGE OR
     STATUS_ERROR_SERVICE_DISCONNECTS OR STATUS_ERROR_HARDWARE_OVERCURRENT OR bms_bits"

definition generate_status_mask :: "inputs \<Rightarrow> U16" where
  "generate_status_mask i =
     (let status_mask = 0;
          status_mask = set_if (\<not> imd_status i) STATUS_ERROR_INSULATION_FAULT status_mask;
          status_mask = set_if (\<not> undervoltage_status i) STATUS_ERROR_STACK_UNDERVOLTAGE status_mask;
          status_mask = set_if (\<not> overvoltage_status i) STATUS_ERROR_STACK_OVERVOLTAGE status_mask;
          status_mask = set_if (\<not> disconnects_status i) STATUS_ERROR_SERVICE_DISCONNECTS status_mask;
          status_mask = set_if (precharge_oor_status i) STATUS_INFO_PRECHARGE_OUTOFRANGE status_mask;
          status_mask = set_if (precharge_99_status i) STATUS_INFO_PRECHARGE_99 status_mask;
          status_mask = set_if (contactor_power_status i) STATUS_INFO_AIR_POWER_AVAILABLE status_mask;
          status_mask = set_if (\<not> bms_status i) bms_bits status_mask
      in set_if (status_mask AND ams_bits \<noteq> 0) STATUS_ERROR_AMS status_mask)"

text \<open>\<open>StatusMessageService::send\<close>; the state is sent as one byte.\<close>

definition status_send :: "U8 list \<Rightarrow> U8 \<Rightarrow> U16 \<Rightarrow> U8 \<Rightarrow> CAN_Message option" where
  "status_send mem junk status_mask current_state =
     CANMessage mem CANID_AMS_STATUS (bytes16 status_mask @ [junk, current_state]) 4 CANData CANStandard"

definition status_procedure :: "U8 list \<Rightarrow> U8 \<Rightarrow> inputs \<Rightarrow> ams \<Rightarrow> CAN_Message option" where
  "status_procedure mem junk i s =
     (let status_mask = generate_status_mask i;
          current_state = word_of_nat (scs_val (sc_state s)) :: U16
      in status_send mem junk status_mask (ucast current_state))"

section \<open>The heartbeat and the contactors\<close>

definition heartbeat_send :: "U8 list \<Rightarrow> U8 \<Rightarrow> U8 \<Rightarrow> U32 \<Rightarrow> CAN_Message option" where
  "heartbeat_send mem rderrors tderrors counter =
     CANMessage mem CANID_AMS_HEARTBEAT
       (bytes16 (ucast counter) @ bytes16 (ucast rderrors) @ bytes16 (ucast tderrors)) 6 CANData CANStandard"

text \<open>The dispatcher's counter is 16 bits wide and wraps.\<close>

definition heartbeat_procedure :: "U8 list \<Rightarrow> LPC_CAN \<Rightarrow> U16 \<Rightarrow> CAN_Message option \<times> U16" where
  "heartbeat_procedure mem driver heartbeat_counter =
     (heartbeat_send mem (can_rderror driver) (can_tderror driver) (ucast heartbeat_counter), heartbeat_counter + 1)"

definition of_flag :: "nat \<Rightarrow> bool \<Rightarrow> U8" where
  "of_flag n b = push_bit n (of_bool b)"

text \<open>The bit fields of \<open>mm_can_contactor_info_t\<close>, from the lowest bit; two bits are not assigned.\<close>

definition contactor_info_send :: "U8 list \<Rightarrow> U8 \<Rightarrow> bool \<Rightarrow> bool \<Rightarrow> bool \<Rightarrow> bool \<Rightarrow> bool \<Rightarrow> bool \<Rightarrow> CAN_Message option" where
  "contactor_info_send mem junk neg_driven neg_feedback neg_hwerr pos_driven pos_feedback pos_hwerr =
     CANMessage mem CANID_AMS_CONTACTOR_INFO
       [(junk AND 0xC0) OR of_flag 0 neg_driven OR of_flag 1 neg_feedback OR of_flag 2 neg_hwerr OR
        of_flag 3 pos_driven OR of_flag 4 pos_feedback OR of_flag 5 pos_hwerr]
       1 CANData CANStandard"

definition contactor_info_procedure :: "U8 list \<Rightarrow> U8 \<Rightarrow> inputs \<Rightarrow> ams \<Rightarrow> CAN_Message option" where
  "contactor_info_procedure mem junk i s =
     contactor_info_send mem junk (pc_coil_status s) (pc_feedback_status i) (pc_hwerr_status s)
       (run_coil_status s) (run_feedback_status i) (run_hwerr_status s)"

section \<open>Receiving\<close>

text \<open>\<open>CANTransceiver::dispatch_message\<close>.\<close>

definition dispatch_message :: "CAN_Message \<Rightarrow> ams \<Rightarrow> ams" where
  "dispatch_message m s =
     (if msg_id m = CANID_AMS_COMMAND_MESSAGE
      then if 1 \<le> msg_len m
        then let en_tr = msg_data m ! 0 AND 1 \<noteq> 0;
                 dis_cnv = msg_data m ! 0 AND 2 \<noteq> 0;
                 s = push_tractive_enable en_tr s
             in set_conversions_enable (\<not> dis_cnv) s
        else s
      else s)"

text \<open>The receiver: the messages that the driver still holds, the slots of the mailbox by their use
  (free; held by \<open>next_message\<close>; in the queue), and the messages that went to the trash can.  A slot
  taken out of the queue comes back when it is freed.\<close>

record can_rx =
  rx_pending :: "CAN_Message list"
  mail_free :: nat
  next_message :: bool
  mail_queue :: "CAN_Message list"
  trashed :: "CAN_Message list"

text \<open>The loop of \<open>rx_interrupt\<close>; reading fails when the driver holds no message, which ends the loop.\<close>

definition rx_alloc :: "can_rx \<Rightarrow> can_rx" where
  "rx_alloc s =
     (if \<not> next_message s \<and> 0 < mail_free s
      then s\<lparr>next_message := True, mail_free := mail_free s - 1\<rparr> else s)"

definition rx_take :: "CAN_Message \<Rightarrow> can_rx \<Rightarrow> can_rx" where
  "rx_take m s =
     (if next_message s then s\<lparr>mail_queue := mail_queue s @ [m], next_message := False\<rparr>
      else s\<lparr>trashed := trashed s @ [m]\<rparr>)"

fun rx_loop :: "CAN_Message list \<Rightarrow> can_rx \<Rightarrow> can_rx" where
  "rx_loop [] s = (rx_alloc s)\<lparr>rx_pending := []\<rparr>"
| "rx_loop (m # ms) s = rx_loop ms (rx_take m (rx_alloc s))"

definition rx_interrupt :: "can_rx \<Rightarrow> can_rx" where
  "rx_interrupt s = rx_loop (rx_pending s) s"

text \<open>One turn of \<open>CANTransceiver::procedure\<close>: get, dispatch, free.\<close>

definition rx_procedure :: "can_rx \<Rightarrow> ams \<Rightarrow> can_rx \<times> ams" where
  "rx_procedure r s =
     (case mail_queue r of [] \<Rightarrow> (r, s)
      | m # ms \<Rightarrow> (r\<lparr>mail_queue := ms, mail_free := mail_free r + 1\<rparr>, dispatch_message m s))"

section \<open>What is sent\<close>

lemma status_bit_values [simp]:
  "STATUS_ERROR_INSULATION_FAULT = 1" "STATUS_ERROR_AMS = 2" "STATUS_ERROR_STACK_UNDERVOLTAGE = 4"
  "STATUS_ERROR_STACK_OVERVOLTAGE = 8" "STATUS_ERROR_SERVICE_DISCONNECTS = 16"
  "STATUS_ERROR_HARDWARE_OVERCURRENT = 32" "STATUS_BMS_CELL_OVERVOLTAGE = 128"
  "STATUS_BMS_CELL_UNDERVOLTAGE = 256" "STATUS_BMS_CELL_OVERTEMP = 512" "STATUS_BMS_CELL_UNDERTEMP = 1024"
  "STATUS_BMS_CELL_OPEN_CIRCUIT = 2048" "STATUS_INFO_PRECHARGE_OUTOFRANGE = 4096"
  "STATUS_INFO_PRECHARGE_99 = 8192" "STATUS_INFO_AIR_POWER_AVAILABLE = 16384"
  by (simp_all add: status_bits push_bit_eq_mult)

lemma bms_bits_value [simp]: "bms_bits = 3968"
  by (simp add: bms_bits_def)

lemma ams_bits_value [simp]: "ams_bits = 4028"
  by (simp add: ams_bits_def)

text \<open>The mask as a table of its bits.\<close>

lemma status_mask_table:
  "generate_status_mask i =
     (let e = of_bool; bad = \<not> undervoltage_status i \<or> \<not> overvoltage_status i \<or> \<not> disconnects_status i \<or> \<not> bms_status i
      in e (\<not> imd_status i) + 2 * e bad + 4 * e (\<not> undervoltage_status i) + 8 * e (\<not> overvoltage_status i) +
         16 * e (\<not> disconnects_status i) + 3968 * e (\<not> bms_status i) + 4096 * e (precharge_oor_status i) +
         8192 * e (precharge_99_status i) + 16384 * e (contactor_power_status i))"
  by (cases "imd_status i"; cases "undervoltage_status i"; cases "overvoltage_status i"; cases "disconnects_status i";
      cases "bms_status i"; cases "precharge_oor_status i"; cases "precharge_99_status i"; cases "contactor_power_status i";
      simp add: generate_status_mask_def set_if_def Let_def)

text \<open>The receiver of a status message.\<close>

definition status_message :: "U8 list \<Rightarrow> U8 \<Rightarrow> inputs \<Rightarrow> ams \<Rightarrow> CAN_Message" where
  "status_message mem junk i s = \<lparr>msg_id = CANID_AMS_STATUS,
     msg_data = bytes16 (generate_status_mask i) @ [junk, word_of_nat (scs_val (sc_state s))] @ drop 4 mem,
     msg_len = 4, msg_format = CANStandard, msg_type = CANData\<rparr>"

lemma status_procedure_eq:
  "length mem = 8 \<Longrightarrow> status_procedure mem junk i s = Some (status_message mem junk i s)"
  by (cases "sc_state s") (simp_all add: status_procedure_def status_send_def status_message_def Let_def
      CANMessage_def memcpy_def bytes16_def)

lemma state_byte: "unat (word_of_nat (scs_val st) :: U8) = scs_val st"
  by (cases st) simp_all

lemma status_round_trip:
  "get16 (take 4 (msg_data (status_message mem junk i s)) @ rest) = generate_status_mask i"
  "unat ((take 4 (msg_data (status_message mem junk i s)) @ rest) ! 3) = scs_val (sc_state s)"
proof -
  have t: "take 4 (msg_data (status_message mem junk i s)) @ rest =
      bytes16 (generate_status_mask i) @ [junk, word_of_nat (scs_val (sc_state s))] @ rest"
    by (simp add: status_message_def bytes16_def)
  show "get16 (take 4 (msg_data (status_message mem junk i s)) @ rest) = generate_status_mask i"
    unfolding t by (rule get16_bytes16)
  show "unat ((take 4 (msg_data (status_message mem junk i s)) @ rest) ! 3) = scs_val (sc_state s)"
    unfolding t by (simp add: bytes16_def state_byte)
qed

section \<open>What is received\<close>

definition rx_slots :: "can_rx \<Rightarrow> nat" where
  "rx_slots s = mail_free s + of_bool (next_message s) + length (mail_queue s)"

definition rx_room :: "can_rx \<Rightarrow> nat" where
  "rx_room s = mail_free s + of_bool (next_message s)"

lemma rx_loop_ok:
  "mail_queue (rx_loop ms s) = mail_queue s @ take (rx_room s) ms \<and>
   trashed (rx_loop ms s) = trashed s @ drop (rx_room s) ms \<and>
   rx_slots (rx_loop ms s) = rx_slots s \<and> rx_pending (rx_loop ms s) = []"
proof (induction ms arbitrary: s)
  case Nil
  then show ?case by (auto simp: rx_alloc_def rx_room_def rx_slots_def)
next
  case (Cons m ms)
  show ?case
  proof (cases "rx_room s = 0")
    case True
    then show ?thesis using Cons [of "rx_take m (rx_alloc s)"]
      by (auto simp: rx_alloc_def rx_take_def rx_room_def rx_slots_def)
  next
    case False
    then obtain k where k: "rx_room s = Suc k" by (cases "rx_room s") auto
    have "next_message (rx_alloc s)" "rx_room (rx_take m (rx_alloc s)) = k"
        "mail_queue (rx_take m (rx_alloc s)) = mail_queue s @ [m]" "trashed (rx_take m (rx_alloc s)) = trashed s"
        "rx_slots (rx_take m (rx_alloc s)) = rx_slots s"
      using k by (cases "next_message s"; simp add: rx_alloc_def rx_take_def rx_room_def rx_slots_def)+
    with k show ?thesis using Cons [of "rx_take m (rx_alloc s)"] by simp
  qed
qed

text \<open>One interrupt for each message and one turn of the dispatching thread for each: the mailbox is a
  first-in first-out buffer of its free slots and those in use.\<close>

definition rx_message :: "CAN_Message \<Rightarrow> can_rx \<Rightarrow> can_rx" where
  "rx_message m s = rx_interrupt (s\<lparr>rx_pending := [m]\<rparr>)"

definition rx_get :: "can_rx \<Rightarrow> CAN_Message \<times> can_rx" where
  "rx_get s = (hd (mail_queue s), fst (rx_procedure s ams_static))"

lemma rx_message_ok: "length (mail_queue s) < rx_slots s \<Longrightarrow>
    mail_queue (rx_message m s) = mail_queue s @ [m] \<and> rx_slots (rx_message m s) = rx_slots s"
  using rx_loop_ok [of "[m]" "s\<lparr>rx_pending := [m]\<rparr>"]
  by (auto simp: rx_message_def rx_interrupt_def rx_room_def rx_slots_def split: if_splits)

interpretation can_mail: fifo "\<lambda>s. True" mail_queue rx_slots rx_message rx_get
proof
  fix s v vs
  show "length (mail_queue s) < rx_slots s \<Longrightarrow> True \<and> mail_queue (rx_message v s) = mail_queue s @ [v] \<and>
      rx_slots (rx_message v s) = rx_slots s"
    using rx_message_ok by simp
  show "mail_queue s = v # vs \<Longrightarrow> True \<and> fst (rx_get s) = v \<and> mail_queue (snd (rx_get s)) = vs \<and>
      rx_slots (snd (rx_get s)) = rx_slots s"
    by (simp add: rx_get_def rx_procedure_def rx_slots_def)
qed

end
