(* ===== verification/Ams_Properties.thy ===== *)
theory Ams_Properties
  imports Ams_Can
begin

text \<open>
  The properties of the controllers of the accumulator system and of their messages.
\<close>

section \<open>Some runs\<close>

definition ex_good :: inputs where
  "ex_good = \<lparr>bmsOk = True, imd_signal = False, battery_undervoltage = True, battery_overvoltage = True,
     service_disconnects = False, precharge_oor = True, precharge_99 = True, contactor_power = False,
     precharge_contactor_feedback = True, run_contactor_feedback = True\<rparr>"

definition ex_bad :: inputs where "ex_bad = ex_good\<lparr>bmsOk := False\<rparr>"

definition ex_start :: ams where "ex_start = the (ams_main fuel)"

definition ex_to_precharge :: "ams_ev list" where
  "ex_to_precharge = [Process ex_good, CanCommand True, CanNotify, Process ex_good]"

definition ex_to_min :: "ams_ev list" where
  "ex_to_min = ex_to_precharge @ [Elapse 5000, PrechargeCallback]"

definition ex_after :: "ams_ev list \<Rightarrow> ams" where "ex_after es = fold ams_next es ex_start"

lemma ex_start_main: "ams_main fuel = Some ex_start"
  using ams_main_eq [of 1] by (simp add: ex_start_def fuel_Suc)

lemma ex_start_eq: "ex_start = ams_static\<lparr>sc_state := scsWaitingForInternalSafety,
    hvc_state := hvcAllOpen, amsOk := False, performConversions := True\<rparr>"
  using ams_main_eq [of 1] by (simp add: ex_start_def fuel_Suc)

lemma ex_start_reach: "ams_reach ex_start"
  by (rule ams_reach.start [OF ex_start_main])

lemma ex_after_reach: "ams_reach (ex_after es)"
  unfolding ex_after_def by (rule ams_run_reach [OF ex_start_reach ams_run_next [OF ams_reach_inv [OF ex_start_reach]]])

lemma ex_inputs: "inputs_ok ex_good" "\<not> inputs_ok ex_bad"
  by (simp_all add: inputs_ok_def status_defs ex_good_def ex_bad_def)

lemma ex_precharging: "ex_after ex_to_precharge =
  ams_static\<lparr>sc_state := scsStartedPrecharge, tractive_power_enable_bit := True, amsOk := False, performConversions := True,
    hvc_state := hvcPrecharge, precharge_contactor_coil := True, precharge_timer := Some 5000,
    precharge_error_timer := Some 300\<rparr>"
  by (simp add: ex_after_def ex_to_precharge_def ex_start_eq stepped_def ex_inputs push_tractive_enable_def
      ams_static_def notified_def resets_def opened_def started_def sync_coils_def Let_def)

lemma ex_min: "ex_after ex_to_min =
  ams_static\<lparr>sc_state := scsPrechargeMinimumTimeExceeded, tractive_power_enable_bit := True, amsOk := False, performConversions := True,
    hvc_state := hvcPrecharge, precharge_contactor_coil := True, pc_error_due := 1\<rparr>"
  using ex_precharging by (simp add: ex_after_def ex_to_min_def elapse_def ams_static_def fired_def Let_def)

lemma ex_ready: "ex_after (ex_to_min @ [Process ex_good]) =
  ams_static\<lparr>sc_state := scsTractiveSystemRaceReady, tractive_power_enable_bit := True, amsOk := False, performConversions := True,
    hvc_state := hvcHighCurrentRun, precharge_contactor_coil := True, pc_error_due := 1,
    run_contactor_coil := True, run_error_timer := Some 300\<rparr>"
  using ex_min ex_inputs by (simp add: ex_after_def ams_static_def stepped_def running_def sync_coils_def
      precharge_99_status_def precharge_oor_status_def ex_good_def Let_def)

lemma ex_latched: "ex_after (ex_to_precharge @ [Process ex_bad]) =
  ams_static\<lparr>sc_state := scsLatchingError, tractive_power_enable_bit := True, amsOk := False, performConversions := True,
    hvc_state := hvcAllOpen, precharge_error_timer := Some 300\<rparr>"
  using ex_precharging ex_inputs by (simp add: ex_after_def ams_static_def stepped_def opened_def sync_coils_def Let_def)

section \<open>The controllers\<close>

text \<open>C1: in every state that the controllers can reach, whatever the inputs, commands, errors
  and delays, a closed run contactor means that the state machine is race ready and that the
  precharge contactor is closed too; a closed precharge contactor means that the state machine is
  precharging or race ready.\<close>

theorem contactors_follow_state:
  assumes "ams_reach s"
  shows "(run_contactor_coil s \<longrightarrow> sc_state s = scsTractiveSystemRaceReady \<and> precharge_contactor_coil s) \<and>
    (precharge_contactor_coil s \<longrightarrow>
      sc_state s \<in> {scsStartedPrecharge, scsPrechargeMinimumTimeExceeded, scsTractiveSystemRaceReady})"
  using ams_reach_inv [OF assms] by (auto simp: ams_inv_def)

theorem contactors_follow_state_witness:
  "run_contactor_coil (ex_after (ex_to_min @ [Process ex_good])) \<and>
   precharge_contactor_coil (ex_after (ex_to_min @ [Process ex_good]))"
  using contactors_follow_state [OF ex_after_reach [of "ex_to_min @ [Process ex_good]"]] ex_ready by simp



text \<open>A turn does not depend on the inputs of the battery voltages: their test is commented out.\<close>

lemma battery_voltages_untested:
  "ams_step n (Process (i\<lparr>battery_undervoltage := u, battery_overvoltage := o'\<rparr>)) s = ams_step n (Process i) s"
proof -
  let ?i = "i\<lparr>battery_undervoltage := u, battery_overvoltage := o'\<rparr>"
  have "process_waiting_states n ?i = process_waiting_states n i" "process_activated_states n ?i = process_activated_states n i"
    "precharge_99_status ?i = precharge_99_status i" "precharge_oor_status ?i = precharge_oor_status i"
    by (simp_all add: process_waiting_states_def process_activated_states_def status_defs fun_eq_iff)
  then show ?thesis by (simp only: ams_step.simps state_machine_process_step_def)
qed

text \<open>C12: the only step that closes the run contactor is a turn of the state machine in the state
  \<open>scsPrechargeMinimumTimeExceeded\<close>, with the precharge contactor closed, in which the battery management system,
  the insulation monitor, the service disconnects and the contactor supply are good, the voltage is at 99%
  and the precharge is in range.  Nothing is said of the other inputs, and how long the precharge has lasted
  is the matter of \<open>precharge_lasts_minimum_time\<close>.\<close>

theorem run_contactor_closes_after_precharge:
  assumes "ams_reach s" "ams_step 4 ev s = Some s'" "\<not> run_contactor_coil s" "run_contactor_coil s'"
  shows "\<exists>i. ev = Process i \<and> sc_state s = scsPrechargeMinimumTimeExceeded \<and> precharge_contactor_coil s \<and>
    bms_status i \<and> imd_status i \<and> disconnects_status i \<and> contactor_power_status i \<and>
    precharge_99_status i \<and> precharge_oor_status i"
proof -
  have I: "ams_inv s" by (rule ams_reach_inv [OF assms(1)])
  have n: "s' = ams_next ev s" using ams_step_next [OF I, of ev] assms(2) by simp
  show ?thesis
  proof (cases ev)
    case (Process i)
    then show ?thesis using n I assms(3,4) stepped_run [of "s\<lparr>signal := False\<rparr>" i] by (simp add: inputs_ok_def)
  qed (use n assms(3,4) in \<open>auto simp: notified_def fired_def opened_def Let_def push_tractive_enable_def
      precharge_toggle_cb_def run_toggle_cb_def cc_procedure_def bms_procedure_def
      split: option.splits if_splits prod.splits\<close>)
qed

theorem run_contactor_closes_after_precharge_witness:
  "sc_state (ex_after ex_to_min) = scsPrechargeMinimumTimeExceeded"
  using run_contactor_closes_after_precharge [OF ex_after_reach [of ex_to_min]
      ams_step_next [OF ams_reach_inv [OF ex_after_reach [of ex_to_min]], of "Process ex_good"]]
    ex_ready ex_min by (simp add: ex_after_def ams_static_def)

text \<open>C10: a latched error is only left when the driver deactivates the tractive system, and then to
  the internal safety check with both contactors open.\<close>

theorem latched_until_driver_deactivates:
  assumes "ams_reach s" "sc_state s = scsLatchingError" "ams_step 4 ev s = Some s'"
    "sc_state s' \<noteq> scsLatchingError"
  shows "(ev = Notify sceDriverDeactivatesTractiveSystem \<or>
      ev = CanNotify \<and> can_event s = Some sceDriverDeactivatesTractiveSystem) \<and>
    sc_state s' = scsWaitingForInternalSafety \<and> \<not> precharge_contactor_coil s' \<and> \<not> run_contactor_coil s'"
proof -
  have n: "s' = ams_next ev s" using ams_step_next [OF ams_reach_inv [OF assms(1)], of ev] assms(3) by simp
  show ?thesis
    using n assms(2,4)
    by (cases ev) (auto simp: stepped_latched notified_def resets_def fired_def Let_def push_tractive_enable_def
      precharge_toggle_cb_def run_toggle_cb_def cc_procedure_def bms_procedure_def less_scs_def less_eq_scs_def
      split: option.splits if_splits prod.splits)
qed

theorem latched_until_driver_deactivates_witness:
  "\<exists>s'. ams_step 4 (Notify sceDriverDeactivatesTractiveSystem) (ex_after (ex_to_precharge @ [Process ex_bad])) = Some s' \<and>
     sc_state s' = scsWaitingForInternalSafety"
  using latched_until_driver_deactivates [OF ex_after_reach [of "ex_to_precharge @ [Process ex_bad]"] _
      ams_step_next [OF ams_reach_inv [OF ex_after_reach [of "ex_to_precharge @ [Process ex_bad]"]],
        of "Notify sceDriverDeactivatesTractiveSystem"]]
    ams_step_next [OF ams_reach_inv [OF ex_after_reach [of "ex_to_precharge @ [Process ex_bad]"]],
        of "Notify sceDriverDeactivatesTractiveSystem"]
    ex_latched by (simp add: notified_def resets_def ams_static_def)

text \<open>C11: from the start of a precharge at which no callback of the timer of an earlier one is posted, no
  sequence of steps of all threads, timers and inputs in which less than 5000 ms pass closes the run
  contactor.  The condition is needed: \<open>stale_callback_ends_precharge\<close>.\<close>

theorem precharge_lasts_minimum_time:
  assumes "ams_reach s" "sc_state s = scsStartedPrecharge" "precharge_timer s = Some 5000" "pc_timer_due s = 0"
    "elapsed es < 5000" "ams_run es s = Some s'"
  shows "\<not> run_contactor_coil s'"
proof -
  have I: "ams_inv s" by (rule ams_reach_inv [OF assms(1)])
  have "too_early 5000 s" using I assms(2-4) by (simp add: too_early_def)
  from too_early_run [OF this _ assms(5)] have "too_early (5000 - elapsed es) s'"
    using ams_run_next [OF I, of es] assms(6) by simp
  then show ?thesis by (auto simp: too_early_def ams_inv_def)
qed

theorem precharge_lasts_minimum_time_witness:
  "\<exists>s'. ams_run [Elapse 4999, PrechargeCallback, Process ex_good] (ex_after ex_to_precharge) = Some s' \<and>
     \<not> run_contactor_coil s'"
  using precharge_lasts_minimum_time [OF ex_after_reach [of ex_to_precharge], where
      es = "[Elapse 4999, PrechargeCallback, Process ex_good]"]
    controllers.runs_inv [OF ams_reach_inv [OF ex_after_reach [of ex_to_precharge]], of
      "[Elapse 4999, PrechargeCallback, Process ex_good]"]
    ex_precharging by (auto simp: ams_static_def)

text \<open>C39: stopping the timer does not take back a callback that is posted already.  When one is still posted
  at the start of the next precharge, it ends that precharge at once: a turn with good inputs starts the
  precharge, the callback runs, and the next turn closes the run contactor, without any time passing.\<close>

theorem stale_callback_ends_precharge:
  assumes "ams_reach s" "sc_state s = scsWaitingForPrechargeActivation" "tractive_power_enable_bit s" "0 < pc_timer_due s"
    and "bms_status i" "imd_status i" "disconnects_status i" "contactor_power_status i"
      "precharge_99_status i" "precharge_oor_status i"
  shows "\<exists>s1 s'. ams_step 4 (Process i) s = Some s1 \<and> sc_state s1 = scsStartedPrecharge \<and> precharge_timer s1 = Some 5000 \<and>
    ams_run [PrechargeCallback, Process i] s1 = Some s' \<and> sc_state s' = scsTractiveSystemRaceReady \<and> run_contactor_coil s'"
proof -
  have I: "ams_inv s" by (rule ams_reach_inv [OF assms(1)])
  have ok: "inputs_ok i" using assms by (simp add: inputs_ok_def)
  define s1 where "s1 = ams_next (Process i) s"
  have n: "ams_step 4 (Process i) s = Some s1" unfolding s1_def by (rule ams_step_next [OF I])
  have s1: "s1 = started (s\<lparr>signal := False\<rparr>)" using assms(2,3) ok by (simp add: s1_def stepped_def)
  have d: "pc_timer_due s1 \<noteq> 0" using assms(4) stepped_timer(1) [of i "s\<lparr>signal := False\<rparr>"] by (simp add: s1_def)
  have f: "sc_state s1 = scsStartedPrecharge" "precharge_timer s1 = Some 5000" by (simp_all add: s1)
  define s' where "s' = running ((s1\<lparr>pc_timer_due := pc_timer_due s1 - 1, sc_state := scsPrechargeMinimumTimeExceeded\<rparr>)\<lparr>signal := False\<rparr>)"
  have "fold ams_next [PrechargeCallback, Process i] s1 = s'"
    using d f ok assms(9,10) by (simp add: fired_def stepped_def s'_def)
  moreover have "ams_run [PrechargeCallback, Process i] s1 = Some (fold ams_next [PrechargeCallback, Process i] s1)"
    unfolding s1_def by (rule ams_run_next [OF ams_next_inv [OF I]])
  ultimately have "ams_run [PrechargeCallback, Process i] s1 = Some s'" by metis
  moreover have "sc_state s' = scsTractiveSystemRaceReady" "run_contactor_coil s'" by (simp_all add: s'_def)
  ultimately show ?thesis using n f by blast
qed

text \<open>Such a state is reached when the driver turns the system off and on between the expiry of the timer and
  its callback.\<close>

definition ex_to_stale :: "ams_ev list" where
  "ex_to_stale = ex_to_precharge @ [Elapse 5000, CanCommand False, CanNotify, Process ex_good, CanCommand True, CanNotify]"

lemma ex_stale: "sc_state (ex_after ex_to_stale) = scsWaitingForPrechargeActivation"
  "tractive_power_enable_bit (ex_after ex_to_stale)" "pc_timer_due (ex_after ex_to_stale) = 1"
  using ex_precharging
  by (simp_all add: ex_after_def ex_to_stale_def elapse_def ams_static_def push_tractive_enable_def notified_def resets_def
      opened_def sync_coils_def stepped_def ex_inputs less_eq_scs_def Let_def)

theorem stale_callback_ends_precharge_witness:
  "\<exists>s1 s'. ams_step 4 (Process ex_good) (ex_after ex_to_stale) = Some s1 \<and> sc_state s1 = scsStartedPrecharge \<and>
     ams_run [PrechargeCallback, Process ex_good] s1 = Some s' \<and> run_contactor_coil s'"
  using stale_callback_ends_precharge [OF ex_after_reach ex_stale(1,2), of ex_good] ex_stale(3) ex_inputs(1)
  unfolding inputs_ok_def by (auto simp: precharge_99_status_def precharge_oor_status_def ex_good_def)

text \<open>C37: good inputs and the driver's command bring the controllers from the start to race ready with
  both contactors closed, once the precharge timer has expired.\<close>

theorem reaches_race_ready:
  assumes "bms_status i" "imd_status i" "disconnects_status i" "contactor_power_status i"
    "precharge_99_status i" "precharge_oor_status i" "ams_main 4 = Some s" "5000 \<le> ms"
  shows "\<exists>s'. ams_run [Process i, CanCommand True, CanNotify, Process i, Elapse ms, PrechargeCallback, Process i] s
      = Some s' \<and> sc_state s' = scsTractiveSystemRaceReady \<and> precharge_contactor_coil s' \<and> run_contactor_coil s'"
proof -
  have s: "s = ex_start" using assms(7) ex_start_main by simp
  have I: "inputs_ok i" using assms by (simp add: inputs_ok_def)
  show ?thesis
    unfolding s ams_run_next [OF ams_reach_inv [OF ex_start_reach]] using assms(5,6,8) I
    by (simp add: ex_start_eq stepped_def push_tractive_enable_def fired_def elapse_def
      ams_static_def notified_def resets_def opened_def started_def running_def sync_coils_def Let_def)
qed

theorem reaches_race_ready_witness:
  "\<exists>s'. ams_run [Process ex_good, CanCommand True, CanNotify, Process ex_good, Elapse 5000, PrechargeCallback,
      Process ex_good] ex_start = Some s' \<and> run_contactor_coil s'"
  using reaches_race_ready [OF _ _ _ _ _ _ ex_start_main, of ex_good 5000] ex_inputs(1)
  by (auto simp: inputs_ok_def precharge_99_status_def precharge_oor_status_def ex_good_def)



text \<open>C40: the state machine ignores the result of the checks after the precharge time.  When, in a turn there,
  the battery management system, the insulation monitor, the service disconnects or the contactor supply
  fails, and the voltage is at 99% and in range, the contactors are opened and the error is latched, and then
  the same turn goes on to race ready, with the contactors open: the latched error is lost, and turns with
  good inputs leave it so.\<close>

theorem race_ready_with_open_contactors:
  assumes "ams_reach s" "sc_state s = scsPrechargeMinimumTimeExceeded"
    "\<not> (bms_status i \<and> imd_status i \<and> disconnects_status i \<and> contactor_power_status i)"
    "precharge_99_status i" "precharge_oor_status i"
  shows "\<exists>s1 s'. process_activated_states 3 i (s\<lparr>signal := False\<rparr>) = Some (False, s1) \<and> sc_state s1 = scsLatchingError \<and>
    ams_step 4 (Process i) s = Some s' \<and>
    sc_state s' = scsTractiveSystemRaceReady \<and> \<not> precharge_contactor_coil s' \<and> \<not> run_contactor_coil s' \<and>
    (\<forall>j. bms_status j \<and> imd_status j \<and> disconnects_status j \<and> contactor_power_status j \<longrightarrow>
       ams_step 4 (Process j) s' = Some (s'\<lparr>signal := False\<rparr>))"
proof -
  have I: "ams_inv s" by (rule ams_reach_inv [OF assms(1)])
  let ?s = "s\<lparr>signal := False\<rparr>" and ?s' = "ams_next (Process i) s"
  have bad: "\<not> inputs_ok i" using assms(3) by (simp add: inputs_ok_def)
  have A: "process_activated_states 3 i ?s = Some (False, opened scsLatchingError ?s)"
    using activated_ok [of ?s "Suc 0" i] I bad by (simp add: numeral_3_eq_3)
  have e: "?s' = refused (opened scsLatchingError ?s)" using assms(2,4,5) bad by (simp add: stepped_def)
  have "ams_step 4 (Process j) ?s' = Some (?s'\<lparr>signal := False\<rparr>)" if "inputs_ok j" for j
    using ams_step_next [OF ams_next_inv [OF I], of "Process j" "Process i"] that e by (simp add: stepped_def)
  then show ?thesis using A ams_step_next [OF I, of "Process i"] e by (auto simp: inputs_ok_def)
qed

theorem race_ready_with_open_contactors_witness:
  "\<exists>s'. ams_step 4 (Process ex_bad) (ex_after ex_to_min) = Some s' \<and> sc_state s' = scsTractiveSystemRaceReady \<and>
     \<not> run_contactor_coil s' \<and> ams_step 4 (Process ex_good) s' = Some (s'\<lparr>signal := False\<rparr>)"
proof -
  have "precharge_99_status ex_bad" "precharge_oor_status ex_bad"
    by (simp_all add: precharge_99_status_def precharge_oor_status_def ex_good_def ex_bad_def)
  moreover have "sc_state (ex_after ex_to_min) = scsPrechargeMinimumTimeExceeded" by (simp add: ex_min)
  ultimately show ?thesis
    using race_ready_with_open_contactors [OF ex_after_reach, of ex_to_min ex_bad] ex_inputs unfolding inputs_ok_def by blast
qed

section \<open>The messages\<close>

lemma msg_data_upd: "msg_id (m\<lparr>msg_data := y\<rparr>) = msg_id m" "msg_data (m\<lparr>msg_data := y\<rparr>) = y"
  by simp_all

text \<open>C30: a status message that the driver accepts arrives: a receiver whose registers get the frame reads
  the status identifier, the mask of the inputs in the first two bytes, and the number of the state in
  the last.\<close>

theorem status_message_arrives:
  assumes "length mem = 8" "length stack = 8" "tx_buffer d = Some k" "length (msg_data m0) = 8"
  shows "\<exists>m d'. status_procedure mem junk i s = Some m \<and> can_write w stack m cc d = Some (True, d') \<and>
    (\<forall>rx. arrives k d' rx \<longrightarrow> (\<exists>m' rx'. can_read m0 rx = Some (True, m', rx') \<and> msg_id m' = CANID_AMS_STATUS \<and>
      get16 (msg_data m') = generate_status_mask i \<and> unat (msg_data m' ! 3) = scs_val (sc_state s)))"
proof -
  let ?m = "status_message mem junk i s"
  have l: "length (msg_data ?m) = 8" "unat (msg_len ?m) = 4" "msg_format ?m \<noteq> CANAny" "msg_id ?m = CANID_AMS_STATUS"
    using assms(1) by (simp_all add: status_message_def bytes16_def)
  have n: "unat (msg_len ?m) \<le> 8" using l(2) by simp
  let ?r = "?m\<lparr>msg_data := take 4 (msg_data ?m) @ drop 4 (msg_data m0)\<rparr>"
  obtain d' where w: "can_write w stack ?m cc d = Some (True, d')" and
    r: "\<forall>rx. arrives k d' rx \<longrightarrow> can_read m0 rx = Some (True, ?r, (can_enable rx)\<lparr>CMR := 0x04\<rparr>)"
    using can_write_read [OF assms(2) l(1) n l(3) assms(3,4), of w cc] unfolding l(2) by blast
  have q: "msg_id ?r = CANID_AMS_STATUS \<and> get16 (msg_data ?r) = generate_status_mask i \<and>
      unat (msg_data ?r ! 3) = scs_val (sc_state s)"
    unfolding msg_data_upd l(4) status_round_trip by (rule conjI [OF refl conjI [OF refl refl]])
  show ?thesis using status_procedure_eq [OF assms(1), of junk i s] w r q by blast
qed

definition ex_tx :: LPC_CAN where
  "ex_tx = \<lparr>MOD = 0, CMR = 0, GSR = 1, ICR = 0, IER = 1, BTR = 0, SR = 0x40404, RFS = 0, RID = 0, RDA = 0, RDB = 0,
     TFI = (\<lambda>_. 0), TID = (\<lambda>_. 0), TDA = (\<lambda>_. 0), TDB = (\<lambda>_. 0)\<rparr>"

theorem status_message_arrives_witness:
  "\<exists>m d'. status_procedure (replicate 8 0) 0 ex_bad ex_start = Some m \<and>
     can_write 0 (replicate 8 0) m False ex_tx = Some (True, d')"
  using status_message_arrives [of "replicate 8 0" "replicate 8 0" ex_tx 1 CANMessage_empty 0 ex_bad ex_start 0 False]
  by (auto simp: tx_buffer_def ex_tx_def CANMessage_empty_def)

text \<open>The bits of the status mask: the summary bit is set exactly when one of the faults that it sums
  up is, the insulation fault has its own bit outside the summary, the overcurrent bit is never set, and
  a failing battery management system sets all five cell bits.\<close>

lemma status_mask_reports:
  "(generate_status_mask i AND STATUS_ERROR_AMS \<noteq> 0 \<longleftrightarrow>
      \<not> (undervoltage_status i \<and> overvoltage_status i \<and> disconnects_status i \<and> bms_status i)) \<and>
   (generate_status_mask i AND STATUS_ERROR_INSULATION_FAULT \<noteq> 0 \<longleftrightarrow> \<not> imd_status i) \<and>
   (generate_status_mask i AND STATUS_INFO_AIR_POWER_AVAILABLE \<noteq> 0 \<longleftrightarrow> contactor_power_status i) \<and>
   generate_status_mask i AND STATUS_ERROR_HARDWARE_OVERCURRENT = 0 \<and>
   generate_status_mask i AND bms_bits = (if bms_status i then 0 else bms_bits)"
  by (cases "imd_status i"; cases "undervoltage_status i"; cases "overvoltage_status i"; cases "disconnects_status i";
      cases "bms_status i"; cases "precharge_oor_status i"; cases "precharge_99_status i"; cases "contactor_power_status i";
      simp add: status_mask_table)

text \<open>Messages that come one at a time into an empty mailbox, no more than it has slots, are
  dispatched in the order they came.\<close>

lemma can_messages_in_order:
  assumes "mail_queue r = []" "length ms \<le> rx_slots r"
  shows "fst (can_mail.gets (length ms) (fold rx_message ms r)) = ms"
  using can_mail.fifo_order [of r ms] assms by simp

definition ex_rx :: can_rx where
  "ex_rx = \<lparr>rx_pending = [], mail_free = 32, next_message = False, mail_queue = [], trashed = []\<rparr>"

definition ex_messages :: "CAN_Message list" where
  "ex_messages = [CANMessage_empty, CANMessage_remote 5 CANStandard]"

text \<open>A command message sets the driver's request to bit 0 of its first byte and enables the
  conversions unless bit 1 is set, and the change of the request is what the state machine is notified of;
  it never changes the state or the contactors itself, and any other message changes nothing.\<close>

lemma command_message_dispatch:
  "dispatch_message m s =
     (if msg_id m = CANID_AMS_COMMAND_MESSAGE \<and> msg_len m \<noteq> 0
      then s\<lparr>tractive_power_enable_bit := odd (msg_data m ! 0),
             performConversions := \<not> bit (msg_data m ! 0) 1,
             can_event := if odd (msg_data m ! 0) = tractive_power_enable_bit s then can_event s
               else Some (if odd (msg_data m ! 0) then sceDriverEnablesTractiveSystem
                          else sceDriverDeactivatesTractiveSystem)\<rparr>
      else s)"
proof -
  have one: "w AND 1 \<noteq> 0 \<longleftrightarrow> odd w" for w :: U8 by (simp add: and_one_eq odd_iff_mod_2_eq_one)
  have two: "w AND 2 \<noteq> 0 \<longleftrightarrow> bit w 1" for w :: U8
    using and_exp_eq_0_iff_not_bit [of w 1] by simp
  have len: "1 \<le> l \<longleftrightarrow> l \<noteq> 0" for l :: U8
    by (auto simp: word_le_nat_alt Suc_le_eq unat_gt_0)
  show ?thesis
    unfolding dispatch_message_def one two len
    by (auto simp: push_tractive_enable_def set_conversions_enable_def Let_def)
qed

section \<open>The driver of the CAN controller\<close>

text \<open>C32: for a bit time of less than 4096 peripheral cycles, \<open>can_speed\<close> returns.  When a prescaler above a
  24th of the bit time divides it into 4 to 25 quanta, the result programs exactly this bit time, with the
  least such prescaler; else it reports an error.\<close>

theorem can_speed_exact:
  assumes "unat (sclk div (pclk * cclk)) = w" "w < 4096"
  shows "\<exists>btr. can_speed sclk pclk cclk psjw = Some btr \<and>
    (if \<exists>p>w div 24. timing_at w p
     then btr \<noteq> 0xFFFFFFFF \<and>
       (unat (drop_bit 16 btr AND 0xF) + unat (drop_bit 20 btr AND 0x7) + 3) * (unat (btr AND 0x3FF) + 1) = w \<and>
       unat (btr AND 0x3FF) = (LEAST p. w div 24 < p \<and> timing_at w p)
     else btr = 0xFFFFFFFF)"
  by (rule can_speed_ok [of sclk pclk cclk psjw, unfolded bit_time_def assms(1), OF assms(2)])

lemma ex_timing: "timing_at 48 3" "(LEAST p. 2 < p \<and> timing_at 48 p) = 3"
proof -
  show "timing_at 48 3" unfolding timing_at_def by (intro exI [of _ 12]) simp
  then show "(LEAST p. 2 < p \<and> timing_at 48 p) = 3" by (intro Least_equality) auto
qed

theorem can_speed_exact_witness:
  "\<exists>btr. can_speed 96000000 4 500000 1 = Some btr \<and> btr \<noteq> 0xFFFFFFFF \<and> unat (btr AND 0x3FF) = 3 \<and>
    (unat (drop_bit 16 btr AND 0xF) + unat (drop_bit 20 btr AND 0x7) + 3) * (unat (btr AND 0x3FF) + 1) = 48"
proof -
  have "\<exists>p>48 div 24. timing_at 48 p" using ex_timing(1) by (intro exI [of _ 3]) simp
  then show ?thesis using can_speed_exact [of 96000000 4 500000 48 1] ex_timing(2) by auto
qed

text \<open>The search starts one prescaler too late: a bit time of 23 cycles has a timing, of 23 quanta with
  the prescaler 0, and is refused.\<close>

lemma can_speed_misses_timing: "timing_at 23 0 \<and> can_speed 92000000 4 1000000 psjw = Some 0xFFFFFFFF"
proof -
  have n: "\<not> (\<exists>p>0. timing_at 23 p)"
  proof
    assume "\<exists>p>0. timing_at 23 p"
    then obtain p where p: "0 < p" "timing_at 23 p" by blast
    from p(2) obtain k where k: "4 \<le> k" "k \<le> 25" "k * (p + 1) = 23" by (auto simp: timing_at_def)
    have "p + 1 \<le> 5" using mult_le_mono1 [OF k(1), of "p + 1"] k(3) by simp
    then have "p = 1 \<or> p = 2 \<or> p = 3 \<or> p = 4" using p(1) by linarith
    then show False using k(3) by (elim disjE) (simp_all, presburger+)
  qed
  have "timing_at 23 0" by (simp add: timing_at_def)
  moreover have w: "unat ((92000000 :: U32) div (4 * 1000000)) = 23" by simp
  ultimately show ?thesis using can_speed_ok [of 92000000 4 1000000 psjw, unfolded w] n by auto
qed

text \<open>For a bit time of more than 1638400 cycles (a few hertz) the search never ends: the prescaler
  is 16 bits wide and wraps below its limit, and no value fits.\<close>

lemma can_speed_never_returns:
  assumes "1638400 < unat (sclk div (pclk * cclk))"
  shows "can_speed sclk pclk cclk psjw = None"
  by (rule can_speed_runs [OF assms])

text \<open>C29: a message that is written to a free transmit buffer and arrives in a receiver's registers is
  read as it was: identifier, length, format, type and data bytes.\<close>

theorem can_write_read_round_trip:
  assumes "length mem = 8" "length (msg_data m) = 8" "unat (msg_len m) \<le> 8" "msg_format m \<noteq> CANAny"
    "tx_buffer d = Some k" "length (msg_data m0) = 8"
  shows "\<exists>d'. can_write junk mem m cc d = Some (True, d') \<and>
    (\<forall>rx. arrives k d' rx \<longrightarrow> (\<exists>m' rx'. can_read m0 rx = Some (True, m', rx') \<and> msg_id m' = msg_id m \<and>
      msg_len m' = msg_len m \<and> msg_format m' = msg_format m \<and> msg_type m' = msg_type m \<and>
      take (unat (msg_len m)) (msg_data m') = take (unat (msg_len m)) (msg_data m)))"
  using can_write_read [OF assms, of junk cc] assms(2,3) by fastforce

theorem can_write_read_round_trip_witness:
  "\<exists>d'. can_write 0 (replicate 8 1) CANMessage_empty True ex_tx = Some (True, d')"
  using can_write_read_round_trip [of "replicate 8 1" CANMessage_empty ex_tx 1 CANMessage_empty 0 True]
  by (auto simp: tx_buffer_def ex_tx_def CANMessage_empty_def)

text \<open>\<open>can_read\<close> copies as many bytes as the frame's length code says, which may be up to 15; for
  a code above 8 it copies past the end of the message.\<close>

lemma can_read_overruns:
  assumes "GSR rx AND 1 \<noteq> 0" "8 < unat (drop_bit 16 (RFS rx) AND 0xF)" "length (msg_data m0) = 8"
  shows "can_read m0 rx = None"
  using can_read_ok [OF assms(1,3)] assms(2) by simp

lemma can_read_overruns_witness: "can_read CANMessage_empty (ex_tx\<lparr>RFS := 0x000F0000\<rparr>) = None"
  using can_read_overruns [of "ex_tx\<lparr>RFS := 0x000F0000\<rparr>" CANMessage_empty]
  by (simp add: ex_tx_def CANMessage_empty_def drop_bit_eq_div)

end
