(* ===== verification/Ams_Inputs.thy ===== *)
theory Ams_Inputs
  imports Gpio_Irq Kernel_Example
begin

text \<open>
  The interrupts of the status inputs (\<open>controller/StackPlausibility.cpp\<close>) down to the kernel: the six objects
  \<open>InterruptIn\<close>, the functions that \<open>initialise\<close> attaches to their edges, and the signals that these functions
  send to the thread of \<open>StackPlausibility\<close> from the interrupt handler.

  The state is the pins (\<open>Gpio_Irq\<close>) extended by the thread's identifier and the kernel.  Where the linker puts the
  objects and the functions is the parameter \<open>L\<close>.
\<close>

section \<open>Data\<close>

definition SIGNAL_BATTERY_UNDERVOLTAGE :: U32 where "SIGNAL_BATTERY_UNDERVOLTAGE = 1"
definition SIGNAL_BATTERY_OVERVOLTAGE :: U32 where "SIGNAL_BATTERY_OVERVOLTAGE = 2"
definition SIGNAL_SERVICE_DISCONNECTS_REMOVED :: U32 where "SIGNAL_SERVICE_DISCONNECTS_REMOVED = 4"
definition SIGNAL_PCOOR_UNASSERT :: U32 where "SIGNAL_PCOOR_UNASSERT = 8"
definition SIGNAL_PC99_UNASSERT :: U32 where "SIGNAL_PC99_UNASSERT = 16"
definition SIGNAL_CONTACTOR_POWER_LOST :: U32 where "SIGNAL_CONTACTOR_POWER_LOST = 32"

lemmas signal_consts = SIGNAL_BATTERY_UNDERVOLTAGE_def SIGNAL_BATTERY_OVERVOLTAGE_def SIGNAL_SERVICE_DISCONNECTS_REMOVED_def
  SIGNAL_PCOOR_UNASSERT_def SIGNAL_PC99_UNASSERT_def SIGNAL_CONTACTOR_POWER_LOST_def

definition STATUS_PCOOR_PIN :: U32 where "STATUS_PCOOR_PIN = LPC_GPIO0_BASE + 11"
definition STATUS_PCUNFIN_PIN :: U32 where "STATUS_PCUNFIN_PIN = LPC_GPIO0_BASE + 10"
definition STATUS_BATTERY_UNDERVOLTAGE_PIN :: U32 where "STATUS_BATTERY_UNDERVOLTAGE_PIN = LPC_GPIO0_BASE + 4"
definition STATUS_BATTERY_OVERVOLTAGE_PIN :: U32 where "STATUS_BATTERY_OVERVOLTAGE_PIN = LPC_GPIO0_BASE + 5"
definition STATUS_RELAY_POWER_DETECT_PIN :: U32 where "STATUS_RELAY_POWER_DETECT_PIN = LPC_GPIO0_BASE + 26"
definition STATUS_SERVICE_DISCONNECT_PIN :: U32 where "STATUS_SERVICE_DISCONNECT_PIN = LPC_GPIO0_BASE + 15"

text \<open>The static objects, and each with the function that is attached to it.\<close>

datatype sp_input = Battery_undervoltage | Battery_overvoltage | Service_disconnects | Precharge_oor | Precharge_99 | Contactor_power

record sp_layout =
  obj_of :: "sp_input \<Rightarrow> U32"
  code_of :: "sp_input \<Rightarrow> U32"
  irq_code_of :: U32          \<comment> \<open>\<open>InterruptIn::_irq_handler\<close>\<close>

record ams_board = gpio +
  m_thread :: ptr
  kern :: kernel

section \<open>The interrupt functions\<close>

text \<open>They run in the handler of the pins, so that \<open>osSignalSet\<close> takes its path for interrupts.\<close>

definition signal_set :: "U32 \<Rightarrow> ams_board \<Rightarrow> ams_board" where
  "signal_set signals s = (case osSignalSet True (m_thread s) signals (kern s) of
     Some (_, k) \<Rightarrow> s\<lparr>kern := k\<rparr> | None \<Rightarrow> s)"

definition buv_interrupt :: "ams_board \<Rightarrow> ams_board" where
  "buv_interrupt = signal_set SIGNAL_BATTERY_UNDERVOLTAGE"
definition bov_interrupt :: "ams_board \<Rightarrow> ams_board" where
  "bov_interrupt = signal_set SIGNAL_BATTERY_OVERVOLTAGE"
definition disconnect_interrupt :: "ams_board \<Rightarrow> ams_board" where
  "disconnect_interrupt = signal_set SIGNAL_SERVICE_DISCONNECTS_REMOVED"
definition pc_oor_interrupt :: "ams_board \<Rightarrow> ams_board" where
  "pc_oor_interrupt = signal_set SIGNAL_PCOOR_UNASSERT"
definition pc_99_interrupt :: "ams_board \<Rightarrow> ams_board" where
  "pc_99_interrupt = signal_set SIGNAL_PC99_UNASSERT"
definition contactor_power_lost_interrupt :: "ams_board \<Rightarrow> ams_board" where
  "contactor_power_lost_interrupt = signal_set SIGNAL_CONTACTOR_POWER_LOST"

lemmas interrupt_defs = buv_interrupt_def bov_interrupt_def disconnect_interrupt_def pc_oor_interrupt_def
  pc_99_interrupt_def contactor_power_lost_interrupt_def

text \<open>What a call of an address does.\<close>

definition sp_code :: "sp_layout \<Rightarrow> U32 \<Rightarrow> ams_board \<Rightarrow> ams_board" where
  "sp_code L f =
     (if f = code_of L Battery_undervoltage then buv_interrupt
      else if f = code_of L Battery_overvoltage then bov_interrupt
      else if f = code_of L Service_disconnects then disconnect_interrupt
      else if f = code_of L Precharge_oor then pc_oor_interrupt
      else if f = code_of L Precharge_99 then pc_99_interrupt
      else if f = code_of L Contactor_power then contactor_power_lost_interrupt
      else (\<lambda>s. s))"

section \<open>Start\<close>

text \<open>The constructors of the static objects, and \<open>StackPlausibility::initialise\<close>.\<close>

definition sp_construct :: "sp_layout \<Rightarrow> ams_board \<Rightarrow> ams_board option" where
  "sp_construct L s = do {
     let new = InterruptIn (irq_code_of L);
     s \<leftarrow> new (obj_of L Battery_undervoltage) STATUS_BATTERY_UNDERVOLTAGE_PIN s;
     s \<leftarrow> new (obj_of L Battery_overvoltage) STATUS_BATTERY_OVERVOLTAGE_PIN s;
     s \<leftarrow> new (obj_of L Service_disconnects) STATUS_SERVICE_DISCONNECT_PIN s;
     s \<leftarrow> new (obj_of L Precharge_oor) STATUS_PCOOR_PIN s;
     s \<leftarrow> new (obj_of L Precharge_99) STATUS_PCUNFIN_PIN s;
     new (obj_of L Contactor_power) STATUS_RELAY_POWER_DETECT_PIN s
   }"

definition sp_initialise :: "sp_layout \<Rightarrow> ams_board \<Rightarrow> ams_board option" where
  "sp_initialise L s = do {
     s \<leftarrow> InterruptIn_rise (obj_of L Service_disconnects) (Some (code_of L Service_disconnects)) s;
     s \<leftarrow> InterruptIn_fall (obj_of L Battery_undervoltage) (Some (code_of L Battery_undervoltage)) s;
     s \<leftarrow> InterruptIn_fall (obj_of L Battery_overvoltage) (Some (code_of L Battery_overvoltage)) s;
     s \<leftarrow> InterruptIn_fall (obj_of L Precharge_oor) (Some (code_of L Precharge_oor)) s;
     s \<leftarrow> InterruptIn_fall (obj_of L Precharge_99) (Some (code_of L Precharge_99)) s;
     InterruptIn_rise (obj_of L Contactor_power) (Some (code_of L Contactor_power)) s
   }"

definition sp_setup :: "sp_layout \<Rightarrow> ams_board \<Rightarrow> ams_board option" where
  "sp_setup L s = do { s \<leftarrow> sp_construct L s; sp_initialise L s }"

section \<open>The functions keep the contract of the interrupt handler\<close>

text \<open>Their effect on the thread's identifier and the kernel.\<close>

definition sp_signal :: "sp_layout \<Rightarrow> U32 \<Rightarrow> U32" where
  "sp_signal L f =
     (if f = code_of L Battery_undervoltage then SIGNAL_BATTERY_UNDERVOLTAGE
      else if f = code_of L Battery_overvoltage then SIGNAL_BATTERY_OVERVOLTAGE
      else if f = code_of L Service_disconnects then SIGNAL_SERVICE_DISCONNECTS_REMOVED
      else if f = code_of L Precharge_oor then SIGNAL_PCOOR_UNASSERT
      else if f = code_of L Precharge_99 then SIGNAL_PC99_UNASSERT
      else SIGNAL_CONTACTOR_POWER_LOST)"

definition send :: "ptr \<Rightarrow> U32 \<Rightarrow> kernel \<Rightarrow> kernel" where
  "send t sig k = snd (isrSignalSet t sig k)"

definition sp_act :: "sp_layout \<Rightarrow> U32 \<Rightarrow> ptr \<times> kernel \<Rightarrow> ptr \<times> kernel" where
  "sp_act L f v = (if f \<in> range (code_of L) then (fst v, send (fst v) (sp_signal L f) (snd v)) else v)"

lemma signal_set_kern: "signal_set sig s = s\<lparr>kern := send (m_thread s) sig (kern s)\<rparr>"
  by (simp add: signal_set_def osSignalSet_def send_def split: prod.split)

lemma inputs_UNIV: "UNIV = {Battery_undervoltage, Battery_overvoltage, Service_disconnects, Precharge_oor, Precharge_99, Contactor_power}"
  using sp_input.exhaust by blast

lemma sp_code_eq:
  "sp_code L f s = (if f \<in> range (code_of L) then signal_set (sp_signal L f) s else s)"
  by (simp add: inputs_UNIV sp_code_def sp_signal_def interrupt_defs)

interpretation sp: irq_functions "sp_code L" "\<lambda>s. (m_thread s, kern s)" "sp_act L" for L
proof
  fix f s v
  show "gpio.truncate (sp_code L f s) = gpio.truncate s"
    by (simp add: sp_code_eq signal_set_kern gpio.truncate_def)
  show "(m_thread (sp_code L f s), kern (sp_code L f s)) = sp_act L f (m_thread s, kern s)"
    by (simp add: sp_code_eq signal_set_kern sp_act_def)
qed (simp_all add: write_IO0IntClr_def write_IO2IntClr_def)

section \<open>After the start\<close>

text \<open>Attaching a function to a pin of port 0, outside critical sections.\<close>

lemma attach_ok:
  assumes "critical_at p 0 (gpio_crit s)" "irq_port (ii_irq s i) = LPC_GPIO0_BASE"
  shows "\<exists>c. critical_at p 0 c \<and> InterruptIn_rise i (Some f) s = Some ((write_IO0IntClr (push_bit (unat (irq_pin (ii_irq s i))) 1) s)
      \<lparr>ii_rise := (ii_rise s)(i := Func f), IO0IntEnR := IO0IntEnR s OR push_bit (unat (irq_pin (ii_irq s i))) 1, gpio_crit := c\<rparr>)"
    and "\<exists>c. critical_at p 0 c \<and> InterruptIn_fall i (Some f) s = Some ((write_IO0IntClr (push_bit (unat (irq_pin (ii_irq s i))) 1) s)
      \<lparr>ii_fall := (ii_fall s)(i := Func f), IO0IntEnF := IO0IntEnF s OR push_bit (unat (irq_pin (ii_irq s i))) 1, gpio_crit := c\<rparr>)"
proof -
  obtain c1 where 1: "core_util_critical_section_enter (gpio_crit s) = Some c1" "critical_at p (Suc 0) c1"
    by (rule critical_enter_ok [OF assms(1)]) simp
  obtain c2 where 2: "core_util_critical_section_exit c1 = Some c2" "critical_at p 0 c2"
    by (rule critical_exit_ok [OF 1(2)])
  show "\<exists>c. critical_at p 0 c \<and> InterruptIn_rise i (Some f) s = Some ((write_IO0IntClr (push_bit (unat (irq_pin (ii_irq s i))) 1) s)
      \<lparr>ii_rise := (ii_rise s)(i := Func f), IO0IntEnR := IO0IntEnR s OR push_bit (unat (irq_pin (ii_irq s i))) 1, gpio_crit := c\<rparr>)"
    "\<exists>c. critical_at p 0 c \<and> InterruptIn_fall i (Some f) s = Some ((write_IO0IntClr (push_bit (unat (irq_pin (ii_irq s i))) 1) s)
      \<lparr>ii_fall := (ii_fall s)(i := Func f), IO0IntEnF := IO0IntEnF s OR push_bit (unat (irq_pin (ii_irq s i))) 1, gpio_crit := c\<rparr>)"
    using assms(2) 1 2
    by (auto intro!: exI [of _ c2] simp: InterruptIn_rise_def InterruptIn_fall_def gpio_crit_enter_def gpio_crit_exit_def
      gpio_irq_set_def write_IO0IntClr_def Let_def)
qed

text \<open>Constructing an object on pin \<open>n\<close> of port 0.\<close>

definition pin_irq :: "U32 \<Rightarrow> gpio_irq_t" where
  "pin_irq n = \<lparr>irq_port = LPC_GPIO0_BASE, irq_pin = n, irq_ch = n\<rparr>"

lemma construct_ok:
  assumes "n < 32"
  shows "InterruptIn h i (LPC_GPIO0_BASE + n) s = Some (s\<lparr>ii_rise := (ii_rise s)(i := Donothing), ii_fall := (ii_fall s)(i := Donothing),
    irq_handler := h, channel_ids := (channel_ids s)[unat n := i], EINT3_vector := True, EINT3_enabled := True,
    ii_irq := (ii_irq s)(i := pin_irq n)\<rparr>)"
proof -
  let ?x = "LPC_GPIO0_BASE + n"
  have m: "(0x1F :: U32) = mask 5" by (simp add: mask_eq_exp_minus_1)
  have u: "unat ?x = 0x2009C000 + unat n" using assms unat_add_u32 [of LPC_GPIO0_BASE n] by (simp add: gpio_consts word_less_nat_alt)
  have "unat (take_bit 5 ?x) = (0x2009C000 + unat n) mod 32"
    by (subst unsigned_take_bit_eq) (simp add: u take_bit_eq_mod)
  also have "\<dots> = unat n" using assms by (simp add: word_less_nat_alt mod_add_eq [symmetric])
  finally have "unat (take_bit 5 ?x) = unat n" .
  then have low: "?x AND 0x1F = n" unfolding m take_bit_eq_mask [symmetric] by (simp only: word_unat_eq_iff)
  have "?x = (?x AND NOT 0x1F) OR (?x AND 0x1F)" by (rule bit_word_eqI) (auto simp: bit_simps)
  also have "\<dots> = (?x AND NOT 0x1F) + (?x AND 0x1F)"
    by (rule disjunctive_add_eq_or [symmetric]) (rule bit_word_eqI, auto simp: bit_simps)
  finally have p: "?x AND NOT 0x1F = LPC_GPIO0_BASE" "?x AND 0x1F = n" using low by simp_all
  have "LPC_GPIO0_BASE + n \<noteq> NC" using p(1) by (auto simp: gpio_consts)
  then show ?thesis
    using p(1) [simplified]
    by (cases "ii_irq s i") (simp add: InterruptIn_def gpio_irq_init_def Let_def p(2) pin_irq_def)
qed

definition sp_ids :: "sp_layout \<Rightarrow> U32 list" where
  "sp_ids L = (replicate CHANNEL_NUM 0)[4 := obj_of L Battery_undervoltage, 5 := obj_of L Battery_overvoltage,
     15 := obj_of L Service_disconnects, 11 := obj_of L Precharge_oor, 10 := obj_of L Precharge_99, 26 := obj_of L Contactor_power]"

lemmas pin_defs = STATUS_PCOOR_PIN_def STATUS_PCUNFIN_PIN_def STATUS_BATTERY_UNDERVOLTAGE_PIN_def STATUS_BATTERY_OVERVOLTAGE_PIN_def
  STATUS_RELAY_POWER_DETECT_PIN_def STATUS_SERVICE_DISCONNECT_PIN_def

fun sp_pin :: "sp_input \<Rightarrow> U32" where
  "sp_pin Battery_undervoltage = 4"
| "sp_pin Battery_overvoltage = 5"
| "sp_pin Service_disconnects = 15"
| "sp_pin Precharge_oor = 11"
| "sp_pin Precharge_99 = 10"
| "sp_pin Contactor_power = 26"

lemma all_inputs:
  "(\<forall>i. P i) \<longleftrightarrow> P Battery_undervoltage \<and> P Battery_overvoltage \<and> P Service_disconnects \<and> P Precharge_oor \<and>
     P Precharge_99 \<and> P Contactor_power"
  unfolding ball_UNIV [symmetric] inputs_UNIV by simp

lemma sp_construct_ok:
  assumes "inj (obj_of L)" "channel_ids s = replicate CHANNEL_NUM 0"
  shows "\<exists>s'. sp_construct L s = Some s' \<and> (\<forall>i. ii_irq s' (obj_of L i) = pin_irq (sp_pin i)) \<and> channel_ids s' = sp_ids L \<and>
    gpio_crit s' = gpio_crit s \<and> (\<forall>i. ii_rise s' (obj_of L i) = Donothing \<and> ii_fall s' (obj_of L i) = Donothing) \<and>
    IO0IntEnR s' = IO0IntEnR s \<and> IO0IntEnF s' = IO0IntEnF s \<and> EINT3_vector s' \<and> EINT3_enabled s' \<and>
    kern s' = kern s \<and> m_thread s' = m_thread s"
  unfolding all_inputs
  by (simp add: sp_construct_def pin_defs construct_ok assms(2) sp_ids_def inj_eq [OF assms(1)] list_update_swap)

text \<open>After some functions are attached: the inputs \<open>rs\<close> on rising and \<open>fs\<close> on falling edges.\<close>

definition attached_to :: "sp_layout \<Rightarrow> ams_board \<Rightarrow> bool \<Rightarrow> sp_input list \<Rightarrow> sp_input list \<Rightarrow> ams_board \<Rightarrow> bool" where
  "attached_to L s0 p rs fs s \<longleftrightarrow> critical_at p 0 (gpio_crit s) \<and> ii_irq s = ii_irq s0 \<and> channel_ids s = channel_ids s0 \<and>
     EINT3_vector s = EINT3_vector s0 \<and> EINT3_enabled s = EINT3_enabled s0 \<and> kern s = kern s0 \<and> m_thread s = m_thread s0 \<and>
     (\<forall>i. ii_rise s (obj_of L i) = (if i \<in> set rs then Func (code_of L i) else Donothing)) \<and>
     (\<forall>i. ii_fall s (obj_of L i) = (if i \<in> set fs then Func (code_of L i) else Donothing)) \<and>
     IO0IntEnR s = fold (\<lambda>i w. w OR push_bit (unat (sp_pin i)) 1) rs (IO0IntEnR s0) \<and>
     IO0IntEnF s = fold (\<lambda>i w. w OR push_bit (unat (sp_pin i)) 1) fs (IO0IntEnF s0)"

lemma attach_next:
  assumes "inj (obj_of L)" "\<forall>i. ii_irq s0 (obj_of L i) = pin_irq (sp_pin i)" "attached_to L s0 p rs fs s"
  shows "\<exists>s'. InterruptIn_rise (obj_of L i) (Some (code_of L i)) s = Some s' \<and> attached_to L s0 p (rs @ [i]) fs s'"
    "\<exists>s'. InterruptIn_fall (obj_of L i) (Some (code_of L i)) s = Some s' \<and> attached_to L s0 p rs (fs @ [i]) s'"
proof -
  have c: "critical_at p 0 (gpio_crit s)" and q: "ii_irq s (obj_of L i) = pin_irq (sp_pin i)"
    using assms by (simp_all add: attached_to_def)
  then have b: "irq_port (ii_irq s (obj_of L i)) = LPC_GPIO0_BASE" by (simp add: pin_irq_def)
  note defs = attached_to_def inj_eq [OF assms(1)] pin_irq_def write_IO0IntClr_def
  obtain d where "critical_at p 0 d" "InterruptIn_rise (obj_of L i) (Some (code_of L i)) s =
      Some ((write_IO0IntClr (push_bit (unat (sp_pin i)) 1) s)\<lparr>ii_rise := (ii_rise s)(obj_of L i := Func (code_of L i)),
        IO0IntEnR := IO0IntEnR s OR push_bit (unat (sp_pin i)) 1, gpio_crit := d\<rparr>)"
    using attach_ok(1) [OF c b, of "code_of L i"] q by (auto simp: pin_irq_def)
  then show "\<exists>s'. InterruptIn_rise (obj_of L i) (Some (code_of L i)) s = Some s' \<and> attached_to L s0 p (rs @ [i]) fs s'"
    using assms(3) by (auto simp: defs)
  obtain d where "critical_at p 0 d" "InterruptIn_fall (obj_of L i) (Some (code_of L i)) s =
      Some ((write_IO0IntClr (push_bit (unat (sp_pin i)) 1) s)\<lparr>ii_fall := (ii_fall s)(obj_of L i := Func (code_of L i)),
        IO0IntEnF := IO0IntEnF s OR push_bit (unat (sp_pin i)) 1, gpio_crit := d\<rparr>)"
    using attach_ok(2) [OF c b, of "code_of L i"] q by (auto simp: pin_irq_def)
  then show "\<exists>s'. InterruptIn_fall (obj_of L i) (Some (code_of L i)) s = Some s' \<and> attached_to L s0 p rs (fs @ [i]) s'"
    using assms(3) by (auto simp: defs)
qed

lemma sp_setup_ok:
  assumes L: "inj (obj_of L)" and s: "channel_ids s = replicate CHANNEL_NUM 0" "critical_at p 0 (gpio_crit s)"
  shows "\<exists>s0 s'. sp_setup L s = Some s' \<and> channel_ids s0 = sp_ids L \<and> EINT3_vector s0 \<and> EINT3_enabled s0 \<and>
    kern s0 = kern s \<and> m_thread s0 = m_thread s \<and> IO0IntEnR s0 = IO0IntEnR s \<and> IO0IntEnF s0 = IO0IntEnF s \<and>
    attached_to L s0 p [Service_disconnects, Contactor_power] [Battery_undervoltage, Battery_overvoltage, Precharge_oor, Precharge_99] s'"
proof -
  obtain s0 where 0: "sp_construct L s = Some s0" "\<forall>i. ii_irq s0 (obj_of L i) = pin_irq (sp_pin i)" "channel_ids s0 = sp_ids L"
    "gpio_crit s0 = gpio_crit s" "\<forall>i. ii_rise s0 (obj_of L i) = Donothing \<and> ii_fall s0 (obj_of L i) = Donothing"
    "IO0IntEnR s0 = IO0IntEnR s" "IO0IntEnF s0 = IO0IntEnF s" "EINT3_vector s0" "EINT3_enabled s0" "kern s0 = kern s"
    "m_thread s0 = m_thread s"
    using sp_construct_ok [OF L s(1)] by auto
  note next' = attach_next [OF L 0(2)]
  have a: "attached_to L s0 p [] [] s0" using 0(4,5) s(2) by (simp add: attached_to_def)
  from next'(1) [OF a, of Service_disconnects] obtain s1 where
    1: "InterruptIn_rise (obj_of L Service_disconnects) (Some (code_of L Service_disconnects)) s0 = Some s1" "attached_to L s0 p [Service_disconnects] [] s1"
    by auto
  from next'(2) [OF 1(2), of Battery_undervoltage] obtain s2 where
    2: "InterruptIn_fall (obj_of L Battery_undervoltage) (Some (code_of L Battery_undervoltage)) s1 = Some s2" "attached_to L s0 p [Service_disconnects] [Battery_undervoltage] s2"
    by auto
  from next'(2) [OF 2(2), of Battery_overvoltage] obtain s3 where
    3: "InterruptIn_fall (obj_of L Battery_overvoltage) (Some (code_of L Battery_overvoltage)) s2 = Some s3" "attached_to L s0 p [Service_disconnects] [Battery_undervoltage, Battery_overvoltage] s3"
    by auto
  from next'(2) [OF 3(2), of Precharge_oor] obtain s4 where
    4: "InterruptIn_fall (obj_of L Precharge_oor) (Some (code_of L Precharge_oor)) s3 = Some s4"
      "attached_to L s0 p [Service_disconnects] [Battery_undervoltage, Battery_overvoltage, Precharge_oor] s4"
    by auto
  from next'(2) [OF 4(2), of Precharge_99] obtain s5 where
    5: "InterruptIn_fall (obj_of L Precharge_99) (Some (code_of L Precharge_99)) s4 = Some s5"
      "attached_to L s0 p [Service_disconnects] [Battery_undervoltage, Battery_overvoltage, Precharge_oor, Precharge_99] s5"
    by auto
  from next'(1) [OF 5(2), of Contactor_power] obtain s6 where
    6: "InterruptIn_rise (obj_of L Contactor_power) (Some (code_of L Contactor_power)) s5 = Some s6"
      "attached_to L s0 p [Service_disconnects, Contactor_power] [Battery_undervoltage, Battery_overvoltage, Precharge_oor, Precharge_99] s6"
    by auto
  have "sp_setup L s = Some s6"
    by (simp add: sp_setup_def sp_initialise_def 0(1) 1(1) 2(1) 3(1) 4(1) 5(1) 6(1))
  then show ?thesis using 0 6(2) by blast
qed

section \<open>The signals\<close>

text \<open>The signals of the edges that are pending, in the order of the handler.\<close>

definition edge_signals :: "U32 \<Rightarrow> U32 \<Rightarrow> U32 list" where
  "edge_signals R F =
     map snd (filter (\<lambda>x. bit R (fst x)) [(26, SIGNAL_CONTACTOR_POWER_LOST), (15, SIGNAL_SERVICE_DISCONNECTS_REMOVED)]) @
     map snd (filter (\<lambda>x. bit F (fst x)) [(11, SIGNAL_PCOOR_UNASSERT), (10, SIGNAL_PC99_UNASSERT),
       (5, SIGNAL_BATTERY_OVERVOLTAGE), (4, SIGNAL_BATTERY_UNDERVOLTAGE)])"

text \<open>The requests of a thread are addressed by its number.\<close>

definition addressed :: "kernel \<Rightarrow> ptr \<Rightarrow> bool" where
  "addressed k t \<longleftrightarrow> t \<noteq> NULL \<and> rt_tid2ptcb k t = t \<and> os_active_TCB k ! (unat (task_id k t) - 1) = t"

lemma send_ok:
  assumes "addressed k t" "psq_wf k" "length (psq_items k) < unat (psq_size k)" "sig \<in> {1, 2, 4, 8, 16, 32}"
  shows "psq_items (send t sig k) = psq_items k @ [(t, sig)]" "psq_wf (send t sig k)" "addressed (send t sig k) t"
    "psq_size (send t sig k) = psq_size k"
proof -
  have s: "bad_signals sig = False" "(ucast (ucast sig :: U16) :: U32) = sig"
    using assms(4) by (auto simp: bad_signals_def osFeature_Signals_def)
  have c: "psq_count k < psq_size k" using assms(3) by (simp add: psq_items_def psq_from_def word_less_nat_alt)
  have e: "send t sig k = rt_psh_req (rt_psq_enq t sig k)"
    using assms(1) s by (simp add: send_def isrSignalSet_def isr_evt_set_def addressed_def Let_def)
  note q = psq_enq_ok [OF assms(2) c, of t sig]
  have i: "psq_items (rt_psh_req k') = psq_items k'" "psq_wf (rt_psh_req k') = psq_wf k'" "psq_size (rt_psh_req k') = psq_size k'"
    "addressed (rt_psh_req k') t = addressed k' t" for k'
    by (simp_all add: rt_psh_req_def psq_items_def psq_from_def psq_wf_def addressed_def rt_tid2ptcb_def)
  show "psq_items (send t sig k) = psq_items k @ [(t, sig)]" "psq_wf (send t sig k)" "psq_size (send t sig k) = psq_size k"
    using q by (simp_all add: e i)
  have "cb_type (rt_psq_enq t sig k) = cb_type k" "task_id (rt_psq_enq t sig k) = task_id k"
    "os_active_TCB (rt_psq_enq t sig k) = os_active_TCB k"
    by (simp_all add: rt_psq_enq_def rt_inc_qi_def os_error_def Let_def)
  then have "addressed (rt_psq_enq t sig k) t" using assms(1) by (simp add: addressed_def rt_tid2ptcb_def split: if_splits)
  then show "addressed (send t sig k) t" by (simp add: e i)
qed

lemma sends_ok:
  assumes "addressed k t" "psq_wf k" "length (psq_items k) + length xs \<le> unat (psq_size k)" "\<forall>x\<in>set xs. x \<in> {1, 2, 4, 8, 16, 32}"
  shows "psq_items (fold (send t) xs k) = psq_items k @ map (Pair t) xs \<and> psq_wf (fold (send t) xs k)"
  using assms
proof (induction xs arbitrary: k)
  case (Cons x xs)
  then show ?case using send_ok [OF Cons.prems(1,2), of x] Cons.IH [of "send t x k"] by simp
qed simp

lemma filter_swap: "filter P (filter Q xs) = filter Q (filter P xs)"
  by (induction xs) auto

lemma sp_calls:
  assumes "\<forall>i. obj_of L i \<noteq> 0"
  shows "calls_of (sp_ids L) 0 32 ev w = map (\<lambda>b. (sp_ids L ! b, ev)) (filter (bit w) [26, 15, 11, 10, 5, 4])"
    "calls_of (sp_ids L) 32 16 ev w = []"
proof -
  have ids: "sp_ids L ! b = (if b = 26 then obj_of L Contactor_power else if b = 10 then obj_of L Precharge_99
      else if b = 11 then obj_of L Precharge_oor else if b = 15 then obj_of L Service_disconnects
      else if b = 5 then obj_of L Battery_overvoltage else if b = 4 then obj_of L Battery_undervoltage else 0)" if "b < 48" for b
    using that by (simp add: sp_ids_def CHANNEL_NUM_def nth_list_update)
  have r: "rev [0..<32] = [31, 30, 29, 28, 27, 26, 25, 24, 23, 22, 21, 20, 19, 18, 17, 16, 15, 14, 13, 12, 11, 10, 9, 8, 7,
      6, 5, 4, 3, 2, 1, 0 :: nat]" by code_simp
  have "filter (\<lambda>b. b < 32 \<and> sp_ids L ! b \<noteq> 0) (rev [0..<32]) = [26, 15, 11, 10, 5, 4]"
    unfolding r by (simp add: ids assms)
  then show "calls_of (sp_ids L) 0 32 ev w = map (\<lambda>b. (sp_ids L ! b, ev)) (filter (bit w) [26, 15, 11, 10, 5, 4])"
    unfolding calls_of_def bits_desc_def by (subst filter_swap) simp
  have "\<forall>b<16. sp_ids L ! (b + 32) = 0" by (simp add: ids)
  then show "calls_of (sp_ids L) 32 16 ev w = []" by (auto simp: calls_of_def filter_empty_conv)
qed

lemma sp_ids_nth:
  "sp_ids L ! 26 = obj_of L Contactor_power" "sp_ids L ! 15 = obj_of L Service_disconnects" "sp_ids L ! 11 = obj_of L Precharge_oor"
  "sp_ids L ! 10 = obj_of L Precharge_99" "sp_ids L ! 5 = obj_of L Battery_overvoltage" "sp_ids L ! 4 = obj_of L Battery_undervoltage"
  by (simp_all add: sp_ids_def CHANNEL_NUM_def)

lemma sp_handled:
  assumes L: "\<forall>i. obj_of L i \<noteq> 0" "inj (code_of L)" and c: "channel_ids s = sp_ids L"
    and r: "\<forall>i. ii_rise s (obj_of L i) = (if i \<in> {Service_disconnects, Contactor_power} then Func (code_of L i) else Donothing)"
    and f: "\<forall>i. ii_fall s (obj_of L i) = (if i \<in> {Service_disconnects, Contactor_power} then Donothing else Func (code_of L i))"
  shows "kern (handle_interrupt_in (InterruptIn_irq_handler (sp_code L)) s) =
    fold (send (m_thread s)) (edge_signals (IO0IntStatR s) (IO0IntStatF s)) (kern s)"
proof -
  let ?s = "handle_interrupt_in (InterruptIn_irq_handler (sp_code L)) s" and ?g = "\<lambda>x. call_fn (sp_act L) (attached s x)"
  let ?calls = "\<lambda>ev w. map (\<lambda>b. (sp_ids L ! b, ev)) (filter (bit w) [26, 15, 11, 10, 5, 4])"
  have a: "attached s (obj_of L i, IRQ_RISE) = (if i \<in> {Service_disconnects, Contactor_power} then Func (code_of L i) else Donothing)"
    "attached s (obj_of L i, IRQ_FALL) = (if i \<in> {Service_disconnects, Contactor_power} then Donothing else Func (code_of L i))" for i
    using r f by (simp_all add: attached_def)
  have g: "?g (obj_of L i, IRQ_RISE) v = (if i \<in> {Service_disconnects, Contactor_power} then sp_act L (code_of L i) v else v)"
    "?g (obj_of L i, IRQ_FALL) v = (if i \<in> {Service_disconnects, Contactor_power} then v else sp_act L (code_of L i) v)" for i v
    by (simp_all add: a call_fn_def)
  have act: "sp_act L (code_of L i) (t, k) = (t, send t (sp_signal L (code_of L i)) k)" for i t k by (simp add: sp_act_def)
  note sig = sp_signal_def inj_eq [OF L(2)]
  let ?R = "IO0IntStatR s" and ?F = "IO0IntStatF s"
  have "deliveries s = ?calls IRQ_RISE ?R @ ?calls IRQ_FALL ?F"
    by (simp only: deliveries_def c sp_calls [OF L(1)] append_Nil2)
  then have "(m_thread ?s, kern ?s) = fold ?g (?calls IRQ_RISE ?R @ ?calls IRQ_FALL ?F) (m_thread s, kern s)"
    using sp.attached_called [of L s] by simp
  also have "\<dots> = (m_thread s, fold (send (m_thread s)) (edge_signals ?R ?F) (kern s))"
    by (simp add: sp_ids_nth g act sig edge_signals_def cong: if_cong)
  finally show ?thesis by simp
qed

text \<open>C31: once the objects are constructed and \<open>initialise\<close> has run, each edge that the inputs are to report sends its
  signal to the thread: whatever bits are pending when the interrupt handler runs, it clears them all, and the
  kernel gets, behind the requests it has, one for each pending edge with a function, in the order of the handler.\<close>

theorem edges_signal_plausibility_thread:
  assumes "inj (obj_of L)" "\<forall>i. obj_of L i \<noteq> 0" "inj (code_of L)" "channel_ids b = replicate CHANNEL_NUM 0" "critical_at p 0 (gpio_crit b)"
    and "addressed k t" "psq_wf k" "length (psq_items k) + 6 \<le> unat (psq_size k)"
  shows "\<exists>b1. sp_setup L b = Some b1 \<and> EINT3_vector b1 \<and> EINT3_enabled b1 \<and> kern b1 = kern b \<and>
    IO0IntEnR b1 = IO0IntEnR b OR 0x04008000 \<and> IO0IntEnF b1 = IO0IntEnF b OR 0x0C30 \<and>
    (\<forall>R F R2 F2.
      let b2 = handle_interrupt_in (InterruptIn_irq_handler (sp_code L))
        (b1\<lparr>IO0IntStatR := R, IO0IntStatF := F, IO2IntStatR := R2, IO2IntStatF := F2, m_thread := t, kern := k\<rparr>)
      in psq_items (kern b2) = psq_items k @ map (Pair t) (edge_signals R F) \<and> psq_wf (kern b2) \<and>
        IO0IntStatR b2 = 0 \<and> IO0IntStatF b2 = 0 \<and> IO2IntStatR b2 = 0 \<and> IO2IntStatF b2 = 0)"
proof -
  obtain b0 b1 where b: "sp_setup L b = Some b1" "channel_ids b0 = sp_ids L" "EINT3_vector b0" "EINT3_enabled b0" "kern b0 = kern b"
    "IO0IntEnR b0 = IO0IntEnR b" "IO0IntEnF b0 = IO0IntEnF b"
    "attached_to L b0 p [Service_disconnects, Contactor_power] [Battery_undervoltage, Battery_overvoltage, Precharge_oor, Precharge_99] b1"
    using sp_setup_ok [OF assms(1,4,5)] by blast
  have f: "(if i \<in> set [Battery_undervoltage, Battery_overvoltage, Precharge_oor, Precharge_99] then x else y) =
      (if i \<in> {Service_disconnects, Contactor_power} then y else x)" for i and x y :: callback_fn
    by (cases i) simp_all
  note b1 = b(8) [unfolded attached_to_def f]
  have "psq_items (fold (send t) (edge_signals R F) k) = psq_items k @ map (Pair t) (edge_signals R F) \<and>
      psq_wf (fold (send t) (edge_signals R F) k)" for R F
  proof (rule sends_ok [OF assms(6,7)])
    have "length (edge_signals R F) \<le> 6" by (simp add: edge_signals_def)
    then show "length (psq_items k) + length (edge_signals R F) \<le> unat (psq_size k)" using assms(8) by linarith
    show "\<forall>x\<in>set (edge_signals R F). x \<in> {1, 2, 4, 8, 16, 32}" by (auto simp: edge_signals_def signal_consts)
  qed
  moreover have "kern (handle_interrupt_in (InterruptIn_irq_handler (sp_code L))
      (b1\<lparr>IO0IntStatR := R, IO0IntStatF := F, IO2IntStatR := R2, IO2IntStatF := F2, m_thread := t, kern := k\<rparr>)) =
      fold (send t) (edge_signals R F) k" for R F R2 F2
    by (subst sp_handled [OF assms(2,3)]) (use b1 b(2) in simp_all)
  moreover have "IO0IntEnR b1 = IO0IntEnR b OR 0x04008000" "IO0IntEnF b1 = IO0IntEnF b OR 0x0C30"
    using b1 by (simp_all add: b(6,7) or.assoc push_bit_eq_mult)
  ultimately show ?thesis using b1 b by (simp add: Let_def sp.client.handle_ok)
qed

section \<open>An example\<close>

definition ex_layout :: sp_layout where
  "ex_layout = \<lparr>obj_of = (\<lambda>i. 0x10000000 + 32 * sp_pin i), code_of = (\<lambda>i. 0x400 + 16 * sp_pin i), irq_code_of = 0x800\<rparr>"

definition ex_board :: ams_board where
  "ex_board = \<lparr>channel_ids = replicate CHANNEL_NUM 0, irq_handler = 0, IO0IntStatR = 0, IO0IntStatF = 0, IO0IntEnR = 0, IO0IntEnF = 0,
     IO2IntStatR = 0, IO2IntStatF = 0, IO2IntEnR = 0, IO2IntEnF = 0, EINT3_vector = False, EINT3_enabled = False,
     gpio_crit = \<lparr>interrupt_enable_counter = 0, critical_interrupts_disabled = False, primask = False\<rparr>,
     ii_irq = (\<lambda>_. \<lparr>irq_port = 0, irq_pin = 0, irq_ch = 0\<rparr>), ii_rise = (\<lambda>_. Donothing), ii_fall = (\<lambda>_. Donothing),
     m_thread = NULL, kern = ex_sys\<rparr>"

lemma ex_layout_ok: "inj (obj_of ex_layout)" "\<forall>i. obj_of ex_layout i \<noteq> 0" "inj (code_of ex_layout)"
  unfolding inj_def all_inputs by (simp_all add: ex_layout_def)

lemma ex_thread_addressed: "addressed ex_sys (CB 48)" "psq_wf ex_sys" "psq_items ex_sys = []" "unat (psq_size ex_sys) \<ge> 6"
  by (simp_all add: addressed_def rt_tid2ptcb_def addr_of_def ex_sys_def psq_wf_def psq_items_def psq_from_def ring_def)

theorem edges_signal_plausibility_thread_witness:
  "\<exists>b1. sp_setup ex_layout ex_board = Some b1 \<and> IO0IntEnR b1 = 0x04008000 \<and>
    psq_items (kern (handle_interrupt_in (InterruptIn_irq_handler (sp_code ex_layout))
      (b1\<lparr>IO0IntStatR := 0x8000, IO0IntStatF := 0x30, IO2IntStatR := 1, IO2IntStatF := 0, m_thread := CB 48, kern := ex_sys\<rparr>))) =
    [(CB 48, 4), (CB 48, 2), (CB 48, 1)]"
proof -
  have "channel_ids ex_board = replicate CHANNEL_NUM 0" "critical_at False 0 (gpio_crit ex_board)" "IO0IntEnR ex_board = 0"
    by (simp_all add: ex_board_def critical_at_def)
  then obtain b1 where "sp_setup ex_layout ex_board = Some b1" "IO0IntEnR b1 = 0x04008000"
    "\<And>R F R2 F2. psq_items (kern (handle_interrupt_in (InterruptIn_irq_handler (sp_code ex_layout))
      (b1\<lparr>IO0IntStatR := R, IO0IntStatF := F, IO2IntStatR := R2, IO2IntStatF := F2, m_thread := CB 48, kern := ex_sys\<rparr>))) =
      map (Pair (CB 48)) (edge_signals R F)"
    using edges_signal_plausibility_thread [OF ex_layout_ok, of ex_board False ex_sys "CB 48"] ex_thread_addressed
    by (auto simp: Let_def)
  moreover have "edge_signals 0x8000 0x30 = [4, 2, 1]" by (simp add: edge_signals_def signal_consts)
  ultimately show ?thesis by auto
qed

end
